(* ===== verification/Prelude.thy ===== *)
theory Prelude
  imports Main "HOL-Library.Word"
begin

text \<open>
  Shared vocabulary of the development: the widths of the C types the sources
  use (LP64, the platform the build files target), the named collections the component
  proofs draw on, and generic facts on lists, options and words.

  C's \<^verbatim>\<open>int\<close> values whose arithmetic stays in range are modelled as \<^typ>\<open>int\<close>; unsigned
  values that are masked, shifted or may wrap are machine words.
\<close>

unbundle bit_operations_syntax

named_theorems field_simps_lua "laws of instruction bit fields"
named_theorems lua_defs "definitions of small C macros"

type_synonym u8 = "8 word"
type_synonym u32 = "32 word"
type_synonym u64 = "64 word"

text \<open>Indexing an array with a C \<^verbatim>\<open>int\<close>: \<^const>\<open>None\<close> outside the allocated cells.\<close>

definition at :: "'a list \<Rightarrow> int \<Rightarrow> 'a option" where
  "at xs i = (if 0 \<le> i \<and> nat i < length xs then Some (xs ! nat i) else None)"

lemma at_Some_iff: "at xs i = Some x \<longleftrightarrow> 0 \<le> i \<and> nat i < length xs \<and> xs ! nat i = x"
  by (auto simp: at_def)

lemma at_of_nat [simp]: "i < length xs \<Longrightarrow> at xs (int i) = Some (xs ! i)"
  by (simp add: at_def)

lemma at_None_iff: "at xs i = None \<longleftrightarrow> i < 0 \<or> int (length xs) \<le> i"
  by (auto simp: at_def)

lemma option_bind_Some_iff:
  "Option.bind m f = Some y \<longleftrightarrow> (\<exists>x. m = Some x \<and> f x = Some y)"
  by (cases m) auto

end
