(* ===== verification/Labrea_Calls.thy ===== *)
theory Labrea_Calls
  imports Prelude
begin

text \<open>
  The intercepted functions of labrea: \<^verbatim>\<open>labreatypes.h\<close>, \<^verbatim>\<open>calls.defs\<close>, \<^verbatim>\<open>definecalls.h\<close>,
  the table and offset computation of \<^verbatim>\<open>labrea.cc\<close>, and the invoker generator
  \<^verbatim>\<open>mkgeninvoker.py\<close> whose output \<^verbatim>\<open>do_invoke\<close> dispatches into.

  The C++ program encodes a signature (the width, 4 or 8 bytes, of each argument and of the
  result) as a bit string; the Python generator builds, independently, the array of invokers
  the encoding indexes.  The theory proves that the two agree.
\<close>

subsection \<open>Types of the intercepted functions\<close>

text \<open>The C types that occur in \<^verbatim>\<open>calls.defs\<close>; every pointer type behaves alike.\<close>

datatype ctype = Cint | Cuint | Clong | Cssize_t | Coff_t | Csize_t | Cptr

fun ct_sizeof :: "ctype \<Rightarrow> nat" where
  "ct_sizeof Cint = 4"
| "ct_sizeof Cuint = 4"
| "ct_sizeof Clong = 8"
| "ct_sizeof Cssize_t = 8"
| "ct_sizeof Coff_t = 8"
| "ct_sizeof Csize_t = 8"
| "ct_sizeof Cptr = 8"

definition MAX_ARGS :: nat where
  "MAX_ARGS = 16"

text \<open>
  \<^verbatim>\<open>struct ftype\<close>.  \<open>orig\<close> is the address \<^verbatim>\<open>dlsym\<close> found, \<^const>\<open>None\<close> for \<^verbatim>\<open>NULL\<close>;
  the table's entry also fixes the C types the generated wrapper is instantiated with.
\<close>

record ftype =
  pos :: int
  offset :: int
  fname :: string
  orig :: "nat option"
  num_args :: nat
  rv_size :: nat
  arg_widths :: "nat list"
  has_before :: bool
  has_around :: bool
  has_after :: bool
  rv_type :: ctype
  arg_types :: "ctype list"

text \<open>\<^verbatim>\<open>DEFINE1\<close> to \<^verbatim>\<open>DEFINE5\<close> of \<^verbatim>\<open>definecalls.h\<close>: one table row.\<close>

definition DEFINE :: "ctype \<Rightarrow> string \<Rightarrow> ctype list \<Rightarrow> ftype" where
  "DEFINE rv n as =
     \<lparr>pos = 0, offset = 0, fname = n, orig = None, num_args = length as, rv_size = ct_sizeof rv,
      arg_widths = map ct_sizeof as, has_before = False, has_around = False, has_after = False,
      rv_type = rv, arg_types = as\<rparr>"

text \<open>\<^verbatim>\<open>calls.defs\<close>; \<^verbatim>\<open>socklen_t\<close> is \<^verbatim>\<open>unsigned int\<close>.\<close>

definition calls_defs :: "ftype list" where
  "calls_defs =
     [DEFINE Cint ''open'' [Cptr, Cint, Cint],
      DEFINE Cptr ''fopen'' [Cptr, Cptr],
      DEFINE Csize_t ''fwrite'' [Cptr, Csize_t, Csize_t, Cptr],
      DEFINE Csize_t ''fread'' [Cptr, Csize_t, Csize_t, Cptr],
      DEFINE Clong ''ftell'' [Cptr],
      DEFINE Coff_t ''ftello'' [Cptr],
      DEFINE Cint ''close'' [Cint],
      DEFINE Cssize_t ''read'' [Cint, Cptr, Csize_t],
      DEFINE Cssize_t ''write'' [Cint, Cptr, Csize_t],
      DEFINE Coff_t ''lseek'' [Cint, Coff_t, Cint],
      DEFINE Cssize_t ''recv'' [Cint, Cptr, Csize_t, Cint],
      DEFINE Cssize_t ''recvmsg'' [Cint, Cptr, Cint],
      DEFINE Cssize_t ''send'' [Cint, Cptr, Csize_t, Cint],
      DEFINE Cssize_t ''sendmsg'' [Cint, Cptr, Cint],
      DEFINE Cint ''select'' [Cint, Cptr, Cptr, Cptr, Cptr],
      DEFINE Cint ''bind'' [Cint, Cptr, Cuint],
      DEFINE Cint ''listen'' [Cint, Cint],
      DEFINE Cint ''accept'' [Cint, Cptr, Cptr],
      DEFINE Cint ''connect'' [Cint, Cptr, Cuint]]"

subsection \<open>The signature encoding of the C++ side\<close>

definition acceptable_arg_size :: "nat \<Rightarrow> bool" where
  "acceptable_arg_size x \<longleftrightarrow> x = 4 \<or> x = 8"

text \<open>The loop over the argument widths; \<^const>\<open>None\<close> is a failed \<^verbatim>\<open>assert\<close>.\<close>

fun computeOffset_loop :: "nat list \<Rightarrow> int \<Rightarrow> int option" where
  "computeOffset_loop [] off = Some off"
| "computeOffset_loop (w # ws) off =
     (if acceptable_arg_size w
      then computeOffset_loop ws (push_bit 1 off OR (if w = 4 then 0 else 1)) else None)"

definition computeOffset :: "ftype \<Rightarrow> int option" where
  "computeOffset f =
     (case computeOffset_loop (take (num_args f) (arg_widths f)) 0 of
        None \<Rightarrow> None
      | Some off \<Rightarrow>
          if acceptable_arg_size (rv_size f)
          then Some (push_bit 1 off OR (if rv_size f = 4 then 0 else 1)) else None)"

text \<open>\<^verbatim>\<open>findFunc\<close>: the first row with the name; \<^const>\<open>None\<close> is the \<^verbatim>\<open>abort\<close>.\<close>

fun findFunc_from :: "nat \<Rightarrow> ftype list \<Rightarrow> string \<Rightarrow> nat option" where
  "findFunc_from i [] n = None"
| "findFunc_from i (f # fs) n = (if fname f = n then Some i else findFunc_from (Suc i) fs n)"

definition findFunc :: "ftype list \<Rightarrow> string \<Rightarrow> nat option" where
  "findFunc fs n = findFunc_from 0 fs n"

text \<open>
  The loop of the \<^verbatim>\<open>LabreaInit\<close> constructor over the table; \<open>dlsym\<close> is the dynamic linker.
\<close>

fun init_functions :: "(string \<Rightarrow> nat option) \<Rightarrow> nat \<Rightarrow> ftype list \<Rightarrow> ftype list option" where
  "init_functions dlsym n [] = Some []"
| "init_functions dlsym n (f # fs) =
     (case computeOffset (f\<lparr>pos := int n\<rparr>) of
        None \<Rightarrow> None
      | Some off \<Rightarrow>
          (case dlsym (fname f) of
             None \<Rightarrow> None
           | Some addr \<Rightarrow>
               map_option ((#) (f\<lparr>pos := int n, offset := off, orig := Some addr\<rparr>))
                 (init_functions dlsym (Suc n) fs)))"

subsection \<open>The invoker generator\<close>

text \<open>\<^verbatim>\<open>encode(r, argseq)\<close> of \<^verbatim>\<open>mkgeninvoker.py\<close>.\<close>

definition py_encode :: "nat \<Rightarrow> nat list \<Rightarrow> int" where
  "py_encode r argseq =
     push_bit 1 (foldl (\<lambda>i x. push_bit 1 i OR of_bool (x = 8)) 0 argseq) OR of_bool (r = 8)"

text \<open>
  \<^verbatim>\<open>decode(offset, length)\<close>: the result width and the argument widths, first argument in the
  highest bit.
\<close>

definition py_width :: "int \<Rightarrow> nat" where
  "py_width n = (if n = 0 then 4 else 8)"

definition py_decode :: "int \<Rightarrow> nat \<Rightarrow> nat \<times> nat list" where
  "py_decode off len =
     (py_width (off AND 1),
      rev (map (\<lambda>i. py_width (drop_bit i (drop_bit 1 off) AND 1)) [0..<len]))"

text \<open>
  \<^verbatim>\<open>mk_argseq(l)\<close>: every sequence of \<open>l\<close> widths, without repetition (a width sequence is the
  script's string of the digits 4 and 8).  Adjacent codes differ in the result bit only, so
  dropping repetitions leaves the sequences in the order of the script's \<^verbatim>\<open>sorted\<close>.
\<close>

definition mk_argseq :: "nat \<Rightarrow> nat list list" where
  "mk_argseq l = remdups (map (\<lambda>x. snd (py_decode (int x) l)) [0..<2 ^ (l + 1)])"

text \<open>
  The dictionary \<^verbatim>\<open>allfuns\<close>, as an association list (the second \<^verbatim>\<open>update\<close> wins), and the
  row the script writes for index \<open>o\<close>: the invoker's arity, result width and argument widths.
\<close>

definition py_allfuns :: "nat \<Rightarrow> (int \<times> nat list) list" where
  "py_allfuns i =
     map (\<lambda>s. (py_encode 8 s, s)) (mk_argseq i) @ map (\<lambda>s. (py_encode 4 s, s)) (mk_argseq i)"

definition py_row :: "nat \<Rightarrow> int \<Rightarrow> (nat \<times> nat \<times> nat list) option" where
  "py_row i ix =
     (case map_of (py_allfuns i) ix of
        None \<Rightarrow> None
      | Some s \<Rightarrow> Some (i, (if py_encode 4 s = ix then 4 else 8), s))"

text \<open>
  \<^verbatim>\<open>abstractInvoke\<close>: the switch on the arity (1 to 5, else \<^verbatim>\<open>abort\<close>) and the table lookup.
  The result names the invoker reached: its result width and argument widths.
\<close>

definition abstractInvoke_select :: "ftype \<Rightarrow> (nat \<times> nat list) option" where
  "abstractInvoke_select f =
     (if 1 \<le> num_args f \<and> num_args f \<le> 5 then map_option snd (py_row (num_args f) (offset f))
      else None)"

subsection \<open>Agreement of the two encodings\<close>

text \<open>Both sides compute the number whose binary digits, highest first, say which widths are 8.\<close>

fun bitsval :: "nat list \<Rightarrow> int \<Rightarrow> int" where
  "bitsval [] a = a"
| "bitsval (w # ws) a = bitsval ws (2 * a + of_bool (w = 8))"

lemma push1: "push_bit (Suc 0) (i::int) OR of_bool b = 2 * i + of_bool b"
  by (cases b) (simp_all add: push_bit_eq_mult or_one_eq mult.commute)

lemma foldl_bitsval: "foldl (\<lambda>i x. push_bit 1 i OR of_bool (x = 8)) a ws = bitsval ws a"
  by (induction ws arbitrary: a) (simp_all only: foldl.simps bitsval.simps One_nat_def push1)

lemma py_encode_bitsval: "py_encode r ws = 2 * bitsval ws 0 + of_bool (r = 8)"
  using push1 [of "bitsval ws 0" "r = 8"] foldl_bitsval [of 0 ws] by (simp only: py_encode_def One_nat_def)

lemma loop_bitsval:
  "list_all acceptable_arg_size ws \<Longrightarrow> computeOffset_loop ws a = Some (bitsval ws a)"
proof (induction ws arbitrary: a)
  case (Cons w ws)
  have "push_bit 1 a OR (if w = 4 then 0 else 1) = 2 * a + of_bool (w = 8)"
    using Cons.prems push1 [of a "w = 8"] by (auto simp: acceptable_arg_size_def)
  then show ?case using Cons by simp
qed simp

lemma computeOffset_encode:
  assumes "length (arg_widths f) = num_args f" "list_all acceptable_arg_size (arg_widths f)"
    "acceptable_arg_size (rv_size f)"
  shows "computeOffset f = Some (py_encode (rv_size f) (arg_widths f))"
proof -
  have "push_bit 1 a OR (if rv_size f = 4 then 0 else 1) = 2 * a + of_bool (rv_size f = 8)" for a :: int
    using assms(3) push1 [of a "rv_size f = 8"] by (auto simp: acceptable_arg_size_def)
  then show ?thesis
    using assms by (simp add: computeOffset_def loop_bitsval py_encode_bitsval)
qed

lemma bitsval_app: "bitsval (xs @ [w]) a = 2 * bitsval xs a + of_bool (w = 8)"
  by (induction xs arbitrary: a) auto

lemma bitsval_bounds: "0 \<le> bitsval ws 0 \<and> bitsval ws 0 < 2 ^ length ws"
  by (induction ws rule: rev_induct) (auto simp: bitsval_app)

lemma py_width_bit: "py_width (drop_bit i x AND 1) = (if bit x i then 8 else 4)"
  by (simp add: py_width_def bit_iff_odd drop_bit_eq_div and_one_eq odd_iff_mod_2_eq_one)

lemma rev_decode:
  "list_all acceptable_arg_size ws \<Longrightarrow>
   rev (map (\<lambda>i. if bit (bitsval ws 0) i then 8 else 4) [0..<length ws]) = ws"
proof (induction ws rule: rev_induct)
  case (snoc w ws)
  have "map (\<lambda>i. if bit (bitsval (ws @ [w]) 0) i then 8 else 4) [0..<Suc (length ws)]
    = w # map (\<lambda>i. if bit (bitsval ws 0) i then 8 else 4) [0..<length ws]"
    using snoc.prems unfolding upt_conv_Cons [OF zero_less_Suc] list.map map_Suc_upt [symmetric]
    by (auto simp: bitsval_app bit_Suc acceptable_arg_size_def bit_0)
  then show ?case using snoc by simp
qed simp

lemma decode_encode:
  assumes "list_all acceptable_arg_size ws" "acceptable_arg_size r"
  shows "py_decode (py_encode r ws) (length ws) = (r, ws)"
proof -
  have "py_encode r ws AND 1 = of_bool (r = 8)" "drop_bit 1 (py_encode r ws) = bitsval ws 0"
    by (simp_all add: py_encode_bitsval and_one_eq drop_bit_Suc)
  moreover have "py_width (of_bool (r = 8)) = r"
    using assms(2) by (auto simp: py_width_def acceptable_arg_size_def)
  ultimately show ?thesis
    using rev_decode [OF assms(1)] by (simp only: py_decode_def py_width_bit)
qed

lemma mem_mk_argseq:
  assumes "list_all acceptable_arg_size ws"
  shows "ws \<in> set (mk_argseq (length ws))"
proof -
  have "py_encode 4 ws = int (nat (py_encode 4 ws))" "nat (py_encode 4 ws) < 2 ^ (length ws + 1)"
    using bitsval_bounds [of ws] by (simp_all add: py_encode_bitsval nat_less_iff)
  then show ?thesis
    using decode_encode [OF assms, of 4] unfolding mk_argseq_def
    by (force simp: acceptable_arg_size_def)
qed

lemma set_mk_argseq:
  "ws \<in> set (mk_argseq n) \<Longrightarrow> length ws = n \<and> list_all acceptable_arg_size ws"
  by (auto simp: mk_argseq_def py_decode_def py_width_def acceptable_arg_size_def list_all_iff)

lemma py_row_encode:
  assumes "list_all acceptable_arg_size ws" "acceptable_arg_size r"
  shows "py_row (length ws) (py_encode r ws) = Some (length ws, r, ws)"
proof -
  have mem: "(py_encode r ws, ws) \<in> set (py_allfuns (length ws))"
    using mem_mk_argseq [OF assms(1)] assms(2) by (auto simp: py_allfuns_def acceptable_arg_size_def)
  have "s = ws" if "(py_encode r ws, s) \<in> set (py_allfuns (length ws))" for s
    using that decode_encode [of s 4] decode_encode [of s 8] decode_encode [OF assms]
    by (auto simp: py_allfuns_def acceptable_arg_size_def dest!: set_mk_argseq)
  with mem have "map_of (py_allfuns (length ws)) (py_encode r ws) = Some ws"
    by (metis map_of_SomeD weak_map_of_SomeI)
  moreover have "py_encode 4 ws = py_encode r ws \<longleftrightarrow> r = 4"
    using assms(2) by (auto simp: py_encode_bitsval acceptable_arg_size_def)
  ultimately show ?thesis
    using assms(2) by (auto simp: py_row_def acceptable_arg_size_def)
qed

lemma invoker_dispatch:
  assumes "length (arg_widths f) = num_args f" "1 \<le> num_args f" "num_args f \<le> 5"
    and "list_all acceptable_arg_size (arg_widths f)" "acceptable_arg_size (rv_size f)"
    and "computeOffset f = Some (offset f)"
  shows "abstractInvoke_select f = Some (rv_size f, arg_widths f)"
  using assms py_row_encode [OF assms(4,5)]
  by (simp add: abstractInvoke_select_def computeOffset_encode)

text \<open>
  C19: for every signature of one to five arguments whose widths are 4 or 8 bytes, the table
  row selected by the offset \<^verbatim>\<open>labrea.cc\<close> computes is the invoker \<^verbatim>\<open>mkgeninvoker.py\<close>
  generated for exactly that signature: the C++ encoding and the Python table agree.\<close>

theorem invoker_dispatch_correct:
  assumes "length (arg_widths f) = num_args f" "1 \<le> num_args f" "num_args f \<le> 5"
    and "list_all acceptable_arg_size (arg_widths f)" "acceptable_arg_size (rv_size f)"
    and "computeOffset f = Some (offset f)"
  shows "abstractInvoke_select f = Some (rv_size f, arg_widths f)"
  using assms by (rule invoker_dispatch)

theorem invoker_dispatch_correct_witness:
  "abstractInvoke_select ((DEFINE Cint ''bind'' [Cint, Cptr, Cuint])\<lparr>offset := 4\<rparr>) = Some (4, [4, 8, 4])"
proof -
  let ?f = "(DEFINE Cint ''bind'' [Cint, Cptr, Cuint])\<lparr>offset := 4\<rparr>"
  have "computeOffset ?f = Some (offset ?f)" by code_simp
  then show ?thesis
    using invoker_dispatch_correct [of ?f]
    by (simp add: DEFINE_def acceptable_arg_size_def)
qed

subsection \<open>Initialising the table\<close>

definition sane_row :: "ftype \<Rightarrow> bool" where
  "sane_row f \<longleftrightarrow> length (arg_widths f) = num_args f \<and> 1 \<le> num_args f \<and> num_args f \<le> 5 \<and>
     list_all acceptable_arg_size (arg_widths f) \<and> acceptable_arg_size (rv_size f)"

lemma sane_row_frame [simp]:
  "sane_row (f\<lparr>pos := p, offset := q, orig := a\<rparr>) = sane_row f"
  by (simp add: sane_row_def)

lemma computeOffset_frame [simp]:
  "computeOffset (f\<lparr>pos := p, offset := q, orig := a\<rparr>) = computeOffset f"
  "computeOffset (f\<lparr>pos := p\<rparr>) = computeOffset f"
  by (simp_all add: computeOffset_def split: option.split)

lemma init_functions_total:
  assumes "list_all sane_row fs" "\<forall>f \<in> set fs. dlsym (fname f) \<noteq> None"
  shows "\<exists>gs. init_functions dlsym n fs = Some gs \<and> length gs = length fs \<and>
    map fname gs = map fname fs \<and> list_all sane_row gs \<and>
    (\<forall>i < length gs. pos (gs ! i) = int (n + i) \<and> computeOffset (gs ! i) = Some (offset (gs ! i)) \<and>
       orig (gs ! i) = dlsym (fname (gs ! i)))"
  using assms
proof (induction fs arbitrary: n)
  case (Cons f fs)
  obtain gs where gs: "init_functions dlsym (Suc n) fs = Some gs" "length gs = length fs"
    "map fname gs = map fname fs" "list_all sane_row gs"
    "\<forall>i < length gs. pos (gs ! i) = int (Suc n + i) \<and>
       computeOffset (gs ! i) = Some (offset (gs ! i)) \<and> orig (gs ! i) = dlsym (fname (gs ! i))"
    using Cons.IH [of "Suc n"] Cons.prems by auto
  obtain off where off: "computeOffset f = Some off"
    using Cons.prems(1) computeOffset_encode [of f] by (auto simp: sane_row_def)
  obtain addr where addr: "dlsym (fname f) = Some addr"
    using Cons.prems(2) by auto
  let ?g = "f\<lparr>pos := int n, offset := off, orig := Some addr\<rparr>"
  have "init_functions dlsym n (f # fs) = Some (?g # gs)"
    using gs(1) off addr by simp
  moreover have "sane_row ?g" using Cons.prems(1) by simp
  ultimately show ?case
    using gs(2-5) off addr by (auto simp: nth_Cons split: nat.splits)
qed simp

lemma findFunc_from_nth:
  "distinct (map fname fs) \<Longrightarrow> i < length fs \<Longrightarrow> findFunc_from n fs (fname (fs ! i)) = Some (n + i)"
proof (induction fs arbitrary: n i)
  case (Cons f fs)
  then show ?case by (cases i) (auto simp: image_iff)
qed simp

lemma findFunc_from_sound:
  "findFunc_from n fs s = Some i \<Longrightarrow> n \<le> i \<and> i < n + length fs \<and> fname (fs ! (i - n)) = s"
proof (induction fs arbitrary: n)
  case (Cons f fs)
  show ?case
  proof (cases "fname f = s")
    case False
    with Cons.prems Cons.IH [of "Suc n"] show ?thesis by (auto simp: nth_Cons' Suc_diff_le)
  qed (use Cons.prems in auto)
qed simp

lemma calls_defs_sane: "list_all sane_row calls_defs"
  by (simp add: calls_defs_def DEFINE_def sane_row_def acceptable_arg_size_def)

lemma calls_defs_distinct: "distinct (map fname calls_defs)"
  by (simp add: calls_defs_def DEFINE_def)

text \<open>
  when the dynamic linker resolves every name of \<^verbatim>\<open>calls.defs\<close>, the constructor's loop
  succeeds, and afterwards every row knows its own position, is the row \<^verbatim>\<open>findFunc\<close> finds
  for its name, and dispatches to the invoker of its own signature.\<close>

theorem init_functions_calls:
  assumes "\<forall>f \<in> set calls_defs. dlsym (fname f) \<noteq> None"
  shows "\<exists>gs. init_functions dlsym 0 calls_defs = Some gs \<and> length gs = 19 \<and>
    (\<forall>i < 19. pos (gs ! i) = int i \<and> orig (gs ! i) = dlsym (fname (gs ! i)) \<and>
       findFunc gs (fname (gs ! i)) = Some i \<and>
       abstractInvoke_select (gs ! i) = Some (rv_size (gs ! i), arg_widths (gs ! i)))"
proof -
  obtain gs where gs: "init_functions dlsym 0 calls_defs = Some gs"
    "length gs = length calls_defs" "map fname gs = map fname calls_defs" "list_all sane_row gs"
    "\<forall>i < length gs. pos (gs ! i) = int (0 + i) \<and>
       computeOffset (gs ! i) = Some (offset (gs ! i)) \<and> orig (gs ! i) = dlsym (fname (gs ! i))"
    using init_functions_total [OF calls_defs_sane assms, of 0] by blast
  have len: "length gs = 19" using gs(2) by (simp add: calls_defs_def)
  have "findFunc gs (fname (gs ! i)) = Some i" if "i < 19" for i
    using findFunc_from_nth [of gs i 0] that len gs(3) calls_defs_distinct
    by (simp add: findFunc_def)
  moreover have "abstractInvoke_select (gs ! i) = Some (rv_size (gs ! i), arg_widths (gs ! i))"
    if "i < 19" for i
    using that len gs(4,5) invoker_dispatch [of "gs ! i"] by (simp add: list_all_length sane_row_def)
  ultimately show ?thesis using gs(1,5) len by auto
qed

theorem init_functions_calls_witness:
  "\<exists>gs. init_functions (\<lambda>s. Some (length s)) 0 calls_defs = Some gs \<and> length gs = 19 \<and>
    (\<forall>i < 19. pos (gs ! i) = int i \<and> orig (gs ! i) = Some (length (fname (gs ! i))) \<and>
       findFunc gs (fname (gs ! i)) = Some i \<and>
       abstractInvoke_select (gs ! i) = Some (rv_size (gs ! i), arg_widths (gs ! i)))"
  by (rule init_functions_calls) simp

end
