(* ===== verification/Numbers.thy ===== *)
theory Numbers
  imports Prelude
begin

text \<open>
  Lua numbers.  \<^verbatim>\<open>luaconf.h\<close> makes \<^verbatim>\<open>lua_Number\<close> a C \<^verbatim>\<open>double\<close>; the code compares
  doubles, converts them from and to integers and reads their bytes (\<^verbatim>\<open>hashnum\<close>), so a
  number is modelled as its IEEE 754 binary64 bit pattern, a \<^typ>\<open>64 word\<close>: one sign bit,
  eleven exponent bits and fifty-two mantissa bits.

  The conversion macros are the portable ones of \<^verbatim>\<open>luaconf.h\<close> (a C cast): the other
  branch is for 32-bit Pentium builds.  A cast of a double whose truncation does not fit
  is undefined in C; the model gives it the result of the amd64 instruction the compiler
  emits, the least integer.
\<close>

type_synonym lua_Number = "64 word"

subsection \<open>Binary logarithm\<close>

function ilog2 :: "int \<Rightarrow> nat" where
  "ilog2 n = (if n < 2 then 0 else Suc (ilog2 (n div 2)))"
  by pat_completeness auto
termination
  by (relation "measure nat") auto

declare ilog2.simps [simp del]

lemma ilog2_bounds: "0 < n \<Longrightarrow> 2 ^ ilog2 n \<le> n \<and> n < 2 ^ Suc (ilog2 n)"
proof (induction n rule: ilog2.induct)
  case (1 n)
  show ?case
  proof (cases "n < 2")
    case True
    with "1.prems" show ?thesis by (simp add: ilog2.simps [of n])
  next
    case False
    with "1.IH" have "2 ^ ilog2 (n div 2) \<le> n div 2" "n div 2 < 2 * 2 ^ ilog2 (n div 2)"
      by simp_all
    then have "2 * 2 ^ ilog2 (n div 2) \<le> n \<and> n < 4 * 2 ^ ilog2 (n div 2)"
      by linarith
    with False show ?thesis by (simp add: ilog2.simps [of n])
  qed
qed

lemma ilog2_unique:
  assumes "2 ^ l \<le> n" "n < 2 ^ Suc l"
  shows "ilog2 n = l"
proof -
  have "0 < n" using assms(1) zero_less_power [of "2::int" l] by linarith
  note b = ilog2_bounds [OF this]
  have "(2::int) ^ l < 2 ^ Suc (ilog2 n)" "(2::int) ^ ilog2 n < 2 ^ Suc l"
    using assms b by linarith+
  then have "l < Suc (ilog2 n)" "ilog2 n < Suc l"
    by (auto intro: power_less_imp_less_exp [of "2::int"])
  then show ?thesis by simp
qed

subsection \<open>Bit patterns\<close>

definition d_sign :: "lua_Number \<Rightarrow> bool" where
  "d_sign d \<longleftrightarrow> 2 ^ 63 \<le> uint d"

definition d_exp :: "lua_Number \<Rightarrow> int" where
  "d_exp d = (uint d div 2 ^ 52) mod 2 ^ 11"

definition d_man :: "lua_Number \<Rightarrow> int" where
  "d_man d = uint d mod 2 ^ 52"

definition d_mag :: "lua_Number \<Rightarrow> int" where
  "d_mag d = uint d mod 2 ^ 63"

definition d_iszero :: "lua_Number \<Rightarrow> bool" where
  "d_iszero d \<longleftrightarrow> d_mag d = 0"

definition d_make :: "bool \<Rightarrow> int \<Rightarrow> lua_Number" where
  "d_make s mag = word_of_int ((if s then 2 ^ 63 else 0) + mag)"

subsection \<open>Comparisons\<close>

definition d_isnan :: "lua_Number \<Rightarrow> bool" where
  "d_isnan d \<longleftrightarrow> d_exp d = 2047 \<and> d_man d \<noteq> 0"

definition luai_numeq :: "lua_Number \<Rightarrow> lua_Number \<Rightarrow> bool" where
  "luai_numeq a b \<longleftrightarrow> \<not> d_isnan a \<and> \<not> d_isnan b \<and> (a = b \<or> d_iszero a \<and> d_iszero b)"

definition d_rank :: "lua_Number \<Rightarrow> int" where
  "d_rank d = (if d_sign d then - d_mag d else d_mag d)"

definition luai_numlt :: "lua_Number \<Rightarrow> lua_Number \<Rightarrow> bool" where
  "luai_numlt a b \<longleftrightarrow> \<not> d_isnan a \<and> \<not> d_isnan b \<and> d_rank a < d_rank b"

definition luai_numle :: "lua_Number \<Rightarrow> lua_Number \<Rightarrow> bool" where
  "luai_numle a b \<longleftrightarrow> \<not> d_isnan a \<and> \<not> d_isnan b \<and> d_rank a \<le> d_rank b"

definition luai_numisnan :: "lua_Number \<Rightarrow> bool" where
  "luai_numisnan a \<longleftrightarrow> \<not> luai_numeq a a"

subsection \<open>Conversions\<close>

text \<open>
  Integer to double (\<^verbatim>\<open>cast_num\<close>): round to nearest, ties to even.  The exponent and
  mantissa fields are added, so that a mantissa that rounds up to \<open>2 ^ 53\<close> carries into
  the exponent.
\<close>

definition d_round_mag :: "int \<Rightarrow> int" where
  "d_round_mag n =
     (let l = ilog2 n;
          q = (if l \<le> 52 then n * 2 ^ (52 - l)
               else let s = l - 52; q = n div 2 ^ s; r = n mod 2 ^ s; half = 2 ^ (s - 1)
                    in if half < r \<or> (r = half \<and> odd q) then q + 1 else q)
      in (int l + 1022) * 2 ^ 52 + q)"

definition cast_num :: "int \<Rightarrow> lua_Number" where
  "cast_num k = (if k = 0 then 0 else d_make (k < 0) (d_round_mag \<bar>k\<bar>))"

text \<open>The integer part of a finite double.\<close>

definition d_trunc :: "lua_Number \<Rightarrow> int option" where
  "d_trunc d =
     (if d_exp d = 2047 then None
      else if d_exp d < 1023 then Some 0
      else let m = 2 ^ 52 + d_man d;
               v = (if 1075 \<le> d_exp d then m * 2 ^ nat (d_exp d - 1075)
                    else m div 2 ^ nat (1075 - d_exp d))
           in Some (if d_sign d then - v else v))"

definition number_to_bits :: "nat \<Rightarrow> lua_Number \<Rightarrow> int" where
  "number_to_bits w d =
     (case d_trunc d of
        None \<Rightarrow> - (2 ^ (w - 1))
      | Some v \<Rightarrow> if - (2 ^ (w - 1)) \<le> v \<and> v < 2 ^ (w - 1) then v else - (2 ^ (w - 1)))"

definition lua_number2int :: "lua_Number \<Rightarrow> int" where
  "lua_number2int d = number_to_bits 32 d"

definition lua_number2integer :: "lua_Number \<Rightarrow> int" where
  "lua_number2integer d = number_to_bits 64 d"

subsection \<open>Laws\<close>

lemma d_make_fields:
  assumes "0 \<le> mag" "mag < 2 ^ 63"
  shows "d_sign (d_make s mag) = s" "d_mag (d_make s mag) = mag"
    "d_exp (d_make s mag) = mag div 2 ^ 52" "d_man (d_make s mag) = mag mod 2 ^ 52"
proof -
  have u: "uint (d_make s mag) = (if s then 2 ^ 63 else 0) + mag"
    using assms unfolding d_make_def uint_word_of_int by simp
  show "d_sign (d_make s mag) = s" "d_mag (d_make s mag) = mag"
    using assms unfolding d_sign_def d_mag_def u by simp_all
  have s: "(2::int) ^ 63 + mag = 2 ^ 11 * 2 ^ 52 + mag" by simp
  have q: "(mag div 2 ^ 52) mod 2 ^ 11 = mag div 2 ^ 52"
    using assms by (intro mod_pos_pos_trivial) simp_all
  have "(2 ^ 63 + mag) div 2 ^ 52 mod 2 ^ 11 = mag div 2 ^ 52"
    unfolding s by (subst div_mult_self3, simp, subst mod_add_self1, rule q)
  moreover have "(2 ^ 63 + mag) mod 2 ^ 52 = mag mod 2 ^ 52"
    unfolding s by (rule mod_mult_self3)
  ultimately show "d_exp (d_make s mag) = mag div 2 ^ 52" "d_man (d_make s mag) = mag mod 2 ^ 52"
    using q unfolding d_exp_def d_man_def u by (cases s; simp only: if_True if_False add_0)+
qed

lemma split52:
  "0 \<le> r \<Longrightarrow> r < 2 ^ 52 \<Longrightarrow> (c * 2 ^ 52 + r) div 2 ^ 52 = (c::int)"
  "0 \<le> r \<Longrightarrow> r < 2 ^ 52 \<Longrightarrow> (c * 2 ^ 52 + r) mod 2 ^ 52 = (r::int)"
  by (simp_all only: div_mult_self3 mod_mult_self3 power_not_zero
      div_pos_pos_trivial mod_pos_pos_trivial) simp_all

lemma d_round_mag_small:
  assumes "0 < n" "n < 2 ^ 53"
  shows "d_round_mag n div 2 ^ 52 = int (ilog2 n) + 1023"
    "d_round_mag n mod 2 ^ 52 = n * 2 ^ (52 - ilog2 n) - 2 ^ 52"
    "ilog2 n \<le> 52" "0 \<le> d_round_mag n" "d_round_mag n < 2047 * 2 ^ 52"
proof -
  note b = ilog2_bounds [OF assms(1)]
  have "(2::int) ^ ilog2 n < 2 ^ 53" using b assms(2) by linarith
  then show l: "ilog2 n \<le> 52"
    using power_less_imp_less_exp [of "2::int" "ilog2 n" 53] by simp
  let ?q = "n * 2 ^ (52 - ilog2 n)"
  have "2 ^ ilog2 n * 2 ^ (52 - ilog2 n) \<le> ?q" "?q < 2 ^ Suc (ilog2 n) * 2 ^ (52 - ilog2 n)"
    using b by simp_all
  moreover have "(2::int) ^ ilog2 n * 2 ^ (52 - ilog2 n) = 2 ^ 52"
    "(2::int) ^ Suc (ilog2 n) * 2 ^ (52 - ilog2 n) = 2 ^ 53"
    unfolding power_add [symmetric] using l by simp_all
  ultimately have q: "2 ^ 52 \<le> ?q" "?q < 2 ^ 53" by linarith+
  have m: "d_round_mag n = (int (ilog2 n) + 1022) * 2 ^ 52 + ?q"
    using l by (simp add: d_round_mag_def Let_def)
  have m': "d_round_mag n = (int (ilog2 n) + 1023) * 2 ^ 52 + (?q - 2 ^ 52)"
    unfolding m by simp
  have q': "0 \<le> ?q - 2 ^ 52" "?q - 2 ^ 52 < 2 ^ 52" using q by simp_all
  show "d_round_mag n div 2 ^ 52 = int (ilog2 n) + 1023"
    "d_round_mag n mod 2 ^ 52 = ?q - 2 ^ 52"
    by (simp_all only: m' split52 [OF q'])
  show "0 \<le> d_round_mag n" "d_round_mag n < 2047 * 2 ^ 52"
    unfolding m using q l by simp_all
qed

lemma cast_num_fields:
  assumes "k \<noteq> 0" "\<bar>k\<bar> < 2 ^ 53"
  shows "d_sign (cast_num k) \<longleftrightarrow> k < 0"
    "d_exp (cast_num k) = int (ilog2 \<bar>k\<bar>) + 1023"
    "d_man (cast_num k) = \<bar>k\<bar> * 2 ^ (52 - ilog2 \<bar>k\<bar>) - 2 ^ 52"
    "d_mag (cast_num k) = d_round_mag \<bar>k\<bar>"
proof -
  have k: "0 < \<bar>k\<bar>" using assms(1) by simp
  note r = d_round_mag_small [OF k assms(2)]
  have "d_round_mag \<bar>k\<bar> < 2 ^ 63" using r(5) by simp
  note f = d_make_fields [OF r(4) this, of "k < 0"]
  show "d_sign (cast_num k) \<longleftrightarrow> k < 0"
    "d_exp (cast_num k) = int (ilog2 \<bar>k\<bar>) + 1023"
    "d_man (cast_num k) = \<bar>k\<bar> * 2 ^ (52 - ilog2 \<bar>k\<bar>) - 2 ^ 52"
    "d_mag (cast_num k) = d_round_mag \<bar>k\<bar>"
    using assms(1) f r(1,2) by (simp_all add: cast_num_def)
qed

lemma d_trunc_cast_num:
  assumes "\<bar>k\<bar> < 2 ^ 53"
  shows "d_trunc (cast_num k) = Some k"
proof (cases "k = 0")
  case True
  then show ?thesis by (simp add: d_trunc_def cast_num_def d_exp_def)
next
  case False
  note f = cast_num_fields [OF False assms]
  have l: "ilog2 \<bar>k\<bar> \<le> 52" using d_round_mag_small(3) [of "\<bar>k\<bar>"] False assms by simp
  have e: "nat (1075 - (int (ilog2 \<bar>k\<bar>) + 1023)) = 52 - ilog2 \<bar>k\<bar>" using l by linarith
  have m: "2 ^ 52 + (\<bar>k\<bar> * 2 ^ (52 - ilog2 \<bar>k\<bar>) - 2 ^ 52) = \<bar>k\<bar> * 2 ^ (52 - ilog2 \<bar>k\<bar>)"
    by simp
  define L a where "L = ilog2 \<bar>k\<bar>" and "a = \<bar>k\<bar>"
  have s: "(if k < 0 then - a else a) = k" by (simp add: a_def)
  show ?thesis
    using l e s unfolding d_trunc_def f Let_def m L_def [symmetric] a_def [symmetric]
    by (cases "L = 52") auto
qed


lemma not_nan_cast_num: "\<bar>k\<bar> < 2 ^ 53 \<Longrightarrow> \<not> d_isnan (cast_num k)"
  using d_trunc_cast_num [of k] by (auto simp: d_isnan_def d_trunc_def)

lemma d_iszero_exp:
  assumes "d_iszero d" shows "d_exp d = 0"
proof -
  define t where "t = uint d div 2 ^ 63"
  have "uint d mod 2 ^ 63 = 0" using assms by (simp only: d_iszero_def d_mag_def)
  then have u: "uint d = 2 ^ 63 * t"
    using mult_div_mod_eq [of "2 ^ 63" "uint d"] by (simp only: t_def add_0_right)
  moreover have "0 \<le> uint d" "uint d < 2 ^ 64"
    using uint_lt2p [of d] by simp_all
  ultimately have "t = 0 \<or> t = 1" by simp linarith
  then show ?thesis by (auto simp: d_exp_def u)
qed

lemma numeq_trunc: "luai_numeq a b \<Longrightarrow> d_trunc a = d_trunc b"
  using d_iszero_exp [of a] d_iszero_exp [of b] by (auto simp: luai_numeq_def d_trunc_def)

lemma d_iszero_cast_num: "\<bar>k\<bar> < 2 ^ 53 \<Longrightarrow> d_iszero (cast_num k) \<longleftrightarrow> k = 0"
  using cast_num_fields(4) [of k] d_round_mag_small(1) [of "\<bar>k\<bar>"]
  by (cases "k = 0") (auto simp: d_iszero_def cast_num_def d_mag_def)

lemma numeq_cast_num_iff:
  assumes "\<bar>j\<bar> < 2 ^ 53" "\<bar>k\<bar> < 2 ^ 53"
  shows "luai_numeq (cast_num j) (cast_num k) \<longleftrightarrow> j = k"
  using assms numeq_trunc [of "cast_num j" "cast_num k"]
  by (auto simp: d_trunc_cast_num luai_numeq_def not_nan_cast_num)

lemma numeq_cast_num_trunc:
  "\<bar>k\<bar> < 2 ^ 53 \<Longrightarrow> luai_numeq (cast_num k) d \<Longrightarrow> d_trunc d = Some k"
  using numeq_trunc [of "cast_num k" d] by (simp add: d_trunc_cast_num)

lemma numeq_sym: "luai_numeq a b \<longleftrightarrow> luai_numeq b a"
  by (auto simp: luai_numeq_def)

lemma numeq_trans: "luai_numeq a b \<Longrightarrow> luai_numeq b c \<Longrightarrow> luai_numeq a c"
  by (auto simp: luai_numeq_def)

lemma numeq_refl_iff: "luai_numeq a a \<longleftrightarrow> \<not> d_isnan a"
  by (simp add: luai_numeq_def)

lemma lua_number2int_cast_num:
  "- (2 ^ 31) \<le> k \<Longrightarrow> k < 2 ^ 31 \<Longrightarrow> lua_number2int (cast_num k) = k"
  using d_trunc_cast_num [of k] by (simp add: lua_number2int_def number_to_bits_def)

lemma lua_number2int_bounds: "- (2 ^ 31) \<le> lua_number2int d" "lua_number2int d < 2 ^ 31"
  by (auto simp: lua_number2int_def number_to_bits_def split: option.splits)

lemma number2int_complete:
  "- (2 ^ 31) \<le> k \<Longrightarrow> k < 2 ^ 31 \<Longrightarrow> luai_numeq (cast_num k) d \<Longrightarrow> lua_number2int d = k"
  using numeq_cast_num_trunc [of k d] by (simp add: lua_number2int_def number_to_bits_def)

end
