(* ===== verification/Labrea_State.thy ===== *)
theory Labrea_State
  imports Labrea_Calls Numbers
begin

text \<open>
  What one thread of a process under labrea sees: the lock around the Lua state
  (\<^verbatim>\<open>locks.hh\<close>), the per-thread invocation flag (\<^verbatim>\<open>script_state.hh\<close>), the table of
  intercepted functions, memory and \<^verbatim>\<open>errno\<close>, and a log of observable events.

  An operation is a function from the state to either a stop (the process aborts, the thread
  deadlocks, behaviour is undefined) or a result and a new state.  Lua code is third-party
  input: a hook is a \<open>script\<close>, an interaction tree that says which API calls it makes,
  depending on what the earlier ones returned.  The C library, the heap and the dynamic
  linker are fields of the environment \<open>env\<close>, the parameter of the model.
\<close>

subsection \<open>Lua values, scripts and events\<close>

datatype lval = VNil | VBool bool | VNum lua_Number | VStr string | VFun nat

text \<open>
  A script returns, raises an error, reads or writes a global, calls a function of the
  \<^verbatim>\<open>labrea\<close> table, calls a C library function through Lua's own libraries (which reaches the
  intercepting wrapper, as the process's symbols are interposed), or protects a call.
\<close>

datatype script =
    SRet "lval list"
  | SErr lval
  | SGet string "lval \<Rightarrow> script"
  | SSet string lval script
  | SLabrea string "lval list" "lval list \<Rightarrow> script"
  | SLibc string "u64 list" "u64 \<Rightarrow> script"
  | SPcall script "lval + lval list \<Rightarrow> script"

datatype event =
    EvLock
  | EvUnlock
  | EvLua
  | EvHook string "lval list"
  | EvCall string "u64 list"
  | EvSleep int
  | EvErr string lval

datatype stop = Aborted string | Deadlock | MutexMisuse | Undefined string | Thrown string | Exited int

type_synonym memory = "u64 \<Rightarrow> u8 option"

record lstate =
  l_held :: bool
  l_flag :: "bool option"
  l_thread :: bool
  l_errno :: int
  l_mem :: memory
  l_funs :: "ftype list"
  l_globals :: "string \<Rightarrow> lval"
  l_trace :: "event list"

record env =
  e_body :: "nat \<Rightarrow> lval list \<Rightarrow> script"
  e_libc :: "string \<Rightarrow> u64 list \<Rightarrow> lstate \<Rightarrow> u64 \<times> memory \<times> int"
  e_calloc :: "u64 \<Rightarrow> lstate \<Rightarrow> u64 \<times> memory"
  e_free :: "u64 \<Rightarrow> memory \<Rightarrow> memory"
  e_fileno :: "u64 \<Rightarrow> lstate \<Rightarrow> int"
  e_dlsym :: "string \<Rightarrow> nat option"
  e_str2d :: "string \<Rightarrow> lua_Number option"
  e_num2str :: "lua_Number \<Rightarrow> string"
  e_mutexattr :: "int \<times> int"
  e_strerror :: "int \<Rightarrow> string"
  e_setspecific :: int

subsection \<open>Actions\<close>

type_synonym 'a act = "lstate \<Rightarrow> (stop \<times> lstate) + ('a \<times> lstate)"

definition ret :: "'a \<Rightarrow> 'a act" where
  "ret x s = Inr (x, s)"

definition bindA :: "'a act \<Rightarrow> ('a \<Rightarrow> 'b act) \<Rightarrow> 'b act" where
  "bindA m f s = (case m s of Inl e \<Rightarrow> Inl e | Inr (x, s') \<Rightarrow> f x s')"

definition thenA :: "'a act \<Rightarrow> 'b act \<Rightarrow> 'b act" where
  "thenA m k = bindA m (\<lambda>_. k)"

definition halt :: "stop \<Rightarrow> 'a act" where
  "halt e s = Inl (e, s)"

definition getS :: "(lstate \<Rightarrow> 'a) \<Rightarrow> 'a act" where
  "getS f s = Inr (f s, s)"

definition modS :: "(lstate \<Rightarrow> lstate) \<Rightarrow> unit act" where
  "modS f s = Inr ((), f s)"

definition emit :: "event \<Rightarrow> unit act" where
  "emit e = modS (\<lambda>s. s\<lparr>l_trace := l_trace s @ [e]\<rparr>)"

definition assertA :: "string \<Rightarrow> bool \<Rightarrow> unit act" where
  "assertA msg b = (if b then ret () else halt (Aborted msg))"

subsection \<open>The mutex and its holders\<close>

text \<open>
  \<^verbatim>\<open>luamutex\<close> is statically initialised, a normal mutex (the attribute object that
  \<^verbatim>\<open>LockHolder::lock\<close> fills in is never applied to it): locking it again in the thread that
  holds it blocks for ever, and unlocking it when it is not held is undefined.
\<close>

definition pthread_mutex_lock :: "int act" where
  "pthread_mutex_lock =
     bindA (getS l_held) (\<lambda>h. if h then halt Deadlock
       else thenA (modS (\<lambda>s. s\<lparr>l_held := True\<rparr>)) (thenA (emit EvLock) (ret 0)))"

definition pthread_mutex_unlock :: "int act" where
  "pthread_mutex_unlock =
     bindA (getS l_held) (\<lambda>h. if \<not> h then halt MutexMisuse
       else thenA (modS (\<lambda>s. s\<lparr>l_held := False\<rparr>)) (thenA (emit EvUnlock) (ret 0)))"

definition LockHolder_lock :: "env \<Rightarrow> unit act" where
  "LockHolder_lock E =
     (let (e0, e) = e_mutexattr E in
      if e0 \<noteq> 0 then halt (Thrown (''MUTEX ERROR: Failed to initialize mutex: '' @ e_strerror E 0))
      else if e \<noteq> 0 then halt (Thrown (''MUTEX ERROR: Failed to initialize mutex: '' @ e_strerror E e))
      else bindA pthread_mutex_lock (\<lambda>e. if e \<noteq> 0
             then halt (Thrown (''MUTEX ERROR: Failed to acquire lock: '' @ e_strerror E e))
             else ret ()))"

definition LockHolder_unlock :: "env \<Rightarrow> unit act" where
  "LockHolder_unlock E =
     bindA pthread_mutex_unlock (\<lambda>e. if e \<noteq> 0
       then halt (Thrown (''MUTEX_ERROR: Failed to release lock: '' @ e_strerror E e)) else ret ())"

text \<open>A scope with a \<^verbatim>\<open>LockHolder\<close>: the constructor, the body, the destructor.\<close>

definition with_lock :: "env \<Rightarrow> 'a act \<Rightarrow> 'a act" where
  "with_lock E body =
     thenA (LockHolder_lock E) (bindA body (\<lambda>r. thenA (LockHolder_unlock E) (ret r)))"

text \<open>A scope with an \<^verbatim>\<open>AntiLockHolder\<close>: release, body, take again.\<close>

definition AntiLockHolder_ctor :: "env \<Rightarrow> unit act" where
  "AntiLockHolder_ctor E =
     bindA pthread_mutex_unlock (\<lambda>e. if e \<noteq> 0
       then halt (Thrown (''MUTEX_ERROR: Failed to release lock: '' @ e_strerror E e)) else ret ())"

definition AntiLockHolder_dtor :: "env \<Rightarrow> unit act" where
  "AntiLockHolder_dtor E =
     bindA pthread_mutex_lock (\<lambda>e. if e \<noteq> 0
       then halt (Thrown (''MUTEX ERROR: Failed to acquire lock: '' @ e_strerror E e)) else ret ())"

definition without_lock :: "env \<Rightarrow> 'a act \<Rightarrow> 'a act" where
  "without_lock E body =
     thenA (AntiLockHolder_ctor E) (bindA body (\<lambda>r. thenA (AntiLockHolder_dtor E) (ret r)))"

subsection \<open>The invocation flag and the thread's Lua state\<close>

text \<open>
  \<^verbatim>\<open>LuaInvocation\<close>: the first use in a thread allocates the flag; the object is ready when
  the flag was clear, and then sets it until its destructor runs.
\<close>

definition LuaInvocation_ctor :: "env \<Rightarrow> bool act" where
  "LuaInvocation_ctor E =
     bindA (getS l_flag) (\<lambda>p.
       thenA (if p = None
              then (if e_setspecific E \<noteq> 0 then halt (Aborted ''pthread_setspecific'')
                    else modS (\<lambda>s. s\<lparr>l_flag := Some False\<rparr>))
              else ret ())
         (bindA (getS (\<lambda>s. l_flag s = Some False)) (\<lambda>ready.
           if ready then thenA (modS (\<lambda>s. s\<lparr>l_flag := Some True\<rparr>)) (ret True) else ret False)))"

definition LuaInvocation_dtor :: "bool \<Rightarrow> unit act" where
  "LuaInvocation_dtor ready =
     (if ready then modS (\<lambda>s. s\<lparr>l_flag := Some False\<rparr>) else ret ())"

definition getLuaState :: "env \<Rightarrow> unit act" where
  "getLuaState E =
     bindA (getS l_thread) (\<lambda>t. if t then ret ()
       else with_lock E
         (thenA (emit EvLua)
           (if e_setspecific E \<noteq> 0 then halt (Aborted ''pthread_setspecific'')
            else modS (\<lambda>s. s\<lparr>l_thread := True\<rparr>))))"

subsection \<open>Numbers across the Lua boundary\<close>

definition lua_pushinteger :: "int \<Rightarrow> lval" where
  "lua_pushinteger n = VNum (cast_num n)"

definition lua_tointeger :: "env \<Rightarrow> lval \<Rightarrow> int" where
  "lua_tointeger E v =
     (case v of VNum d \<Rightarrow> lua_number2integer d
      | VStr str \<Rightarrow> (case e_str2d E str of Some d \<Rightarrow> lua_number2integer d | None \<Rightarrow> 0)
      | _ \<Rightarrow> 0)"

definition lua_isnumber :: "env \<Rightarrow> lval \<Rightarrow> bool" where
  "lua_isnumber E v =
     (case v of VNum d \<Rightarrow> True | VStr str \<Rightarrow> e_str2d E str \<noteq> None | _ \<Rightarrow> False)"

text \<open>The C conversions of a 64-bit pattern to a narrower or differently signed type.\<close>

definition to_int32 :: "int \<Rightarrow> int" where
  "to_int32 v = sint (word_of_int v :: 32 word)"

definition to_int64 :: "int \<Rightarrow> int" where
  "to_int64 v = sint (word_of_int v :: 64 word)"

definition trunc_width :: "nat \<Rightarrow> u64 \<Rightarrow> u64" where
  "trunc_width w v = (if w = 4 then take_bit 32 v else v)"

text \<open>
  The overloads of \<^verbatim>\<open>add_arg\<close>, one per C type: what the value is once it has become a
  \<^verbatim>\<open>lua_Integer\<close> (a 64-bit signed integer).
\<close>

fun add_arg_int :: "ctype \<Rightarrow> u64 \<Rightarrow> int" where
  "add_arg_int Cint v = sint (ucast v :: 32 word)"
| "add_arg_int Cuint v = uint (ucast v :: 32 word)"
| "add_arg_int Clong v = sint v"
| "add_arg_int Cssize_t v = sint v"
| "add_arg_int Coff_t v = sint v"
| "add_arg_int Csize_t v = to_int64 (uint v)"
| "add_arg_int Cptr v = to_int64 (uint v)"

definition add_arg :: "ctype \<Rightarrow> u64 \<Rightarrow> lval" where
  "add_arg ct v = lua_pushinteger (add_arg_int ct v)"

text \<open>
  A concrete environment for closed instances: every symbol resolves, locks initialise, a
  read or write transfers all it was asked to, other calls return 7.
\<close>

definition plain_env :: "(nat \<Rightarrow> lval list \<Rightarrow> script) \<Rightarrow> env" where
  "plain_env body =
     \<lparr>e_body = body,
      e_libc = (\<lambda>n args s. (case args of [a, b, c] \<Rightarrow> c | _ \<Rightarrow> 7, l_mem s, l_errno s)),
      e_calloc = (\<lambda>n s. (4096, l_mem s)), e_free = (\<lambda>a m. m), e_fileno = (\<lambda>a s. 3),
      e_dlsym = (\<lambda>n. Some (length n)), e_str2d = (\<lambda>str. None), e_num2str = (\<lambda>d. []),
      e_mutexattr = (0, 0), e_strerror = (\<lambda>e. []), e_setspecific = 0\<rparr>"

end
