(* ===== verification/Labrea_Api.thy ===== *)
theory Labrea_Api
  imports Labrea_State
begin

text \<open>
  The functions of the \<^verbatim>\<open>labrea\<close> table that \<^verbatim>\<open>scripting.cc\<close> registers with Lua, and the
  execution of scripts over them.  Each C function gets the argument list its Lua caller
  pushed and returns the values it leaves on the stack (\<^const>\<open>Inr\<close>) or raises a Lua error
  (\<^const>\<open>Inl\<close>).
\<close>

type_synonym cfun = "lval list \<Rightarrow> (lval + lval list) act"

subsection \<open>Stack indices\<close>

text \<open>
  A positive index past the top reads nil.  A negative index counts from the top; the cell
  just below the arguments holds the C function itself, and below that lie other frames.
\<close>

definition stk_get :: "lval list \<Rightarrow> int \<Rightarrow> lval act" where
  "stk_get stk ix =
     (let n = int (length stk) in
      if 0 < ix then ret (if ix \<le> n then stk ! nat (ix - 1) else VNil)
      else if ix < 0 \<and> - ix \<le> n then ret (stk ! nat (n + ix))
      else if ix = - n - 1 then ret (VFun 0)
      else halt (Undefined ''stack index''))"

definition stk_int :: "env \<Rightarrow> lval list \<Rightarrow> int \<Rightarrow> int act" where
  "stk_int E stk ix = bindA (stk_get stk ix) (\<lambda>v. ret (lua_tointeger E v))"

subsection \<open>Memory\<close>

function read_cstring :: "memory \<Rightarrow> u64 \<Rightarrow> string option" where
  "read_cstring m a =
     (case m a of
        None \<Rightarrow> None
      | Some b \<Rightarrow> if b = 0 then Some []
                 else if a = - 1 then None
                 else map_option ((#) (char_of (unat b))) (read_cstring m (a + 1)))"
  by pat_completeness auto
termination
proof (relation "measure (\<lambda>(m, a). unat (- 1 - a))")
  fix m :: memory and a :: u64 and b
  assume "a \<noteq> - 1"
  then have "- 1 - a \<noteq> 0" by (metis right_minus_eq)
  then have "unat (- 1 - a - 1) < unat (- 1 - a)"
    by (rule measure_unat)
  then show "((m, a + 1), m, a) \<in> measure (\<lambda>(m, a). unat (- 1 - a))"
    by (simp add: algebra_simps)
qed simp

fun read_mem :: "memory \<Rightarrow> u64 \<Rightarrow> nat \<Rightarrow> u8 list option" where
  "read_mem m a 0 = Some []"
| "read_mem m a (Suc n) =
     (case m a of None \<Rightarrow> None | Some b \<Rightarrow> map_option ((#) b) (read_mem m (a + 1) n))"

fun write_mem :: "memory \<Rightarrow> u64 \<Rightarrow> u8 list \<Rightarrow> memory option" where
  "write_mem m a [] = Some m"
| "write_mem m a (b # bs) =
     (case m a of None \<Rightarrow> None | Some _ \<Rightarrow> write_mem (m(a \<mapsto> b)) (a + 1) bs)"

definition bytes_of :: "string \<Rightarrow> u8 list" where
  "bytes_of str = map (\<lambda>c. word_of_nat (of_char c)) str"

definition string_of :: "u8 list \<Rightarrow> string" where
  "string_of bs = map (\<lambda>b. char_of (unat b)) bs"

subsection \<open>The C functions\<close>

text \<open>\<^verbatim>\<open>lua_pushstring\<close> of a null pointer pushes nil.\<close>

definition cstring_tolstring :: "env \<Rightarrow> cfun" where
  "cstring_tolstring E stk =
     (if length stk = 1 then
        bindA (stk_int E stk (- 1)) (\<lambda>a.
          let addr = word_of_int a :: u64 in
          if addr = 0 then ret (Inr [VNil])
          else bindA (getS l_mem) (\<lambda>m.
            case read_cstring m addr of
              None \<Rightarrow> halt (Undefined ''tostring: unmapped memory'')
            | Some str \<Rightarrow> ret (Inr [VStr str])))
      else if length stk = 2 then
        bindA (stk_int E stk (- 2)) (\<lambda>a. bindA (stk_int E stk (- 1)) (\<lambda>n.
          bindA (getS l_mem) (\<lambda>m.
            case read_mem m (word_of_int a) (unat (word_of_int n :: u64)) of
              None \<Rightarrow> halt (Undefined ''tostring: unmapped memory'')
            | Some bs \<Rightarrow> ret (Inr [VStr (string_of bs)]))))
      else ret (Inl (VStr ''labrea.tostring takes one or two args'')))"

definition do_malloc :: "env \<Rightarrow> cfun" where
  "do_malloc E stk =
     bindA (stk_int E stk (- 1)) (\<lambda>n.
       let size = word_of_int n :: u64 in
       thenA (assertA ''size > 0'' (0 < size))
         (bindA (getS (e_calloc E size)) (\<lambda>(p, m).
           thenA (modS (\<lambda>s. s\<lparr>l_mem := m\<rparr>))
             (thenA (assertA ''p'' (p \<noteq> 0)) (ret (Inr [lua_pushinteger (sint p)]))))))"

definition do_free :: "env \<Rightarrow> cfun" where
  "do_free E stk =
     bindA (stk_int E stk (- 1)) (\<lambda>a.
       thenA (modS (\<lambda>s. s\<lparr>l_mem := e_free E (word_of_int a) (l_mem s)\<rparr>)) (ret (Inr [])))"

text \<open>
  \<^verbatim>\<open>memcpy(addr, src, n)\<close>: the count comes from the caller and is not compared with the
  length of the string, which ends in one NUL byte; reading beyond that, or writing to
  unmapped memory, is undefined.
\<close>

definition lua_tolstring :: "env \<Rightarrow> lval \<Rightarrow> string option" where
  "lua_tolstring E v = (case v of VStr str \<Rightarrow> Some str | VNum d \<Rightarrow> Some (e_num2str E d) | _ \<Rightarrow> None)"

definition do_memcpy :: "env \<Rightarrow> cfun" where
  "do_memcpy E stk =
     bindA (stk_int E stk (- 3)) (\<lambda>a. bindA (stk_get stk (- 2)) (\<lambda>v.
       let src = (case lua_tolstring E v of None \<Rightarrow> [] | Some str \<Rightarrow> bytes_of str @ [0]) in
       bindA (stk_int E stk (- 1)) (\<lambda>k.
         let n = unat (word_of_int k :: u64) in
         if length src < n then halt (Undefined ''memcpy: reads past the source'')
         else bindA (getS l_mem) (\<lambda>m.
           case write_mem m (word_of_int a) (take n src) of
             None \<Rightarrow> halt (Undefined ''memcpy: unmapped memory'')
           | Some m' \<Rightarrow> thenA (modS (\<lambda>s. s\<lparr>l_mem := m'\<rparr>)) (ret (Inr []))))))"

definition do_fileno :: "env \<Rightarrow> cfun" where
  "do_fileno E stk =
     bindA (stk_int E stk (- 1)) (\<lambda>a.
       bindA (getS (e_fileno E (word_of_int a))) (\<lambda>fd. ret (Inr [lua_pushinteger fd])))"

definition do_usleep :: "env \<Rightarrow> cfun" where
  "do_usleep E stk =
     bindA (stk_int E stk (- 1)) (\<lambda>v.
       let howlong = to_int32 v in
       if howlong < 1 then ret (Inr [])
       else thenA (without_lock E (emit (EvSleep howlong))) (ret (Inr [])))"

text \<open>Calling the original of an intercepted function through its address.\<close>

definition call_orig :: "env \<Rightarrow> string \<Rightarrow> u64 list \<Rightarrow> u64 act" where
  "call_orig E n args =
     thenA (emit (EvCall n args))
       (bindA (getS (e_libc E n args)) (\<lambda>(rv, m, err).
         thenA (modS (\<lambda>s. s\<lparr>l_mem := m, l_errno := err\<rparr>)) (ret rv)))"

text \<open>
  \<^verbatim>\<open>abstractInvoke\<close> and the generated invoker: each argument is read at the width of its
  parameter, the result is an unsigned integer of the result's width, widened.
\<close>

definition abstractInvoke :: "env \<Rightarrow> ftype \<Rightarrow> u64 list \<Rightarrow> int act" where
  "abstractInvoke E f args =
     (if \<not> (1 \<le> num_args f \<and> num_args f \<le> 5) then halt (Aborted ''UNREACHED'')
      else case abstractInvoke_select f of
        None \<Rightarrow> halt (Undefined ''invoker index'')
      | Some (r, ws) \<Rightarrow>
          if length args < length ws then halt (Undefined ''invoke: missing argument'')
          else bindA (call_orig E (fname f) (map2 trunc_width ws args)) (\<lambda>rv.
            ret (if r = 4 then uint (trunc_width 4 rv) else sint rv)))"

text \<open>
  \<^verbatim>\<open>do_invoke\<close>: the table is read at an index the script supplies; the row after the last is
  the terminator, whose position is 0; the argument array holds \<^const>\<open>MAX_ARGS\<close> values.
\<close>

definition do_invoke :: "env \<Rightarrow> cfun" where
  "do_invoke E stk =
     (let n_args = int (length stk) - 1 in
      bindA (stk_int E stk 1) (\<lambda>v.
        let off = to_int32 v in
        bindA (getS l_funs) (\<lambda>fs.
          if off = int (length fs) then halt (Aborted ''fun.pos == offset'')
          else case at fs off of
            None \<Rightarrow> halt (Undefined ''functions[offset]'')
          | Some f \<Rightarrow>
              thenA (assertA ''fun.pos == offset'' (pos f = off))
                (if int MAX_ARGS < n_args then halt (Undefined ''args[MAX_ARGS]'')
                 else let args = map (\<lambda>v. word_of_int (lua_tointeger E v)) (drop 1 stk) in
                   bindA (without_lock E (abstractInvoke E f args)) (\<lambda>rv.
                     ret (Inr [lua_pushinteger rv]))))))"

definition set_errno :: "env \<Rightarrow> cfun" where
  "set_errno E stk =
     bindA (stk_int E stk (- 1)) (\<lambda>v.
       thenA (modS (\<lambda>s. s\<lparr>l_errno := to_int32 v\<rparr>)) (ret (Inr [])))"

text \<open>\<^verbatim>\<open>snprintf(buf, bsz - 1, ...)\<close> keeps at most \<open>bsz - 2\<close> characters.\<close>

definition snprintf_name :: "nat \<Rightarrow> string \<Rightarrow> string \<Rightarrow> string" where
  "snprintf_name bsz prefix n = take (bsz - 2) (prefix @ n)"

definition hasFunction :: "string \<Rightarrow> bool act" where
  "hasFunction n = thenA (emit EvLua) (getS (\<lambda>s. l_globals s n \<noteq> VNil))"

fun reinit_rows :: "ftype list \<Rightarrow> ftype list act" where
  "reinit_rows [] = ret []"
| "reinit_rows (f # fs) =
     bindA (hasFunction (snprintf_name 64 ''before_'' (fname f))) (\<lambda>b.
     bindA (hasFunction (snprintf_name 64 ''around_'' (fname f))) (\<lambda>r.
     bindA (hasFunction (snprintf_name 64 ''after_'' (fname f))) (\<lambda>a.
     bindA (reinit_rows fs) (\<lambda>fs'.
       ret (f\<lparr>has_before := b, has_around := r, has_after := a\<rparr> # fs')))))"

definition do_reinit :: "env \<Rightarrow> cfun" where
  "do_reinit E stk =
     with_lock E
       (bindA (getS l_funs) (\<lambda>fs. bindA (reinit_rows fs) (\<lambda>fs'.
         thenA (modS (\<lambda>s. s\<lparr>l_funs := fs'\<rparr>)) (ret (Inr [])))))"

text \<open>The registration table \<^verbatim>\<open>labrea_funcs\<close>.\<close>

definition labrea_funcs :: "env \<Rightarrow> (string \<times> cfun) list" where
  "labrea_funcs E =
     [(''fileno'', do_fileno E), (''free'', do_free E), (''invoke'', do_invoke E),
      (''malloc'', do_malloc E), (''memcpy'', do_memcpy E), (''reinit'', do_reinit E),
      (''set_errno'', set_errno E), (''tostring'', cstring_tolstring E),
      (''usleep'', do_usleep E)]"

subsection \<open>Running scripts\<close>

text \<open>
  \<open>libc\<close> is what a call from Lua's libraries into an intercepted C function does.  Every
  step of a script works on the Lua state (\<^const>\<open>EvLua\<close>).
\<close>

primrec run_script :: "env \<Rightarrow> (string \<Rightarrow> u64 list \<Rightarrow> u64 act) \<Rightarrow> script \<Rightarrow> (lval + lval list) act"
  where
  "run_script E libc (SRet vs) = thenA (emit EvLua) (ret (Inr vs))"
| "run_script E libc (SErr v) = thenA (emit EvLua) (ret (Inl v))"
| "run_script E libc (SGet n k) =
     thenA (emit EvLua) (bindA (getS (\<lambda>s. l_globals s n)) (\<lambda>v. run_script E libc (k v)))"
| "run_script E libc (SSet n v k) =
     thenA (emit EvLua)
       (thenA (modS (\<lambda>s. s\<lparr>l_globals := (l_globals s)(n := v)\<rparr>)) (run_script E libc k))"
| "run_script E libc (SLabrea n args k) =
     thenA (emit EvLua)
       (case map_of (labrea_funcs E) n of
          None \<Rightarrow> ret (Inl (VStr ''attempt to call a nil value''))
        | Some f \<Rightarrow> bindA (f args) (\<lambda>r.
            case r of Inl e \<Rightarrow> ret (Inl e) | Inr vs \<Rightarrow> run_script E libc (k vs)))"
| "run_script E libc (SLibc n args k) =
     thenA (emit EvLua) (bindA (libc n args) (\<lambda>rv. run_script E libc (k rv)))"
| "run_script E libc (SPcall b k) =
     thenA (emit EvLua) (bindA (run_script E libc b) (\<lambda>r. run_script E libc (k r)))"

text \<open>\<^verbatim>\<open>lua_pcall\<close> of a value with arguments: \<^const>\<open>Inl\<close> is a nonzero status.\<close>

definition lua_pcall :: "env \<Rightarrow> (string \<Rightarrow> u64 list \<Rightarrow> u64 act) \<Rightarrow> lval \<Rightarrow> lval list \<Rightarrow>
    (lval + lval list) act" where
  "lua_pcall E libc v args =
     (case v of VFun n \<Rightarrow> run_script E libc (e_body E n args)
      | _ \<Rightarrow> thenA (emit EvLua) (ret (Inl (VStr ''attempt to call a non-function value''))))"

end
