(* ===== verification/Labrea_Hooks.thy ===== *)
theory Labrea_Hooks
  imports Labrea_Api
begin

text \<open>
  The generated wrapper around every intercepted function (\<^verbatim>\<open>mkwrapfuns.py\<close>,
  \<^verbatim>\<open>mkcallfuns.py\<close>, instantiated by \<^verbatim>\<open>buildfunctions.h\<close>) and the life cycle of the
  scripting state (\<^verbatim>\<open>labrea.cc\<close>, \<^verbatim>\<open>scripting.cc\<close>).
\<close>

subsection \<open>Calling the original\<close>

text \<open>\<^verbatim>\<open>invoke<Rv, Args>\<close>: through the cached address, or \<^verbatim>\<open>dlsym\<close> when there is none yet.\<close>

definition invoke :: "env \<Rightarrow> ftype \<Rightarrow> u64 list \<Rightarrow> u64 act" where
  "invoke E ft args =
     thenA (assertA ''ft->num_args'' (num_args ft = length args))
       (thenA (assertA ''forig'' ((if orig ft \<noteq> None then orig ft else e_dlsym E (fname ft)) \<noteq> None))
         (bindA (call_orig E (fname ft) (map2 (\<lambda>ct v. trunc_width (ct_sizeof ct) v) (arg_types ft) args))
           (\<lambda>rv. ret (trunc_width (rv_size ft) rv))))"

text \<open>
  What \<^verbatim>\<open>wrapper\<close> does for a call made while the thread is already inside labrea.
\<close>

definition passthrough :: "env \<Rightarrow> string \<Rightarrow> u64 list \<Rightarrow> u64 act" where
  "passthrough E n args =
     bindA (getS l_funs) (\<lambda>fs.
       case findFunc fs n of
         None \<Rightarrow> halt (Aborted (''Failed to find '' @ n))
       | Some i \<Rightarrow> invoke E (fs ! i) args)"

subsection \<open>The three kinds of hook\<close>

definition fire_hook :: "env \<Rightarrow> string \<Rightarrow> lval \<Rightarrow> lval list \<Rightarrow> (lval + lval list) act" where
  "fire_hook E nm h args = thenA (emit (EvHook nm args)) (lua_pcall E (passthrough E) h args)"

definition before_call :: "env \<Rightarrow> ftype \<Rightarrow> u64 list \<Rightarrow> unit act" where
  "before_call E f args =
     (let nm = snprintf_name 32 ''before_'' (fname f) in
      thenA (getLuaState E) (with_lock E
        (thenA (emit EvLua) (bindA (getS (\<lambda>s. l_globals s nm)) (\<lambda>h.
          if h = VNil then ret ()
          else bindA (fire_hook E nm h (map2 add_arg (arg_types f) args)) (\<lambda>r.
            case r of Inl e \<Rightarrow> emit (EvErr nm e) | Inr _ \<Rightarrow> ret ()))))))"

text \<open>
  The result of \<^verbatim>\<open>lua_pcall(..., 1, 0)\<close> at stack index 1: the error value, or the first
  result, or nil.
\<close>

definition pcall_top :: "lval + lval list \<Rightarrow> lval" where
  "pcall_top r = (case r of Inl e \<Rightarrow> e | Inr [] \<Rightarrow> VNil | Inr (v # _) \<Rightarrow> v)"

definition around_call :: "env \<Rightarrow> ftype \<Rightarrow> u64 list \<Rightarrow> u64 act" where
  "around_call E f args =
     (let nm = snprintf_name 32 ''around_'' (fname f) in
      thenA (getLuaState E) (with_lock E
        (thenA (emit EvLua) (bindA (getS (\<lambda>s. l_globals s nm)) (\<lambda>h.
          bindA (fire_hook E nm h (lua_pushinteger (pos f) # map2 add_arg (arg_types f) args)) (\<lambda>r.
            thenA (case r of Inl e \<Rightarrow> emit (EvErr nm e) | Inr _ \<Rightarrow> ret ())
              (thenA (assertA ''lua_isnumber(lsh.state, 1)'' (lua_isnumber E (pcall_top r)))
                (ret (trunc_width (rv_size f) (word_of_int (lua_tointeger E (pcall_top r)))))))))))) "

definition after_call :: "env \<Rightarrow> ftype \<Rightarrow> u64 \<Rightarrow> u64 list \<Rightarrow> unit act" where
  "after_call E f rv args =
     (let nm = snprintf_name 32 ''after_'' (fname f) in
      thenA (getLuaState E) (with_lock E
        (thenA (emit EvLua) (bindA (getS (\<lambda>s. l_globals s nm)) (\<lambda>h.
          if h = VNil then ret ()
          else bindA (fire_hook E nm h (add_arg (rv_type f) rv # map2 add_arg (arg_types f) args)) (\<lambda>r.
            case r of Inl e \<Rightarrow> emit (EvErr nm e) | Inr _ \<Rightarrow> ret ()))))))"

text \<open>\<^verbatim>\<open>wrapper<Rv, Args>(name, args)\<close>, the function that replaces the intercepted one.\<close>

definition wrapper :: "env \<Rightarrow> string \<Rightarrow> u64 list \<Rightarrow> u64 act" where
  "wrapper E n args =
     bindA (getS l_funs) (\<lambda>fs.
       case findFunc fs n of
         None \<Rightarrow> halt (Aborted (''Failed to find '' @ n))
       | Some i \<Rightarrow>
           bindA (LuaInvocation_ctor E) (\<lambda>ready.
             if \<not> ready then bindA (getS l_funs) (\<lambda>fs. invoke E (fs ! i) args)
             else
               thenA (bindA (getS l_funs) (\<lambda>fs. if has_before (fs ! i)
                        then before_call E (fs ! i) args else ret ()))
                 (bindA (bindA (getS l_funs) (\<lambda>fs. if has_around (fs ! i)
                           then around_call E (fs ! i) args else invoke E (fs ! i) args)) (\<lambda>rv.
                   thenA (bindA (getS l_funs) (\<lambda>fs. if has_after (fs ! i)
                            then after_call E (fs ! i) rv args else ret ()))
                     (thenA (LuaInvocation_dtor ready) (ret rv))))))"

subsection \<open>Life cycle\<close>

text \<open>\<^verbatim>\<open>recordFunctions\<close> tells the init script every hook point.\<close>

fun recordFunctions :: "env \<Rightarrow> ftype list \<Rightarrow> unit act" where
  "recordFunctions E [] = ret ()"
| "recordFunctions E (f # fs) =
     bindA (getS (\<lambda>s. l_globals s ''labrea_record_function'')) (\<lambda>h.
     bindA (lua_pcall E (passthrough E) h [VStr (fname f)]) (\<lambda>r.
       case r of
         Inl e \<Rightarrow> thenA (emit (EvErr ''Error recording functions function: '' e)) (halt (Aborted ''recordFunctions''))
       | Inr _ \<Rightarrow> recordFunctions E fs))"

text \<open>
  \<^verbatim>\<open>initScriptingState\<close>: \<open>init\<close> is the chunk \<^verbatim>\<open>LABREA_INIT\<close> names, when it is set; a
  nonzero status of the chunk exits the process.
\<close>

definition initScriptingState :: "env \<Rightarrow> script option \<Rightarrow> unit act" where
  "initScriptingState E init =
     thenA (emit EvLua)
       (thenA (case init of None \<Rightarrow> ret ()
               | Some chunk \<Rightarrow> bindA (run_script E (passthrough E) chunk) (\<lambda>r.
                   case r of Inl e \<Rightarrow> thenA (emit (EvErr ''Error processing labrea script from '' e)) (halt (Exited 1))
                   | Inr _ \<Rightarrow> ret ()))
         (thenA (bindA (getS l_funs) (recordFunctions E))
           (bindA (getS (\<lambda>s. l_globals s ''labrea_load_user_script'')) (\<lambda>h.
             bindA (lua_pcall E (passthrough E) h []) (\<lambda>r.
               case r of Inl e \<Rightarrow> thenA (emit (EvErr ''Error loading user script: '' e)) (halt (Aborted ''initScriptingState''))
               | Inr _ \<Rightarrow> ret ())))))"

definition destroyScriptingState :: "env \<Rightarrow> unit act" where
  "destroyScriptingState E =
     with_lock E (bindA (getS (\<lambda>s. l_globals s ''labrea_exiting'')) (\<lambda>h.
       bindA (lua_pcall E (passthrough E) h []) (\<lambda>r.
         case r of Inl e \<Rightarrow> emit (EvErr ''Error running exit function: '' e) | Inr _ \<Rightarrow> ret ())))"

text \<open>The constructor and the destructor of \<^verbatim>\<open>LabreaInit\<close>.\<close>

definition LabreaInit_ctor :: "env \<Rightarrow> script option \<Rightarrow> unit act" where
  "LabreaInit_ctor E init =
     bindA (LuaInvocation_ctor E) (\<lambda>ready.
       thenA (assertA ''labreafree'' (e_dlsym E ''free'' \<noteq> None))
         (thenA (assertA ''labrearealloc'' (e_dlsym E ''realloc'' \<noteq> None))
           (bindA (getS l_funs) (\<lambda>fs.
             case init_functions (e_dlsym E) 0 fs of
               None \<Rightarrow> halt (Aborted ''functions[n].orig'')
             | Some gs \<Rightarrow>
                 thenA (modS (\<lambda>s. s\<lparr>l_funs := gs\<rparr>))
                   (thenA (initScriptingState E init) (LuaInvocation_dtor ready))))))"

definition LabreaInit_dtor :: "env \<Rightarrow> unit act" where
  "LabreaInit_dtor E =
     bindA (LuaInvocation_ctor E) (\<lambda>ready.
       thenA (destroyScriptingState E) (LuaInvocation_dtor ready))"

text \<open>
  One turn of \<^verbatim>\<open>timerLoop\<close>.  The timer thread never creates a \<^verbatim>\<open>LuaInvocation\<close>, so the C
  library calls its scripts make go through the whole \<^const>\<open>wrapper\<close>.
\<close>

definition timerLoop_turn :: "env \<Rightarrow> int \<Rightarrow> unit act" where
  "timerLoop_turn E i =
     thenA (emit (EvSleep 1000000))
       (with_lock E (bindA (getS (\<lambda>s. l_globals s ''labrea_periodic'')) (\<lambda>h.
         bindA (lua_pcall E (wrapper E) h [lua_pushinteger i]) (\<lambda>r.
           case r of Inl e \<Rightarrow> emit (EvErr ''Error running exit function: '' e) | Inr _ \<Rightarrow> ret ()))))"

definition initial_state :: lstate where
  "initial_state =
     \<lparr>l_held = False, l_flag = None, l_thread = False, l_errno = 0, l_mem = Map.empty,
      l_funs = calls_defs, l_globals = (\<lambda>_. VNil), l_trace = []\<rparr>"

end
