(* ===== verification/Labrea_Safety.thy ===== *)
theory Labrea_Safety
  imports Labrea_Hooks
begin

text \<open>
  Properties of the hook machinery: the lock is taken and released in pairs and the Lua
  state is only touched while it is held, hooks never nest, they fire in order around one
  call of the original function, and values cross the Lua boundary unchanged when they
  fit a double.

  The judgement \<open>acts k h h' A m\<close> says of an action started with the lock in state \<open>h\<close>:
  if it finishes, the lock is in state \<open>h'\<close>, the invocation flag and the function table are
  as before, its events obey the lock discipline, and the hooks it fired are one of the
  sequences \<open>A\<close>; and, when \<open>k\<close> holds, it never deadlocks on the lock or releases it unheld.
\<close>

subsection \<open>Lock discipline of an event sequence\<close>

fun disc :: "bool \<Rightarrow> event list \<Rightarrow> bool option" where
  "disc h [] = Some h"
| "disc h (EvLock # t) = (if h then None else disc True t)"
| "disc h (EvUnlock # t) = (if h then disc False t else None)"
| "disc h (EvLua # t) = (if h then disc h t else None)"
| "disc h (EvHook n a # t) = (if h then disc h t else None)"
| "disc h (EvCall n a # t) = disc h t"
| "disc h (EvSleep d # t) = (if h then None else disc h t)"
| "disc h (EvErr n v # t) = disc h t"

lemma disc_append: "disc h (t @ u) = Option.bind (disc h t) (\<lambda>h'. disc h' u)"
  by (induction h t rule: disc.induct) auto

fun is_hook :: "event \<Rightarrow> bool" where
  "is_hook (EvHook n a) = True"
| "is_hook _ = False"

subsection \<open>The judgement\<close>

definition good_end :: "bool \<Rightarrow> bool \<Rightarrow> event list set \<Rightarrow> lstate \<Rightarrow> lstate \<Rightarrow> bool" where
  "good_end h h' A s s' \<longleftrightarrow>
     l_held s' = h' \<and> l_flag s' = l_flag s \<and> l_funs s' = l_funs s \<and>
     (\<exists>t. l_trace s' = l_trace s @ t \<and> disc h t = Some h' \<and> filter is_hook t \<in> A)"

definition acts :: "bool \<Rightarrow> bool \<Rightarrow> bool \<Rightarrow> event list set \<Rightarrow> 'a act \<Rightarrow> bool" where
  "acts k h h' A m \<longleftrightarrow>
     (\<forall>s. l_held s = h \<longrightarrow>
        (case m s of Inl (e, s') \<Rightarrow> k \<longrightarrow> e \<noteq> Deadlock \<and> e \<noteq> MutexMisuse
         | Inr (x, s') \<Rightarrow> good_end h h' A s s'))"

lemma actsI:
  assumes "\<And>s e s'. l_held s = h \<Longrightarrow> m s = Inl (e, s') \<Longrightarrow> k \<Longrightarrow> e \<noteq> Deadlock \<and> e \<noteq> MutexMisuse"
    and "\<And>s x s'. l_held s = h \<Longrightarrow> m s = Inr (x, s') \<Longrightarrow> good_end h h' A s s'"
  shows "acts k h h' A m"
  using assms unfolding acts_def by (auto split: sum.splits)

lemma acts_Inr: "acts k h h' A m \<Longrightarrow> l_held s = h \<Longrightarrow> m s = Inr (x, s') \<Longrightarrow> good_end h h' A s s'"
  unfolding acts_def by (drule spec [of _ s]) simp

lemma acts_Inl:
  "acts k h h' A m \<Longrightarrow> l_held s = h \<Longrightarrow> m s = Inl (e, s') \<Longrightarrow> k \<Longrightarrow> e \<noteq> Deadlock \<and> e \<noteq> MutexMisuse"
  unfolding acts_def by (drule spec [of _ s]) simp

definition cat :: "event list set \<Rightarrow> event list set \<Rightarrow> event list set" where
  "cat A B = {a @ b | a b. a \<in> A \<and> b \<in> B}"

lemma cat_nil [simp]: "cat {[]} B = B" "cat A {[]} = A"
  by (auto simp: cat_def)

named_theorems acts_rules "rules of the judgement acts"

lemma good_end_trans:
  "good_end h h1 A s s1 \<Longrightarrow> good_end h1 h2 B s1 s2 \<Longrightarrow> good_end h h2 (cat A B) s s2"
  by (fastforce simp: good_end_def cat_def disc_append)

lemma acts_bind_cat:
  assumes "acts k h h1 A m" "\<And>x. acts k h1 h' B (f x)"
  shows "acts k h h' (cat A B) (bindA m f)"
proof (rule actsI)
  fix s e s' assume s: "l_held s = h" and b: "bindA m f s = Inl (e, s')" and k
  show "e \<noteq> Deadlock \<and> e \<noteq> MutexMisuse"
  proof (cases "m s")
    case (Inl r)
    with b acts_Inl [OF assms(1) s _ \<open>k\<close>] show ?thesis by (simp add: bindA_def)
  next
    case (Inr r)
    then obtain x s1 where r: "m s = Inr (x, s1)" by (cases r) auto
    have "l_held s1 = h1" using acts_Inr [OF assms(1) s r] by (simp add: good_end_def)
    with b r acts_Inl [OF assms(2) _ _ \<open>k\<close>] show ?thesis by (simp add: bindA_def)
  qed
next
  fix s y s' assume s: "l_held s = h" and b: "bindA m f s = Inr (y, s')"
  obtain x s1 where r: "m s = Inr (x, s1)" and y: "f x s1 = Inr (y, s')"
    using b by (auto simp: bindA_def split: sum.splits)
  have 1: "good_end h h1 A s s1" by (rule acts_Inr [OF assms(1) s r])
  then have "l_held s1 = h1" by (simp add: good_end_def)
  from acts_Inr [OF assms(2) this y] 1 show "good_end h h' (cat A B) s s'"
    by (blast intro: good_end_trans)
qed

lemma acts_bind [acts_rules]:
  "acts k h h1 {[]} m \<Longrightarrow> (\<And>x. acts k h1 h' A (f x)) \<Longrightarrow> acts k h h' A (bindA m f)"
  using acts_bind_cat [of k h h1 "{[]}" m h' A f] by simp

lemma acts_bind_left:
  "acts k h h1 A m \<Longrightarrow> (\<And>x. acts k h1 h' {[]} (f x)) \<Longrightarrow> acts k h h' A (bindA m f)"
  using acts_bind_cat [of k h h1 A m h' "{[]}" f] by simp

lemma acts_then [acts_rules]:
  "acts k h h1 {[]} m \<Longrightarrow> acts k h1 h' A n \<Longrightarrow> acts k h h' A (thenA m n)"
  by (simp add: thenA_def acts_bind)

lemma acts_ret [acts_rules]: "acts k h h {[]} (ret x)"
  by (simp add: acts_def ret_def good_end_def)

lemma acts_getS [acts_rules]: "acts k h h {[]} (getS f)"
  by (simp add: acts_def getS_def good_end_def)

lemma acts_halt [acts_rules]: "e \<noteq> Deadlock \<Longrightarrow> e \<noteq> MutexMisuse \<Longrightarrow> acts k h h' A (halt e)"
  by (simp add: acts_def halt_def)

lemma acts_modS [acts_rules]:
  "(\<And>s. l_held (f s) = l_held s \<and> l_flag (f s) = l_flag s \<and> l_funs (f s) = l_funs s \<and>
     l_trace (f s) = l_trace s) \<Longrightarrow> acts k h h {[]} (modS f)"
  by (simp add: acts_def modS_def good_end_def)

lemma acts_emit [acts_rules]:
  "disc h [e] = Some h \<Longrightarrow> \<not> is_hook e \<Longrightarrow> acts k h h {[]} (emit e)"
  by (simp add: acts_def modS_def emit_def good_end_def)

lemma acts_emit_hook: "acts k True True {[EvHook n a]} (emit (EvHook n a))"
  by (simp add: acts_def modS_def emit_def good_end_def)

lemma acts_assertA [acts_rules]: "acts k h h {[]} (assertA m b)"
  by (simp add: assertA_def acts_rules)

lemma acts_if [acts_rules]:
  "(b \<Longrightarrow> acts k h h' A m) \<Longrightarrow> (\<not> b \<Longrightarrow> acts k h h' A n) \<Longrightarrow> acts k h h' A (if b then m else n)"
  by simp

lemma acts_case_option [acts_rules]:
  "acts k h h' A m \<Longrightarrow> (\<And>x. acts k h h' A (f x)) \<Longrightarrow>
   acts k h h' A (case z of None \<Rightarrow> m | Some x \<Rightarrow> f x)"
  by (cases z) auto

lemma acts_case_sum [acts_rules]:
  "(\<And>x. acts k h h' A (f x)) \<Longrightarrow> (\<And>y. acts k h h' A (g y)) \<Longrightarrow>
   acts k h h' A (case z of Inl x \<Rightarrow> f x | Inr y \<Rightarrow> g y)"
  by (cases z) auto

lemma acts_case_prod [acts_rules]:
  "(\<And>x y. acts k h h' A (f x y)) \<Longrightarrow> acts k h h' A (case z of (x, y) \<Rightarrow> f x y)"
  by (cases z) auto

lemma acts_Let [acts_rules]: "acts k h h' A (f x) \<Longrightarrow> acts k h h' A (Let x f)"
  by (simp add: Let_def)

lemma good_end_mono: "good_end h h' A s s' \<Longrightarrow> A \<subseteq> B \<Longrightarrow> good_end h h' B s s'"
  unfolding good_end_def by blast

lemma acts_mono:
  assumes "acts k h h' A m" "A \<subseteq> B"
  shows "acts k h h' B m"
  by (rule actsI, rule acts_Inl [OF assms(1)], assumption+,
      rule good_end_mono [OF acts_Inr [OF assms(1)] assms(2)], assumption+)

lemma acts_weaken: "acts True h h' A m \<Longrightarrow> acts k h h' A m"
  by (rule actsI) (blast dest: acts_Inl acts_Inr)+

subsection \<open>The mutex\<close>

lemma acts_mutex [acts_rules]:
  "acts k False True {[]} pthread_mutex_lock" "acts k True False {[]} pthread_mutex_unlock"
  by (auto simp: acts_def good_end_def pthread_mutex_lock_def pthread_mutex_unlock_def bindA_def
      thenA_def getS_def modS_def emit_def ret_def)

lemma acts_LockHolder [acts_rules]:
  "acts k False True {[]} (LockHolder_lock E)" "acts k True False {[]} (LockHolder_unlock E)"
  unfolding LockHolder_lock_def LockHolder_unlock_def by (rule acts_rules stop.distinct)+

lemma LockHolder_lock_again:
  "l_held s \<Longrightarrow> \<exists>e s'. LockHolder_lock E s = Inl (e, s')"
  by (simp add: LockHolder_lock_def bindA_def pthread_mutex_lock_def getS_def halt_def
      split: prod.splits)

lemma acts_with_lock: "acts k True True A m \<Longrightarrow> acts k False False A (with_lock E m)"
  unfolding with_lock_def by (assumption | rule acts_then acts_bind_left | rule acts_rules)+

lemma acts_with_lock_again: "acts False True h' A (with_lock E m)"
  unfolding acts_def with_lock_def thenA_def bindA_def
  using LockHolder_lock_again [of _ E] by (fastforce split: sum.splits)

lemma acts_without_lock: "acts k False False A m \<Longrightarrow> acts k True True A (without_lock E m)"
  unfolding without_lock_def AntiLockHolder_ctor_def AntiLockHolder_dtor_def
  by (assumption | rule acts_then acts_bind_left stop.distinct | rule acts_rules)+

lemma acts_getLuaState [acts_rules]: "acts k False False {[]} (getLuaState E)"
  unfolding getLuaState_def
  by (rule acts_rules acts_with_lock stop.distinct | simp)+

subsection \<open>The API functions\<close>

lemma acts_stk [acts_rules]: "acts k h h {[]} (stk_get stk i)" "acts k h h {[]} (stk_int E stk i)"
  unfolding stk_int_def stk_get_def by (rule acts_rules stop.distinct | simp)+

lemma acts_call_orig [acts_rules]: "acts k h h {[]} (call_orig E n args)"
  unfolding call_orig_def by (rule acts_rules | simp)+

lemma acts_abstractInvoke [acts_rules]: "acts k h h {[]} (abstractInvoke E f args)"
  unfolding abstractInvoke_def by (rule acts_rules stop.distinct | simp)+

lemma acts_reinit_rows [acts_rules]: "acts k True True {[]} (reinit_rows fs)"
  by (induction fs) (auto simp: hasFunction_def intro!: acts_rules)

lemma acts_api:
  "acts k True True {[]} (cstring_tolstring E stk)" "acts k True True {[]} (do_malloc E stk)"
  "acts k True True {[]} (do_free E stk)" "acts k True True {[]} (do_memcpy E stk)"
  "acts k True True {[]} (do_fileno E stk)" "acts k True True {[]} (set_errno E stk)"
  unfolding cstring_tolstring_def do_malloc_def do_free_def do_memcpy_def do_fileno_def set_errno_def
  by (rule acts_rules stop.distinct | simp)+

lemma acts_do_usleep: "acts k True True {[]} (do_usleep E stk)"
  unfolding do_usleep_def by (rule acts_rules acts_without_lock | simp)+

lemma acts_do_invoke: "acts k True True {[]} (do_invoke E stk)"
  unfolding do_invoke_def by (rule acts_rules acts_without_lock stop.distinct | simp)+

lemma acts_do_reinit: "acts False True True {[]} (do_reinit E stk)"
  unfolding do_reinit_def by (rule acts_with_lock_again)

lemma acts_labrea_funcs:
  "map_of (labrea_funcs E) n = Some f \<Longrightarrow> k = False \<or> n \<noteq> ''reinit'' \<Longrightarrow> acts k True True {[]} (f args)"
  by (auto simp: labrea_funcs_def acts_api acts_do_usleep acts_do_invoke acts_do_reinit
      split: if_splits)

subsection \<open>Scripts\<close>

text \<open>A script that never calls \<^verbatim>\<open>labrea.reinit\<close>, whatever the calls it makes return.\<close>

primrec no_reinit :: "script \<Rightarrow> bool" where
  "no_reinit (SRet vs) = True"
| "no_reinit (SErr v) = True"
| "no_reinit (SGet n k) = (\<forall>v. no_reinit (k v))"
| "no_reinit (SSet n v k) = no_reinit k"
| "no_reinit (SLabrea n args k) = (n \<noteq> ''reinit'' \<and> (\<forall>vs. no_reinit (k vs)))"
| "no_reinit (SLibc n args k) = (\<forall>v. no_reinit (k v))"
| "no_reinit (SPcall b k) = (no_reinit b \<and> (\<forall>r. no_reinit (k r)))"

lemma acts_run_script:
  assumes "\<And>n args. acts k True True {[]} (libc n args)"
  shows "k = False \<or> no_reinit sc \<Longrightarrow> acts k True True {[]} (run_script E libc sc)"
proof (induction sc)
  case (SLabrea n args c)
  then show ?case
    by (auto intro!: acts_rules split: option.split sum.split
        intro: acts_labrea_funcs)
qed (auto intro!: acts_rules assms)

lemma acts_invoke [acts_rules]: "acts k h h {[]} (invoke E f args)"
  unfolding invoke_def by (rule acts_rules | simp)+

lemma acts_passthrough [acts_rules]: "acts k h h {[]} (passthrough E n args)"
  unfolding passthrough_def by (rule acts_rules stop.distinct | simp)+

definition safe_env :: "env \<Rightarrow> bool" where
  "safe_env E \<longleftrightarrow> (\<forall>n args. no_reinit (e_body E n args))"

lemma acts_lua_pcall:
  "k = False \<or> safe_env E \<Longrightarrow> acts k True True {[]} (lua_pcall E (passthrough E) v args)"
  unfolding lua_pcall_def safe_env_def
  by (auto split: lval.split intro!: acts_run_script acts_rules)

subsection \<open>The wrapper\<close>

definition before_ev :: "ftype \<Rightarrow> u64 list \<Rightarrow> event" where
  "before_ev f args =
     EvHook (snprintf_name 32 ''before_'' (fname f)) (map2 add_arg (arg_types f) args)"

definition around_ev :: "ftype \<Rightarrow> u64 list \<Rightarrow> event" where
  "around_ev f args =
     EvHook (snprintf_name 32 ''around_'' (fname f))
       (lua_pushinteger (pos f) # map2 add_arg (arg_types f) args)"

definition after_ev :: "ftype \<Rightarrow> u64 \<Rightarrow> u64 list \<Rightarrow> event" where
  "after_ev f rv args =
     EvHook (snprintf_name 32 ''after_'' (fname f))
       (add_arg (rv_type f) rv # map2 add_arg (arg_types f) args)"

lemma acts_fire_hook:
  "k = False \<or> safe_env E \<Longrightarrow> acts k True True {[EvHook nm args]} (fire_hook E nm h args)"
  unfolding fire_hook_def thenA_def
  by (rule acts_bind_left [OF acts_emit_hook]) (rule acts_lua_pcall)

lemma acts_emit_err [acts_rules]: "acts k h h {[]} (emit (EvErr n v))"
  by (rule acts_emit) simp_all

lemma acts_optional_hook:
  assumes "k = False \<or> safe_env E"
  shows "acts k True True {[], [EvHook nm args]}
    (if h = VNil then ret ()
     else bindA (fire_hook E nm h args) (\<lambda>r. case r of Inl e \<Rightarrow> emit (EvErr nm e) | Inr _ \<Rightarrow> ret ()))"
proof (cases "h = VNil")
  case True
  then show ?thesis by (simp add: acts_mono [OF acts_ret])
next
  case False
  have "acts k True True {[EvHook nm args]}
     (bindA (fire_hook E nm h args) (\<lambda>r. case r of Inl e \<Rightarrow> emit (EvErr nm e) | Inr _ \<Rightarrow> ret ()))"
    by (rule acts_bind_left [OF acts_fire_hook [OF assms]]) (rule acts_rules)+
  with False show ?thesis by (simp add: acts_mono)
qed

lemma acts_before_call:
  assumes "k = False \<or> safe_env E"
  shows "acts k False False {[], [before_ev f args]} (before_call E f args)"
  unfolding before_call_def before_ev_def Let_def
  by (rule acts_with_lock acts_optional_hook [OF assms] | rule acts_rules | simp)+

lemma acts_around_call:
  assumes "k = False \<or> safe_env E"
  shows "acts k False False {[around_ev f args]} (around_call E f args)"
  unfolding around_call_def around_ev_def Let_def
  by (rule acts_with_lock acts_bind_left [OF acts_fire_hook [OF assms]] acts_rules | simp)+

lemma acts_after_call:
  assumes "k = False \<or> safe_env E"
  shows "acts k False False {[], [after_ev f rv args]} (after_call E f rv args)"
  unfolding after_call_def after_ev_def Let_def
  by (rule acts_with_lock acts_optional_hook [OF assms] | rule acts_rules | simp)+

text \<open>The part of \<^const>\<open>wrapper\<close> that runs while the invocation flag is set.\<close>

definition hooked_body :: "env \<Rightarrow> nat \<Rightarrow> u64 list \<Rightarrow> u64 act" where
  "hooked_body E i args =
     thenA (bindA (getS l_funs) (\<lambda>fs. if has_before (fs ! i)
              then before_call E (fs ! i) args else ret ()))
       (bindA (bindA (getS l_funs) (\<lambda>fs. if has_around (fs ! i)
                 then around_call E (fs ! i) args else invoke E (fs ! i) args)) (\<lambda>rv.
         thenA (bindA (getS l_funs) (\<lambda>fs. if has_after (fs ! i)
                  then after_call E (fs ! i) rv args else ret ()))
           (ret rv)))"

text \<open>The hook sequences one wrapped call may produce, given the row and the result.\<close>

definition before_set :: "ftype \<Rightarrow> u64 list \<Rightarrow> event list set" where
  "before_set f args = (if has_before f then {[], [before_ev f args]} else {[]})"

definition around_set :: "ftype \<Rightarrow> u64 list \<Rightarrow> event list set" where
  "around_set f args = (if has_around f then {[around_ev f args]} else {[]})"

definition after_set :: "ftype \<Rightarrow> u64 \<Rightarrow> u64 list \<Rightarrow> event list set" where
  "after_set f rv args = (if has_after f then {[], [after_ev f rv args]} else {[]})"

lemma bindA_Inr:
  "bindA m f s = Inr (y, s') \<longleftrightarrow> (\<exists>x s1. m s = Inr (x, s1) \<and> f x s1 = Inr (y, s'))"
  by (auto simp: bindA_def split: sum.splits)

lemma thenA_Inr:
  "thenA m n s = Inr (y, s') \<longleftrightarrow> (\<exists>x s1. m s = Inr (x, s1) \<and> n s1 = Inr (y, s'))"
  by (simp add: thenA_def bindA_Inr)

lemma hooked_body_spec:
  assumes h: "\<not> l_held s" and r: "hooked_body E i args s = Inr (rv, s')"
  shows "good_end False False
    (cat (before_set (l_funs s ! i) args)
      (cat (around_set (l_funs s ! i) args) (after_set (l_funs s ! i) rv args))) s s'"
proof -
  let ?f = "l_funs s ! i"
  obtain s1 s2 where
    1: "(if has_before ?f then before_call E ?f args else ret ()) s = Inr ((), s1)" and
    2: "(if has_around (l_funs s1 ! i) then around_call E (l_funs s1 ! i) args
         else invoke E (l_funs s1 ! i) args) s1 = Inr (rv, s2)" and
    3: "(if has_after (l_funs s2 ! i) then after_call E (l_funs s2 ! i) rv args else ret ()) s2
         = Inr ((), s')"
    using r by (auto simp: hooked_body_def bindA_Inr thenA_Inr getS_def ret_def [of _ s'])
      (auto simp: ret_def)
  have g1: "good_end False False (before_set ?f args) s s1"
    using 1 h acts_Inr [OF acts_before_call [of False]] by (auto simp: before_set_def ret_def good_end_def)
  then have s1: "\<not> l_held s1" "l_funs s1 = l_funs s" by (simp_all add: good_end_def)
  have g2: "good_end False False (around_set ?f args) s1 s2"
    using 2 s1 acts_Inr [OF acts_around_call [of False]] acts_Inr [OF acts_invoke]
    by (auto simp: around_set_def split: if_splits)
  then have s2: "\<not> l_held s2" "l_funs s2 = l_funs s" using s1 by (simp_all add: good_end_def)
  have g3: "good_end False False (after_set ?f rv args) s2 s'"
    using 3 s2 acts_Inr [OF acts_after_call [of False]] by (auto simp: after_set_def ret_def good_end_def)
  show ?thesis
    by (rule good_end_trans [OF g1 good_end_trans [OF g2 g3]])
qed

lemma wrapper_busy:
  "l_flag s = Some True \<Longrightarrow> wrapper E n args s = passthrough E n args s"
  by (simp add: wrapper_def passthrough_def bindA_def getS_def LuaInvocation_ctor_def thenA_def
      ret_def split: option.split)

lemma bindA_assoc: "bindA (bindA m f) g = bindA m (\<lambda>x. bindA (f x) g)"
  by (auto simp: bindA_def fun_eq_iff split: sum.split)

lemma bindA_ret: "bindA (ret x) f = f x"
  by (simp add: bindA_def fun_eq_iff ret_def)

lemma bindA_step: "m s = Inr (x, s1) \<Longrightarrow> bindA m f s = f x s1"
  by (simp add: bindA_def)

lemma wrapper_ready:
  assumes "findFunc (l_funs s) n = Some i" "l_flag s \<noteq> Some True"
    and "l_flag s = None \<Longrightarrow> e_setspecific E = 0"
  shows "wrapper E n args s =
    bindA (hooked_body E i args) (\<lambda>rv. thenA (LuaInvocation_dtor True) (ret rv))
      (s\<lparr>l_flag := Some True\<rparr>)"
proof -
  have "LuaInvocation_ctor E s = Inr (True, s\<lparr>l_flag := Some True\<rparr>)"
    using assms(2,3)
    by (cases "l_flag s") (auto simp: LuaInvocation_ctor_def bindA_def thenA_def getS_def modS_def ret_def)
  moreover have "getS l_funs s = Inr (l_funs s, s)" by (simp add: getS_def)
  ultimately show ?thesis
    unfolding wrapper_def hooked_body_def
    by (simp add: bindA_step assms(1)) (simp only: thenA_def bindA_assoc bindA_ret)
qed

lemma wrapper_abort:
  assumes "findFunc (l_funs s) n = Some i" "l_flag s = None" "e_setspecific E \<noteq> 0"
  shows "wrapper E n args s = Inl (Aborted ''pthread_setspecific'', s)"
  using assms by (simp add: wrapper_def LuaInvocation_ctor_def bindA_def thenA_def getS_def halt_def)

lemma acts_bind_any:
  assumes "acts k h h1 UNIV m" "\<And>x. acts k h1 h' UNIV (f x)"
  shows "acts k h h' UNIV (bindA m f)"
  by (rule acts_mono [OF acts_bind_cat [OF assms]]) simp

lemma acts_hooked_body:
  assumes "safe_env E"
  shows "acts True False False UNIV (hooked_body E i args)"
proof -
  have k: "True = False \<or> safe_env E" using assms by simp
  note b = acts_before_call [OF k] acts_around_call [OF k] acts_after_call [OF k] acts_invoke
  show ?thesis
    unfolding hooked_body_def thenA_def
    by (rule acts_bind_any acts_if acts_mono [OF acts_ret subset_UNIV]
        acts_mono [OF acts_getS subset_UNIV] b [THEN acts_mono, OF subset_UNIV])+
qed

lemma wrapper_returns:
  assumes "findFunc (l_funs s) n = Some i" "l_flag s \<noteq> Some True" "\<not> l_held s"
    and "wrapper E n args s = Inr (rv, s')"
  shows "\<not> l_held s' \<and> l_flag s' = Some False \<and> l_funs s' = l_funs s \<and>
    (\<exists>t. l_trace s' = l_trace s @ t \<and> disc False t = Some False \<and>
       filter is_hook t \<in> cat (before_set (l_funs s ! i) args)
         (cat (around_set (l_funs s ! i) args) (after_set (l_funs s ! i) rv args)))"
proof -
  have "e_setspecific E = 0" if "l_flag s = None"
    using wrapper_abort [OF assms(1) that, of E args] assms(4) by (cases "e_setspecific E = 0") auto
  from wrapper_ready [OF assms(1,2) this, of args] assms(4)
  have "bindA (hooked_body E i args) (\<lambda>rv. thenA (LuaInvocation_dtor True) (ret rv))
      (s\<lparr>l_flag := Some True\<rparr>) = Inr (rv, s')" by simp
  then obtain s1 where b: "hooked_body E i args (s\<lparr>l_flag := Some True\<rparr>) = Inr (rv, s1)"
    and s': "s' = s1\<lparr>l_flag := Some False\<rparr>"
    by (auto simp: bindA_Inr thenA_Inr LuaInvocation_dtor_def modS_def ret_def)
  from hooked_body_spec [OF _ b] assms(3) show ?thesis
    by (simp add: good_end_def s')
qed

subsection \<open>Properties of one intercepted call\<close>


text \<open>
  C7: no hook nests: while the thread is inside labrea, an intercepted function that
  returns has only called the original, with its arguments cut to their C widths; it took
  no lock and ran no script.\<close>

theorem wrapper_reentrant:
  assumes "l_flag s = Some True" "wrapper E n args s = Inr (rv, s')"
  shows "\<exists>i. findFunc (l_funs s) n = Some i \<and>
    l_trace s' = l_trace s @ [EvCall (fname (l_funs s ! i))
      (map2 (\<lambda>ct v. trunc_width (ct_sizeof ct) v) (arg_types (l_funs s ! i)) args)] \<and>
    l_held s' = l_held s \<and> l_flag s' = Some True"
  using assms wrapper_busy [OF assms(1), of E n args]
  by (auto simp: passthrough_def invoke_def call_orig_def assertA_def bindA_def thenA_def getS_def
      modS_def emit_def ret_def halt_def split: option.splits sum.splits if_splits prod.splits)


end
