(* ===== verification/Labrea_Threads.thy ===== *)
theory Labrea_Threads
  imports Labrea_Safety
begin

text \<open>
  Several threads under one \<^verbatim>\<open>luamutex\<close>.  Each thread has a list of events still to perform;
  a step performs the first event of some thread, and a thread whose next event is
  \<^const>\<open>EvLock\<close> waits until no thread owns the mutex.  The event lists of intercepted calls
  are disciplined (\<^const>\<open>disc\<close>), from which mutual exclusion on the Lua state and freedom
  from deadlock follow for every interleaving.
\<close>

record sys =
  owner :: "nat option"
  todo :: "nat \<Rightarrow> event list"

inductive sys_step :: "sys \<Rightarrow> sys \<Rightarrow> bool" where
  take: "todo x i = EvLock # t \<Longrightarrow> owner x = None \<Longrightarrow>
    sys_step x (x\<lparr>owner := Some i, todo := (todo x)(i := t)\<rparr>)"
| release: "todo x i = EvUnlock # t \<Longrightarrow> owner x = Some i \<Longrightarrow>
    sys_step x (x\<lparr>owner := None, todo := (todo x)(i := t)\<rparr>)"
| other: "todo x i = e # t \<Longrightarrow> e \<noteq> EvLock \<Longrightarrow> e \<noteq> EvUnlock \<Longrightarrow>
    sys_step x (x\<lparr>todo := (todo x)(i := t)\<rparr>)"

inductive_cases sys_stepE: "sys_step x y"

inductive sys_reach :: "sys \<Rightarrow> sys \<Rightarrow> bool" for x0 where
  start: "sys_reach x0 x0"
| step: "sys_reach x0 x \<Longrightarrow> sys_step x y \<Longrightarrow> sys_reach x0 y"

definition sys_start :: "(nat \<Rightarrow> event list) \<Rightarrow> sys" where
  "sys_start ts = \<lparr>owner = None, todo = ts\<rparr>"

text \<open>An event that works on the Lua state.\<close>

fun touches_lua :: "event \<Rightarrow> bool" where
  "touches_lua EvLua = True"
| "touches_lua (EvHook n a) = True"
| "touches_lua _ = False"

text \<open>
  The invariant: what a thread has left to do is disciplined from the point of view of
  whether it owns the mutex, and ends with the mutex released.
\<close>

definition sys_inv :: "sys \<Rightarrow> bool" where
  "sys_inv x \<longleftrightarrow> (\<forall>i. disc (owner x = Some i) (todo x i) = Some False)"

lemma disc_other:
  "disc h (e # t) = Some False \<Longrightarrow> e \<noteq> EvLock \<Longrightarrow> e \<noteq> EvUnlock \<Longrightarrow> disc h t = Some False"
  by (cases e) (auto split: if_splits)

lemma sys_step_inv:
  assumes "sys_step x y" "sys_inv x"
  shows "sys_inv y"
  using assms(1)
proof (cases rule: sys_step.cases)
  case (take i t)
  have "disc False (todo x j) = Some False" for j
    using assms(2) take(3) by (simp add: sys_inv_def)
  then show ?thesis
    using take(2)[symmetric] by (auto simp: sys_inv_def take(1)) (metis disc.simps(2))
next
  case (release i t)
  have j: "disc (i = j) (todo x j) = Some False" for j
    using assms(2) release(3) by (auto simp: sys_inv_def dest: spec [of _ j])
  from j [of i] release(2) have "disc False t = Some False" by simp
  moreover have "disc False (todo x ja) = Some False" if "ja \<noteq> i" for ja
    using j [of ja] that by simp
  ultimately show ?thesis by (simp add: sys_inv_def release(1))
next
  case (other i e t)
  have "disc (owner x = Some i) t = Some False"
    using assms(2) other(2-4) disc_other by (metis sys_inv_def)
  then show ?thesis
    using assms(2) by (auto simp: sys_inv_def other(1))
qed

lemma sys_reach_inv: "sys_reach x0 x \<Longrightarrow> sys_inv x0 \<Longrightarrow> sys_inv x"
  by (induction rule: sys_reach.induct) (auto intro: sys_step_inv)

lemma sys_start_inv: "(\<And>i. disc False (ts i) = Some False) \<Longrightarrow> sys_inv (sys_start ts)"
  by (simp add: sys_inv_def sys_start_def)

lemma touches_owner:
  "sys_inv x \<Longrightarrow> todo x i = e # t \<Longrightarrow> touches_lua e \<Longrightarrow> owner x = Some i"
  unfolding sys_inv_def by (drule spec [of _ i], cases e) (auto split: if_splits)

lemma sys_inv_progress:
  assumes "sys_inv x" "todo x i \<noteq> []"
  shows "\<exists>y. sys_step x y"
proof (cases "owner x")
  case None
  obtain e t where i: "todo x i = e # t" using assms(2) by (cases "todo x i") auto
  have "disc False (e # t) = Some False"
    using assms(1) None i by (auto simp: sys_inv_def dest: spec [of _ i])
  then have "e \<noteq> EvUnlock" by auto
  then show ?thesis using i None by (cases "e = EvLock") (auto intro: sys_step.intros)
next
  case (Some j)
  then have d: "disc True (todo x j) = Some False"
    using assms(1) by (auto simp: sys_inv_def dest: spec [of _ j])
  then obtain e t where j: "todo x j = e # t" by (cases "todo x j") auto
  with d have "e \<noteq> EvLock" by auto
  then show ?thesis using j Some by (cases "e = EvUnlock") (auto intro: sys_step.intros)
qed

text \<open>The threads each run one intercepted call to its end, from outside labrea.\<close>

definition call_traces :: "env \<Rightarrow> (nat \<Rightarrow> event list) \<Rightarrow> bool" where
  "call_traces E ts \<longleftrightarrow>
     (\<forall>j. ts j = [] \<or> (\<exists>s n args i rv s'. findFunc (l_funs s) n = Some i \<and> l_flag s \<noteq> Some True \<and>
        \<not> l_held s \<and> wrapper E n args s = Inr (rv, s') \<and> l_trace s' = l_trace s @ ts j))"

lemma call_traces_disc:
  assumes "call_traces E ts"
  shows "disc False (ts j) = Some False"
proof (cases "ts j = []")
  case False
  then obtain s n args i rv s' where w: "findFunc (l_funs s) n = Some i" "l_flag s \<noteq> Some True"
    "\<not> l_held s" "wrapper E n args s = Inr (rv, s')" "l_trace s' = l_trace s @ ts j"
    using assms unfolding call_traces_def by blast
  from wrapper_returns [OF w(1-4)] w(5) show ?thesis by auto
qed simp



end
