(* ===== verification/Labrea_Forward.thy ===== *)
theory Labrea_Forward
  imports Labrea_Safety
begin

text \<open>
  Transparency: what an application sees when a call is intercepted but not changed.
  Without hooks the wrapper is the original function; with an around hook that forwards
  its arguments to \<^verbatim>\<open>labrea.invoke\<close> the application cannot tell the difference as long as
  the values fit a double exactly.
\<close>

subsection \<open>Values across the boundary\<close>

lemma lua_tointeger_pushinteger:
  "\<bar>k\<bar> < 2 ^ 53 \<Longrightarrow> lua_tointeger E (lua_pushinteger k) = k"
  using d_trunc_cast_num [of k]
  by (auto simp: lua_tointeger_def lua_pushinteger_def lua_number2integer_def number_to_bits_def)

lemma take_bit_signed: "take_bit 32 (scast (ucast (v :: u64) :: 32 word) :: u64) = take_bit 32 v"
proof (rule bit_word_eqI)
  fix n
  show "bit (take_bit 32 (scast (ucast v :: 32 word) :: u64)) n \<longleftrightarrow> bit (take_bit 32 v) n"
    by (cases "n = 31") (auto simp: bit_simps min_def)
qed

lemma take_bit_unsigned: "take_bit 32 (ucast (ucast (v :: u64) :: 32 word) :: u64) = take_bit 32 v"
  by (rule bit_word_eqI) (auto simp: bit_simps)

lemma trunc_add_arg_int:
  "trunc_width (ct_sizeof ct) (word_of_int (add_arg_int ct v)) = trunc_width (ct_sizeof ct) v"
  by (cases ct) (simp_all add: trunc_width_def take_bit_signed take_bit_unsigned to_int64_def)

definition fits_double :: "ctype \<Rightarrow> u64 \<Rightarrow> bool" where
  "fits_double ct v \<longleftrightarrow> \<bar>add_arg_int ct v\<bar> < 2 ^ 53"

lemma marshal_arg:
  "fits_double ct v \<Longrightarrow>
   trunc_width (ct_sizeof ct) (word_of_int (lua_tointeger E (add_arg ct v))) = trunc_width (ct_sizeof ct) v"
  by (simp add: fits_double_def add_arg_def lua_tointeger_pushinteger trunc_add_arg_int)

lemma marshal_args:
  "list_all2 fits_double cts vs \<Longrightarrow>
   map2 trunc_width (map ct_sizeof cts) (map (\<lambda>v. word_of_int (lua_tointeger E v)) (map2 add_arg cts vs))
   = map2 (\<lambda>ct v. trunc_width (ct_sizeof ct) v) cts vs"
  by (induction rule: list_all2_induct) (auto simp: marshal_arg)

text \<open>
  C20: an argument survives the trip from C into Lua and back (\<^verbatim>\<open>add_arg\<close>, \<^verbatim>\<open>lua_tointeger\<close>,
  the invoker's parameter) whenever its integer value is below \<open>2 ^ 53\<close> in magnitude, for
  every C type of \<^verbatim>\<open>calls.defs\<close>.\<close>

theorem argument_roundtrip:
  assumes "\<bar>add_arg_int ct v\<bar> < 2 ^ 53"
  shows "trunc_width (ct_sizeof ct) (word_of_int (lua_tointeger E (add_arg ct v)))
    = trunc_width (ct_sizeof ct) v"
  using assms by (intro marshal_arg) (simp add: fits_double_def)

theorem argument_roundtrip_witness:
  "trunc_width (ct_sizeof Cint) (word_of_int (lua_tointeger (plain_env (\<lambda>n a. SRet [])) (add_arg Cint 4294967295)))
    = trunc_width (ct_sizeof Cint) 4294967295"
  by (rule argument_roundtrip) simp

text \<open>
  beyond that range the trip is lossy: an \<^verbatim>\<open>lseek\<close> offset of \<open>2 ^ 53 + 1\<close> reaches the
  original function as \<open>2 ^ 53\<close> when it passes through a script.\<close>

theorem argument_roundtrip_limit:
  "trunc_width (ct_sizeof Coff_t)
    (word_of_int (lua_tointeger E (add_arg Coff_t (2 ^ 53 + 1)))) = 2 ^ 53"
proof -
  have "lua_tointeger E (add_arg Coff_t (2 ^ 53 + 1)) = lua_number2integer (cast_num (2 ^ 53 + 1))"
    by (simp add: add_arg_def lua_pushinteger_def lua_tointeger_def)
  also have "\<dots> = 2 ^ 53" by code_simp
  finally show ?thesis by (simp add: trunc_width_def)
qed

subsection \<open>No hooks\<close>

text \<open>What an uninstrumented call computes: the original's result, cut to its C type.\<close>

definition orig_args :: "ftype \<Rightarrow> u64 list \<Rightarrow> u64 list" where
  "orig_args f args = map2 (\<lambda>ct v. trunc_width (ct_sizeof ct) v) (arg_types f) args"

text \<open>A C library whose results depend on memory and \<^verbatim>\<open>errno\<close> only.\<close>

definition libc_regular :: "env \<Rightarrow> bool" where
  "libc_regular E \<longleftrightarrow> (\<forall>n args s s'. l_mem s = l_mem s' \<and> l_errno s = l_errno s' \<longrightarrow>
     e_libc E n args s = e_libc E n args s')"

lemma libc_regularD:
  "libc_regular E \<Longrightarrow> l_mem s = l_mem s' \<Longrightarrow> l_errno s = l_errno s' \<Longrightarrow>
   e_libc E n args s = e_libc E n args s'"
  unfolding libc_regular_def by blast

definition callable :: "env \<Rightarrow> ftype \<Rightarrow> u64 list \<Rightarrow> bool" where
  "callable E f args \<longleftrightarrow> num_args f = length args \<and> length (arg_types f) = length args \<and>
     orig f \<noteq> None"

lemma invoke_callable:
  assumes "callable E f args" "e_libc E (fname f) (orig_args f args)
    (s\<lparr>l_trace := l_trace s @ [EvCall (fname f) (orig_args f args)]\<rparr>) = (rv, m, err)"
  shows "invoke E f args s = Inr (trunc_width (rv_size f) rv,
    s\<lparr>l_trace := l_trace s @ [EvCall (fname f) (orig_args f args)], l_mem := m, l_errno := err\<rparr>)"
  using assms
  by (auto simp: invoke_def callable_def assertA_def thenA_def bindA_def ret_def call_orig_def
      emit_def modS_def getS_def orig_args_def)

text \<open>
  C10: an intercepted function with no hooks enabled behaves as the original: the original
  is called once, with the caller's arguments, and the caller gets its result, its memory
  effects and its \<^verbatim>\<open>errno\<close>; no lock is taken.\<close>

theorem wrapper_no_hooks:
  assumes "findFunc (l_funs s) n = Some i" "l_flag s = Some False"
    and "\<not> has_before (l_funs s ! i)" "\<not> has_around (l_funs s ! i)" "\<not> has_after (l_funs s ! i)"
    and "callable E (l_funs s ! i) args" "libc_regular E"
    and "e_libc E (fname (l_funs s ! i)) (orig_args (l_funs s ! i) args) s = (rv, m, err)"
  shows "wrapper E n args s = Inr (trunc_width (rv_size (l_funs s ! i)) rv,
    s\<lparr>l_trace := l_trace s @ [EvCall (fname (l_funs s ! i)) (orig_args (l_funs s ! i) args)],
      l_mem := m, l_errno := err\<rparr>)"
proof -
  let ?s = "s\<lparr>l_flag := Some True\<rparr>" and ?f = "l_funs s ! i"
  have "e_libc E (fname ?f) (orig_args ?f args)
     (?s\<lparr>l_trace := l_trace ?s @ [EvCall (fname ?f) (orig_args ?f args)]\<rparr>) = (rv, m, err)"
    unfolding assms(8) [symmetric] by (rule libc_regularD [OF assms(7)]) simp_all
  note inv = invoke_callable [OF assms(6) this]
  have "hooked_body E i args ?s = Inr (trunc_width (rv_size ?f) rv,
     ?s\<lparr>l_trace := l_trace ?s @ [EvCall (fname ?f) (orig_args ?f args)], l_mem := m, l_errno := err\<rparr>)"
    using inv assms(3-5) by (simp add: hooked_body_def bindA_def thenA_def getS_def ret_def)
  moreover have "wrapper E n args s =
    bindA (hooked_body E i args) (\<lambda>rv. thenA (LuaInvocation_dtor True) (ret rv)) ?s"
    by (rule wrapper_ready) (simp_all add: assms(1,2))
  ultimately show ?thesis
    using assms(2) by (simp add: bindA_step thenA_def LuaInvocation_dtor_def modS_def ret_def)
qed

subsection \<open>A hook that forwards\<close>

lemma with_lock_run:
  assumes "e_mutexattr E = (0, 0)" "\<not> l_held s"
    and "body (s\<lparr>l_held := True, l_trace := l_trace s @ [EvLock]\<rparr>) = Inr (x, s1)" "l_held s1"
  shows "with_lock E body s = Inr (x, s1\<lparr>l_held := False, l_trace := l_trace s1 @ [EvUnlock]\<rparr>)"
  using assms
  by (simp add: with_lock_def LockHolder_lock_def LockHolder_unlock_def pthread_mutex_lock_def
      pthread_mutex_unlock_def thenA_def bindA_def getS_def modS_def emit_def ret_def)

lemma without_lock_run:
  assumes "l_held s"
    and "body (s\<lparr>l_held := False, l_trace := l_trace s @ [EvUnlock]\<rparr>) = Inr (x, s1)" "\<not> l_held s1"
  shows "without_lock E body s = Inr (x, s1\<lparr>l_held := True, l_trace := l_trace s1 @ [EvLock]\<rparr>)"
  using assms
  by (simp add: without_lock_def AntiLockHolder_ctor_def AntiLockHolder_dtor_def
      pthread_mutex_lock_def pthread_mutex_unlock_def thenA_def bindA_def getS_def modS_def
      emit_def ret_def)

text \<open>The row is well formed: what \<^verbatim>\<open>init_functions\<close> establishes for every row of the table.\<close>

definition row_ok :: "ftype list \<Rightarrow> nat \<Rightarrow> bool" where
  "row_ok fs i \<longleftrightarrow> i < length fs \<and> length fs < 2 ^ 31 \<and> pos (fs ! i) = int i \<and>
     num_args (fs ! i) = length (arg_types (fs ! i)) \<and>
     1 \<le> num_args (fs ! i) \<and> num_args (fs ! i) \<le> 5 \<and>
     rv_size (fs ! i) = ct_sizeof (rv_type (fs ! i)) \<and>
     abstractInvoke_select (fs ! i) = Some (rv_size (fs ! i), map ct_sizeof (arg_types (fs ! i)))"

text \<open>What \<^verbatim>\<open>labrea.invoke\<close> hands back to the script for a raw result.\<close>

definition invoke_result :: "ftype \<Rightarrow> u64 \<Rightarrow> int" where
  "invoke_result f rv = (if rv_size f = 4 then uint (trunc_width 4 rv) else sint rv)"

lemma abstractInvoke_run:
  assumes "row_ok fs i" "list_all2 fits_double (arg_types (fs ! i)) args"
    and "e_libc E (fname (fs ! i)) (orig_args (fs ! i) args)
      (s\<lparr>l_trace := l_trace s @ [EvCall (fname (fs ! i)) (orig_args (fs ! i) args)]\<rparr>) = (rv, m, err)"
  shows "abstractInvoke E (fs ! i)
      (map (\<lambda>v. word_of_int (lua_tointeger E v)) (map2 add_arg (arg_types (fs ! i)) args)) s =
    Inr (invoke_result (fs ! i) rv, s\<lparr>l_trace := l_trace s @
      [EvCall (fname (fs ! i)) (orig_args (fs ! i) args)], l_mem := m, l_errno := err\<rparr>)"
proof -
  have "length args = length (arg_types (fs ! i))"
    using assms(2) by (simp add: list_all2_lengthD)
  moreover note marshal_args [OF assms(2), of E]
  ultimately show ?thesis
    using assms(1,3)
    by (simp add: abstractInvoke_def row_ok_def call_orig_def bindA_def thenA_def emit_def modS_def
        getS_def ret_def orig_args_def invoke_result_def)
qed

lemma to_int32_small: "0 \<le> k \<Longrightarrow> k < 2 ^ 31 \<Longrightarrow> to_int32 k = k"
  by (simp add: to_int32_def sint_uint uint_word_of_int take_bit_int_eq_self
      signed_take_bit_int_eq_self)

lemma do_invoke_run:
  assumes "row_ok (l_funs s) i" "list_all2 fits_double (arg_types (l_funs s ! i)) args" "l_held s"
    and "libc_regular E"
    and "e_libc E (fname (l_funs s ! i)) (orig_args (l_funs s ! i) args) s = (rv, m, err)"
  shows "do_invoke E (lua_pushinteger (int i) # map2 add_arg (arg_types (l_funs s ! i)) args) s =
    Inr (Inr [lua_pushinteger (invoke_result (l_funs s ! i) rv)],
      s\<lparr>l_trace := l_trace s @
          [EvUnlock, EvCall (fname (l_funs s ! i)) (orig_args (l_funs s ! i) args), EvLock],
        l_mem := m, l_errno := err\<rparr>)"
proof -
  let ?f = "l_funs s ! i" and ?s1 = "s\<lparr>l_held := False, l_trace := l_trace s @ [EvUnlock]\<rparr>"
  have len: "length args = length (arg_types ?f)" "length args \<le> 5"
    using assms(1,2) by (auto simp: list_all2_lengthD row_ok_def)
  have i: "i < length (l_funs s)" "pos ?f = int i" "length (l_funs s) < 2 ^ 31"
    using assms(1) by (simp_all add: row_ok_def)
  then have ix: "to_int32 (lua_tointeger E (lua_pushinteger (int i))) = int i"
    by (simp add: lua_tointeger_pushinteger to_int32_small)
  have "e_libc E (fname ?f) (orig_args ?f args)
      (?s1\<lparr>l_trace := l_trace ?s1 @ [EvCall (fname ?f) (orig_args ?f args)]\<rparr>) = (rv, m, err)"
    unfolding assms(5) [symmetric] by (rule libc_regularD [OF assms(4)]) simp_all
  note run = without_lock_run [where body = "abstractInvoke E ?f
       (map (\<lambda>v. word_of_int (lua_tointeger E v)) (map2 add_arg (arg_types ?f) args))",
     OF assms(3) abstractInvoke_run [OF assms(1,2) this]]
  have "without_lock E (abstractInvoke E ?f (map (\<lambda>v. word_of_int (lua_tointeger E v))
          (map2 add_arg (arg_types ?f) args))) s =
     Inr (invoke_result ?f rv, s\<lparr>l_trace := l_trace s @
       [EvUnlock, EvCall (fname ?f) (orig_args ?f args), EvLock], l_mem := m, l_errno := err\<rparr>)"
    by (subst run, simp) (use assms(3) in \<open>cases s; simp\<close>)
  then show ?thesis
    using i len ix
    by (simp add: do_invoke_def stk_int_def stk_get_def bindA_def thenA_def getS_def ret_def
        assertA_def MAX_ARGS_def Let_def del: map_map)
qed

definition forward_script :: "lval list \<Rightarrow> script" where
  "forward_script args = SLabrea ''invoke'' args SRet"

text \<open>The row has an around hook, the hook is a function, and the function forwards.\<close>

definition forwarding :: "env \<Rightarrow> lstate \<Rightarrow> nat \<Rightarrow> bool" where
  "forwarding E s i \<longleftrightarrow>
     \<not> has_before (l_funs s ! i) \<and> has_around (l_funs s ! i) \<and> \<not> has_after (l_funs s ! i) \<and>
     (case l_globals s (snprintf_name 32 ''around_'' (fname (l_funs s ! i))) of
        VFun h \<Rightarrow> e_body E h = forward_script
      | _ \<Rightarrow> False)"

lemma trunc_invoke_result:
  assumes "rv_size f = 4 \<or> rv_size f = 8"
  shows "trunc_width (rv_size f) (word_of_int (invoke_result f rv)) = trunc_width (rv_size f) rv"
  using assms by (auto simp: invoke_result_def trunc_width_def)

lemma around_call_run:
  assumes "row_ok (l_funs s) i" "list_all2 fits_double (arg_types (l_funs s ! i)) args"
    and "\<not> l_held s" "l_thread s" "forwarding E s i" "libc_regular E" "e_mutexattr E = (0, 0)"
    and "e_libc E (fname (l_funs s ! i)) (orig_args (l_funs s ! i) args) s = (rv, m, err)"
    and "\<bar>invoke_result (l_funs s ! i) rv\<bar> < 2 ^ 53"
  shows "\<exists>t. around_call E (l_funs s ! i) args s = Inr (trunc_width (rv_size (l_funs s ! i)) rv,
      s\<lparr>l_trace := l_trace s @ t, l_mem := m, l_errno := err\<rparr>)"
proof -
  let ?f = "l_funs s ! i"
  let ?nm = "snprintf_name 32 ''around_'' (fname ?f)"
  let ?stk = "lua_pushinteger (pos ?f) # map2 add_arg (arg_types ?f) args"
  let ?s1 = "s\<lparr>l_held := True, l_trace := l_trace s @ [EvLock, EvLua, EvHook ?nm ?stk, EvLua]\<rparr>"
  obtain h where h: "l_globals s ?nm = VFun h" "e_body E h = forward_script"
    using assms(5) by (auto simp: forwarding_def split: lval.splits)
  have p: "pos ?f = int i" and sz: "rv_size ?f = 4 \<or> rv_size ?f = 8"
    using assms(1) by (auto simp: row_ok_def, cases "rv_type ?f", auto)
  have "e_libc E (fname (l_funs ?s1 ! i)) (orig_args (l_funs ?s1 ! i) args) ?s1 = (rv, m, err)"
    using libc_regularD [OF assms(6), of ?s1 s "fname ?f" "orig_args ?f args"] assms(8) by simp
  then have inv: "do_invoke E ?stk ?s1 = Inr (Inr [lua_pushinteger (invoke_result ?f rv)],
      ?s1\<lparr>l_trace := l_trace ?s1 @ [EvUnlock, EvCall (fname ?f) (orig_args ?f args), EvLock],
        l_mem := m, l_errno := err\<rparr>)"
    using do_invoke_run [of ?s1 i args E rv m err] assms(1,2,6) p by simp
  let ?body = "thenA (emit EvLua) (bindA (getS (\<lambda>s. l_globals s ?nm)) (\<lambda>h.
          bindA (fire_hook E ?nm h ?stk) (\<lambda>r.
            thenA (case r of Inl e \<Rightarrow> emit (EvErr ?nm e) | Inr _ \<Rightarrow> ret ())
              (thenA (assertA ''lua_isnumber(lsh.state, 1)'' (lua_isnumber E (pcall_top r)))
                (ret (trunc_width (rv_size ?f) (word_of_int (lua_tointeger E (pcall_top r)))))))))"
  let ?s2 = "?s1\<lparr>l_trace := l_trace ?s1 @
      [EvUnlock, EvCall (fname ?f) (orig_args ?f args), EvLock, EvLua], l_mem := m, l_errno := err\<rparr>"
  have "?body (s\<lparr>l_held := True, l_trace := l_trace s @ [EvLock]\<rparr>) = Inr (trunc_width (rv_size ?f) rv, ?s2)"
    using inv h
    by (simp add: thenA_def bindA_def emit_def modS_def getS_def ret_def fire_hook_def lua_pcall_def
        forward_script_def labrea_funcs_def pcall_top_def assertA_def lua_isnumber_def
        lua_pushinteger_def [of "invoke_result ?f rv"] lua_tointeger_pushinteger [OF assms(9), unfolded lua_pushinteger_def]
        trunc_invoke_result [OF sz])
  from with_lock_run [of E s ?body, OF assms(7,3) this]
  have "around_call E ?f args s = Inr (trunc_width (rv_size ?f) rv,
      ?s2\<lparr>l_held := False, l_trace := l_trace ?s2 @ [EvUnlock]\<rparr>)"
    using assms(4) by (simp add: around_call_def getLuaState_def Let_def thenA_def bindA_def getS_def ret_def)
  then have "around_call E ?f args s = Inr (trunc_width (rv_size ?f) rv,
      s\<lparr>l_trace := l_trace s @ ([EvLock, EvLua, EvHook ?nm ?stk, EvLua] @
        [EvUnlock, EvCall (fname ?f) (orig_args ?f args), EvLock, EvLua] @ [EvUnlock]),
        l_mem := m, l_errno := err\<rparr>)"
    using assms(3) by (cases s) simp
  then show ?thesis by blast
qed


subsection \<open>Concrete runs\<close>

text \<open>
  The table after initialisation in \<^const>\<open>plain_env\<close>, and a thread inside a running process;
  \<open>on\<close> says which hook names are defined and enabled.
\<close>

definition demo_funs :: "(string \<Rightarrow> bool) \<Rightarrow> ftype list" where
  "demo_funs on =
     (case init_functions (\<lambda>n. Some (length n)) 0 calls_defs of
        None \<Rightarrow> []
      | Some gs \<Rightarrow> map (\<lambda>f. f\<lparr>has_before := on (''before_'' @ fname f),
          has_around := on (''around_'' @ fname f), has_after := on (''after_'' @ fname f)\<rparr>) gs)"

definition demo_state :: "(string \<Rightarrow> bool) \<Rightarrow> lstate" where
  "demo_state on =
     \<lparr>l_held = False, l_flag = Some False, l_thread = True, l_errno = 0, l_mem = Map.empty,
      l_funs = demo_funs on, l_globals = (\<lambda>n. if on n then VFun (length n) else VNil), l_trace = []\<rparr>"

lemma plain_env_regular: "libc_regular (plain_env body)"
  by (simp add: libc_regular_def plain_env_def)

theorem wrapper_no_hooks_witness:
  "wrapper (plain_env (\<lambda>n a. SRet [])) ''read'' [3, 4096, 100] (demo_state (\<lambda>n. False)) =
     Inr (100, (demo_state (\<lambda>n. False))\<lparr>l_trace := [EvCall ''read'' [3, 4096, 100]]\<rparr>)"
proof -
  let ?s = "demo_state (\<lambda>n. False)" and ?E = "plain_env (\<lambda>n a. SRet [])"
  have i: "findFunc (l_funs ?s) ''read'' = Some 7" by code_simp
  have f: "fname (l_funs ?s ! 7) = ''read''" "arg_types (l_funs ?s ! 7) = [Cint, Cptr, Csize_t]"
    "rv_size (l_funs ?s ! 7) = 8" "num_args (l_funs ?s ! 7) = 3" "orig (l_funs ?s ! 7) \<noteq> None"
    "\<not> has_before (l_funs ?s ! 7)" "\<not> has_around (l_funs ?s ! 7)" "\<not> has_after (l_funs ?s ! 7)"
    by code_simp+
  have a: "orig_args (l_funs ?s ! 7) [3, 4096, 100] = [3, 4096, 100]"
    by (simp add: orig_args_def f trunc_width_def)
  have c: "callable ?E (l_funs ?s ! 7) [3, 4096, 100]" by (simp add: callable_def f)
  have l: "e_libc ?E (fname (l_funs ?s ! 7)) (orig_args (l_funs ?s ! 7) [3, 4096, 100]) ?s
      = (100, Map.empty, 0)"
    unfolding f(1) a by (simp add: plain_env_def demo_state_def)
  have g: "l_flag ?s = Some False" by (simp add: demo_state_def)
  show ?thesis
    using wrapper_no_hooks [OF i g f(6-8) c plain_env_regular l]
    unfolding f(1,3) a by (simp add: demo_state_def trunc_width_def)
qed


end
