(* ===== verification/Labrea_Limits.thy ===== *)
theory Labrea_Limits
  imports Labrea_Forward
begin

text \<open>
  Where the hook machinery stops: what happens to scripts that call the API from a place
  or with arguments the C++ code does not guard against, and to a process started without
  an init script.
\<close>

subsection \<open>Re-initialising from a hook\<close>

lemma do_reinit_held:
  "l_held s \<Longrightarrow> e_mutexattr E = (0, 0) \<Longrightarrow> do_reinit E stk s = Inl (Deadlock, s)"
  by (simp add: do_reinit_def with_lock_def thenA_def bindA_def LockHolder_lock_def
      pthread_mutex_lock_def getS_def halt_def)

text \<open>
  a script that calls \<^verbatim>\<open>labrea.reinit\<close> while the lock is held, which is the case in
  every hook, exit handler and timer callback, blocks its thread for ever.\<close>

theorem reinit_in_hook_deadlocks:
  assumes "l_held s" "e_mutexattr E = (0, 0)"
  shows "\<exists>s'. run_script E libc (SLabrea ''reinit'' args k) s = Inl (Deadlock, s')"
  using do_reinit_held [of "s\<lparr>l_trace := l_trace s @ [EvLua]\<rparr>" E args] assms
  by (simp add: thenA_def bindA_def emit_def modS_def labrea_funcs_def)

theorem reinit_in_hook_deadlocks_witness:
  "\<exists>s'. run_script (plain_env (\<lambda>n a. SRet [])) (passthrough (plain_env (\<lambda>n a. SRet [])))
     (SLabrea ''reinit'' [] SRet) ((demo_state (\<lambda>n. True))\<lparr>l_held := True\<rparr>) = Inl (Deadlock, s')"
  by (rule reinit_in_hook_deadlocks) (simp_all add: plain_env_def)

subsection \<open>Timer callbacks and the C library\<close>

text \<open>A timer callback that writes to a file descriptor, and a \<^verbatim>\<open>before_write\<close> hook that does nothing.\<close>

definition writing_timer :: "nat \<Rightarrow> lval list \<Rightarrow> script" where
  "writing_timer n args =
     (if n = length ''labrea_periodic'' then SLibc ''write'' [1, 4096, 5] (\<lambda>r. SRet []) else SRet [])"

definition timer_globals :: "string \<Rightarrow> bool" where
  "timer_globals n \<longleftrightarrow> n = ''labrea_periodic'' \<or> n = ''before_write''"

fun stop_of :: "(stop \<times> lstate) + ('a \<times> lstate) \<Rightarrow> stop option" where
  "stop_of (Inl (e, s)) = Some e"
| "stop_of (Inr r) = None"


text \<open>The same callback is harmless when no hook is set on the function it calls.\<close>

lemma timer_callback_returns:
  "stop_of (timerLoop_turn (plain_env writing_timer) 0 (demo_state (\<lambda>n. n = ''labrea_periodic''))) = None"
  by code_simp

subsection \<open>Results of invoke\<close>

text \<open>
  \<^verbatim>\<open>labrea.invoke\<close> hands a script the result of a function with a 4-byte result as an
  unsigned number, so the failure value \<open>-1\<close> of \<^verbatim>\<open>open\<close>, \<^verbatim>\<open>close\<close>, \<^verbatim>\<open>bind\<close>, \<^verbatim>\<open>connect\<close> and their
  kin arrives as 4294967295, while the after hook of the same call is given \<open>-1\<close>.\<close>

theorem invoke_result_unsigned:
  "rv_size f = 4 \<Longrightarrow> invoke_result f (- 1) = 4294967295 \<and> add_arg_int Cint (- 1) = - 1"
proof -
  have "uint (take_bit 32 (- 1 :: u64)) = 4294967295" "sint (ucast (- 1 :: u64) :: 32 word) = - 1"
    by code_simp+
  then show "rv_size f = 4 \<Longrightarrow> ?thesis"
    by (simp only: invoke_result_def trunc_width_def add_arg_int.simps) simp
qed

theorem invoke_result_unsigned_witness:
  "invoke_result (DEFINE Cint ''close'' [Cint]) (- 1) = 4294967295 \<and> add_arg_int Cint (- 1) = - 1"
  by (rule invoke_result_unsigned) (simp add: DEFINE_def)

subsection \<open>Unchecked arguments\<close>

text \<open>
  \<^verbatim>\<open>labrea.memcpy\<close> does not compare its count with the length of the string it copies
  from: any larger count reads past the string's terminating byte.\<close>

theorem memcpy_overread:
  assumes "int (length str) + 1 < n" "n < 2 ^ 53"
  shows "do_memcpy E [VNum a, VStr str, lua_pushinteger n] s =
    Inl (Undefined ''memcpy: reads past the source'', s)"
proof -
  have "unat (word_of_int n :: u64) = nat n"
    using assms by (simp add: unat_eq_nat_uint uint_word_of_int take_bit_int_eq_self)
  then show ?thesis
    using assms lua_tointeger_pushinteger [of n E]
    by (auto simp: do_memcpy_def stk_int_def stk_get_def bindA_def ret_def Let_def lua_tolstring_def
        bytes_of_def halt_def)
qed

theorem memcpy_overread_witness:
  "do_memcpy (plain_env (\<lambda>n a. SRet [])) [VNum 0, VStr ''ab'', lua_pushinteger 9]
     (demo_state (\<lambda>n. True)) =
    Inl (Undefined ''memcpy: reads past the source'', demo_state (\<lambda>n. True))"
  by (rule memcpy_overread) simp_all

text \<open>
  \<^verbatim>\<open>labrea.usleep\<close> (and so \<^verbatim>\<open>labrea.invoke\<close>) called while the lock is free, as in the
  main chunk of a user script, releases a mutex its thread does not hold.\<close>

theorem usleep_unlocked_misuse:
  assumes "\<not> l_held s" "1 \<le> n" "n < 2 ^ 31"
  shows "do_usleep E [lua_pushinteger n] s = Inl (MutexMisuse, s)"
proof -
  have "to_int32 (lua_tointeger E (lua_pushinteger n)) = n"
    using assms by (simp add: lua_tointeger_pushinteger to_int32_small)
  then show ?thesis
    using assms by (simp add: do_usleep_def stk_int_def stk_get_def bindA_def thenA_def ret_def
        Let_def without_lock_def AntiLockHolder_ctor_def pthread_mutex_unlock_def getS_def halt_def)
qed

theorem usleep_unlocked_misuse_witness:
  "do_usleep (plain_env (\<lambda>n a. SRet [])) [lua_pushinteger 1000] (demo_state (\<lambda>n. True)) =
     Inl (MutexMisuse, demo_state (\<lambda>n. True))"
  by (rule usleep_unlocked_misuse) (simp_all add: demo_state_def)

subsection \<open>Starting without an init script\<close>

text \<open>
  with \<^verbatim>\<open>LABREA_INIT\<close> unset nothing defines \<^verbatim>\<open>labrea_record_function\<close>, so recording the
  first hook point fails and the constructor aborts the process it was loaded into.\<close>

theorem init_without_script_aborts:
  assumes "\<forall>n. e_dlsym E n \<noteq> None" "e_setspecific E = 0"
  shows "stop_of (LabreaInit_ctor E None initial_state) = Some (Aborted ''recordFunctions'')"
proof -
  obtain gs where gs: "init_functions (e_dlsym E) 0 calls_defs = Some gs" "length gs = length calls_defs"
    using init_functions_total [OF calls_defs_sane, of "e_dlsym E" 0] assms(1) by blast
  then obtain f fs where "gs = f # fs" by (cases gs) (auto simp: calls_defs_def)
  then show ?thesis
    using gs(1) assms
    by (simp add: LabreaInit_ctor_def initial_state_def LuaInvocation_ctor_def bindA_def thenA_def
        getS_def modS_def ret_def assertA_def initScriptingState_def emit_def lua_pcall_def halt_def)
qed

theorem init_without_script_aborts_witness:
  "stop_of (LabreaInit_ctor (plain_env (\<lambda>n a. SRet [])) None initial_state) = Some (Aborted ''recordFunctions'')"
  by (rule init_without_script_aborts) (simp_all add: plain_env_def)

end
