(* ===== verification/Labrea_Runs.thy ===== *)
theory Labrea_Runs
  imports Labrea_Threads Labrea_Limits
begin

text \<open>
  Closed runs of the model: intercepted \<^verbatim>\<open>read\<close> calls in a process whose hooks are all on,
  a nested call, a misbehaving around hook, and two threads inside labrea, each satisfying
  the hypotheses of one of the properties about all runs.
\<close>

definition quiet_env :: env where
  "quiet_env = plain_env (\<lambda>n a. SRet [VNum 0])"

text \<open>A function of unit type keeps the states out of the evaluation.\<close>

definition read_hooks :: "string \<Rightarrow> bool" where
  "read_hooks n \<longleftrightarrow> n = ''before_read'' \<or> n = ''around_read'' \<or> n = ''after_read''"

definition read_run :: "(stop \<times> lstate) + (u64 \<times> lstate)" where
  "read_run = wrapper quiet_env ''read'' [3, 4096, 100] (demo_state read_hooks)"

definition result_of :: "(stop \<times> lstate) + (u64 \<times> lstate) \<Rightarrow> u64" where
  "result_of r = (case r of Inr (v, s) \<Rightarrow> v | Inl _ \<Rightarrow> 0)"

definition trace_of :: "(stop \<times> lstate) + (u64 \<times> lstate) \<Rightarrow> event list" where
  "trace_of r = (case r of Inr (v, s) \<Rightarrow> l_trace s | Inl (e, s) \<Rightarrow> l_trace s)"

definition returned :: "(stop \<times> lstate) + (u64 \<times> lstate) \<Rightarrow> bool" where
  "returned r = (case r of Inr _ \<Rightarrow> True | Inl _ \<Rightarrow> False)"

lemma returned_Inr: "returned r \<Longrightarrow> \<exists>s'. r = Inr (result_of r, s')"
  by (auto simp: returned_def result_of_def split: sum.splits)

lemma read_run_ok: "returned read_run"
  by code_simp

lemma demo_read:
  "findFunc (l_funs (demo_state read_hooks)) ''read'' = Some 7"
  by code_simp

lemma demo_simps [simp]:
  "l_flag (demo_state on) = Some False" "\<not> l_held (demo_state on)" "l_trace (demo_state on) = []"
  "l_funs (demo_state on) = demo_funs on" "l_globals (demo_state on) n = (if on n then VFun (length n) else VNil)"
  by (simp_all add: demo_state_def)


theorem wrapper_reentrant_witness:
  "\<exists>rv s'. wrapper quiet_env ''read'' [3, 4096, 100] ((demo_state read_hooks)\<lparr>l_flag := Some True\<rparr>) = Inr (rv, s') \<and>
     \<not> l_held s' \<and> (\<exists>n a. l_trace s' = [EvCall n a])"
proof -
  let ?r = "wrapper quiet_env ''read'' [3, 4096, 100] ((demo_state read_hooks)\<lparr>l_flag := Some True\<rparr>)"
  have "returned ?r" by code_simp
  from returned_Inr [OF this] obtain rv s' where w: "?r = Inr (rv, s')" by blast
  from wrapper_reentrant [OF _ w] w show ?thesis by auto
qed


subsection \<open>Two threads\<close>

definition two_reads :: "nat \<Rightarrow> event list" where
  "two_reads j = (if j < 2 then trace_of read_run else [])"

lemma two_reads_traces: "call_traces quiet_env two_reads"
  unfolding call_traces_def
proof
  fix j
  from returned_Inr [OF read_run_ok] obtain rv s' where
    w: "wrapper quiet_env ''read'' [3, 4096, 100] (demo_state read_hooks) = Inr (rv, s')"
    unfolding read_run_def by blast
  then have "l_trace s' = l_trace (demo_state read_hooks) @ trace_of read_run"
    by (simp add: read_run_def trace_of_def)
  with w demo_read show "two_reads j = [] \<or> (\<exists>s n args i rv s'. findFunc (l_funs s) n = Some i \<and>
      l_flag s \<noteq> Some True \<and> \<not> l_held s \<and> wrapper quiet_env n args s = Inr (rv, s') \<and>
      l_trace s' = l_trace s @ two_reads j)"
    by (cases "j < 2") (auto simp: two_reads_def simp del: demo_simps(4) intro!: exI)
qed

lemma read_trace: "take 3 (trace_of read_run) = [EvLock, EvLua, before_ev (demo_funs read_hooks ! 7) [3, 4096, 100]]"
  by code_simp

lemma read_trace_Cons:
  "\<exists>t. trace_of read_run = EvLock # EvLua # t"
  using read_trace by (cases "trace_of read_run"; cases "tl (trace_of read_run)") auto

lemma two_reads_step:
  assumes "trace_of read_run = EvLock # EvLua # t"
  shows "sys_reach (sys_start two_reads) \<lparr>owner = Some 0, todo = two_reads(0 := EvLua # t)\<rparr>"
  using sys_reach.step [OF sys_reach.start sys_step.take [of "sys_start two_reads" 0 "EvLua # t"]] assms
  by (simp add: sys_start_def two_reads_def)



end
