(* ===== verification/Objects.thy ===== *)
theory Objects
  imports Numbers
begin

text \<open>
  \<^verbatim>\<open>lobject.h\<close> and \<^verbatim>\<open>lobject.c\<close>: tagged values, the raw equality on them, the floating
  point byte that encodes table sizes in instructions, the integer logarithm, the
  formatting of messages and the abbreviation of chunk names.

  A collectable value is its tag and the address of the object (\<^verbatim>\<open>gcvalue\<close>).  The other
  components take what they need of the object behind the address as a parameter.
\<close>

subsection \<open>Tagged values\<close>

datatype gctag = LUA_TSTRING | LUA_TTABLE | LUA_TFUNCTION | LUA_TUSERDATA | LUA_TTHREAD
  | LUA_TPROTO | LUA_TUPVAL | LUA_TDEADKEY

datatype TValue = TNil | TBoolean int | TLightUserdata u64 | TNumber lua_Number | TGC gctag u64

fun gctag_code :: "gctag \<Rightarrow> int" where
  "gctag_code LUA_TSTRING = 4"
| "gctag_code LUA_TTABLE = 5"
| "gctag_code LUA_TFUNCTION = 6"
| "gctag_code LUA_TUSERDATA = 7"
| "gctag_code LUA_TTHREAD = 8"
| "gctag_code LUA_TPROTO = 9"
| "gctag_code LUA_TUPVAL = 10"
| "gctag_code LUA_TDEADKEY = 11"

fun ttype :: "TValue \<Rightarrow> int" where
  "ttype TNil = 0"
| "ttype (TBoolean b) = 1"
| "ttype (TLightUserdata p) = 2"
| "ttype (TNumber n) = 3"
| "ttype (TGC g p) = gctag_code g"

definition ttisnil :: "TValue \<Rightarrow> bool" where
  "ttisnil v \<longleftrightarrow> ttype v = 0"

definition iscollectable :: "TValue \<Rightarrow> bool" where
  "iscollectable v \<longleftrightarrow> ttype v \<ge> 4"

fun l_isfalse :: "TValue \<Rightarrow> bool" where
  "l_isfalse TNil = True"
| "l_isfalse (TBoolean b) = (b = 0)"
| "l_isfalse _ = False"

lemma gctag_code_ge: "4 \<le> gctag_code g"
  by (cases g) simp_all

lemma gctag_code_eq_iff [simp]: "gctag_code g = gctag_code h \<longleftrightarrow> g = h"
  by (cases g; cases h) simp_all

lemma gctag_code_neq [simp]:
  "gctag_code g \<noteq> 0" "gctag_code g \<noteq> 1" "gctag_code g \<noteq> 2" "gctag_code g \<noteq> 3"
  by (cases g; simp)+

lemma ttisnil_iff [simp]: "ttisnil v \<longleftrightarrow> v = TNil"
  by (cases v) (simp_all add: ttisnil_def)

lemma iscollectable_simps [simp]:
  "iscollectable (TGC g p)" "\<not> iscollectable TNil" "\<not> iscollectable (TBoolean b)"
  "\<not> iscollectable (TLightUserdata p)" "\<not> iscollectable (TNumber n)"
  by (simp_all add: iscollectable_def gctag_code_ge)

text \<open>Raw equality, by tag and then by the member of the union the tag selects.\<close>

fun luaO_rawequalObj :: "TValue \<Rightarrow> TValue \<Rightarrow> bool" where
  "luaO_rawequalObj TNil TNil = True"
| "luaO_rawequalObj (TNumber a) (TNumber b) = luai_numeq a b"
| "luaO_rawequalObj (TBoolean a) (TBoolean b) = (a = b)"
| "luaO_rawequalObj (TLightUserdata p) (TLightUserdata q) = (p = q)"
| "luaO_rawequalObj (TGC g p) (TGC h q) = (g = h \<and> p = q)"
| "luaO_rawequalObj _ _ = False"

definition is_nan_value :: "TValue \<Rightarrow> bool" where
  "is_nan_value v = (case v of TNumber n \<Rightarrow> d_isnan n | _ \<Rightarrow> False)"

lemma rawequal_sym: "luaO_rawequalObj a b = luaO_rawequalObj b a"
  by (cases a; cases b) (auto simp: numeq_sym)

lemma rawequal_refl_iff [simp]: "luaO_rawequalObj a a \<longleftrightarrow> \<not> is_nan_value a"
  by (cases a) (simp_all add: is_nan_value_def numeq_refl_iff)

lemma rawequal_trans:
  "luaO_rawequalObj a b \<Longrightarrow> luaO_rawequalObj b c \<Longrightarrow> luaO_rawequalObj a c"
  by (cases a; cases b; cases c; simp del: rawequal_refl_iff) (blast intro: numeq_trans)

lemma rawequal_ttype: "luaO_rawequalObj a b \<Longrightarrow> ttype a = ttype b"
  by (cases a; cases b) auto

lemma rawequal_Nil_left [simp]: "luaO_rawequalObj TNil b \<longleftrightarrow> b = TNil"
  by (cases b) (simp_all del: rawequal_refl_iff)

lemma rawequal_Nil_right [simp]: "luaO_rawequalObj b TNil \<longleftrightarrow> b = TNil"
  by (cases b) (simp_all del: rawequal_refl_iff)

lemma rawequal_TGC [simp]: "luaO_rawequalObj v (TGC g p) \<longleftrightarrow> v = TGC g p"
  by (cases v) (auto simp del: rawequal_refl_iff)

lemma rawequal_eq: "luaO_rawequalObj a b \<Longrightarrow> \<forall>n. a \<noteq> TNumber n \<Longrightarrow> a = b"
  by (cases a; cases b; simp del: rawequal_refl_iff)

subsection \<open>Shifts of unsigned integers\<close>

lemma uint_drop_bit: "uint (drop_bit n (x :: u32)) = uint x div 2 ^ n"
  by (subst unsigned_drop_bit_eq) (simp add: bintr_uint drop_bit_eq_div)

lemma unat_drop_bit: "unat (drop_bit n (x :: u32)) = unat x div 2 ^ n"
  by (subst unsigned_drop_bit_eq) (simp add: drop_bit_eq_div take_bit_nat_eq_self [of "unat x" 32, OF order.strict_trans2 [OF unsigned_less]])

subsection \<open>Floating point bytes\<close>

lemma int2fb_step: "x \<ge> (16 :: u32) \<Longrightarrow> unat (drop_bit 1 (x + 1)) = ((unat x + 1) mod 2 ^ 32) div 2"
  by (simp add: unat_drop_bit_eq drop_bit_eq_div unat_word_ariths)

function int2fb_loop :: "u32 \<Rightarrow> int \<Rightarrow> u32 \<times> int" where
  "int2fb_loop x e = (if x \<ge> 16 then int2fb_loop (drop_bit 1 (x + 1)) (e + 1) else (x, e))"
  by pat_completeness auto
termination
proof (relation "measure (\<lambda>(x, e). unat x)", simp, clarsimp)
  fix x :: u32 assume x: "x \<ge> 16"
  then have "16 \<le> unat x" by (simp add: word_le_nat_alt)
  moreover have "(unat x + 1) mod 2 ^ 32 \<le> unat x + 1" by (rule mod_less_eq_dividend)
  ultimately show "unat (drop_bit (Suc 0) (x + 1)) < unat x"
    using int2fb_step [OF x] unfolding One_nat_def by linarith
qed

declare int2fb_loop.simps [simp del]

definition luaO_int2fb :: "u32 \<Rightarrow> int" where
  "luaO_int2fb x =
     (let (x, e) = int2fb_loop x 0 in
      if x < 8 then uint x else push_bit 3 (e + 1) OR (uint x - 8))"

definition luaO_fb2int :: "int \<Rightarrow> int" where
  "luaO_fb2int x =
     (let e = drop_bit 3 x AND 31 in
      if e = 0 then x else push_bit (nat (e - 1)) ((x AND 7) + 8))"

lemma int2fb_loop_spec:
  assumes "unat x < 2 ^ 32 - 1" "int2fb_loop x e = (y, e')"
  shows "\<exists>k. e' = e + int k \<and> y < 16 \<and> unat x \<le> unat y * 2 ^ k \<and> unat y * 2 ^ k < unat x + 2 ^ k
    \<and> (k \<noteq> 0 \<longrightarrow> 8 \<le> y)"
  using assms
proof (induction x e rule: int2fb_loop.induct)
  case (1 x e)
  show ?case
  proof (cases "x \<ge> 16")
    case False
    with "1.prems" show ?thesis by (intro exI [of _ 0]) (auto simp: int2fb_loop.simps [of x])
  next
    case True
    let ?x = "drop_bit 1 (x + 1)"
    have h: "unat ?x = (unat x + 1) div 2"
      using int2fb_step [OF True] "1.prems"(1) by simp
    have ge: "16 \<le> unat x" using True by (simp add: word_le_nat_alt)
    have "unat ?x < 2 ^ 32 - 1" using h "1.prems"(1) by linarith
    with "1.IH" [OF True] "1.prems"(2) True obtain k where
      k: "e' = e + 1 + int k" "y < 16" "unat ?x \<le> unat y * 2 ^ k" "unat y * 2 ^ k < unat ?x + 2 ^ k"
        "k \<noteq> 0 \<longrightarrow> 8 \<le> y"
      by (auto simp: int2fb_loop.simps [of x])
    have "8 \<le> unat ?x" using h ge by linarith
    then have "k = 0 \<longrightarrow> 8 \<le> y" using k(3) by (auto simp: word_le_nat_alt)
    moreover have "unat x \<le> unat y * 2 ^ Suc k" using k(3) h by simp
    moreover have "unat y * 2 ^ Suc k < unat x + 2 ^ Suc k" using k(4) h by simp
    ultimately show ?thesis
      using k by (intro exI [of _ "Suc k"]) auto
  qed
qed

lemma and_7: "(a :: int) AND 7 = a mod 8"
proof -
  have "a AND 7 = take_bit 3 a" by (simp add: take_bit_eq_mask mask_eq_exp_minus_1)
  then show ?thesis by (simp add: take_bit_eq_mod)
qed

lemma and_31: "(a :: int) AND 31 = a mod 32"
proof -
  have "a AND 31 = take_bit 5 a" by (simp add: take_bit_eq_mask mask_eq_exp_minus_1)
  then show ?thesis by (simp add: take_bit_eq_mod)
qed

lemma push_or:
  assumes "0 \<le> b" "b < 8"
  shows "push_bit 3 a OR b = 8 * a + (b :: int)"
proof -
  have b: "take_bit 3 b = b" using assms by (simp add: take_bit_int_eq_self_iff)
  have "push_bit 3 a AND b = 0"
    by (rule bit_eqI, subst b [symmetric]) (auto simp: bit_and_iff bit_push_bit_iff bit_take_bit_iff)
  then show ?thesis by (simp add: disjunctive_add_eq_or [symmetric] push_bit_eq_mult)
qed

lemma fb2int_encode:
  assumes "8 \<le> y" "y < 16" "0 \<le> e" "e < 31"
  shows "luaO_fb2int (push_bit 3 (e + 1) OR (y - 8)) = y * 2 ^ nat e"
    "push_bit 3 (e + 1) OR (y - 8) = 8 * (e + 1) + (y - 8)"
proof -
  show o: "push_bit 3 (e + 1) OR (y - 8) = 8 * (e + 1) + (y - 8)"
    using assms by (intro push_or) auto
  have d: "drop_bit 3 (8 * (e + 1) + (y - 8)) = e + 1"
    using assms by (simp add: drop_bit_eq_div)
  have m: "(8 * (e + 1) + (y - 8)) mod 8 = y - 8"
    using assms by presburger
  have "(e + 1) mod 32 = e + 1" using assms by simp
  then show "luaO_fb2int (push_bit 3 (e + 1) OR (y - 8)) = y * 2 ^ nat e"
    unfolding o luaO_fb2int_def Let_def and_7 and_31 d m using assms by (simp add: push_bit_eq_mult)
qed

lemma int2fb_cases:
  assumes "unat x < 2 ^ 32 - 1"
  obtains "unat x < 8" "luaO_int2fb x = int (unat x)"
  | y k where "8 \<le> y" "y < 16" "k < 30" "luaO_int2fb x = push_bit 3 (int k + 1) OR (int y - 8)"
      "unat x \<le> y * 2 ^ k" "y * 2 ^ k < unat x + 2 ^ k"
proof (cases "int2fb_loop x 0")
  case (Pair y e)
  from int2fb_loop_spec [OF assms Pair] obtain k where
    k: "e = int k" "y < 16" "unat x \<le> unat y * 2 ^ k" "unat y * 2 ^ k < unat x + 2 ^ k"
      "k \<noteq> 0 \<longrightarrow> 8 \<le> y" by auto
  show ?thesis
  proof (cases "y < 8")
    case True
    then have "k = 0" using k(5) by (metis leD)
    then have "unat x = unat y" using k(3,4) by simp
    then show ?thesis using that(1) True Pair
      by (simp add: luaO_int2fb_def word_less_nat_alt)
  next
    case False
    then have y: "8 \<le> unat y" "unat y < 16" using k(2) by (simp_all add: word_le_nat_alt word_less_nat_alt)
    have "8 * 2 ^ k \<le> unat y * 2 ^ k" using y(1) by simp
    then have "7 * 2 ^ k < unat x" using k(4) by linarith
    moreover have "unat x < 4294967295" using assms by simp
    ultimately have "2 ^ k < (1073741824 :: nat)" by linarith
    then have "k < 30" using power_less_imp_less_exp [of "2 :: nat" k 30] by simp
    then show ?thesis
      using that(2) [of "unat y" k] y k(1,3,4) False Pair by (simp add: luaO_int2fb_def)
  qed
qed

text \<open>
  the size operand of \<^verbatim>\<open>OP_NEWTABLE\<close>: for every size below \<open>2 ^ 32 - 1\<close> the floating point
  byte fits the nine bits of operand B or C, decodes to a size at least as large, and wastes
  at most a seventh.\<close>

theorem fb_roundtrip:
  assumes "unat x < 2 ^ 32 - 1"
  shows "0 \<le> luaO_int2fb x \<and> luaO_int2fb x < 2 ^ 9 \<and>
    int (unat x) \<le> luaO_fb2int (luaO_int2fb x) \<and>
    7 * (luaO_fb2int (luaO_int2fb x) - int (unat x)) \<le> int (unat x)"
  using assms
proof (cases rule: int2fb_cases)
  case 1
  have small: "luaO_fb2int z = z" if "0 \<le> z" "z < 8" for z
    using that by (simp add: luaO_fb2int_def drop_bit_eq_div)
  have "int (unat x) < 8" using 1(1) by linarith
  with small [of "int (unat x)"] show ?thesis using 1(2) by simp
next
  case (2 y k)
  note f = fb2int_encode [of "int y" "int k"]
  have v: "luaO_fb2int (luaO_int2fb x) = int (y * 2 ^ k)"
    using f(1) 2 by simp
  have u: "luaO_int2fb x = 8 * (int k + 1) + (int y - 8)"
    using f(2) 2 by simp
  have "8 * 2 ^ k \<le> y * 2 ^ k" using 2(1) by simp
  then have "7 * (y * 2 ^ k) \<le> 8 * unat x" using 2(6) by linarith
  then have "7 * (int p - int (unat x)) \<le> int (unat x)" if "p = y * 2 ^ k" for p
    unfolding that [symmetric] by presburger
  moreover have "int (unat x) \<le> int (y * 2 ^ k)" using 2(5) by (simp only: of_nat_le_iff)
  moreover have "0 \<le> luaO_int2fb x" "luaO_int2fb x < 2 ^ 9" unfolding u using 2(1-3) by simp_all
  ultimately show ?thesis unfolding v by blast
qed

theorem fb_roundtrip_witness:
  "luaO_int2fb 1000 = 64 \<and> 1000 \<le> luaO_fb2int (luaO_int2fb 1000)"
proof -
  have "luaO_int2fb 1000 = 64" by code_simp
  with fb_roundtrip [of 1000] show ?thesis by simp
qed

subsection \<open>Integer logarithm\<close>

definition log_2 :: "int list" where
  "log_2 = [0, 1] @ replicate 2 2 @ replicate 4 3 @ replicate 8 4 @ replicate 16 5
     @ replicate 32 6 @ replicate 64 7 @ replicate 128 8"

function luaO_log2_loop :: "u32 \<Rightarrow> int \<Rightarrow> u32 \<times> int" where
  "luaO_log2_loop x l = (if x \<ge> 256 then luaO_log2_loop (drop_bit 8 x) (l + 8) else (x, l))"
  by pat_completeness auto
termination
proof (relation "measure (\<lambda>(x, l). unat x)", simp, clarsimp)
  fix x :: u32 assume "x \<ge> 256"
  then have "256 \<le> unat x" by (simp add: word_le_nat_alt)
  then show "unat (drop_bit 8 x) < unat x"
    unfolding unat_drop_bit by simp
qed

declare luaO_log2_loop.simps [simp del]

definition luaO_log2 :: "u32 \<Rightarrow> int" where
  "luaO_log2 x = (let (x, l) = luaO_log2_loop x (-1) in l + log_2 ! unat x)"

definition twoto :: "int \<Rightarrow> int" where
  "twoto x = push_bit (nat x) 1"

definition ceillog2 :: "int \<Rightarrow> int" where
  "ceillog2 x = luaO_log2 (word_of_int (x - 1)) + 1"

lemma twoto_eq [simp]: "twoto x = 2 ^ nat x"
  by (simp add: twoto_def push_bit_eq_mult)

lemma log_2_table:
  assumes "0 < n" "n < 256"
  shows "log_2 ! n = int (ilog2 (int n)) + 1"
proof -
  have "log_2 ! n = (if n < 2 then 1 else if n < 4 then 2 else if n < 8 then 3 else if n < 16 then 4
     else if n < 32 then 5 else if n < 64 then 6 else if n < 128 then 7 else 8)"
  proof -
    consider "n < 2" | "2 \<le> n \<and> n < 4" | "4 \<le> n \<and> n < 8" | "8 \<le> n \<and> n < 16" | "16 \<le> n \<and> n < 32"
      | "32 \<le> n \<and> n < 64" | "64 \<le> n \<and> n < 128" | "128 \<le> n"
      by linarith
    then show ?thesis
      using assms by cases (simp_all add: log_2_def nth_append nth_Cons' less_diff_conv2)
  qed
  moreover have "ilog2 (int n) = (if n < 2 then 0 else if n < 4 then 1 else if n < 8 then 2
     else if n < 16 then 3 else if n < 32 then 4 else if n < 64 then 5 else if n < 128 then 6 else 7)"
    using assms by (intro ilog2_unique) simp_all
  ultimately show ?thesis by simp
qed

lemma ilog2_div: "256 \<le> n \<Longrightarrow> ilog2 n = ilog2 (n div 256) + 8"
proof (rule ilog2_unique)
  assume n: "256 \<le> n"
  then have "0 < n div 256" by (simp add: pos_imp_zdiv_pos_iff)
  note b = ilog2_bounds [OF this]
  have "2 ^ ilog2 (n div 256) * 256 \<le> n" "n < 2 ^ Suc (ilog2 (n div 256)) * 256"
    using b by linarith+
  then show "2 ^ (ilog2 (n div 256) + 8) \<le> n" "n < 2 ^ Suc (ilog2 (n div 256) + 8)"
    by (simp_all add: power_add)
qed

lemma luaO_log2_loop_spec:
  "x \<noteq> 0 \<Longrightarrow> luaO_log2_loop x l = (y, l') \<Longrightarrow>
     0 < unat y \<and> unat y < 256 \<and> l' + int (ilog2 (uint y)) = l + int (ilog2 (uint x))"
proof (induction x l rule: luaO_log2_loop.induct)
  case (1 x l)
  show ?case
  proof (cases "x \<ge> 256")
    case False
    with "1.prems" show ?thesis
      by (auto simp: luaO_log2_loop.simps [of x] word_le_nat_alt unat_gt_0)
  next
    case True
    then have g: "256 \<le> uint x" by (simp add: word_le_def)
    have u: "uint (drop_bit 8 x) = uint x div 256" unfolding uint_drop_bit by simp
    have "0 < uint x div 256" using g by (simp add: pos_imp_zdiv_pos_iff)
    then have "drop_bit 8 x \<noteq> 0" using u by (metis less_irrefl unsigned_0)
    with "1.IH" [OF True] "1.prems"(2) True u ilog2_div [OF g] show ?thesis
      by (simp add: luaO_log2_loop.simps [of x])
  qed
qed

lemma luaO_log2_0: "luaO_log2 0 = -1"
  by code_simp

lemma luaO_log2_ilog2: "x \<noteq> 0 \<Longrightarrow> luaO_log2 x = int (ilog2 (uint x))"
proof (cases "luaO_log2_loop x (-1)")
  case (Pair y l)
  assume "x \<noteq> 0"
  from luaO_log2_loop_spec [OF this Pair] log_2_table [of "unat y"] Pair show ?thesis
    by (simp add: luaO_log2_def)
qed

lemma ceillog2_bounds:
  assumes "1 \<le> x" "x \<le> 2 ^ 31"
  shows "0 \<le> ceillog2 x \<and> ceillog2 x \<le> 31 \<and> x \<le> 2 ^ nat (ceillog2 x) \<and> 2 ^ nat (ceillog2 x) < 2 * x"
proof (cases "x = 1")
  case True
  then show ?thesis by (simp add: ceillog2_def luaO_log2_0)
next
  case False
  let ?w = "word_of_int (x - 1) :: u32"
  have u: "uint ?w = x - 1" unfolding uint_word_of_int using assms False by simp
  then have w: "?w \<noteq> 0" using assms False by (metis diff_eq_eq add_0 unsigned_0)
  have c: "ceillog2 x = int (ilog2 (x - 1)) + 1"
    unfolding ceillog2_def luaO_log2_ilog2 [OF w] u by (rule refl)
  have b: "2 ^ ilog2 (x - 1) \<le> x - 1" "x - 1 < 2 ^ Suc (ilog2 (x - 1))"
    using ilog2_bounds [of "x - 1"] assms False by auto
  have "(2 :: int) ^ ilog2 (x - 1) < 2 ^ 31" using b(1) assms(2) by linarith
  then have "ilog2 (x - 1) < 31" by (rule power_less_imp_less_exp [rotated]) simp
  moreover have "nat (ceillog2 x) = Suc (ilog2 (x - 1))" by (simp add: c nat_add_distrib)
  ultimately show ?thesis using b c by simp
qed

lemma ceillog2_le_iff:
  assumes "1 \<le> x" "x \<le> 2 ^ 31"
  shows "ceillog2 x \<le> int n \<longleftrightarrow> x \<le> 2 ^ n"
proof -
  note b = ceillog2_bounds [OF assms]
  show ?thesis
  proof
    assume "ceillog2 x \<le> int n"
    then have "nat (ceillog2 x) \<le> n" by linarith
    then have "(2 :: int) ^ nat (ceillog2 x) \<le> 2 ^ n" by simp
    with b show "x \<le> 2 ^ n" by linarith
  next
    assume n: "x \<le> 2 ^ n"
    show "ceillog2 x \<le> int n"
    proof (rule ccontr)
      assume "\<not> ceillog2 x \<le> int n"
      then have "Suc n \<le> nat (ceillog2 x)" by linarith
      then have "(2 :: int) ^ Suc n \<le> 2 ^ nat (ceillog2 x)" by (rule power_increasing) simp
      with b n show False by simp
    qed
  qed
qed

text \<open>
  \<^verbatim>\<open>ceillog2\<close>, which sizes the hash part and the slices of the array part: the least
  exponent whose power of two is at least its argument.\<close>

theorem ceillog2_least:
  assumes "1 \<le> x" "x \<le> 2 ^ 31"
  shows "x \<le> 2 ^ n \<longleftrightarrow> ceillog2 x \<le> int n"
  using ceillog2_le_iff [OF assms] by blast

theorem ceillog2_least_witness:
  "(1000 :: int) \<le> 2 ^ 10 \<and> ceillog2 1000 = 10"
proof -
  have "ceillog2 1000 = 10" by code_simp
  with ceillog2_least [of 1000 10] show ?thesis by simp
qed

subsection \<open>Messages\<close>

text \<open>
  \<^verbatim>\<open>luaO_pushvfstring\<close>.  A variadic argument is what the caller passed; an argument of the
  wrong kind, a missing one, or a format that ends in a lone \<^verbatim>\<open>%\<close> (the code then reads beyond
  the terminator) is undefined, \<^const>\<open>None\<close>.  \<open>n2s\<close> is \<^verbatim>\<open>lua_number2str\<close>, \<open>p2s\<close> is
  \<^verbatim>\<open>sprintf\<close> with \<^verbatim>\<open>%p\<close>.
\<close>

datatype va_arg = VaStr "string option" | VaInt int | VaNum lua_Number | VaPtr u64

fun va_piece :: "(lua_Number \<Rightarrow> string) \<Rightarrow> (u64 \<Rightarrow> string) \<Rightarrow> char \<Rightarrow> va_arg list \<Rightarrow> (string \<times> va_arg list) option" where
  "va_piece n2s p2s c args =
     (if c = CHR ''s'' then (case args of VaStr so # r \<Rightarrow> Some (case so of None \<Rightarrow> ''(null)'' | Some s \<Rightarrow> s, r) | _ \<Rightarrow> None)
      else if c = CHR ''c'' then (case args of
          VaInt i # r \<Rightarrow> Some (if i mod 256 = 0 then [] else [char_of (nat (i mod 256))], r) | _ \<Rightarrow> None)
      else if c = CHR ''d'' then (case args of VaInt i # r \<Rightarrow> Some (n2s (cast_num i), r) | _ \<Rightarrow> None)
      else if c = CHR ''f'' then (case args of VaNum d # r \<Rightarrow> Some (n2s d, r) | _ \<Rightarrow> None)
      else if c = CHR ''p'' then (case args of VaPtr p # r \<Rightarrow> Some (p2s p, r) | _ \<Rightarrow> None)
      else if c = CHR ''%'' then Some (''%'', args)
      else Some ([CHR ''%'', c], args))"

fun luaO_pushvfstring :: "(lua_Number \<Rightarrow> string) \<Rightarrow> (u64 \<Rightarrow> string) \<Rightarrow> string \<Rightarrow> va_arg list \<Rightarrow> string option" where
  "luaO_pushvfstring n2s p2s [] args = Some []"
| "luaO_pushvfstring n2s p2s (x # fmt) args =
     (if x \<noteq> CHR ''%'' then map_option ((#) x) (luaO_pushvfstring n2s p2s fmt args)
      else (case fmt of
          [] \<Rightarrow> None
        | c # rest \<Rightarrow> (case va_piece n2s p2s c args of
            None \<Rightarrow> None
          | Some (piece, args') \<Rightarrow> map_option ((@) piece) (luaO_pushvfstring n2s p2s rest args'))))"

definition fmt_escape :: "string \<Rightarrow> string" where
  "fmt_escape s = concat (map (\<lambda>c. if c = CHR ''%'' then ''%%'' else [c]) s)"

text \<open>
  text whose percent signs are doubled comes out verbatim, whatever directives follow.\<close>

theorem pushvfstring_escape:
  "luaO_pushvfstring n2s p2s (fmt_escape s @ fmt) args =
     map_option ((@) s) (luaO_pushvfstring n2s p2s fmt args)"
  by (induction s) (simp_all add: fmt_escape_def option.map_comp comp_def option.map_id0 [unfolded id_def])

subsection \<open>Chunk names\<close>

text \<open>
  \<^verbatim>\<open>luaO_chunkid\<close> fills a buffer of \<open>bufflen\<close> bytes; the result is the text before the
  terminator.  \<^verbatim>\<open>size_t\<close> subtraction wraps.
\<close>

definition size_sub :: "nat \<Rightarrow> nat \<Rightarrow> nat" where
  "size_sub a b = nat ((int a - int b) mod 2 ^ 64)"

definition strcspn_eol :: "string \<Rightarrow> nat" where
  "strcspn_eol s = length (takeWhile (\<lambda>c. c \<noteq> CHR 0x0A \<and> c \<noteq> CHR 0x0D) s)"

definition luaO_chunkid :: "string \<Rightarrow> nat \<Rightarrow> string" where
  "luaO_chunkid source bufflen =
     (if take 1 source = ''='' then take (bufflen - 1) (drop 1 source)
      else if take 1 source = ''@'' then
        (let source = drop 1 source; bufflen = size_sub bufflen 8; l = length source in
         if l > bufflen then ''...'' @ drop (l - bufflen) source else source)
      else
        (let len = strcspn_eol source; bufflen = size_sub bufflen 17;
             len = (if len > bufflen then bufflen else len) in
         ''[string '' @ [CHR 0x22] @
         (if len < length source then take len source @ ''...'' else source) @
         [CHR 0x22] @ '']''))"

lemma strcspn_le: "strcspn_eol s \<le> length s"
  by (simp add: strcspn_eol_def length_takeWhile_le)

lemma size_sub_eq: "b \<le> a \<Longrightarrow> a < 2 ^ 64 \<Longrightarrow> size_sub a b = a - b"
  by (simp add: size_sub_def nat_eq_iff)

text \<open>
  \<^verbatim>\<open>luaO_chunkid\<close> never overruns its buffer: the text and its terminator fit any buffer of
  at least seventeen bytes (the callers pass \<^verbatim>\<open>LUA_IDSIZE\<close>, sixty), and a file name that fits
  is kept whole.\<close>

theorem chunkid_fits:
  assumes "17 \<le> bufflen" "bufflen < 2 ^ 64"
  shows "length (luaO_chunkid source bufflen) < bufflen \<and>
    (length s + 8 \<le> bufflen \<longrightarrow> luaO_chunkid (CHR ''@'' # s) bufflen = s)"
proof
  have 8: "size_sub bufflen 8 = bufflen - 8" and 17: "size_sub bufflen 17 = bufflen - 17"
    using assms by (simp_all add: size_sub_eq)
  show "length (luaO_chunkid source bufflen) < bufflen"
    using assms(1) strcspn_le [of source] unfolding luaO_chunkid_def Let_def 8 17 by auto
  show "length s + 8 \<le> bufflen \<longrightarrow> luaO_chunkid (CHR ''@'' # s) bufflen = s"
    by (auto simp: luaO_chunkid_def Let_def 8)
qed

theorem chunkid_fits_witness:
  "length (luaO_chunkid ''print(1)'' 60) < 60 \<and> luaO_chunkid ''@init.lua'' 60 = ''init.lua''"
  using chunkid_fits [of 60 "''print(1)''" "''init.lua''"] by simp

end
