(* ===== verification/Tables.thy ===== *)
theory Tables
  imports Objects
begin

text \<open>
  Lua tables (\<^verbatim>\<open>ltable.c\<close>): an array part, and a hash part that is a vector of nodes chained
  by collision with Brent's variation (a node that is not in its main position gives it up
  to a key that is).

  The node vector is a list, a node pointer an index into it, the pointer to a value that
  the search functions return a \<open>slot\<close>.  \<open>hs\<close> gives the hash field of the string at an
  address.  The functions that may grow the table call each other (\<^verbatim>\<open>luaH_set\<close>, \<^verbatim>\<open>newkey\<close>,
  \<^verbatim>\<open>rehash\<close>, \<^verbatim>\<open>resize\<close>), which the model bounds by a number of nested rehashes; a walk along
  a chain is a \<^theory_text>\<open>partial_function\<close>, so a walk that does not end is \<^const>\<open>None\<close>.
\<close>

record Node =
  i_val :: TValue
  i_key :: TValue
  n_next :: "nat option"

record Table =
  flags :: u8
  lsizenode :: nat
  t_array :: "TValue list"
  t_node :: "Node list"
  t_isdummy :: bool
  lastfree :: int

datatype slot = SArray nat | SNode nat | SNil

datatype table_error = Table_index_is_nil | Table_index_is_NaN | Table_overflow
  | Invalid_key_to_next | Does_not_return

definition MAXBITS :: nat where
  "MAXBITS = 26"

definition MAXASIZE :: int where
  "MAXASIZE = 2 ^ MAXBITS"

definition dummynode :: Node where
  "dummynode = \<lparr>i_val = TNil, i_key = TNil, n_next = None\<rparr>"

definition sizenode :: "Table \<Rightarrow> int" where
  "sizenode t = twoto (int (lsizenode t))"

definition sizearray :: "Table \<Rightarrow> int" where
  "sizearray t = int (length (t_array t))"

definition slot_val :: "Table \<Rightarrow> slot \<Rightarrow> TValue" where
  "slot_val t s =
     (case s of SArray i \<Rightarrow> t_array t ! i | SNode i \<Rightarrow> i_val (t_node t ! i) | SNil \<Rightarrow> TNil)"

definition upd_node :: "nat \<Rightarrow> (Node \<Rightarrow> Node) \<Rightarrow> Node list \<Rightarrow> Node list" where
  "upd_node i f ns = ns[i := f (ns ! i)]"

text \<open>An assignment through the pointer a search function returned (\<^verbatim>\<open>setobj\<close>).\<close>

definition slot_set :: "slot \<Rightarrow> TValue \<Rightarrow> Table \<Rightarrow> Table" where
  "slot_set s v t =
     (case s of
        SArray i \<Rightarrow> t\<lparr>t_array := (t_array t)[i := v]\<rparr>
      | SNode i \<Rightarrow> t\<lparr>t_node := upd_node i (\<lambda>n. n\<lparr>i_val := v\<rparr>) (t_node t)\<rparr>
      | SNil \<Rightarrow> t)"

subsection \<open>Hashing\<close>

definition hashpow2 :: "Table \<Rightarrow> int \<Rightarrow> nat" where
  "hashpow2 t n = nat (n AND (sizenode t - 1))"

definition hashmod :: "Table \<Rightarrow> u32 \<Rightarrow> nat" where
  "hashmod t n = nat (uint n mod ((sizenode t - 1) OR 1))"

definition IntPoint :: "u64 \<Rightarrow> u32" where
  "IntPoint p = ucast p"

definition hashnum :: "Table \<Rightarrow> lua_Number \<Rightarrow> nat" where
  "hashnum t n =
     (if luai_numeq n 0 then 0 else hashmod t (ucast n + ucast (drop_bit 32 n)))"

fun mainposition :: "(u64 \<Rightarrow> u32) \<Rightarrow> Table \<Rightarrow> TValue \<Rightarrow> nat" where
  "mainposition hs t (TNumber n) = hashnum t n"
| "mainposition hs t (TGC g p) =
     (if g = LUA_TSTRING then hashpow2 t (uint (hs p)) else hashmod t (IntPoint p))"
| "mainposition hs t (TBoolean b) = hashpow2 t b"
| "mainposition hs t (TLightUserdata p) = hashmod t (IntPoint p)"
| "mainposition hs t TNil = hashmod t 0"

definition arrayindex :: "TValue \<Rightarrow> int" where
  "arrayindex key =
     (case key of
        TNumber n \<Rightarrow> (let k = lua_number2int n in if luai_numeq (cast_num k) n then k else -1)
      | _ \<Rightarrow> -1)"

subsection \<open>Search\<close>

text \<open>The loop \<^verbatim>\<open>do { ... } while (n)\<close> along a chain: the first node that satisfies a test.\<close>

partial_function (option) chain_find :: "(Node \<Rightarrow> bool) \<Rightarrow> Node list \<Rightarrow> nat \<Rightarrow> nat option option" where
  [code]: "chain_find P ns i =
     (if P (ns ! i) then Some (Some i)
      else case n_next (ns ! i) of None \<Rightarrow> Some None | Some j \<Rightarrow> chain_find P ns j)"

definition chain_slot :: "(Node \<Rightarrow> bool) \<Rightarrow> Table \<Rightarrow> nat \<Rightarrow> slot option" where
  "chain_slot P t i =
     map_option (\<lambda>r. case r of None \<Rightarrow> SNil | Some j \<Rightarrow> SNode j) (chain_find P (t_node t) i)"

definition luaH_getnum :: "Table \<Rightarrow> int \<Rightarrow> slot option" where
  "luaH_getnum t key =
     (if (word_of_int (key - 1) :: u32) < word_of_int (sizearray t) then Some (SArray (nat (key - 1)))
      else let nk = cast_num key in
        chain_slot (\<lambda>n. case i_key n of TNumber m \<Rightarrow> luai_numeq m nk | _ \<Rightarrow> False) t (hashnum t nk))"

definition luaH_getstr :: "(u64 \<Rightarrow> u32) \<Rightarrow> Table \<Rightarrow> u64 \<Rightarrow> slot option" where
  "luaH_getstr hs t key =
     chain_slot (\<lambda>n. i_key n = TGC LUA_TSTRING key) t (hashpow2 t (uint (hs key)))"

definition luaH_get_generic :: "(u64 \<Rightarrow> u32) \<Rightarrow> Table \<Rightarrow> TValue \<Rightarrow> slot option" where
  "luaH_get_generic hs t key =
     chain_slot (\<lambda>n. luaO_rawequalObj (i_key n) key) t (mainposition hs t key)"

definition luaH_get :: "(u64 \<Rightarrow> u32) \<Rightarrow> Table \<Rightarrow> TValue \<Rightarrow> slot option" where
  "luaH_get hs t key =
     (case key of
        TNil \<Rightarrow> Some SNil
      | TNumber n \<Rightarrow> (let k = lua_number2int n in
          if luai_numeq (cast_num k) n then luaH_getnum t k else luaH_get_generic hs t key)
      | TGC g p \<Rightarrow> if g = LUA_TSTRING then luaH_getstr hs t p else luaH_get_generic hs t key
      | _ \<Rightarrow> luaH_get_generic hs t key)"

subsection \<open>Traversal\<close>

definition findindex :: "(u64 \<Rightarrow> u32) \<Rightarrow> Table \<Rightarrow> TValue \<Rightarrow> table_error + int" where
  "findindex hs t key =
     (if key = TNil then Inr (-1)
      else let i = arrayindex key in
        if 0 < i \<and> i \<le> sizearray t then Inr (i - 1)
        else case chain_find
            (\<lambda>n. luaO_rawequalObj (i_key n) key \<or>
              (case (i_key n, key) of (TGC LUA_TDEADKEY p, TGC g q) \<Rightarrow> p = q | _ \<Rightarrow> False))
            (t_node t) (mainposition hs t key) of
          None \<Rightarrow> Inl Does_not_return
        | Some None \<Rightarrow> Inl Invalid_key_to_next
        | Some (Some i) \<Rightarrow> Inr (int i + sizearray t))"

text \<open>The two loops: the next non-nil cell of the array part, then the next non-nil node.\<close>

fun next_array :: "TValue list \<Rightarrow> nat \<Rightarrow> (TValue \<times> TValue) option" where
  "next_array [] i = None"
| "next_array (v # vs) i =
     (if v \<noteq> TNil then Some (TNumber (cast_num (int i + 1)), v) else next_array vs (Suc i))"

fun next_node :: "Node list \<Rightarrow> (TValue \<times> TValue) option" where
  "next_node [] = None"
| "next_node (n # ns) = (if i_val n \<noteq> TNil then Some (i_key n, i_val n) else next_node ns)"

definition luaH_next :: "(u64 \<Rightarrow> u32) \<Rightarrow> Table \<Rightarrow> TValue \<Rightarrow> table_error + (TValue \<times> TValue) option" where
  "luaH_next hs t key =
     (case findindex hs t key of
        Inl e \<Rightarrow> Inl e
      | Inr i0 \<Rightarrow>
          let i = nat (i0 + 1) in
          Inr (case next_array (drop i (t_array t)) i of
             Some kv \<Rightarrow> Some kv
           | None \<Rightarrow> next_node (drop (i - length (t_array t)) (t_node t))))"

subsection \<open>Counting keys\<close>

text \<open>
  \<^verbatim>\<open>computesizes\<close>: \<open>nums ! i\<close> is the number of keys between \<open>2 ^ (i - 1)\<close> and \<open>2 ^ i\<close>; the
  loop carries \<open>i\<close>, \<open>twotoi\<close>, \<open>a\<close>, \<open>na\<close> and \<open>n\<close>, and stops when \<open>nums\<close> is exhausted.
\<close>

fun computesizes_loop :: "int list \<Rightarrow> int \<Rightarrow> int \<Rightarrow> int \<Rightarrow> int \<Rightarrow> int \<Rightarrow> int \<times> int" where
  "computesizes_loop [] narray twotoi a na n = (na, n)"
| "computesizes_loop (x # nums) narray twotoi a na n =
     (if \<not> twotoi div 2 < narray then (na, n)
      else let a' = (if x > 0 then a + x else a);
               (na', n') = (if x > 0 \<and> a' > twotoi div 2 then (a', twotoi) else (na, n)) in
        if a' = narray then (na', n')
        else computesizes_loop nums narray (twotoi * 2) a' na' n')"

definition computesizes :: "int list \<Rightarrow> int \<Rightarrow> int \<times> int" where
  "computesizes nums narray = computesizes_loop nums narray 1 0 0 0"

definition countint :: "TValue \<Rightarrow> int list \<Rightarrow> int \<times> int list" where
  "countint key nums =
     (let k = arrayindex key in
      if 0 < k \<and> k \<le> MAXASIZE then
        (1, let i = nat (ceillog2 k) in nums[i := nums ! i + 1])
      else (0, nums))"

text \<open>One slice \<open>(2 ^ (lg - 1), 2 ^ lg]\<close> after the other; \<open>i\<close> counts array keys from one.\<close>

definition count_slice :: "TValue list \<Rightarrow> nat \<Rightarrow> nat \<Rightarrow> int" where
  "count_slice vs i lim = int (length (filter (\<lambda>v. v \<noteq> TNil) (take (lim + 1 - i) (drop (i - 1) vs))))"

function numusearray_loop :: "TValue list \<Rightarrow> nat \<Rightarrow> nat \<Rightarrow> int list \<Rightarrow> int \<Rightarrow> int \<times> int list" where
  "numusearray_loop vs lg i nums ause =
     (if lg > MAXBITS then (ause, nums)
      else let lim = min (2 ^ lg) (length vs) in
        if 2 ^ lg > length vs \<and> i > lim then (ause, nums)
        else let lc = count_slice vs i lim in
          numusearray_loop vs (Suc lg) (max i (lim + 1)) (nums[lg := nums ! lg + lc]) (ause + lc))"
  by pat_completeness auto
termination
  by (relation "measure (\<lambda>(vs, lg, i, nums, ause). Suc MAXBITS - lg)") auto

declare numusearray_loop.simps [simp del]

definition numusearray :: "Table \<Rightarrow> int list \<Rightarrow> int \<times> int list" where
  "numusearray t nums = numusearray_loop (t_array t) 0 1 nums 0"

text \<open>\<^verbatim>\<open>numusehash\<close> walks the nodes downwards; the list is the reversed vector.\<close>

fun numusehash_loop :: "Node list \<Rightarrow> int list \<Rightarrow> int \<Rightarrow> int \<Rightarrow> int \<times> int \<times> int list" where
  "numusehash_loop [] nums ause totaluse = (totaluse, ause, nums)"
| "numusehash_loop (n # ns) nums ause totaluse =
     (if i_val n \<noteq> TNil then
        (case countint (i_key n) nums of (c, nums') \<Rightarrow> numusehash_loop ns nums' (ause + c) (totaluse + 1))
      else numusehash_loop ns nums ause totaluse)"

definition numusehash :: "Table \<Rightarrow> int list \<Rightarrow> int \<times> int \<times> int list" where
  "numusehash t nums = numusehash_loop (rev (t_node t)) nums 0 0"

subsection \<open>Growing and inserting\<close>

definition setarrayvector :: "Table \<Rightarrow> int \<Rightarrow> Table" where
  "setarrayvector t sz =
     t\<lparr>t_array := take (nat sz) (t_array t) @ replicate (nat sz - length (t_array t)) TNil\<rparr>"

definition setnodevector :: "Table \<Rightarrow> int \<Rightarrow> table_error + Table" where
  "setnodevector t sz =
     (if sz = 0 then
        Inr (t\<lparr>t_node := [dummynode], t_isdummy := True, lsizenode := 0, lastfree := 0\<rparr>)
      else let lsize = ceillog2 sz in
        if lsize > int MAXBITS then Inl Table_overflow
        else Inr (t\<lparr>t_node := replicate (nat (twoto lsize)) dummynode, t_isdummy := False,
          lsizenode := nat lsize, lastfree := twoto lsize\<rparr>))"

definition luaH_new :: "int \<Rightarrow> int \<Rightarrow> table_error + Table" where
  "luaH_new narray nhash =
     setnodevector (setarrayvector
       \<lparr>flags = - 1, lsizenode = 0, t_array = [], t_node = [dummynode], t_isdummy = True,
        lastfree = 0\<rparr> narray) nhash"

function getfreepos :: "Table \<Rightarrow> nat option \<times> Table" where
  "getfreepos t =
     (let t' = t\<lparr>lastfree := lastfree t - 1\<rparr> in
      if lastfree t > 0 then
        (if i_key (t_node t ! nat (lastfree t')) = TNil then (Some (nat (lastfree t')), t')
         else getfreepos t')
      else (None, t'))"
  by pat_completeness auto
termination
  by (relation "measure (\<lambda>t. nat (lastfree t))") auto

declare getfreepos.simps [simp del]

text \<open>
  \<^verbatim>\<open>newkey\<close>, \<^verbatim>\<open>luaH_set\<close>, \<^verbatim>\<open>resize\<close> and \<^verbatim>\<open>rehash\<close> are mutually recursive.  The last three are
  written over the \<^verbatim>\<open>newkey\<close> they call, \<open>nk\<close>; \<open>newkey\<close> itself then ties the knot, its first
  argument bounding the rehashes that may nest.
\<close>

type_synonym newkey_fun = "Table \<Rightarrow> TValue \<Rightarrow> table_error + (slot \<times> Table)"

definition set_with :: "newkey_fun \<Rightarrow> (u64 \<Rightarrow> u32) \<Rightarrow> Table \<Rightarrow> TValue \<Rightarrow> table_error + (slot \<times> Table)" where
  "set_with nk hs t key =
     (case luaH_get hs t key of
        None \<Rightarrow> Inl Does_not_return
      | Some p \<Rightarrow>
          let t = t\<lparr>flags := 0\<rparr> in
          if p \<noteq> SNil then Inr (p, t)
          else if key = TNil then Inl Table_index_is_nil
          else if (case key of TNumber n \<Rightarrow> luai_numisnan n | _ \<Rightarrow> False) then Inl Table_index_is_NaN
          else nk t key)"

definition setnum_with :: "newkey_fun \<Rightarrow> Table \<Rightarrow> int \<Rightarrow> table_error + (slot \<times> Table)" where
  "setnum_with nk t key =
     (case luaH_getnum t key of
        None \<Rightarrow> Inl Does_not_return
      | Some p \<Rightarrow> if p \<noteq> SNil then Inr (p, t) else nk t (TNumber (cast_num key)))"

definition setstr_with :: "newkey_fun \<Rightarrow> (u64 \<Rightarrow> u32) \<Rightarrow> Table \<Rightarrow> u64 \<Rightarrow> table_error + (slot \<times> Table)" where
  "setstr_with nk hs t key =
     (case luaH_getstr hs t key of
        None \<Rightarrow> Inl Does_not_return
      | Some p \<Rightarrow> if p \<noteq> SNil then Inr (p, t) else nk t (TGC LUA_TSTRING key))"

text \<open>\<^verbatim>\<open>setobjt2t(L, luaH_set(L, t, key), v)\<close>, and the two re-insertion loops of \<^verbatim>\<open>resize\<close>.\<close>

definition store :: "table_error + (slot \<times> Table) \<Rightarrow> TValue \<Rightarrow> table_error + Table" where
  "store r v = (case r of Inl e \<Rightarrow> Inl e | Inr (s, t) \<Rightarrow> Inr (slot_set s v t))"

fun reinsert_array :: "newkey_fun \<Rightarrow> TValue list \<Rightarrow> int \<Rightarrow> Table \<Rightarrow> table_error + Table" where
  "reinsert_array nk [] i t = Inr t"
| "reinsert_array nk (v # vs) i t =
     (if v \<noteq> TNil then
        (case store (setnum_with nk t (i + 1)) v of
           Inl e \<Rightarrow> Inl e | Inr t' \<Rightarrow> reinsert_array nk vs (i + 1) t')
      else reinsert_array nk vs (i + 1) t)"

fun reinsert_nodes :: "newkey_fun \<Rightarrow> (u64 \<Rightarrow> u32) \<Rightarrow> Node list \<Rightarrow> Table \<Rightarrow> table_error + Table" where
  "reinsert_nodes nk hs [] t = Inr t"
| "reinsert_nodes nk hs (n # ns) t =
     (if i_val n \<noteq> TNil then
        (case store (set_with nk hs t (i_key n)) (i_val n) of
           Inl e \<Rightarrow> Inl e | Inr t' \<Rightarrow> reinsert_nodes nk hs ns t')
      else reinsert_nodes nk hs ns t)"

definition resize_with :: "newkey_fun \<Rightarrow> (u64 \<Rightarrow> u32) \<Rightarrow> Table \<Rightarrow> int \<Rightarrow> int \<Rightarrow> table_error + Table" where
  "resize_with nk hs t nasize nhsize =
     (let oldasize = sizearray t; nold = t_node t;
          t1 = (if nasize > oldasize then setarrayvector t nasize else t) in
      case setnodevector t1 nhsize of
        Inl e \<Rightarrow> Inl e
      | Inr t2 \<Rightarrow>
          (case (if nasize < oldasize
                 then reinsert_array nk (drop (nat nasize) (t_array t)) nasize
                        (t2\<lparr>t_array := take (nat nasize) (t_array t2)\<rparr>)
                 else Inr t2) of
             Inl e \<Rightarrow> Inl e
           | Inr t3 \<Rightarrow> reinsert_nodes nk hs (rev nold) t3))"

definition rehash_with :: "newkey_fun \<Rightarrow> (u64 \<Rightarrow> u32) \<Rightarrow> Table \<Rightarrow> TValue \<Rightarrow> table_error + Table" where
  "rehash_with nk hs t ek =
     (let nums = replicate (Suc MAXBITS) 0;
          (nasize, nums) = numusearray t nums;
          totaluse = nasize;
          (hashuse, ause, nums) = numusehash t nums;
          totaluse = totaluse + hashuse;
          nasize = nasize + ause;
          (c, nums) = countint ek nums;
          nasize = nasize + c;
          totaluse = totaluse + 1;
          (na, nasize) = computesizes nums nasize
      in resize_with nk hs t nasize (totaluse - na))"

definition put_key :: "nat \<Rightarrow> TValue \<Rightarrow> Table \<Rightarrow> slot \<times> Table" where
  "put_key mp key t = (SNode mp, t\<lparr>t_node := upd_node mp (\<lambda>n. n\<lparr>i_key := key\<rparr>) (t_node t)\<rparr>)"

definition newkey_at :: "(u64 \<Rightarrow> u32) \<Rightarrow> Table \<Rightarrow> TValue \<Rightarrow> nat \<Rightarrow> nat \<Rightarrow> table_error + (slot \<times> Table)" where
  "newkey_at hs t key mp n =
     (let othern = mainposition hs t (i_key (t_node t ! mp)) in
      if othern \<noteq> mp then
        (case chain_find (\<lambda>x. n_next x = Some mp) (t_node t) othern of
           Some (Some prev) \<Rightarrow>
             (let ns = upd_node prev (\<lambda>x. x\<lparr>n_next := Some n\<rparr>) (t_node t);
                  ns = ns[n := ns ! mp];
                  ns = upd_node mp (\<lambda>x. x\<lparr>n_next := None, i_val := TNil\<rparr>) ns
              in Inr (put_key mp key (t\<lparr>t_node := ns\<rparr>)))
         | _ \<Rightarrow> Inl Does_not_return)
      else
        (let ns = upd_node n (\<lambda>x. x\<lparr>n_next := n_next (t_node t ! mp)\<rparr>) (t_node t);
             ns = upd_node mp (\<lambda>x. x\<lparr>n_next := Some n\<rparr>) ns
         in Inr (put_key n key (t\<lparr>t_node := ns\<rparr>))))"

primrec newkey :: "nat \<Rightarrow> (u64 \<Rightarrow> u32) \<Rightarrow> newkey_fun" where
  "newkey 0 hs = (\<lambda>t key.
     let mp = mainposition hs t key in
     if i_val (t_node t ! mp) \<noteq> TNil \<or> t_isdummy t then
       (case getfreepos t of
          (None, t) \<Rightarrow> Inl Does_not_return
        | (Some n, t) \<Rightarrow> newkey_at hs t key mp n)
     else Inr (put_key mp key t))"
| "newkey (Suc f) hs = (\<lambda>t key.
     let mp = mainposition hs t key in
     if i_val (t_node t ! mp) \<noteq> TNil \<or> t_isdummy t then
       (case getfreepos t of
          (None, t) \<Rightarrow>
            (case rehash_with (newkey f hs) hs t key of
               Inl e \<Rightarrow> Inl e
             | Inr t' \<Rightarrow> set_with (newkey f hs) hs t' key)
        | (Some n, t) \<Rightarrow> newkey_at hs t key mp n)
     else Inr (put_key mp key t))"

definition luaH_set :: "nat \<Rightarrow> (u64 \<Rightarrow> u32) \<Rightarrow> Table \<Rightarrow> TValue \<Rightarrow> table_error + (slot \<times> Table)" where
  "luaH_set f hs = set_with (newkey f hs) hs"

definition luaH_setnum :: "nat \<Rightarrow> (u64 \<Rightarrow> u32) \<Rightarrow> Table \<Rightarrow> int \<Rightarrow> table_error + (slot \<times> Table)" where
  "luaH_setnum f hs = setnum_with (newkey f hs)"

definition luaH_setstr :: "nat \<Rightarrow> (u64 \<Rightarrow> u32) \<Rightarrow> Table \<Rightarrow> u64 \<Rightarrow> table_error + (slot \<times> Table)" where
  "luaH_setstr f hs = setstr_with (newkey f hs) hs"

definition resize :: "nat \<Rightarrow> (u64 \<Rightarrow> u32) \<Rightarrow> Table \<Rightarrow> int \<Rightarrow> int \<Rightarrow> table_error + Table" where
  "resize f hs = resize_with (newkey f hs) hs"

definition rehash :: "nat \<Rightarrow> (u64 \<Rightarrow> u32) \<Rightarrow> Table \<Rightarrow> TValue \<Rightarrow> table_error + Table" where
  "rehash f hs = rehash_with (newkey f hs) hs"

definition luaH_resizearray :: "nat \<Rightarrow> (u64 \<Rightarrow> u32) \<Rightarrow> Table \<Rightarrow> int \<Rightarrow> table_error + Table" where
  "luaH_resizearray f hs t nasize =
     resize f hs t nasize (if t_isdummy t then 0 else sizenode t)"

text \<open>The collector's part in a table (\<^verbatim>\<open>removeentry\<close> of \<^verbatim>\<open>lgc.c\<close>): an entry with a nil value
  loses its collectable key.\<close>

definition removeentry :: "Node \<Rightarrow> Node" where
  "removeentry n =
     (case i_key n of TGC g p \<Rightarrow> n\<lparr>i_key := TGC LUA_TDEADKEY p\<rparr> | _ \<Rightarrow> n)"

subsection \<open>Length\<close>

text \<open>
  A value of the table at an integer index; the loops of \<^verbatim>\<open>luaH_getn\<close> over it.  \<open>i\<close> and \<open>j\<close>
  are unsigned ints and never exceed \<open>2 ^ 32\<close>: \<open>j\<close> is doubled at most once beyond \<^verbatim>\<open>MAX_INT\<close>.
\<close>

definition num_val :: "Table \<Rightarrow> int \<Rightarrow> TValue option" where
  "num_val t i = map_option (slot_val t) (luaH_getnum t i)"

definition MAX_INT :: int where
  "MAX_INT = 2 ^ 31 - 3"

function binary_search :: "(int \<Rightarrow> TValue option) \<Rightarrow> int \<Rightarrow> int \<Rightarrow> int option" where
  "binary_search f i j =
     (if j - i > 1 then
        (case f ((i + j) div 2) of
           None \<Rightarrow> None
         | Some v \<Rightarrow> if v = TNil then binary_search f i ((i + j) div 2) else binary_search f ((i + j) div 2) j)
      else Some i)"
  by pat_completeness auto
termination
  by (relation "measure (\<lambda>(f, i, j). nat (j - i))") auto

declare binary_search.simps [simp del]

partial_function (option) linear_search :: "Table \<Rightarrow> int \<Rightarrow> int option" where
  [code]: "linear_search t i =
     (case num_val t i of
        None \<Rightarrow> None
      | Some v \<Rightarrow> if v \<noteq> TNil then linear_search t (i + 1) else Some (i - 1))"

partial_function (option) unbound_loop :: "Table \<Rightarrow> int \<Rightarrow> int \<Rightarrow> int option" where
  [code]: "unbound_loop t i j =
     (case num_val t j of
        None \<Rightarrow> None
      | Some v \<Rightarrow>
          if v \<noteq> TNil then
            (if j * 2 > MAX_INT then linear_search t 1 else unbound_loop t j (j * 2))
          else binary_search (num_val t) i j)"

definition unbound_search :: "Table \<Rightarrow> int \<Rightarrow> int option" where
  "unbound_search t j = unbound_loop t j (j + 1)"

definition luaH_getn :: "Table \<Rightarrow> int option" where
  "luaH_getn t =
     (let j = sizearray t in
      if j > 0 \<and> t_array t ! nat (j - 1) = TNil then
        binary_search (\<lambda>m. Some (t_array t ! nat (m - 1))) 0 j
      else if t_isdummy t then Some j
      else unbound_search t j)"

end
