(* ===== verification/Table_Chains.thy ===== *)
theory Table_Chains
  imports Tables
begin

text \<open>
  The collision chains of a node vector.  The locale \<open>hashing\<close> is the interface between the
  chains and the hash functions: all they need of \<^verbatim>\<open>mainposition\<close> is that it stays in the
  vector and respects raw equality.  Inside it, insertion (the three cases of \<^verbatim>\<open>newkey\<close>) is
  shown to keep the chains well formed and the entries unchanged.
\<close>

subsection \<open>Links\<close>

definition succ_rel :: "Node list \<Rightarrow> (nat \<times> nat) set" where
  "succ_rel ns = {(i, j). i < length ns \<and> n_next (ns ! i) = Some j}"

lemma succ_rel_iff: "(i, j) \<in> succ_rel ns \<longleftrightarrow> i < length ns \<and> n_next (ns ! i) = Some j"
  by (simp add: succ_rel_def)

definition links_ok :: "Node list \<Rightarrow> bool" where
  "links_ok ns \<longleftrightarrow>
     (\<forall>i j. (i, j) \<in> succ_rel ns \<longrightarrow> j < length ns \<and> i_key (ns ! i) \<noteq> TNil \<and> i_key (ns ! j) \<noteq> TNil) \<and>
     (\<forall>i j k. (i, k) \<in> succ_rel ns \<longrightarrow> (j, k) \<in> succ_rel ns \<longrightarrow> i = j) \<and>
     acyclic (succ_rel ns)"

lemma links_okD:
  assumes "links_ok ns" "(i, j) \<in> succ_rel ns"
  shows "i < length ns" "j < length ns" "i_key (ns ! i) \<noteq> TNil" "i_key (ns ! j) \<noteq> TNil"
  using assms by (auto simp: links_ok_def succ_rel_iff)

lemma links_ok_unique:
  "links_ok ns \<Longrightarrow> (i, k) \<in> succ_rel ns \<Longrightarrow> (j, k) \<in> succ_rel ns \<Longrightarrow> i = j"
  unfolding links_ok_def by blast

lemma links_ok_acyclic: "links_ok ns \<Longrightarrow> acyclic (succ_rel ns)"
  by (simp add: links_ok_def)

lemma finite_succ_rel: "finite (succ_rel ns)"
  by (rule finite_subset [of _ "(\<lambda>i. (i, the (n_next (ns ! i)))) ` {..<length ns}"])
    (auto simp: succ_rel_def image_iff)

text \<open>A walk along well-formed links ends.\<close>

lemma chain_find_total:
  assumes ok: "links_ok ns" and "i < length ns"
  shows "(\<exists>j. chain_find P ns i = Some (Some j) \<and> (i, j) \<in> (succ_rel ns)\<^sup>* \<and> j < length ns \<and> P (ns ! j)) \<or>
    chain_find P ns i = Some None \<and> (\<forall>j. (i, j) \<in> (succ_rel ns)\<^sup>* \<longrightarrow> \<not> P (ns ! j))"
proof -
  have "wf ((succ_rel ns)\<inverse>)"
    using links_ok_acyclic [OF ok] finite_succ_rel by (intro finite_acyclic_wf_converse)
  then show ?thesis using assms(2)
  proof (induction i rule: wf_induct_rule)
    case (less i)
    show ?case
    proof (cases "P (ns ! i)")
      case True
      then show ?thesis using less.prems by (auto simp: chain_find.simps [of P ns i])
    next
      case notP: False
      show ?thesis
      proof (cases "n_next (ns ! i)")
        case None
        then have "\<And>j. (i, j) \<in> (succ_rel ns)\<^sup>* \<Longrightarrow> j = i"
          by (metis converse_rtranclE option.distinct(1) succ_rel_iff)
        then show ?thesis using notP None by (auto simp: chain_find.simps [of P ns i])
      next
        case (Some k)
        then have k: "(i, k) \<in> succ_rel ns" using less.prems by (simp add: succ_rel_iff)
        then have step: "\<And>j. (i, j) \<in> (succ_rel ns)\<^sup>* \<Longrightarrow> j = i \<or> (k, j) \<in> (succ_rel ns)\<^sup>*"
          using Some by (metis converse_rtranclE option.inject succ_rel_iff)
        have eq: "chain_find P ns i = chain_find P ns k"
          using notP Some by (simp add: chain_find.simps [of P ns i])
        show ?thesis
          using less.IH [of k] k links_okD(2) [OF ok k] notP step unfolding eq
          by (auto intro: converse_rtrancl_into_rtrancl)
      qed
    qed
  qed
qed

text \<open>Links are acyclic exactly when they increase some rank.\<close>

lemma acyclic_rank:
  assumes "finite (R :: (nat \<times> nat) set)"
  shows "acyclic R \<longleftrightarrow> (\<exists>r :: nat \<Rightarrow> nat. \<forall>(i, j) \<in> R. r i < r j)"
proof
  assume a: "acyclic R"
  let ?r = "\<lambda>i. card {k. (k, i) \<in> R\<^sup>+}"
  have "?r i < ?r j" if "(i, j) \<in> R" for i j
  proof (rule psubset_card_mono)
    have "{k. (k, j) \<in> R\<^sup>+} \<subseteq> Domain (R\<^sup>+)" by blast
    then have "{k. (k, j) \<in> R\<^sup>+} \<subseteq> Domain R" by (simp only: trancl_domain)
    then show "finite {k. (k, j) \<in> R\<^sup>+}" using assms by (rule finite_subset [OF _ finite_Domain])
    show "{k. (k, i) \<in> R\<^sup>+} \<subset> {k. (k, j) \<in> R\<^sup>+}"
      using that a by (auto simp: acyclic_def intro: trancl_into_trancl)
  qed
  then show "\<exists>r :: nat \<Rightarrow> nat. \<forall>(i, j) \<in> R. r i < r j" by (intro exI [of _ ?r]) blast
next
  assume "\<exists>r :: nat \<Rightarrow> nat. \<forall>(i, j) \<in> R. r i < r j"
  then obtain r :: "nat \<Rightarrow> nat" where "\<And>i j. (i, j) \<in> R \<Longrightarrow> r i < r j" by blast
  then have "R \<subseteq> measure r" by auto
  then show "acyclic R" using acyclic_subset [OF wf_acyclic [OF wf_measure]] by blast
qed

lemma links_ok_rank:
  assumes "links_ok ns"
  obtains r :: "nat \<Rightarrow> nat" where "\<And>i j. (i, j) \<in> succ_rel ns \<Longrightarrow> r i < r j"
  using links_ok_acyclic [OF assms] acyclic_rank [OF finite_succ_rel] by blast

lemma links_okI:
  assumes "\<And>i j. (i, j) \<in> succ_rel ns \<Longrightarrow> j < length ns \<and> i_key (ns ! i) \<noteq> TNil \<and> i_key (ns ! j) \<noteq> TNil"
    and "\<And>i j k. (i, k) \<in> succ_rel ns \<Longrightarrow> (j, k) \<in> succ_rel ns \<Longrightarrow> i = j"
    and "\<And>i j. (i, j) \<in> succ_rel ns \<Longrightarrow> (r :: nat \<Rightarrow> nat) i < r j"
  shows "links_ok ns"
  using assms acyclic_rank [OF finite_succ_rel, of ns] unfolding links_ok_def by blast

subsection \<open>Well-formed node vectors\<close>

definition live_key :: "TValue \<Rightarrow> bool" where
  "live_key k \<longleftrightarrow> k \<noteq> TNil \<and> (\<forall>p. k \<noteq> TGC LUA_TDEADKEY p)"

text \<open>
  A node with a live key is on the chain of its main position, and the node at that main
  position holds a key of its own (or a dead one); live keys are distinct and not NaN; only
  they have values.
\<close>

definition keys_ok :: "(TValue \<Rightarrow> nat) \<Rightarrow> Node list \<Rightarrow> bool" where
  "keys_ok main ns \<longleftrightarrow>
     (\<forall>i<length ns. live_key (i_key (ns ! i)) \<longrightarrow>
        (main (i_key (ns ! i)), i) \<in> (succ_rel ns)\<^sup>* \<and>
        i_key (ns ! main (i_key (ns ! i))) \<noteq> TNil \<and>
        (live_key (i_key (ns ! main (i_key (ns ! i)))) \<longrightarrow>
           main (i_key (ns ! main (i_key (ns ! i)))) = main (i_key (ns ! i))) \<and>
        \<not> is_nan_value (i_key (ns ! i))) \<and>
     (\<forall>i<length ns. \<forall>j<length ns. live_key (i_key (ns ! i)) \<longrightarrow>
        luaO_rawequalObj (i_key (ns ! i)) (i_key (ns ! j)) \<longrightarrow> i = j) \<and>
     (\<forall>i<length ns. \<not> live_key (i_key (ns ! i)) \<longrightarrow> i_val (ns ! i) = TNil)"

definition nodes_ok :: "(TValue \<Rightarrow> nat) \<Rightarrow> Node list \<Rightarrow> bool" where
  "nodes_ok main ns \<longleftrightarrow> links_ok ns \<and> keys_ok main ns"

text \<open>The entries of a node vector: its pairs of a key and a value other than nil.\<close>

definition entries :: "Node list \<Rightarrow> (TValue \<times> TValue) set" where
  "entries ns = {(i_key n, i_val n) |n. n \<in> set ns \<and> i_val n \<noteq> TNil}"

lemma entries_nth: "(k, v) \<in> entries ns \<longleftrightarrow> v \<noteq> TNil \<and> (\<exists>i<length ns. i_key (ns ! i) = k \<and> i_val (ns ! i) = v)"
  by (auto simp: entries_def in_set_conv_nth)

lemma entries_mono:
  assumes "\<And>i. i < length ns \<Longrightarrow> i_val (ns ! i) \<noteq> TNil \<Longrightarrow>
    \<exists>j<length ns'. i_key (ns' ! j) = i_key (ns ! i) \<and> i_val (ns' ! j) = i_val (ns ! i)"
  shows "entries ns \<subseteq> entries ns'"
  using assms by (fastforce simp: entries_nth)

lemma keys_okD:
  assumes "keys_ok main ns" "i < length ns" "live_key (i_key (ns ! i))"
  shows "(main (i_key (ns ! i)), i) \<in> (succ_rel ns)\<^sup>*"
    "i_key (ns ! main (i_key (ns ! i))) \<noteq> TNil"
    "live_key (i_key (ns ! main (i_key (ns ! i)))) \<Longrightarrow>
       main (i_key (ns ! main (i_key (ns ! i)))) = main (i_key (ns ! i))"
    "\<not> is_nan_value (i_key (ns ! i))"
    "j < length ns \<Longrightarrow> luaO_rawequalObj (i_key (ns ! i)) (i_key (ns ! j)) \<Longrightarrow> j = i"
  using assms unfolding keys_ok_def by blast+

lemma keys_ok_dead:
  "keys_ok main ns \<Longrightarrow> i < length ns \<Longrightarrow> \<not> live_key (i_key (ns ! i)) \<Longrightarrow> i_val (ns ! i) = TNil"
  by (simp add: keys_ok_def)

lemma keys_okI:
  assumes "\<And>i. i < length ns \<Longrightarrow> live_key (i_key (ns ! i)) \<Longrightarrow>
      (main (i_key (ns ! i)), i) \<in> (succ_rel ns)\<^sup>* \<and> \<not> is_nan_value (i_key (ns ! i))"
    and "\<And>i. i < length ns \<Longrightarrow> live_key (i_key (ns ! i)) \<Longrightarrow> i_key (ns ! main (i_key (ns ! i))) \<noteq> TNil"
    and "\<And>i. i < length ns \<Longrightarrow> live_key (i_key (ns ! i)) \<Longrightarrow>
      live_key (i_key (ns ! main (i_key (ns ! i)))) \<Longrightarrow>
      main (i_key (ns ! main (i_key (ns ! i)))) = main (i_key (ns ! i))"
    and "\<And>i j. i < length ns \<Longrightarrow> j < length ns \<Longrightarrow> live_key (i_key (ns ! i)) \<Longrightarrow>
      luaO_rawequalObj (i_key (ns ! i)) (i_key (ns ! j)) \<Longrightarrow> i = j"
    and "\<And>i. i < length ns \<Longrightarrow> \<not> live_key (i_key (ns ! i)) \<Longrightarrow> i_val (ns ! i) = TNil"
  shows "keys_ok main ns"
  using assms unfolding keys_ok_def by blast

lemma live_key_simps [simp]:
  "\<not> live_key TNil" "live_key (TNumber n)" "live_key (TBoolean b)" "live_key (TLightUserdata p)"
  "live_key (TGC g p) \<longleftrightarrow> g \<noteq> LUA_TDEADKEY"
  by (auto simp: live_key_def)

lemma live_key_rawequal: "luaO_rawequalObj a b \<Longrightarrow> live_key a \<longleftrightarrow> live_key b"
  by (cases a; cases b; simp del: rawequal_refl_iff)

text \<open>A key that may be inserted.\<close>

definition fresh :: "TValue \<Rightarrow> Node list \<Rightarrow> bool" where
  "fresh key ns \<longleftrightarrow> live_key key \<and> \<not> is_nan_value key \<and>
     (\<forall>i<length ns. \<not> luaO_rawequalObj (i_key (ns ! i)) key)"

text \<open>
  What an insertion of \<open>key\<close> does to a node vector: node \<open>i\<close> holds the key, without a value,
  and node \<open>x\<close>, and no other, has stopped being free.\<close>

definition insert_rel :: "(TValue \<Rightarrow> nat) \<Rightarrow> TValue \<Rightarrow> nat \<Rightarrow> nat \<Rightarrow> Node list \<Rightarrow> Node list \<Rightarrow> bool" where
  "insert_rel main key i x ns ns' \<longleftrightarrow>
     nodes_ok main ns' \<and> entries ns' = entries ns \<and> length ns' = length ns \<and>
     i < length ns \<and> i_key (ns' ! i) = key \<and> i_val (ns' ! i) = TNil \<and>
     (\<forall>j<length ns. i_key (ns' ! j) = TNil \<longleftrightarrow> i_key (ns ! j) = TNil \<and> j \<noteq> x) \<and>
     (\<forall>j<length ns. i_key (ns' ! j) = key \<or> i_key (ns' ! j) \<in> i_key ` set ns)"

subsection \<open>The hash interface\<close>

locale hashing =
  fixes main :: "TValue \<Rightarrow> nat" and N :: nat
  assumes main_less: "main k < N"
    and main_cong: "luaO_rawequalObj a b \<Longrightarrow> main a = main b"
begin

lemma find_key:
  assumes ok: "nodes_ok main ns" and N: "length ns = N"
    and P: "\<And>n. P n \<longleftrightarrow> luaO_rawequalObj (i_key n) key" and live: "live_key key"
  shows "(\<exists>i<N. chain_find P ns (main key) = Some (Some i) \<and> luaO_rawequalObj (i_key (ns ! i)) key) \<or>
    chain_find P ns (main key) = Some None \<and> (\<forall>i<N. \<not> luaO_rawequalObj (i_key (ns ! i)) key)"
proof -
  have l: "links_ok ns" and k: "keys_ok main ns" using ok by (simp_all add: nodes_ok_def)
  have reach: "(main key, i) \<in> (succ_rel ns)\<^sup>*" if "i < N" "luaO_rawequalObj (i_key (ns ! i)) key" for i
    using keys_okD(1) [OF k, of i] that N live live_key_rawequal [OF that(2)] main_cong [OF that(2)] by simp
  have "main key < length ns" using main_less N by simp
  from chain_find_total [OF l this, of P] N
  show ?thesis using P reach by auto
qed

subsection \<open>Inserting a key\<close>

text \<open>The main position is unused: the key goes there.\<close>

lemma links_same:
  assumes "links_ok ns" "length ns' = length ns"
    and "\<And>i. i < length ns \<Longrightarrow> n_next (ns' ! i) = n_next (ns ! i)"
    and "\<And>i. i < length ns \<Longrightarrow> i_key (ns ! i) \<noteq> TNil \<Longrightarrow> i_key (ns' ! i) \<noteq> TNil"
  shows "links_ok ns' \<and> succ_rel ns' = succ_rel ns"
proof -
  have "succ_rel ns' = succ_rel ns" using assms(2,3) by (auto simp: succ_rel_def)
  then show ?thesis using assms by (auto simp: links_ok_def succ_rel_iff)
qed

lemma insert_inplace:
  assumes ok: "nodes_ok main ns" and N: "length ns = N" and f: "fresh key ns"
    and v: "i_val (ns ! main key) = TNil"
  defines "ns' \<equiv> upd_node (main key) (\<lambda>n. n\<lparr>i_key := key\<rparr>) ns"
  shows "insert_rel main key (main key) (main key) ns ns'"
proof -
  have mp: "main key < length ns" using main_less N by simp
  have nth: "ns' ! i = (if i = main key then (ns ! i)\<lparr>i_key := key\<rparr> else ns ! i)" if "i < length ns" for i
    using that mp by (simp add: ns'_def upd_node_def nth_list_update)
  have len: "length ns' = length ns" by (simp add: ns'_def upd_node_def)
  have "links_ok ns' \<and> succ_rel ns' = succ_rel ns"
    using ok f by (intro links_same) (auto simp: nodes_ok_def len nth fresh_def)
  then have l: "links_ok ns'" and R: "succ_rel ns' = succ_rel ns" by simp_all
  have k: "keys_ok main ns" using ok by (simp add: nodes_ok_def)
  have "keys_ok main ns'"
  proof (rule keys_okI, goal_cases)
    case (1 i)
    then show ?case using keys_okD(1,4) [OF k, of i] f by (auto simp: len nth R fresh_def)
  next
    case (2 i)
    then show ?case using keys_okD(2) [OF k, of i] f main_less N by (auto simp: len nth fresh_def)
  next
    case (3 i)
    then show ?case using keys_okD(3) [OF k, of i] f main_less N
      by (cases "main (i_key (ns' ! i)) = main key") (auto simp: len nth split: if_splits)
  next
    case (4 i j)
    then show ?case using keys_okD(5) [OF k, of i j] f
      by (auto simp: len nth fresh_def rawequal_sym split: if_splits)
  next
    case (5 i)
    then show ?case using keys_ok_dead [OF k, of i] v f by (auto simp: len nth fresh_def split: if_splits)
  qed
  moreover have "entries ns' = entries ns"
    using v mp by (intro equalityI entries_mono) (metis len nth Node.select_convs(1) Node.surjective Node.update_convs(2))+
  ultimately show ?thesis using l f v mp by (auto simp: insert_rel_def nodes_ok_def len nth fresh_def)
qed

text \<open>
  The node at the main position is in its own: the new key goes to a free node, second in
  the chain.\<close>

lemma insert_chain:
  assumes ok: "nodes_ok main ns" and N: "length ns = N" and f: "fresh key ns"
    and v: "i_val (ns ! main key) \<noteq> TNil" and home: "main (i_key (ns ! main key)) = main key"
    and n: "n < N" "i_key (ns ! n) = TNil"
  defines "ns' \<equiv> upd_node n (\<lambda>x. x\<lparr>i_key := key\<rparr>) (upd_node (main key) (\<lambda>x. x\<lparr>n_next := Some n\<rparr>)
    (upd_node n (\<lambda>x. x\<lparr>n_next := n_next (ns ! main key)\<rparr>) ns))"
  shows "insert_rel main key n n ns ns'"
proof -
  let ?mp = "main key"
  have mp: "?mp < length ns" using main_less N by simp
  have l: "links_ok ns" and k: "keys_ok main ns" using ok by (simp_all add: nodes_ok_def)
  have live: "live_key (i_key (ns ! ?mp))" using keys_ok_dead [OF k mp] v by blast
  then have mpk: "i_key (ns ! ?mp) \<noteq> TNil" by auto
  then have ne: "n \<noteq> ?mp" using n by auto
  have vn: "i_val (ns ! n) = TNil" using keys_ok_dead [OF k, of n] n N by simp
  have len: "length ns' = length ns" by (simp add: ns'_def upd_node_def)
  have nth: "ns' ! i = (if i = n then (ns ! n)\<lparr>n_next := n_next (ns ! ?mp), i_key := key\<rparr>
      else if i = ?mp then (ns ! ?mp)\<lparr>n_next := Some n\<rparr> else ns ! i)" if "i < length ns" for i
    using that mp n N ne by (auto simp: ns'_def upd_node_def nth_list_update)
  have R': "(i, j) \<in> succ_rel ns' \<longleftrightarrow>
      (if i = n then (?mp, j) \<in> succ_rel ns else if i = ?mp then j = n else (i, j) \<in> succ_rel ns)" for i j
    using mp n(1) N by (auto simp: succ_rel_iff len nth)
  have noR: "(n, j) \<notin> succ_rel ns" "(i, n) \<notin> succ_rel ns" for i j
    using links_okD(3,4) [OF l] n(2) by blast+
  obtain r :: "nat \<Rightarrow> nat" where r: "\<And>i j. (i, j) \<in> succ_rel ns \<Longrightarrow> r i < r j"
    using links_ok_rank [OF l] by blast
  have key': "i_key (ns' ! i) = (if i = n then key else i_key (ns ! i))" if "i < length ns" for i
    using that by (simp add: nth)
  have val': "i_val (ns' ! i) = i_val (ns ! i)" if "i < length ns" for i
    using that by (simp add: nth)
  have fk: "live_key key" "key \<noteq> TNil" "\<not> is_nan_value key" "i < length ns \<Longrightarrow> \<not> luaO_rawequalObj (i_key (ns ! i)) key"
    "i < length ns \<Longrightarrow> \<not> luaO_rawequalObj key (i_key (ns ! i))" for i
    using f by (auto simp: fresh_def rawequal_sym)
  have "links_ok ns'"
  proof (rule links_okI [where r = "\<lambda>i. if i = n then 2 * r ?mp + 1 else 2 * r i"], goal_cases)
    case (1 i j)
    then show ?case
      using links_okD [OF l, of i j] links_okD [OF l, of ?mp j] mp n N fk(2) noR mpk
      by (auto simp: R' len key' split: if_splits)
  next
    case (2 i j k)
    then show ?case using links_ok_unique [OF l] noR by (auto simp: R' split: if_splits)
  next
    case (3 i j)
    then show ?case using r [of i j] r [of ?mp j] noR by (auto simp: R' split: if_splits)
  qed
  moreover have "keys_ok main ns'"
  proof (rule keys_okI, unfold len, goal_cases)
    case (1 i)
    have "succ_rel ns \<subseteq> (succ_rel ns')\<^sup>*"
    proof clarify
      fix a b assume ab: "(a, b) \<in> succ_rel ns"
      show "(a, b) \<in> (succ_rel ns')\<^sup>*"
      proof (cases "a = ?mp")
        case True
        with ab have "(?mp, n) \<in> succ_rel ns'" "(n, b) \<in> succ_rel ns'" using ne by (simp_all add: R')
        then show ?thesis using True by (meson rtrancl.simps)
      next
        case False
        moreover have "a \<noteq> n" using ab noR by blast
        ultimately have "(a, b) \<in> succ_rel ns'" using ab by (simp add: R')
        then show ?thesis by (rule r_into_rtrancl)
      qed
    qed
    then have mono: "(succ_rel ns)\<^sup>* \<subseteq> (succ_rel ns')\<^sup>*" by (rule rtrancl_subset_rtrancl)
    have "(?mp, n) \<in> succ_rel ns'" using ne by (simp add: R')
    then show ?case using 1 keys_okD(1,4) [OF k, of i] mono fk by (auto simp: key')
  next
    case (2 i)
    then show ?case using keys_okD(2) [OF k, of i] fk(2) main_less N v live
      by (auto simp: key' len)
  next
    case (3 i)
    then show ?case using keys_okD(2,3) [OF k, of i] main_less N n home ne
      by (auto simp: key' len split: if_splits)
  next
    case (4 i j)
    then show ?case using keys_okD(5) [OF k, of i j] fk by (auto simp: key' split: if_splits)
  next
    case (5 i)
    then show ?case using keys_ok_dead [OF k, of i] vn by (auto simp: key' val' split: if_splits)
  qed
  moreover have "entries ns' = entries ns"
    using vn by (intro equalityI entries_mono) (metis len key' val')+
  ultimately show ?thesis
    using fk(2) vn n N by (auto simp: insert_rel_def nodes_ok_def len key' val')
qed

text \<open>
  The node at the main position is a guest: it moves to a free node, its predecessor is
  redirected, and the new key takes its place.\<close>

lemma insert_move:
  assumes ok: "nodes_ok main ns" and N: "length ns = N" and f: "fresh key ns"
    and v: "i_val (ns ! main key) \<noteq> TNil" and guest: "main (i_key (ns ! main key)) \<noteq> main key"
    and n: "n < N" "i_key (ns ! n) = TNil"
  shows "\<exists>prev. chain_find (\<lambda>x. n_next x = Some (main key)) ns (main (i_key (ns ! main key))) = Some (Some prev) \<and>
    (let ns' = upd_node (main key) (\<lambda>x. x\<lparr>i_key := key\<rparr>)
         (upd_node (main key) (\<lambda>x. x\<lparr>n_next := None, i_val := TNil\<rparr>)
           ((upd_node prev (\<lambda>x. x\<lparr>n_next := Some n\<rparr>) ns)
             [n := upd_node prev (\<lambda>x. x\<lparr>n_next := Some n\<rparr>) ns ! main key]))
     in insert_rel main key (main key) n ns ns')"
proof -
  let ?mp = "main key" and ?R = "succ_rel ns"
  have mp: "?mp < length ns" using main_less N by simp
  have l: "links_ok ns" and k: "keys_ok main ns" using ok by (simp_all add: nodes_ok_def)
  have live: "live_key (i_key (ns ! ?mp))" using keys_ok_dead [OF k mp] v by blast
  then have mpk: "i_key (ns ! ?mp) \<noteq> TNil" by auto
  then have ne: "n \<noteq> ?mp" using n by auto
  let ?o = "main (i_key (ns ! ?mp))"
  have path: "(?o, ?mp) \<in> ?R\<^sup>*" using keys_okD(1) [OF k mp live] .
  have "?o < length ns" using main_less N by simp
  from chain_find_total [OF l this, of "\<lambda>x. n_next x = Some ?mp"]
  obtain prev where prev: "chain_find (\<lambda>x. n_next x = Some ?mp) ns ?o = Some (Some prev)"
    "(prev, ?mp) \<in> ?R" "prev < length ns"
  proof (elim disjE exE conjE)
    assume "\<forall>j. (?o, j) \<in> ?R\<^sup>* \<longrightarrow> n_next (ns ! j) \<noteq> Some ?mp"
    moreover from path guest obtain j where "(?o, j) \<in> ?R\<^sup>*" "(j, ?mp) \<in> ?R"
      by (metis rtranclE)
    ultimately show ?thesis by (auto simp: succ_rel_iff)
  qed (auto simp: succ_rel_iff intro: that)
  obtain r :: "nat \<Rightarrow> nat" where r: "\<And>i j. (i, j) \<in> ?R \<Longrightarrow> r i < r j"
    using links_ok_rank [OF l] by blast
  have pm: "prev \<noteq> ?mp" using r [OF prev(2)] by auto
  have noR: "(n, j) \<notin> ?R" "(i, n) \<notin> ?R" for i j
    using links_okD(3,4) [OF l] n(2) by blast+
  have pn: "prev \<noteq> n" using prev(2) noR by auto
  define ns' where "ns' = upd_node ?mp (\<lambda>x. x\<lparr>i_key := key\<rparr>)
         (upd_node ?mp (\<lambda>x. x\<lparr>n_next := None, i_val := TNil\<rparr>)
           ((upd_node prev (\<lambda>x. x\<lparr>n_next := Some n\<rparr>) ns)
             [n := upd_node prev (\<lambda>x. x\<lparr>n_next := Some n\<rparr>) ns ! ?mp]))"
  have vn: "i_val (ns ! n) = TNil" using keys_ok_dead [OF k, of n] n N by simp
  have len: "length ns' = length ns" by (simp add: ns'_def upd_node_def)
  have nth: "ns' ! i = (if i = ?mp then (ns ! ?mp)\<lparr>n_next := None, i_val := TNil, i_key := key\<rparr>
      else if i = n then ns ! ?mp else if i = prev then (ns ! prev)\<lparr>n_next := Some n\<rparr> else ns ! i)"
    if "i < length ns" for i
    using that mp n N ne pm pn prev(3) by (auto simp: ns'_def upd_node_def nth_list_update)
  have key': "i_key (ns' ! i) = (if i = ?mp then key else if i = n then i_key (ns ! ?mp) else i_key (ns ! i))"
    and val': "i_val (ns' ! i) = (if i = ?mp then TNil else if i = n then i_val (ns ! ?mp) else i_val (ns ! i))"
    if "i < length ns" for i
    using that by (auto simp: nth)
  have R': "(i, j) \<in> succ_rel ns' \<longleftrightarrow> i \<noteq> ?mp \<and>
      (if i = n then (?mp, j) \<in> ?R else if i = prev then j = n else (i, j) \<in> ?R)" for i j
    using mp n(1) N prev(3) ne pm by (auto simp: succ_rel_iff len nth split: if_splits)
  have prevR: "(prev, j) \<in> ?R \<Longrightarrow> j = ?mp" for j using prev(2) by (simp add: succ_rel_iff)
  have fk: "live_key key" "key \<noteq> TNil" "\<not> is_nan_value key" "i < length ns \<Longrightarrow> \<not> luaO_rawequalObj (i_key (ns ! i)) key"
    "i < length ns \<Longrightarrow> \<not> luaO_rawequalObj key (i_key (ns ! i))" for i
    using f by (auto simp: fresh_def rawequal_sym)
  have nohome: "main (i_key (ns ! i)) \<noteq> ?mp" if "i < length ns" "live_key (i_key (ns ! i))" for i
    using keys_okD(3) [OF k that] live guest by auto
  have homen: "main (i_key (ns ! i)) \<noteq> n" if "i < length ns" "live_key (i_key (ns ! i))" for i
    using keys_okD(2) [OF k that] n(2) by auto
  have "links_ok ns'"
  proof (rule links_okI [where r = "\<lambda>i. if i = n then r ?mp else r i"], goal_cases)
    case (1 i j)
    then show ?case
      using links_okD [OF l, of i j] links_okD [OF l, of ?mp j] r [of ?mp j] mp n N fk(2) noR
        links_okD(3) [OF l prev(2)] live prev(3)
      by (auto simp: R' len key' split: if_splits)
  next
    case (2 i j k)
    then show ?case using links_ok_unique [OF l] noR prev(2) by (auto simp: R' split: if_splits)
  next
    case (3 i j)
    then show ?case using r [of i j] r [of ?mp j] r [OF prev(2)] noR by (auto simp: R' split: if_splits)
  qed
  moreover have "keys_ok main ns'"
  proof (rule keys_okI, unfold len, goal_cases)
    case (1 i)
    let ?f = "\<lambda>i. if i = ?mp then n else i"
    have e: "(?f a, ?f b) \<in> (succ_rel ns')" if ab: "(a, b) \<in> ?R" for a b
    proof -
      have a: "a \<noteq> n" "b \<noteq> n" using ab noR by blast+
      consider "a = ?mp" "b \<noteq> ?mp" | "b = ?mp" "a = prev" | "a \<noteq> ?mp" "a \<noteq> prev" "b \<noteq> ?mp"
        using r [OF ab] prevR [of b] links_ok_unique [OF l prev(2), of a] ab by blast
      then show ?thesis using a ab ne pm pn by cases (simp_all add: R')
    qed
    have mono: "(?f a, ?f b) \<in> (succ_rel ns')\<^sup>*" if "(a, b) \<in> ?R\<^sup>*" for a b
      using that by (induction rule: rtrancl_induct) (rule rtrancl.rtrancl_refl, erule rtrancl_into_rtrancl, erule e)
    show ?case
      using 1 keys_okD(1,4) [OF k, of i] mono [of "main (i_key (ns ! i))" i]
        keys_okD(4) [OF k mp live] mono [OF path] nohome [of i] guest fk(3)
      by (auto simp: key' split: if_splits)
  next
    case (2 i)
    then show ?case
      using keys_okD(2) [OF k, of i] keys_okD(2) [OF k mp live] fk(2) main_less N live
      by (auto simp: key' len)
  next
    case (3 i)
    then show ?case
      using keys_okD(2,3) [OF k, of i] keys_okD(3) [OF k mp live] main_less N nohome [of i] homen [of i]
        homen [OF mp live] guest
      by (auto simp: key' len split: if_splits)
  next
    case (4 i j)
    then show ?case
      using keys_okD(5) [OF k, of i j] keys_okD(5) [OF k mp live, of j] keys_okD(5) [OF k, of i ?mp] fk mp n(2)
      by (auto simp: key' split: if_splits)
  next
    case (5 i)
    then show ?case using keys_ok_dead [OF k, of i] live fk(1) by (auto simp: key' val' split: if_splits)
  qed
  moreover have "entries ns' = entries ns"
  proof (intro equalityI entries_mono, unfold len, goal_cases)
    case (1 i)
    then show ?case using mp by (auto simp: key' val' split: if_splits)
  next
    case (2 i)
    then have "i \<noteq> n" using vn by auto
    then show ?case
      using 2 n(1) N ne by (intro exI [of _ "if i = ?mp then n else i"]) (auto simp: key' val')
  qed
  moreover have "i_key (ns' ! j) = TNil \<longleftrightarrow> i_key (ns ! j) = TNil \<and> j \<noteq> n" if "j < length ns" for j
    using that fk(2) mpk by (auto simp: key')
  moreover have "i_key (ns' ! j) = key \<or> i_key (ns' ! j) \<in> i_key ` set ns" if "j < length ns" for j
    using that mp by (auto simp: key')
  ultimately have "insert_rel main key ?mp n ns ns'"
    using mp by (simp add: insert_rel_def nodes_ok_def len key' val')
  then show ?thesis
    using prev(1) unfolding ns'_def by auto
qed

end

end
