(* ===== verification/Table_Laws.thy ===== *)
theory Table_Laws
  imports Table_Chains
begin

text \<open>
  What a table promises: well-formedness \<open>table_ok\<close> of both parts, the search functions
  against it, and insertion without growth.
\<close>

subsection \<open>Main positions\<close>

lemma and_pow2: "0 \<le> (2 :: int) ^ l \<Longrightarrow> (n :: int) AND (2 ^ l - 1) = n mod 2 ^ l"
  by (simp add: take_bit_eq_mask [symmetric] mask_eq_exp_minus_1 [symmetric] take_bit_eq_mod [symmetric])

lemma sizenode_eq: "sizenode t = 2 ^ lsizenode t"
  by (simp add: sizenode_def)

lemma hashpow2_less: "hashpow2 t n < 2 ^ lsizenode t"
  by (simp add: hashpow2_def sizenode_eq and_pow2 nat_less_iff)

lemma hashmod_less: "hashmod t n < 2 ^ lsizenode t"
proof -
  have "0 < (2 ^ lsizenode t - 1) OR (1 :: int) \<and> (2 ^ lsizenode t - 1) OR (1 :: int) \<le> 2 ^ lsizenode t"
  proof (cases "lsizenode t")
    case (Suc l)
    have "(2 ^ lsizenode t - 1 :: int) OR 1 = 2 ^ lsizenode t - 1"
      by (simp add: Suc or_one_eq)
    moreover have "(1 :: int) < 2 ^ lsizenode t" by (rule one_less_power) (simp_all add: Suc)
    ultimately show ?thesis by linarith
  qed simp
  then have "uint n mod ((2 ^ lsizenode t - 1) OR 1) < 2 ^ lsizenode t"
    using pos_mod_bound [of "(2 ^ lsizenode t - 1) OR 1" "uint n"] by linarith
  then show ?thesis by (simp add: hashmod_def sizenode_eq nat_less_iff)
qed

lemma mainposition_less: "mainposition hs t k < 2 ^ lsizenode t"
  by (cases k) (simp_all add: hashpow2_less hashmod_less hashnum_def)

lemma d_iszero_0: "luai_numeq n 0 \<longleftrightarrow> d_iszero n"
proof -
  have z: "d_iszero 0" by (simp add: d_iszero_def d_mag_def)
  have "\<not> d_isnan n" if "d_iszero n" for n using d_iszero_exp [OF that] by (simp add: d_isnan_def)
  with z show ?thesis by (auto simp: luai_numeq_def)
qed

lemma hashnum_cong: "luai_numeq a b \<Longrightarrow> hashnum t a = hashnum t b"
  using d_iszero_0 [of a] d_iszero_0 [of b] by (auto simp: luai_numeq_def hashnum_def)

lemma mainposition_cong: "luaO_rawequalObj a b \<Longrightarrow> mainposition hs t a = mainposition hs t b"
  by (cases a; cases b; simp add: hashnum_cong del: rawequal_refl_iff)

interpretation tab: hashing "mainposition hs t" "2 ^ lsizenode t" for hs t
  by unfold_locales (simp_all add: mainposition_less mainposition_cong)

lemma mainposition_lsize: "lsizenode t = lsizenode t' \<Longrightarrow> mainposition hs t = mainposition hs t'"
proof
  fix k assume "lsizenode t = lsizenode t'"
  then show "mainposition hs t k = mainposition hs t' k"
    by (cases k) (simp_all add: hashnum_def hashmod_def hashpow2_def sizenode_def)
qed

subsection \<open>Array indices\<close>

definition in_array :: "Table \<Rightarrow> TValue \<Rightarrow> bool" where
  "in_array t key \<longleftrightarrow> 0 < arrayindex key \<and> arrayindex key \<le> sizearray t"

lemma arrayindex_bounds: "- (2 ^ 31) \<le> arrayindex k \<and> arrayindex k < 2 ^ 31"
  using lua_number2int_bounds by (auto simp: arrayindex_def Let_def split: TValue.split)

lemma arrayindex_num: "- (2 ^ 31) \<le> k \<Longrightarrow> k < 2 ^ 31 \<Longrightarrow> arrayindex (TNumber (cast_num k)) = k"
  by (simp add: arrayindex_def lua_number2int_cast_num numeq_refl_iff not_nan_cast_num)

lemma arrayindex_numeq:
  "0 < arrayindex k \<Longrightarrow> luaO_rawequalObj k (TNumber (cast_num (arrayindex k)))"
  by (cases k) (auto simp: arrayindex_def Let_def numeq_sym split: if_splits)

lemma arrayindex_cong: "luaO_rawequalObj a b \<Longrightarrow> arrayindex a = arrayindex b"
proof (cases a; cases b; simp add: arrayindex_def del: rawequal_refl_iff)
  fix m n assume eq: "luai_numeq m n"
  then have "lua_number2int m = lua_number2int n"
    using numeq_trunc [OF eq] by (simp add: lua_number2int_def number_to_bits_def)
  moreover have "luai_numeq (cast_num k) m \<longleftrightarrow> luai_numeq (cast_num k) n" for k
    using eq numeq_trans numeq_sym by blast
  ultimately show "(let k = lua_number2int m in if luai_numeq (cast_num k) m then k else - 1) =
      (let k = lua_number2int n in if luai_numeq (cast_num k) n then k else - 1)"
    by simp
qed

lemma arrayindex_inj:
  assumes "arrayindex a = arrayindex b" "0 < arrayindex a"
  shows "luaO_rawequalObj a b"
  using arrayindex_numeq [of a] arrayindex_numeq [of b] assms rawequal_trans rawequal_sym by metis

lemma in_array_cong: "luaO_rawequalObj a b \<Longrightarrow> in_array t a = in_array t b"
  by (simp add: in_array_def arrayindex_cong)

subsection \<open>Well-formed tables\<close>

definition table_ok :: "(u64 \<Rightarrow> u32) \<Rightarrow> Table \<Rightarrow> bool" where
  "table_ok hs t \<longleftrightarrow>
     length (t_node t) = 2 ^ lsizenode t \<and> lsizenode t \<le> MAXBITS \<and> sizearray t \<le> MAXASIZE \<and>
     nodes_ok (mainposition hs t) (t_node t) \<and>
     (t_isdummy t \<longrightarrow> t_node t = [dummynode] \<and> lastfree t \<le> 0) \<and>
     lastfree t \<le> 2 ^ lsizenode t \<and>
     (\<not> t_isdummy t \<longrightarrow> (\<forall>i<length (t_node t). lastfree t \<le> int i \<longrightarrow> i_key (t_node t ! i) \<noteq> TNil)) \<and>
     (\<forall>i<length (t_node t). live_key (i_key (t_node t ! i)) \<longrightarrow> \<not> in_array t (i_key (t_node t ! i)))"

lemma table_okD:
  assumes "table_ok hs t"
  shows "length (t_node t) = 2 ^ lsizenode t" "lsizenode t \<le> MAXBITS" "sizearray t \<le> MAXASIZE"
    "nodes_ok (mainposition hs t) (t_node t)" "t_isdummy t \<Longrightarrow> t_node t = [dummynode]"
    "t_isdummy t \<Longrightarrow> lastfree t \<le> 0" "lastfree t \<le> 2 ^ lsizenode t"
    "\<not> t_isdummy t \<Longrightarrow> i < length (t_node t) \<Longrightarrow> lastfree t \<le> int i \<Longrightarrow> i_key (t_node t ! i) \<noteq> TNil"
    "i < length (t_node t) \<Longrightarrow> live_key (i_key (t_node t ! i)) \<Longrightarrow> \<not> in_array t (i_key (t_node t ! i))"
  using assms unfolding table_ok_def by blast+

lemma table_ok_keys: "table_ok hs t \<Longrightarrow> keys_ok (mainposition hs t) (t_node t)"
  by (simp add: table_ok_def nodes_ok_def)

lemma table_ok_flags [simp]: "table_ok hs (t\<lparr>flags := x\<rparr>) = table_ok hs t"
  by (simp add: table_ok_def sizearray_def in_array_def mainposition_lsize [of "t\<lparr>flags := x\<rparr>" t])

lemma sizearray_nonneg [simp]: "0 \<le> sizearray t"
  by (simp add: sizearray_def)

text \<open>A key the program can have: anything but a dead one.\<close>

definition no_dead :: "TValue \<Rightarrow> bool" where
  "no_dead k \<longleftrightarrow> (\<forall>p. k \<noteq> TGC LUA_TDEADKEY p)"

lemma no_dead_live: "no_dead k \<longleftrightarrow> k = TNil \<or> live_key k"
  by (auto simp: no_dead_def live_key_def)

text \<open>Where a key's value is, and what it is.\<close>

definition slot_is :: "Table \<Rightarrow> TValue \<Rightarrow> slot \<Rightarrow> bool" where
  "slot_is t key s =
     (case s of
        SArray i \<Rightarrow> i < length (t_array t) \<and> arrayindex key = int i + 1
      | SNode i \<Rightarrow> i < length (t_node t) \<and> live_key key \<and> luaO_rawequalObj (i_key (t_node t ! i)) key \<and>
          \<not> in_array t key
      | SNil \<Rightarrow> \<not> in_array t key \<and>
          (live_key key \<longrightarrow> (\<forall>i<length (t_node t). \<not> luaO_rawequalObj (i_key (t_node t ! i)) key)))"

definition holds :: "Node list \<Rightarrow> TValue \<Rightarrow> TValue \<Rightarrow> bool" where
  "holds ns key v \<longleftrightarrow> (\<exists>k'. (k', v) \<in> entries ns \<and> luaO_rawequalObj k' key)"

definition tcontent :: "Table \<Rightarrow> TValue \<Rightarrow> TValue \<Rightarrow> bool" where
  "tcontent t key v \<longleftrightarrow>
     (if in_array t key then v = t_array t ! nat (arrayindex key - 1)
      else holds (t_node t) key v \<or> v = TNil \<and> (\<forall>v'. \<not> holds (t_node t) key v'))"

lemma entries_live: "keys_ok m ns \<Longrightarrow> (k, v) \<in> entries ns \<Longrightarrow> live_key k"
  by (auto simp: entries_nth dest: keys_ok_dead)

lemma entries_unique:
  assumes "keys_ok m ns" "(k, v) \<in> entries ns" "(k', v') \<in> entries ns"
    "luaO_rawequalObj k x" "luaO_rawequalObj k' x"
  shows "v = v'"
proof -
  obtain i j where i: "i < length ns" "i_key (ns ! i) = k" "i_val (ns ! i) = v" "v \<noteq> TNil"
    and j: "j < length ns" "i_key (ns ! j) = k'" "i_val (ns ! j) = v'"
    using assms(2,3) by (auto simp: entries_nth)
  have "luaO_rawequalObj k k'" using assms(4,5) rawequal_trans rawequal_sym by metis
  moreover have "live_key (i_key (ns ! i))" using keys_ok_dead [OF assms(1) i(1)] i by blast
  ultimately have "j = i" using keys_okD(5) [OF assms(1) i(1) _ j(1)] i j by simp
  then show ?thesis using i j by simp
qed

lemma tcontent_unique:
  "table_ok hs t \<Longrightarrow> tcontent t key v \<Longrightarrow> tcontent t key v' \<Longrightarrow> v = v'"
  using entries_unique [OF table_ok_keys] unfolding tcontent_def holds_def by (auto split: if_splits)

lemma slot_is_content:
  assumes ok: "table_ok hs t" and s: "slot_is t key s"
  shows "tcontent t key (slot_val t s)"
proof (cases s)
  case (SArray i)
  with s show ?thesis by (auto simp: slot_is_def tcontent_def in_array_def sizearray_def slot_val_def)
next
  case (SNode i)
  then have i: "i < length (t_node t)" "live_key key" "luaO_rawequalObj (i_key (t_node t ! i)) key"
    "\<not> in_array t key" using s by (simp_all add: slot_is_def)
  have live: "live_key (i_key (t_node t ! i))" using live_key_rawequal [OF i(3)] i(2) by simp
  have other: "v = i_val (t_node t ! i)" if e: "(k', v) \<in> entries (t_node t)" "luaO_rawequalObj k' key" for k' v
  proof -
    obtain j where j: "j < length (t_node t)" "i_key (t_node t ! j) = k'" "i_val (t_node t ! j) = v"
      using e(1) unfolding entries_nth by blast
    have "luaO_rawequalObj (i_key (t_node t ! i)) (i_key (t_node t ! j))"
      using i(3) e(2) j(2) rawequal_trans rawequal_sym by metis
    then have "j = i" using keys_okD(5) [OF table_ok_keys [OF ok] i(1) live j(1)] by blast
    then show ?thesis using j by simp
  qed
  show ?thesis
  proof (cases "i_val (t_node t ! i) = TNil")
    case True
    then have none: "\<not> holds (t_node t) key v" for v
      using other unfolding holds_def by (auto simp: entries_nth)
    show ?thesis using SNode i True by (simp add: tcontent_def slot_val_def none)
  next
    case False
    then have "(i_key (t_node t ! i), i_val (t_node t ! i)) \<in> entries (t_node t)"
      using i(1) by (auto simp: entries_nth)
    then show ?thesis using SNode i by (auto simp: tcontent_def slot_val_def holds_def)
  qed
next
  case SNil
  then have none: "\<not> holds (t_node t) key v" for v
    using s live_key_rawequal entries_live [OF table_ok_keys [OF ok]]
    by (fastforce simp: slot_is_def entries_nth holds_def)
  show ?thesis
    using SNil s by (simp add: tcontent_def slot_val_def slot_is_def none)
qed

subsection \<open>Search\<close>

lemma chain_slot_spec:
  assumes ok: "table_ok hs t" and "live_key key" "\<not> in_array t key" "mp = mainposition hs t key"
    and P: "P = (\<lambda>n. luaO_rawequalObj (i_key n) key)"
  shows "\<exists>s. chain_slot P t mp = Some s \<and> slot_is t key s"
proof -
  have "P n \<longleftrightarrow> luaO_rawequalObj (i_key n) key" for n by (simp add: P)
  from tab.find_key [OF table_okD(4,1) [OF ok] this assms(2)] show ?thesis
    unfolding chain_slot_def slot_is_def assms(4)
    by (elim disjE exE conjE; simp add: table_okD(1) [OF ok] assms(2,3))
qed

lemma getnum_range:
  assumes "table_ok hs t" "- (2 ^ 31) \<le> k" "k < 2 ^ 31"
  shows "(word_of_int (k - 1) :: u32) < word_of_int (sizearray t) \<longleftrightarrow> 0 < k \<and> k \<le> sizearray t"
proof -
  have s: "0 \<le> sizearray t" "sizearray t \<le> 67108864"
    using table_okD(3) [OF assms(1)] by (simp_all add: MAXASIZE_def MAXBITS_def)
  have "uint (word_of_int (sizearray t) :: u32) = sizearray t"
    unfolding uint_word_of_int using s by simp
  moreover have "uint (word_of_int (k - 1) :: u32) = (k - 1) mod 4294967296"
    unfolding uint_word_of_int by simp
  moreover have "(k - 1) mod 4294967296 = (if 0 < k then k - 1 else k - 1 + 4294967296)"
  proof (cases "0 < k")
    case False
    have "(k - 1) mod 4294967296 = (k - 1 + 4294967296) mod 4294967296" by (rule mod_add_self2 [symmetric])
    also have "\<dots> = k - 1 + 4294967296" using False assms(2) by (intro mod_pos_pos_trivial) auto
    finally show ?thesis using False by simp
  qed (use assms(3) in \<open>simp add: mod_pos_pos_trivial\<close>)
  ultimately show ?thesis
    unfolding word_less_def using s assms(2,3) by auto
qed

lemma luaH_getnum_spec:
  assumes ok: "table_ok hs t" and k: "- (2 ^ 31) \<le> k" "k < 2 ^ 31"
  shows "\<exists>s. luaH_getnum t k = Some s \<and> slot_is t (TNumber (cast_num k)) s"
proof (cases "0 < k \<and> k \<le> sizearray t")
  case True
  then show ?thesis
    using getnum_range [OF assms] arrayindex_num [OF k]
    by (auto simp: luaH_getnum_def slot_is_def sizearray_def)
next
  case False
  have P: "(\<lambda>n. case i_key n of TNumber m \<Rightarrow> luai_numeq m (cast_num k) | _ \<Rightarrow> False)
      = (\<lambda>n. luaO_rawequalObj (i_key n) (TNumber (cast_num k)))"
    by (rule ext, rename_tac n, case_tac "i_key n") simp_all
  have "\<exists>s. chain_slot (\<lambda>n. case i_key n of TNumber m \<Rightarrow> luai_numeq m (cast_num k) | _ \<Rightarrow> False) t
      (hashnum t (cast_num k)) = Some s \<and> slot_is t (TNumber (cast_num k)) s"
    by (rule chain_slot_spec [OF ok _ _ _ P]) (use False arrayindex_num [OF k] in \<open>auto simp: in_array_def\<close>)
  then show ?thesis
    using False getnum_range [OF assms] unfolding luaH_getnum_def Let_def by auto
qed

lemma slot_is_cong:
  assumes "luaO_rawequalObj a b"
  shows "slot_is t a s = slot_is t b s"
proof -
  have "luaO_rawequalObj x a \<longleftrightarrow> luaO_rawequalObj x b" for x
    using assms rawequal_trans rawequal_sym by metis
  then show ?thesis
    using live_key_rawequal [OF assms] in_array_cong [OF assms] arrayindex_cong [OF assms]
    by (simp add: slot_is_def split: slot.split)
qed

lemma luaH_getstr_spec:
  assumes ok: "table_ok hs t"
  shows "\<exists>s. luaH_getstr hs t p = Some s \<and> slot_is t (TGC LUA_TSTRING p) s"
proof -
  have "(\<lambda>n. i_key n = TGC LUA_TSTRING p) = (\<lambda>n. luaO_rawequalObj (i_key n) (TGC LUA_TSTRING p))"
    by simp
  from chain_slot_spec [OF ok _ _ _ this] show ?thesis
    by (simp add: luaH_getstr_def in_array_def arrayindex_def)
qed

lemma luaH_get_spec:
  assumes ok: "table_ok hs t" and key: "no_dead key"
  shows "\<exists>s. luaH_get hs t key = Some s \<and> slot_is t key s"
proof -
  have gen: "\<exists>s. luaH_get_generic hs t key = Some s \<and> slot_is t key s"
    if "live_key key" "arrayindex key = -1"
    unfolding luaH_get_generic_def
    by (rule chain_slot_spec [OF ok that(1)]) (simp_all add: that in_array_def)
  show ?thesis
  proof (cases key)
    case (TNumber n)
    show ?thesis
    proof (cases "luai_numeq (cast_num (lua_number2int n)) n")
      case True
      then have "luaO_rawequalObj (TNumber (cast_num (lua_number2int n))) key" by (simp add: TNumber)
      then show ?thesis
        using luaH_getnum_spec [OF ok lua_number2int_bounds, of n] slot_is_cong [of _ key t] True TNumber
        by (auto simp: luaH_get_def)
    next
      case False
      then show ?thesis using gen TNumber by (simp add: luaH_get_def arrayindex_def)
    qed
  next
    case (TGC g p)
    then show ?thesis using gen luaH_getstr_spec [OF ok, of p] key
      by (auto simp: luaH_get_def arrayindex_def no_dead_def)
  qed (use gen in \<open>auto simp: luaH_get_def arrayindex_def slot_is_def in_array_def\<close>)
qed

text \<open>The value a program reads under a key.\<close>

definition tget :: "(u64 \<Rightarrow> u32) \<Rightarrow> Table \<Rightarrow> TValue \<Rightarrow> TValue" where
  "tget hs t key = slot_val t (the (luaH_get hs t key))"

lemma tget_iff: "table_ok hs t \<Longrightarrow> no_dead key \<Longrightarrow> tget hs t key = v \<longleftrightarrow> tcontent t key v"
  using luaH_get_spec [of hs t key] slot_is_content [of hs t key] tcontent_unique [of hs t key]
  by (auto simp: tget_def)

end
