(* ===== verification/Table_Insert.thy ===== *)
theory Table_Insert
  imports Table_Laws
begin

text \<open>
  Insertion into a table that has room for it (\<^verbatim>\<open>getfreepos\<close>, the body of \<^verbatim>\<open>newkey\<close>,
  \<^verbatim>\<open>luaH_set\<close>, \<^verbatim>\<open>luaH_setnum\<close>), and assignment through the slot it returns.
\<close>

subsection \<open>Free positions\<close>

definition free :: "Table \<Rightarrow> nat" where
  "free t = (if t_isdummy t then 0 else card {i. i < length (t_node t) \<and> i_key (t_node t ! i) = TNil})"

lemma getfreepos_spec:
  assumes "lastfree t \<le> int (length (t_node t))"
    and "\<And>i. i < length (t_node t) \<Longrightarrow> lastfree t \<le> int i \<Longrightarrow> i_key (t_node t ! i) \<noteq> TNil"
  shows "(\<exists>n. n < length (t_node t) \<and> i_key (t_node t ! n) = TNil \<and>
       getfreepos t = (Some n, t\<lparr>lastfree := int n\<rparr>) \<and>
       (\<forall>i<length (t_node t). n < i \<longrightarrow> i_key (t_node t ! i) \<noteq> TNil)) \<or>
    (\<exists>l < 0. getfreepos t = (None, t\<lparr>lastfree := l\<rparr>) \<and> (\<forall>i<length (t_node t). i_key (t_node t ! i) \<noteq> TNil))"
  using assms
proof (induction t rule: getfreepos.induct)
  case (1 t)
  let ?l = "nat (lastfree t - 1)" and ?t = "t\<lparr>lastfree := lastfree t - 1\<rparr>"
  show ?case
  proof (cases "lastfree t > 0")
    case False
    then show ?thesis
      using "1.prems"(2) by (auto simp: getfreepos.simps [of t] intro!: exI [of _ "lastfree t - 1"])
  next
    case True
    then have l: "?l < length (t_node t)" "int ?l = lastfree t - 1" using "1.prems"(1) by auto
    show ?thesis
    proof (cases "i_key (t_node t ! ?l) = TNil")
      case nil: True
      have "getfreepos t = (Some ?l, t\<lparr>lastfree := int ?l\<rparr>)"
        using True nil l(2) by (subst getfreepos.simps) (simp add: Let_def del: int_nat_eq nat_0_le)
      moreover have "i_key (t_node t ! i) \<noteq> TNil" if "i < length (t_node t)" "?l < i" for i
        using "1.prems"(2) [OF that(1)] that(2) l(2) by linarith
      ultimately show ?thesis using l nil by blast
    next
      case False
      have "i_key (t_node t ! i) \<noteq> TNil" if "i < length (t_node t)" "lastfree t - 1 \<le> int i" for i
        using "1.prems"(2) [OF that(1)] that(2) False l(2) by (cases "i = ?l") auto
      moreover have "getfreepos t = getfreepos ?t"
        using True False by (simp add: getfreepos.simps [of t])
      ultimately show ?thesis
        using "1.IH" [of ?t] True False "1.prems"(1) by (simp del: One_nat_def)
    qed
  qed
qed

lemma card_pos_ex: "0 < card {i. i < (n :: nat) \<and> P i} \<Longrightarrow> \<exists>i<n. P i"
  by (metis (mono_tags, lifting) card_gt_0_iff empty_Collect_eq)

subsection \<open>The node vector after an insertion\<close>

lemma table_ok_insert:
  assumes ok: "table_ok hs t" and nd: "\<not> t_isdummy t" and na: "\<not> in_array t key"
    and ins: "insert_rel (mainposition hs t) key i x (t_node t) ns'"
    and lf: "l \<le> 2 ^ lsizenode t"
      "\<And>j. j < length (t_node t) \<Longrightarrow> l \<le> int j \<Longrightarrow> i_key (t_node t ! j) = TNil \<Longrightarrow> j = x"
  shows "table_ok hs (t\<lparr>t_node := ns', lastfree := l\<rparr>)"
proof -
  let ?t = "t\<lparr>t_node := ns', lastfree := l\<rparr>"
  have m: "mainposition hs ?t = mainposition hs t" by (rule mainposition_lsize) simp
  have len: "length ns' = length (t_node t)" using ins by (simp add: insert_rel_def)
  have a: "in_array ?t = in_array t" by (simp add: in_array_def fun_eq_iff sizearray_def)
  have "\<not> in_array t (i_key (ns' ! j))" if "j < length ns'" "live_key (i_key (ns' ! j))" for j
  proof -
    from ins that(1) len have "i_key (ns' ! j) = key \<or> i_key (ns' ! j) \<in> i_key ` set (t_node t)"
      by (simp add: insert_rel_def)
    with that(2) na table_okD(9) [OF ok] show ?thesis by (auto simp: in_set_conv_nth)
  qed
  moreover have "i_key (ns' ! j) \<noteq> TNil" if "j < length ns'" "l \<le> int j" for j
    using ins that len lf(2) [of j] by (auto simp: insert_rel_def)
  ultimately show ?thesis
    using table_okD(1-3) [OF ok] ins nd lf(1) len
    by (simp add: table_ok_def m a insert_rel_def sizearray_def)
qed

lemma free_insert:
  assumes "\<not> t_isdummy t" "insert_rel m key i x (t_node t) ns'"
  shows "free t \<le> Suc (free (t\<lparr>t_node := ns', lastfree := l\<rparr>))"
proof -
  have "{j. j < length (t_node t) \<and> i_key (t_node t ! j) = TNil} \<subseteq>
      insert x {j. j < length ns' \<and> i_key (ns' ! j) = TNil}"
    using assms(2) by (auto simp: insert_rel_def)
  then have "card {j. j < length (t_node t) \<and> i_key (t_node t ! j) = TNil} \<le>
      card (insert x {j. j < length ns' \<and> i_key (ns' ! j) = TNil})"
    by (intro card_mono) auto
  also have "\<dots> \<le> Suc (card {j. j < length ns' \<and> i_key (ns' ! j) = TNil})"
    by (rule card_insert_le_m1) simp_all
  finally show ?thesis using assms(1) by (simp add: free_def)
qed

text \<open>
  What every operation that finds or makes room for a key has done: the table is well formed,
  the slot is the key's, and every key has the value it had.\<close>

definition set_post :: "(u64 \<Rightarrow> u32) \<Rightarrow> Table \<Rightarrow> TValue \<Rightarrow> slot \<Rightarrow> Table \<Rightarrow> bool" where
  "set_post hs t key s t' \<longleftrightarrow>
     table_ok hs t' \<and> slot_is t' key s \<and> s \<noteq> SNil \<and> (\<forall>k v. tcontent t' k v = tcontent t k v)"

lemma tcontent_same:
  "t_array t' = t_array t \<Longrightarrow> entries (t_node t') = entries (t_node t) \<Longrightarrow> tcontent t' k v = tcontent t k v"
  by (simp add: tcontent_def in_array_def sizearray_def holds_def)

lemma set_post_insert:
  assumes "table_ok hs t" "\<not> t_isdummy t" "\<not> in_array t key" "fresh key (t_node t)"
    and "insert_rel (mainposition hs t) key i x (t_node t) ns'" "l \<le> 2 ^ lsizenode t"
    and "\<And>j. j < length (t_node t) \<Longrightarrow> l \<le> int j \<Longrightarrow> i_key (t_node t ! j) = TNil \<Longrightarrow> j = x"
  shows "set_post hs t key (SNode i) (t\<lparr>t_node := ns', lastfree := l\<rparr>)"
proof -
  have "slot_is (t\<lparr>t_node := ns', lastfree := l\<rparr>) key (SNode i)"
    using assms(3-5) by (simp add: slot_is_def insert_rel_def in_array_def sizearray_def fresh_def)
  moreover have "tcontent (t\<lparr>t_node := ns', lastfree := l\<rparr>) k v = tcontent t k v" for k v
    by (rule tcontent_same) (use assms(5) in \<open>simp_all add: insert_rel_def\<close>)
  moreover have "table_ok hs (t\<lparr>t_node := ns', lastfree := l\<rparr>)"
    by (rule table_ok_insert [OF assms(1-3,5-6)]) (rule assms(7))
  ultimately show ?thesis unfolding set_post_def by blast
qed

subsection \<open>newkey with room\<close>

lemma newkey_inplace:
  "i_val (t_node t ! mainposition hs t key) = TNil \<Longrightarrow> \<not> t_isdummy t \<Longrightarrow>
     newkey f hs t key = Inr (put_key (mainposition hs t key) key t)"
  by (cases f) (simp_all add: Let_def)

lemma newkey_collision:
  "i_val (t_node t ! mainposition hs t key) \<noteq> TNil \<Longrightarrow> getfreepos t = (Some n, t') \<Longrightarrow>
     newkey f hs t key = newkey_at hs t' key (mainposition hs t key) n"
  by (cases f) (simp_all add: Let_def)

lemma getfreepos_room:
  assumes ok: "table_ok hs t" and room: "0 < free t"
  obtains n where "n < length (t_node t)" "i_key (t_node t ! n) = TNil"
    "getfreepos t = (Some n, t\<lparr>lastfree := int n\<rparr>)"
    "\<And>i. i < length (t_node t) \<Longrightarrow> n < i \<Longrightarrow> i_key (t_node t ! i) \<noteq> TNil"
proof -
  have nd: "\<not> t_isdummy t" using room by (auto simp: free_def)
  then obtain i where i: "i < length (t_node t)" "i_key (t_node t ! i) = TNil"
    using room by (auto simp: free_def dest: card_pos_ex)
  have lf: "lastfree t \<le> int (length (t_node t))" using table_okD(1,7) [OF ok] by simp
  from getfreepos_spec [OF lf table_okD(8) [OF ok nd]] i that show ?thesis by blast
qed

lemma upd_commute: "t\<lparr>lastfree := l, t_node := ns\<rparr> = t\<lparr>t_node := ns, lastfree := l\<rparr>"
  by simp

lemma newkey_room:
  assumes ok: "table_ok hs t" and f: "fresh key (t_node t)" and na: "\<not> in_array t key"
    and room: "0 < free t"
  shows "\<exists>s t'. newkey fuel hs t key = Inr (s, t') \<and> set_post hs t key s t' \<and>
    length (t_array t') = length (t_array t) \<and> free t \<le> Suc (free t')"
proof -
  let ?mp = "mainposition hs t key"
  have nd: "\<not> t_isdummy t" using room by (auto simp: free_def)
  note N = table_okD(1) [OF ok] and nok = table_okD(4) [OF ok]
  show ?thesis
  proof (cases "i_val (t_node t ! ?mp) = TNil")
    case True
    let ?ns = "upd_node ?mp (\<lambda>n. n\<lparr>i_key := key\<rparr>) (t_node t)"
    have ins: "insert_rel (mainposition hs t) key ?mp ?mp (t_node t) ?ns"
      by (rule tab.insert_inplace [OF nok N f True])
    have l: "j = ?mp" if "j < length (t_node t)" "lastfree t \<le> int j" "i_key (t_node t ! j) = TNil" for j
      using table_okD(8) [OF ok nd that(1,2)] that(3) by simp
    have "newkey fuel hs t key = Inr (SNode ?mp, t\<lparr>t_node := ?ns, lastfree := lastfree t\<rparr>)"
      by (simp add: newkey_inplace [OF True nd] put_key_def)
    moreover have "length (t_array (t\<lparr>t_node := ?ns, lastfree := lastfree t\<rparr>)) = length (t_array t)" by simp
    ultimately show ?thesis
      using set_post_insert [OF ok nd na f ins table_okD(7) [OF ok] l] free_insert [OF nd ins, of "lastfree t"]
      by blast
  next
    case False
    obtain n where n: "n < length (t_node t)" "i_key (t_node t ! n) = TNil"
      "getfreepos t = (Some n, t\<lparr>lastfree := int n\<rparr>)"
      "\<And>i. i < length (t_node t) \<Longrightarrow> n < i \<Longrightarrow> i_key (t_node t ! i) \<noteq> TNil"
      using getfreepos_room [OF ok room] by blast
    have nk: "newkey fuel hs t key = newkey_at hs (t\<lparr>lastfree := int n\<rparr>) key ?mp n"
      by (rule newkey_collision [OF False n(3)])
    have m: "mainposition hs (t\<lparr>lastfree := int n\<rparr>) = mainposition hs t" by (rule mainposition_lsize) simp
    have "\<exists>i ns'. newkey fuel hs t key = Inr (SNode i, t\<lparr>t_node := ns', lastfree := int n\<rparr>) \<and>
        insert_rel (mainposition hs t) key i n (t_node t) ns'"
    proof (cases "mainposition hs t (i_key (t_node t ! ?mp)) = ?mp")
      case True
      from tab.insert_chain [OF nok N f False True _ n(2)] n(1) N True show ?thesis
        unfolding nk newkey_at_def m by (auto simp: Let_def put_key_def upd_commute)
    next
      case guest: False
      from tab.insert_move [OF nok N f False guest _ n(2)] n(1) N guest show ?thesis
        unfolding nk newkey_at_def m by (auto simp: Let_def put_key_def upd_commute)
    qed
    then obtain i ns' where ins: "newkey fuel hs t key = Inr (SNode i, t\<lparr>t_node := ns', lastfree := int n\<rparr>)"
      "insert_rel (mainposition hs t) key i n (t_node t) ns'" by blast
    have l: "j = n" if "j < length (t_node t)" "int n \<le> int j" "i_key (t_node t ! j) = TNil" for j
      using n(4) [OF that(1)] that(2,3) by (cases "j = n") auto
    have "int n \<le> 2 ^ lsizenode t" using n(1) N by simp
    note p = set_post_insert [OF ok nd na f ins(2) this l]
    have "length (t_array (t\<lparr>t_node := ns', lastfree := int n\<rparr>)) = length (t_array t)" by simp
    then show ?thesis using p free_insert [OF nd ins(2), of "int n"] ins(1) by blast
  qed
qed

subsection \<open>luaH_set with room\<close>

lemma in_array_flags [simp]: "in_array (t\<lparr>flags := x\<rparr>) = in_array t"
  by (simp add: fun_eq_iff in_array_def sizearray_def)

lemma flags_simps [simp]:
  "free (t\<lparr>flags := x\<rparr>) = free t"
  "slot_is (t\<lparr>flags := x\<rparr>) = slot_is t" "tcontent (t\<lparr>flags := x\<rparr>) = tcontent t"
  by (simp_all add: free_def fun_eq_iff slot_is_def tcontent_def split: slot.split)

lemma set_post_found:
  "table_ok hs t \<Longrightarrow> slot_is t key s \<Longrightarrow> s \<noteq> SNil \<Longrightarrow> set_post hs t key s (t\<lparr>flags := x\<rparr>)"
  by (simp add: set_post_def)

lemma slot_nil_fresh:
  "slot_is t key SNil \<Longrightarrow> live_key key \<Longrightarrow> \<not> is_nan_value key \<Longrightarrow> fresh key (t_node t) \<and> \<not> in_array t key"
  by (simp add: slot_is_def fresh_def)

lemma slot_nil_in_array: "slot_is t key s \<Longrightarrow> in_array t key \<Longrightarrow> s \<noteq> SNil"
  by (auto simp: slot_is_def)

text \<open>What an insertion with room does: see \<^const>\<open>set_post\<close>; it keeps the array part and uses at
  most one free node.\<close>

definition sets_key :: "(u64 \<Rightarrow> u32) \<Rightarrow> Table \<Rightarrow> TValue \<Rightarrow> table_error + (slot \<times> Table) \<Rightarrow> bool" where
  "sets_key hs t key r \<longleftrightarrow> (\<exists>s t'. r = Inr (s, t') \<and> set_post hs t key s t' \<and>
     length (t_array t') = length (t_array t) \<and>
     free t \<le> free t' + (if in_array t key then 0 else 1))"

lemma sets_key_newkey:
  assumes "table_ok hs t" "slot_is t key SNil" "live_key key" "\<not> is_nan_value key" "0 < free t"
  shows "sets_key hs t key (newkey f hs t key)"
  using newkey_room [OF assms(1) _ _ assms(5), of key f] slot_nil_fresh [OF assms(2-4)]
  by (auto simp: sets_key_def)

lemma sets_key_flags: "sets_key hs (t\<lparr>flags := x\<rparr>) key r = sets_key hs t key r"
  by (simp add: sets_key_def set_post_def)

lemma set_room:
  assumes ok: "table_ok hs t" and k: "live_key key" "\<not> is_nan_value key"
    and room: "in_array t key \<or> 0 < free t"
  shows "sets_key hs t key (set_with (newkey f hs) hs t key)"
proof -
  obtain s where s: "luaH_get hs t key = Some s" "slot_is t key s"
    using luaH_get_spec [OF ok] k(1) no_dead_live by blast
  have nil: "key \<noteq> TNil" "\<not> (case key of TNumber n \<Rightarrow> luai_numisnan n | _ \<Rightarrow> False)"
    using k by (auto simp: is_nan_value_def luai_numisnan_def numeq_refl_iff split: TValue.splits)
  show ?thesis
  proof (cases "s = SNil")
    case False
    then show ?thesis
      using s set_post_found [OF ok s(2) False] nil by (simp add: set_with_def sets_key_def)
  next
    case True
    have "slot_is (t\<lparr>flags := 0\<rparr>) key SNil"
      using s(2) True by simp
    moreover have "0 < free t" using room slot_nil_in_array [OF s(2)] True by blast
    ultimately have "sets_key hs (t\<lparr>flags := 0\<rparr>) key (newkey f hs (t\<lparr>flags := 0\<rparr>) key)"
      using ok k by (intro sets_key_newkey) simp_all
    then show ?thesis using s True nil by (simp add: set_with_def sets_key_flags)
  qed
qed

lemma setnum_room:
  assumes ok: "table_ok hs t" and k: "- (2 ^ 31) \<le> k" "k < 2 ^ 31"
    and room: "0 < k \<and> k \<le> sizearray t \<or> 0 < free t"
  shows "sets_key hs t (TNumber (cast_num k)) (setnum_with (newkey f hs) t k)"
proof -
  let ?key = "TNumber (cast_num k)"
  obtain s where s: "luaH_getnum t k = Some s" "slot_is t ?key s"
    using luaH_getnum_spec [OF ok k] by blast
  have nn: "\<not> is_nan_value ?key" using not_nan_cast_num [of k] k by (simp add: is_nan_value_def)
  show ?thesis
  proof (cases "s = SNil")
    case False
    then show ?thesis
      using s set_post_found [OF ok s(2) False, of "flags t"] by (simp add: setnum_with_def sets_key_def)
  next
    case True
    then have "0 < free t"
      using room slot_nil_in_array [OF s(2)] arrayindex_num [OF k] by (auto simp: in_array_def)
    then show ?thesis
      using sets_key_newkey [OF ok _ _ nn] s True by (simp add: setnum_with_def)
  qed
qed

subsection \<open>Assignment through a slot\<close>

lemma holds_upd:
  assumes k: "keys_ok m ns" and i: "i < length ns" "live_key (i_key (ns ! i))"
  shows "holds (upd_node i (\<lambda>n. n\<lparr>i_val := v\<rparr>) ns) x w \<longleftrightarrow>
    w \<noteq> TNil \<and> (if luaO_rawequalObj (i_key (ns ! i)) x then w = v else holds ns x w)"
proof -
  let ?ns = "upd_node i (\<lambda>n. n\<lparr>i_val := v\<rparr>) ns"
  have nth: "?ns ! j = (if j = i then (ns ! i)\<lparr>i_val := v\<rparr> else ns ! j)" if "j < length ns" for j
    using that i(1) by (simp add: upd_node_def nth_list_update)
  have len: "length ?ns = length ns" by (simp add: upd_node_def)
  have h: "holds zs x w \<longleftrightarrow> w \<noteq> TNil \<and> (\<exists>j<length zs. luaO_rawequalObj (i_key (zs ! j)) x \<and> i_val (zs ! j) = w)" for zs
    by (auto simp: holds_def entries_nth)
  show ?thesis
  proof (cases "luaO_rawequalObj (i_key (ns ! i)) x")
    case True
    have "j = i" if "j < length ns" "luaO_rawequalObj (i_key (ns ! j)) x" for j
    proof -
      have "luaO_rawequalObj (i_key (ns ! i)) (i_key (ns ! j))"
        by (rule rawequal_trans [OF True]) (simp add: that(2) rawequal_sym [of x])
      then show ?thesis using keys_okD(5) [OF k i that(1)] by simp
    qed
    then have "holds ?ns x w \<longleftrightarrow> w \<noteq> TNil \<and> i_val (?ns ! i) = w"
      using True i(1) unfolding h len by (metis (lifting) Node.ext_inject Node.surjective Node.update_convs(1) nth)
    then show ?thesis using True by (auto simp: nth [OF i(1)])
  next
    case False
    then have "luaO_rawequalObj (i_key (?ns ! j)) x \<and> i_val (?ns ! j) = w \<longleftrightarrow>
        luaO_rawequalObj (i_key (ns ! j)) x \<and> i_val (ns ! j) = w" if "j < length ns" for j
      using nth [OF that] by (cases "j = i") simp_all
    then show ?thesis using False unfolding h len by (metis (no_types, lifting))
  qed
qed

lemma nodes_ok_upd_val:
  assumes "nodes_ok m ns" "i < length ns" "live_key (i_key (ns ! i))"
  shows "nodes_ok m (upd_node i (\<lambda>n. n\<lparr>i_val := v\<rparr>) ns)"
proof -
  let ?ns = "upd_node i (\<lambda>n. n\<lparr>i_val := v\<rparr>) ns"
  have nth: "?ns ! j = (if j = i then (ns ! i)\<lparr>i_val := v\<rparr> else ns ! j)" if "j < length ns" for j
    using that assms(2) by (simp add: upd_node_def nth_list_update)
  have len: "length ?ns = length ns" by (simp add: upd_node_def)
  have nx: "n_next (?ns ! j) = n_next (ns ! j)" and key: "i_key (?ns ! j) = i_key (ns ! j)" for j
    using assms(2) by (cases "j = i"; simp add: upd_node_def)+
  have R: "succ_rel ?ns = succ_rel ns" by (simp add: succ_rel_def len nx)
  have k: "keys_ok m ns" and l: "links_ok ns" using assms(1) by (simp_all add: nodes_ok_def)
  have "keys_ok m ?ns"
  proof (rule keys_okI, unfold len key R, goal_cases)
    case (5 j)
    then show ?case using keys_ok_dead [OF k] assms(3) by (cases "j = i") (simp_all add: nth)
  qed (use keys_okD [OF k] in blast)+
  moreover have "links_ok ?ns" using l unfolding links_ok_def R len key .
  ultimately show ?thesis by (simp add: nodes_ok_def)
qed

lemma slot_set_post:
  assumes ok: "table_ok hs t" and s: "slot_is t key s" "s \<noteq> SNil"
  shows "table_ok hs (slot_set s v t)" "length (t_array (slot_set s v t)) = length (t_array t)"
    "free (slot_set s v t) = free t"
    "tcontent (slot_set s v t) k w \<longleftrightarrow> (if luaO_rawequalObj key k then w = v else tcontent t k w)"
proof -
  let ?t = "slot_set s v t"
  have "table_ok hs ?t \<and> length (t_array ?t) = length (t_array t) \<and> free ?t = free t \<and>
    (tcontent ?t k w \<longleftrightarrow> (if luaO_rawequalObj key k then w = v else tcontent t k w))"
  proof (cases s)
    case (SArray i)
    then have i: "i < length (t_array t)" "arrayindex key = int i + 1" using s by (simp_all add: slot_is_def)
    have t: "?t = t\<lparr>t_array := (t_array t)[i := v]\<rparr>" by (simp add: slot_set_def SArray)
    have ia: "in_array ?t = in_array t" by (simp add: fun_eq_iff in_array_def sizearray_def t)
    have "mainposition hs ?t = mainposition hs t" by (rule mainposition_lsize) (simp add: t)
    then have "table_ok hs ?t" using ok unfolding table_ok_def ia by (simp add: t sizearray_def)
    moreover have "tcontent ?t k w \<longleftrightarrow> (if luaO_rawequalObj key k then w = v else tcontent t k w)"
    proof (cases "in_array t k")
      case True
      then have e: "luaO_rawequalObj key k \<longleftrightarrow> arrayindex k = int i + 1"
        using arrayindex_cong [of key k] arrayindex_inj [of key k] i(2) by (auto simp: in_array_def)
      show ?thesis
        using True e i(1) unfolding tcontent_def ia
        by (auto simp: t nth_list_update in_array_def sizearray_def)
    next
      case False
      then have "\<not> luaO_rawequalObj key k"
        using arrayindex_cong [of key k] i by (auto simp: in_array_def sizearray_def)
      then show ?thesis using False unfolding tcontent_def ia by (simp add: t)
    qed
    ultimately show ?thesis by (simp add: t free_def)
  next
    case (SNode i)
    then have i: "i < length (t_node t)" "luaO_rawequalObj (i_key (t_node t ! i)) key" "\<not> in_array t key"
      and live: "live_key (i_key (t_node t ! i))"
      using s live_key_rawequal by (auto simp: slot_is_def)
    let ?ns = "upd_node i (\<lambda>n. n\<lparr>i_val := v\<rparr>) (t_node t)"
    have t: "?t = t\<lparr>t_node := ?ns\<rparr>" by (simp add: slot_set_def SNode)
    then have nt: "t_node ?t = ?ns" and at: "t_array ?t = t_array t" by simp_all
    have ia: "in_array ?t = in_array t" by (simp add: fun_eq_iff in_array_def sizearray_def t)
    have m: "mainposition hs ?t = mainposition hs t" by (rule mainposition_lsize) (simp add: t)
    have key: "i_key (?ns ! j) = i_key (t_node t ! j)" for j
      using i(1) by (cases "j = i") (simp_all add: upd_node_def)
    have len: "length ?ns = length (t_node t)" by (simp add: upd_node_def)
    have nd: "\<not> t_isdummy t"
      using table_okD(5) [OF ok] i(1) live by (auto simp: dummynode_def)
    have "nodes_ok (mainposition hs t) ?ns"
      by (rule nodes_ok_upd_val [OF table_okD(4) [OF ok] i(1) live])
    then have "table_ok hs ?t" using ok nd unfolding table_ok_def ia m by (simp add: t sizearray_def len key)
    moreover have "tcontent ?t k w \<longleftrightarrow> (if luaO_rawequalObj key k then w = v else tcontent t k w)"
    proof -
      have e: "luaO_rawequalObj (i_key (t_node t ! i)) k \<longleftrightarrow> luaO_rawequalObj key k"
        using i(2) rawequal_trans rawequal_sym by metis
      have h: "holds ?ns k w' \<longleftrightarrow> w' \<noteq> TNil \<and> (if luaO_rawequalObj key k then w' = v else holds (t_node t) k w')" for w'
        using holds_upd [OF table_ok_keys [OF ok] i(1) live] e by simp
      have nn: "holds (t_node t) k w' \<Longrightarrow> w' \<noteq> TNil" for w' by (auto simp: holds_def entries_nth)
      have "luaO_rawequalObj key k \<Longrightarrow> \<not> in_array t k" using i(3) in_array_cong by blast
      then show ?thesis
        using nn unfolding tcontent_def ia nt at h by (cases "v = TNil") auto
    qed
    ultimately show ?thesis by (simp add: t free_def len key)
  qed (use s in simp)
  then show "table_ok hs ?t" "length (t_array ?t) = length (t_array t)" "free ?t = free t"
    "tcontent ?t k w \<longleftrightarrow> (if luaO_rawequalObj key k then w = v else tcontent t k w)" by simp_all
qed

text \<open>An insertion followed by an assignment.\<close>

lemma sets_key_store:
  assumes "sets_key hs t key r"
  shows "\<exists>t'. store r v = Inr t' \<and> table_ok hs t' \<and> length (t_array t') = length (t_array t) \<and>
    free t \<le> free t' + (if in_array t key then 0 else 1) \<and>
    (\<forall>k w. tcontent t' k w \<longleftrightarrow> (if luaO_rawequalObj key k then w = v else tcontent t k w))"
proof -
  obtain s t' where r: "r = Inr (s, t')" "set_post hs t key s t'" "length (t_array t') = length (t_array t)"
    "free t \<le> free t' + (if in_array t key then 0 else 1)"
    using assms by (auto simp: sets_key_def)
  then have p: "table_ok hs t'" "slot_is t' key s" "s \<noteq> SNil" "\<And>k v. tcontent t' k v = tcontent t k v"
    by (simp_all add: set_post_def)
  show ?thesis
    using slot_set_post [OF p(1-3)] r p(4) by (intro exI [of _ "slot_set s v t'"]) (simp add: store_def)
qed

end
