(* ===== verification/Table_Rehash.thy ===== *)
theory Table_Rehash
  imports Table_Insert
begin

text \<open>
  Growing a table: what \<^verbatim>\<open>rehash\<close> counts, the sizes it computes, and \<^verbatim>\<open>resize\<close>.  The main
  fact is that the new hash part always has room for what is re-inserted, so that the mutual
  recursion of \<^verbatim>\<open>luaH_set\<close>, \<^verbatim>\<open>newkey\<close>, \<^verbatim>\<open>rehash\<close> and \<^verbatim>\<open>resize\<close> never nests a second time.
\<close>

subsection \<open>Re-insertion\<close>

text \<open>The array part seen as nodes.\<close>

fun arr_nodes :: "TValue list \<Rightarrow> int \<Rightarrow> Node list" where
  "arr_nodes [] i = []"
| "arr_nodes (v # vs) i =
     \<lparr>i_val = v, i_key = TNumber (cast_num (i + 1)), n_next = None\<rparr> # arr_nodes vs (i + 1)"

text \<open>How many of a list of nodes have a value and do not belong in an array part of size \<open>n\<close>.\<close>

definition outside :: "int \<Rightarrow> Node \<Rightarrow> bool" where
  "outside n m \<longleftrightarrow> i_val m \<noteq> TNil \<and> \<not> (0 < arrayindex (i_key m) \<and> arrayindex (i_key m) \<le> n)"

definition spill :: "int \<Rightarrow> Node list \<Rightarrow> nat" where
  "spill n ns = length (filter (outside n) ns)"

lemma spill_Cons: "spill n (m # ns) = (if outside n m then 1 else 0) + spill n ns"
  by (simp add: spill_def)

lemma spill_append: "spill n (ms @ ns) = spill n ms + spill n ns"
  by (simp add: spill_def)

lemma spill_rev: "spill n (rev ns) = spill n ns"
  by (simp add: spill_def rev_filter [symmetric])

definition one_value :: "Node list \<Rightarrow> bool" where
  "one_value ns \<longleftrightarrow> (\<forall>k w w'. holds ns k w \<longrightarrow> holds ns k w' \<longrightarrow> w = w')"

lemma holds_Cons:
  "holds (n # ns) k w \<longleftrightarrow> i_val n \<noteq> TNil \<and> luaO_rawequalObj (i_key n) k \<and> w = i_val n \<or> holds ns k w"
  by (auto simp: holds_def entries_def)

lemma holds_Nil: "\<not> holds [] k w"
  by (simp add: holds_def entries_def)

lemma holds_rev: "holds (rev ns) k w = holds ns k w"
  by (simp add: holds_def entries_def)

lemma one_value_Cons: "one_value (n # ns) \<Longrightarrow> one_value ns"
  unfolding one_value_def by (meson holds_Cons)

text \<open>The outcome of re-inserting the nodes \<open>ns\<close>.\<close>

definition reinserted :: "(u64 \<Rightarrow> u32) \<Rightarrow> Node list \<Rightarrow> Table \<Rightarrow> table_error + Table \<Rightarrow> bool" where
  "reinserted hs ns t r \<longleftrightarrow> (\<exists>t'. r = Inr t' \<and> table_ok hs t' \<and> sizearray t' = sizearray t \<and>
     free t \<le> free t' + spill (sizearray t) ns \<and>
     (\<forall>k w. tcontent t' k w \<longleftrightarrow> (if \<exists>u. holds ns k u then holds ns k w else tcontent t k w)))"

lemma reinserted_skip:
  assumes "i_val n = TNil"
  shows "reinserted hs (n # ns) t r = reinserted hs ns t r"
proof -
  have "holds (n # ns) = holds ns" using assms by (simp add: fun_eq_iff holds_Cons)
  moreover have "spill m (n # ns) = spill m ns" for m using assms by (simp add: spill_Cons outside_def)
  ultimately show ?thesis by (simp only: reinserted_def)
qed

lemma reinserted_step:
  assumes v: "i_val n \<noteq> TNil" and s: "sets_key hs t (i_key n) r" and one: "one_value (n # ns)"
    and rest: "\<And>t1. store r (i_val n) = Inr t1 \<Longrightarrow> table_ok hs t1 \<Longrightarrow> sizearray t1 = sizearray t \<Longrightarrow>
      free t \<le> free t1 + (if in_array t (i_key n) then 0 else 1) \<Longrightarrow> reinserted hs ns t1 (rr t1)"
  shows "reinserted hs (n # ns) t (case store r (i_val n) of Inl e \<Rightarrow> Inl e | Inr t1 \<Rightarrow> rr t1)"
proof -
  obtain t1 where t1: "store r (i_val n) = Inr t1" "table_ok hs t1" "length (t_array t1) = length (t_array t)"
    "free t \<le> free t1 + (if in_array t (i_key n) then 0 else 1)"
    "\<And>k w. tcontent t1 k w \<longleftrightarrow> (if luaO_rawequalObj (i_key n) k then w = i_val n else tcontent t k w)"
    using sets_key_store [OF s] by blast
  have a: "sizearray t1 = sizearray t" using t1(3) by (simp add: sizearray_def)
  obtain t' where t': "rr t1 = Inr t'" "table_ok hs t'" "sizearray t' = sizearray t"
    "free t1 \<le> free t' + spill (sizearray t) ns"
    "\<And>k w. tcontent t' k w \<longleftrightarrow> (if \<exists>u. holds ns k u then holds ns k w else tcontent t1 k w)"
    using rest [OF t1(1,2) a t1(4)] by (auto simp: reinserted_def a)
  have "tcontent t' k w \<longleftrightarrow> (if \<exists>u. holds (n # ns) k u then holds (n # ns) k w else tcontent t k w)" for k w
    using one [unfolded one_value_def, rule_format, of k] v
    unfolding t'(5) t1(5) holds_Cons by auto
  moreover have "free t \<le> free t' + spill (sizearray t) (n # ns)"
    using t1(4) t'(4) v by (auto simp: spill_Cons outside_def in_array_def split: if_splits)
  ultimately show ?thesis using t1(1) t'(1-3) by (simp add: reinserted_def)
qed

lemma reinsert_nodes_ok:
  assumes "table_ok hs t" "spill (sizearray t) ns \<le> free t" "one_value ns"
    and "\<And>n. n \<in> set ns \<Longrightarrow> i_val n \<noteq> TNil \<Longrightarrow> live_key (i_key n) \<and> \<not> is_nan_value (i_key n)"
  shows "reinserted hs ns t (reinsert_nodes (newkey f hs) hs ns t)"
  using assms
proof (induction ns arbitrary: t)
  case Nil
  then show ?case by (simp add: reinserted_def holds_Nil spill_def)
next
  case (Cons n ns)
  show ?case
  proof (cases "i_val n = TNil")
    case True
    then show ?thesis
      using Cons.IH [OF Cons.prems(1) _ one_value_Cons [OF Cons.prems(3)]] Cons.prems
      by (simp add: spill_Cons outside_def reinserted_skip)
  next
    case False
    have s: "sets_key hs t (i_key n) (set_with (newkey f hs) hs t (i_key n))"
      using Cons.prems(2,4) False
      by (intro set_room [OF Cons.prems(1)]) (auto simp: spill_Cons outside_def in_array_def split: if_splits)
    have "reinserted hs (n # ns) t (case store (set_with (newkey f hs) hs t (i_key n)) (i_val n) of
        Inl e \<Rightarrow> Inl e | Inr t1 \<Rightarrow> reinsert_nodes (newkey f hs) hs ns t1)"
    proof (rule reinserted_step [OF False s Cons.prems(3)])
      fix t1 assume t1: "table_ok hs t1" "sizearray t1 = sizearray t"
        "free t \<le> free t1 + (if in_array t (i_key n) then 0 else 1)"
      show "reinserted hs ns t1 (reinsert_nodes (newkey f hs) hs ns t1)"
        using t1 Cons.prems False
        by (intro Cons.IH one_value_Cons [OF Cons.prems(3)])
          (auto simp: spill_Cons outside_def in_array_def split: if_splits)
    qed
    then show ?thesis using False by simp
  qed
qed

lemma reinsert_array_ok:
  assumes "table_ok hs t" "spill (sizearray t) (arr_nodes vs i) \<le> free t" "one_value (arr_nodes vs i)"
    and "0 \<le> i" "i + int (length vs) < 2 ^ 31"
  shows "reinserted hs (arr_nodes vs i) t (reinsert_array (newkey f hs) vs i t)"
  using assms
proof (induction vs arbitrary: t i)
  case Nil
  then show ?case by (simp add: reinserted_def holds_Nil spill_def)
next
  case (Cons v vs)
  let ?n = "\<lparr>i_val = v, i_key = TNumber (cast_num (i + 1)), n_next = None\<rparr>"
  have ai: "arrayindex (TNumber (cast_num (i + 1))) = i + 1"
    using Cons.prems(4,5) by (intro arrayindex_num) auto
  have one: "one_value (?n # arr_nodes vs (i + 1))" using Cons.prems(3) by simp
  show ?case
  proof (cases "v = TNil")
    case True
    then have "reinserted hs (?n # arr_nodes vs (i + 1)) t (reinsert_array (newkey f hs) vs (i + 1) t)"
      using Cons.prems True Cons.IH [OF Cons.prems(1) _ one_value_Cons [OF one]]
      by (subst reinserted_skip) (simp_all add: spill_Cons outside_def)
    then show ?thesis using True by simp
  next
    case False
    have s: "sets_key hs t (i_key ?n) (setnum_with (newkey f hs) t (i + 1))"
      using setnum_room [OF Cons.prems(1), of "i + 1" f] Cons.prems(2,4,5) False ai
      by (auto simp: spill_Cons outside_def split: if_splits)
    have "reinserted hs (?n # arr_nodes vs (i + 1)) t
       (case store (setnum_with (newkey f hs) t (i + 1)) (i_val ?n) of
          Inl e \<Rightarrow> Inl e | Inr t1 \<Rightarrow> reinsert_array (newkey f hs) vs (i + 1) t1)"
    proof (rule reinserted_step [OF _ s one])
      fix t1 assume t1: "table_ok hs t1" "sizearray t1 = sizearray t"
        "free t \<le> free t1 + (if in_array t (i_key ?n) then 0 else 1)"
      show "reinserted hs (arr_nodes vs (i + 1)) t1 (reinsert_array (newkey f hs) vs (i + 1) t1)"
        using t1 Cons.prems False
        by (intro Cons.IH one_value_Cons [OF one])
          (auto simp: spill_Cons outside_def in_array_def split: if_splits)
    qed (use False in simp)
    then show ?thesis using False by simp
  qed
qed

lemma holds_arr_nodes:
  assumes "0 \<le> i" "i + int (length vs) < 2 ^ 31"
  shows "holds (arr_nodes vs i) k w \<longleftrightarrow>
    w \<noteq> TNil \<and> i < arrayindex k \<and> arrayindex k \<le> i + int (length vs) \<and> vs ! nat (arrayindex k - i - 1) = w"
  using assms
proof (induction vs arbitrary: i)
  case Nil
  then show ?case by (simp add: holds_Nil)
next
  case (Cons v vs)
  have ai: "arrayindex (TNumber (cast_num (i + 1))) = i + 1"
    using Cons.prems by (intro arrayindex_num) auto
  have e: "luaO_rawequalObj (TNumber (cast_num (i + 1))) k \<longleftrightarrow> arrayindex k = i + 1"
    using arrayindex_cong [of "TNumber (cast_num (i + 1))" k] arrayindex_inj [of "TNumber (cast_num (i + 1))" k]
      ai Cons.prems by auto
  have IH: "holds (arr_nodes vs (i + 1)) k w \<longleftrightarrow> w \<noteq> TNil \<and> i + 1 < arrayindex k \<and>
      arrayindex k \<le> i + 1 + int (length vs) \<and> vs ! nat (arrayindex k - (i + 1) - 1) = w"
    using Cons.prems by (intro Cons.IH) auto
  have "nat (arrayindex k - i - 1) = Suc (nat (arrayindex k - (i + 1) - 1))" if "i + 1 < arrayindex k"
    using that by simp
  then show ?case
    by (cases "arrayindex k = i + 1") (auto simp: holds_Cons e IH)
qed

lemma one_value_arr_nodes:
  "0 \<le> i \<Longrightarrow> i + int (length vs) < 2 ^ 31 \<Longrightarrow> one_value (arr_nodes vs i)"
  by (simp add: one_value_def holds_arr_nodes)

subsection \<open>Counting\<close>

text \<open>Nodes with a value whose key is an integer in the range of the array part, by slice.\<close>

definition int_key :: "Node \<Rightarrow> bool" where
  "int_key m \<longleftrightarrow> i_val m \<noteq> TNil \<and> 0 < arrayindex (i_key m) \<and> arrayindex (i_key m) \<le> MAXASIZE"

definition in_slice :: "nat \<Rightarrow> Node \<Rightarrow> bool" where
  "in_slice j m \<longleftrightarrow> int_key m \<and> ceillog2 (arrayindex (i_key m)) = int j"

definition slice :: "nat \<Rightarrow> Node list \<Rightarrow> int" where
  "slice j ns = int (length (filter (in_slice j) ns))"

definition used :: "Node list \<Rightarrow> int" where
  "used ns = int (length (filter (\<lambda>m. i_val m \<noteq> TNil) ns))"

text \<open>\<open>nums\<close> counts the slices of \<open>ns\<close>.\<close>

definition counts :: "int list \<Rightarrow> Node list \<Rightarrow> bool" where
  "counts nums ns \<longleftrightarrow> length nums = Suc MAXBITS \<and> (\<forall>j\<le>MAXBITS. nums ! j = slice j ns)"

lemma slice_append: "slice j (ms @ ns) = slice j ms + slice j ns"
  by (simp add: slice_def)

lemma used_append: "used (ms @ ns) = used ms + used ns"
  by (simp add: used_def)

lemma slice_rev: "slice j (rev ns) = slice j ns"
  by (simp add: slice_def rev_filter [symmetric])

lemma slice_index:
  assumes "0 < k" "k \<le> MAXASIZE"
  shows "0 \<le> ceillog2 k" "ceillog2 k \<le> int MAXBITS" "nat (ceillog2 k) < Suc MAXBITS"
proof -
  have k: "1 \<le> k" "k \<le> 2 ^ 31" using assms by (simp_all add: MAXASIZE_def MAXBITS_def)
  show "0 \<le> ceillog2 k" using ceillog2_bounds [OF k] by simp
  moreover show "ceillog2 k \<le> int MAXBITS"
    using ceillog2_le_iff [OF k, of MAXBITS] assms(2) by (simp add: MAXASIZE_def)
  ultimately show "nat (ceillog2 k) < Suc MAXBITS" by linarith
qed

lemma countint_counts:
  assumes "counts nums ns" "i_val m \<noteq> TNil" "countint (i_key m) nums = (c, nums')"
  shows "counts nums' (ns @ [m])" "c = (if int_key m then 1 else 0)"
proof -
  have "counts nums' (ns @ [m]) \<and> c = (if int_key m then 1 else 0)"
  proof (cases "int_key m")
    case True
    let ?k = "arrayindex (i_key m)"
    have k: "0 < ?k" "?k \<le> MAXASIZE" using True by (simp_all add: int_key_def)
    have "nums' = nums[nat (ceillog2 ?k) := nums ! nat (ceillog2 ?k) + 1]" "c = 1"
      using assms(3) k by (simp_all add: countint_def Let_def)
    then show ?thesis
      using True assms(1) slice_index [OF k]
      by (auto simp: counts_def nth_list_update slice_def in_slice_def)
  next
    case False
    then show ?thesis
      using assms by (auto simp: countint_def Let_def counts_def int_key_def slice_def in_slice_def)
  qed
  then show "counts nums' (ns @ [m])" "c = (if int_key m then 1 else 0)" by simp_all
qed

definition int_keys :: "Node list \<Rightarrow> int" where
  "int_keys ns = int (length (filter int_key ns))"

lemma numusehash_loop_counts:
  assumes "counts nums ds" "numusehash_loop ns nums ause totaluse = (tot, ause', nums')"
  shows "counts nums' (ds @ ns) \<and> tot = totaluse + used ns \<and> ause' = ause + int_keys ns"
  using assms
proof (induction ns arbitrary: ds nums ause totaluse)
  case Nil
  then show ?case by (simp add: used_def int_keys_def)
next
  case (Cons n ns)
  show ?case
  proof (cases "i_val n = TNil")
    case True
    then have "slice j (n # ns) = slice j ns" for j by (simp add: slice_def in_slice_def int_key_def)
    then have "counts nums' (ds @ n # ns) = counts nums' (ds @ ns)"
      by (simp add: counts_def slice_append)
    moreover have "used (n # ns) = used ns" "int_keys (n # ns) = int_keys ns"
      using True by (simp_all add: used_def int_keys_def int_key_def)
    ultimately show ?thesis using Cons True by simp
  next
    case False
    obtain c ms where c: "countint (i_key n) nums = (c, ms)" by (cases "countint (i_key n) nums")
    note cc = countint_counts [OF Cons.prems(1) False c]
    have "numusehash_loop ns ms (ause + c) (totaluse + 1) = (tot, ause', nums')"
      using Cons.prems(2) False c by simp
    from Cons.IH [OF cc(1) this] cc(2) False show ?thesis
      by (simp add: used_def int_keys_def)
  qed
qed

subsection \<open>The array part\<close>

lemma length_arr_nodes [simp]: "length (arr_nodes vs i) = length vs"
  by (induction vs arbitrary: i) simp_all

lemma nth_arr_nodes:
  "p < length vs \<Longrightarrow> arr_nodes vs i ! p =
     \<lparr>i_val = vs ! p, i_key = TNumber (cast_num (i + int p + 1)), n_next = None\<rparr>"
proof (induction vs arbitrary: i p)
  case (Cons v vs)
  then show ?case by (cases p) (simp_all add: add.commute add.left_commute)
qed simp

definition cells :: "TValue list \<Rightarrow> nat \<Rightarrow> nat \<Rightarrow> nat set" where
  "cells vs a b = {p. a \<le> p \<and> p \<le> b \<and> 0 < p \<and> p \<le> length vs \<and> vs ! (p - 1) \<noteq> TNil}"

lemma finite_cells [simp]: "finite (cells vs a b)"
  by (rule finite_subset [of _ "{..b}"]) (auto simp: cells_def)

lemma count_slice_cells:
  assumes "0 < i" "lim \<le> length vs"
  shows "count_slice vs i lim = int (card (cells vs i lim))"
proof -
  let ?ws = "take (lim + 1 - i) (drop (i - 1) vs)"
  have "bij_betw (\<lambda>q. q + i) {q. q < length ?ws \<and> ?ws ! q \<noteq> TNil} (cells vs i lim)"
  proof (rule bij_betw_imageI)
    show "(\<lambda>q. q + i) ` {q. q < length ?ws \<and> ?ws ! q \<noteq> TNil} = cells vs i lim"
    proof (intro equalityI subsetI)
      fix p assume "p \<in> cells vs i lim"
      then show "p \<in> (\<lambda>q. q + i) ` {q. q < length ?ws \<and> ?ws ! q \<noteq> TNil}"
        using assms by (intro image_eqI [of _ _ "p - i"]) (auto simp: cells_def)
    qed (use assms in \<open>auto simp: cells_def add.commute\<close>)
  qed simp
  then show ?thesis
    using bij_betw_same_card by (fastforce simp: count_slice_def length_filter_conv_card)
qed

lemma arr_slice_cells:
  assumes "int (length vs) \<le> MAXASIZE"
  shows "slice j (arr_nodes vs 0) = int (card {p \<in> cells vs 1 (length vs). ceillog2 (int p) = int j})"
    and "used (arr_nodes vs 0) = int (card (cells vs 1 (length vs)))"
    and "int_keys (arr_nodes vs 0) = used (arr_nodes vs 0)"
proof -
  have ai: "arrayindex (TNumber (cast_num (int q + 1))) = int q + 1" if "q < length vs" for q
    using that assms by (intro arrayindex_num) (auto simp: MAXASIZE_def MAXBITS_def)
  then have ai': "arrayindex (TNumber (cast_num (int p))) = int p" if "0 < p" "p \<le> length vs" for p
    using that by (cases p) (simp_all add: add.commute)
  have ai2: "arrayindex (TNumber (cast_num (1 + int q))) = 1 + int q" if "q < length vs" for q
    using ai [OF that] by (simp add: add.commute)
  have inj: "inj_on Suc A" for A by simp
  have "Suc ` {q. q < length vs \<and> in_slice j (arr_nodes vs 0 ! q)}
      = {p \<in> cells vs 1 (length vs). ceillog2 (int p) = int j}" (is "Suc ` ?A = ?B")
  proof (intro equalityI subsetI)
    fix p assume "p \<in> ?B"
    then show "p \<in> Suc ` ?A" using assms
      by (intro image_eqI [of _ _ "p - 1"]) (auto simp: cells_def nth_arr_nodes in_slice_def int_key_def ai')
  qed (use assms in \<open>auto simp: cells_def nth_arr_nodes in_slice_def int_key_def ai2 add.commute\<close>)
  then show "slice j (arr_nodes vs 0) = int (card ?B)"
    using card_image [OF inj, of ?A] by (simp add: slice_def length_filter_conv_card)
  have "Suc ` {q. q < length vs \<and> i_val (arr_nodes vs 0 ! q) \<noteq> TNil} = cells vs 1 (length vs)" (is "Suc ` ?C = ?D")
  proof (intro equalityI subsetI)
    fix p assume "p \<in> ?D"
    then show "p \<in> Suc ` ?C"
      by (intro image_eqI [of _ _ "p - 1"]) (auto simp: cells_def nth_arr_nodes)
  qed (auto simp: cells_def nth_arr_nodes)
  then show "used (arr_nodes vs 0) = int (card ?D)"
    using card_image [OF inj, of ?C] by (simp add: used_def length_filter_conv_card)
  have "{q. q < length vs \<and> int_key (arr_nodes vs 0 ! q)} = ?C"
    using assms by (auto simp: nth_arr_nodes int_key_def ai)
  then show "int_keys (arr_nodes vs 0) = used (arr_nodes vs 0)"
    by (simp add: int_keys_def used_def length_filter_conv_card)
qed

text \<open>The first array key of slice \<open>lg\<close>.\<close>

definition slice_start :: "TValue list \<Rightarrow> nat \<Rightarrow> nat" where
  "slice_start vs lg = (if lg = 0 then 1 else min (2 ^ (lg - 1)) (length vs) + 1)"

lemma ceillog2_slice:
  assumes "0 < p" "int p \<le> MAXASIZE"
  shows "ceillog2 (int p) = int lg \<longleftrightarrow> p \<le> 2 ^ lg \<and> (lg = 0 \<or> 2 ^ (lg - 1) < p)"
proof -
  have k: "1 \<le> int p" "int p \<le> 2 ^ 31" using assms by (simp_all add: MAXASIZE_def MAXBITS_def)
  have le: "ceillog2 (int p) \<le> int n \<longleftrightarrow> p \<le> 2 ^ n" for n
    using ceillog2_le_iff [OF k, of n] by (metis of_nat_le_iff of_nat_numeral of_nat_power)
  show ?thesis
  proof (cases lg)
    case 0
    then show ?thesis using le [of 0] ceillog2_bounds [OF k] by auto
  next
    case (Suc l)
    have "ceillog2 (int p) = int lg \<longleftrightarrow> ceillog2 (int p) \<le> int lg \<and> \<not> ceillog2 (int p) \<le> int l"
      using Suc by linarith
    then show ?thesis using Suc le [of lg] le [of l] by (simp add: not_le)
  qed
qed

lemma numusearray_loop_counts:
  assumes len: "int (length vs) \<le> MAXASIZE"
    and "i = slice_start vs lg" "lg \<le> Suc MAXBITS" "length nums = Suc MAXBITS"
    and "numusearray_loop vs lg i nums ause = (ause', nums')"
  shows "ause' = ause + int (card (cells vs i (length vs))) \<and> length nums' = Suc MAXBITS \<and>
    (\<forall>j\<le>MAXBITS. nums' ! j = nums ! j +
       (if lg \<le> j then int (card {p \<in> cells vs 1 (length vs). ceillog2 (int p) = int j}) else 0))"
  using assms(2-)
proof (induction "Suc MAXBITS - lg" arbitrary: lg i nums ause)
  case 0
  then have lg: "lg = Suc MAXBITS" by simp
  have "length vs \<le> 2 ^ MAXBITS" using len by (simp add: MAXASIZE_def)
  then have "cells vs i (length vs) = {}" using 0 lg by (auto simp: cells_def slice_start_def)
  moreover have "numusearray_loop vs lg i nums ause = (ause, nums)"
    using lg by (subst numusearray_loop.simps) simp
  ultimately show ?case using 0 lg by auto
next
  case (Suc d)
  then have lg: "lg \<le> MAXBITS" by simp
  let ?lim = "min (2 ^ lg) (length vs)"
  have i: "0 < i" using Suc.prems(1) by (simp add: slice_start_def)
  have sl: "{p \<in> cells vs 1 (length vs). ceillog2 (int p) = int lg} = cells vs i ?lim" (is "?S = _")
  proof (rule set_eqI)
    fix x
    show "x \<in> ?S \<longleftrightarrow> x \<in> cells vs i ?lim"
    proof (cases "0 < x \<and> x \<le> length vs")
      case True
      then have "int x \<le> MAXASIZE" using len by linarith
      from ceillog2_slice [OF _ this, of lg] True Suc.prems(1) show ?thesis
        by (auto simp: cells_def slice_start_def)
    qed (auto simp: cells_def)
  qed
  show ?case
  proof (cases "2 ^ lg > length vs \<and> i > ?lim")
    case True
    have "{p \<in> cells vs 1 (length vs). ceillog2 (int p) = int j} = {}" if "lg \<le> j" for j
    proof (rule ccontr)
      assume "\<not> ?thesis"
      then obtain p where p: "0 < p" "p \<le> length vs" "ceillog2 (int p) = int j"
        by (auto simp: cells_def Suc_le_eq)
      then have lg0: "lg \<noteq> 0" using True by (cases lg) auto
      then have "length vs \<le> 2 ^ (lg - 1)"
        using True Suc.prems(1) by (auto simp: slice_start_def split: if_splits)
      also have "\<dots> \<le> 2 ^ (j - 1)" using that by (intro power_increasing) auto
      finally have "p \<le> 2 ^ (j - 1)" using p(2) by linarith
      moreover have "int p \<le> MAXASIZE" using len p(2) by linarith
      ultimately show False using ceillog2_slice [OF p(1), of j] p(3) that lg0 by auto
    qed
    moreover have "cells vs i (length vs) = {}" using True by (auto simp: cells_def)
    ultimately show ?thesis
      using True Suc.prems lg by (auto simp: numusearray_loop.simps [of vs lg])
  next
    case False
    have nx: "max i (?lim + 1) = slice_start vs (Suc lg)"
    proof -
      have "slice_start vs lg \<le> ?lim + 1"
      proof (cases lg)
        case (Suc l)
        have "(2::nat) ^ l \<le> 2 ^ Suc l" by simp
        then show ?thesis by (auto simp: slice_start_def Suc min_def)
      qed (simp add: slice_start_def)
      then show ?thesis using Suc.prems(1) by (simp add: slice_start_def)
    qed
    let ?lc = "count_slice vs i ?lim"
    have lc: "?lc = int (card (cells vs i ?lim))" using i by (intro count_slice_cells) simp_all
    have "numusearray_loop vs (Suc lg) (max i (?lim + 1)) (nums[lg := nums ! lg + ?lc]) (ause + ?lc) = (ause', nums')"
      using Suc.prems(4) False lg by (simp add: numusearray_loop.simps [of vs lg] Let_def del: max_less_iff_conj)
    from Suc.hyps(1) [OF _ nx _ _ this] Suc.hyps(2) lg Suc.prems(3)
    have IH: "ause' = ause + ?lc + int (card (cells vs (max i (?lim + 1)) (length vs)))"
      "length nums' = Suc MAXBITS"
      "\<forall>j\<le>MAXBITS. nums' ! j = nums[lg := nums ! lg + ?lc] ! j +
       (if Suc lg \<le> j then int (card {p \<in> cells vs 1 (length vs). ceillog2 (int p) = int j}) else 0)"
      by auto
    have "cells vs i (length vs) = cells vs i ?lim \<union> cells vs (max i (?lim + 1)) (length vs)"
      by (auto simp: cells_def)
    moreover have "cells vs i ?lim \<inter> cells vs (max i (?lim + 1)) (length vs) = {}"
      by (auto simp: cells_def)
    ultimately have "card (cells vs i (length vs)) = card (cells vs i ?lim) + card (cells vs (max i (?lim + 1)) (length vs))"
      by (simp add: card_Un_disjoint)
    moreover have "nums' ! j = nums ! j +
       (if lg \<le> j then int (card {p \<in> cells vs 1 (length vs). ceillog2 (int p) = int j}) else 0)"
      if "j \<le> MAXBITS" for j
      using IH(3) that lc sl lg Suc.prems(3) by (cases "j = lg") (auto simp: nth_list_update)
    ultimately show ?thesis using IH lc by simp
  qed
qed

end
