(* ===== verification/Table_Set.thy ===== *)
theory Table_Set
  imports Table_Rehash
begin

text \<open>
  The sizes \<^verbatim>\<open>rehash\<close> chooses, \<^verbatim>\<open>resize\<close>, and the resulting theorems about \<^verbatim>\<open>luaH_set\<close>:
  it returns, and the table is a finite map.
\<close>

subsection \<open>Optimal sizes\<close>

definition prefix_sum :: "int list \<Rightarrow> nat \<Rightarrow> int" where
  "prefix_sum nums j = sum_list (take j nums)"

lemma prefix_sum_Suc: "j < length nums \<Longrightarrow> prefix_sum nums (Suc j) = prefix_sum nums j + nums ! j"
  by (simp add: prefix_sum_def take_Suc_conv_app_nth)

text \<open>A size and the number of keys it holds, as \<^verbatim>\<open>computesizes\<close> may return them.\<close>

definition size_choice :: "int list \<Rightarrow> nat \<Rightarrow> int \<times> int \<Rightarrow> bool" where
  "size_choice nums b r \<longleftrightarrow> r = (0, 0) \<or> (\<exists>j<b. r = (prefix_sum nums (Suc j), 2 ^ j) \<and>
     2 ^ j div 2 < prefix_sum nums (Suc j))"

lemma size_choice_mono: "size_choice nums b r \<Longrightarrow> b \<le> c \<Longrightarrow> size_choice nums c r"
  by (auto simp: size_choice_def)

lemma computesizes_loop_choice:
  assumes nn: "\<And>j. j < length nums \<Longrightarrow> 0 \<le> nums ! j"
  shows "i \<le> length nums \<Longrightarrow> size_choice nums i (na, n) \<Longrightarrow>
    size_choice nums (length nums) (computesizes_loop (drop i nums) narray (2 ^ i) (prefix_sum nums i) na n)"
proof (induction "length nums - i" arbitrary: i na n)
  case 0
  then show ?case by simp
next
  case (Suc d)
  then have i: "i < length nums" by simp
  let ?a = "prefix_sum nums i" and ?a' = "prefix_sum nums (Suc i)"
  define r where "r = (if nums ! i > 0 \<and> ?a' > 2 ^ i div 2 then (?a', 2 ^ i) else (na, n))"
  have a': "?a' = (if nums ! i > 0 then ?a + nums ! i else ?a)"
    using nn [OF i] by (simp add: prefix_sum_Suc [OF i])
  have rc: "size_choice nums (Suc i) r"
    using Suc.prems(2) by (auto simp: r_def size_choice_def less_Suc_eq)
  have IH: "size_choice nums (length nums)
      (computesizes_loop (drop (Suc i) nums) narray (2 ^ Suc i) ?a' (fst r) (snd r))"
    using Suc.hyps(2) i rc by (intro Suc.hyps(1)) simp_all
  have d: "drop i nums = nums ! i # drop (Suc i) nums" by (rule Cons_nth_drop_Suc [OF i, symmetric])
  have "computesizes_loop (drop i nums) narray (2 ^ i) ?a na n =
      (if \<not> 2 ^ i div 2 < narray then (na, n)
       else if ?a' = narray then r
       else computesizes_loop (drop (Suc i) nums) narray (2 ^ Suc i) ?a' (fst r) (snd r))"
    unfolding d computesizes_loop.simps Let_def a' [symmetric]
    by (simp add: mult.commute r_def [symmetric] split: prod.split)
  then show ?case
    using size_choice_mono [OF Suc.prems(2), of "length nums"] size_choice_mono [OF rc, of "length nums"] i IH
    by simp
qed

lemma computesizes_choice:
  assumes "\<And>j. j < length nums \<Longrightarrow> 0 \<le> nums ! j"
  shows "size_choice nums (length nums) (computesizes nums narray)"
  using computesizes_loop_choice [OF assms, of 0 0 0 narray]
  by (simp add: computesizes_def prefix_sum_def size_choice_def)

subsection \<open>A fresh hash part\<close>

lemma replicate_dummy_ok:
  "nodes_ok m (replicate n dummynode)" "\<not> holds (replicate n dummynode) k v"
proof -
  have "succ_rel (replicate n dummynode) = {}" by (auto simp: succ_rel_def dummynode_def)
  then show "nodes_ok m (replicate n dummynode)"
    by (simp add: nodes_ok_def links_ok_def keys_ok_def dummynode_def acyclic_def)
  show "\<not> holds (replicate n dummynode) k v" by (auto simp: holds_def entries_def dummynode_def)
qed

lemma table_ok_empty:
  assumes "t_node t = replicate (2 ^ lsizenode t) dummynode" "lsizenode t \<le> MAXBITS" "sizearray t \<le> MAXASIZE"
    and "if t_isdummy t then lsizenode t = 0 \<and> lastfree t \<le> 0 else lastfree t = 2 ^ lsizenode t"
  shows "table_ok hs t" "tcontent t k w \<longleftrightarrow> w = (if in_array t k then t_array t ! nat (arrayindex k - 1) else TNil)"
    "free t = (if t_isdummy t then 0 else 2 ^ lsizenode t)"
proof -
  have "\<not> live_key (i_key dummynode)" "i_key dummynode = TNil" by (simp_all add: dummynode_def)
  moreover have "{i. i < n \<and> i_key (replicate n dummynode ! i) = TNil} = {..<n}" for n
    by (auto simp: dummynode_def)
  ultimately show "table_ok hs t" "free t = (if t_isdummy t then 0 else 2 ^ lsizenode t)"
    using assms unfolding table_ok_def free_def assms(1)
    by (auto simp: replicate_dummy_ok split: if_splits)
  show "tcontent t k w \<longleftrightarrow> w = (if in_array t k then t_array t ! nat (arrayindex k - 1) else TNil)"
    unfolding tcontent_def assms(1) by (simp add: replicate_dummy_ok)
qed

lemma setnodevector_cases:
  assumes "0 \<le> nh" "nh \<le> 2 ^ 31"
  obtains "setnodevector t nh = Inl Table_overflow"
  | t2 where "setnodevector t nh = Inr t2" "t_array t2 = t_array t"
      "t_node t2 = replicate (2 ^ lsizenode t2) dummynode" "lsizenode t2 \<le> MAXBITS"
      "if t_isdummy t2 then lsizenode t2 = 0 \<and> lastfree t2 \<le> 0 else lastfree t2 = 2 ^ lsizenode t2"
      "nh \<le> (if t_isdummy t2 then 0 else 2 ^ lsizenode t2)"
proof (cases "nh = 0")
  case True
  then show ?thesis
    using that(2) [of "t\<lparr>t_node := [dummynode], t_isdummy := True, lsizenode := 0, lastfree := 0\<rparr>"]
    by (simp add: setnodevector_def)
next
  case False
  then have b: "0 \<le> ceillog2 nh" "nh \<le> 2 ^ nat (ceillog2 nh)" using ceillog2_bounds [of nh] assms by auto
  show ?thesis
  proof (cases "ceillog2 nh > int MAXBITS")
    case True
    then show ?thesis using that(1) False by (simp add: setnodevector_def)
  next
    case small: False
    then show ?thesis
      using that(2) [of "t\<lparr>t_node := replicate (nat (twoto (ceillog2 nh))) dummynode, t_isdummy := False,
          lsizenode := nat (ceillog2 nh), lastfree := twoto (ceillog2 nh)\<rparr>"] False b
      by (simp add: setnodevector_def nat_power_eq Let_def)
  qed
qed

subsection \<open>resize\<close>

lemma one_value_nodes: "table_ok hs t \<Longrightarrow> one_value (t_node t)"
  unfolding one_value_def holds_def using entries_unique [OF table_ok_keys] by blast

lemma holds_not_in_array:
  "table_ok hs t \<Longrightarrow> holds (t_node t) k w \<Longrightarrow> \<not> in_array t k"
  using table_okD(9) in_array_cong entries_live [OF table_ok_keys]
  by (fastforce simp: holds_def entries_nth)

definition vanishing :: "Table \<Rightarrow> int \<Rightarrow> Node list" where
  "vanishing t na = (if na < sizearray t then arr_nodes (drop (nat na) (t_array t)) na else [])"

lemma sizearray_bound: "table_ok hs t \<Longrightarrow> sizearray t \<le> 2 ^ 26"
  using table_okD(3) by (simp add: MAXASIZE_def MAXBITS_def)

lemma holds_vanishing:
  assumes "table_ok hs t" "0 \<le> na"
  shows "holds (vanishing t na) k w \<longleftrightarrow>
    w \<noteq> TNil \<and> na < arrayindex k \<and> in_array t k \<and> t_array t ! nat (arrayindex k - 1) = w"
proof (cases "na < sizearray t")
  case True
  have d: "int (length (drop (nat na) (t_array t))) = sizearray t - na"
    using True assms(2) by (simp add: sizearray_def of_nat_diff)
  have "drop (nat na) (t_array t) ! nat (arrayindex k - na - 1) = t_array t ! nat (arrayindex k - 1)"
    if "na < arrayindex k" "arrayindex k \<le> sizearray t"
    using that assms(2) True by (subst nth_drop) (auto simp: sizearray_def nat_add_distrib [symmetric])
  then show ?thesis
    using True assms(2) sizearray_bound [OF assms(1)] d
    by (subst vanishing_def) (auto simp: holds_arr_nodes in_array_def)
next
  case False
  then show ?thesis by (auto simp: vanishing_def holds_Nil in_array_def)
qed

lemma node_key_ok:
  "table_ok hs t \<Longrightarrow> n \<in> set (t_node t) \<Longrightarrow> i_val n \<noteq> TNil \<Longrightarrow> live_key (i_key n) \<and> \<not> is_nan_value (i_key n)"
  using keys_ok_dead [OF table_ok_keys] keys_okD(4) [OF table_ok_keys] by (metis in_set_conv_nth)

lemma resize_ok:
  assumes ok: "table_ok hs t" and na: "0 \<le> na" "na \<le> MAXASIZE" and nh: "nh \<le> 2 ^ 31"
    and room: "int (spill na (vanishing t na)) + int (spill na (t_node t)) \<le> nh"
  shows "resize_with (newkey f hs) hs t na nh = Inl Table_overflow \<or>
    (\<exists>t'. resize_with (newkey f hs) hs t na nh = Inr t' \<and> table_ok hs t' \<and> sizearray t' = na \<and>
       nh \<le> int (free t') + int (spill na (vanishing t na)) + int (spill na (t_node t)) \<and>
       (\<forall>k w. tcontent t' k w = tcontent t k w))"
proof -
  define t1 where "t1 = (if na > sizearray t then setarrayvector t na else t)"
  have "0 \<le> nh" using room by linarith
  then show ?thesis using nh
  proof (cases rule: setnodevector_cases [of nh t1])
    case 1
    then show ?thesis by (simp add: resize_with_def t1_def)
  next
    case (2 t2)
    define t3 where "t3 = (if na < sizearray t then t2\<lparr>t_array := take (nat na) (t_array t2)\<rparr> else t2)"
    have a1: "t_array t1 = (if na > sizearray t then t_array t @ replicate (nat na - length (t_array t)) TNil else t_array t)"
      by (auto simp: t1_def setarrayvector_def sizearray_def)
    have a3: "t_array t3 = (if na < sizearray t then take (nat na) (t_array t)
        else t_array t @ replicate (nat na - length (t_array t)) TNil)"
      using na(1) 2(2) by (auto simp: t3_def a1 sizearray_def)
    have s3: "sizearray t3 = na"
      using na(1) by (auto simp: sizearray_def a3 min_def)
    have "t_node t3 = t_node t2" "lsizenode t3 = lsizenode t2" "t_isdummy t3 = t_isdummy t2" "lastfree t3 = lastfree t2"
      by (simp_all add: t3_def)
    then have t3: "t_node t3 = replicate (2 ^ lsizenode t3) dummynode" "lsizenode t3 \<le> MAXBITS" "sizearray t3 \<le> MAXASIZE"
        "if t_isdummy t3 then lsizenode t3 = 0 \<and> lastfree t3 \<le> 0 else lastfree t3 = 2 ^ lsizenode t3"
      and nh3: "nh \<le> (if t_isdummy t3 then 0 else 2 ^ lsizenode t3)"
      using 2 s3 na(2) by (simp_all split: if_splits)
    note e3 = table_ok_empty [OF t3]
    have f3: "nh \<le> int (free t3)" using nh3 e3(3) by (auto split: if_splits)
    let ?V = "vanishing t na"
    have V: "reinserted hs ?V t3 (if na < sizearray t
        then reinsert_array (newkey f hs) (drop (nat na) (t_array t)) na t3 else Inr t3)"
    proof (cases "na < sizearray t")
      case True
      have b: "na + int (length (drop (nat na) (t_array t))) < 2 ^ 31"
        using True na(1) sizearray_bound [OF ok] by (simp add: sizearray_def of_nat_diff)
      have "reinserted hs (arr_nodes (drop (nat na) (t_array t)) na) t3
          (reinsert_array (newkey f hs) (drop (nat na) (t_array t)) na t3)"
        using room f3 True s3 na(1) b
        by (intro reinsert_array_ok [OF e3(1)] one_value_arr_nodes) (simp_all add: vanishing_def)
      then show ?thesis using True by (simp add: vanishing_def)
    next
      case False
      then show ?thesis using e3(1) by (simp add: vanishing_def reinserted_def holds_Nil)
    qed
    then obtain t4 where t4: "(if na < sizearray t
        then reinsert_array (newkey f hs) (drop (nat na) (t_array t)) na t3 else Inr t3) = Inr t4"
      "table_ok hs t4" "sizearray t4 = na" "free t3 \<le> free t4 + spill na ?V"
      "\<And>k w. tcontent t4 k w \<longleftrightarrow> (if \<exists>u. holds ?V k u then holds ?V k w else tcontent t3 k w)"
      by (auto simp: reinserted_def s3)
    have hr: "holds (rev (t_node t)) = holds (t_node t)" by (simp add: fun_eq_iff holds_rev)
    have "spill na (rev (t_node t)) \<le> free t4"
      using room f3 t4(4) by (simp add: spill_rev)
    then have "reinserted hs (rev (t_node t)) t4 (reinsert_nodes (newkey f hs) hs (rev (t_node t)) t4)"
      using one_value_nodes [OF ok] t4(3) node_key_ok [OF ok]
      by (intro reinsert_nodes_ok [OF t4(2)]) (auto simp: one_value_def holds_rev)
    then obtain t5 where t5: "reinsert_nodes (newkey f hs) hs (rev (t_node t)) t4 = Inr t5"
      "table_ok hs t5" "sizearray t5 = na" "free t4 \<le> free t5 + spill na (t_node t)"
      "\<And>k w. tcontent t5 k w \<longleftrightarrow> (if \<exists>u. holds (t_node t) k u then holds (t_node t) k w else tcontent t4 k w)"
      unfolding reinserted_def t4(3) spill_rev hr by blast
    have r: "resize_with (newkey f hs) hs t na nh = Inr t5"
      using 2(1) t4(1) t5(1) by (simp add: resize_with_def t1_def [symmetric] t3_def split: if_splits)
    have "tcontent t5 k w = tcontent t k w" for k w
    proof (cases "in_array t k")
      case True
      then have nn: "\<not> holds (t_node t) k u" for u using holds_not_in_array [OF ok] by blast
      have "t_array t3 ! nat (arrayindex k - 1) = t_array t ! nat (arrayindex k - 1)" if "in_array t3 k"
        using that True s3 na(1) by (auto simp: a3 in_array_def sizearray_def nth_append)
      moreover have "in_array t3 k \<longleftrightarrow> \<not> na < arrayindex k" using True s3 by (auto simp: in_array_def)
      ultimately show ?thesis
        unfolding t5(5) t4(5) e3(2) holds_vanishing [OF ok na(1)] using True nn
        by (auto simp: tcontent_def)
    next
      case False
      have "t_array t3 ! nat (arrayindex k - 1) = TNil" if "in_array t3 k"
        using that False s3 na(1) by (auto simp: a3 in_array_def sizearray_def nth_append)
      then show ?thesis
        unfolding t5(5) t4(5) e3(2) holds_vanishing [OF ok na(1)] using False
        by (auto simp: tcontent_def)
    qed
    then show ?thesis using r t5(2-4) t4(4) f3 by simp
  qed
qed

subsection \<open>rehash\<close>

lemma filter_slices:
  "int (length (filter (\<lambda>m. int_key m \<and> ceillog2 (arrayindex (i_key m)) \<le> int j) ns)) = (\<Sum>i\<le>j. slice i ns)"
proof (induction ns)
  case Nil
  then show ?case by (simp add: slice_def)
next
  case (Cons m ns)
  have "(\<Sum>i\<le>j. slice i (m # ns)) = (\<Sum>i\<le>j. slice i [m]) + (\<Sum>i\<le>j. slice i ns)"
    using slice_append [of _ "[m]" ns] by (simp add: sum.distrib)
  moreover have "(\<Sum>i\<le>j. slice i [m]) =
      (if int_key m \<and> ceillog2 (arrayindex (i_key m)) \<le> int j then 1 else 0)"
  proof (cases "int_key m")
    case True
    then have c: "0 \<le> ceillog2 (arrayindex (i_key m))" using slice_index(1) by (simp add: int_key_def)
    have "slice i [m] = (if i = nat (ceillog2 (arrayindex (i_key m))) then 1 else 0)" for i
      using True c by (auto simp: slice_def in_slice_def)
    then show ?thesis using True c by (simp add: nat_le_iff)
  qed (simp add: slice_def in_slice_def)
  ultimately show ?case using Cons.IH by simp
qed

lemma prefix_counts:
  assumes c: "counts nums ns" and j: "j \<le> MAXBITS"
  shows "prefix_sum nums (Suc j) + int (spill (2 ^ j) ns) = used ns"
proof -
  have len: "length nums = Suc MAXBITS" using c by (simp add: counts_def)
  have "prefix_sum nums (Suc i) = (\<Sum>k\<le>i. slice k ns)" if "i \<le> j" for i
    using that
  proof (induction i)
    case 0
    then show ?case using c len by (simp add: prefix_sum_Suc) (simp add: prefix_sum_def counts_def)
  next
    case (Suc i)
    then show ?case using c len j by (simp add: prefix_sum_Suc [of "Suc i"] counts_def)
  qed
  then have "prefix_sum nums (Suc j) = (\<Sum>k\<le>j. slice k ns)" by simp
  also have "\<dots> = int (length (filter (\<lambda>m. int_key m \<and> ceillog2 (arrayindex (i_key m)) \<le> int j) ns))"
    by (rule filter_slices [symmetric])
  also have "(\<lambda>m. int_key m \<and> ceillog2 (arrayindex (i_key m)) \<le> int j) =
      (\<lambda>m. i_val m \<noteq> TNil \<and> \<not> outside (2 ^ j) m)"
  proof
    fix m
    have "(2 :: int) ^ j \<le> MAXASIZE" using j by (simp add: MAXASIZE_def)
    moreover have "ceillog2 k \<le> int j \<longleftrightarrow> k \<le> 2 ^ j" if "0 < k" "k \<le> MAXASIZE" for k
      using ceillog2_le_iff [of k j] that by (simp add: MAXASIZE_def MAXBITS_def)
    ultimately show "(int_key m \<and> ceillog2 (arrayindex (i_key m)) \<le> int j) = (i_val m \<noteq> TNil \<and> \<not> outside (2 ^ j) m)"
      unfolding int_key_def outside_def by force
  qed
  finally have p: "prefix_sum nums (Suc j) = int (length (filter (\<lambda>m. i_val m \<noteq> TNil \<and> \<not> outside (2 ^ j) m) ns))" .
  have "length (filter (\<lambda>m. i_val m \<noteq> TNil \<and> \<not> outside n m) ns) + spill n ns
      = length (filter (\<lambda>m. i_val m \<noteq> TNil) ns)" for n
    by (induction ns) (auto simp: spill_def outside_def)
  then show ?thesis unfolding p used_def by (metis of_nat_add)
qed

lemma choice_spill:
  assumes c: "counts nums ns" and "computesizes nums narray = (na, n)"
  shows "0 \<le> n" "n \<le> MAXASIZE" "used ns - na = int (spill n ns)"
proof -
  have len: "length nums = Suc MAXBITS" using c by (simp add: counts_def)
  have "0 \<le> nums ! j" if "j < length nums" for j
    using c that len by (auto simp: counts_def slice_def less_Suc_eq_le)
  from computesizes_choice [OF this, of narray] assms(2)
  have "size_choice nums (length nums) (na, n)" by simp
  then consider "na = 0" "n = 0" | j where "j \<le> MAXBITS" "na = prefix_sum nums (Suc j)" "n = 2 ^ j"
    using len by (auto simp: size_choice_def less_Suc_eq_le)
  then have "0 \<le> n \<and> n \<le> MAXASIZE \<and> used ns - na = int (spill n ns)"
  proof cases
    case 1
    have "outside 0 = (\<lambda>m. i_val m \<noteq> TNil)" by (auto simp: outside_def)
    then show ?thesis using 1 by (simp add: used_def spill_def MAXASIZE_def)
  next
    case 2
    then show ?thesis using prefix_counts [OF c 2(1)] by (simp add: MAXASIZE_def)
  qed
  then show "0 \<le> n" "n \<le> MAXASIZE" "used ns - na = int (spill n ns)" by simp_all
qed

lemma arr_nodes_append: "arr_nodes (xs @ ys) i = arr_nodes xs i @ arr_nodes ys (i + int (length xs))"
  by (induction xs arbitrary: i) (simp_all add: add.assoc add.commute add.left_commute)

lemma spill_arr_inside:
  assumes "i + int (length vs) \<le> n" "0 \<le> i" "n < 2 ^ 31"
  shows "spill n (arr_nodes vs i) = 0"
  using assms
proof (induction vs arbitrary: i)
  case (Cons v vs)
  have "arrayindex (TNumber (cast_num (i + 1))) = i + 1"
    using Cons.prems by (intro arrayindex_num) auto
  then show ?case using Cons by (simp add: spill_Cons outside_def)
qed (simp add: spill_def)

lemma spill_vanishing:
  assumes "table_ok hs t" "0 \<le> n" "n \<le> MAXASIZE"
  shows "spill n (arr_nodes (t_array t) 0) = spill n (vanishing t n)"
proof (cases "n < sizearray t")
  case True
  then have "nat n < length (t_array t)" using assms(2) by (simp add: sizearray_def)
  then have "arr_nodes (t_array t) 0 = arr_nodes (take (nat n) (t_array t)) 0 @ vanishing t n"
    using True assms(2) arr_nodes_append [of "take (nat n) (t_array t)" "drop (nat n) (t_array t)" 0]
    by (simp add: vanishing_def sizearray_def min_def)
  moreover have "spill n (arr_nodes (take (nat n) (t_array t)) 0) = 0"
    using assms(2,3) by (intro spill_arr_inside) (auto simp: MAXASIZE_def MAXBITS_def)
  ultimately show ?thesis by (simp add: spill_append)
next
  case False
  then show ?thesis
    using spill_arr_inside [of 0 "t_array t" n] assms(2,3)
    by (simp add: vanishing_def sizearray_def MAXASIZE_def MAXBITS_def spill_def)
qed

lemma rehash_ok:
  assumes ok: "table_ok hs t"
  shows "rehash_with (newkey f hs) hs t ek = Inl Table_overflow \<or>
    (\<exists>t'. rehash_with (newkey f hs) hs t ek = Inr t' \<and> table_ok hs t' \<and>
       (in_array t' ek \<or> 0 < free t') \<and> (\<forall>k w. tcontent t' k w = tcontent t k w))"
proof -
  let ?A = "arr_nodes (t_array t) 0" and ?e = "\<lparr>i_val = TBoolean 1, i_key = ek, n_next = None\<rparr>"
  let ?all = "?A @ rev (t_node t) @ [?e]"
  have len: "int (length (t_array t)) \<le> MAXASIZE" using table_okD(3) [OF ok] by (simp add: sizearray_def)
  obtain nasize nums1 where 1: "numusearray t (replicate (Suc MAXBITS) 0) = (nasize, nums1)"
    by (cases "numusearray t (replicate (Suc MAXBITS) 0)")
  have st: "(1 :: nat) = slice_start (t_array t) 0" by (simp add: slice_start_def)
  from numusearray_loop_counts [OF len st _ _ 1 [unfolded numusearray_def]] arr_slice_cells [OF len]
  have "length nums1 = Suc MAXBITS \<and> (\<forall>j\<le>MAXBITS. nums1 ! j = replicate (Suc MAXBITS) 0 ! j + slice j ?A)"
    and u1: "nasize = used ?A" by (auto simp del: replicate_Suc)
  moreover have "replicate (Suc MAXBITS) 0 ! j = (0 :: int)" if "j \<le> MAXBITS" for j
    by (rule nth_replicate) (use that in simp)
  ultimately have c1: "counts nums1 ?A" by (simp add: counts_def del: replicate_Suc)
  obtain hu au nums2 where 2: "numusehash t nums1 = (hu, au, nums2)" by (cases "numusehash t nums1") auto
  from numusehash_loop_counts [OF c1 2 [unfolded numusehash_def]]
  have c2: "counts nums2 (?A @ rev (t_node t))" and u2: "hu = used (t_node t)"
    by (auto simp: used_def rev_filter [symmetric])
  obtain c nums3 where 3: "countint ek nums2 = (c, nums3)" by (cases "countint ek nums2")
  from countint_counts(1) [OF c2, of ?e c nums3] 3 have c3: "counts nums3 ?all" by simp
  obtain na n where 4: "computesizes nums3 (nasize + au + c) = (na, n)"
    by (cases "computesizes nums3 (nasize + au + c)")
  note ch = choice_spill [OF c3 4]
  have u: "used ?all = nasize + hu + 1" using u1 u2 by (simp add: used_def rev_filter [symmetric])
  have r: "rehash_with (newkey f hs) hs t ek = resize_with (newkey f hs) hs t n (nasize + hu + 1 - na)"
    using 1 2 3 4 by (simp add: rehash_with_def)
  have sp: "spill n ?all = spill n (vanishing t n) + spill n (t_node t) + (if outside n ?e then 1 else 0)"
    using spill_vanishing [OF ok ch(1,2)] by (simp add: spill_append spill_rev) (simp add: spill_def)
  have nh: "nasize + hu + 1 - na = int (spill n ?all)" using ch(3) u by simp
  have "spill n ?all \<le> length ?all" unfolding spill_def by (rule length_filter_le)
  also have "length ?all \<le> 2 ^ 26 + 2 ^ 26 + 1"
  proof -
    have "length (t_node t) \<le> 2 ^ 26"
      using table_okD(1,2) [OF ok] power_increasing [of "lsizenode t" 26 "2 :: nat"] by (simp add: MAXBITS_def)
    moreover have "length (t_array t) \<le> 2 ^ 26" using len by (simp add: MAXASIZE_def MAXBITS_def)
    ultimately show ?thesis by simp
  qed
  finally have b: "nasize + hu + 1 - na \<le> 2 ^ 31" unfolding nh by simp
  have room: "int (spill n (vanishing t n)) + int (spill n (t_node t)) \<le> nasize + hu + 1 - na"
    unfolding nh sp by simp
  have "in_array t' ek \<or> 0 < free t'"
    if "sizearray t' = n" "nasize + hu + 1 - na \<le> int (free t') + int (spill n (vanishing t n)) + int (spill n (t_node t))" for t'
    using that unfolding nh sp by (auto simp: outside_def in_array_def split: if_splits)
  then show ?thesis
    using resize_ok [OF ok ch(1,2) b room, of f] unfolding r by blast
qed

subsection \<open>luaH_set\<close>

lemma newkey_total:
  assumes ok: "table_ok hs t" and f: "fresh key (t_node t)" "\<not> in_array t key"
  shows "newkey (Suc fuel) hs t key = Inl Table_overflow \<or>
    (\<exists>s t'. newkey (Suc fuel) hs t key = Inr (s, t') \<and> set_post hs t key s t')"
proof (cases "0 < free t")
  case True
  then show ?thesis using newkey_room [OF ok f] by blast
next
  case no_room: False
  let ?mp = "mainposition hs t key"
  have k: "live_key key" "\<not> is_nan_value key" using f(1) by (simp_all add: fresh_def)
  show ?thesis
  proof (cases "i_val (t_node t ! ?mp) = TNil \<and> \<not> t_isdummy t")
    case True
    let ?ns = "upd_node ?mp (\<lambda>n. n\<lparr>i_key := key\<rparr>) (t_node t)"
    have ins: "insert_rel (mainposition hs t) key ?mp ?mp (t_node t) ?ns"
      using True by (intro tab.insert_inplace [OF table_okD(4,1) [OF ok] f(1)]) simp
    have l: "j = ?mp" if "j < length (t_node t)" "lastfree t \<le> int j" "i_key (t_node t ! j) = TNil" for j
      using table_okD(8) [OF ok _ that(1,2)] that(3) True by simp
    have "newkey (Suc fuel) hs t key = Inr (SNode ?mp, t\<lparr>t_node := ?ns, lastfree := lastfree t\<rparr>)"
      using newkey_inplace [of t hs key "Suc fuel"] True by (simp add: put_key_def)
    then show ?thesis
      using set_post_insert [OF ok _ f(2,1) ins table_okD(7) [OF ok] l] True by blast
  next
    case False
    obtain l where g: "getfreepos t = (None, t\<lparr>lastfree := l\<rparr>)" "l \<le> 0"
      "\<not> t_isdummy t \<Longrightarrow> \<forall>i<length (t_node t). i_key (t_node t ! i) \<noteq> TNil"
    proof (cases "t_isdummy t")
      case True
      then show ?thesis
        using that [of "lastfree t - 1"] table_okD(6) [OF ok] by (simp add: getfreepos.simps [of t])
    next
      case nd: False
      have lf: "lastfree t \<le> int (length (t_node t))" using table_okD(1,7) [OF ok] by simp
      have "\<forall>i<length (t_node t). i_key (t_node t ! i) \<noteq> TNil"
        using no_room nd by (auto simp: free_def card_gt_0_iff)
      with getfreepos_spec [OF lf table_okD(8) [OF ok nd]] that show ?thesis by force
    qed
    let ?t = "t\<lparr>lastfree := l\<rparr>"
    have ia: "in_array ?t = in_array t" by (simp add: fun_eq_iff in_array_def sizearray_def)
    have "mainposition hs ?t = mainposition hs t" by (rule mainposition_lsize) simp
    then have ok': "table_ok hs ?t"
      using ok g(2,3) unfolding table_ok_def ia
      by (auto simp: sizearray_def intro: order_trans [OF _ zero_le_power])
    have same: "tcontent ?t k w = tcontent t k w" for k w by (rule tcontent_same) simp_all
    have nk: "newkey (Suc fuel) hs t key = (case rehash_with (newkey fuel hs) hs ?t key of
        Inl e \<Rightarrow> Inl e | Inr t' \<Rightarrow> set_with (newkey fuel hs) hs t' key)"
      using False g(1) by (simp add: Let_def)
    from rehash_ok [OF ok', of fuel key] consider
      "rehash_with (newkey fuel hs) hs ?t key = Inl Table_overflow"
      | t' where "rehash_with (newkey fuel hs) hs ?t key = Inr t'" "table_ok hs t'"
        "\<forall>k w. tcontent t' k w = tcontent ?t k w" "in_array t' key \<or> 0 < free t'"
      by blast
    then show ?thesis
    proof cases
      case 1
      then show ?thesis using nk by simp
    next
      case (2 t')
      from set_room [OF 2(2) k 2(4), of fuel] obtain s t'' where
        "set_with (newkey fuel hs) hs t' key = Inr (s, t'')" "set_post hs t' key s t''"
        by (auto simp: sets_key_def)
      then show ?thesis using nk 2(1,3) same by (simp add: set_post_def)
    qed
  qed
qed

lemma luaH_set_total:
  assumes ok: "table_ok hs t" and k: "live_key key" "\<not> is_nan_value key"
  shows "luaH_set (Suc fuel) hs t key = Inl Table_overflow \<or>
    (\<exists>s t'. luaH_set (Suc fuel) hs t key = Inr (s, t') \<and> set_post hs t key s t')"
proof -
  obtain s where s: "luaH_get hs t key = Some s" "slot_is t key s"
    using luaH_get_spec [OF ok] k(1) no_dead_live by blast
  have nil: "key \<noteq> TNil" "\<not> (case key of TNumber n \<Rightarrow> luai_numisnan n | _ \<Rightarrow> False)"
    using k by (auto simp: is_nan_value_def luai_numisnan_def numeq_refl_iff split: TValue.splits)
  show ?thesis
  proof (cases "s = SNil")
    case False
    then show ?thesis
      using s set_post_found [OF ok s(2) False] nil by (simp add: luaH_set_def set_with_def)
  next
    case True
    have f: "fresh key (t_node (t\<lparr>flags := 0\<rparr>))" "\<not> in_array (t\<lparr>flags := 0\<rparr>) key"
      using slot_nil_fresh [OF _ k] s(2) True by simp_all
    have "luaH_set (Suc fuel) hs t key = newkey (Suc fuel) hs (t\<lparr>flags := 0\<rparr>) key"
      using s True nil unfolding luaH_set_def set_with_def by (simp add: Let_def del: newkey.simps)
    then show ?thesis
      using newkey_total [OF _ f, of hs fuel] ok by (simp add: set_post_def)
  qed
qed

lemma luaH_new_ok:
  assumes "0 \<le> na" "na \<le> MAXASIZE" "0 \<le> nh" "nh \<le> 2 ^ 26"
  shows "\<exists>t. luaH_new na nh = Inr t \<and> table_ok hs t \<and> (\<forall>k w. tcontent t k w \<longleftrightarrow> w = TNil)"
proof -
  let ?t0 = "setarrayvector \<lparr>flags = - 1, lsizenode = 0, t_array = [], t_node = [dummynode],
     t_isdummy = True, lastfree = 0\<rparr> na"
  have "nh \<le> 2 ^ 31" using assms(4) by simp
  with assms(3) show ?thesis
  proof (cases rule: setnodevector_cases [of nh ?t0])
    case 1
    then have "nh \<noteq> 0" "ceillog2 nh > int MAXBITS" by (auto simp: setnodevector_def Let_def split: if_splits)
    then show ?thesis
      using ceillog2_le_iff [of nh 26] assms(3,4) by (simp add: MAXBITS_def)
  next
    case (2 t)
    have a: "t_array t = replicate (nat na) TNil" using 2(2) by (simp add: setarrayvector_def)
    then have s: "sizearray t \<le> MAXASIZE" using assms(1,2) by (simp add: sizearray_def)
    note e = table_ok_empty [OF 2(3,4) s 2(5)]
    have "tcontent t k w \<longleftrightarrow> w = TNil" for k w
      unfolding e(2) by (auto simp: a in_array_def sizearray_def)
    then show ?thesis using e(1) 2(1) by (auto simp: luaH_new_def)
  qed
qed

end
