(* ===== verification/Table_Map.thy ===== *)
theory Table_Map
  imports Table_Set
begin

text \<open>
  The table as its clients see it: the interface \<open>lua_map\<close>, its interpretation on the table
  functions, and the properties of \<^verbatim>\<open>luaH_set\<close>, \<^verbatim>\<open>luaH_new\<close>, \<^verbatim>\<open>luaH_resizearray\<close> and the
  collector's \<^verbatim>\<open>removeentry\<close>.
\<close>

subsection \<open>The map interface\<close>

text \<open>
  What a client of a table relies on: assigning keeps it well formed and changes the value of
  the assigned key (up to the provider's equality of keys) and no other.\<close>

locale lua_map =
  fixes inv :: "'s \<Rightarrow> bool" and key_ok :: "'k \<Rightarrow> bool" and eqk :: "'k \<Rightarrow> 'k \<Rightarrow> bool"
    and get :: "'s \<Rightarrow> 'k \<Rightarrow> 'v" and put :: "'s \<Rightarrow> 'k \<Rightarrow> 'v \<Rightarrow> 's option"
  assumes eq_sym: "eqk a b \<Longrightarrow> eqk b a"
    and eq_trans: "eqk a b \<Longrightarrow> eqk b c \<Longrightarrow> eqk a c"
    and eq_ok: "key_ok a \<Longrightarrow> eqk a a"
    and put_inv: "inv s \<Longrightarrow> key_ok k \<Longrightarrow> put s k v = Some s' \<Longrightarrow> inv s'"
    and get_put: "inv s \<Longrightarrow> key_ok k \<Longrightarrow> key_ok k' \<Longrightarrow> put s k v = Some s' \<Longrightarrow>
      get s' k' = (if eqk k k' then v else get s k')"
begin

text \<open>A sequence of assignments.\<close>

primrec puts :: "'s \<Rightarrow> ('k \<times> 'v) list \<Rightarrow> 's option" where
  "puts s [] = Some s"
| "puts s (kv # kvs) = (case put s (fst kv) (snd kv) of None \<Rightarrow> None | Some s' \<Rightarrow> puts s' kvs)"

text \<open>The last assignment to a key wins.\<close>

definition last_value :: "('k \<times> 'v) list \<Rightarrow> 'k \<Rightarrow> 'v \<Rightarrow> 'v" where
  "last_value kvs k d = foldl (\<lambda>v kv. if eqk (fst kv) k then snd kv else v) d kvs"

lemma puts_spec:
  "inv s \<Longrightarrow> \<forall>kv \<in> set kvs. key_ok (fst kv) \<Longrightarrow> puts s kvs = Some s' \<Longrightarrow>
     inv s' \<and> (\<forall>k. key_ok k \<longrightarrow> get s' k = last_value kvs k (get s k))"
proof (induction kvs arbitrary: s)
  case (Cons kv kvs)
  then obtain s1 where s1: "put s (fst kv) (snd kv) = Some s1" "puts s1 kvs = Some s'"
    by (auto split: option.splits)
  have "inv s1" using put_inv [OF Cons.prems(1) _ s1(1)] Cons.prems(2) by simp
  from Cons.IH [OF this _ s1(2)] Cons.prems get_put [OF Cons.prems(1) _ _ s1(1)] show ?case
    by (auto simp: last_value_def)
qed (simp add: last_value_def)

lemma put_idem:
  assumes "inv s" "key_ok k" "put s k v = Some s1" "put s1 k w = Some s2" "key_ok k'"
  shows "get s2 k' = (if eqk k k' then w else get s k')"
  using get_put [OF put_inv [OF assms(1,2,3)] assms(2,5,4)] get_put [OF assms(1,2,5,3)] by simp

lemma put_commute:
  assumes "inv s" "key_ok j" "key_ok k" "\<not> eqk j k" "key_ok k'"
    and "put s j v = Some s1" "put s1 k w = Some s2" "put s k w = Some s3" "put s3 j v = Some s4"
  shows "get s2 k' = get s4 k'"
proof -
  have "\<not> (eqk j k' \<and> eqk k k')" using assms(4) eq_trans eq_sym by blast
  then show ?thesis
    unfolding get_put [OF put_inv [OF assms(1,2,6)] assms(3,5,7)] get_put [OF assms(1,2,5,6)]
      get_put [OF put_inv [OF assms(1,3,8)] assms(2,5,9)] get_put [OF assms(1,3,5,8)]
    by simp
qed

end

text \<open>A key that may be assigned: not nil, not NaN (and never dead).\<close>

definition settable :: "TValue \<Rightarrow> bool" where
  "settable k \<longleftrightarrow> live_key k \<and> \<not> is_nan_value k"

definition tset :: "(u64 \<Rightarrow> u32) \<Rightarrow> Table \<Rightarrow> TValue \<Rightarrow> TValue \<Rightarrow> Table option" where
  "tset hs t k v = (case store (luaH_set 1 hs t k) v of Inl e \<Rightarrow> None | Inr t' \<Rightarrow> Some t')"

lemma set_then_get:
  assumes "table_ok hs t" "settable key" "luaH_set (Suc f) hs t key = Inr (s, t')"
  shows "table_ok hs (slot_set s v t')"
    "no_dead k \<Longrightarrow> tget hs (slot_set s v t') k = (if luaO_rawequalObj key k then v else tget hs t k)"
proof -
  have p: "set_post hs t key s t'"
    using luaH_set_total [OF assms(1), of key f] assms(2,3) by (auto simp: settable_def)
  then have p: "table_ok hs t'" "slot_is t' key s" "s \<noteq> SNil" "\<And>k v. tcontent t' k v = tcontent t k v"
    by (simp_all add: set_post_def)
  note q = slot_set_post [OF p(1-3), of v]
  show "table_ok hs (slot_set s v t')" by (rule q(1))
  assume k: "no_dead k"
  show "tget hs (slot_set s v t') k = (if luaO_rawequalObj key k then v else tget hs t k)"
    unfolding tget_iff [OF q(1) k] q(4) p(4) using tget_iff [OF assms(1) k, of "tget hs t k"] by simp
qed

interpretation tmap: lua_map "table_ok hs" settable luaO_rawequalObj "tget hs" "tset hs" for hs
proof
  fix a b c assume "luaO_rawequalObj a b" "luaO_rawequalObj b c"
  then show "luaO_rawequalObj a c" by (rule rawequal_trans)
next
  fix s k k' v s'
  assume a: "table_ok hs s" "settable k" "tset hs s k v = Some s'"
  then obtain sl t' where r: "luaH_set (Suc 0) hs s k = Inr (sl, t')" "s' = slot_set sl v t'"
    by (auto simp: tset_def store_def split: sum.splits)
  show "table_ok hs s'" using set_then_get(1) [OF a(1,2) r(1)] r(2) by simp
  assume "settable k'"
  then show "tget hs s' k' = (if luaO_rawequalObj k k' then v else tget hs s k')"
    using set_then_get(2) [OF a(1,2) r(1)] r(2) by (simp add: settable_def no_dead_live)
qed (auto simp: rawequal_sym settable_def)

subsection \<open>Properties\<close>

text \<open>
  C22: \<^verbatim>\<open>luaH_set\<close> returns: on a well-formed table and a key that is neither nil nor NaN it
  yields a slot or the error \<^verbatim>\<open>table overflow\<close>.  One nested rehash is always enough, because
  the hash part \<^verbatim>\<open>rehash\<close> chooses has room for all that is re-inserted.\<close>

theorem luaH_set_returns:
  assumes "table_ok hs t" "settable key"
  shows "luaH_set 1 hs t key = Inl Table_overflow \<or>
    (\<exists>s t'. luaH_set 1 hs t key = Inr (s, t') \<and> s \<noteq> SNil)"
  using luaH_set_total [OF assms(1), of key 0] assms(2) by (auto simp: settable_def set_post_def)

text \<open>
  C2: a table is a finite map: after an assignment through the slot \<^verbatim>\<open>luaH_set\<close> returns, the
  table is well formed, \<^verbatim>\<open>luaH_get\<close> finds the new value under every raw-equal key, and every
  other key has the value it had, whatever chains, moves, rehashes and array resizing took
  place.\<close>

theorem luaH_get_after_set:
  assumes "table_ok hs t" "settable key" "luaH_set (Suc f) hs t key = Inr (s, t')" "no_dead k"
  shows "table_ok hs (slot_set s v t') \<and>
    tget hs (slot_set s v t') k = (if luaO_rawequalObj key k then v else tget hs t k)"
  using set_then_get [OF assms(1-3)] assms(4) by blast

text \<open>
  C23: a program of assignments to a table leaves, under every key, the value of the last
  assignment to a raw-equal key, or what was there before.\<close>

theorem table_assignments:
  assumes "table_ok hs t" "\<forall>kv \<in> set kvs. settable (fst kv)" "tmap.puts hs t kvs = Some t'" "settable k"
  shows "tget hs t' k = tmap.last_value kvs k (tget hs t k)"
  using tmap.puts_spec [OF assms(1-3)] assms(4) by blast

text \<open>assigning under nil or NaN is an error, and the table keeps its contents.\<close>

theorem luaH_set_bad_key:
  "luaH_set f hs t TNil = Inl Table_index_is_nil \<and>
   (table_ok hs t \<longrightarrow> d_isnan n \<longrightarrow> luaH_set f hs t (TNumber n) = Inl Table_index_is_NaN)"
proof (intro conjI impI)
  show "luaH_set f hs t TNil = Inl Table_index_is_nil"
    by (simp add: luaH_set_def set_with_def luaH_get_def Let_def)
  assume ok: "table_ok hs t" and n: "d_isnan n"
  obtain s where s: "luaH_get hs t (TNumber n) = Some s" "slot_is t (TNumber n) s"
    using luaH_get_spec [OF ok] by (auto simp: no_dead_def)
  have ne: "\<not> luaO_rawequalObj x (TNumber n)" for x
    using n by (cases x) (auto simp: luai_numeq_def)
  then have "arrayindex (TNumber n) = -1"
    using n by (auto simp: arrayindex_def Let_def luai_numeq_def)
  then have "s = SNil" using s(2) ne by (cases s) (auto simp: slot_is_def)
  then show "luaH_set f hs t (TNumber n) = Inl Table_index_is_NaN"
    using s(1) n by (simp add: luaH_set_def set_with_def Let_def luai_numisnan_def luai_numeq_def)
qed

text \<open>
  \<^verbatim>\<open>luaH_resizearray\<close> moves entries between the parts and loses none: every key keeps its
  value.\<close>

theorem resizearray_keeps:
  assumes ok: "table_ok hs t" and na: "0 \<le> na" "na \<le> MAXASIZE" "sizearray t \<le> na"
    and r: "luaH_resizearray 1 hs t na = Inr t'"
  shows "table_ok hs t' \<and> sizearray t' = na \<and> (\<forall>k. no_dead k \<longrightarrow> tget hs t' k = tget hs t k)"
proof -
  let ?nh = "if t_isdummy t then 0 else sizenode t"
  have "?nh \<le> 2 ^ 31" using table_okD(2) [OF ok] power_increasing [of "lsizenode t" 26 "2 :: int"]
    by (simp add: sizenode_eq MAXBITS_def)
  moreover have "int (spill na (vanishing t na)) + int (spill na (t_node t)) \<le> ?nh"
  proof -
    have "spill na (t_node t) \<le> length (t_node t)" unfolding spill_def by (rule length_filter_le)
    moreover have "t_isdummy t \<Longrightarrow> spill na (t_node t) = 0"
      using table_okD(5) [OF ok] by (simp add: spill_def outside_def dummynode_def)
    ultimately show ?thesis
      using na(3) table_okD(1) [OF ok] by (simp add: vanishing_def spill_def sizenode_eq)
  qed
  ultimately have "table_ok hs t'" "sizearray t' = na" "\<forall>k w. tcontent t' k w = tcontent t k w"
    using resize_ok [OF ok na(1,2), of ?nh 1] r by (auto simp: luaH_resizearray_def resize_def)
  then show ?thesis using tget_iff [OF ok] tget_iff [of hs t'] by metis
qed

text \<open>a new table is well formed and empty.\<close>

theorem luaH_new_empty:
  assumes "0 \<le> na" "na \<le> MAXASIZE" "0 \<le> nh" "nh \<le> 2 ^ 26"
  shows "\<exists>t. luaH_new na nh = Inr t \<and> table_ok hs t \<and> (\<forall>k. no_dead k \<longrightarrow> tget hs t k = TNil)"
  using luaH_new_ok [OF assms, of hs] tget_iff by metis

subsection \<open>The collector\<close>

lemma removeentry_fields [simp]:
  "i_val (removeentry n) = i_val n" "n_next (removeentry n) = n_next n"
  by (simp_all add: removeentry_def split: TValue.split)

lemma removeentry_key:
  "i_key (removeentry n) = (if iscollectable (i_key n) then (case i_key n of TGC g p \<Rightarrow> TGC LUA_TDEADKEY p) else i_key n)"
  by (cases "i_key n") (simp_all add: removeentry_def)

lemma removeentry_live:
  "live_key (i_key (removeentry n)) \<Longrightarrow> i_key (removeentry n) = i_key n"
  by (cases "i_key n") (auto simp: removeentry_def)

lemma removeentry_nil [simp]: "i_key (removeentry n) = TNil \<longleftrightarrow> i_key n = TNil"
  by (cases "i_key n") (auto simp: removeentry_def)

lemma removeentry_ok:
  assumes ok: "nodes_ok m ns" and i: "i < length ns" "i_val (ns ! i) = TNil"
  shows "nodes_ok m (upd_node i removeentry ns) \<and> entries (upd_node i removeentry ns) = entries ns"
proof -
  let ?ns = "upd_node i removeentry ns"
  have nth: "?ns ! j = (if j = i then removeentry (ns ! i) else ns ! j)" if "j < length ns" for j
    using that i(1) by (simp add: upd_node_def nth_list_update)
  have len: "length ?ns = length ns" by (simp add: upd_node_def)
  have key: "live_key (i_key (?ns ! j)) \<Longrightarrow> i_key (?ns ! j) = i_key (ns ! j)" if "j < length ns" for j
    using removeentry_live nth [OF that] by (auto split: if_splits)
  have nil: "i_key (?ns ! j) = TNil \<longleftrightarrow> i_key (ns ! j) = TNil" for j
    using i(1) by (cases "j = i") (simp_all add: upd_node_def)
  have l: "links_ok ns" and k: "keys_ok m ns" using ok by (simp_all add: nodes_ok_def)
  have R: "succ_rel ?ns = succ_rel ns"
    unfolding succ_rel_def len using i(1) by (auto simp: nth split: if_splits)
  have "links_ok ?ns" using l unfolding links_ok_def R len nil .
  moreover have "keys_ok m ?ns"
  proof (rule keys_okI, unfold len R nil, goal_cases)
    case (1 j)
    then show ?case using keys_okD(1,4) [OF k, of j] key by metis
  next
    case (2 j)
    then show ?case using keys_okD(2) [OF k, of j] key by metis
  next
    case (3 j)
    have j: "i_key (?ns ! j) = i_key (ns ! j)" using key 3 by blast
    have mj: "m (i_key (ns ! j)) < length ns \<Longrightarrow>
        i_key (?ns ! m (i_key (ns ! j))) = i_key (ns ! m (i_key (ns ! j)))"
      using key 3(3) j by simp
    have "m (i_key (ns ! j)) < length ns"
    proof (cases "m (i_key (ns ! j)) = j")
      case False
      then obtain b where "(m (i_key (ns ! j)), b) \<in> succ_rel ns"
        using keys_okD(1) [OF k 3(1)] 3(2) j by (metis converse_rtranclE)
      then show ?thesis by (simp add: succ_rel_iff)
    qed (use 3(1) in simp)
    with mj show ?case using keys_okD(3) [OF k 3(1)] 3(2,3) j by simp
  next
    case (4 a b)
    have "live_key (i_key (?ns ! b))" using 4(3,4) live_key_rawequal by blast
    then show ?case using 4 keys_okD(5) [OF k, of a b] key by metis
  next
    case (5 j)
    then show ?case using keys_ok_dead [OF k, of j] i(2) by (cases "j = i") (auto simp: nth)
  qed
  moreover have "entries ?ns = entries ns"
    using i(2) by (intro equalityI entries_mono, unfold len) (metis nth removeentry_fields(1))+
  ultimately show ?thesis by (simp add: nodes_ok_def)
qed

text \<open>
  when the collector kills the key of an entry without a value, the table stays well
  formed and every key of the program keeps its value.\<close>

theorem removeentry_keeps:
  assumes ok: "table_ok hs t" and i: "i < length (t_node t)" "i_val (t_node t ! i) = TNil"
    and "no_dead k"
  shows "table_ok hs (t\<lparr>t_node := upd_node i removeentry (t_node t)\<rparr>) \<and>
    tget hs (t\<lparr>t_node := upd_node i removeentry (t_node t)\<rparr>) k = tget hs t k"
proof -
  let ?ns = "upd_node i removeentry (t_node t)" and ?t = "t\<lparr>t_node := upd_node i removeentry (t_node t)\<rparr>"
  have m: "mainposition hs ?t = mainposition hs t" by (rule mainposition_lsize) simp
  have a: "in_array ?t = in_array t" by (simp add: in_array_def fun_eq_iff sizearray_def)
  have len: "length ?ns = length (t_node t)" by (simp add: upd_node_def)
  have nil: "i_key (?ns ! j) = TNil \<longleftrightarrow> i_key (t_node t ! j) = TNil" for j
    using i(1) by (cases "j = i") (simp_all add: upd_node_def)
  have live: "live_key (i_key (?ns ! j)) \<Longrightarrow> i_key (?ns ! j) = i_key (t_node t ! j)" for j
    using removeentry_live i(1) by (cases "j = i") (simp_all add: upd_node_def)
  have d: "t_isdummy t \<Longrightarrow> ?ns = [dummynode]"
    using table_okD(5) [OF ok] i(1) by (simp add: upd_node_def dummynode_def removeentry_def)
  note r = removeentry_ok [OF table_okD(4) [OF ok] i]
  have ok': "table_ok hs ?t"
    using ok r d live unfolding table_ok_def a m by (simp add: len nil sizearray_def) metis
  have "tcontent ?t k w = tcontent t k w" for w by (rule tcontent_same) (use r in simp_all)
  then show ?thesis using ok' tget_iff [OF ok assms(4)] tget_iff [OF ok' assms(4)] by metis
qed

end
