(* ===== verification/Table_Runs.thy ===== *)
theory Table_Runs
  imports Table_Map
begin

text \<open>
  The properties of tables applied to concrete tables, built by \<^const>\<open>luaH_new\<close> and
  \<^const>\<open>luaH_set\<close> and evaluated by the simplifier.
\<close>

definition flat_hash :: "u64 \<Rightarrow> u32" where
  "flat_hash p = ucast p"

definition run_table :: Table where
  "run_table = projr (luaH_new 2 2)"

lemma run_table_new: "luaH_new 2 2 = Inr run_table"
  by code_simp

lemma run_table_ok: "table_ok hs run_table"
  using luaH_new_ok [of 2 2 hs] run_table_new by (auto simp: MAXASIZE_def MAXBITS_def)

lemma settable_demo: "settable (TBoolean b)" "settable (TGC LUA_TSTRING p)"
  by (simp_all add: settable_def is_nan_value_def)

text \<open>Two keys of one chain: the second assignment takes a free node.\<close>

definition set_of :: "table_error + (slot \<times> Table) \<Rightarrow> (slot \<times> Table)" where
  "set_of r = (case r of Inr x \<Rightarrow> x | Inl _ \<Rightarrow> (SNil, run_table))"

definition one_key :: Table where
  "one_key = (case set_of (luaH_set 1 flat_hash run_table (TBoolean 1)) of
     (s, t) \<Rightarrow> slot_set s (TBoolean 0) t)"

definition two_keys :: "slot \<times> Table" where
  "two_keys = set_of (luaH_set 1 flat_hash one_key (TGC LUA_TSTRING 3))"

lemma set_one: "luaH_set 1 flat_hash run_table (TBoolean 1) = Inr (SNode 1, run_table\<lparr>flags := 0, t_node := [dummynode, dummynode\<lparr>i_key := TBoolean 1\<rparr>]\<rparr>)"
  by code_simp

lemma set_two: "luaH_set (Suc 0) flat_hash one_key (TGC LUA_TSTRING 3) = Inr (fst two_keys, snd two_keys)"
  by code_simp

lemma one_key_ok: "table_ok flat_hash one_key"
  using set_then_get(1) [OF run_table_ok settable_demo(1), where f = 0] set_one
  by (auto simp: one_key_def set_of_def)

theorem luaH_set_returns_witness:
  "luaH_set 1 flat_hash one_key (TGC LUA_TSTRING 3) = Inl Table_overflow \<or>
   (\<exists>s t'. luaH_set 1 flat_hash one_key (TGC LUA_TSTRING 3) = Inr (s, t') \<and> s \<noteq> SNil)"
  by (rule luaH_set_returns [OF one_key_ok settable_demo(2)])

theorem luaH_get_after_set_witness:
  "table_ok flat_hash (slot_set (fst two_keys) TNil (snd two_keys)) \<and>
   tget flat_hash (slot_set (fst two_keys) TNil (snd two_keys)) (TBoolean 1) = TBoolean 0"
proof -
  have "tget flat_hash one_key (TBoolean 1) = TBoolean 0" by code_simp
  then show ?thesis
    using luaH_get_after_set [OF one_key_ok settable_demo(2) set_two, of "TBoolean 1" TNil]
    by (simp add: no_dead_def)
qed

definition demo_puts :: "(TValue \<times> TValue) list" where
  "demo_puts = [(TBoolean 1, TBoolean 0), (TGC LUA_TSTRING 3, TBoolean 1), (TBoolean 1, TNil),
     (TGC LUA_TSTRING 5, TBoolean 0)]"

definition after_puts :: "Table option" where
  "after_puts = foldl (\<lambda>r kv. Option.bind r (\<lambda>t. tset flat_hash t (fst kv) (snd kv)))
     (Some run_table) demo_puts"

lemma after_puts_Some: "after_puts \<noteq> None"
  by code_simp

lemma puts_foldl:
  "tmap.puts hs t kvs = foldl (\<lambda>r kv. Option.bind r (\<lambda>t. tset hs t (fst kv) (snd kv))) (Some t) kvs"
proof -
  have "foldl (\<lambda>r kv. Option.bind r (\<lambda>t. tset hs t (fst kv) (snd kv))) None kvs = None" for kvs
    by (induction kvs) simp_all
  then show ?thesis
    by (induction kvs arbitrary: t) (simp_all split: option.split)
qed

theorem table_assignments_witness:
  "tget flat_hash (the after_puts) (TGC LUA_TSTRING 3) = TBoolean 1"
proof -
  have "tmap.puts flat_hash run_table demo_puts = Some (the after_puts)"
    using after_puts_Some by (simp add: puts_foldl after_puts_def)
  moreover have "\<forall>kv \<in> set demo_puts. settable (fst kv)"
    by (simp add: demo_puts_def settable_demo)
  ultimately have "tget flat_hash (the after_puts) (TGC LUA_TSTRING 3) =
      tmap.last_value demo_puts (TGC LUA_TSTRING 3) (tget flat_hash run_table (TGC LUA_TSTRING 3))"
    by (intro table_assignments [OF run_table_ok _ _ settable_demo(2)])
  then show ?thesis by (simp add: tmap.last_value_def demo_puts_def)
qed

theorem luaH_set_bad_key_witness:
  "luaH_set 1 flat_hash one_key (TNumber (- 1)) = Inl Table_index_is_NaN"
proof -
  have "d_isnan (- 1)" by code_simp
  then show ?thesis using luaH_set_bad_key [of 1 flat_hash one_key "- 1"] one_key_ok by blast
qed

definition grown :: Table where
  "grown = projr (luaH_resizearray 1 flat_hash one_key 3)"

theorem resizearray_keeps_witness:
  "sizearray grown = 3 \<and> tget flat_hash grown (TBoolean 1) = TBoolean 0"
proof -
  have g: "luaH_resizearray 1 flat_hash one_key 3 = Inr grown" by code_simp
  have "sizearray one_key \<le> 3" "tget flat_hash one_key (TBoolean 1) = TBoolean 0" by code_simp+
  then show ?thesis
    using resizearray_keeps [OF one_key_ok _ _ _ g] by (simp add: MAXASIZE_def MAXBITS_def no_dead_def)
qed

theorem luaH_new_empty_witness:
  "\<exists>t. luaH_new 2 2 = Inr t \<and> table_ok flat_hash t \<and> (\<forall>k. no_dead k \<longrightarrow> tget flat_hash t k = TNil)"
  by (rule luaH_new_empty) (simp_all add: MAXASIZE_def MAXBITS_def)

definition dropped :: Table where
  "dropped = slot_set (fst two_keys) TNil (snd two_keys)"

lemma dropped_ok: "table_ok flat_hash dropped"
  using set_then_get(1) [OF one_key_ok settable_demo(2) set_two] by (simp add: dropped_def)

lemma dropped_key:
  "0 < length (t_node dropped)" "i_val (t_node dropped ! 0) = TNil"
  "i_key (t_node dropped ! 0) = TGC LUA_TSTRING 3" "tget flat_hash dropped (TBoolean 1) = TBoolean 0"
  by code_simp+

theorem removeentry_keeps_witness:
  "table_ok flat_hash (dropped\<lparr>t_node := upd_node 0 removeentry (t_node dropped)\<rparr>) \<and>
   tget flat_hash (dropped\<lparr>t_node := upd_node 0 removeentry (t_node dropped)\<rparr>) (TBoolean 1) = TBoolean 0"
  using removeentry_keeps [OF dropped_ok dropped_key(1,2), of "TBoolean 1"] dropped_key(4)
  by (simp add: no_dead_def)

end
