(* ===== verification/Opcodes.thy ===== *)
theory Opcodes
  imports Prelude
begin

text \<open>
  The instruction format of the Lua virtual machine: \<^verbatim>\<open>lopcodes.h\<close> and \<^verbatim>\<open>lopcodes.c\<close>.

  An instruction is a 32-bit word with an opcode in its low six bits and the arguments
  A, B, C (or Bx, sBx) above it.  The C macros are translated one by one; the laws that
  make them usable (a field reads back what was stored, truncated to its width; storing a
  field leaves disjoint fields alone) are proved once, in the locale \<open>bitfield\<close>, and
  interpreted for each field.
\<close>

subsection \<open>Sizes, positions and limits\<close>

type_synonym Instruction = "32 word"

datatype OpMode = iABC | iABx | iAsBx

definition SIZE_C :: nat where [lua_defs]: "SIZE_C = 9"
definition SIZE_B :: nat where [lua_defs]: "SIZE_B = 9"
definition SIZE_Bx :: nat where [lua_defs]: "SIZE_Bx = SIZE_C + SIZE_B"
definition SIZE_A :: nat where [lua_defs]: "SIZE_A = 8"
definition SIZE_OP :: nat where [lua_defs]: "SIZE_OP = 6"
definition POS_OP :: nat where [lua_defs]: "POS_OP = 0"
definition POS_A :: nat where [lua_defs]: "POS_A = POS_OP + SIZE_OP"
definition POS_C :: nat where [lua_defs]: "POS_C = POS_A + SIZE_A"
definition POS_B :: nat where [lua_defs]: "POS_B = POS_C + SIZE_C"
definition POS_Bx :: nat where [lua_defs]: "POS_Bx = POS_C"

definition MAXARG_Bx :: int where [lua_defs]: "MAXARG_Bx = 2 ^ SIZE_Bx - 1"
definition MAXARG_sBx :: int where [lua_defs]: "MAXARG_sBx = MAXARG_Bx div 2"
definition MAXARG_A :: int where [lua_defs]: "MAXARG_A = 2 ^ SIZE_A - 1"
definition MAXARG_B :: int where [lua_defs]: "MAXARG_B = 2 ^ SIZE_B - 1"
definition MAXARG_C :: int where [lua_defs]: "MAXARG_C = 2 ^ SIZE_C - 1"

definition MASK1 :: "nat \<Rightarrow> nat \<Rightarrow> Instruction" where
  "MASK1 n p = push_bit p (NOT (push_bit n (NOT 0)))"

definition MASK0 :: "nat \<Rightarrow> nat \<Rightarrow> Instruction" where
  "MASK0 n p = NOT (MASK1 n p)"

subsection \<open>Reading and writing the fields\<close>

definition GET_OPCODE :: "Instruction \<Rightarrow> int" where
  "GET_OPCODE i = uint (drop_bit POS_OP i AND MASK1 SIZE_OP 0)"

definition SET_OPCODE :: "Instruction \<Rightarrow> int \<Rightarrow> Instruction" where
  "SET_OPCODE i op =
     (i AND MASK0 SIZE_OP POS_OP) OR (push_bit POS_OP (word_of_int op) AND MASK1 SIZE_OP POS_OP)"

definition GETARG_A :: "Instruction \<Rightarrow> int" where
  "GETARG_A i = uint (drop_bit POS_A i AND MASK1 SIZE_A 0)"

definition SETARG_A :: "Instruction \<Rightarrow> int \<Rightarrow> Instruction" where
  "SETARG_A i u =
     (i AND MASK0 SIZE_A POS_A) OR (push_bit POS_A (word_of_int u) AND MASK1 SIZE_A POS_A)"

definition GETARG_B :: "Instruction \<Rightarrow> int" where
  "GETARG_B i = uint (drop_bit POS_B i AND MASK1 SIZE_B 0)"

definition SETARG_B :: "Instruction \<Rightarrow> int \<Rightarrow> Instruction" where
  "SETARG_B i b =
     (i AND MASK0 SIZE_B POS_B) OR (push_bit POS_B (word_of_int b) AND MASK1 SIZE_B POS_B)"

definition GETARG_C :: "Instruction \<Rightarrow> int" where
  "GETARG_C i = uint (drop_bit POS_C i AND MASK1 SIZE_C 0)"

definition SETARG_C :: "Instruction \<Rightarrow> int \<Rightarrow> Instruction" where
  "SETARG_C i b =
     (i AND MASK0 SIZE_C POS_C) OR (push_bit POS_C (word_of_int b) AND MASK1 SIZE_C POS_C)"

definition GETARG_Bx :: "Instruction \<Rightarrow> int" where
  "GETARG_Bx i = uint (drop_bit POS_Bx i AND MASK1 SIZE_Bx 0)"

definition SETARG_Bx :: "Instruction \<Rightarrow> int \<Rightarrow> Instruction" where
  "SETARG_Bx i b =
     (i AND MASK0 SIZE_Bx POS_Bx) OR (push_bit POS_Bx (word_of_int b) AND MASK1 SIZE_Bx POS_Bx)"

definition GETARG_sBx :: "Instruction \<Rightarrow> int" where
  "GETARG_sBx i = GETARG_Bx i - MAXARG_sBx"

definition SETARG_sBx :: "Instruction \<Rightarrow> int \<Rightarrow> Instruction" where
  "SETARG_sBx i b = SETARG_Bx i (b + MAXARG_sBx)"

definition CREATE_ABC :: "int \<Rightarrow> int \<Rightarrow> int \<Rightarrow> int \<Rightarrow> Instruction" where
  "CREATE_ABC op a b c =
     push_bit POS_OP (word_of_int op) OR push_bit POS_A (word_of_int a)
     OR push_bit POS_B (word_of_int b) OR push_bit POS_C (word_of_int c)"

definition CREATE_ABx :: "int \<Rightarrow> int \<Rightarrow> int \<Rightarrow> Instruction" where
  "CREATE_ABx op a bc =
     push_bit POS_OP (word_of_int op) OR push_bit POS_A (word_of_int a)
     OR push_bit POS_Bx (word_of_int bc)"

subsection \<open>RK operands\<close>

definition BITRK :: int where [lua_defs]: "BITRK = 2 ^ (SIZE_B - 1)"

definition ISK :: "int \<Rightarrow> bool" where
  "ISK x \<longleftrightarrow> x AND BITRK \<noteq> 0"

definition INDEXK :: "int \<Rightarrow> int" where
  "INDEXK r = r AND NOT BITRK"

definition MAXINDEXRK :: int where [lua_defs]: "MAXINDEXRK = BITRK - 1"

definition RKASK :: "int \<Rightarrow> int" where
  "RKASK x = x OR BITRK"

definition NO_REG :: int where [lua_defs]: "NO_REG = MAXARG_A"

subsection \<open>The opcodes and their properties\<close>

datatype OpCode =
    OP_MOVE | OP_LOADK | OP_LOADBOOL | OP_LOADNIL | OP_GETUPVAL | OP_GETGLOBAL
  | OP_GETTABLE | OP_SETGLOBAL | OP_SETUPVAL | OP_SETTABLE | OP_NEWTABLE | OP_SELF
  | OP_ADD | OP_SUB | OP_MUL | OP_DIV | OP_MOD | OP_POW
  | OP_UNM | OP_NOT | OP_LEN | OP_CONCAT | OP_JMP | OP_EQ
  | OP_LT | OP_LE | OP_TEST | OP_TESTSET | OP_CALL | OP_TAILCALL
  | OP_RETURN | OP_FORLOOP | OP_FORPREP | OP_TFORLOOP | OP_SETLIST | OP_CLOSE
  | OP_CLOSURE | OP_VARARG

definition all_opcodes :: "OpCode list" where
  "all_opcodes =
     [OP_MOVE, OP_LOADK, OP_LOADBOOL, OP_LOADNIL, OP_GETUPVAL, OP_GETGLOBAL,
      OP_GETTABLE, OP_SETGLOBAL, OP_SETUPVAL, OP_SETTABLE, OP_NEWTABLE, OP_SELF,
      OP_ADD, OP_SUB, OP_MUL, OP_DIV, OP_MOD, OP_POW,
      OP_UNM, OP_NOT, OP_LEN, OP_CONCAT, OP_JMP, OP_EQ,
      OP_LT, OP_LE, OP_TEST, OP_TESTSET, OP_CALL, OP_TAILCALL,
      OP_RETURN, OP_FORLOOP, OP_FORPREP, OP_TFORLOOP, OP_SETLIST, OP_CLOSE,
      OP_CLOSURE, OP_VARARG]"

definition NUM_OPCODES :: int where [lua_defs]: "NUM_OPCODES = 38"

text \<open>The cast to the enumeration: a six-bit field holds up to 64 values, 38 of them opcodes.\<close>

definition to_OpCode :: "int \<Rightarrow> OpCode option" where
  "to_OpCode n = at all_opcodes n"

fun of_OpCode :: "OpCode \<Rightarrow> int" where
  "of_OpCode OP_MOVE = 0"
| "of_OpCode OP_LOADK = 1"
| "of_OpCode OP_LOADBOOL = 2"
| "of_OpCode OP_LOADNIL = 3"
| "of_OpCode OP_GETUPVAL = 4"
| "of_OpCode OP_GETGLOBAL = 5"
| "of_OpCode OP_GETTABLE = 6"
| "of_OpCode OP_SETGLOBAL = 7"
| "of_OpCode OP_SETUPVAL = 8"
| "of_OpCode OP_SETTABLE = 9"
| "of_OpCode OP_NEWTABLE = 10"
| "of_OpCode OP_SELF = 11"
| "of_OpCode OP_ADD = 12"
| "of_OpCode OP_SUB = 13"
| "of_OpCode OP_MUL = 14"
| "of_OpCode OP_DIV = 15"
| "of_OpCode OP_MOD = 16"
| "of_OpCode OP_POW = 17"
| "of_OpCode OP_UNM = 18"
| "of_OpCode OP_NOT = 19"
| "of_OpCode OP_LEN = 20"
| "of_OpCode OP_CONCAT = 21"
| "of_OpCode OP_JMP = 22"
| "of_OpCode OP_EQ = 23"
| "of_OpCode OP_LT = 24"
| "of_OpCode OP_LE = 25"
| "of_OpCode OP_TEST = 26"
| "of_OpCode OP_TESTSET = 27"
| "of_OpCode OP_CALL = 28"
| "of_OpCode OP_TAILCALL = 29"
| "of_OpCode OP_RETURN = 30"
| "of_OpCode OP_FORLOOP = 31"
| "of_OpCode OP_FORPREP = 32"
| "of_OpCode OP_TFORLOOP = 33"
| "of_OpCode OP_SETLIST = 34"
| "of_OpCode OP_CLOSE = 35"
| "of_OpCode OP_CLOSURE = 36"
| "of_OpCode OP_VARARG = 37"

datatype OpArgMask = OpArgN | OpArgU | OpArgR | OpArgK

fun of_OpArgMask :: "OpArgMask \<Rightarrow> int" where
  "of_OpArgMask OpArgN = 0"
| "of_OpArgMask OpArgU = 1"
| "of_OpArgMask OpArgR = 2"
| "of_OpArgMask OpArgK = 3"

fun of_OpMode :: "OpMode \<Rightarrow> int" where
  "of_OpMode iABC = 0"
| "of_OpMode iABx = 1"
| "of_OpMode iAsBx = 2"

definition opmode :: "int \<Rightarrow> int \<Rightarrow> OpArgMask \<Rightarrow> OpArgMask \<Rightarrow> OpMode \<Rightarrow> u8" where
  "opmode t a b c m =
     word_of_int (push_bit 7 t OR push_bit 6 a OR push_bit 4 (of_OpArgMask b)
       OR push_bit 2 (of_OpArgMask c) OR of_OpMode m)"

definition luaP_opmodes :: "u8 list" where
  "luaP_opmodes =
     [opmode 0 1 OpArgR OpArgN iABC,
      opmode 0 1 OpArgK OpArgN iABx,
      opmode 0 1 OpArgU OpArgU iABC,
      opmode 0 1 OpArgR OpArgN iABC,
      opmode 0 1 OpArgU OpArgN iABC,
      opmode 0 1 OpArgK OpArgN iABx,
      opmode 0 1 OpArgR OpArgK iABC,
      opmode 0 0 OpArgK OpArgN iABx,
      opmode 0 0 OpArgU OpArgN iABC,
      opmode 0 0 OpArgK OpArgK iABC,
      opmode 0 1 OpArgU OpArgU iABC,
      opmode 0 1 OpArgR OpArgK iABC,
      opmode 0 1 OpArgK OpArgK iABC,
      opmode 0 1 OpArgK OpArgK iABC,
      opmode 0 1 OpArgK OpArgK iABC,
      opmode 0 1 OpArgK OpArgK iABC,
      opmode 0 1 OpArgK OpArgK iABC,
      opmode 0 1 OpArgK OpArgK iABC,
      opmode 0 1 OpArgR OpArgN iABC,
      opmode 0 1 OpArgR OpArgN iABC,
      opmode 0 1 OpArgR OpArgN iABC,
      opmode 0 1 OpArgR OpArgR iABC,
      opmode 0 0 OpArgR OpArgN iAsBx,
      opmode 1 0 OpArgK OpArgK iABC,
      opmode 1 0 OpArgK OpArgK iABC,
      opmode 1 0 OpArgK OpArgK iABC,
      opmode 1 1 OpArgR OpArgU iABC,
      opmode 1 1 OpArgR OpArgU iABC,
      opmode 0 1 OpArgU OpArgU iABC,
      opmode 0 1 OpArgU OpArgU iABC,
      opmode 0 0 OpArgU OpArgN iABC,
      opmode 0 1 OpArgR OpArgN iAsBx,
      opmode 0 1 OpArgR OpArgN iAsBx,
      opmode 1 0 OpArgN OpArgU iABC,
      opmode 0 0 OpArgU OpArgU iABC,
      opmode 0 0 OpArgN OpArgN iABC,
      opmode 0 1 OpArgU OpArgN iABx,
      opmode 0 1 OpArgU OpArgN iABC]"

definition luaP_opnames :: "string list" where
  "luaP_opnames =
     [''MOVE'', ''LOADK'', ''LOADBOOL'', ''LOADNIL'', ''GETUPVAL'', ''GETGLOBAL'', ''GETTABLE'',
      ''SETGLOBAL'', ''SETUPVAL'', ''SETTABLE'', ''NEWTABLE'', ''SELF'', ''ADD'', ''SUB'',
      ''MUL'', ''DIV'', ''MOD'', ''POW'', ''UNM'', ''NOT'', ''LEN'',
      ''CONCAT'', ''JMP'', ''EQ'', ''LT'', ''LE'', ''TEST'', ''TESTSET'',
      ''CALL'', ''TAILCALL'', ''RETURN'', ''FORLOOP'', ''FORPREP'', ''TFORLOOP'', ''SETLIST'',
      ''CLOSE'', ''CLOSURE'', ''VARARG'']"

text \<open>
  The accessors index the table with the opcode; an index beyond it is out of bounds
  (\<^const>\<open>None\<close>), which the bytecode checker excludes before it reads a mode.
\<close>

definition to_OpMode :: "int \<Rightarrow> OpMode option" where
  "to_OpMode n = at [iABC, iABx, iAsBx] n"

definition to_OpArgMask :: "int \<Rightarrow> OpArgMask option" where
  "to_OpArgMask n = at [OpArgN, OpArgU, OpArgR, OpArgK] n"

definition getOpMode :: "int \<Rightarrow> OpMode option" where
  "getOpMode m = Option.bind (at luaP_opmodes m) (\<lambda>w. to_OpMode (uint (w AND 3)))"

definition getBMode :: "int \<Rightarrow> OpArgMask option" where
  "getBMode m = Option.bind (at luaP_opmodes m) (\<lambda>w. to_OpArgMask (uint (drop_bit 4 w AND 3)))"

definition getCMode :: "int \<Rightarrow> OpArgMask option" where
  "getCMode m = Option.bind (at luaP_opmodes m) (\<lambda>w. to_OpArgMask (uint (drop_bit 2 w AND 3)))"

definition testAMode :: "int \<Rightarrow> bool option" where
  "testAMode m = map_option (\<lambda>w. w AND push_bit 6 1 \<noteq> 0) (at luaP_opmodes m)"

definition testTMode :: "int \<Rightarrow> bool option" where
  "testTMode m = map_option (\<lambda>w. w AND push_bit 7 1 \<noteq> 0) (at luaP_opmodes m)"

definition LFIELDS_PER_FLUSH :: int where [lua_defs]: "LFIELDS_PER_FLUSH = 50"

subsection \<open>Laws of bit fields\<close>

definition getfield :: "nat \<Rightarrow> nat \<Rightarrow> Instruction \<Rightarrow> int" where
  "getfield n p i = uint (drop_bit p i AND MASK1 n 0)"

definition setfield :: "nat \<Rightarrow> nat \<Rightarrow> Instruction \<Rightarrow> int \<Rightarrow> Instruction" where
  "setfield n p i u = (i AND MASK0 n p) OR (push_bit p (word_of_int u) AND MASK1 n p)"

lemma bit_MASK1 [bit_simps]: "bit (MASK1 n p) k \<longleftrightarrow> p \<le> k \<and> k < p + n \<and> k < 32"
  by (auto simp: MASK1_def bit_simps)

lemma bit_MASK0 [bit_simps]: "bit (MASK0 n p) k \<longleftrightarrow> k < 32 \<and> \<not> (p \<le> k \<and> k < p + n)"
  by (auto simp: MASK0_def bit_simps)

lemma bit_getfield [bit_simps]: "bit (getfield n p i) k \<longleftrightarrow> k < n \<and> bit i (p + k)"
  by (auto simp: getfield_def bit_simps dest: bit_imp_le_length)

lemma bit_setfield [bit_simps]:
  "bit (setfield n p i u) k \<longleftrightarrow>
     k < 32 \<and> (if p \<le> k \<and> k < p + n then bit u (k - p) else bit i k)"
  by (auto simp: setfield_def bit_simps)

lemma getfield_take_bit: "getfield n p i = take_bit n (drop_bit p (uint i))"
  by (auto simp: bit_eq_iff bit_simps dest: bit_imp_le_length)

lemma getfield_bounds: "0 \<le> getfield n p i \<and> getfield n p i < 2 ^ n"
  by (simp add: getfield_take_bit)

text \<open>A non-negative number below \<open>2 ^ n\<close> has no bit at or above \<open>n\<close>.\<close>

lemma bit_small_int: "0 \<le> (a::int) \<Longrightarrow> a < 2 ^ n \<Longrightarrow> bit a k \<Longrightarrow> k < n"
  using take_bit_int_eq_self_iff [of n a] bit_take_bit_iff [of n a k] by auto

locale bitfield =
  fixes n p :: nat
  assumes fits: "p + n \<le> 32"
begin

lemma get_set: "getfield n p (setfield n p i u) = u mod 2 ^ n"
  using fits unfolding take_bit_eq_mod [symmetric]
  by (auto simp: bit_eq_iff bit_simps)

lemma get_set_small: "0 \<le> u \<Longrightarrow> u < 2 ^ n \<Longrightarrow> getfield n p (setfield n p i u) = u"
  by (simp add: get_set)

lemma set_get: "setfield n p i (getfield n p i) = i"
  using fits by (auto simp: bit_eq_iff bit_simps dest: bit_imp_le_length)

lemma set_set: "setfield n p (setfield n p i u) v = setfield n p i v"
  by (auto simp: bit_eq_iff bit_simps)

lemma get_other:
  "q + m \<le> p \<or> p + n \<le> q \<Longrightarrow> getfield m q (setfield n p i u) = getfield m q i"
  by (auto simp: bit_eq_iff bit_simps dest: bit_imp_le_length)

end

interpretation fOP: bitfield SIZE_OP POS_OP by unfold_locales (simp add: lua_defs)
interpretation fA: bitfield SIZE_A POS_A by unfold_locales (simp add: lua_defs)
interpretation fB: bitfield SIZE_B POS_B by unfold_locales (simp add: lua_defs)
interpretation fC: bitfield SIZE_C POS_C by unfold_locales (simp add: lua_defs)
interpretation fBx: bitfield SIZE_Bx POS_Bx by unfold_locales (simp add: lua_defs)

text \<open>The macros are the accessors of the five fields.\<close>

lemma GET_fields [field_simps_lua]:
  "GET_OPCODE = getfield SIZE_OP POS_OP" "GETARG_A = getfield SIZE_A POS_A"
  "GETARG_B = getfield SIZE_B POS_B" "GETARG_C = getfield SIZE_C POS_C"
  "GETARG_Bx = getfield SIZE_Bx POS_Bx"
  by (simp_all add: fun_eq_iff getfield_def GET_OPCODE_def GETARG_A_def GETARG_B_def
      GETARG_C_def GETARG_Bx_def)

lemma SET_fields [field_simps_lua]:
  "SET_OPCODE = setfield SIZE_OP POS_OP" "SETARG_A = setfield SIZE_A POS_A"
  "SETARG_B = setfield SIZE_B POS_B" "SETARG_C = setfield SIZE_C POS_C"
  "SETARG_Bx = setfield SIZE_Bx POS_Bx"
  by (simp_all add: fun_eq_iff setfield_def SET_OPCODE_def SETARG_A_def SETARG_B_def
      SETARG_C_def SETARG_Bx_def)

lemma GET_bounds:
  "0 \<le> GET_OPCODE i" "GET_OPCODE i < 64" "0 \<le> GETARG_A i" "GETARG_A i \<le> MAXARG_A"
  "0 \<le> GETARG_B i" "GETARG_B i \<le> MAXARG_B" "0 \<le> GETARG_C i" "GETARG_C i \<le> MAXARG_C"
  "0 \<le> GETARG_Bx i" "GETARG_Bx i \<le> MAXARG_Bx"
  using getfield_bounds [of SIZE_OP POS_OP i] getfield_bounds [of SIZE_A POS_A i]
    getfield_bounds [of SIZE_B POS_B i] getfield_bounds [of SIZE_C POS_C i]
    getfield_bounds [of SIZE_Bx POS_Bx i]
  by (simp_all add: field_simps_lua lua_defs)

subsection \<open>Round trips\<close>

lemmas lua_size_defs = SIZE_C_def SIZE_B_def SIZE_Bx_def SIZE_A_def SIZE_OP_def
  POS_OP_def POS_A_def POS_C_def POS_B_def POS_Bx_def

lemma bit_CREATE_ABC [bit_simps]:
  "bit (CREATE_ABC op a b c) k \<longleftrightarrow>
     k < 32 \<and> (bit op k \<or> 6 \<le> k \<and> bit a (k - 6) \<or> 23 \<le> k \<and> bit b (k - 23) \<or> 14 \<le> k \<and> bit c (k - 14))"
  by (auto simp: CREATE_ABC_def bit_simps lua_size_defs)

lemma bit_CREATE_ABx [bit_simps]:
  "bit (CREATE_ABx op a bx) k \<longleftrightarrow>
     k < 32 \<and> (bit op k \<or> 6 \<le> k \<and> bit a (k - 6) \<or> 14 \<le> k \<and> bit bx (k - 14))"
  by (auto simp: CREATE_ABx_def bit_simps lua_size_defs)

lemma create_abc_fields:
  assumes "0 \<le> op" "op < 64" "0 \<le> a" "a \<le> MAXARG_A"
    and "0 \<le> b" "b \<le> MAXARG_B" "0 \<le> c" "c \<le> MAXARG_C"
  shows "GET_OPCODE (CREATE_ABC op a b c) = op \<and> GETARG_A (CREATE_ABC op a b c) = a \<and>
    GETARG_B (CREATE_ABC op a b c) = b \<and> GETARG_C (CREATE_ABC op a b c) = c"
proof -
  have small: "bit op k \<Longrightarrow> k < 6" "bit a k \<Longrightarrow> k < 8" "bit b k \<Longrightarrow> k < 9" "bit c k \<Longrightarrow> k < 9" for k
    using assms bit_small_int [of op 6] bit_small_int [of a 8] bit_small_int [of b 9]
      bit_small_int [of c 9] by (auto simp: lua_defs)
  show ?thesis
    unfolding field_simps_lua lua_size_defs
    by (auto simp: bit_eq_iff bit_simps dest: small)
qed

text \<open>
  an instruction built with \<open>CREATE_ABC\<close> from arguments that fit their fields
  decodes to the same opcode and arguments: no field overlaps another.\<close>

theorem create_abc_roundtrip:
  assumes "0 \<le> op" "op < 64" "0 \<le> a" "a \<le> MAXARG_A"
    and "0 \<le> b" "b \<le> MAXARG_B" "0 \<le> c" "c \<le> MAXARG_C"
  shows "GET_OPCODE (CREATE_ABC op a b c) = op \<and> GETARG_A (CREATE_ABC op a b c) = a \<and>
    GETARG_B (CREATE_ABC op a b c) = b \<and> GETARG_C (CREATE_ABC op a b c) = c"
  by (rule create_abc_fields [OF assms])

theorem create_abc_roundtrip_witness:
  "GET_OPCODE (CREATE_ABC 37 255 511 300) = 37 \<and> GETARG_A (CREATE_ABC 37 255 511 300) = 255 \<and>
   GETARG_B (CREATE_ABC 37 255 511 300) = 511 \<and> GETARG_C (CREATE_ABC 37 255 511 300) = 300"
  by (rule create_abc_roundtrip) (simp_all add: lua_defs)

lemma create_abx_roundtrip:
  assumes "0 \<le> op" "op < 64" "0 \<le> a" "a \<le> MAXARG_A" "0 \<le> bx" "bx \<le> MAXARG_Bx"
  shows "GET_OPCODE (CREATE_ABx op a bx) = op \<and> GETARG_A (CREATE_ABx op a bx) = a \<and>
    GETARG_Bx (CREATE_ABx op a bx) = bx"
proof -
  have small: "bit op k \<Longrightarrow> k < 6" "bit a k \<Longrightarrow> k < 8" "bit bx k \<Longrightarrow> k < 18" for k
    using assms bit_small_int [of op 6] bit_small_int [of a 8] bit_small_int [of bx 18]
    by (auto simp: lua_defs)
  show ?thesis
    unfolding field_simps_lua lua_size_defs
    by (auto simp: bit_eq_iff bit_simps dest: small)
qed

text \<open>
  a jump offset in the excess-K range survives being stored in the sBx field, and
  storing it leaves the opcode and the A argument of the instruction alone.\<close>

theorem setarg_sbx_roundtrip:
  assumes "- MAXARG_sBx \<le> d" "d \<le> MAXARG_sBx + 1"
  shows "GETARG_sBx (SETARG_sBx i d) = d \<and> GET_OPCODE (SETARG_sBx i d) = GET_OPCODE i \<and>
    GETARG_A (SETARG_sBx i d) = GETARG_A i"
proof -
  have "GETARG_Bx (SETARG_Bx i (d + MAXARG_sBx)) = d + MAXARG_sBx"
    unfolding field_simps_lua by (rule fBx.get_set_small) (use assms in \<open>simp_all add: lua_defs\<close>)
  moreover have "GET_OPCODE (SETARG_Bx i u) = GET_OPCODE i" "GETARG_A (SETARG_Bx i u) = GETARG_A i" for u
    unfolding field_simps_lua by (rule fBx.get_other, simp add: lua_size_defs)+
  ultimately show ?thesis
    by (simp add: GETARG_sBx_def SETARG_sBx_def)
qed

theorem setarg_sbx_roundtrip_witness:
  "GETARG_sBx (SETARG_sBx (CREATE_ABx 22 7 0) (- 131071)) = - 131071 \<and>
   GET_OPCODE (SETARG_sBx (CREATE_ABx 22 7 0) (- 131071)) = GET_OPCODE (CREATE_ABx 22 7 0) \<and>
   GETARG_A (SETARG_sBx (CREATE_ABx 22 7 0) (- 131071)) = GETARG_A (CREATE_ABx 22 7 0)"
  by (rule setarg_sbx_roundtrip) (simp_all add: lua_defs)

lemma rk_roundtrip:
  assumes "0 \<le> k" "k \<le> MAXINDEXRK"
  shows "ISK (RKASK k) \<and> INDEXK (RKASK k) = k \<and> \<not> ISK k \<and> RKASK k \<le> MAXARG_B"
proof -
  have small: "bit k j \<Longrightarrow> j < 8" for j
    using assms bit_small_int [of k 8] by (auto simp: lua_defs)
  have B: "bit BITRK j \<longleftrightarrow> j = 8" for j
    using bit_exp_iff [where 'a = int, of 8 j] by (simp add: lua_defs)
  have 1: "RKASK k AND BITRK = BITRK" "INDEXK (RKASK k) = k" "k AND BITRK = 0"
    by (auto simp: B RKASK_def INDEXK_def bit_simps intro!: bit_eqI dest: small)
  have "RKASK k = k + BITRK"
    using 1(3) by (simp add: RKASK_def disjunctive_add_eq_or)
  then show ?thesis using 1 assms
    by (auto simp: ISK_def lua_defs)
qed

lemma to_of_OpCode: "to_OpCode (of_OpCode op) = Some op"
  by (cases op) (simp_all add: to_OpCode_def all_opcodes_def at_def)

lemma opmode_unpack:
  assumes "t \<in> {0,1}" "a \<in> {0,1}"
  shows "to_OpMode (uint (opmode t a b c m AND 3)) = Some m"
    "to_OpArgMask (uint (drop_bit 4 (opmode t a b c m) AND 3)) = Some b"
    "to_OpArgMask (uint (drop_bit 2 (opmode t a b c m) AND 3)) = Some c"
    "opmode t a b c m AND push_bit 6 1 \<noteq> 0 \<longleftrightarrow> a = 1"
    "opmode t a b c m AND push_bit 7 1 \<noteq> 0 \<longleftrightarrow> t = 1"
  using assms by (cases m; cases b; cases c; auto simp: opmode_def to_OpMode_def to_OpArgMask_def at_def)+

end
