(* ===== verification/Protos.thy ===== *)
theory Protos
  imports Objects Opcodes
begin

text \<open>
  Function prototypes (\<^verbatim>\<open>Proto\<close> and \<^verbatim>\<open>LocVar\<close> of \<^verbatim>\<open>lobject.h\<close>) and the accessors of
  \<^verbatim>\<open>lfunc.c\<close> on them.  A \<^verbatim>\<open>TString*\<close> is the string it points to, or \<^const>\<open>None\<close> for
  \<^verbatim>\<open>NULL\<close>; strings are interned (\<^verbatim>\<open>lstring.c\<close>), so comparing pointers compares contents.  The
  size fields are the lengths of the lists.
\<close>

type_synonym TString = "string option"

text \<open>A constant of a function: the values the compiler puts into \<^verbatim>\<open>k\<close>.  \<open>KOther\<close> is any other tag.\<close>

datatype Const = KNil | KBoolean int | KNumber lua_Number | KString TString | KOther int

fun kttype :: "Const \<Rightarrow> int" where
  "kttype KNil = 0"
| "kttype (KBoolean b) = 1"
| "kttype (KNumber n) = 3"
| "kttype (KString s) = 4"
| "kttype (KOther t) = t"

record LocVar =
  varname :: TString
  startpc :: int
  endpc :: int

datatype Proto = Proto
  (p_k: "Const list") (p_code: "Instruction list") (p_p: "Proto list")
  (p_lineinfo: "int list") (p_locvars: "LocVar list") (p_upvalues: "TString list")
  (p_source: TString) (p_linedefined: int) (p_lastlinedefined: int)
  (p_nups: u8) (p_numparams: u8) (p_is_vararg: u8) (p_maxstacksize: u8)

definition sizek :: "Proto \<Rightarrow> int" where "sizek pt = int (length (p_k pt))"
definition sizecode :: "Proto \<Rightarrow> int" where "sizecode pt = int (length (p_code pt))"
definition sizep :: "Proto \<Rightarrow> int" where "sizep pt = int (length (p_p pt))"
definition sizelineinfo :: "Proto \<Rightarrow> int" where "sizelineinfo pt = int (length (p_lineinfo pt))"
definition sizelocvars :: "Proto \<Rightarrow> int" where "sizelocvars pt = int (length (p_locvars pt))"
definition sizeupvalues :: "Proto \<Rightarrow> int" where "sizeupvalues pt = int (length (p_upvalues pt))"

lemmas proto_sizes = sizek_def sizecode_def sizep_def sizelineinfo_def sizelocvars_def sizeupvalues_def

definition VARARG_HASARG :: u8 where "VARARG_HASARG = 1"
definition VARARG_ISVARARG :: u8 where "VARARG_ISVARARG = 2"
definition VARARG_NEEDSARG :: u8 where "VARARG_NEEDSARG = 4"

lemma sizes_nonneg [simp]:
  "0 \<le> sizek pt" "0 \<le> sizecode pt" "0 \<le> sizep pt" "0 \<le> sizelineinfo pt" "0 \<le> sizelocvars pt"
  "0 \<le> sizeupvalues pt"
  by (simp_all add: proto_sizes)

subsection \<open>Local variable names\<close>

fun getlocalname_loop :: "LocVar list \<Rightarrow> int \<Rightarrow> int \<Rightarrow> TString" where
  "getlocalname_loop [] n pc = None"
| "getlocalname_loop (v # vs) n pc =
     (if startpc v \<le> pc then
        (if pc < endpc v then (if n - 1 = 0 then varname v else getlocalname_loop vs (n - 1) pc)
         else getlocalname_loop vs n pc)
      else None)"

definition luaF_getlocalname :: "Proto \<Rightarrow> int \<Rightarrow> int \<Rightarrow> TString" where
  "luaF_getlocalname f local_number pc = getlocalname_loop (p_locvars f) local_number pc"

text \<open>
  When the variables are sorted by their start, as the compiler leaves them, the function
  finds the \<open>n\<close>-th variable that is active at \<open>pc\<close>.
\<close>

lemma getlocalname_active:
  assumes "sorted (map startpc vs)" "0 < n"
  shows "getlocalname_loop vs n pc =
    (let act = filter (\<lambda>v. startpc v \<le> pc \<and> pc < endpc v) vs in
     if n \<le> int (length act) then varname (act ! nat (n - 1)) else None)"
  using assms
proof (induction vs arbitrary: n)
  case (Cons v vs)
  show ?case
  proof (cases "startpc v \<le> pc \<and> pc < endpc v")
    case True
    show ?thesis
    proof (cases "n = 1")
      case False
      then have n: "nat (n - 1) = Suc (nat (n - 2))" "0 < n - 1" using Cons.prems(2) by simp_all
      show ?thesis using Cons.IH [of "n - 1"] Cons.prems True n by (auto simp: Let_def)
    qed (use True in \<open>simp add: Let_def\<close>)
  next
    case False
    have "filter (\<lambda>v. startpc v \<le> pc \<and> pc < endpc v) vs = []" if "\<not> startpc v \<le> pc"
      using Cons.prems(1) that by (force simp: filter_empty_conv)
    then show ?thesis using Cons False by (auto simp: Let_def)
  qed
qed simp

end
