(* ===== verification/Dump.thy ===== *)
theory Dump
  imports Protos
begin

text \<open>
  Saving a function as a precompiled chunk (\<^verbatim>\<open>ldump.c\<close>, and \<^verbatim>\<open>luaU_header\<close> of
  \<^verbatim>\<open>lundump.c\<close>).  The chunk goes through a writer, a function of the client that may fail: from
  the first non-zero status on, nothing more is written.

  The chunk has the memory image of C objects on the platform: little endian, 4-byte
  \<^verbatim>\<open>int\<close>, 8-byte \<^verbatim>\<open>size_t\<close> and \<^verbatim>\<open>double\<close>.
\<close>

subsection \<open>Memory images\<close>

fun le_bytes :: "nat \<Rightarrow> int \<Rightarrow> u8 list" where
  "le_bytes 0 v = []"
| "le_bytes (Suc n) v = word_of_int v # le_bytes n (v div 256)"

fun le_val :: "u8 list \<Rightarrow> int" where
  "le_val [] = 0"
| "le_val (b # bs) = uint b + 256 * le_val bs"

definition str_bytes :: "string \<Rightarrow> u8 list" where
  "str_bytes s = map (\<lambda>c. of_nat (of_char c)) s"

definition bytes_str :: "u8 list \<Rightarrow> string" where
  "bytes_str bs = map (\<lambda>b. char_of (unat b)) bs"

lemma length_le_bytes [simp]: "length (le_bytes n v) = n"
  by (induction n arbitrary: v) simp_all

lemma le_val_bytes: "le_val (le_bytes n v) = v mod 256 ^ n"
proof (induction n arbitrary: v)
  case (Suc n)
  have "v mod 256 + 256 * ((v div 256) mod 256 ^ n) = v mod (256 * 256 ^ n)"
    by (simp add: zmod_zmult2_eq)
  then show ?case using Suc by (simp add: uint_word_of_int)
qed simp

lemma bytes_str_bytes [simp]: "bytes_str (str_bytes s) = s"
proof -
  have "unat (of_nat (of_char c) :: u8) = of_char c" for c
    using of_char_mod_256 [of c, where ?'a = nat] by (simp add: unat_of_nat take_bit_eq_mod)
  then have "char_of (unat (of_nat (of_char c) :: u8)) = c" for c by simp
  then show ?thesis by (simp add: bytes_str_def str_bytes_def comp_def)
qed

lemma length_str_bytes [simp]: "length (str_bytes s) = length s" "length (bytes_str bs) = length bs"
  by (simp_all add: str_bytes_def bytes_str_def)

subsection \<open>Dumping\<close>

type_synonym 'w writer = "'w \<Rightarrow> u8 list \<Rightarrow> int \<times> 'w"

record 'w DumpState =
  d_data :: 'w
  d_strip :: bool
  d_status :: int

definition DumpBlock :: "'w writer \<Rightarrow> u8 list \<Rightarrow> 'w DumpState \<Rightarrow> 'w DumpState" where
  "DumpBlock w b D =
     (if d_status D = 0 then
        (let (st, d) = w (d_data D) b in D\<lparr>d_status := st, d_data := d\<rparr>)
      else D)"

definition DumpChar :: "'w writer \<Rightarrow> int \<Rightarrow> 'w DumpState \<Rightarrow> 'w DumpState" where
  "DumpChar w y = DumpBlock w (le_bytes 1 y)"

definition DumpInt :: "'w writer \<Rightarrow> int \<Rightarrow> 'w DumpState \<Rightarrow> 'w DumpState" where
  "DumpInt w x = DumpBlock w (le_bytes 4 x)"

definition DumpNumber :: "'w writer \<Rightarrow> lua_Number \<Rightarrow> 'w DumpState \<Rightarrow> 'w DumpState" where
  "DumpNumber w x = DumpBlock w (le_bytes 8 (uint x))"

definition DumpVector :: "'w writer \<Rightarrow> int list \<Rightarrow> 'w DumpState \<Rightarrow> 'w DumpState" where
  "DumpVector w b D = DumpBlock w (concat (map (le_bytes 4) b)) (DumpInt w (int (length b)) D)"

definition DumpString :: "'w writer \<Rightarrow> TString \<Rightarrow> 'w DumpState \<Rightarrow> 'w DumpState" where
  "DumpString w s D =
     (case s of
        None \<Rightarrow> DumpBlock w (le_bytes 8 0) D
      | Some str \<Rightarrow>
          DumpBlock w (str_bytes str @ [0]) (DumpBlock w (le_bytes 8 (int (length str) + 1)) D))"

definition DumpCode :: "'w writer \<Rightarrow> Proto \<Rightarrow> 'w DumpState \<Rightarrow> 'w DumpState" where
  "DumpCode w f = DumpVector w (map uint (p_code f))"

fun DumpConstant :: "'w writer \<Rightarrow> Const \<Rightarrow> 'w DumpState \<Rightarrow> 'w DumpState" where
  "DumpConstant w KNil D = DumpChar w 0 D"
| "DumpConstant w (KBoolean b) D = DumpChar w b (DumpChar w 1 D)"
| "DumpConstant w (KNumber n) D = DumpNumber w n (DumpChar w 3 D)"
| "DumpConstant w (KString s) D = DumpString w s (DumpChar w 4 D)"
| "DumpConstant w (KOther t) D = DumpChar w t D"

definition DumpConstants :: "'w writer \<Rightarrow> Proto \<Rightarrow> 'w DumpState \<Rightarrow> 'w DumpState" where
  "DumpConstants w f D = foldl (\<lambda>D c. DumpConstant w c D) (DumpInt w (sizek f) D) (p_k f)"

definition DumpLocVar :: "'w writer \<Rightarrow> LocVar \<Rightarrow> 'w DumpState \<Rightarrow> 'w DumpState" where
  "DumpLocVar w v D = DumpInt w (endpc v) (DumpInt w (startpc v) (DumpString w (varname v) D))"

definition DumpDebug :: "'w writer \<Rightarrow> Proto \<Rightarrow> 'w DumpState \<Rightarrow> 'w DumpState" where
  "DumpDebug w f D =
     (let D = DumpVector w (if d_strip D then [] else p_lineinfo f) D;
          vs = (if d_strip D then [] else p_locvars f);
          D = foldl (\<lambda>D v. DumpLocVar w v D) (DumpInt w (int (length vs)) D) vs;
          us = (if d_strip D then [] else p_upvalues f)
      in foldl (\<lambda>D u. DumpString w u D) (DumpInt w (int (length us)) D) us)"

text \<open>\<^verbatim>\<open>DumpFunction\<close>, and the loop at the end of \<^verbatim>\<open>DumpConstants\<close> over the nested functions.\<close>

fun DumpFunction :: "'w writer \<Rightarrow> Proto \<Rightarrow> TString \<Rightarrow> 'w DumpState \<Rightarrow> 'w DumpState"
  and DumpFunctions :: "'w writer \<Rightarrow> Proto list \<Rightarrow> TString \<Rightarrow> 'w DumpState \<Rightarrow> 'w DumpState" where
  "DumpFunction w (Proto ks code ps li lv uv src ld lld nups npar va mss) p D =
     (let f = Proto ks code ps li lv uv src ld lld nups npar va mss;
          D = DumpString w (if src = p \<or> d_strip D then None else src) D;
          D = DumpInt w lld (DumpInt w ld D);
          D = DumpChar w (uint va) (DumpChar w (uint npar) (DumpChar w (uint nups) D));
          D = DumpCode w f (DumpChar w (uint mss) D);
          D = DumpFunctions w ps src (DumpInt w (sizep f) (DumpConstants w f D))
      in DumpDebug w f D)"
| "DumpFunctions w [] p D = D"
| "DumpFunctions w (f # fs) p D = DumpFunctions w fs p (DumpFunction w f p D)"

definition luaU_header :: "u8 list" where
  "luaU_header = str_bytes (CHR 0x1B # ''Lua'') @ [0x51, 0, 1, 4, 8, 4, 8, 0]"

definition DumpHeader :: "'w writer \<Rightarrow> 'w DumpState \<Rightarrow> 'w DumpState" where
  "DumpHeader w = DumpBlock w luaU_header"

definition luaU_dump :: "'w writer \<Rightarrow> Proto \<Rightarrow> 'w \<Rightarrow> bool \<Rightarrow> int \<times> 'w" where
  "luaU_dump w f d strip =
     (let D = DumpFunction w f None (DumpHeader w \<lparr>d_data = d, d_strip = strip, d_status = 0\<rparr>)
      in (d_status D, d_data D))"

text \<open>The writer of \<^verbatim>\<open>string.dump\<close> appends to a buffer.\<close>

definition str_writer :: "u8 list writer" where
  "str_writer d b = (0, d @ b)"

end
