(* ===== verification/Zio.thy ===== *)
theory Zio
  imports Prelude
begin

text \<open>
  Buffered input streams (\<^verbatim>\<open>lzio.h\<close>, \<^verbatim>\<open>lzio.c\<close>).  A stream pulls blocks from a reader, a
  function of the client, and hands them out byte by byte or in larger pieces.  The pointer
  \<^verbatim>\<open>p\<close> is a block and an index into it, and \<^verbatim>\<open>n\<close> keeps its 64-bit width: \<^verbatim>\<open>zgetc\<close> decrements
  it even when it is zero.  A read of \<^verbatim>\<open>*p\<close> outside the block has the result \<^const>\<open>None\<close>.
\<close>

type_synonym 'd reader = "'d \<Rightarrow> u8 list option \<times> 'd"

record 'd ZIO =
  z_n :: u64
  z_blk :: "u8 list"
  z_p :: nat
  z_data :: 'd

definition EOZ :: int where "EOZ = - 1"

definition deref :: "'d ZIO \<Rightarrow> int option" where
  "deref z = map_option uint (at (z_blk z) (int (z_p z)))"

definition luaZ_fill :: "'d reader \<Rightarrow> 'd ZIO \<Rightarrow> (int \<times> 'd ZIO) option" where
  "luaZ_fill rd z =
     (let (buff, d) = rd (z_data z); z = z\<lparr>z_data := d\<rparr> in
      case buff of
        None \<Rightarrow> Some (EOZ, z)
      | Some b \<Rightarrow>
          if (of_nat (length b) :: u64) = 0 then Some (EOZ, z)
          else (let z = z\<lparr>z_n := of_nat (length b) - 1, z_blk := b, z_p := 0\<rparr> in
                map_option (\<lambda>c. (c, z\<lparr>z_p := 1\<rparr>)) (deref z)))"

definition luaZ_lookahead :: "'d reader \<Rightarrow> 'd ZIO \<Rightarrow> (int \<times> 'd ZIO) option" where
  "luaZ_lookahead rd z =
     (if z_n z = 0 then
        (case luaZ_fill rd z of
           None \<Rightarrow> None
         | Some (c, z) \<Rightarrow>
             if c = EOZ then Some (EOZ, z)
             else (let z = z\<lparr>z_n := z_n z + 1, z_p := z_p z - 1\<rparr> in map_option (\<lambda>c. (c, z)) (deref z)))
      else map_option (\<lambda>c. (c, z)) (deref z))"

definition luaZ_init :: "'d \<Rightarrow> 'd ZIO" where
  "luaZ_init d = \<lparr>z_n = 0, z_blk = [], z_p = 0, z_data = d\<rparr>"

definition zgetc :: "'d reader \<Rightarrow> 'd ZIO \<Rightarrow> (int \<times> 'd ZIO) option" where
  "zgetc rd z =
     (let z' = z\<lparr>z_n := z_n z - 1\<rparr> in
      if z_n z > 0 then map_option (\<lambda>c. (c, z'\<lparr>z_p := z_p z + 1\<rparr>)) (deref z)
      else luaZ_fill rd z')"

text \<open>
  \<^verbatim>\<open>luaZ_read\<close> yields the number of missing bytes and the bytes stored so far in the caller's
  memory.  \<^verbatim>\<open>memcpy\<close> of bytes outside the block, and a loop that would not end, have no result.
\<close>

partial_function (option) luaZ_read :: "'d reader \<Rightarrow> 'd ZIO \<Rightarrow> nat \<Rightarrow> (nat \<times> u8 list \<times> 'd ZIO) option" where
  [code]: "luaZ_read rd z n =
     (if n = 0 then Some (0, [], z)
      else (case luaZ_lookahead rd z of
              None \<Rightarrow> None
            | Some (c, z) \<Rightarrow>
                if c = EOZ then Some (n, [], z)
                else (let m = (if n \<le> unat (z_n z) then n else unat (z_n z)) in
                      if length (z_blk z) < z_p z + m then None
                      else Option.bind (luaZ_read rd (z\<lparr>z_n := z_n z - of_nat m, z_p := z_p z + m\<rparr>) (n - m))
                             (\<lambda>(r, bs, z'). Some (r, take m (drop (z_p z) (z_blk z)) @ bs, z')))))"

subsection \<open>Buffers\<close>

record Mbuffer =
  mb_buffer :: "u8 list"
  mb_n :: nat
  mb_buffsize :: nat

definition LUA_MINBUFFER :: nat where "LUA_MINBUFFER = 32"

definition luaZ_resizebuffer :: "Mbuffer \<Rightarrow> nat \<Rightarrow> Mbuffer" where
  "luaZ_resizebuffer b sz =
     b\<lparr>mb_buffer := take sz (mb_buffer b) @ replicate (sz - length (mb_buffer b)) 0, mb_buffsize := sz\<rparr>"

definition luaZ_openspace :: "Mbuffer \<Rightarrow> nat \<Rightarrow> Mbuffer" where
  "luaZ_openspace b n =
     (if n > mb_buffsize b then luaZ_resizebuffer b (if n < LUA_MINBUFFER then LUA_MINBUFFER else n) else b)"

subsection \<open>Streams as byte lists\<close>

text \<open>
  \<open>feeds rd d bs\<close>: from state \<open>d\<close> the reader delivers the bytes \<open>bs\<close> in blocks and then
  reports the end.  \<open>zio_is rd z bs\<close>: the bytes still to be read from the stream are \<open>bs\<close>.
\<close>

inductive feeds :: "'d reader \<Rightarrow> 'd \<Rightarrow> u8 list \<Rightarrow> bool" for rd where
  eof: "fst (rd d) = None \<or> fst (rd d) = Some [] \<Longrightarrow> feeds rd d []"
| block: "rd d = (Some b, d') \<Longrightarrow> b \<noteq> [] \<Longrightarrow> length b < 2 ^ 64 \<Longrightarrow> feeds rd d' bs \<Longrightarrow> feeds rd d (b @ bs)"

inductive_cases feedsE: "feeds rd d bs"

definition zio_is :: "'d reader \<Rightarrow> 'd ZIO \<Rightarrow> u8 list \<Rightarrow> bool" where
  "zio_is rd z bs \<longleftrightarrow>
     (\<exists>rest. bs = drop (z_p z) (z_blk z) @ rest \<and> feeds rd (z_data z) rest \<and>
        z_p z \<le> length (z_blk z) \<and> unat (z_n z) = length (z_blk z) - z_p z)"

lemma zio_is_init: "feeds rd d bs \<Longrightarrow> zio_is rd (luaZ_init d) bs"
  by (simp add: zio_is_def luaZ_init_def)

lemma unat_of_nat_len: "k < 2 ^ 64 \<Longrightarrow> unat (of_nat k :: u64) = k"
  by (simp add: unat_of_nat take_bit_nat_eq_self)

lemma unat_u64_less: "unat (x :: u64) < 2 ^ 64"
  by (rule order.strict_trans2 [OF unsigned_less]) simp

lemma fill_spec:
  assumes "feeds rd (z_data z) bs"
  shows "\<exists>z'. luaZ_fill rd z = Some (if bs = [] then EOZ else uint (hd bs), z') \<and>
    (bs \<noteq> [] \<longrightarrow> zio_is rd z' (tl bs) \<and> z_p z' = 1 \<and> z_blk z' \<noteq> [] \<and>
       zio_is rd (z'\<lparr>z_n := z_n z' + 1, z_p := 0\<rparr>) bs \<and> hd (z_blk z') = hd bs \<and> z_n z' + 1 \<noteq> 0)"
  using assms
proof (cases rule: feeds.cases)
  case eof
  then show ?thesis by (auto simp: luaZ_fill_def split: prod.splits)
next
  case (block b d' rest)
  have l: "unat (of_nat (length b) :: u64) = length b" using block(4) by (rule unat_of_nat_len)
  then have nz: "(of_nat (length b) :: u64) \<noteq> 0" using block(3) by (metis length_0_conv unat_0)
  then have l1: "unat (of_nat (length b) - 1 :: u64) = length b - 1"
    using l by (simp add: unat_minus_one)
  let ?z = "z\<lparr>z_data := d', z_n := of_nat (length b) - 1, z_blk := b, z_p := 1\<rparr>"
  have f: "luaZ_fill rd z = Some (uint (hd bs), ?z)"
    using block(1-3) nz by (simp add: luaZ_fill_def deref_def at_def hd_append hd_conv_nth)
  have "zio_is rd ?z (tl bs)"
    using block l1 by (auto simp: zio_is_def Suc_le_eq drop_Suc)
  moreover have "zio_is rd (?z\<lparr>z_n := z_n ?z + 1, z_p := 0\<rparr>) bs"
    using block l by (auto simp: zio_is_def)
  ultimately show ?thesis using f block nz by (auto simp: hd_append)
qed

lemma deref_spec:
  assumes "zio_is rd z bs" "z_n z \<noteq> 0"
  shows "bs \<noteq> []" "deref z = Some (uint (hd bs))" "zio_is rd (z\<lparr>z_n := z_n z - 1, z_p := z_p z + 1\<rparr>) (tl bs)"
proof -
  have "0 < unat (z_n z)" using assms(2) by (simp add: unat_gt_0)
  then have p: "z_p z < length (z_blk z)" "unat (z_n z) = length (z_blk z) - z_p z"
    using assms(1) by (auto simp: zio_is_def)
  then have d: "drop (z_p z) (z_blk z) = z_blk z ! z_p z # drop (Suc (z_p z)) (z_blk z)"
    by (simp add: Cons_nth_drop_Suc)
  with assms(1) show "bs \<noteq> []" "deref z = Some (uint (hd bs))"
    using p by (auto simp: zio_is_def deref_def at_def)
  have "unat (z_n z - 1) = length (z_blk z) - Suc (z_p z)"
    using p(2) assms(2) by (simp add: unat_minus_one)
  then show "zio_is rd (z\<lparr>z_n := z_n z - 1, z_p := z_p z + 1\<rparr>) (tl bs)"
    using assms(1) p d by (auto simp: zio_is_def)
qed

lemma zio_is_empty: "zio_is rd z bs \<Longrightarrow> z_n z = 0 \<Longrightarrow> feeds rd (z_data z) bs"
  by (auto simp: zio_is_def)

theorem zgetc_spec:
  assumes "zio_is rd z bs"
  shows "\<exists>z'. zgetc rd z = Some (if bs = [] then EOZ else uint (hd bs), z') \<and> (bs \<noteq> [] \<longrightarrow> zio_is rd z' (tl bs))"
proof (cases "z_n z = 0")
  case True
  have "feeds rd (z_data (z\<lparr>z_n := z_n z - 1\<rparr>)) bs" using zio_is_empty [OF assms True] by simp
  from fill_spec [OF this] True show ?thesis by (auto simp: zgetc_def Let_def)
next
  case False
  then have "z_n z > 0" by (simp add: word_neq_0_conv)
  with deref_spec [OF assms False] show ?thesis by (simp add: zgetc_def Let_def)
qed

lemma lookahead_spec:
  assumes "zio_is rd z bs"
  shows "\<exists>z'. luaZ_lookahead rd z = Some (if bs = [] then EOZ else uint (hd bs), z') \<and>
    (bs \<noteq> [] \<longrightarrow> zio_is rd z' bs \<and> z_n z' \<noteq> 0)"
proof (cases "z_n z = 0")
  case True
  from fill_spec [OF zio_is_empty [OF assms True]] obtain z' where
    z': "luaZ_fill rd z = Some (if bs = [] then EOZ else uint (hd bs), z')"
      "bs \<noteq> [] \<longrightarrow> z_p z' = 1 \<and> z_blk z' \<noteq> [] \<and> zio_is rd (z'\<lparr>z_n := z_n z' + 1, z_p := 0\<rparr>) bs \<and>
        hd (z_blk z') = hd bs \<and> z_n z' + 1 \<noteq> 0"
    by blast
  have "uint b \<noteq> EOZ" for b :: u8 using uint_nonnegative [of b] unfolding EOZ_def by linarith
  with True z' show ?thesis
    by (auto simp: luaZ_lookahead_def deref_def at_def hd_conv_nth Let_def)
next
  case False
  then show ?thesis using deref_spec [OF assms False] assms by (simp add: luaZ_lookahead_def)
qed

lemma luaZ_read_correct:
  assumes "zio_is rd z bs"
  shows "\<exists>z'. luaZ_read rd z n = Some (n - length bs, take n bs, z') \<and>
    (n \<le> length bs \<longrightarrow> zio_is rd z' (drop n bs))"
  using assms
proof (induction n arbitrary: z bs rule: less_induct)
  case (less n)
  show ?case
  proof (cases "n = 0")
    case True
    then show ?thesis using less.prems by (simp add: luaZ_read.simps)
  next
    case n: False
    from lookahead_spec [OF less.prems] obtain z1 where
      z1: "luaZ_lookahead rd z = Some (if bs = [] then EOZ else uint (hd bs), z1)"
        "bs \<noteq> [] \<longrightarrow> zio_is rd z1 bs \<and> z_n z1 \<noteq> 0" by blast
    show ?thesis
    proof (cases "bs = []")
      case True
      then show ?thesis using z1 n by (simp add: luaZ_read.simps [of rd z n])
    next
      case False
      have c: "uint (hd bs) \<noteq> EOZ" using uint_nonnegative [of "hd bs"] unfolding EOZ_def by linarith
      from z1 False obtain rest where
        r: "bs = drop (z_p z1) (z_blk z1) @ rest" "feeds rd (z_data z1) rest" "z_p z1 \<le> length (z_blk z1)"
          "unat (z_n z1) = length (z_blk z1) - z_p z1" and nz: "z_n z1 \<noteq> 0"
        by (auto simp: zio_is_def)
      define m where "m = min n (unat (z_n z1))"
      have m: "0 < m" "m \<le> n" "m \<le> unat (z_n z1)" using n nz by (auto simp: m_def unat_gt_0)
      then have mz: "z_p z1 + m \<le> length (z_blk z1)" using r(4) by simp
      let ?z = "z1\<lparr>z_n := z_n z1 - of_nat m, z_p := z_p z1 + m\<rparr>"
      have "unat (of_nat m :: u64) = m"
        by (rule unat_of_nat_len) (rule order_le_less_trans [OF m(3) unat_u64_less])
      then have "unat (z_n z1 - of_nat m) = unat (z_n z1) - m"
        using m(3) by (simp add: unat_sub word_le_nat_alt)
      then have "zio_is rd ?z (drop m bs)"
        using r mz by (auto simp: zio_is_def add.commute [of m])
      from less.IH [OF _ this, of "n - m"] m obtain z2 where
        z2: "luaZ_read rd ?z (n - m) = Some (n - m - length (drop m bs), take (n - m) (drop m bs), z2)"
          "n - m \<le> length (drop m bs) \<longrightarrow> zio_is rd z2 (drop (n - m) (drop m bs))"
        by auto
      have t: "take m (drop (z_p z1) (z_blk z1)) = take m bs" using r(1,4) m(3) mz by simp
      have mb: "m \<le> length bs" using r(1) mz by simp
      have "luaZ_read rd z n = Some (n - length bs, take n bs, z2)"
        using n z1(1) False c z2(1) mz t mb m(2)
        by (subst luaZ_read.simps) (simp add: Let_def min_def [symmetric] m_def [symmetric] take_add [symmetric]
            flip: take_add)
      moreover have "n \<le> length bs \<longrightarrow> zio_is rd z2 (drop n bs)" using z2(2) m(2) mb by auto
      ultimately show ?thesis by blast
    qed
  qed
qed

text \<open>
  a buffered stream refines the list of bytes its reader delivers: however the reader cuts
  them into blocks, \<^verbatim>\<open>luaZ_read\<close> returns the next \<open>n\<close> bytes and leaves the rest, or what there
  is and the number of missing bytes.\<close>

theorem luaZ_read_spec:
  assumes "zio_is rd z bs"
  shows "\<exists>z'. luaZ_read rd z n = Some (n - length bs, take n bs, z') \<and>
    (n \<le> length bs \<longrightarrow> zio_is rd z' (drop n bs))"
  by (rule luaZ_read_correct [OF assms])

text \<open>A reader that delivers a list of blocks.\<close>

definition block_reader :: "u8 list list reader" where
  "block_reader bs = (case bs of [] \<Rightarrow> (None, []) | b # r \<Rightarrow> (Some b, r))"

theorem luaZ_read_spec_witness:
  "\<exists>z'. luaZ_read block_reader (luaZ_init [[1, 2], [3, 4, 5]]) 4 = Some (0, [1, 2, 3, 4], z')"
proof -
  have "feeds block_reader [[1, 2], [3, 4, 5]] ([1, 2] @ [3, 4, 5] @ [])"
    by (intro feeds.block [where d' = "[[3, 4, 5]]"] feeds.block [where d' = "[]"] feeds.eof)
      (simp_all add: block_reader_def)
  from luaZ_read_spec [OF zio_is_init [OF this], of 4] show ?thesis by auto
qed

subsection \<open>Reading past the end\<close>

text \<open>
  \<^verbatim>\<open>zgetc\<close> decrements \<^verbatim>\<open>n\<close> also at the end of the stream, where it wraps around, so a second
  \<^verbatim>\<open>zgetc\<close> after the end reads outside the block.  The lexer stops at the first
  \<^const>\<open>EOZ\<close>.
\<close>

lemma zgetc_after_end:
  "zgetc block_reader (luaZ_init []) = Some (EOZ, \<lparr>z_n = - 1, z_blk = [], z_p = 0, z_data = []\<rparr>)"
  "zgetc block_reader \<lparr>z_n = - 1, z_blk = [], z_p = 0, z_data = []\<rparr> = None"
  by (simp_all add: zgetc_def luaZ_init_def luaZ_fill_def block_reader_def deref_def at_def Let_def
      word_greater_zero_iff)

end
