(* ===== verification/Checker.thy ===== *)
theory Checker
  imports Protos
begin

text \<open>
  The bytecode checker of \<^verbatim>\<open>ldebug.c\<close> (\<^verbatim>\<open>precheck\<close>, \<^verbatim>\<open>checkArgMode\<close>, \<^verbatim>\<open>symbexec\<close>,
  \<^verbatim>\<open>luaG_checkcode\<close>), the recovery of variable names by symbolic execution
  (\<^verbatim>\<open>getobjname\<close>), and the text of the interpreter's error messages.

  The checker reads the arrays of an untrusted prototype.  Each read that the code does not
  guard by a test of its own is a \<open>load\<close>, which yields \<open>Crash\<close> outside the array; a failed
  \<^verbatim>\<open>check\<close> is \<open>Reject\<close> (the function returns 0).
\<close>

datatype sym = Crash | Reject | Go int int

definition chk :: "bool \<Rightarrow> sym \<Rightarrow> sym" where
  "chk b r = (if b then r else Reject)"

definition load :: "'a list \<Rightarrow> int \<Rightarrow> ('a \<Rightarrow> sym) \<Rightarrow> sym" where
  "load xs i f = (case at xs i of None \<Rightarrow> Crash | Some x \<Rightarrow> f x)"

definition LUAI_MAXSTACK :: int where "LUAI_MAXSTACK = 250"

definition maxstack :: "Proto \<Rightarrow> int" where "maxstack pt = uint (p_maxstacksize pt)"

definition is_op :: "Instruction \<Rightarrow> OpCode \<Rightarrow> bool" where
  "is_op i op \<longleftrightarrow> GET_OPCODE i = of_OpCode op"

definition checkreg :: "Proto \<Rightarrow> int \<Rightarrow> bool" where
  "checkreg pt reg \<longleftrightarrow> reg < maxstack pt"

definition precheck :: "Proto \<Rightarrow> bool" where
  "precheck pt \<longleftrightarrow>
     maxstack pt \<le> LUAI_MAXSTACK \<and>
     uint (p_numparams pt) + uint (p_is_vararg pt AND VARARG_HASARG) \<le> maxstack pt \<and>
     (p_is_vararg pt AND VARARG_NEEDSARG = 0 \<or> p_is_vararg pt AND VARARG_HASARG \<noteq> 0) \<and>
     sizeupvalues pt \<le> uint (p_nups pt) \<and>
     (sizelineinfo pt = sizecode pt \<or> sizelineinfo pt = 0) \<and>
     sizecode pt > 0 \<and> is_op (p_code pt ! nat (sizecode pt - 1)) OP_RETURN"

definition luaG_checkopenop :: "Instruction \<Rightarrow> bool" where
  "luaG_checkopenop i \<longleftrightarrow>
     (is_op i OP_CALL \<or> is_op i OP_TAILCALL \<or> is_op i OP_RETURN \<or> is_op i OP_SETLIST) \<and> GETARG_B i = 0"

definition checkArgMode :: "Proto \<Rightarrow> int \<Rightarrow> OpArgMask \<Rightarrow> bool" where
  "checkArgMode pt r mode \<longleftrightarrow>
     (case mode of
        OpArgN \<Rightarrow> r = 0
      | OpArgU \<Rightarrow> True
      | OpArgR \<Rightarrow> checkreg pt r
      | OpArgK \<Rightarrow> if ISK r then INDEXK r < sizek pt else r < maxstack pt)"

subsection \<open>One instruction of the symbolic execution\<close>

text \<open>The loop on \<open>j\<close>: how many instructions before \<open>dest\<close> look like a \<^const>\<open>OP_SETLIST\<close> with a count.\<close>

definition setlist0 :: "Instruction \<Rightarrow> bool" where
  "setlist0 d \<longleftrightarrow> is_op d OP_SETLIST \<and> GETARG_C d = 0"

fun setlist_run :: "Instruction list \<Rightarrow> nat \<Rightarrow> nat" where
  "setlist_run code 0 = 0"
| "setlist_run code (Suc d) = (if setlist0 (code ! d) then Suc (setlist_run code d) else 0)"

definition sym_operands :: "Proto \<Rightarrow> int \<Rightarrow> int \<Rightarrow> Instruction \<Rightarrow> (int \<Rightarrow> int \<Rightarrow> sym) \<Rightarrow> sym" where
  "sym_operands pt pc op i cont =
     (case (getOpMode op, getBMode op, getCMode op) of
        (Some iABC, Some bm, Some cm) \<Rightarrow>
          chk (checkArgMode pt (GETARG_B i) bm)
            (chk (checkArgMode pt (GETARG_C i) cm) (cont (GETARG_B i) (GETARG_C i)))
      | (Some iABx, Some bm, _) \<Rightarrow>
          if bm = OpArgK then chk (GETARG_Bx i < sizek pt) (cont (GETARG_Bx i) 0)
          else cont (GETARG_Bx i) 0
      | (Some iAsBx, Some bm, _) \<Rightarrow>
          (let b = GETARG_sBx i; dest = pc + 1 + b in
           if bm = OpArgR then
             chk (0 \<le> dest \<and> dest < sizecode pt)
               (if dest > 0 then chk (even (setlist_run (p_code pt) (nat dest))) (cont b 0) else cont b 0)
           else cont b 0)
      | _ \<Rightarrow> Crash)"

definition sym_jump :: "int \<Rightarrow> int \<Rightarrow> int \<Rightarrow> int \<Rightarrow> int \<Rightarrow> sym" where
  "sym_jump reg lastpc b pc lst =
     (let dest = pc + 1 + b in
      if reg \<noteq> NO_REG \<and> pc < dest \<and> dest \<le> lastpc then Go (pc + b) lst else Go pc lst)"

definition sym_open :: "Proto \<Rightarrow> int \<Rightarrow> sym \<Rightarrow> sym" where
  "sym_open pt pc r = load (p_code pt) (pc + 1) (\<lambda>i. chk (luaG_checkopenop i) r)"

fun pseudo_ok :: "Proto \<Rightarrow> int \<Rightarrow> nat \<Rightarrow> bool" where
  "pseudo_ok pt pc 0 = True"
| "pseudo_ok pt pc (Suc j) =
     (let i = p_code pt ! nat (pc + int (Suc j)) in
      pseudo_ok pt pc j \<and> (is_op i OP_GETUPVAL \<or> is_op i OP_MOVE))"

definition sym_call :: "Proto \<Rightarrow> int \<Rightarrow> int \<Rightarrow> int \<Rightarrow> int \<Rightarrow> int \<Rightarrow> int \<Rightarrow> sym" where
  "sym_call pt reg a b c pc lst =
     chk (b = 0 \<or> checkreg pt (a + b - 1))
       (let c = c - 1; r = (if reg \<ge> a then Go pc pc else Go pc lst) in
        if c = - 1 then sym_open pt pc r
        else if c \<noteq> 0 then chk (checkreg pt (a + c - 1)) r
        else r)"

definition sym_switch :: "Proto \<Rightarrow> int \<Rightarrow> int \<Rightarrow> OpCode \<Rightarrow> int \<Rightarrow> int \<Rightarrow> int \<Rightarrow> int \<Rightarrow> int \<Rightarrow> sym" where
  "sym_switch pt lastpc reg op a b c pc lst =
     (case op of
        OP_LOADBOOL \<Rightarrow>
          if c = 1 then
            chk (pc + 2 < sizecode pt)
              (load (p_code pt) (pc + 1) (\<lambda>i. chk (\<not> is_op i OP_SETLIST \<or> GETARG_C i \<noteq> 0) (Go pc lst)))
          else Go pc lst
      | OP_LOADNIL \<Rightarrow> if a \<le> reg \<and> reg \<le> b then Go pc pc else Go pc lst
      | OP_GETUPVAL \<Rightarrow> chk (b < uint (p_nups pt)) (Go pc lst)
      | OP_SETUPVAL \<Rightarrow> chk (b < uint (p_nups pt)) (Go pc lst)
      | OP_GETGLOBAL \<Rightarrow> load (p_k pt) b (\<lambda>k. chk (kttype k = 4) (Go pc lst))
      | OP_SETGLOBAL \<Rightarrow> load (p_k pt) b (\<lambda>k. chk (kttype k = 4) (Go pc lst))
      | OP_SELF \<Rightarrow> chk (checkreg pt (a + 1)) (if reg = a + 1 then Go pc pc else Go pc lst)
      | OP_CONCAT \<Rightarrow> chk (b < c) (Go pc lst)
      | OP_TFORLOOP \<Rightarrow> chk (c \<ge> 1) (chk (checkreg pt (a + 2 + c)) (if reg \<ge> a + 2 then Go pc pc else Go pc lst))
      | OP_FORLOOP \<Rightarrow> chk (checkreg pt (a + 3)) (sym_jump reg lastpc b pc lst)
      | OP_FORPREP \<Rightarrow> chk (checkreg pt (a + 3)) (sym_jump reg lastpc b pc lst)
      | OP_JMP \<Rightarrow> sym_jump reg lastpc b pc lst
      | OP_CALL \<Rightarrow> sym_call pt reg a b c pc lst
      | OP_TAILCALL \<Rightarrow> sym_call pt reg a b c pc lst
      | OP_RETURN \<Rightarrow> if b - 1 > 0 then chk (checkreg pt (a + (b - 1) - 1)) (Go pc lst) else Go pc lst
      | OP_SETLIST \<Rightarrow>
          (let r = (if c = 0 then chk (pc + 1 < sizecode pt - 1) (Go (pc + 1) lst) else Go pc lst)
           in if b > 0 then chk (checkreg pt (a + b)) r else r)
      | OP_CLOSURE \<Rightarrow>
          chk (b < sizep pt)
            (load (p_p pt) b (\<lambda>q.
              let nup = uint (p_nups q) in
              chk (pc + nup < sizecode pt)
                (chk (pseudo_ok pt pc (nat nup)) (if reg \<noteq> NO_REG then Go (pc + nup) lst else Go pc lst))))
      | OP_VARARG \<Rightarrow>
          chk (p_is_vararg pt AND VARARG_ISVARARG \<noteq> 0 \<and> p_is_vararg pt AND VARARG_NEEDSARG = 0)
            (let b = b - 1; r = chk (checkreg pt (a + b - 1)) (Go pc lst)
             in if b = - 1 then sym_open pt pc r else r)
      | _ \<Rightarrow> Go pc lst)"

definition sym_step :: "Proto \<Rightarrow> int \<Rightarrow> int \<Rightarrow> int \<Rightarrow> int \<Rightarrow> sym" where
  "sym_step pt lastpc reg pc lst =
     load (p_code pt) pc (\<lambda>i.
       let op = GET_OPCODE i; a = GETARG_A i in
       chk (op < NUM_OPCODES) (chk (checkreg pt a)
         (sym_operands pt pc op i (\<lambda>b c.
           let lst = (if testAMode op = Some True \<and> a = reg then pc else lst);
               r = (case to_OpCode op of None \<Rightarrow> Crash | Some oc \<Rightarrow> sym_switch pt lastpc reg oc a b c pc lst)
           in if testTMode op = Some True then
                chk (pc + 2 < sizecode pt) (load (p_code pt) (pc + 1) (\<lambda>j. chk (is_op j OP_JMP) r))
              else r))))"

text \<open>The position never moves backwards, so the loop ends.\<close>

lemma sym_jump_ge: "sym_jump reg lastpc b pc lst = Go pc' l' \<Longrightarrow> pc \<le> pc'"
  by (auto simp: sym_jump_def Let_def split: if_splits)

lemma sym_switch_ge: "sym_switch pt lastpc reg op a b c pc lst = Go pc' l' \<Longrightarrow> pc \<le> pc'"
  by (cases op) (auto simp: sym_switch_def sym_call_def sym_open_def chk_def load_def Let_def
      split: if_splits option.splits dest: sym_jump_ge)

lemma sym_step_ge:
  "sym_step pt lastpc reg pc lst = Go pc' l' \<Longrightarrow> pc \<le> pc'"
  by (auto simp: sym_step_def sym_operands_def chk_def load_def Let_def
      split: if_splits option.splits OpMode.splits dest: sym_switch_ge)

function symbexec_loop :: "Proto \<Rightarrow> int \<Rightarrow> int \<Rightarrow> int \<Rightarrow> int \<Rightarrow> sym" where
  "symbexec_loop pt lastpc reg pc lst =
     (if pc < lastpc then
        (case sym_step pt lastpc reg pc lst of
           Go pc' lst' \<Rightarrow> symbexec_loop pt lastpc reg (pc' + 1) lst'
         | r \<Rightarrow> r)
      else Go pc lst)"
  by pat_completeness auto
termination
  by (relation "measure (\<lambda>(pt, lastpc, reg, pc, lst). nat (lastpc - pc))")
    (auto dest: sym_step_ge)

declare symbexec_loop.simps [simp del]

definition symbexec :: "Proto \<Rightarrow> int \<Rightarrow> int \<Rightarrow> Instruction option" where
  "symbexec pt lastpc reg =
     (if \<not> precheck pt then Some 0
      else case symbexec_loop pt lastpc reg 0 (sizecode pt - 1) of
             Crash \<Rightarrow> None
           | Reject \<Rightarrow> Some 0
           | Go pc lst \<Rightarrow> at (p_code pt) lst)"

definition luaG_checkcode :: "Proto \<Rightarrow> bool option" where
  "luaG_checkcode pt = map_option (\<lambda>i. i \<noteq> 0) (symbexec pt (sizecode pt) NO_REG)"

end
