(* ===== verification/Checker_Laws.thy ===== *)
theory Checker_Laws
  imports Checker
begin

lemma to_OpCode_Some: "0 \<le> n \<Longrightarrow> n < NUM_OPCODES \<Longrightarrow> \<exists>oc. to_OpCode n = Some oc \<and> of_OpCode oc = n"
proof -
  assume n: "0 \<le> n" "n < NUM_OPCODES"
  have "\<forall>j\<in>set [0..<38]. map_option of_OpCode (to_OpCode (int j)) = Some (int j)" by code_simp
  moreover have "nat n \<in> set [0..<38]" using n by (simp add: NUM_OPCODES_def)
  ultimately have "map_option of_OpCode (to_OpCode (int (nat n))) = Some (int (nat n))" by blast
  then show ?thesis using n by auto
qed

lemma all_opcodes_complete: "oc \<in> set all_opcodes"
  by (cases oc) (simp_all add: all_opcodes_def)

lemma getOpMode_table:
  "getOpMode (of_OpCode oc) = Some
     (if oc = OP_LOADK \<or> oc = OP_GETGLOBAL \<or> oc = OP_SETGLOBAL \<or> oc = OP_CLOSURE then iABx
      else if oc = OP_JMP \<or> oc = OP_FORLOOP \<or> oc = OP_FORPREP then iAsBx else iABC)"
proof -
  have "\<forall>oc \<in> set all_opcodes. getOpMode (of_OpCode oc) = Some
     (if oc = OP_LOADK \<or> oc = OP_GETGLOBAL \<or> oc = OP_SETGLOBAL \<or> oc = OP_CLOSURE then iABx
      else if oc = OP_JMP \<or> oc = OP_FORLOOP \<or> oc = OP_FORPREP then iAsBx else iABC)"
    by code_simp
  then show ?thesis using all_opcodes_complete by blast
qed

lemma getBMode_table:
  "getBMode (of_OpCode oc) = Some (case oc of
     OP_MOVE \<Rightarrow> OpArgR | OP_LOADNIL \<Rightarrow> OpArgR | OP_GETTABLE \<Rightarrow> OpArgR | OP_SELF \<Rightarrow> OpArgR
   | OP_UNM \<Rightarrow> OpArgR | OP_NOT \<Rightarrow> OpArgR | OP_LEN \<Rightarrow> OpArgR | OP_CONCAT \<Rightarrow> OpArgR | OP_JMP \<Rightarrow> OpArgR
   | OP_TEST \<Rightarrow> OpArgR | OP_TESTSET \<Rightarrow> OpArgR | OP_FORLOOP \<Rightarrow> OpArgR | OP_FORPREP \<Rightarrow> OpArgR
   | OP_LOADK \<Rightarrow> OpArgK | OP_GETGLOBAL \<Rightarrow> OpArgK | OP_SETGLOBAL \<Rightarrow> OpArgK | OP_SETTABLE \<Rightarrow> OpArgK
   | OP_ADD \<Rightarrow> OpArgK | OP_SUB \<Rightarrow> OpArgK | OP_MUL \<Rightarrow> OpArgK | OP_DIV \<Rightarrow> OpArgK | OP_MOD \<Rightarrow> OpArgK
   | OP_POW \<Rightarrow> OpArgK | OP_EQ \<Rightarrow> OpArgK | OP_LT \<Rightarrow> OpArgK | OP_LE \<Rightarrow> OpArgK
   | OP_TFORLOOP \<Rightarrow> OpArgN | OP_CLOSE \<Rightarrow> OpArgN
   | _ \<Rightarrow> OpArgU)"
proof -
  have "\<forall>oc \<in> set all_opcodes. getBMode (of_OpCode oc) = Some (case oc of
     OP_MOVE \<Rightarrow> OpArgR | OP_LOADNIL \<Rightarrow> OpArgR | OP_GETTABLE \<Rightarrow> OpArgR | OP_SELF \<Rightarrow> OpArgR
   | OP_UNM \<Rightarrow> OpArgR | OP_NOT \<Rightarrow> OpArgR | OP_LEN \<Rightarrow> OpArgR | OP_CONCAT \<Rightarrow> OpArgR | OP_JMP \<Rightarrow> OpArgR
   | OP_TEST \<Rightarrow> OpArgR | OP_TESTSET \<Rightarrow> OpArgR | OP_FORLOOP \<Rightarrow> OpArgR | OP_FORPREP \<Rightarrow> OpArgR
   | OP_LOADK \<Rightarrow> OpArgK | OP_GETGLOBAL \<Rightarrow> OpArgK | OP_SETGLOBAL \<Rightarrow> OpArgK | OP_SETTABLE \<Rightarrow> OpArgK
   | OP_ADD \<Rightarrow> OpArgK | OP_SUB \<Rightarrow> OpArgK | OP_MUL \<Rightarrow> OpArgK | OP_DIV \<Rightarrow> OpArgK | OP_MOD \<Rightarrow> OpArgK
   | OP_POW \<Rightarrow> OpArgK | OP_EQ \<Rightarrow> OpArgK | OP_LT \<Rightarrow> OpArgK | OP_LE \<Rightarrow> OpArgK
   | OP_TFORLOOP \<Rightarrow> OpArgN | OP_CLOSE \<Rightarrow> OpArgN
   | _ \<Rightarrow> OpArgU)"
    by code_simp
  then show ?thesis using all_opcodes_complete by blast
qed

lemma getCMode_table:
  "getCMode (of_OpCode oc) = Some (case oc of
     OP_GETTABLE \<Rightarrow> OpArgK | OP_SETTABLE \<Rightarrow> OpArgK | OP_SELF \<Rightarrow> OpArgK
   | OP_ADD \<Rightarrow> OpArgK | OP_SUB \<Rightarrow> OpArgK | OP_MUL \<Rightarrow> OpArgK | OP_DIV \<Rightarrow> OpArgK | OP_MOD \<Rightarrow> OpArgK
   | OP_POW \<Rightarrow> OpArgK | OP_EQ \<Rightarrow> OpArgK | OP_LT \<Rightarrow> OpArgK | OP_LE \<Rightarrow> OpArgK | OP_CONCAT \<Rightarrow> OpArgR
   | OP_LOADBOOL \<Rightarrow> OpArgU | OP_NEWTABLE \<Rightarrow> OpArgU | OP_TEST \<Rightarrow> OpArgU | OP_TESTSET \<Rightarrow> OpArgU
   | OP_CALL \<Rightarrow> OpArgU | OP_TAILCALL \<Rightarrow> OpArgU | OP_TFORLOOP \<Rightarrow> OpArgU | OP_SETLIST \<Rightarrow> OpArgU
   | _ \<Rightarrow> OpArgN)"
proof -
  have "\<forall>oc \<in> set all_opcodes. getCMode (of_OpCode oc) = Some (case oc of
     OP_GETTABLE \<Rightarrow> OpArgK | OP_SETTABLE \<Rightarrow> OpArgK | OP_SELF \<Rightarrow> OpArgK
   | OP_ADD \<Rightarrow> OpArgK | OP_SUB \<Rightarrow> OpArgK | OP_MUL \<Rightarrow> OpArgK | OP_DIV \<Rightarrow> OpArgK | OP_MOD \<Rightarrow> OpArgK
   | OP_POW \<Rightarrow> OpArgK | OP_EQ \<Rightarrow> OpArgK | OP_LT \<Rightarrow> OpArgK | OP_LE \<Rightarrow> OpArgK | OP_CONCAT \<Rightarrow> OpArgR
   | OP_LOADBOOL \<Rightarrow> OpArgU | OP_NEWTABLE \<Rightarrow> OpArgU | OP_TEST \<Rightarrow> OpArgU | OP_TESTSET \<Rightarrow> OpArgU
   | OP_CALL \<Rightarrow> OpArgU | OP_TAILCALL \<Rightarrow> OpArgU | OP_TFORLOOP \<Rightarrow> OpArgU | OP_SETLIST \<Rightarrow> OpArgU
   | _ \<Rightarrow> OpArgN)"
    by code_simp
  then show ?thesis using all_opcodes_complete by blast
qed

lemma testTMode_table:
  "testTMode (of_OpCode oc) = Some (case oc of OP_EQ \<Rightarrow> True | OP_LT \<Rightarrow> True | OP_LE \<Rightarrow> True
     | OP_TEST \<Rightarrow> True | OP_TESTSET \<Rightarrow> True | OP_TFORLOOP \<Rightarrow> True | _ \<Rightarrow> False)"
proof -
  have "\<forall>oc \<in> set all_opcodes. testTMode (of_OpCode oc) = Some (case oc of OP_EQ \<Rightarrow> True | OP_LT \<Rightarrow> True | OP_LE \<Rightarrow> True
     | OP_TEST \<Rightarrow> True | OP_TESTSET \<Rightarrow> True | OP_TFORLOOP \<Rightarrow> True | _ \<Rightarrow> False)"
    by code_simp
  then show ?thesis using all_opcodes_complete by blast
qed

lemmas mode_tables = getOpMode_table getBMode_table getCMode_table testTMode_table

lemma of_OpCode_inj [simp]: "of_OpCode a = of_OpCode b \<longleftrightarrow> a = b"
  by (metis option.inject to_of_OpCode)

lemma GET_OPCODE_nonneg [simp]: "0 \<le> GET_OPCODE i"
  using GET_bounds by blast

lemma load_at [simp]: "0 \<le> i \<Longrightarrow> i < int (length xs) \<Longrightarrow> load xs i f = f (xs ! nat i)"
  by (auto simp: load_def at_def)

declare of_OpCode.simps [simp del]

text \<open>The instruction at a position, its opcode, and the operands the format defines.\<close>

definition code_at :: "Proto \<Rightarrow> int \<Rightarrow> Instruction" where
  "code_at pt pc = p_code pt ! nat pc"

definition opcode_at :: "Proto \<Rightarrow> int \<Rightarrow> OpCode option" where
  "opcode_at pt pc = to_OpCode (GET_OPCODE (code_at pt pc))"

definition argB :: "OpCode \<Rightarrow> Instruction \<Rightarrow> int" where
  "argB oc i = (case the (getOpMode (of_OpCode oc)) of
     iABC \<Rightarrow> GETARG_B i | iABx \<Rightarrow> GETARG_Bx i | iAsBx \<Rightarrow> GETARG_sBx i)"

definition argC :: "OpCode \<Rightarrow> Instruction \<Rightarrow> int" where
  "argC oc i = (if the (getOpMode (of_OpCode oc)) = iABC then GETARG_C i else 0)"

text \<open>What the decoding part of a step establishes.\<close>

definition decoded :: "Proto \<Rightarrow> int \<Rightarrow> OpCode \<Rightarrow> Instruction \<Rightarrow> bool" where
  "decoded pt pc oc i \<longleftrightarrow>
     checkreg pt (GETARG_A i) \<and>
     (case the (getOpMode (of_OpCode oc)) of
        iABC \<Rightarrow> checkArgMode pt (GETARG_B i) (the (getBMode (of_OpCode oc))) \<and>
               checkArgMode pt (GETARG_C i) (the (getCMode (of_OpCode oc)))
      | iABx \<Rightarrow> getBMode (of_OpCode oc) = Some OpArgK \<longrightarrow> GETARG_Bx i < sizek pt
      | iAsBx \<Rightarrow> (let dest = pc + 1 + GETARG_sBx i in
           0 \<le> dest \<and> dest < sizecode pt \<and> even (setlist_run (p_code pt) (nat dest)))) \<and>
     (testTMode (of_OpCode oc) = Some True \<longrightarrow>
        pc + 2 < sizecode pt \<and> is_op (code_at pt (pc + 1)) OP_JMP)"

lemma sym_step_decode:
  assumes "0 \<le> pc" "pc < sizecode pt"
  defines "i \<equiv> code_at pt pc"
  shows "sym_step pt lastpc reg pc lst =
    (case opcode_at pt pc of
       None \<Rightarrow> Reject
     | Some oc \<Rightarrow>
         if decoded pt pc oc i then
           sym_switch pt lastpc reg oc (GETARG_A i) (argB oc i) (argC oc i) pc
             (if testAMode (of_OpCode oc) = Some True \<and> GETARG_A i = reg then pc else lst)
         else Reject)"
proof (cases "GET_OPCODE i < NUM_OPCODES")
  case False
  then have "opcode_at pt pc = None" 
    by (simp add: opcode_at_def to_OpCode_def at_def all_opcodes_def NUM_OPCODES_def i_def)
  with False show ?thesis using assms(1,2)
    by (simp add: sym_step_def chk_def Let_def sizecode_def i_def code_at_def)
next
  case True
  then obtain oc where oc: "to_OpCode (GET_OPCODE i) = Some oc" "of_OpCode oc = GET_OPCODE i"
    using to_OpCode_Some [OF GET_OPCODE_nonneg True] by blast
  have l: "load (p_code pt) (pc + 1) f = f (code_at pt (pc + 1))" if "pc + 2 < sizecode pt" for f :: "Instruction \<Rightarrow> sym"
    using assms(1) that by (simp add: sizecode_def code_at_def)
  have 1: "sym_step pt lastpc reg pc lst =
     chk (checkreg pt (GETARG_A i)) (sym_operands pt pc (of_OpCode oc) i (\<lambda>b c.
       let lst = (if testAMode (of_OpCode oc) = Some True \<and> GETARG_A i = reg then pc else lst);
           r = sym_switch pt lastpc reg oc (GETARG_A i) b c pc lst
       in if testTMode (of_OpCode oc) = Some True then
            chk (pc + 2 < sizecode pt) (chk (is_op (code_at pt (pc + 1)) OP_JMP) r) else r))"
    using assms(1,2) True oc l
    by (simp add: sym_step_def chk_def Let_def sizecode_def [of pt] i_def code_at_def cong: if_cong)
  have 2: "opcode_at pt pc = Some oc" using oc by (simp add: opcode_at_def i_def)
  have r0: "setlist_run (p_code pt) (nat d) = 0" if "0 \<le> d" "\<not> d > 0" for d
    using that by simp
  show ?thesis
    unfolding 1 2 option.case decoded_def sym_operands_def mode_tables
    by (cases "getOpMode (of_OpCode oc)" ) (auto simp: mode_tables chk_def Let_def argB_def argC_def r0 split: OpMode.split OpCode.split)
qed

subsection \<open>The checker reads only inside the arrays\<close>

lemma opcode_at_Some: "opcode_at pt pc = Some oc \<Longrightarrow> GET_OPCODE (code_at pt pc) = of_OpCode oc"
proof -
  assume a: "opcode_at pt pc = Some oc"
  then have "GET_OPCODE (code_at pt pc) < NUM_OPCODES"
    by (auto simp: opcode_at_def to_OpCode_def at_def all_opcodes_def NUM_OPCODES_def split: if_splits)
  from to_OpCode_Some [OF GET_OPCODE_nonneg this] a show ?thesis by (auto simp: opcode_at_def)
qed

lemma is_op_code_at: "opcode_at pt pc = Some oc \<Longrightarrow> is_op (code_at pt pc) op \<longleftrightarrow> oc = op"
  using opcode_at_Some [of pt pc oc] by (simp add: is_op_def)

lemma opcode_at_iff: "opcode_at pt pc = Some oc \<longleftrightarrow> is_op (code_at pt pc) oc"
  using opcode_at_Some [of pt pc oc] to_of_OpCode [of oc] by (auto simp: is_op_def opcode_at_def)

lemma precheck_last: "precheck pt \<Longrightarrow> opcode_at pt (sizecode pt - 1) = Some OP_RETURN"
  by (simp add: opcode_at_iff code_at_def precheck_def)

lemma not_return_Suc:
  assumes "precheck pt" "0 \<le> pc" "pc < sizecode pt" "opcode_at pt pc = Some oc" "oc \<noteq> OP_RETURN"
  shows "pc + 1 < sizecode pt"
  using precheck_last [OF assms(1)] assms(2-5) by (cases "pc = sizecode pt - 1") auto

lemma load_code: "0 \<le> i \<Longrightarrow> i < sizecode pt \<Longrightarrow> load (p_code pt) i f = f (code_at pt i)"
  by (simp add: sizecode_def code_at_def)

lemma argB_simps:
  "argB OP_CLOSURE i = GETARG_Bx i" "argB OP_GETGLOBAL i = GETARG_Bx i" "argB OP_SETGLOBAL i = GETARG_Bx i"
  by (simp_all add: argB_def getOpMode_table)

definition sym_ok :: "Proto \<Rightarrow> sym \<Rightarrow> bool" where
  "sym_ok pt r = (case r of Crash \<Rightarrow> False | Reject \<Rightarrow> True | Go pc' l' \<Rightarrow> 0 \<le> l' \<and> l' < sizecode pt)"

lemma sym_ok_simps [simp]:
  "sym_ok pt Reject" "\<not> sym_ok pt Crash" "sym_ok pt (Go pc' l') \<longleftrightarrow> 0 \<le> l' \<and> l' < sizecode pt"
  "sym_ok pt (chk b r) \<longleftrightarrow> (b \<longrightarrow> sym_ok pt r)"
  "sym_ok pt (if b then r else r') \<longleftrightarrow> (if b then sym_ok pt r else sym_ok pt r')"
  by (simp_all add: sym_ok_def chk_def)

lemma sym_switch_total:
  assumes "precheck pt" "0 \<le> pc" "pc < sizecode pt" "0 \<le> lst" "lst < sizecode pt"
    and oc: "opcode_at pt pc = Some oc" "decoded pt pc oc (code_at pt pc)"
  shows "sym_ok pt (sym_switch pt lastpc reg oc a (argB oc (code_at pt pc)) c pc lst)"
proof -
  have n: "oc \<noteq> OP_RETURN \<Longrightarrow> pc + 1 < sizecode pt"
    using not_return_Suc [OF assms(1-3) oc(1)] .
  have o: "sym_ok pt (sym_open pt pc r) \<longleftrightarrow> (luaG_checkopenop (code_at pt (pc + 1)) \<longrightarrow> sym_ok pt r)"
    if "oc \<noteq> OP_RETURN" for r
    using n [OF that] assms(2) by (simp add: sym_open_def load_code)
  have b: "0 \<le> GETARG_Bx (code_at pt pc)" using GET_bounds by blast
  have k: "GETARG_Bx (code_at pt pc) < sizek pt" if "oc = OP_GETGLOBAL \<or> oc = OP_SETGLOBAL"
    using oc(2) that by (auto simp: decoded_def mode_tables)
  have j: "sym_ok pt (sym_jump reg lastpc b' pc lst)" for b'
    using assms(4,5) by (simp add: sym_jump_def Let_def)
  have cl: "load (p_p pt) x f = f (p_p pt ! nat x)" if "x < sizep pt" "0 \<le> x" for x and f :: "Proto \<Rightarrow> sym"
    using that by (simp add: sizep_def)
  have lb: "load (p_code pt) (pc + 1) f = f (code_at pt (pc + 1))" if "pc + 2 < sizecode pt" for f
    using assms(2) that by (simp add: load_code)
  show ?thesis
    using assms(2-5) o j b k
    by (cases oc) (simp_all add: sym_switch_def sym_call_def Let_def argB_simps cl lb sizek_def)
qed

lemma sym_step_total:
  assumes "precheck pt" "0 \<le> pc" "pc < sizecode pt" "0 \<le> lst" "lst < sizecode pt"
  shows "sym_ok pt (sym_step pt lastpc reg pc lst)"
  unfolding sym_step_decode [OF assms(2,3)]
  using sym_switch_total [OF assms(1-3)] assms(2-5) by (auto split: option.split)

lemma symbexec_loop_total:
  assumes "precheck pt" "0 \<le> pc" "lastpc \<le> sizecode pt" "0 \<le> lst" "lst < sizecode pt"
  shows "sym_ok pt (symbexec_loop pt lastpc reg pc lst)"
  using assms
proof (induction pt lastpc reg pc lst rule: symbexec_loop.induct)
  case (1 pt lastpc reg pc lst)
  show ?case
  proof (cases "pc < lastpc")
    case True
    then have ok: "sym_ok pt (sym_step pt lastpc reg pc lst)"
      using sym_step_total "1.prems" by auto
    show ?thesis
    proof (cases "sym_step pt lastpc reg pc lst")
      case (Go pc' l')
      have "pc \<le> pc'" by (rule sym_step_ge [OF Go])
      then have "sym_ok pt (symbexec_loop pt lastpc reg (pc' + 1) l')"
        using "1.IH" [OF True Go] "1.prems" ok Go by simp
      with True Go show ?thesis by (subst symbexec_loop.simps) simp
    qed (use ok True in \<open>simp_all add: symbexec_loop.simps [of pt lastpc reg pc lst]\<close>)
  qed (use 1 in \<open>simp add: symbexec_loop.simps [of pt lastpc reg pc lst]\<close>)
qed

lemma symbexec_total: "lastpc \<le> sizecode pt \<Longrightarrow> \<exists>i. symbexec pt lastpc reg = Some i"
proof -
  assume l: "lastpc \<le> sizecode pt"
  show ?thesis
  proof (cases "precheck pt")
    case True
    then have s: "0 < sizecode pt" by (simp add: precheck_def)
    have "sym_ok pt (symbexec_loop pt lastpc reg 0 (sizecode pt - 1))"
      by (rule symbexec_loop_total [OF True _ l]) (use s in simp_all)
    then show ?thesis
      using True by (cases "symbexec_loop pt lastpc reg 0 (sizecode pt - 1)")
        (auto simp: symbexec_def at_def sizecode_def nat_less_iff)
  qed (simp add: symbexec_def)
qed


end
