(* ===== verification/Checker_Flow.thy ===== *)
theory Checker_Flow
  imports Checker_Laws
begin

text \<open>
  What acceptance by the checker means for execution.  \<open>vm_next\<close> lists where the main loop of
  \<^verbatim>\<open>luaV_execute\<close> may continue after an instruction.  Accepted code keeps every such position
  inside the code and on an instruction (never on the count word that follows a
  \<^const>\<open>OP_SETLIST\<close>), and every instruction reached has its operands in range.
\<close>

subsection \<open>The positions the checker visits\<close>

definition scan_next :: "Proto \<Rightarrow> int \<Rightarrow> int" where
  "scan_next pt pc = pc + (if setlist0 (code_at pt pc) then 2 else 1)"

inductive scan :: "Proto \<Rightarrow> int \<Rightarrow> int \<Rightarrow> bool" for pt where
  here: "scan pt p p"
| on: "p < sizecode pt \<Longrightarrow> scan pt (scan_next pt p) q \<Longrightarrow> scan pt p q"

inductive_cases scanE: "scan pt p q"

lemma scan_snoc: "scan pt p q \<Longrightarrow> q < sizecode pt \<Longrightarrow> scan pt p (scan_next pt q)"
  by (induction rule: scan.induct) (auto intro: scan.intros)

lemma scan_ge: "scan pt p q \<Longrightarrow> p \<le> q"
  by (induction rule: scan.induct) (auto simp: scan_next_def split: if_splits)

lemma scan_or_count:
  "int n \<le> sizecode pt \<Longrightarrow>
     scan pt 0 (int n) \<or> (0 < n \<and> scan pt 0 (int n - 1) \<and> setlist0 (code_at pt (int n - 1)))"
proof (induction n)
  case (Suc n)
  then consider "scan pt 0 (int n)" | "0 < n" "scan pt 0 (int n - 1)" "setlist0 (code_at pt (int n - 1))"
    by auto
  then show ?case
  proof cases
    case 1
    from scan_snoc [OF this] Suc.prems show ?thesis
      using 1 by (cases "setlist0 (code_at pt (int n))") (auto simp: scan_next_def add.commute)
  next
    case 2
    from scan_snoc [OF this(2)] Suc.prems 2(3) show ?thesis by (simp add: scan_next_def add.commute)
  qed
qed (simp add: scan.here)

text \<open>The parity test on a jump target recognises the count words exactly.\<close>

lemma even_run_scan:
  "int d \<le> sizecode pt \<Longrightarrow> even (setlist_run (p_code pt) d) \<Longrightarrow> scan pt 0 (int d)"
proof (induction d rule: less_induct)
  case (less d)
  show ?case
  proof (cases "d = 0 \<or> \<not> setlist0 (code_at pt (int d - 1))")
    case True
    then show ?thesis using scan_or_count [OF less.prems(1)] scan.here by auto
  next
    case False
    then obtain c where c: "d = Suc c" "setlist0 (p_code pt ! c)"
      by (cases d) (simp_all add: code_at_def)
    then have "odd (setlist_run (p_code pt) c)" using less.prems(2) by simp
    then obtain b where b: "c = Suc b" "setlist0 (p_code pt ! b)" "even (setlist_run (p_code pt) b)"
      by (cases c) (auto split: if_splits)
    have "scan pt 0 (int b)" using less.IH [of b] less.prems(1) b(3) c(1) b(1) by simp
    from scan_snoc [OF this] less.prems(1) b(1,2) c(1) show ?thesis
      by (simp add: scan_next_def code_at_def add.commute)
  qed
qed

subsection \<open>Acceptance\<close>

definition accepted_at :: "Proto \<Rightarrow> int \<Rightarrow> bool" where
  "accepted_at pt pc \<longleftrightarrow> (\<exists>lst pc' l'. sym_step pt (sizecode pt) NO_REG pc lst = Go pc' l')"

lemma sym_step_next:
  assumes "0 \<le> pc" "pc < sizecode pt" "sym_step pt lastpc NO_REG pc lst = Go pc' l'"
  shows "pc' + 1 = scan_next pt pc"
proof -
  obtain oc where oc: "opcode_at pt pc = Some oc"
    and s: "sym_switch pt lastpc NO_REG oc (GETARG_A (code_at pt pc)) (argB oc (code_at pt pc))
      (argC oc (code_at pt pc)) pc
      (if testAMode (of_OpCode oc) = Some True \<and> GETARG_A (code_at pt pc) = NO_REG then pc else lst) = Go pc' l'"
    using assms(3) unfolding sym_step_decode [OF assms(1,2)] by (auto split: option.splits if_splits)
  have "setlist0 (code_at pt pc) \<longleftrightarrow> oc = OP_SETLIST \<and> GETARG_C (code_at pt pc) = 0"
    using is_op_code_at [OF oc] by (simp add: setlist0_def)
  then show ?thesis using s
    by (cases oc) (auto simp: sym_switch_def sym_call_def sym_open_def sym_jump_def chk_def load_def
        Let_def scan_next_def argC_def getOpMode_table split: if_splits option.splits)
qed

lemma loop_accepts:
  assumes "symbexec_loop pt lastpc NO_REG pc lst = Go r l" "lastpc = sizecode pt" "0 \<le> pc"
    "scan pt pc q" "q < sizecode pt"
  shows "accepted_at pt q"
  using assms
proof (induction pt lastpc "NO_REG" pc lst rule: symbexec_loop.induct)
  case (1 pt lastpc pc lst)
  have pc: "pc < sizecode pt" using scan_ge 1 by force
  then obtain pc' l' where s: "sym_step pt lastpc NO_REG pc lst = Go pc' l'"
    and r: "symbexec_loop pt lastpc NO_REG (pc' + 1) l' = Go r l"
    using "1.prems"(1,2) by (subst (asm) symbexec_loop.simps) (auto split: sym.splits)
  note n = sym_step_next [OF "1.prems"(3) pc s]
  have ge: "0 \<le> pc' + 1" using sym_step_ge [OF s] "1.prems"(3) by simp
  from "1.prems"(4) show ?case
  proof (cases rule: scan.cases)
    case here
    then show ?thesis using s "1.prems"(2) by (auto simp: accepted_at_def)
  next
    case on
    then show ?thesis using "1.hyps" [OF _ s] r "1.prems"(2,5) pc n ge by simp
  qed
qed

lemma checkcode_accepts:
  assumes "luaG_checkcode pt = Some True"
  shows "precheck pt" "scan pt 0 pc \<Longrightarrow> pc < sizecode pt \<Longrightarrow> accepted_at pt pc"
proof -
  show p: "precheck pt"
    using assms by (auto simp: luaG_checkcode_def symbexec_def split: if_splits)
  assume "scan pt 0 pc" "pc < sizecode pt"
  moreover obtain r l where "symbexec_loop pt (sizecode pt) NO_REG 0 (sizecode pt - 1) = Go r l"
    using assms p by (auto simp: luaG_checkcode_def symbexec_def split: sym.splits)
  ultimately show "accepted_at pt pc" using loop_accepts by blast
qed

subsection \<open>What one accepted instruction guarantees\<close>

definition switch_ok :: "Proto \<Rightarrow> int \<Rightarrow> OpCode \<Rightarrow> Instruction \<Rightarrow> bool" where
  "switch_ok pt pc oc i \<longleftrightarrow>
     (case oc of
        OP_LOADBOOL \<Rightarrow> GETARG_C i = 1 \<longrightarrow> pc + 2 < sizecode pt \<and> \<not> setlist0 (code_at pt (pc + 1))
      | OP_GETUPVAL \<Rightarrow> GETARG_B i < uint (p_nups pt)
      | OP_SETUPVAL \<Rightarrow> GETARG_B i < uint (p_nups pt)
      | OP_GETGLOBAL \<Rightarrow> GETARG_Bx i < sizek pt \<and> kttype (p_k pt ! nat (GETARG_Bx i)) = 4
      | OP_SETGLOBAL \<Rightarrow> GETARG_Bx i < sizek pt \<and> kttype (p_k pt ! nat (GETARG_Bx i)) = 4
      | OP_SETLIST \<Rightarrow> GETARG_C i = 0 \<longrightarrow> pc + 2 < sizecode pt
      | OP_CLOSURE \<Rightarrow> GETARG_Bx i < sizep pt \<and>
          (let nup = uint (p_nups (p_p pt ! nat (GETARG_Bx i))) in
           pc + nup < sizecode pt \<and> pseudo_ok pt pc (nat nup))
      | _ \<Rightarrow> True)"

lemma accepted_step:
  assumes "accepted_at pt pc" "0 \<le> pc" "pc < sizecode pt"
  shows "\<exists>oc. opcode_at pt pc = Some oc \<and> decoded pt pc oc (code_at pt pc) \<and> switch_ok pt pc oc (code_at pt pc)"
proof -
  obtain lst pc' l' oc where oc: "opcode_at pt pc = Some oc" "decoded pt pc oc (code_at pt pc)"
    and s: "sym_switch pt (sizecode pt) NO_REG oc (GETARG_A (code_at pt pc)) (argB oc (code_at pt pc))
      (argC oc (code_at pt pc)) pc lst = Go pc' l'"
    using assms(1) unfolding accepted_at_def sym_step_decode [OF assms(2,3)]
    by (auto split: option.splits if_splits)
  have "switch_ok pt pc oc (code_at pt pc)"
    using s GET_bounds(9) [of "code_at pt pc"] assms(2,3)
    by (cases oc) (auto simp: switch_ok_def sym_switch_def chk_def load_def at_def Let_def argB_def argC_def
        getOpMode_table setlist0_def code_at_def sizek_def sizep_def sizecode_def nat_add_distrib
        split: if_splits)
  with oc show ?thesis by blast
qed

subsection \<open>Control flow of the interpreter\<close>

text \<open>
  The positions at which \<^verbatim>\<open>luaV_execute\<close> may continue in the same function.  A test is
  followed by a jump whose offset it applies itself; \<^verbatim>\<open>OP_LOADBOOL\<close> skips when C is not zero;
  \<^verbatim>\<open>OP_CLOSURE\<close> consumes the pseudo instructions that name its upvalues.
\<close>

definition vm_next :: "Proto \<Rightarrow> int \<Rightarrow> int list" where
  "vm_next pt pc =
     (let i = code_at pt pc; target = (\<lambda>p. p + 1 + GETARG_sBx (code_at pt p)) in
      case opcode_at pt pc of
        None \<Rightarrow> []
      | Some oc \<Rightarrow> (case oc of
          OP_JMP \<Rightarrow> [target pc]
        | OP_FORPREP \<Rightarrow> [target pc]
        | OP_FORLOOP \<Rightarrow> [pc + 1, target pc]
        | OP_EQ \<Rightarrow> [pc + 2, target (pc + 1)]
        | OP_LT \<Rightarrow> [pc + 2, target (pc + 1)]
        | OP_LE \<Rightarrow> [pc + 2, target (pc + 1)]
        | OP_TEST \<Rightarrow> [pc + 2, target (pc + 1)]
        | OP_TESTSET \<Rightarrow> [pc + 2, target (pc + 1)]
        | OP_TFORLOOP \<Rightarrow> [pc + 2, target (pc + 1)]
        | OP_LOADBOOL \<Rightarrow> [if GETARG_C i \<noteq> 0 then pc + 2 else pc + 1]
        | OP_SETLIST \<Rightarrow> [if GETARG_C i = 0 then pc + 2 else pc + 1]
        | OP_CLOSURE \<Rightarrow> [pc + 1 + uint (p_nups (p_p pt ! nat (GETARG_Bx i)))]
        | OP_RETURN \<Rightarrow> []
        | _ \<Rightarrow> [pc + 1]))"

inductive vm_reach :: "Proto \<Rightarrow> int \<Rightarrow> bool" for pt where
  entry: "vm_reach pt 0"
| step: "vm_reach pt pc \<Longrightarrow> q \<in> set (vm_next pt pc) \<Longrightarrow> vm_reach pt q"

text \<open>The compiler emits \<^verbatim>\<open>OP_LOADBOOL\<close> with C 0 or 1 only.\<close>

definition loadbools_plain :: "Proto \<Rightarrow> bool" where
  "loadbools_plain pt \<longleftrightarrow> (\<forall>i \<in> set (p_code pt). is_op i OP_LOADBOOL \<longrightarrow> GETARG_C i \<le> 1)"

definition on_code :: "Proto \<Rightarrow> int \<Rightarrow> bool" where
  "on_code pt q \<longleftrightarrow> scan pt 0 q \<and> 0 \<le> q \<and> q < sizecode pt"

lemma on_code_jump:
  assumes "decoded pt pc oc (code_at pt pc)" "oc = OP_JMP \<or> oc = OP_FORLOOP \<or> oc = OP_FORPREP"
  shows "on_code pt (pc + 1 + GETARG_sBx (code_at pt pc))"
proof -
  let ?d = "pc + 1 + GETARG_sBx (code_at pt pc)"
  have d: "0 \<le> ?d" "?d < sizecode pt" "even (setlist_run (p_code pt) (nat ?d))"
    using assms by (auto simp: decoded_def getOpMode_table Let_def)
  from even_run_scan [of "nat ?d" pt] d show ?thesis by (simp add: on_code_def)
qed

lemma on_code_next:
  assumes "on_code pt pc" "scan_next pt pc < sizecode pt"
  shows "on_code pt (scan_next pt pc)"
  using assms scan_snoc [of pt 0 pc] by (auto simp: on_code_def scan_next_def)

lemma on_code_pseudo:
  assumes "on_code pt pc" "\<not> setlist0 (code_at pt pc)" "pc + int n < sizecode pt" "pseudo_ok pt pc n" "j \<le> n"
  shows "on_code pt (pc + int j)"
  using assms(5)
proof (induction j)
  case (Suc j)
  then have IH: "on_code pt (pc + int j)" by simp
  have "pseudo_ok pt pc m" if "m \<le> n" for m
    using assms(4) that by (induction n) (auto simp: le_Suc_eq Let_def)
  then have p: "pseudo_ok pt pc j" using Suc.prems by simp
  have "\<not> setlist0 (code_at pt (pc + int j))"
    using assms(2) p by (cases j) (auto simp: setlist0_def is_op_def code_at_def Let_def)
  then show ?case using on_code_next [OF IH] Suc.prems assms(3) by (simp add: scan_next_def add.commute add.left_commute)
qed (use assms(1) in simp)

lemma vm_next_on_code:
  assumes acc: "luaG_checkcode pt = Some True" and lb: "loadbools_plain pt"
    and pc: "on_code pt pc" and q: "q \<in> set (vm_next pt pc)"
  shows "on_code pt q"
proof -
  note pre = checkcode_accepts(1) [OF acc]
  have b: "0 \<le> pc" "pc < sizecode pt" "scan pt 0 pc" using pc by (simp_all add: on_code_def)
  have dec: "\<exists>oc. opcode_at pt p = Some oc \<and> decoded pt p oc (code_at pt p) \<and> switch_ok pt p oc (code_at pt p)"
    if "on_code pt p" for p
    using accepted_step [OF checkcode_accepts(2) [OF acc]] that by (auto simp: on_code_def)
  obtain oc where oc: "opcode_at pt pc = Some oc" "decoded pt pc oc (code_at pt pc)" "switch_ok pt pc oc (code_at pt pc)"
    using dec [OF pc] by blast
  let ?i = "code_at pt pc"
  have s0: "setlist0 ?i \<longleftrightarrow> oc = OP_SETLIST \<and> GETARG_C ?i = 0"
    using is_op_code_at [OF oc(1)] by (simp add: setlist0_def)
  have succ: "on_code pt (pc + 1)" if "oc \<noteq> OP_RETURN" "\<not> setlist0 ?i"
    using on_code_next [OF pc] not_return_Suc [OF pre b(1,2) oc(1) that(1)] that(2)
    by (simp add: scan_next_def)
  have test: "on_code pt (pc + 2) \<and> on_code pt (pc + 2 + GETARG_sBx (code_at pt (pc + 1)))"
    if t: "testTMode (of_OpCode oc) = Some True"
  proof -
    have d: "pc + 2 < sizecode pt" "is_op (code_at pt (pc + 1)) OP_JMP"
      using oc(2) t by (simp_all add: decoded_def)
    have "oc \<noteq> OP_RETURN" "\<not> setlist0 ?i" using t s0 by (auto simp: testTMode_table)
    from succ [OF this] have s: "on_code pt (pc + 1)" .
    have j: "opcode_at pt (pc + 1) = Some OP_JMP" using d(2) by (simp add: opcode_at_iff)
    then have "\<not> setlist0 (code_at pt (pc + 1))" using is_op_code_at by (simp add: setlist0_def)
    with on_code_next [OF s] d(1) have "on_code pt (pc + 2)" by (simp add: scan_next_def add.commute)
    moreover have "on_code pt (pc + 1 + 1 + GETARG_sBx (code_at pt (pc + 1)))"
      using dec [OF s] j on_code_jump [of pt "pc + 1" OP_JMP] by auto
    ultimately show ?thesis by (simp add: add.commute [of 2])
  qed
  show ?thesis
  proof (cases "testTMode (of_OpCode oc) = Some True")
    case True
    then show ?thesis using test q oc(1)
      by (cases oc) (auto simp: vm_next_def testTMode_table add.commute [of 2])
  next
    case False
    consider "oc = OP_JMP \<or> oc = OP_FORLOOP \<or> oc = OP_FORPREP" | "oc = OP_LOADBOOL" | "oc = OP_SETLIST"
      | "oc = OP_CLOSURE" | "oc = OP_RETURN" | "vm_next pt pc = [pc + 1]" "oc \<noteq> OP_RETURN" "oc \<noteq> OP_SETLIST"
      using False oc(1) by (cases oc) (simp_all add: vm_next_def testTMode_table)
    then show ?thesis
    proof cases
      case 1
      then show ?thesis using on_code_jump [OF oc(2)] succ s0 q oc(1) by (auto simp: vm_next_def)
    next
      case 2
      have "?i \<in> set (p_code pt)" using b by (simp add: code_at_def sizecode_def)
      then have c: "GETARG_C ?i \<le> 1" "0 \<le> GETARG_C ?i"
        using lb is_op_code_at [OF oc(1)] 2 GET_bounds(7) by (auto simp: loadbools_plain_def)
      have s: "on_code pt (pc + 1)" using succ s0 2 by simp
      have "on_code pt (pc + 2)" if "GETARG_C ?i = 1"
        using on_code_next [OF s] oc(3) 2 that by (simp add: switch_ok_def scan_next_def add.commute)
      then show ?thesis using s c q oc(1) 2 by (auto simp: vm_next_def split: if_splits)
    next
      case 3
      then show ?thesis using on_code_next [OF pc] succ s0 oc(3) q oc(1)
        by (auto simp: vm_next_def scan_next_def switch_ok_def split: if_splits)
    next
      case 4
      define n where "n = unat (p_nups (p_p pt ! nat (GETARG_Bx ?i)))"
      have n: "uint (p_nups (p_p pt ! nat (GETARG_Bx ?i))) = int n" by (simp add: n_def)
      have c: "pc + int n < sizecode pt" "pseudo_ok pt pc n"
        using oc(3) 4 unfolding switch_ok_def n Let_def by simp_all
      have ns: "\<not> setlist0 ?i" using s0 4 by simp
      have e: "on_code pt (pc + int n)" by (rule on_code_pseudo [OF pc ns c order_refl])
      have "is_op (code_at pt (pc + int n)) OP_CLOSURE \<or> is_op (code_at pt (pc + int n)) OP_GETUPVAL \<or>
          is_op (code_at pt (pc + int n)) OP_MOVE"
        using c(2) is_op_code_at [OF oc(1)] 4 by (cases n) (auto simp: code_at_def Let_def)
      then have "\<not> is_op (code_at pt (pc + int n)) OP_RETURN \<and> \<not> setlist0 (code_at pt (pc + int n))"
        by (auto simp: is_op_def setlist0_def)
      moreover have "pc + int n = sizecode pt - 1 \<Longrightarrow> is_op (code_at pt (pc + int n)) OP_RETURN"
        using precheck_last [OF pre] by (simp add: opcode_at_iff)
      ultimately have "pc + int n + 1 < sizecode pt" "scan_next pt (pc + int n) = pc + int n + 1"
        using c(1) by (cases "pc + int n = sizecode pt - 1"; simp add: scan_next_def)+
      then have "on_code pt (pc + int n + 1)" using on_code_next [OF e] by simp
      then show ?thesis using q oc(1) 4 n by (simp add: vm_next_def add.commute add.left_commute)
    next
      case 6
      then show ?thesis using succ s0 q by simp
    qed (use q oc(1) in \<open>simp add: vm_next_def\<close>)
  qed
qed

text \<open>The operands of an instruction, as the interpreter uses them.\<close>

definition rk_ok :: "Proto \<Rightarrow> int \<Rightarrow> bool" where
  "rk_ok pt r \<longleftrightarrow> (if ISK r then 0 \<le> INDEXK r \<and> INDEXK r < sizek pt else 0 \<le> r \<and> r < maxstack pt)"

definition operand_ok :: "Proto \<Rightarrow> int \<Rightarrow> OpArgMask option \<Rightarrow> bool" where
  "operand_ok pt r m \<longleftrightarrow> (m = Some OpArgR \<longrightarrow> 0 \<le> r \<and> r < maxstack pt) \<and> (m = Some OpArgK \<longrightarrow> rk_ok pt r)"

definition operands_ok :: "Proto \<Rightarrow> int \<Rightarrow> bool" where
  "operands_ok pt pc \<longleftrightarrow>
     (\<exists>oc. opcode_at pt pc = Some oc \<and>
        (let i = code_at pt pc; bx = GETARG_Bx i in
         0 \<le> GETARG_A i \<and> GETARG_A i < maxstack pt \<and>
         (getOpMode (of_OpCode oc) = Some iABC \<longrightarrow>
            operand_ok pt (GETARG_B i) (getBMode (of_OpCode oc)) \<and>
            operand_ok pt (GETARG_C i) (getCMode (of_OpCode oc))) \<and>
         (oc \<in> {OP_LOADK, OP_GETGLOBAL, OP_SETGLOBAL} \<longrightarrow> 0 \<le> bx \<and> bx < sizek pt) \<and>
         (oc \<in> {OP_GETGLOBAL, OP_SETGLOBAL} \<longrightarrow> kttype (p_k pt ! nat bx) = 4) \<and>
         (oc \<in> {OP_GETUPVAL, OP_SETUPVAL} \<longrightarrow> 0 \<le> GETARG_B i \<and> GETARG_B i < uint (p_nups pt)) \<and>
         (oc = OP_CLOSURE \<longrightarrow> 0 \<le> bx \<and> bx < sizep pt)))"

lemma INDEXK_nonneg: "0 \<le> r \<Longrightarrow> 0 \<le> INDEXK r"
  by (simp add: INDEXK_def)

lemma on_code_operands:
  assumes acc: "luaG_checkcode pt = Some True" and pc: "on_code pt pc"
  shows "operands_ok pt pc"
proof -
  obtain oc where oc: "opcode_at pt pc = Some oc" "decoded pt pc oc (code_at pt pc)" "switch_ok pt pc oc (code_at pt pc)"
    using accepted_step [OF checkcode_accepts(2) [OF acc]] pc by (auto simp: on_code_def)
  let ?i = "code_at pt pc"
  have a: "checkArgMode pt r m \<Longrightarrow> 0 \<le> r \<Longrightarrow> operand_ok pt r (Some m)" for r m
    by (auto simp: checkArgMode_def operand_ok_def rk_ok_def checkreg_def INDEXK_nonneg)
  have "getOpMode (of_OpCode oc) = Some iABC \<Longrightarrow>
      operand_ok pt (GETARG_B ?i) (getBMode (of_OpCode oc)) \<and> operand_ok pt (GETARG_C ?i) (getCMode (of_OpCode oc))"
    using oc(2) a GET_bounds(5,7) by (auto simp: decoded_def getBMode_table getCMode_table)
  moreover have "0 \<le> GETARG_A ?i" "GETARG_A ?i < maxstack pt" "0 \<le> GETARG_Bx ?i" "0 \<le> GETARG_B ?i"
    using oc(2) GET_bounds by (auto simp: decoded_def checkreg_def)
  moreover have "oc = OP_LOADK \<Longrightarrow> GETARG_Bx ?i < sizek pt"
    using oc(2) by (simp add: decoded_def mode_tables)
  ultimately show ?thesis using oc(1,3)
    unfolding operands_ok_def Let_def switch_ok_def by (intro exI [of _ oc]) auto
qed

lemma reach_on_code:
  assumes "luaG_checkcode pt = Some True" "loadbools_plain pt" "vm_reach pt pc"
  shows "on_code pt pc"
  using assms(3)
proof (induction rule: vm_reach.induct)
  case entry
  show ?case using checkcode_accepts(1) [OF assms(1)] scan.here
    by (simp add: on_code_def precheck_def)
next
  case (step pc q)
  then show ?case using vm_next_on_code [OF assms(1,2)] by blast
qed


definition branch_demo :: Proto where
  "branch_demo = Proto [KString (Some ''x'')]
     [CREATE_ABx 5 0 0, CREATE_ABC 26 0 0 0, SETARG_sBx 22 1, CREATE_ABC 2 0 1 1, CREATE_ABC 2 0 0 0,
      CREATE_ABC 30 0 2 0] [] [] [] [] (Some ''=?'') 0 0 0 0 0 2"


definition loadbool_demo :: Proto where
  "loadbool_demo = Proto [] [CREATE_ABC 2 0 0 2, CREATE_ABC 30 0 1 0] [] [] [] [] (Some ''=?'') 0 0 0 0 0 1"


end
