(* ===== verification/Undump.thy ===== *)
theory Undump
  imports Dump Zio Checker_Flow
begin

text \<open>
  Loading a precompiled chunk (\<^verbatim>\<open>lundump.c\<close>).  The functions read the stream through
  \<^verbatim>\<open>luaZ_read\<close>, their first argument; a load either throws a syntax error, with its message,
  or yields a value and the rest of the stream (\<^const>\<open>None\<close> is a stream that broke).

  The first argument of \<open>LoadFunction\<close> is the number of C levels left,
  \<^verbatim>\<open>LUAI_MAXCCALLS\<close> minus \<^verbatim>\<open>nCcalls\<close>, which bounds the nesting of functions.
\<close>

type_synonym 'z zread = "'z \<Rightarrow> nat \<Rightarrow> (nat \<times> u8 list \<times> 'z) option"
type_synonym ('z, 'a) load = "'z \<Rightarrow> (string + 'a \<times> 'z) option"

definition retL :: "'a \<Rightarrow> ('z, 'a) load" where
  "retL x z = Some (Inr (x, z))"

definition bindL :: "('z, 'a) load \<Rightarrow> ('a \<Rightarrow> ('z, 'b) load) \<Rightarrow> ('z, 'b) load" where
  "bindL m f z = (case m z of None \<Rightarrow> None | Some (Inl e) \<Rightarrow> Some (Inl e) | Some (Inr (x, z)) \<Rightarrow> f x z)"

definition errorL :: "string \<Rightarrow> string \<Rightarrow> ('z, 'a) load" where
  "errorL name why z = Some (Inl (name @ '': '' @ why @ '' in precompiled chunk''))"

definition IF_L :: "bool \<Rightarrow> string \<Rightarrow> string \<Rightarrow> ('z, 'a) load \<Rightarrow> ('z, 'a) load" where
  "IF_L c name why m = (if c then errorL name why else m)"

definition LoadBlock :: "'z zread \<Rightarrow> string \<Rightarrow> nat \<Rightarrow> ('z, u8 list) load" where
  "LoadBlock rd name sz z =
     (case rd z sz of
        None \<Rightarrow> None
      | Some (r, bs, z) \<Rightarrow> IF_L (r \<noteq> 0) name ''unexpected end'' (retL bs) z)"

definition LoadChar :: "'z zread \<Rightarrow> string \<Rightarrow> ('z, int) load" where
  "LoadChar rd name = bindL (LoadBlock rd name 1) (\<lambda>bs. retL (signed_take_bit 7 (le_val bs)))"

definition LoadByte :: "'z zread \<Rightarrow> string \<Rightarrow> ('z, u8) load" where
  "LoadByte rd name = bindL (LoadChar rd name) (\<lambda>c. retL (word_of_int c))"

definition LoadInt :: "'z zread \<Rightarrow> string \<Rightarrow> ('z, int) load" where
  "LoadInt rd name =
     bindL (LoadBlock rd name 4) (\<lambda>bs.
       let x = signed_take_bit 31 (le_val bs) in IF_L (x < 0) name ''bad integer'' (retL x))"

definition LoadNumber :: "'z zread \<Rightarrow> string \<Rightarrow> ('z, lua_Number) load" where
  "LoadNumber rd name = bindL (LoadBlock rd name 8) (\<lambda>bs. retL (word_of_int (le_val bs)))"

definition LoadString :: "'z zread \<Rightarrow> string \<Rightarrow> ('z, TString) load" where
  "LoadString rd name =
     bindL (LoadBlock rd name 8) (\<lambda>bs.
       let sz = nat (le_val bs) in
       if sz = 0 then retL None
       else bindL (LoadBlock rd name sz) (\<lambda>s. retL (Some (bytes_str (take (sz - 1) s)))))"

fun words :: "nat \<Rightarrow> u8 list \<Rightarrow> int list" where
  "words 0 bs = []"
| "words (Suc n) bs = le_val (take 4 bs) # words n (drop 4 bs)"

definition LoadVector :: "'z zread \<Rightarrow> string \<Rightarrow> nat \<Rightarrow> ('z, int list) load" where
  "LoadVector rd name n = bindL (LoadBlock rd name (n * 4)) (\<lambda>bs. retL (words n bs))"

definition LoadCode :: "'z zread \<Rightarrow> string \<Rightarrow> ('z, Instruction list) load" where
  "LoadCode rd name =
     bindL (LoadInt rd name) (\<lambda>n. bindL (LoadVector rd name (nat n)) (\<lambda>ws. retL (map word_of_int ws)))"

definition LoadConstant :: "'z zread \<Rightarrow> string \<Rightarrow> ('z, Const) load" where
  "LoadConstant rd name =
     bindL (LoadChar rd name) (\<lambda>t.
       if t = 0 then retL KNil
       else if t = 1 then bindL (LoadChar rd name) (\<lambda>b. retL (KBoolean (if b \<noteq> 0 then 1 else 0)))
       else if t = 3 then bindL (LoadNumber rd name) (\<lambda>x. retL (KNumber x))
       else if t = 4 then bindL (LoadString rd name) (\<lambda>s. retL (KString s))
       else errorL name ''bad constant'')"

text \<open>A loop that loads \<open>n\<close> items.\<close>

fun load_n :: "nat \<Rightarrow> ('z, 'a) load \<Rightarrow> ('z, 'a list) load" where
  "load_n 0 m = retL []"
| "load_n (Suc n) m = bindL m (\<lambda>x. bindL (load_n n m) (\<lambda>xs. retL (x # xs)))"

definition LoadItems :: "'z zread \<Rightarrow> string \<Rightarrow> ('z, 'a) load \<Rightarrow> ('z, 'a list) load" where
  "LoadItems rd name m = bindL (LoadInt rd name) (\<lambda>n. load_n (nat n) m)"

definition LoadConstants :: "'z zread \<Rightarrow> string \<Rightarrow> ('z, Proto) load \<Rightarrow> ('z, Const list \<times> Proto list) load" where
  "LoadConstants rd name loadf =
     bindL (LoadItems rd name (LoadConstant rd name)) (\<lambda>ks.
       bindL (LoadItems rd name loadf) (\<lambda>ps. retL (ks, ps)))"

definition LoadLocVar :: "'z zread \<Rightarrow> string \<Rightarrow> ('z, LocVar) load" where
  "LoadLocVar rd name =
     bindL (LoadString rd name) (\<lambda>v. bindL (LoadInt rd name) (\<lambda>s. bindL (LoadInt rd name) (\<lambda>e.
       retL \<lparr>varname = v, startpc = s, endpc = e\<rparr>)))"

definition LoadDebug :: "'z zread \<Rightarrow> string \<Rightarrow> ('z, int list \<times> LocVar list \<times> TString list) load" where
  "LoadDebug rd name =
     bindL (LoadInt rd name) (\<lambda>n.
       bindL (LoadVector rd name (nat n)) (\<lambda>li.
         bindL (LoadItems rd name (LoadLocVar rd name)) (\<lambda>vs.
           bindL (LoadItems rd name (LoadString rd name)) (\<lambda>us.
             retL (map (signed_take_bit 31) li, vs, us)))))"

primrec LoadFunction :: "nat \<Rightarrow> 'z zread \<Rightarrow> string \<Rightarrow> TString \<Rightarrow> ('z, Proto) load" where
  "LoadFunction 0 rd name p = errorL name ''code too deep''"
| "LoadFunction (Suc lv) rd name p =
     bindL (LoadString rd name) (\<lambda>src.
     let src = (if src = None then p else src) in
     bindL (LoadInt rd name) (\<lambda>ld. bindL (LoadInt rd name) (\<lambda>lld.
     bindL (LoadByte rd name) (\<lambda>nups. bindL (LoadByte rd name) (\<lambda>npar.
     bindL (LoadByte rd name) (\<lambda>va. bindL (LoadByte rd name) (\<lambda>mss.
     bindL (LoadCode rd name) (\<lambda>code.
     bindL (LoadConstants rd name (LoadFunction lv rd name src)) (\<lambda>(ks, ps).
     bindL (LoadDebug rd name) (\<lambda>(li, vs, us).
     let f = Proto ks code ps li vs us src ld lld nups npar va mss in
     case luaG_checkcode f of
       None \<Rightarrow> (\<lambda>z. None)
     | Some ok \<Rightarrow> IF_L (\<not> ok) name ''bad code'' (retL f)))))))))))"

definition LoadHeader :: "'z zread \<Rightarrow> string \<Rightarrow> ('z, unit) load" where
  "LoadHeader rd name =
     bindL (LoadBlock rd name (length luaU_header)) (\<lambda>s.
       IF_L (s \<noteq> luaU_header) name ''bad header'' (retL ()))"

definition LUAI_MAXCCALLS :: nat where "LUAI_MAXCCALLS = 200"

definition chunk_name :: "string \<Rightarrow> string" where
  "chunk_name name =
     (if name \<noteq> [] \<and> (hd name = CHR ''@'' \<or> hd name = CHR ''='') then tl name
      else if name \<noteq> [] \<and> hd name = CHR 0x1B then ''binary string''
      else name)"

definition luaU_undump :: "'z zread \<Rightarrow> nat \<Rightarrow> string \<Rightarrow> ('z, Proto) load" where
  "luaU_undump rd nCcalls name =
     (let nm = chunk_name name in
      bindL (LoadHeader rd nm) (\<lambda>_. LoadFunction (LUAI_MAXCCALLS - nCcalls) rd nm (Some ''=?'')))"

end
