(* ===== verification/Chunks.thy ===== *)
theory Chunks
  imports Undump
begin

text \<open>
  Precompiled chunks: what \<^verbatim>\<open>luaU_dump\<close> writes and \<^verbatim>\<open>luaU_undump\<close> reads back.  Two
  interfaces separate the chunk format from the transport: a \<open>byte_sink\<close> is a writer that
  appends what it is given, a \<open>byte_source\<close> a stream that yields its bytes in order.
  \<^verbatim>\<open>lzio.c\<close> provides the source for every reader, \<^verbatim>\<open>string.dump\<close> a sink.
\<close>

declare le_bytes.simps [simp del]
declare One_nat_def [simp del]

subsection \<open>The format\<close>

definition str_chunk :: "TString \<Rightarrow> u8 list" where
  "str_chunk s = (case s of None \<Rightarrow> le_bytes 8 0 | Some t \<Rightarrow> le_bytes 8 (int (length t) + 1) @ str_bytes t @ [0])"

definition vec_chunk :: "int list \<Rightarrow> u8 list" where
  "vec_chunk xs = le_bytes 4 (int (length xs)) @ concat (map (le_bytes 4) xs)"

definition items_chunk :: "('a \<Rightarrow> u8 list) \<Rightarrow> 'a list \<Rightarrow> u8 list" where
  "items_chunk c xs = le_bytes 4 (int (length xs)) @ concat (map c xs)"

fun const_chunk :: "Const \<Rightarrow> u8 list" where
  "const_chunk KNil = le_bytes 1 0"
| "const_chunk (KBoolean b) = le_bytes 1 1 @ le_bytes 1 b"
| "const_chunk (KNumber n) = le_bytes 1 3 @ le_bytes 8 (uint n)"
| "const_chunk (KString s) = le_bytes 1 4 @ str_chunk s"
| "const_chunk (KOther t) = le_bytes 1 t"

definition locvar_chunk :: "LocVar \<Rightarrow> u8 list" where
  "locvar_chunk v = str_chunk (varname v) @ le_bytes 4 (startpc v) @ le_bytes 4 (endpc v)"

definition bare :: "bool \<Rightarrow> 'a list \<Rightarrow> 'a list" where
  "bare strip xs = (if strip then [] else xs)"

fun chunk :: "bool \<Rightarrow> TString \<Rightarrow> Proto \<Rightarrow> u8 list" where
  "chunk strip p (Proto ks code ps li lv uv src ld lld nups npar va mss) =
     str_chunk (if src = p \<or> strip then None else src) @ le_bytes 4 ld @ le_bytes 4 lld @
     le_bytes 1 (uint nups) @ le_bytes 1 (uint npar) @ le_bytes 1 (uint va) @ le_bytes 1 (uint mss) @
     vec_chunk (map uint code) @ items_chunk const_chunk ks @
     (le_bytes 4 (int (length ps)) @ concat (map (chunk strip src) ps)) @
     vec_chunk (bare strip li) @ items_chunk locvar_chunk (bare strip lv) @ items_chunk str_chunk (bare strip uv)"

subsection \<open>Writing\<close>

named_theorems dumps_intro

locale byte_sink =
  fixes w :: "'w writer" and content :: "'w \<Rightarrow> u8 list"
  assumes appends: "\<exists>d'. w d b = (0, d') \<and> content d' = content d @ b"
begin

definition dumps :: "bool \<Rightarrow> ('w DumpState \<Rightarrow> 'w DumpState) \<Rightarrow> u8 list \<Rightarrow> bool" where
  "dumps strip f bs \<longleftrightarrow>
     (\<forall>D. d_status D = 0 \<and> d_strip D = strip \<longrightarrow>
        d_status (f D) = 0 \<and> d_strip (f D) = strip \<and> content (d_data (f D)) = content (d_data D) @ bs)"

lemma dumps_block [dumps_intro]: "dumps strip (DumpBlock w b) b"
proof -
  have "snd (w d b) = d' \<Longrightarrow> fst (w d b) = 0 \<and> content d' = content d @ b" for d d'
    using appends [of d b] by auto
  then show ?thesis by (simp add: dumps_def DumpBlock_def split: prod.split) (metis fst_conv snd_conv)
qed

lemma dumps_seq: "dumps strip f a \<Longrightarrow> dumps strip g b \<Longrightarrow> dumps strip (\<lambda>D. g (f D)) (a @ b)"
  by (simp add: dumps_def)

lemma dumps_fold:
  "(\<And>x. x \<in> set xs \<Longrightarrow> dumps strip (g x) (c x)) \<Longrightarrow>
     dumps strip (\<lambda>D. foldl (\<lambda>D x. g x D) D xs) (concat (map c xs))"
proof (induction xs)
  case (Cons x xs)
  from dumps_seq [OF Cons.prems [of x] Cons.IH] Cons.prems show ?case by simp
qed (simp add: dumps_def)

lemma dumps_basic [dumps_intro]:
  "dumps strip (DumpChar w y) (le_bytes 1 y)"
  "dumps strip (DumpInt w x) (le_bytes 4 x)"
  "dumps strip (DumpNumber w n) (le_bytes 8 (uint n))"
  by (simp_all add: DumpChar_def DumpInt_def DumpNumber_def dumps_intro)

lemma dumps_string [dumps_intro]: "dumps strip (DumpString w s) (str_chunk s)"
  unfolding DumpString_def str_chunk_def
  by (cases s) (simp_all only: option.case dumps_block, rule dumps_seq, (rule dumps_block)+)

lemma dumps_vector [dumps_intro]: "dumps strip (DumpVector w xs) (vec_chunk xs)"
  unfolding DumpVector_def vec_chunk_def by (intro dumps_seq dumps_intro)

lemma dumps_items:
  "(\<And>x. x \<in> set xs \<Longrightarrow> dumps strip (g x) (c x)) \<Longrightarrow>
     dumps strip (\<lambda>D. foldl (\<lambda>D x. g x D) (DumpInt w (int (length xs)) D) xs) (items_chunk c xs)"
  unfolding items_chunk_def by (rule dumps_seq [OF dumps_basic(2) dumps_fold])

lemma dumps_constant [dumps_intro]: "dumps strip (DumpConstant w c) (const_chunk c)"
proof -
  have "DumpConstant w KNil = DumpChar w 0" "\<And>b. DumpConstant w (KBoolean b) = (\<lambda>D. DumpChar w b (DumpChar w 1 D))"
    "\<And>n. DumpConstant w (KNumber n) = (\<lambda>D. DumpNumber w n (DumpChar w 3 D))"
    "\<And>s. DumpConstant w (KString s) = (\<lambda>D. DumpString w s (DumpChar w 4 D))"
    "\<And>t. DumpConstant w (KOther t) = DumpChar w t"
    by (rule ext, simp)+
  then show ?thesis by (cases c) (auto intro: dumps_seq dumps_intro)
qed

lemma dumps_constants [dumps_intro]: "dumps strip (DumpConstants w f) (items_chunk const_chunk (p_k f))"
  unfolding DumpConstants_def sizek_def by (rule dumps_items) (rule dumps_constant)

lemma dumps_locvar [dumps_intro]: "dumps strip (DumpLocVar w v) (locvar_chunk v)"
  unfolding DumpLocVar_def locvar_chunk_def append_assoc [symmetric] by (intro dumps_seq dumps_intro)

lemma dumps_strip: "(strip \<Longrightarrow> dumps True f a) \<Longrightarrow> (\<not> strip \<Longrightarrow> dumps False f a) \<Longrightarrow> dumps strip f a"
  by (cases strip) simp_all

lemma dumps_debug:
  "dumps strip (DumpDebug w f)
     (vec_chunk (bare strip (p_lineinfo f)) @ items_chunk locvar_chunk (bare strip (p_locvars f)) @
      items_chunk str_chunk (bare strip (p_upvalues f)))"
proof -
  note a = dumps_vector [of strip "bare strip (p_lineinfo f)"]
  note b = dumps_items [of "bare strip (p_locvars f)" strip "DumpLocVar w" locvar_chunk, OF dumps_locvar]
  note c = dumps_items [of "bare strip (p_upvalues f)" strip "DumpString w" str_chunk, OF dumps_string]
  from a b c show ?thesis unfolding dumps_def DumpDebug_def Let_def bare_def by simp
qed

lemma dumps_functions:
  "(\<And>f. f \<in> set fs \<Longrightarrow> dumps strip (DumpFunction w f p) (chunk strip p f)) \<Longrightarrow>
     dumps strip (DumpFunctions w fs p) (concat (map (chunk strip p) fs))"
proof (induction fs)
  case (Cons f fs)
  from dumps_seq [OF Cons.prems [of f] Cons.IH] Cons.prems show ?case by simp
qed (simp add: dumps_def)

lemma dumps_dep: "dumps strip (f strip) b \<Longrightarrow> dumps strip (\<lambda>D. f (d_strip D) D) b"
  by (simp add: dumps_def)

lemma dumps_function: "dumps strip (DumpFunction w f p) (chunk strip p f)"
proof (induction f arbitrary: p)
  case (Proto ks code ps li lv uv src ld lld nups npar va mss)
  let ?f = "Proto ks code ps li lv uv src ld lld nups npar va mss"
  have n: "dumps strip (\<lambda>D. DumpFunctions w ps src (DumpInt w (sizep ?f) D))
      (le_bytes 4 (int (length ps)) @ concat (map (chunk strip src) ps))"
    unfolding sizep_def by (rule dumps_seq [OF _ dumps_functions]) (auto simp: dumps_intro Proto)
  have c: "dumps strip (DumpCode w ?f) (vec_chunk (map uint code))"
    unfolding DumpCode_def by (simp add: dumps_intro)
  have s: "dumps strip (\<lambda>D. DumpString w (if src = p \<or> d_strip D then None else src) D)
      (str_chunk (if src = p \<or> strip then None else src))"
    by (rule dumps_dep) (rule dumps_string)
  note rest = dumps_seq [OF dumps_seq [OF dumps_seq [OF dumps_seq [OF dumps_seq [OF dumps_seq [OF dumps_seq
      [OF dumps_seq [OF dumps_seq [OF dumps_seq [OF s dumps_basic(2) [of _ ld]] dumps_basic(2) [of _ lld]]
        dumps_basic(1) [of _ "uint nups"]] dumps_basic(1) [of _ "uint npar"]] dumps_basic(1) [of _ "uint va"]]
        dumps_basic(1) [of _ "uint mss"]] c] dumps_constants [of _ ?f]] n] dumps_debug [of _ ?f]]
  then show ?case by (simp add: dumps_def Let_def)
qed

theorem dump_chunk:
  "fst (luaU_dump w f d strip) = 0 \<and>
   content (snd (luaU_dump w f d strip)) = content d @ luaU_header @ chunk strip None f"
proof -
  have "dumps strip (\<lambda>D. DumpFunction w f None (DumpHeader w D)) (luaU_header @ chunk strip None f)"
    unfolding DumpHeader_def by (rule dumps_seq [OF dumps_block dumps_function])
  then show ?thesis by (simp add: dumps_def luaU_dump_def Let_def)
qed

end

interpretation str_dump: byte_sink str_writer "\<lambda>d. d"
  by unfold_locales (simp add: str_writer_def)

text \<open>A writer that fails stops the dump: nothing is written after its first error.\<close>

lemma DumpBlock_failed: "d_status D \<noteq> 0 \<Longrightarrow> DumpBlock w b D = D"
  by (simp add: DumpBlock_def)

end
