(* ===== verification/Chunk_Load.thy ===== *)
theory Chunk_Load
  imports Chunks
begin

text \<open>
  Reading chunks back: the functions of \<^verbatim>\<open>lundump.c\<close> over any byte source.  \<open>reads P bs x\<close>
  says that \<open>P\<close> consumes exactly the bytes \<open>bs\<close> and yields \<open>x\<close>; \<open>safe P Q\<close> that \<open>P\<close>, on
  whatever bytes, throws a syntax error or yields a value with the property \<open>Q\<close>.
\<close>

lemma signed_take_bit_small: "- (2 ^ n) \<le> x \<Longrightarrow> x < 2 ^ n \<Longrightarrow> signed_take_bit n (x :: int) = x"
  by (simp add: signed_take_bit_int_eq_self)

lemma signed_mod:
  assumes "m = 2 ^ Suc n"
  shows "signed_take_bit n (x mod m :: int) = signed_take_bit n x"
proof -
  have "x mod m = take_bit (Suc n) x" by (simp only: assms take_bit_eq_mod)
  then show ?thesis by (simp only: signed_take_bit_take_bit) simp
qed

lemma le_val_u8: "le_val (le_bytes 1 (uint (b :: u8))) = uint b"
  using uint_lt2p [of b] by (simp add: le_val_bytes)

lemma uint_mod [simp]:
  "uint (x :: u64) mod 18446744073709551616 = uint x" "uint (y :: u32) mod 4294967296 = uint y"
  by (rule mod_pos_pos_trivial; use uint_lt2p [of x] uint_lt2p [of y] in simp)+

lemma words_chunk: "words (length xs) (concat (map (le_bytes 4) xs)) = map (\<lambda>x. x mod 2 ^ 32) xs"
  by (induction xs) (simp_all add: le_val_bytes)

lemma length_concat_words [simp]: "length (concat (map (le_bytes 4) xs)) = length xs * 4"
  by (induction xs) simp_all

text \<open>Functions a chunk can represent, given the C levels left.\<close>

definition int_ok :: "int \<Rightarrow> bool" where
  "int_ok x \<longleftrightarrow> 0 \<le> x \<and> x < 2 ^ 31"

definition str_ok :: "TString \<Rightarrow> bool" where
  "str_ok s = (case s of None \<Rightarrow> True | Some t \<Rightarrow> int (length t) + 1 < 2 ^ 64)"

fun const_ok :: "Const \<Rightarrow> bool" where
  "const_ok KNil = True"
| "const_ok (KBoolean b) = (b = 0 \<or> b = 1)"
| "const_ok (KNumber n) = True"
| "const_ok (KString s) = str_ok s"
| "const_ok (KOther t) = False"

definition locvar_ok :: "LocVar \<Rightarrow> bool" where
  "locvar_ok v \<longleftrightarrow> str_ok (varname v) \<and> int_ok (startpc v) \<and> int_ok (endpc v)"

definition fields_ok :: "Proto \<Rightarrow> bool" where
  "fields_ok f \<longleftrightarrow>
     p_source f \<noteq> None \<and> str_ok (p_source f) \<and> int_ok (p_linedefined f) \<and> int_ok (p_lastlinedefined f) \<and>
     int_ok (sizecode f) \<and> int_ok (sizek f) \<and> int_ok (sizep f) \<and> int_ok (sizelineinfo f) \<and>
     int_ok (sizelocvars f) \<and> int_ok (sizeupvalues f) \<and>
     list_all const_ok (p_k f) \<and> list_all (\<lambda>l. - (2 ^ 31) \<le> l \<and> l < 2 ^ 31) (p_lineinfo f) \<and>
     list_all locvar_ok (p_locvars f) \<and> list_all str_ok (p_upvalues f)"

primrec proto_ok :: "nat \<Rightarrow> Proto \<Rightarrow> bool" where
  "proto_ok 0 f = False"
| "proto_ok (Suc n) f =
     (fields_ok f \<and> luaG_checkcode f = Some True \<and> list_all (proto_ok n) (p_p f))"

text \<open>What is left of a function after stripping: no debug information, and the source \<open>=?\<close>.\<close>

fun strip_proto :: "Proto \<Rightarrow> Proto" where
  "strip_proto (Proto ks code ps li lv uv src ld lld nups npar va mss) =
     Proto ks code (map strip_proto ps) [] [] [] (Some ''=?'') ld lld nups npar va mss"

definition kept :: "bool \<Rightarrow> Proto \<Rightarrow> Proto" where
  "kept strip f = (if strip then strip_proto f else f)"

text \<open>The checker does not look at debug information.\<close>

lemma strip_sel [simp]:
  "p_k (strip_proto f) = p_k f" "p_code (strip_proto f) = p_code f" "p_p (strip_proto f) = map strip_proto (p_p f)"
  "p_nups (strip_proto f) = p_nups f" "p_maxstacksize (strip_proto f) = p_maxstacksize f"
  "p_is_vararg (strip_proto f) = p_is_vararg f" "p_numparams (strip_proto f) = p_numparams f"
  "sizecode (strip_proto f) = sizecode f" "sizek (strip_proto f) = sizek f" "sizep (strip_proto f) = sizep f"
  by (cases f; simp add: proto_sizes)+

lemma load_map: "load (map g xs) i f = load xs i (\<lambda>x. f (g x))"
  by (auto simp: load_def at_def)

lemma strip_sym_step: "sym_step (strip_proto f) lastpc reg pc lst = sym_step f lastpc reg pc lst"
proof -
  have r: "checkreg (strip_proto f) = checkreg f" "maxstack (strip_proto f) = maxstack f"
    by (simp_all add: checkreg_def maxstack_def fun_eq_iff)
  have a: "checkArgMode (strip_proto f) = checkArgMode f"
    unfolding fun_eq_iff checkArgMode_def r strip_sel by simp
  have p: "pseudo_ok (strip_proto f) = pseudo_ok f"
  proof (intro ext)
    fix q n show "pseudo_ok (strip_proto f) q n = pseudo_ok f q n" by (induction n) simp_all
  qed
  have o: "sym_open (strip_proto f) = sym_open f" by (simp add: sym_open_def fun_eq_iff)
  have c: "sym_call (strip_proto f) = sym_call f"
    unfolding fun_eq_iff sym_call_def r o by simp
  have s: "sym_switch (strip_proto f) = sym_switch f"
    unfolding fun_eq_iff sym_switch_def r p c o load_map strip_sel by simp
  have d: "sym_operands (strip_proto f) = sym_operands f"
    unfolding fun_eq_iff sym_operands_def a strip_sel by simp
  show ?thesis unfolding sym_step_def r s d strip_sel ..
qed

lemma strip_loop: "symbexec_loop (strip_proto f) lastpc reg pc lst = symbexec_loop f lastpc reg pc lst"
proof (induction f lastpc reg pc lst rule: symbexec_loop.induct)
  case (1 f lastpc reg pc lst)
  then show ?case
    by (simp add: strip_sym_step symbexec_loop.simps [of _ lastpc reg pc lst] split: sym.split)
qed

lemma strip_checkcode: "luaG_checkcode f = Some True \<Longrightarrow> luaG_checkcode (strip_proto f) = Some True"
proof -
  assume a: "luaG_checkcode f = Some True"
  then have "precheck f" by (rule checkcode_accepts(1))
  then have "precheck (strip_proto f)"
    by (cases f) (simp add: precheck_def maxstack_def proto_sizes)
  with a \<open>precheck f\<close> show ?thesis
    unfolding luaG_checkcode_def symbexec_def strip_loop strip_sel by simp
qed

subsection \<open>Byte sources\<close>

named_theorems reads_intro
named_theorems safe_intro

text \<open>The checker has accepted a function and everything nested in it.\<close>

inductive all_checked :: "Proto \<Rightarrow> bool" where
  "luaG_checkcode f = Some True \<Longrightarrow> \<forall>g \<in> set (p_p f). all_checked g \<Longrightarrow> all_checked f"

inductive_simps all_checked_iff: "all_checked f"

locale byte_source =
  fixes src_is :: "'z \<Rightarrow> u8 list \<Rightarrow> bool" and rd :: "'z zread"
  assumes yields: "src_is z bs \<Longrightarrow> \<exists>z'. rd z n = Some (n - length bs, take n bs, z') \<and>
    (n \<le> length bs \<longrightarrow> src_is z' (drop n bs))"
begin

definition reads :: "('z, 'a) load \<Rightarrow> u8 list \<Rightarrow> 'a \<Rightarrow> bool" where
  "reads P bs x \<longleftrightarrow> (\<forall>z rest. src_is z (bs @ rest) \<longrightarrow> (\<exists>z'. P z = Some (Inr (x, z')) \<and> src_is z' rest))"

lemma reads_ret: "reads (retL x) [] x"
  by (simp add: reads_def retL_def)

lemma reads_bind: "reads P a x \<Longrightarrow> reads (f x) b y \<Longrightarrow> reads (bindL P f) (a @ b) y"
  unfolding reads_def bindL_def append_assoc by fastforce

lemma reads_bind_ret: "reads P a x \<Longrightarrow> f x = retL y \<Longrightarrow> reads (bindL P f) a y"
  using reads_bind [of P a x f "[]" y] reads_ret [of y] by simp

lemma reads_block: "n = length bs \<Longrightarrow> reads (LoadBlock rd nm n) bs bs"
  unfolding reads_def
proof (intro allI impI)
  fix z rest assume n: "n = length bs" and z: "src_is z (bs @ rest)"
  from yields [OF z, of n] n show "\<exists>z'. LoadBlock rd nm n z = Some (Inr (bs, z')) \<and> src_is z' rest"
    by (auto simp: LoadBlock_def IF_L_def retL_def)
qed

lemma reads_char: "reads (LoadChar rd nm) (le_bytes 1 y) (signed_take_bit 7 y)"
  unfolding LoadChar_def by (rule reads_bind_ret [OF reads_block]) (simp_all add: le_val_bytes signed_mod)

lemma reads_byte: "reads (LoadByte rd nm) (le_bytes 1 (uint (b :: u8))) b"
proof -
  have "(word_of_int (signed_take_bit 7 (uint b)) :: u8) = b"
    by (rule bit_word_eqI) (auto simp: bit_simps)
  then show ?thesis
    unfolding LoadByte_def by (intro reads_bind_ret [OF reads_char]) simp
qed

lemma reads_int: "int_ok x \<Longrightarrow> reads (LoadInt rd nm) (le_bytes 4 x) x"
  unfolding LoadInt_def
  by (rule reads_bind_ret [OF reads_block]) (simp_all add: le_val_bytes signed_mod signed_take_bit_small int_ok_def IF_L_def)

lemma reads_number: "reads (LoadNumber rd nm) (le_bytes 8 (uint x)) x"
  unfolding LoadNumber_def by (rule reads_bind_ret [OF reads_block]) (simp_all add: le_val_bytes)

lemma reads_string: "str_ok s \<Longrightarrow> reads (LoadString rd nm) (str_chunk s) s"
proof (cases s)
  case None
  then show ?thesis unfolding LoadString_def
    by (intro reads_bind_ret [OF reads_block]) (simp_all add: str_chunk_def le_val_bytes)
next
  case (Some t)
  assume "str_ok s"
  then have l: "le_val (le_bytes 8 (int (length t) + 1)) = int (length t) + 1"
    using Some by (simp add: le_val_bytes str_ok_def)
  have "reads (bindL (LoadBlock rd nm (Suc (length t))) (\<lambda>s. retL (Some (bytes_str (take (length t) s)))))
      (str_bytes t @ [0]) (Some t)"
    by (rule reads_bind_ret [OF reads_block]) simp_all
  then have "reads (LoadString rd nm) (le_bytes 8 (int (length t) + 1) @ str_bytes t @ [0]) (Some t)"
    unfolding LoadString_def by (intro reads_bind [OF reads_block]) (simp_all add: l nat_add_distrib One_nat_def)
  then show ?thesis using Some by (simp add: str_chunk_def)
qed

lemma reads_vector: "reads (LoadVector rd nm (length xs)) (concat (map (le_bytes 4) xs)) (map (\<lambda>x. x mod 2 ^ 32) xs)"
  unfolding LoadVector_def by (rule reads_bind_ret [OF reads_block]) (simp_all add: words_chunk)

lemma reads_code: "int_ok (int (length code)) \<Longrightarrow> reads (LoadCode rd nm) (vec_chunk (map uint code)) code"
proof -
  assume ok: "int_ok (int (length code))"
  have m: "map word_of_int (map (\<lambda>x. x mod 2 ^ 32) (map uint code)) = code"
    by (simp add: comp_def)
  have v: "reads (LoadVector rd nm (nat (int (length code)))) (concat (map (le_bytes 4) (map uint code)))
      (map (\<lambda>x. x mod 2 ^ 32) (map uint code))"
    using reads_vector [of nm "map uint code"] by simp
  show ?thesis
    unfolding LoadCode_def vec_chunk_def length_map
    by (rule reads_bind [OF reads_int [OF ok]], rule reads_bind_ret [OF v], simp only: m)
qed

lemma reads_constant: "const_ok c \<Longrightarrow> reads (LoadConstant rd nm) (const_chunk c) c"
proof -
  have s: "signed_take_bit 7 k = k" if "0 \<le> k" "k < 128" for k :: int
    by (rule signed_take_bit_small) (use that in simp_all)
  have b: "reads (LoadConstant rd nm) (le_bytes 1 k @ bs) c"
    if "0 \<le> k" "k < 128" "reads
      (if k = 0 then retL KNil
       else if k = 1 then bindL (LoadChar rd nm) (\<lambda>b. retL (KBoolean (if b \<noteq> 0 then 1 else 0)))
       else if k = 3 then bindL (LoadNumber rd nm) (\<lambda>x. retL (KNumber x))
       else if k = 4 then bindL (LoadString rd nm) (\<lambda>s. retL (KString s))
       else errorL nm ''bad constant'') bs c" for k bs c
  proof -
    have "reads (LoadChar rd nm) (le_bytes 1 k) k" using reads_char [of nm k] s [OF that(1,2)] by simp
    then show ?thesis unfolding LoadConstant_def by (rule reads_bind) (rule that(3))
  qed
  assume "const_ok c"
  then show ?thesis
  proof (cases c)
    case KNil
    show ?thesis using b [of 0 "[]" KNil] reads_ret [of KNil] KNil by simp
  next
    case (KBoolean x)
    with \<open>const_ok c\<close> have "signed_take_bit 7 x = x" "(if x \<noteq> 0 then 1 else 0) = x" using s [of x] by auto
    then have "reads (bindL (LoadChar rd nm) (\<lambda>b. retL (KBoolean (if b \<noteq> 0 then 1 else 0)))) (le_bytes 1 x) c"
      by (intro reads_bind_ret [OF reads_char]) (simp only: KBoolean)
    then show ?thesis using b [of 1 "le_bytes 1 x" c] KBoolean by simp
  next
    case (KNumber n)
    then have "reads (bindL (LoadNumber rd nm) (\<lambda>x. retL (KNumber x))) (le_bytes 8 (uint n)) c"
      by (intro reads_bind_ret [OF reads_number]) simp
    then show ?thesis using b [of 3 "le_bytes 8 (uint n)" c] KNumber by simp
  next
    case (KString t)
    with \<open>const_ok c\<close> have "reads (bindL (LoadString rd nm) (\<lambda>s. retL (KString s))) (str_chunk t) c"
      by (intro reads_bind_ret [OF reads_string]) simp_all
    then show ?thesis using b [of 4 "str_chunk t" c] KString by simp
  qed simp
qed

lemma reads_n:
  "(\<And>x. x \<in> set xs \<Longrightarrow> reads P (c x) (g x)) \<Longrightarrow> reads (load_n (length xs) P) (concat (map c xs)) (map g xs)"
proof (induction xs)
  case (Cons x xs)
  have "reads (bindL (load_n (length xs) P) (\<lambda>ys. retL (g x # ys))) (concat (map c xs)) (g x # map g xs)"
    by (rule reads_bind_ret [OF Cons.IH]) (use Cons.prems in simp_all)
  from reads_bind [of P "c x" "g x" "\<lambda>y. bindL (load_n (length xs) P) (\<lambda>ys. retL (y # ys))", OF Cons.prems [of x] this]
  show ?case by simp
qed (simp add: reads_ret)

lemma reads_items:
  assumes "int_ok (int (length xs))" "\<And>x. x \<in> set xs \<Longrightarrow> reads P (c x) (g x)"
  shows "reads (LoadItems rd nm P) (items_chunk c xs) (map g xs)"
  unfolding LoadItems_def items_chunk_def
  by (rule reads_bind [OF reads_int [OF assms(1)]]) (use reads_n [of xs P c g] assms(2) in simp)

lemma reads_items_id:
  assumes "int_ok (int (length xs))" "\<And>x. x \<in> set xs \<Longrightarrow> reads P (c x) x"
  shows "reads (LoadItems rd nm P) (items_chunk c xs) xs"
  using reads_items [of xs P c "\<lambda>x. x"] assms by simp

lemma reads_locvar: "locvar_ok v \<Longrightarrow> reads (LoadLocVar rd nm) (locvar_chunk v) v"
proof -
  assume "locvar_ok v"
  then have a: "str_ok (varname v)" "int_ok (startpc v)" "int_ok (endpc v)" by (simp_all add: locvar_ok_def)
  have e: "\<lparr>varname = varname v, startpc = startpc v, endpc = endpc v\<rparr> = v" by simp
  show ?thesis unfolding LoadLocVar_def locvar_chunk_def
    by (rule reads_bind [OF reads_string [OF a(1)]], rule reads_bind [OF reads_int [OF a(2)]],
        rule reads_bind_ret [OF reads_int [OF a(3)]], simp only: e)
qed

lemma int_ok_0 [simp]: "int_ok 0"
  by (simp add: int_ok_def)

lemma reads_debug:
  assumes f: "fields_ok f"
  shows "reads (LoadDebug rd nm)
     (vec_chunk (bare strip (p_lineinfo f)) @ items_chunk locvar_chunk (bare strip (p_locvars f)) @
      items_chunk str_chunk (bare strip (p_upvalues f)))
     (bare strip (p_lineinfo f), bare strip (p_locvars f), bare strip (p_upvalues f))"
proof -
  have l: "int_ok (int (length (bare strip (p_lineinfo f))))" "int_ok (int (length (bare strip (p_locvars f))))"
    "int_ok (int (length (bare strip (p_upvalues f))))"
    using f by (auto simp: bare_def fields_ok_def proto_sizes)
  have e: "list_all locvar_ok (bare strip (p_locvars f))" "list_all str_ok (bare strip (p_upvalues f))"
    using f by (auto simp: bare_def fields_ok_def)
  have m: "map (signed_take_bit 31) (map (\<lambda>x. x mod 2 ^ 32) (bare strip (p_lineinfo f))) = bare strip (p_lineinfo f)"
    using f by (auto simp: bare_def fields_ok_def list_all_iff signed_mod signed_take_bit_small intro!: map_idI)
  have v: "reads (LoadItems rd nm (LoadLocVar rd nm)) (items_chunk locvar_chunk (bare strip (p_locvars f))) (bare strip (p_locvars f))"
    by (rule reads_items_id [OF l(2) reads_locvar]) (use e in \<open>simp add: list_all_iff\<close>)
  have u: "reads (LoadItems rd nm (LoadString rd nm)) (items_chunk str_chunk (bare strip (p_upvalues f))) (bare strip (p_upvalues f))"
    by (rule reads_items_id [OF l(3) reads_string]) (use e in \<open>simp add: list_all_iff\<close>)
  have w: "reads (LoadVector rd nm (nat (int (length (bare strip (p_lineinfo f))))))
      (concat (map (le_bytes 4) (bare strip (p_lineinfo f)))) (map (\<lambda>x. x mod 2 ^ 32) (bare strip (p_lineinfo f)))"
    using reads_vector by simp
  show ?thesis
    unfolding LoadDebug_def vec_chunk_def append_assoc
    by (rule reads_bind [OF reads_int [OF l(1)]], rule reads_bind [OF w], rule reads_bind [OF v],
        rule reads_bind_ret [OF u], simp only: m)
qed

lemma reads_constants:
  assumes "int_ok (int (length ks))" "list_all const_ok ks" "int_ok (int (length ps))"
    and "\<And>q. q \<in> set ps \<Longrightarrow> reads P (c q) (g q)"
  shows "reads (LoadConstants rd nm P) (items_chunk const_chunk ks @ items_chunk c ps) (ks, map g ps)"
proof -
  have k: "reads (LoadItems rd nm (LoadConstant rd nm)) (items_chunk const_chunk ks) ks"
    by (rule reads_items_id [OF assms(1) reads_constant]) (use assms(2) in \<open>simp add: list_all_iff\<close>)
  have f: "reads (LoadItems rd nm P) (items_chunk c ps) (map g ps)"
    by (rule reads_items [OF assms(3,4)])
  show ?thesis unfolding LoadConstants_def
    by (rule reads_bind [OF k], rule reads_bind_ret [OF f], rule refl)
qed

lemma reads_function:
  assumes "proto_ok lv f" "strip \<Longrightarrow> q = Some ''=?''" "\<not> strip \<Longrightarrow> p = None \<or> q = p"
  shows "reads (LoadFunction lv rd nm q) (chunk strip p f) (kept strip f)"
  using assms
proof (induction lv arbitrary: f p q)
  case (Suc lv)
  obtain ks code ps li vs us src ld lld nups npar va mss where
    f: "f = Proto ks code ps li vs us src ld lld nups npar va mss" by (cases f)
  from Suc.prems(1) have ok: "fields_ok f" "luaG_checkcode f = Some True" "list_all (proto_ok lv) ps"
    using f by simp_all
  define src' where "src' = (if strip then Some ''=?'' else src)"
  define lsrc where "lsrc = (if src = p \<or> strip then None else src)"
  have ints: "int_ok ld" "int_ok lld" "int_ok (int (length code))" "int_ok (int (length ks))" "int_ok (int (length ps))"
    and so: "str_ok lsrc" "list_all const_ok ks"
    using ok(1) f by (auto simp: fields_ok_def proto_sizes lsrc_def str_ok_def)
  have src: "(if lsrc = None then q else lsrc) = src'"
    using Suc.prems(2,3) ok(1) f by (auto simp: lsrc_def src'_def fields_ok_def)
  have nested: "reads (LoadFunction lv rd nm src') (chunk strip src g) (kept strip g)" if "g \<in> set ps" for g
    by (rule Suc.IH) (use ok(3) that in \<open>auto simp: list_all_iff src'_def\<close>)
  have f': "Proto ks code (map (kept strip) ps) (bare strip li) (bare strip vs) (bare strip us) src' ld lld
      nups npar va mss = kept strip f"
    by (cases strip) (simp_all add: f kept_def bare_def src'_def cong: map_cong)
  have chk: "luaG_checkcode (kept strip f) = Some True"
    using ok(2) strip_checkcode by (simp add: kept_def)
  have c: "reads (LoadConstants rd nm (LoadFunction lv rd nm src'))
      (items_chunk const_chunk ks @ items_chunk (chunk strip src) ps) (ks, map (kept strip) ps)"
    by (rule reads_constants [OF ints(4) so(2) ints(5) nested])
  have d: "reads (LoadDebug rd nm)
     (vec_chunk (bare strip li) @ items_chunk locvar_chunk (bare strip vs) @ items_chunk str_chunk (bare strip us))
     (bare strip li, bare strip vs, bare strip us)"
    using reads_debug [OF ok(1), of nm strip] by (simp only: f Proto.sel)
  have fin: "(case luaG_checkcode (kept strip f) of None \<Rightarrow> (\<lambda>z. None)
      | Some ok \<Rightarrow> IF_L (\<not> ok) nm ''bad code'' (retL (kept strip f))) = retL (kept strip f)"
    by (simp add: chk IF_L_def)
  have ch: "chunk strip p f = str_chunk lsrc @ le_bytes 4 ld @ le_bytes 4 lld @
     le_bytes 1 (uint nups) @ le_bytes 1 (uint npar) @ le_bytes 1 (uint va) @ le_bytes 1 (uint mss) @
     vec_chunk (map uint code) @ (items_chunk const_chunk ks @ items_chunk (chunk strip src) ps) @
     (vec_chunk (bare strip li) @ items_chunk locvar_chunk (bare strip vs) @ items_chunk str_chunk (bare strip us))"
    by (simp add: f lsrc_def items_chunk_def)
  show ?case unfolding LoadFunction.simps ch
    by (rule reads_bind [OF reads_string [OF so(1)]], unfold Let_def src,
        rule reads_bind [OF reads_int [OF ints(1)]], rule reads_bind [OF reads_int [OF ints(2)]],
        (rule reads_bind [OF reads_byte])+, rule reads_bind [OF reads_code [OF ints(3)]],
        rule reads_bind [OF c], unfold prod.case, rule reads_bind_ret [OF d], unfold prod.case f', rule fin)
qed simp

lemma reads_header: "reads (LoadHeader rd nm) luaU_header ()"
  unfolding LoadHeader_def
  by (rule reads_bind_ret [OF reads_block]) (simp_all add: IF_L_def)

lemma reads_undump:
  assumes "proto_ok (LUAI_MAXCCALLS - ncc) f"
  shows "reads (luaU_undump rd ncc name) (luaU_header @ chunk strip None f) (kept strip f)"
  unfolding luaU_undump_def Let_def
  by (rule reads_bind [OF reads_header reads_function [OF assms]]) simp_all

text \<open>On arbitrary bytes: an error, or a value and a well-formed stream.\<close>

definition safe :: "('z, 'a) load \<Rightarrow> ('a \<Rightarrow> bool) \<Rightarrow> bool" where
  "safe P Q \<longleftrightarrow>
     (\<forall>z bs. src_is z bs \<longrightarrow>
        (\<exists>e. P z = Some (Inl e)) \<or> (\<exists>x z' bs'. P z = Some (Inr (x, z')) \<and> Q x \<and> src_is z' bs'))"

lemma safe_ret: "Q x \<Longrightarrow> safe (retL x) Q"
  by (auto simp: safe_def retL_def)

lemma safe_weaken: "safe P Q \<Longrightarrow> (\<And>x. Q x \<Longrightarrow> R x) \<Longrightarrow> safe P R"
  unfolding safe_def by blast

lemma safe_error [safe_intro]: "safe (errorL nm why) Q"
  by (simp add: safe_def errorL_def)

lemma safe_bind: "safe P R \<Longrightarrow> (\<And>x. R x \<Longrightarrow> safe (f x) Q) \<Longrightarrow> safe (bindL P f) Q"
  unfolding safe_def bindL_def by (fastforce split: option.splits sum.splits)

lemma safe_IF [safe_intro]: "(\<not> c \<Longrightarrow> safe m Q) \<Longrightarrow> safe (IF_L c nm why m) Q"
  by (simp add: IF_L_def safe_error)

lemma safe_if [safe_intro]: "(c \<Longrightarrow> safe m Q) \<Longrightarrow> (\<not> c \<Longrightarrow> safe m' Q) \<Longrightarrow> safe (if c then m else m') Q"
  by simp

lemma safe_block [safe_intro]: "safe (LoadBlock rd nm n) (\<lambda>_. True)"
  unfolding safe_def
proof (intro allI impI)
  fix z bs assume "src_is z bs"
  from yields [OF this, of n] obtain z' where z': "rd z n = Some (n - length bs, take n bs, z')"
    "n \<le> length bs \<longrightarrow> src_is z' (drop n bs)" by blast
  then show "(\<exists>e. LoadBlock rd nm n z = Some (Inl e)) \<or>
      (\<exists>x z' bs'. LoadBlock rd nm n z = Some (Inr (x, z')) \<and> True \<and> src_is z' bs')"
    by (cases "n \<le> length bs") (auto simp: LoadBlock_def IF_L_def retL_def errorL_def)
qed

lemma safe_any: "safe P (\<lambda>_. True) \<Longrightarrow> (\<And>x. safe (f x) Q) \<Longrightarrow> safe (bindL P f) Q"
  by (rule safe_bind)

lemma safe_ret_any [safe_intro]: "safe (retL x) (\<lambda>_. True)"
  by (rule safe_ret) simp

lemma safe_scalars [safe_intro]:
  "safe (LoadChar rd nm) (\<lambda>_. True)" "safe (LoadByte rd nm) (\<lambda>_. True)" "safe (LoadInt rd nm) (\<lambda>_. True)"
  "safe (LoadNumber rd nm) (\<lambda>_. True)" "safe (LoadString rd nm) (\<lambda>_. True)"
  "safe (LoadVector rd nm n) (\<lambda>_. True)"
proof -
  show c: "safe (LoadChar rd nm) (\<lambda>_. True)"
    unfolding LoadChar_def by (intro safe_any safe_intro)
  show "safe (LoadByte rd nm) (\<lambda>_. True)"
    unfolding LoadByte_def by (intro safe_any c safe_intro)
  show "safe (LoadInt rd nm) (\<lambda>_. True)" "safe (LoadNumber rd nm) (\<lambda>_. True)"
    "safe (LoadString rd nm) (\<lambda>_. True)" "safe (LoadVector rd nm n) (\<lambda>_. True)"
    unfolding LoadInt_def LoadNumber_def LoadString_def LoadVector_def Let_def by (intro safe_any safe_intro)+
qed

lemma safe_n: "safe P Q \<Longrightarrow> safe (load_n n P) (list_all Q)"
proof (induction n)
  case (Suc n)
  then show ?case unfolding load_n.simps
    by (intro safe_bind [OF Suc.prems] safe_bind [OF Suc.IH [OF Suc.prems]] safe_ret) simp
qed (simp add: safe_ret)

lemma safe_items: "safe P Q \<Longrightarrow> safe (LoadItems rd nm P) (list_all Q)"
  unfolding LoadItems_def by (intro safe_any safe_n safe_intro)

lemma safe_items_any [safe_intro]: "safe P (\<lambda>_. True) \<Longrightarrow> safe (LoadItems rd nm P) (\<lambda>_. True)"
  by (rule safe_weaken [OF safe_items [of P "\<lambda>_. True"]]) simp_all

lemma safe_parts [safe_intro]:
  "safe (LoadConstant rd nm) (\<lambda>_. True)" "safe (LoadCode rd nm) (\<lambda>_. True)"
  "safe (LoadLocVar rd nm) (\<lambda>_. True)"
  unfolding LoadConstant_def LoadCode_def LoadLocVar_def
  by ((rule safe_intro safe_any | assumption)+)

lemma safe_debug: "safe (LoadDebug rd nm) (\<lambda>_. True)"
  unfolding LoadDebug_def by (intro safe_any safe_intro)

lemma safe_constants: "safe P Q \<Longrightarrow> safe (LoadConstants rd nm P) (\<lambda>(ks, ps). list_all Q ps)"
  unfolding LoadConstants_def by (intro safe_any safe_bind [OF safe_items] safe_ret safe_intro) auto

lemma safe_function: "safe (LoadFunction lv rd nm q) all_checked"
proof (induction lv arbitrary: q)
  case (Suc lv)
  have fin: "safe (case luaG_checkcode f of None \<Rightarrow> (\<lambda>z. None)
      | Some ok \<Rightarrow> IF_L (\<not> ok) nm ''bad code'' (retL f)) all_checked" if "list_all all_checked (p_p f)" for f
  proof -
    obtain ok where "luaG_checkcode f = Some ok"
      using symbexec_total [of "sizecode f" f NO_REG] unfolding luaG_checkcode_def by fastforce
    then show ?thesis using that
      by (auto simp: list_all_iff all_checked_iff [of f] intro!: safe_IF safe_ret)
  qed
  show ?case unfolding LoadFunction.simps Let_def
    by (intro safe_any [OF safe_scalars(5)] safe_any [OF safe_scalars(3)] safe_any [OF safe_scalars(2)]
        safe_any [OF safe_parts(2)] safe_bind [OF safe_constants [OF Suc.IH]])
      (auto intro!: safe_any [OF safe_debug] fin)
qed (simp add: safe_error)

lemma safe_undump: "safe (luaU_undump rd ncc name) all_checked"
  unfolding luaU_undump_def Let_def LoadHeader_def
  by (intro safe_any safe_function safe_intro)

end

interpretation zio_source: byte_source "zio_is rd" "luaZ_read rd" for rd
  by unfold_locales (rule luaZ_read_correct)

subsection \<open>Properties\<close>

text \<open>
  C24: a precompiled chunk round trip: the function that \<^verbatim>\<open>luaU_dump\<close> saves, delivered by any
  reader in blocks of any size, is loaded back by \<^verbatim>\<open>luaU_undump\<close> unchanged, or without its
  debug information when it was stripped.\<close>

theorem dump_undump_roundtrip:
  assumes "proto_ok (LUAI_MAXCCALLS - ncc) f" "feeds rd d (snd (luaU_dump str_writer f [] strip))"
  shows "\<exists>z'. luaU_undump (luaZ_read rd) ncc name (luaZ_init d) = Some (Inr (kept strip f, z'))"
proof -
  have "zio_is rd (luaZ_init d) ((luaU_header @ chunk strip None f) @ [])"
    using zio_is_init [OF assms(2)] str_dump.dump_chunk [of f "[]" strip] by simp
  then show ?thesis
    using zio_source.reads_undump [OF assms(1), of rd name strip] unfolding zio_source.reads_def by blast
qed

text \<open>
  C26: loading is total and safe on every byte string: it throws a syntax error, or yields a
  function that, with all nested functions, the bytecode checker has accepted.\<close>

theorem undump_checked:
  assumes "zio_is rd z bs"
  shows "(\<exists>e. luaU_undump (luaZ_read rd) ncc name z = Some (Inl e)) \<or>
    (\<exists>f z'. luaU_undump (luaZ_read rd) ncc name z = Some (Inr (f, z')) \<and> all_checked f)"
  using zio_source.safe_undump [of rd ncc name] assms unfolding zio_source.safe_def by blast

subsection \<open>A run\<close>

definition nested_demo :: Proto where
  "nested_demo = Proto [KNumber 0, KBoolean 1, KString (Some ''print'')]
     [CREATE_ABx 36 0 0, CREATE_ABC 30 0 1 0] [branch_demo] [1, 2]
     [\<lparr>varname = Some ''f'', startpc = 1, endpc = 2\<rparr>] [] (Some ''@demo.lua'') 0 0 0 0 2 3"

definition demo_bytes :: "u8 list" where
  "demo_bytes = snd (luaU_dump str_writer nested_demo [] True)"

lemma demo_feeds: "feeds block_reader [take 7 demo_bytes, drop 7 demo_bytes] demo_bytes"
proof -
  have "take 7 demo_bytes \<noteq> []" "drop 7 demo_bytes \<noteq> []" "length demo_bytes < 500"
    by code_simp+
  then have "feeds block_reader [take 7 demo_bytes, drop 7 demo_bytes] (take 7 demo_bytes @ drop 7 demo_bytes @ [])"
    by (intro feeds.block [where d' = "[drop 7 demo_bytes]"] feeds.block [where d' = "[]"] feeds.eof)
      (simp_all add: block_reader_def)
  then show ?thesis by simp
qed

theorem dump_undump_roundtrip_witness:
  "\<exists>z'. luaU_undump (luaZ_read block_reader) 0 ''=demo'' (luaZ_init [take 7 demo_bytes, drop 7 demo_bytes]) =
     Some (Inr (strip_proto nested_demo, z'))"
proof -
  have ok: "proto_ok (LUAI_MAXCCALLS - 0) nested_demo" by code_simp
  from dump_undump_roundtrip [OF ok demo_feeds [unfolded demo_bytes_def]] show ?thesis
    by (simp add: kept_def demo_bytes_def)
qed

theorem undump_checked_witness:
  "(\<exists>e. luaU_undump (luaZ_read block_reader) 0 ''=demo'' (luaZ_init [[27, 76], [0]]) = Some (Inl e)) \<or>
   (\<exists>f z'. luaU_undump (luaZ_read block_reader) 0 ''=demo'' (luaZ_init [[27, 76], [0]]) = Some (Inr (f, z')) \<and>
      all_checked f)"
proof -
  have "feeds block_reader [[27, 76], [0]] ([27, 76] @ [0] @ [])"
    by (intro feeds.block [where d' = "[[0]]"] feeds.block [where d' = "[]"] feeds.eof)
      (simp_all add: block_reader_def)
  from undump_checked [OF zio_is_init [OF this]] show ?thesis .
qed

end
