(* ===== verification/Debug_Info.thy ===== *)
theory Debug_Info
  imports Checker_Laws
begin

text \<open>
  The rest of \<^verbatim>\<open>ldebug.c\<close> that computes: the names of variables for error messages
  (\<^verbatim>\<open>getobjname\<close>, by symbolic execution), the texts of the messages, the hook settings and
  the levels of the call stack.
\<close>

subsection \<open>Names of values\<close>

definition kname :: "Proto \<Rightarrow> int \<Rightarrow> string option" where
  "kname p c =
     (if ISK c then
        (case at (p_k p) (INDEXK c) of
           None \<Rightarrow> None
         | Some (KString (Some s)) \<Rightarrow> Some s
         | Some (KString None) \<Rightarrow> None
         | Some _ \<Rightarrow> Some ''?'')
      else Some ''?'')"

text \<open>The instruction symbolic execution returns changed the register it was asked about.\<close>

definition changes :: "Proto \<Rightarrow> int \<Rightarrow> int \<Rightarrow> bool" where
  "changes pt reg l \<longleftrightarrow> (is_op (code_at pt l) OP_MOVE \<longrightarrow> GETARG_A (code_at pt l) = reg)"

lemma sym_step_changes:
  assumes "sym_step pt lastpc reg pc lst = Go pc' l'" "0 \<le> pc" "changes pt reg lst"
  shows "changes pt reg l'"
proof -
  have "pc < sizecode pt"
    using assms(1,2) by (auto simp: sym_step_def load_def at_def sizecode_def split: if_splits)
  note d = sym_step_decode [OF assms(2) this]
  obtain oc where oc: "opcode_at pt pc = Some oc"
    and s: "sym_switch pt lastpc reg oc (GETARG_A (code_at pt pc)) (argB oc (code_at pt pc))
      (argC oc (code_at pt pc)) pc
      (if testAMode (of_OpCode oc) = Some True \<and> GETARG_A (code_at pt pc) = reg then pc else lst) = Go pc' l'"
    using assms(1) unfolding d by (auto split: option.splits if_splits)
  show ?thesis using s assms(3) is_op_code_at [OF oc]
    by (cases oc) (auto simp: changes_def sym_switch_def sym_call_def sym_open_def sym_jump_def chk_def
        load_def Let_def split: if_splits option.splits)
qed

lemma loop_changes:
  "symbexec_loop pt lastpc reg pc lst = Go r l \<Longrightarrow> 0 \<le> pc \<Longrightarrow> changes pt reg lst \<Longrightarrow> changes pt reg l"
proof (induction pt lastpc reg pc lst rule: symbexec_loop.induct)
  case (1 pt lastpc reg pc lst)
  show ?case
  proof (cases "pc < lastpc")
    case True
    with "1.prems"(1) obtain pc' l' where s: "sym_step pt lastpc reg pc lst = Go pc' l'"
      "symbexec_loop pt lastpc reg (pc' + 1) l' = Go r l"
      by (subst (asm) symbexec_loop.simps) (auto split: sym.splits)
    from "1.IH" [OF True s(1) s(2)] sym_step_changes [OF s(1) "1.prems"(2,3)] sym_step_ge [OF s(1)] "1.prems"(2)
    show ?thesis by simp
  next
    case False
    with 1 show ?thesis by (subst (asm) symbexec_loop.simps) simp
  qed
qed

lemma symbexec_changes:
  assumes "symbexec pt lastpc reg = Some i" "is_op i OP_MOVE" "GETARG_B i < GETARG_A i"
  shows "GETARG_A i = reg"
proof (cases "i = 0")
  case True
  have "GETARG_A 0 = 0" "GETARG_B 0 = 0" by code_simp+
  with True assms(3) show ?thesis by simp
next
  case False
  with assms(1) obtain pc l where l: "precheck pt" "symbexec_loop pt lastpc reg 0 (sizecode pt - 1) = Go pc l"
    "at (p_code pt) l = Some i"
    by (auto simp: symbexec_def split: if_splits sym.splits)
  have "changes pt reg (sizecode pt - 1)"
    using precheck_last [OF l(1)] is_op_code_at by (simp add: changes_def)
  from loop_changes [OF l(2) _ this] l(3) assms(2) show ?thesis
    by (auto simp: changes_def code_at_def at_Some_iff)
qed

lemma symbexec_down:
  assumes "symbexec p pc stackpos = Some i" "is_op i OP_MOVE" "GETARG_B i < GETARG_A i"
  shows "GETARG_B i < stackpos" "0 < stackpos"
proof -
  have "0 \<le> GETARG_B i" using GET_bounds by blast
  then show "GETARG_B i < stackpos" "0 < stackpos" using symbexec_changes [OF assms] assms(3) by simp_all
qed

text \<open>
  \<^verbatim>\<open>getobjname\<close> for an active Lua function \<open>p\<close> at \<open>pc\<close>: the kind and the name, \<open>Some None\<close> when
  there is no useful name, \<^const>\<open>None\<close> when the code reads outside an array.
\<close>

function getobjname :: "Proto \<Rightarrow> int \<Rightarrow> int \<Rightarrow> (string \<times> string) option option" where
  "getobjname p pc stackpos =
     (case luaF_getlocalname p (stackpos + 1) pc of
        Some name \<Rightarrow> Some (Some (''local'', name))
      | None \<Rightarrow>
          (case symbexec p pc stackpos of
             None \<Rightarrow> None
           | Some i \<Rightarrow>
               (if is_op i OP_GETGLOBAL then
                  (case at (p_k p) (GETARG_Bx i) of
                     Some (KString (Some s)) \<Rightarrow> Some (Some (''global'', s)) | _ \<Rightarrow> None)
                else if is_op i OP_MOVE then
                  (if GETARG_B i < GETARG_A i then getobjname p pc (GETARG_B i) else Some None)
                else if is_op i OP_GETTABLE then
                  map_option (\<lambda>s. Some (''field'', s)) (kname p (GETARG_C i))
                else if is_op i OP_GETUPVAL then
                  (if p_upvalues p = [] then Some (Some (''upvalue'', ''?''))
                   else (case at (p_upvalues p) (GETARG_B i) of
                           Some (Some s) \<Rightarrow> Some (Some (''upvalue'', s)) | _ \<Rightarrow> None))
                else if is_op i OP_SELF then
                  map_option (\<lambda>s. Some (''method'', s)) (kname p (GETARG_C i))
                else Some None)))"
  by pat_completeness auto
termination
  by (relation "measure (\<lambda>(p, pc, stackpos). nat stackpos)") (auto dest: symbexec_down)

declare getobjname.simps [simp del]

text \<open>The instruction that called the running function names it when it is a call.\<close>

definition getfuncname :: "Proto \<Rightarrow> int \<Rightarrow> (string \<times> string) option option" where
  "getfuncname p pc =
     (case at (p_code p) pc of
        None \<Rightarrow> None
      | Some i \<Rightarrow>
          if is_op i OP_CALL \<or> is_op i OP_TAILCALL \<or> is_op i OP_TFORLOOP then getobjname p pc (GETARG_A i)
          else Some None)"

subsection \<open>Messages\<close>

definition luaT_typenames :: "string list" where
  "luaT_typenames =
     [''nil'', ''boolean'', ''userdata'', ''number'', ''string'', ''table'', ''function'', ''userdata'',
      ''thread'', ''proto'', ''upval'']"

definition quoted :: "string \<Rightarrow> string" where
  "quoted s = [CHR 0x27] @ s @ [CHR 0x27]"

definition message :: "string \<Rightarrow> string list \<Rightarrow> string option" where
  "message fmt args = luaO_pushvfstring (\<lambda>_. '''') (\<lambda>_. '''') fmt (map (\<lambda>s. VaStr (Some s)) args)"

definition luaG_typeerror :: "(string \<times> string) option \<Rightarrow> TValue \<Rightarrow> string \<Rightarrow> string option" where
  "luaG_typeerror kind v opname =
     Option.bind (at luaT_typenames (ttype v)) (\<lambda>t.
       case kind of
         Some (k, name) \<Rightarrow> message (''attempt to %s %s '' @ quoted ''%s'' @ '' (a %s value)'') [opname, k, name, t]
       | None \<Rightarrow> message ''attempt to %s a %s value'' [opname, t])"

definition luaG_concaterror :: "(TValue \<Rightarrow> (string \<times> string) option) \<Rightarrow> TValue \<Rightarrow> TValue \<Rightarrow> string option" where
  "luaG_concaterror kind p1 p2 =
     (let p = (if ttype p1 = 4 \<or> ttype p1 = 3 then p2 else p1) in luaG_typeerror (kind p) p ''concatenate'')"

definition luaG_aritherror ::
  "(TValue \<Rightarrow> bool) \<Rightarrow> (TValue \<Rightarrow> (string \<times> string) option) \<Rightarrow> TValue \<Rightarrow> TValue \<Rightarrow> string option" where
  "luaG_aritherror tonumber kind p1 p2 =
     (let p = (if \<not> tonumber p1 then p1 else p2) in luaG_typeerror (kind p) p ''perform arithmetic on'')"

definition luaG_ordererror :: "TValue \<Rightarrow> TValue \<Rightarrow> string option" where
  "luaG_ordererror p1 p2 =
     Option.bind (at luaT_typenames (ttype p1)) (\<lambda>t1.
       Option.bind (at luaT_typenames (ttype p2)) (\<lambda>t2.
         if t1 ! 2 = t2 ! 2 then message ''attempt to compare two %s values'' [t1]
         else message ''attempt to compare %s with %s'' [t1, t2]))"

definition LUA_IDSIZE :: nat where "LUA_IDSIZE = 60"

definition addinfo :: "(lua_Number \<Rightarrow> string) \<Rightarrow> (string \<times> int) option \<Rightarrow> string \<Rightarrow> string option" where
  "addinfo n2s lua_fun msg =
     (case lua_fun of
        None \<Rightarrow> Some msg
      | Some (source, line) \<Rightarrow>
          luaO_pushvfstring n2s (\<lambda>_. '''') ''%s:%d: %s''
            [VaStr (Some (luaO_chunkid source LUA_IDSIZE)), VaInt line, VaStr (Some msg)])"

text \<open>
  The third letter is meant to tell the type names apart; it does, except that \<open>string\<close> and
  \<open>thread\<close> share it (among the values a program can compare), so comparing the two reports
  ``two string values''.
\<close>

lemma typenames_third:
  assumes "s \<in> set (take 9 luaT_typenames)" "t \<in> set (take 9 luaT_typenames)"
  shows "s ! 2 = t ! 2 \<longleftrightarrow> s = t \<or> {s, t} = {''string'', ''thread''}"
proof -
  have "\<forall>s \<in> set (take 9 luaT_typenames). \<forall>t \<in> set (take 9 luaT_typenames).
      s ! 2 = t ! 2 \<longleftrightarrow> s = t \<or> {s, t} = {''string'', ''thread''}" by code_simp
  then show ?thesis using assms by blast
qed

text \<open>
  The message of a failed comparison calls the operands "two values of the same type" exactly
  when their types agree, except for a string and a thread: the type names are compared by
  their third letter alone.\<close>

theorem ordererror_string_thread:
  "luaG_ordererror (TGC LUA_TSTRING p) (TGC LUA_TTHREAD q) = Some ''attempt to compare two string values''"
proof -
  have "at luaT_typenames 4 = Some ''string''" "at luaT_typenames 8 = Some ''thread''"
    "message ''attempt to compare two %s values'' [''string''] = Some ''attempt to compare two string values''"
    by code_simp+
  then show ?thesis by (simp add: luaG_ordererror_def)
qed

subsection \<open>Levels of the call stack\<close>

record CallInfo =
  ci_isLua :: bool
  tailcalls :: nat

fun getstack_loop :: "CallInfo list \<Rightarrow> nat \<Rightarrow> int \<Rightarrow> nat \<times> int" where
  "getstack_loop cis 0 level = (0, level)"
| "getstack_loop cis (Suc ci) level =
     (if level > 0 then
        getstack_loop cis ci
          (level - 1 - (if ci_isLua (cis ! Suc ci) then int (tailcalls (cis ! Suc ci)) else 0))
      else (Suc ci, level))"

text \<open>The result is the status and the index stored in \<^verbatim>\<open>ar->i_ci\<close>.\<close>

definition lua_getstack :: "CallInfo list \<Rightarrow> nat \<Rightarrow> int \<Rightarrow> (int \<times> nat) option" where
  "lua_getstack cis current level =
     (let (ci, level) = getstack_loop cis current level in
      if level = 0 \<and> ci > 0 then Some (1, ci)
      else if level < 0 then Some (1, 0)
      else None)"

text \<open>
  The levels a program sees: each frame, and after a Lua frame one level for every tail
  call it lost.\<close>

fun levels :: "CallInfo list \<Rightarrow> nat \<Rightarrow> nat list" where
  "levels cis 0 = []"
| "levels cis (Suc ci) =
     Suc ci # replicate (if ci_isLua (cis ! Suc ci) then tailcalls (cis ! Suc ci) else 0) 0 @ levels cis ci"

lemma getstack_below:
  "level < 0 \<Longrightarrow> getstack_loop cis ci level = (ci, level)"
  by (cases ci) simp_all

lemma at_int: "at xs (int n) = (if n < length xs then Some (xs ! n) else None)"
  by (simp add: at_def)

text \<open>
  Level numbers: the search of \<^verbatim>\<open>lua_getstack\<close> counts the frames and the calls lost to tail
  calls in order, for every stack and level.\<close>

theorem getstack_levels:
  "lua_getstack cis ci (int level) = map_option (Pair 1) (at (levels cis ci) (int level))"
proof (induction ci arbitrary: level)
  case 0
  then show ?case by (simp add: lua_getstack_def at_def)
next
  case (Suc ci)
  define n where "n = (if ci_isLua (cis ! Suc ci) then tailcalls (cis ! Suc ci) else 0)"
  have lv: "levels cis (Suc ci) = Suc ci # replicate n 0 @ levels cis ci" by (simp add: n_def)
  have gs: "getstack_loop cis (Suc ci) l =
      (if l > 0 then getstack_loop cis ci (l - 1 - int n) else (Suc ci, l))" for l
    by (simp add: n_def)
  show ?case
  proof (cases level)
    case 0
    then show ?thesis by (simp add: lua_getstack_def at_def)
  next
    case (Suc l)
    show ?thesis
    proof (cases "l < n")
      case True
      then have "getstack_loop cis ci (int l - int n) = (ci, int l - int n)"
        by (intro getstack_below) simp
      then show ?thesis
        using True unfolding lua_getstack_def gs lv at_int Suc by (simp add: nth_append)
    next
      case False
      then have l: "int (Suc l) - 1 - int n = int (l - n)" by simp
      have "lua_getstack cis (Suc ci) (int level) = lua_getstack cis ci (int (l - n))"
        unfolding lua_getstack_def gs Suc l by simp
      also have "\<dots> = map_option (Pair 1) (at (levels cis ci) (int (l - n)))" by (rule Suc.IH)
      also have "at (levels cis ci) (int (l - n)) = at (levels cis (Suc ci)) (int level)"
        using False unfolding lv at_int Suc by (auto simp: nth_append)
      finally show ?thesis .
    qed
  qed
qed

end
