(* ===== verification/Monads.thy ===== *)
theory Monads
  imports Prelude
begin

text \<open>
  Stateful computations that may fail and may not end, for the components whose functions
  thread a state through many calls: a computation from a state gives an error (\<open>Inl\<close>) or a
  result and a new state (\<open>Inr\<close>), or \<^const>\<open>None\<close> if it never returns.
\<close>

type_synonym ('s, 'e, 'a) comp = "'s \<Rightarrow> ('e + 'a \<times> 's) option"

definition retM :: "'a \<Rightarrow> ('s, 'e, 'a) comp" where
  "retM x s = Some (Inr (x, s))"

definition bindM :: "('s, 'e, 'a) comp \<Rightarrow> ('a \<Rightarrow> ('s, 'e, 'b) comp) \<Rightarrow> ('s, 'e, 'b) comp" where
  "bindM m f s = (case m s of None \<Rightarrow> None | Some (Inl e) \<Rightarrow> Some (Inl e) | Some (Inr (x, s)) \<Rightarrow> f x s)"

definition thenM :: "('s, 'e, 'a) comp \<Rightarrow> ('s, 'e, 'b) comp \<Rightarrow> ('s, 'e, 'b) comp" where
  "thenM m n = bindM m (\<lambda>_. n)"

definition failM :: "'e \<Rightarrow> ('s, 'e, 'a) comp" where
  "failM e s = Some (Inl e)"

definition getM :: "('s \<Rightarrow> 'a) \<Rightarrow> ('s, 'e, 'a) comp" where
  "getM f s = Some (Inr (f s, s))"

definition modM :: "('s \<Rightarrow> 's) \<Rightarrow> ('s, 'e, unit) comp" where
  "modM f s = Some (Inr ((), f s))"

definition liftM :: "'e + 'a \<Rightarrow> ('s, 'e, 'a) comp" where
  "liftM r = (case r of Inl e \<Rightarrow> failM e | Inr x \<Rightarrow> retM x)"

lemmas gen_defs = bindM_def thenM_def getM_def modM_def retM_def failM_def liftM_def

text \<open>Recursive computations are definable: sequencing is monotone.\<close>

lemma bindM_mono [partial_function_mono]:
  assumes m: "mono_option (\<lambda>f. B f s)" and c: "\<And>x s'. mono_option (\<lambda>f. C x f s')"
  shows "mono_option (\<lambda>f. bindM (B f) (\<lambda>x. C x f) s)"
  using m c unfolding monotone_def bindM_def flat_ord_def
  by (fastforce split: option.splits sum.splits)

lemma thenM_mono [partial_function_mono]:
  assumes "mono_option (\<lambda>f. B f s)" "\<And>s'. mono_option (\<lambda>f. C f s')"
  shows "mono_option (\<lambda>f. thenM (B f) (C f) s)"
  unfolding thenM_def by (rule bindM_mono, rule assms(1), rule assms(2))

lemma if_comp_mono [partial_function_mono]:
  "mono_option (\<lambda>f. B f s) \<Longrightarrow> mono_option (\<lambda>f. C f s) \<Longrightarrow> mono_option (\<lambda>f. (if p then B f else C f) s)"
  by (cases p) simp_all

subsection \<open>Running a computation\<close>

text \<open>
  \<open>runs m s Q\<close>: from \<open>s\<close> the computation returns, and its outcome satisfies \<open>Q\<close>, which gets
  the result and the new state, or the error.\<close>

definition runs :: "('s, 'e, 'a) comp \<Rightarrow> 's \<Rightarrow> ('a \<Rightarrow> 's \<Rightarrow> bool) \<Rightarrow> ('e \<Rightarrow> bool) \<Rightarrow> bool" where
  "runs m s Q E \<longleftrightarrow> (case m s of None \<Rightarrow> False | Some (Inl e) \<Rightarrow> E e | Some (Inr (x, s')) \<Rightarrow> Q x s')"

lemma runs_ret [simp]: "runs (retM x) s Q E = Q x s"
  by (simp add: runs_def retM_def)

lemma runs_fail [simp]: "runs (failM e) s Q E = E e"
  by (simp add: runs_def failM_def)

lemma runs_get [simp]: "runs (getM f) s Q E = Q (f s) s"
  by (simp add: runs_def getM_def)

lemma runs_mod [simp]: "runs (modM f) s Q E = Q () (f s)"
  by (simp add: runs_def modM_def)

lemma runs_bind: "runs (bindM m f) s Q E = runs m s (\<lambda>x s'. runs (f x) s' Q E) E"
  by (auto simp: runs_def bindM_def split: option.split sum.split)

lemma runs_then: "runs (thenM m n) s Q E = runs m s (\<lambda>_ s'. runs n s' Q E) E"
  by (simp add: thenM_def runs_bind)

lemma runs_mono: "runs m s Q E \<Longrightarrow> (\<And>x s'. Q x s' \<Longrightarrow> Q' x s') \<Longrightarrow> (\<And>e. E e \<Longrightarrow> E' e) \<Longrightarrow> runs m s Q' E'"
  by (auto simp: runs_def split: option.split_asm sum.split_asm)

lemma runs_bindI:
  "runs m s P E \<Longrightarrow> (\<And>x s'. P x s' \<Longrightarrow> runs (f x) s' Q E) \<Longrightarrow> runs (bindM m f) s Q E"
  unfolding runs_bind by (erule runs_mono)

lemma runs_thenI:
  "runs m s P E \<Longrightarrow> (\<And>x s'. P x s' \<Longrightarrow> runs n s' Q E) \<Longrightarrow> runs (thenM m n) s Q E"
  unfolding thenM_def by (rule runs_bindI)

lemma runs_getI: "runs (f (g s)) s Q E \<Longrightarrow> runs (bindM (getM g) f) s Q E"
  by (simp add: runs_bind)

lemmas runs_simps = runs_bind runs_then

end
