(* ===== verification/Codegen.thy ===== *)
theory Codegen
  imports Protos Monads
begin

text \<open>
  The code generator (\<^verbatim>\<open>lcode.h\<close>, \<^verbatim>\<open>lcode.c\<close>): emission of instructions, the lists of pending
  jumps threaded through the code, the constant table, register allocation and expression
  descriptors.

  An operation takes and returns the state of the function being compiled.  It may throw an
  error (\<open>Inl\<close>), read or write outside the code array (\<open>OutOfBounds\<close>), or not return at all
  (\<^const>\<open>None\<close>): the loops along jump lists end only if the lists do.

  \<open>fs_code\<close> and \<open>fs_lineinfo\<close> hold the cells written so far; \<open>fs_sizecode\<close>,
  \<open>fs_sizelineinfo\<close> and \<open>fs_sizek\<close> are the allocated sizes.  The table \<^verbatim>\<open>h\<close> that finds
  constants again is used as a map with raw equality on keys, which is what the theory of
  tables shows it to be.  Arithmetic on doubles is a parameter (\<open>fpops\<close>).
\<close>

definition NO_JUMP :: int where "NO_JUMP = - 1"

datatype BinOpr = OPR_ADD | OPR_SUB | OPR_MUL | OPR_DIV | OPR_MOD | OPR_POW | OPR_CONCAT | OPR_NE | OPR_EQ
  | OPR_LT | OPR_LE | OPR_GT | OPR_GE | OPR_AND | OPR_OR | OPR_NOBINOPR

datatype UnOpr = OPR_MINUS | OPR_NOT | OPR_LEN | OPR_NOUNOPR

datatype expkind = VVOID | VNIL | VTRUE | VFALSE | VK | VKNUM | VLOCAL | VUPVAL | VGLOBAL | VINDEXED
  | VJMP | VRELOCABLE | VNONRELOC | VCALL | VVARARG

record expdesc =
  e_k :: expkind
  e_info :: int
  e_aux :: int
  e_nval :: lua_Number
  e_t :: int
  e_f :: int

record FuncState =
  fs_code :: "Instruction list"
  fs_lineinfo :: "int list"
  fs_sizecode :: int
  fs_sizelineinfo :: int
  fs_kv :: "Const list"
  fs_sizek :: int
  fs_h :: "(Const \<times> int) list"
  fs_pc :: int
  fs_lasttarget :: int
  fs_jpc :: int
  fs_freereg :: int
  fs_nactvar :: int
  fs_maxstack :: int
  fs_lastline :: int

datatype kstop = SyntaxError string | RunError string | OutOfBounds

type_synonym 'a gen = "(FuncState, kstop, 'a) comp"

definition readcode :: "int \<Rightarrow> Instruction gen" where
  "readcode pc fs = (case at (fs_code fs) pc of None \<Rightarrow> Some (Inl OutOfBounds) | Some i \<Rightarrow> Some (Inr (i, fs)))"

definition setcode :: "int \<Rightarrow> Instruction \<Rightarrow> Instruction list \<Rightarrow> Instruction list" where
  "setcode pc i code = code[nat pc := i]"

definition writecode :: "int \<Rightarrow> (Instruction \<Rightarrow> Instruction) \<Rightarrow> unit gen" where
  "writecode pc f = bindM (readcode pc) (\<lambda>i. modM (\<lambda>fs. fs\<lparr>fs_code := setcode pc (f i) (fs_code fs)\<rparr>))"

text \<open>A step on the code array alone, for the loops along lists.\<close>

definition on_code_array :: "(Instruction list \<Rightarrow> (kstop + 'a \<times> Instruction list) option) \<Rightarrow> 'a gen" where
  "on_code_array m fs =
     (case m (fs_code fs) of
        None \<Rightarrow> None
      | Some (Inl e) \<Rightarrow> Some (Inl e)
      | Some (Inr (x, code)) \<Rightarrow> Some (Inr (x, fs\<lparr>fs_code := code\<rparr>)))"

subsection \<open>Jump lists\<close>

definition is_opcode :: "Instruction \<Rightarrow> OpCode \<Rightarrow> bool" where
  "is_opcode i op \<longleftrightarrow> GET_OPCODE i = of_OpCode op"

definition hasjumps :: "expdesc \<Rightarrow> bool" where
  "hasjumps e \<longleftrightarrow> e_t e \<noteq> e_f e"

definition isnumeral :: "expdesc \<Rightarrow> bool" where
  "isnumeral e \<longleftrightarrow> e_k e = VKNUM \<and> e_t e = NO_JUMP \<and> e_f e = NO_JUMP"

definition fixjump :: "int \<Rightarrow> int \<Rightarrow> Instruction list \<Rightarrow> kstop + Instruction list" where
  "fixjump pc dest code =
     (case at code pc of
        None \<Rightarrow> Inl OutOfBounds
      | Some jmp \<Rightarrow>
          let offset = dest - (pc + 1) in
          if \<bar>offset\<bar> > MAXARG_sBx then Inl (SyntaxError ''control structure too long'')
          else Inr (setcode pc (SETARG_sBx jmp offset) code))"

definition getjump :: "int \<Rightarrow> Instruction list \<Rightarrow> int option" where
  "getjump pc code =
     map_option (\<lambda>i. let offset = GETARG_sBx i in if offset = NO_JUMP then NO_JUMP else pc + 1 + offset) (at code pc)"

text \<open>The index of the instruction that controls a jump.\<close>

definition getjumpcontrol :: "int \<Rightarrow> Instruction list \<Rightarrow> int" where
  "getjumpcontrol pc code =
     (if pc \<ge> 1 \<and> testTMode (GET_OPCODE (code ! nat (pc - 1))) = Some True then pc - 1 else pc)"

partial_function (option) need_value_loop :: "int \<Rightarrow> Instruction list \<Rightarrow> (kstop + bool) option" where
  [code]: "need_value_loop list code =
     (if list = NO_JUMP then Some (Inr False)
      else (case getjump list code of
              None \<Rightarrow> Some (Inl OutOfBounds)
            | Some nxt \<Rightarrow>
                if \<not> is_opcode (code ! nat (getjumpcontrol list code)) OP_TESTSET then Some (Inr True)
                else need_value_loop nxt code))"

definition need_value :: "int \<Rightarrow> bool gen" where
  "need_value list =
     on_code_array (\<lambda>code. map_option (map_sum id (\<lambda>b. (b, code))) (need_value_loop list code))"

definition patchtestreg :: "int \<Rightarrow> int \<Rightarrow> Instruction list \<Rightarrow> bool \<times> Instruction list" where
  "patchtestreg node reg code =
     (let c = getjumpcontrol node code; i = code ! nat c in
      if \<not> is_opcode i OP_TESTSET then (False, code)
      else if reg \<noteq> NO_REG \<and> reg \<noteq> GETARG_B i then (True, setcode c (SETARG_A i reg) code)
      else (True, setcode c (CREATE_ABC (of_OpCode OP_TEST) (GETARG_B i) 0 (GETARG_C i)) code))"

partial_function (option) removevalues_loop :: "int \<Rightarrow> Instruction list \<Rightarrow> (kstop + unit \<times> Instruction list) option" where
  [code]: "removevalues_loop list code =
     (if list = NO_JUMP then Some (Inr ((), code))
      else (case getjump list code of
              None \<Rightarrow> Some (Inl OutOfBounds)
            | Some _ \<Rightarrow>
                (let code = snd (patchtestreg list NO_REG code) in
                 case getjump list code of
                   None \<Rightarrow> Some (Inl OutOfBounds)
                 | Some nxt \<Rightarrow> removevalues_loop nxt code)))"

definition removevalues :: "int \<Rightarrow> unit gen" where
  "removevalues list = on_code_array (removevalues_loop list)"

definition patch_one :: "int \<Rightarrow> int \<Rightarrow> int \<Rightarrow> int \<Rightarrow> Instruction list \<Rightarrow> kstop + int \<times> Instruction list" where
  "patch_one list vtarget reg dtarget code =
     (case getjump list code of
        None \<Rightarrow> Inl OutOfBounds
      | Some nxt \<Rightarrow>
          let (ok, code) = patchtestreg list reg code in
          map_sum id (Pair nxt) (fixjump list (if ok then vtarget else dtarget) code))"

partial_function (option) patchlistaux_loop ::
  "int \<Rightarrow> int \<Rightarrow> int \<Rightarrow> int \<Rightarrow> Instruction list \<Rightarrow> (kstop + unit \<times> Instruction list) option" where
  [code]: "patchlistaux_loop list vtarget reg dtarget code =
     (if list = NO_JUMP then Some (Inr ((), code))
      else (case patch_one list vtarget reg dtarget code of
              Inl e \<Rightarrow> Some (Inl e)
            | Inr r \<Rightarrow> patchlistaux_loop (fst r) vtarget reg dtarget (snd r)))"

definition patchlistaux :: "int \<Rightarrow> int \<Rightarrow> int \<Rightarrow> int \<Rightarrow> unit gen" where
  "patchlistaux list vtarget reg dtarget = on_code_array (patchlistaux_loop list vtarget reg dtarget)"

definition dischargejpc :: "unit gen" where
  "dischargejpc =
     bindM (getM fs_jpc) (\<lambda>jpc. bindM (getM fs_pc) (\<lambda>pc.
       thenM (patchlistaux jpc pc NO_REG pc) (modM (\<lambda>fs. fs\<lparr>fs_jpc := NO_JUMP\<rparr>))))"

definition luaK_getlabel :: "int gen" where
  "luaK_getlabel = thenM (modM (\<lambda>fs. fs\<lparr>fs_lasttarget := fs_pc fs\<rparr>)) (getM fs_pc)"

partial_function (option) concat_loop :: "int \<Rightarrow> int \<Rightarrow> Instruction list \<Rightarrow> (kstop + Instruction list) option" where
  [code]: "concat_loop list l2 code =
     (case getjump list code of
        None \<Rightarrow> Some (Inl OutOfBounds)
      | Some nxt \<Rightarrow> if nxt \<noteq> NO_JUMP then concat_loop nxt l2 code else Some (fixjump list l2 code))"

definition luaK_concat :: "int \<Rightarrow> int \<Rightarrow> int gen" where
  "luaK_concat l1 l2 =
     (if l2 = NO_JUMP then retM l1
      else if l1 = NO_JUMP then retM l2
      else on_code_array (\<lambda>code. map_option (map_sum id (Pair l1)) (concat_loop l1 l2 code)))"

definition luaK_patchtohere :: "int \<Rightarrow> unit gen" where
  "luaK_patchtohere list =
     thenM luaK_getlabel
       (bindM (getM fs_jpc) (\<lambda>jpc. bindM (luaK_concat jpc list) (\<lambda>l. modM (\<lambda>fs. fs\<lparr>fs_jpc := l\<rparr>))))"

definition luaK_patchlist :: "int \<Rightarrow> int \<Rightarrow> unit gen" where
  "luaK_patchlist list target =
     bindM (getM fs_pc) (\<lambda>pc.
       if target = pc then luaK_patchtohere list else patchlistaux list target NO_REG target)"

subsection \<open>Emitting instructions\<close>

definition MINSIZEARRAY :: int where "MINSIZEARRAY = 4"

definition K_MAX_INT :: int where "K_MAX_INT = 2 ^ 31 - 3"

text \<open>The new size of an array that has to grow.\<close>

definition luaM_growaux :: "int \<Rightarrow> int \<Rightarrow> string \<Rightarrow> kstop + int" where
  "luaM_growaux sz limit errormsg =
     (if sz \<ge> limit div 2 then (if sz \<ge> limit then Inl (RunError errormsg) else Inr limit)
      else if sz * 2 < MINSIZEARRAY then Inr MINSIZEARRAY
      else Inr (sz * 2))"

definition luaM_growvector :: "int \<Rightarrow> int \<Rightarrow> int \<Rightarrow> string \<Rightarrow> kstop + int" where
  "luaM_growvector nelems sz limit errormsg =
     (if nelems + 1 > sz then luaM_growaux sz limit errormsg else Inr sz)"

definition putcell :: "int \<Rightarrow> 'a \<Rightarrow> 'a list \<Rightarrow> 'a list" where
  "putcell pc x xs = (if nat pc < length xs then xs[nat pc := x] else xs @ [x])"

definition luaK_code :: "Instruction \<Rightarrow> int \<Rightarrow> int gen" where
  "luaK_code i line =
     thenM dischargejpc
       (bindM (getM (\<lambda>fs. fs)) (\<lambda>fs.
         bindM (liftM (luaM_growvector (fs_pc fs) (fs_sizecode fs) K_MAX_INT ''code size overflow'')) (\<lambda>sc.
         thenM (if fs_pc fs < 0 then failM OutOfBounds
                else modM (\<lambda>fs. fs\<lparr>fs_sizecode := sc, fs_code := putcell (fs_pc fs) i (fs_code fs)\<rparr>))
         (bindM (liftM (luaM_growvector (fs_pc fs) (fs_sizelineinfo fs) K_MAX_INT ''code size overflow'')) (\<lambda>sl.
         thenM (modM (\<lambda>fs. fs\<lparr>fs_sizelineinfo := sl, fs_lineinfo := putcell (fs_pc fs) line (fs_lineinfo fs),
                  fs_pc := fs_pc fs + 1\<rparr>))
           (retM (fs_pc fs)))))))"

definition luaK_codeABC :: "OpCode \<Rightarrow> int \<Rightarrow> int \<Rightarrow> int \<Rightarrow> int gen" where
  "luaK_codeABC op a b c = bindM (getM fs_lastline) (luaK_code (CREATE_ABC (of_OpCode op) a b c))"

definition luaK_codeABx :: "OpCode \<Rightarrow> int \<Rightarrow> int \<Rightarrow> int gen" where
  "luaK_codeABx op a bc = bindM (getM fs_lastline) (luaK_code (CREATE_ABx (of_OpCode op) a bc))"

definition luaK_codeAsBx :: "OpCode \<Rightarrow> int \<Rightarrow> int \<Rightarrow> int gen" where
  "luaK_codeAsBx op a sbx = luaK_codeABx op a (sbx + MAXARG_sBx)"

definition luaK_fixline :: "int \<Rightarrow> unit gen" where
  "luaK_fixline line =
     bindM (getM (\<lambda>fs. (fs_pc fs, length (fs_lineinfo fs)))) (\<lambda>(pc, n).
       if 0 \<le> pc - 1 \<and> pc - 1 < int n then modM (\<lambda>fs. fs\<lparr>fs_lineinfo := (fs_lineinfo fs)[nat (pc - 1) := line]\<rparr>)
       else failM OutOfBounds)"

definition luaK_nil :: "int \<Rightarrow> int \<Rightarrow> unit gen" where
  "luaK_nil from n =
     (let emit = thenM (luaK_codeABC OP_LOADNIL from (from + n - 1) 0) (retM ()) in
      bindM (getM (\<lambda>fs. fs)) (\<lambda>fs.
        if fs_pc fs > fs_lasttarget fs then
          (if fs_pc fs = 0 then (if from \<ge> fs_nactvar fs then retM () else emit)
           else bindM (readcode (fs_pc fs - 1)) (\<lambda>previous.
             if is_opcode previous OP_LOADNIL \<and> GETARG_A previous \<le> from \<and> from \<le> GETARG_B previous + 1 then
               (if from + n - 1 > GETARG_B previous
                then writecode (fs_pc fs - 1) (\<lambda>i. SETARG_B i (from + n - 1)) else retM ())
             else emit))
        else emit))"

definition luaK_jump :: "int gen" where
  "luaK_jump =
     bindM (getM fs_jpc) (\<lambda>jpc.
       thenM (modM (\<lambda>fs. fs\<lparr>fs_jpc := NO_JUMP\<rparr>))
         (bindM (luaK_codeAsBx OP_JMP 0 NO_JUMP) (\<lambda>j. luaK_concat j jpc)))"

definition luaK_ret :: "int \<Rightarrow> int \<Rightarrow> unit gen" where
  "luaK_ret first nret = thenM (luaK_codeABC OP_RETURN first (nret + 1) 0) (retM ())"

definition condjump :: "OpCode \<Rightarrow> int \<Rightarrow> int \<Rightarrow> int \<Rightarrow> int gen" where
  "condjump op a b c = thenM (luaK_codeABC op a b c) luaK_jump"

subsection \<open>Registers\<close>

definition K_MAXSTACK :: int where "K_MAXSTACK = 250"

definition luaK_checkstack :: "int \<Rightarrow> unit gen" where
  "luaK_checkstack n =
     bindM (getM (\<lambda>fs. (fs_freereg fs + n, fs_maxstack fs))) (\<lambda>(newstack, mx).
       if newstack > mx then
         (if newstack \<ge> K_MAXSTACK then failM (SyntaxError ''function or expression too complex'')
          else modM (\<lambda>fs. fs\<lparr>fs_maxstack := newstack mod 256\<rparr>))
       else retM ())"

definition luaK_reserveregs :: "int \<Rightarrow> unit gen" where
  "luaK_reserveregs n = thenM (luaK_checkstack n) (modM (\<lambda>fs. fs\<lparr>fs_freereg := fs_freereg fs + n\<rparr>))"

definition freereg :: "int \<Rightarrow> unit gen" where
  "freereg reg =
     bindM (getM fs_nactvar) (\<lambda>n.
       if \<not> ISK reg \<and> reg \<ge> n then modM (\<lambda>fs. fs\<lparr>fs_freereg := fs_freereg fs - 1\<rparr>) else retM ())"

definition freeexp :: "expdesc \<Rightarrow> unit gen" where
  "freeexp e = (if e_k e = VNONRELOC then freereg (e_info e) else retM ())"

subsection \<open>Constants\<close>

text \<open>Raw equality on the keys of the constant table; the table itself stands for nil.\<close>

fun const_eq :: "Const \<Rightarrow> Const \<Rightarrow> bool" where
  "const_eq (KNumber a) (KNumber b) = luai_numeq a b"
| "const_eq a b = (a = b)"

definition h_find :: "(Const \<times> int) list \<Rightarrow> Const \<Rightarrow> int option" where
  "h_find h k = map_option snd (find (\<lambda>e. const_eq (fst e) k) h)"

definition addk :: "Const \<Rightarrow> Const \<Rightarrow> int gen" where
  "addk key v =
     bindM (getM (\<lambda>fs. fs)) (\<lambda>fs.
       if (case key of KNumber n \<Rightarrow> luai_numisnan n | _ \<Rightarrow> False) then failM (RunError ''table index is NaN'')
       else (case h_find (fs_h fs) key of
         Some idx \<Rightarrow> retM idx
       | None \<Rightarrow>
           let nk = int (length (fs_kv fs)) in
           bindM (liftM (luaM_growvector nk (fs_sizek fs) MAXARG_Bx ''constant table overflow'')) (\<lambda>sk.
             thenM (modM (\<lambda>fs. fs\<lparr>fs_h := (key, nk) # fs_h fs, fs_sizek := sk, fs_kv := fs_kv fs @ [v]\<rparr>))
               (retM nk))))"

definition luaK_stringK :: "string \<Rightarrow> int gen" where
  "luaK_stringK s = addk (KString (Some s)) (KString (Some s))"

definition luaK_numberK :: "lua_Number \<Rightarrow> int gen" where
  "luaK_numberK r = addk (KNumber r) (KNumber r)"

definition boolK :: "bool \<Rightarrow> int gen" where
  "boolK b = addk (KBoolean (if b then 1 else 0)) (KBoolean (if b then 1 else 0))"

definition nilK :: "int gen" where
  "nilK = addk KNil KNil"

end
