(* ===== verification/Codegen_Exp.thy ===== *)
theory Codegen_Exp
  imports Codegen "HOL-Library.Signed_Division"
begin

text \<open>
  The code generator, continued (\<^verbatim>\<open>lcode.c\<close>): from expression descriptors to code.

  A C function that updates the descriptor it points to returns it here (both, for a function
  of two).  The union \<^verbatim>\<open>u\<close> of a descriptor is kept as separate fields: the code never reads
  one member after writing the other.  \<^verbatim>\<open>lua_assert\<close> is empty in the build, so a failed
  assertion is the branch that follows it.
\<close>

definition LUA_MULTRET :: int where "LUA_MULTRET = - 1"

definition luaK_setreturns :: "expdesc \<Rightarrow> int \<Rightarrow> unit gen" where
  "luaK_setreturns e nresults =
     (if e_k e = VCALL then writecode (e_info e) (\<lambda>i. SETARG_C i (nresults + 1))
      else if e_k e = VVARARG then
        thenM (writecode (e_info e) (\<lambda>i. SETARG_B i (nresults + 1)))
          (bindM (getM fs_freereg) (\<lambda>r.
            thenM (writecode (e_info e) (\<lambda>i. SETARG_A i r)) (luaK_reserveregs 1)))
      else retM ())"

definition luaK_setoneret :: "expdesc \<Rightarrow> expdesc gen" where
  "luaK_setoneret e =
     (if e_k e = VCALL then
        bindM (readcode (e_info e)) (\<lambda>i. retM (e\<lparr>e_k := VNONRELOC, e_info := GETARG_A i\<rparr>))
      else if e_k e = VVARARG then
        thenM (writecode (e_info e) (\<lambda>i. SETARG_B i 2)) (retM (e\<lparr>e_k := VRELOCABLE\<rparr>))
      else retM e)"

definition relocable :: "expdesc \<Rightarrow> int gen \<Rightarrow> expdesc gen" where
  "relocable e m = bindM m (\<lambda>pc. retM (e\<lparr>e_info := pc, e_k := VRELOCABLE\<rparr>))"

definition luaK_dischargevars :: "expdesc \<Rightarrow> expdesc gen" where
  "luaK_dischargevars e =
     (case e_k e of
        VLOCAL \<Rightarrow> retM (e\<lparr>e_k := VNONRELOC\<rparr>)
      | VUPVAL \<Rightarrow> relocable e (luaK_codeABC OP_GETUPVAL 0 (e_info e) 0)
      | VGLOBAL \<Rightarrow> relocable e (luaK_codeABx OP_GETGLOBAL 0 (e_info e))
      | VINDEXED \<Rightarrow>
          thenM (freereg (e_aux e)) (thenM (freereg (e_info e))
            (relocable e (luaK_codeABC OP_GETTABLE 0 (e_info e) (e_aux e))))
      | VVARARG \<Rightarrow> luaK_setoneret e
      | VCALL \<Rightarrow> luaK_setoneret e
      | _ \<Rightarrow> retM e)"

definition code_label :: "int \<Rightarrow> int \<Rightarrow> int \<Rightarrow> int gen" where
  "code_label A b jump = thenM luaK_getlabel (luaK_codeABC OP_LOADBOOL A b jump)"

definition discharge2reg :: "expdesc \<Rightarrow> int \<Rightarrow> expdesc gen" where
  "discharge2reg e reg =
     bindM (luaK_dischargevars e) (\<lambda>e.
       let fin = retM (e\<lparr>e_info := reg, e_k := VNONRELOC\<rparr>) in
       case e_k e of
         VNIL \<Rightarrow> thenM (luaK_nil reg 1) fin
       | VFALSE \<Rightarrow> thenM (luaK_codeABC OP_LOADBOOL reg 0 0) fin
       | VTRUE \<Rightarrow> thenM (luaK_codeABC OP_LOADBOOL reg 1 0) fin
       | VK \<Rightarrow> thenM (luaK_codeABx OP_LOADK reg (e_info e)) fin
       | VKNUM \<Rightarrow> bindM (luaK_numberK (e_nval e)) (\<lambda>k. thenM (luaK_codeABx OP_LOADK reg k) fin)
       | VRELOCABLE \<Rightarrow> thenM (writecode (e_info e) (\<lambda>i. SETARG_A i reg)) fin
       | VNONRELOC \<Rightarrow>
           (if reg \<noteq> e_info e then thenM (luaK_codeABC OP_MOVE reg (e_info e) 0) fin else fin)
       | _ \<Rightarrow> retM e)"

definition discharge2anyreg :: "expdesc \<Rightarrow> expdesc gen" where
  "discharge2anyreg e =
     (if e_k e \<noteq> VNONRELOC then
        thenM (luaK_reserveregs 1) (bindM (getM fs_freereg) (\<lambda>r. discharge2reg e (r - 1)))
      else retM e)"

text \<open>\<^verbatim>\<open>luaK_concat (fs, &e->t, l)\<close> and its twin on \<^verbatim>\<open>f\<close>.\<close>

definition concat_t :: "expdesc \<Rightarrow> int \<Rightarrow> expdesc gen" where
  "concat_t e l = bindM (luaK_concat (e_t e) l) (\<lambda>t. retM (e\<lparr>e_t := t\<rparr>))"

definition concat_f :: "expdesc \<Rightarrow> int \<Rightarrow> expdesc gen" where
  "concat_f e l = bindM (luaK_concat (e_f e) l) (\<lambda>f. retM (e\<lparr>e_f := f\<rparr>))"

definition orK :: "bool gen \<Rightarrow> bool gen \<Rightarrow> bool gen" where
  "orK a b = bindM a (\<lambda>x. if x then retM True else b)"

definition exp2reg :: "expdesc \<Rightarrow> int \<Rightarrow> expdesc gen" where
  "exp2reg e reg =
     bindM (discharge2reg e reg) (\<lambda>e.
     bindM (if e_k e = VJMP then concat_t e (e_info e) else retM e) (\<lambda>e.
     thenM
       (if \<not> hasjumps e then retM ()
        else
          bindM (orK (need_value (e_t e)) (need_value (e_f e))) (\<lambda>need.
          bindM
            (if need then
               bindM (if e_k e = VJMP then retM NO_JUMP else luaK_jump) (\<lambda>fj.
               bindM (code_label reg 0 1) (\<lambda>p_f.
               bindM (code_label reg 1 0) (\<lambda>p_t.
               thenM (luaK_patchtohere fj) (retM (p_f, p_t)))))
             else retM (NO_JUMP, NO_JUMP)) (\<lambda>(p_f, p_t).
          bindM luaK_getlabel (\<lambda>final.
            thenM (patchlistaux (e_f e) final reg p_f) (patchlistaux (e_t e) final reg p_t)))))
       (retM (e\<lparr>e_f := NO_JUMP, e_t := NO_JUMP, e_info := reg, e_k := VNONRELOC\<rparr>))))"

definition luaK_exp2nextreg :: "expdesc \<Rightarrow> expdesc gen" where
  "luaK_exp2nextreg e =
     bindM (luaK_dischargevars e) (\<lambda>e.
       thenM (freeexp e) (thenM (luaK_reserveregs 1)
         (bindM (getM fs_freereg) (\<lambda>r. exp2reg e (r - 1)))))"

text \<open>The register of the result is the descriptor's \<^verbatim>\<open>info\<close>.\<close>

definition luaK_exp2anyreg :: "expdesc \<Rightarrow> expdesc gen" where
  "luaK_exp2anyreg e =
     bindM (luaK_dischargevars e) (\<lambda>e.
     bindM (getM fs_nactvar) (\<lambda>n.
       if e_k e = VNONRELOC \<and> \<not> hasjumps e then retM e
       else if e_k e = VNONRELOC \<and> e_info e \<ge> n then exp2reg e (e_info e)
       else luaK_exp2nextreg e))"

definition luaK_exp2val :: "expdesc \<Rightarrow> expdesc gen" where
  "luaK_exp2val e = (if hasjumps e then luaK_exp2anyreg e else luaK_dischargevars e)"

definition luaK_exp2RK :: "expdesc \<Rightarrow> (int \<times> expdesc) gen" where
  "luaK_exp2RK e =
     bindM (luaK_exp2val e) (\<lambda>e.
     bindM (getM (\<lambda>fs. int (length (fs_kv fs)))) (\<lambda>nk.
       let toreg = bindM (luaK_exp2anyreg e) (\<lambda>e. retM (e_info e, e));
           const = (\<lambda>m. if nk \<le> MAXINDEXRK
                        then bindM m (\<lambda>k. retM (RKASK k, e\<lparr>e_info := k, e_k := VK\<rparr>))
                        else toreg) in
       case e_k e of
         VKNUM \<Rightarrow> const (luaK_numberK (e_nval e))
       | VTRUE \<Rightarrow> const (boolK True)
       | VFALSE \<Rightarrow> const (boolK False)
       | VNIL \<Rightarrow> const nilK
       | VK \<Rightarrow> (if e_info e \<le> MAXINDEXRK then retM (RKASK (e_info e), e) else toreg)
       | _ \<Rightarrow> toreg))"

definition luaK_storevar :: "expdesc \<Rightarrow> expdesc \<Rightarrow> expdesc gen" where
  "luaK_storevar var ex =
     (case e_k var of
        VLOCAL \<Rightarrow> thenM (freeexp ex) (exp2reg ex (e_info var))
      | VUPVAL \<Rightarrow>
          bindM (luaK_exp2anyreg ex) (\<lambda>ex.
            thenM (luaK_codeABC OP_SETUPVAL (e_info ex) (e_info var) 0) (thenM (freeexp ex) (retM ex)))
      | VGLOBAL \<Rightarrow>
          bindM (luaK_exp2anyreg ex) (\<lambda>ex.
            thenM (luaK_codeABx OP_SETGLOBAL (e_info ex) (e_info var)) (thenM (freeexp ex) (retM ex)))
      | VINDEXED \<Rightarrow>
          bindM (luaK_exp2RK ex) (\<lambda>(e, ex).
            thenM (luaK_codeABC OP_SETTABLE (e_info var) (e_aux var) e) (thenM (freeexp ex) (retM ex)))
      | _ \<Rightarrow> thenM (freeexp ex) (retM ex))"

definition luaK_self :: "expdesc \<Rightarrow> expdesc \<Rightarrow> (expdesc \<times> expdesc) gen" where
  "luaK_self e key =
     bindM (luaK_exp2anyreg e) (\<lambda>e.
     thenM (freeexp e)
     (bindM (getM fs_freereg) (\<lambda>func.
     thenM (luaK_reserveregs 2)
     (bindM (luaK_exp2RK key) (\<lambda>(k, key).
     thenM (luaK_codeABC OP_SELF func (e_info e) k)
     (thenM (freeexp key)
       (retM (e\<lparr>e_info := func, e_k := VNONRELOC\<rparr>, key))))))))"

subsection \<open>Conditions\<close>

definition invertjump :: "expdesc \<Rightarrow> unit gen" where
  "invertjump e =
     bindM (getM (\<lambda>fs. getjumpcontrol (e_info e) (fs_code fs))) (\<lambda>pc.
       writecode pc (\<lambda>i. SETARG_A i (if GETARG_A i = 0 then 1 else 0)))"

definition jumponcond_reg :: "expdesc \<Rightarrow> int \<Rightarrow> (int \<times> expdesc) gen" where
  "jumponcond_reg e cond =
     bindM (discharge2anyreg e) (\<lambda>e.
     thenM (freeexp e)
     (bindM (condjump OP_TESTSET NO_REG (e_info e) cond) (\<lambda>pc. retM (pc, e))))"

definition jumponcond :: "expdesc \<Rightarrow> int \<Rightarrow> (int \<times> expdesc) gen" where
  "jumponcond e cond =
     (if e_k e = VRELOCABLE then
        bindM (readcode (e_info e)) (\<lambda>ie.
          if is_opcode ie OP_NOT then
            thenM (modM (\<lambda>fs. fs\<lparr>fs_pc := fs_pc fs - 1\<rparr>))
              (bindM (condjump OP_TEST (GETARG_B ie) 0 (if cond = 0 then 1 else 0)) (\<lambda>pc. retM (pc, e)))
          else jumponcond_reg e cond)
      else jumponcond_reg e cond)"

definition luaK_goiftrue :: "expdesc \<Rightarrow> expdesc gen" where
  "luaK_goiftrue e =
     bindM (luaK_dischargevars e) (\<lambda>e.
     bindM
       (case e_k e of
          VK \<Rightarrow> retM (NO_JUMP, e)
        | VKNUM \<Rightarrow> retM (NO_JUMP, e)
        | VTRUE \<Rightarrow> retM (NO_JUMP, e)
        | VFALSE \<Rightarrow> bindM luaK_jump (\<lambda>pc. retM (pc, e))
        | VJMP \<Rightarrow> thenM (invertjump e) (retM (e_info e, e))
        | _ \<Rightarrow> jumponcond e 0) (\<lambda>(pc, e).
     bindM (concat_f e pc) (\<lambda>e.
     thenM (luaK_patchtohere (e_t e)) (retM (e\<lparr>e_t := NO_JUMP\<rparr>)))))"

definition luaK_goiffalse :: "expdesc \<Rightarrow> expdesc gen" where
  "luaK_goiffalse e =
     bindM (luaK_dischargevars e) (\<lambda>e.
     bindM
       (case e_k e of
          VNIL \<Rightarrow> retM (NO_JUMP, e)
        | VFALSE \<Rightarrow> retM (NO_JUMP, e)
        | VTRUE \<Rightarrow> bindM luaK_jump (\<lambda>pc. retM (pc, e))
        | VJMP \<Rightarrow> retM (e_info e, e)
        | _ \<Rightarrow> jumponcond e 1) (\<lambda>(pc, e).
     bindM (concat_t e pc) (\<lambda>e.
     thenM (luaK_patchtohere (e_f e)) (retM (e\<lparr>e_f := NO_JUMP\<rparr>)))))"

definition codenot_reg :: "expdesc \<Rightarrow> expdesc gen" where
  "codenot_reg e =
     bindM (discharge2anyreg e) (\<lambda>e.
       thenM (freeexp e) (relocable e (luaK_codeABC OP_NOT 0 (e_info e) 0)))"

definition codenot :: "expdesc \<Rightarrow> expdesc gen" where
  "codenot e =
     bindM (luaK_dischargevars e) (\<lambda>e.
     bindM
       (case e_k e of
          VNIL \<Rightarrow> retM (e\<lparr>e_k := VTRUE\<rparr>)
        | VFALSE \<Rightarrow> retM (e\<lparr>e_k := VTRUE\<rparr>)
        | VK \<Rightarrow> retM (e\<lparr>e_k := VFALSE\<rparr>)
        | VKNUM \<Rightarrow> retM (e\<lparr>e_k := VFALSE\<rparr>)
        | VTRUE \<Rightarrow> retM (e\<lparr>e_k := VFALSE\<rparr>)
        | VJMP \<Rightarrow> thenM (invertjump e) (retM e)
        | VRELOCABLE \<Rightarrow> codenot_reg e
        | VNONRELOC \<Rightarrow> codenot_reg e
        | _ \<Rightarrow> retM e) (\<lambda>e.
     let e = e\<lparr>e_f := e_t e, e_t := e_f e\<rparr> in
     thenM (removevalues (e_f e)) (thenM (removevalues (e_t e)) (retM e))))"

definition luaK_indexed :: "expdesc \<Rightarrow> expdesc \<Rightarrow> (expdesc \<times> expdesc) gen" where
  "luaK_indexed t k =
     bindM (luaK_exp2RK k) (\<lambda>(r, k). retM (t\<lparr>e_aux := r, e_k := VINDEXED\<rparr>, k))"

subsection \<open>Operators\<close>

text \<open>
  Arithmetic on doubles: the operations of the hardware and of \<^verbatim>\<open>math.h\<close>.  Negation flips
  the sign bit.\<close>

record fpops =
  fp_add :: "lua_Number \<Rightarrow> lua_Number \<Rightarrow> lua_Number"
  fp_sub :: "lua_Number \<Rightarrow> lua_Number \<Rightarrow> lua_Number"
  fp_mul :: "lua_Number \<Rightarrow> lua_Number \<Rightarrow> lua_Number"
  fp_div :: "lua_Number \<Rightarrow> lua_Number \<Rightarrow> lua_Number"
  fp_floor :: "lua_Number \<Rightarrow> lua_Number"
  fp_pow :: "lua_Number \<Rightarrow> lua_Number \<Rightarrow> lua_Number"

definition luai_nummod :: "fpops \<Rightarrow> lua_Number \<Rightarrow> lua_Number \<Rightarrow> lua_Number" where
  "luai_nummod fp a b = fp_sub fp a (fp_mul fp (fp_floor fp (fp_div fp a b)) b)"

definition luai_numunm :: "lua_Number \<Rightarrow> lua_Number" where
  "luai_numunm a = a XOR push_bit 63 1"

definition constfolding :: "fpops \<Rightarrow> OpCode \<Rightarrow> expdesc \<Rightarrow> expdesc \<Rightarrow> expdesc option" where
  "constfolding fp opr e1 e2 =
     (if \<not> isnumeral e1 \<or> \<not> isnumeral e2 then None
      else
        let v1 = e_nval e1; v2 = e_nval e2;
            fin = (\<lambda>r. if luai_numisnan r then None else Some (e1\<lparr>e_nval := r\<rparr>)) in
        case opr of
          OP_ADD \<Rightarrow> fin (fp_add fp v1 v2)
        | OP_SUB \<Rightarrow> fin (fp_sub fp v1 v2)
        | OP_MUL \<Rightarrow> fin (fp_mul fp v1 v2)
        | OP_DIV \<Rightarrow> (if luai_numeq v2 0 then None else fin (fp_div fp v1 v2))
        | OP_MOD \<Rightarrow> (if luai_numeq v2 0 then None else fin (luai_nummod fp v1 v2))
        | OP_POW \<Rightarrow> fin (fp_pow fp v1 v2)
        | OP_UNM \<Rightarrow> fin (luai_numunm v1)
        | OP_LEN \<Rightarrow> None
        | _ \<Rightarrow> fin 0)"

definition codearith :: "fpops \<Rightarrow> OpCode \<Rightarrow> expdesc \<Rightarrow> expdesc \<Rightarrow> (expdesc \<times> expdesc) gen" where
  "codearith fp opr e1 e2 =
     (case constfolding fp opr e1 e2 of
        Some e1 \<Rightarrow> retM (e1, e2)
      | None \<Rightarrow>
          bindM (if opr \<noteq> OP_UNM \<and> opr \<noteq> OP_LEN then luaK_exp2RK e2 else retM (0, e2)) (\<lambda>(o2, e2).
          bindM (luaK_exp2RK e1) (\<lambda>(o1, e1).
          thenM (if o1 > o2 then thenM (freeexp e1) (freeexp e2) else thenM (freeexp e2) (freeexp e1))
          (bindM (relocable e1 (luaK_codeABC opr 0 o1 o2)) (\<lambda>e1. retM (e1, e2))))))"

definition codecomp :: "OpCode \<Rightarrow> int \<Rightarrow> expdesc \<Rightarrow> expdesc \<Rightarrow> (expdesc \<times> expdesc) gen" where
  "codecomp opr cond e1 e2 =
     bindM (luaK_exp2RK e1) (\<lambda>(o1, e1).
     bindM (luaK_exp2RK e2) (\<lambda>(o2, e2).
     thenM (freeexp e2) (thenM (freeexp e1)
     (bindM (if cond = 0 \<and> opr \<noteq> OP_EQ then condjump opr 1 o2 o1 else condjump opr cond o1 o2) (\<lambda>pc.
       retM (e1\<lparr>e_info := pc, e_k := VJMP\<rparr>, e2))))))"

definition luaK_prefix :: "fpops \<Rightarrow> UnOpr \<Rightarrow> expdesc \<Rightarrow> expdesc gen" where
  "luaK_prefix fp opr e =
     (let e2 = \<lparr>e_k = VKNUM, e_info = 0, e_aux = 0, e_nval = 0, e_t = NO_JUMP, e_f = NO_JUMP\<rparr>;
          arith = (\<lambda>c e. bindM (codearith fp c e e2) (\<lambda>(e, _). retM e)) in
      case opr of
        OPR_MINUS \<Rightarrow> bindM (if \<not> isnumeral e then luaK_exp2anyreg e else retM e) (arith OP_UNM)
      | OPR_NOT \<Rightarrow> codenot e
      | OPR_LEN \<Rightarrow> bindM (luaK_exp2anyreg e) (arith OP_LEN)
      | OPR_NOUNOPR \<Rightarrow> retM e)"

definition arith_opr :: "BinOpr \<Rightarrow> bool" where
  "arith_opr opr \<longleftrightarrow> opr \<in> {OPR_ADD, OPR_SUB, OPR_MUL, OPR_DIV, OPR_MOD, OPR_POW}"

definition luaK_infix :: "BinOpr \<Rightarrow> expdesc \<Rightarrow> expdesc gen" where
  "luaK_infix opr v =
     (if opr = OPR_AND then luaK_goiftrue v
      else if opr = OPR_OR then luaK_goiffalse v
      else if opr = OPR_CONCAT then luaK_exp2nextreg v
      else if arith_opr opr \<and> isnumeral v then retM v
      else bindM (luaK_exp2RK v) (\<lambda>(_, v). retM v))"

definition posfix_concat :: "fpops \<Rightarrow> expdesc \<Rightarrow> expdesc \<Rightarrow> (expdesc \<times> expdesc) gen" where
  "posfix_concat fp e1 e2 =
     bindM (luaK_exp2val e2) (\<lambda>e2.
       let other = bindM (luaK_exp2nextreg e2) (\<lambda>e2. codearith fp OP_CONCAT e1 e2) in
       if e_k e2 = VRELOCABLE then
         bindM (readcode (e_info e2)) (\<lambda>i.
           if is_opcode i OP_CONCAT then
             thenM (freeexp e1)
             (thenM (writecode (e_info e2) (\<lambda>i. SETARG_B i (e_info e1)))
               (retM (e1\<lparr>e_k := VRELOCABLE, e_info := e_info e2\<rparr>, e2)))
           else other)
       else other)"

definition luaK_posfix :: "fpops \<Rightarrow> BinOpr \<Rightarrow> expdesc \<Rightarrow> expdesc \<Rightarrow> (expdesc \<times> expdesc) gen" where
  "luaK_posfix fp opr e1 e2 =
     (case opr of
        OPR_AND \<Rightarrow>
          bindM (luaK_dischargevars e2) (\<lambda>e2. bindM (concat_f e2 (e_f e1)) (\<lambda>e2. retM (e2, e2)))
      | OPR_OR \<Rightarrow>
          bindM (luaK_dischargevars e2) (\<lambda>e2. bindM (concat_t e2 (e_t e1)) (\<lambda>e2. retM (e2, e2)))
      | OPR_CONCAT \<Rightarrow> posfix_concat fp e1 e2
      | OPR_ADD \<Rightarrow> codearith fp OP_ADD e1 e2
      | OPR_SUB \<Rightarrow> codearith fp OP_SUB e1 e2
      | OPR_MUL \<Rightarrow> codearith fp OP_MUL e1 e2
      | OPR_DIV \<Rightarrow> codearith fp OP_DIV e1 e2
      | OPR_MOD \<Rightarrow> codearith fp OP_MOD e1 e2
      | OPR_POW \<Rightarrow> codearith fp OP_POW e1 e2
      | OPR_EQ \<Rightarrow> codecomp OP_EQ 1 e1 e2
      | OPR_NE \<Rightarrow> codecomp OP_EQ 0 e1 e2
      | OPR_LT \<Rightarrow> codecomp OP_LT 1 e1 e2
      | OPR_LE \<Rightarrow> codecomp OP_LE 1 e1 e2
      | OPR_GT \<Rightarrow> codecomp OP_LT 0 e1 e2
      | OPR_GE \<Rightarrow> codecomp OP_LE 0 e1 e2
      | OPR_NOBINOPR \<Rightarrow> retM (e1, e2))"

definition luaK_setlist :: "int \<Rightarrow> int \<Rightarrow> int \<Rightarrow> unit gen" where
  "luaK_setlist base nelems tostore =
     (let c = (nelems - 1) sdiv LFIELDS_PER_FLUSH + 1;
          b = if tostore = LUA_MULTRET then 0 else tostore in
      thenM
        (if c \<le> MAXARG_C then luaK_codeABC OP_SETLIST base b c
         else thenM (luaK_codeABC OP_SETLIST base b 0)
                (bindM (getM fs_lastline) (luaK_code (word_of_int c))))
        (modM (\<lambda>fs. fs\<lparr>fs_freereg := base + 1\<rparr>)))"

end
