(* ===== verification/Codegen_Jumps.thy ===== *)
theory Codegen_Jumps
  imports Codegen_Exp
begin

text \<open>
  Jump lists.  A list of pending jumps is threaded through the jump instructions themselves:
  \<open>jump_list code l xs\<close> says that \<open>l\<close> heads a list of exactly the jumps at \<open>xs\<close>.  On such
  lists the loops of \<^verbatim>\<open>lcode.c\<close> end, concatenation is concatenation, and patching a list
  sends each of its jumps, and nothing else, to its target.
\<close>

fun jump_list :: "Instruction list \<Rightarrow> int \<Rightarrow> int list \<Rightarrow> bool" where
  "jump_list code l [] \<longleftrightarrow> l = NO_JUMP"
| "jump_list code l (x # xs) \<longleftrightarrow>
     l = x \<and> 0 \<le> x \<and> nat x < length code \<and> is_opcode (code ! nat x) OP_JMP \<and>
     (case getjump x code of None \<Rightarrow> False | Some nxt \<Rightarrow> jump_list code nxt xs)"

text \<open>Where the machine goes from a jump.\<close>

definition jump_dest :: "Instruction list \<Rightarrow> int \<Rightarrow> int" where
  "jump_dest code x = x + 1 + GETARG_sBx (code ! nat x)"

lemma jump_list_head: "jump_list code l (x # xs) \<Longrightarrow> l = x \<and> l \<noteq> NO_JUMP"
  by (auto simp: NO_JUMP_def)

lemma jump_list_unique: "jump_list code l xs \<Longrightarrow> jump_list code l ys \<Longrightarrow> xs = ys"
proof (induction xs arbitrary: l ys)
  case Nil
  then show ?case by (cases ys) (auto simp: NO_JUMP_def)
next
  case (Cons x xs)
  then show ?case by (cases ys) (auto simp: NO_JUMP_def split: option.splits)
qed

lemma jump_list_suffix: "jump_list code l (as @ x # bs) \<Longrightarrow> jump_list code x (x # bs)"
proof (induction as arbitrary: l)
  case Nil
  then show ?case by auto
next
  case (Cons a as)
  then obtain nxt where "jump_list code nxt (as @ x # bs)" by (auto split: option.splits)
  then show ?case by (rule Cons.IH)
qed

lemma jump_list_distinct: "jump_list code l xs \<Longrightarrow> distinct xs"
proof (induction xs arbitrary: l)
  case (Cons x xs)
  have "x \<notin> set xs"
  proof
    assume "x \<in> set xs"
    then obtain as bs where s: "xs = as @ x # bs" by (meson split_list)
    from Cons.prems have "jump_list code x (x # xs)" by auto
    moreover have "jump_list code x (x # bs)"
      using jump_list_suffix [of code l "x # as" x bs] Cons.prems s by simp
    ultimately have "x # xs = x # bs" by (rule jump_list_unique)
    with s show False by simp
  qed
  with Cons show ?case by (auto split: option.splits)
qed simp

lemma jump_list_mem:
  "jump_list code l xs \<Longrightarrow> x \<in> set xs \<Longrightarrow> 0 \<le> x \<and> nat x < length code \<and> is_opcode (code ! nat x) OP_JMP"
  by (induction xs arbitrary: l) (auto split: option.splits)

lemma jump_list_frame:
  assumes "jump_list code l xs" "length code' = length code" "\<And>x. x \<in> set xs \<Longrightarrow> code' ! nat x = code ! nat x"
  shows "jump_list code' l xs"
  using assms
proof (induction xs arbitrary: l)
  case (Cons x xs)
  moreover have "getjump x code' = getjump x code"
    using Cons.prems by (auto simp: getjump_def at_def)
  ultimately show ?case by (auto split: option.splits)
qed simp

subsection \<open>Setting a jump\<close>

lemma SETARG_sBx_get: "\<bar>v\<bar> \<le> MAXARG_sBx \<Longrightarrow> GETARG_sBx (SETARG_sBx i v) = v"
  using fBx.get_set_small [of "v + MAXARG_sBx" i]
  by (simp add: GETARG_sBx_def SETARG_sBx_def GET_fields SET_fields lua_defs)

lemma SETARG_sBx_op: "GET_OPCODE (SETARG_sBx i v) = GET_OPCODE i"
  unfolding SETARG_sBx_def GET_fields SET_fields
  by (rule fBx.get_other) (simp add: lua_size_defs)

lemma is_opcode_sBx [simp]: "is_opcode (SETARG_sBx i v) op = is_opcode i op"
  by (simp add: is_opcode_def SETARG_sBx_op)

lemma length_setcode [simp]: "length (setcode pc i code) = length code"
  by (simp add: setcode_def)

lemma nth_setcode: "nat pc < length code \<Longrightarrow> setcode pc i code ! j = (if j = nat pc then i else code ! j)"
  by (simp add: setcode_def nth_list_update)

lemma getjump_cell:
  "0 \<le> x \<Longrightarrow> nat x < length code \<Longrightarrow>
   getjump x code = Some (if GETARG_sBx (code ! nat x) = NO_JUMP then NO_JUMP else x + 1 + GETARG_sBx (code ! nat x))"
  by (simp add: getjump_def at_def Let_def)

lemma getjump_frame: "length c' = length c \<Longrightarrow> c' ! nat x = c ! nat x \<Longrightarrow> getjump x c' = getjump x c"
  by (simp add: getjump_def at_def)

lemma fixjump_ok:
  "0 \<le> x \<Longrightarrow> nat x < length code \<Longrightarrow> \<bar>d - (x + 1)\<bar> \<le> MAXARG_sBx \<Longrightarrow>
   fixjump x d code = Inr (setcode x (SETARG_sBx (code ! nat x) (d - (x + 1))) code)"
  by (simp add: fixjump_def at_def Let_def)

subsection \<open>Concatenation\<close>

lemma concat_loop_eq:
  assumes "jump_list code l xs" "xs \<noteq> []"
  shows "concat_loop l l2 code = Some (fixjump (List.last xs) l2 code)"
  using assms
proof (induction xs arbitrary: l)
  case (Cons x xs)
  then obtain nxt where nx: "l = x" "getjump x code = Some nxt" "jump_list code nxt xs"
    by (auto split: option.splits)
  show ?case
  proof (cases xs)
    case Nil
    with nx show ?thesis by (simp add: concat_loop.simps)
  next
    case (Cons y ys)
    then have "nxt \<noteq> NO_JUMP" using nx(3) jump_list_head by blast
    then have "concat_loop l l2 code = concat_loop nxt l2 code"
      using nx by (subst concat_loop.simps) simp
    with Cons.IH [OF nx(3)] Cons show ?thesis by simp
  qed
qed simp

lemma jump_list_append:
  assumes "jump_list code l xs" "xs \<noteq> []" "jump_list code l2 ys" "ys \<noteq> []" "set xs \<inter> set ys = {}"
    "\<bar>l2 - (List.last xs + 1)\<bar> \<le> MAXARG_sBx"
  shows "jump_list (setcode (List.last xs) (SETARG_sBx (code ! nat (List.last xs)) (l2 - (List.last xs + 1))) code) l (xs @ ys)"
    (is "jump_list ?c _ _")
proof -
  let ?z = "List.last xs"
  have z: "?z \<in> set xs" using assms(2) by simp
  note zm = jump_list_mem [OF assms(1) z]
  have l2: "l2 \<in> set ys" using assms(3,4) jump_list_head by (cases ys) auto
  have ne: "l2 \<noteq> ?z" using l2 z assms(5) by auto
  have oth: "?c ! nat x = code ! nat x" if "x \<noteq> ?z" "0 \<le> x" for x
    using that zm by (simp add: nth_setcode nat_eq_iff2)
  have nn: "0 \<le> y" if "y \<in> set ys" for y using jump_list_mem [OF assms(3) that] by simp
  have ysl: "jump_list ?c l2 ys"
    by (rule jump_list_frame [OF assms(3)]) (use z assms(5) in \<open>auto intro!: oth nn\<close>)
  have gz: "getjump ?z ?c = Some l2"
    using zm ne assms(6) by (simp add: getjump_cell nth_setcode SETARG_sBx_get NO_JUMP_def)
  have "jump_list code l as \<Longrightarrow> as \<noteq> [] \<Longrightarrow> List.last as = ?z \<Longrightarrow> distinct as \<Longrightarrow> jump_list ?c l (as @ ys)" for as l
  proof (induction as arbitrary: l)
    case (Cons x as)
    then obtain nxt where nx: "l = x" "getjump x code = Some nxt" "jump_list code nxt as" "0 \<le> x" "nat x < length code"
      "is_opcode (code ! nat x) OP_JMP"
      by (auto split: option.splits)
    show ?case
    proof (cases as)
      case Nil
      with Cons.prems have "x = ?z" by simp
      with Nil nx gz ysl zm show ?thesis by (simp add: nth_setcode)
    next
      case (Cons y bs)
      have x: "x \<noteq> ?z" using Cons.prems(3,4) Cons last_in_set [of as] by (metis distinct.simps(2) last_ConsR list.distinct(1))
      have "getjump x ?c = Some nxt"
        using nx(2) getjump_frame [of ?c code x] oth [OF x nx(4)] by simp
      moreover have "jump_list ?c nxt (as @ ys)"
        by (rule Cons.IH) (use nx Cons.prems Cons in auto)
      ultimately show ?thesis using nx oth [OF x nx(4)] by simp
    qed
  qed simp
  from this [OF assms(1,2) refl jump_list_distinct [OF assms(1)]] show ?thesis .
qed

subsection \<open>Patching\<close>

text \<open>A jump is controlled by an \<^verbatim>\<open>OP_TESTSET\<close>, and then carries a value.\<close>

definition value_jump :: "Instruction list \<Rightarrow> int \<Rightarrow> bool" where
  "value_jump code x \<longleftrightarrow> 1 \<le> x \<and> is_opcode (code ! nat (x - 1)) OP_TESTSET"

definition patch_test :: "int \<Rightarrow> Instruction \<Rightarrow> Instruction" where
  "patch_test reg i =
     (if reg \<noteq> NO_REG \<and> reg \<noteq> GETARG_B i then SETARG_A i reg
      else CREATE_ABC (of_OpCode OP_TEST) (GETARG_B i) 0 (GETARG_C i))"

text \<open>The code a patched list leaves, cell by cell.\<close>

definition patched :: "Instruction list \<Rightarrow> int set \<Rightarrow> int \<Rightarrow> int \<Rightarrow> int \<Rightarrow> nat \<Rightarrow> Instruction" where
  "patched code xs vtarget reg dtarget j =
     (if int j \<in> xs then
        SETARG_sBx (code ! j) ((if value_jump code (int j) then vtarget else dtarget) - (int j + 1))
      else if int j + 1 \<in> xs \<and> is_opcode (code ! j) OP_TESTSET then patch_test reg (code ! j)
      else code ! j)"

lemma opcode_disjoint:
  "is_opcode i OP_JMP \<Longrightarrow> \<not> is_opcode i OP_TESTSET"
  by (simp add: is_opcode_def)

lemma tmode_facts: "testTMode (of_OpCode OP_JMP) = Some False" "testTMode (of_OpCode OP_TESTSET) = Some True"
  by code_simp+

lemma getjumpcontrol_jmp:
  assumes "0 \<le> x" "nat x < length code" "is_opcode (code ! nat x) OP_JMP"
  shows "is_opcode (code ! nat (getjumpcontrol x code)) OP_TESTSET \<longleftrightarrow> value_jump code x"
    and "value_jump code x \<Longrightarrow> getjumpcontrol x code = x - 1"
  using assms tmode_facts by (auto simp: getjumpcontrol_def value_jump_def is_opcode_def)

lemma patchtestreg_jmp:
  assumes "0 \<le> x" "nat x < length code" "is_opcode (code ! nat x) OP_JMP"
  shows "patchtestreg x reg code =
    (if value_jump code x then (True, setcode (x - 1) (patch_test reg (code ! nat (x - 1))) code) else (False, code))"
  using getjumpcontrol_jmp [OF assms] by (auto simp: patchtestreg_def patch_test_def Let_def)


lemma length_fixpatch: "length (snd (patchtestreg x reg code)) = length code"
  by (simp add: patchtestreg_def Let_def)

lemma patch_one_jmp:
  assumes l: "jump_list code l (x # xs)"
    and r: "\<bar>(if value_jump code x then vt else dt) - (x + 1)\<bar> \<le> MAXARG_sBx"
  obtains nxt c1 where "patch_one l vt reg dt code = Inr (nxt, c1)" "jump_list code nxt xs"
    "length c1 = length code" "\<And>j. j < length code \<Longrightarrow> c1 ! j = patched code {x} vt reg dt j"
proof -
  from l obtain nxt where x: "l = x" "0 \<le> x" "nat x < length code" "is_opcode (code ! nat x) OP_JMP"
      "getjump x code = Some nxt" "jump_list code nxt xs"
    by (auto split: option.splits)
  define c0 where "c0 = snd (patchtestreg x reg code)"
  define tg where "tg = (if value_jump code x then vt else dt)"
  have len: "length c0 = length code" by (simp add: c0_def length_fixpatch)
  have c0x: "c0 ! nat x = code ! nat x"
    using x(2,3) by (auto simp: c0_def patchtestreg_jmp [OF x(2-4)] nth_setcode value_jump_def)
  have fj: "fixjump x tg c0 = Inr (setcode x (SETARG_sBx (c0 ! nat x) (tg - (x + 1))) c0)"
    by (rule fixjump_ok) (use x len r in \<open>auto simp: tg_def\<close>)
  have pt: "patchtestreg x reg code = (value_jump code x, c0)"
    by (simp add: c0_def patchtestreg_jmp [OF x(2-4)])
  have po: "patch_one l vt reg dt code = Inr (nxt, setcode x (SETARG_sBx (c0 ! nat x) (tg - (x + 1))) c0)"
    using fj by (simp add: patch_one_def x(1,5) pt tg_def)
  have cell: "setcode x (SETARG_sBx (c0 ! nat x) (tg - (x + 1))) c0 ! j = patched code {x} vt reg dt j"
    if "j < length code" for j
  proof (cases "j = nat x")
    case True
    then show ?thesis
      using x(2,3) by (simp add: nth_setcode len c0x patched_def tg_def)
  next
    case False
    then have "setcode x (SETARG_sBx (c0 ! nat x) (tg - (x + 1))) c0 ! j = c0 ! j"
      using x(3) by (simp add: nth_setcode len)
    moreover have "int j \<noteq> x" using False by auto
    moreover have "c0 ! j = patched code {x} vt reg dt j" if "int j \<noteq> x"
    proof (cases "value_jump code x")
      case True
      then have "c0 = setcode (x - 1) (patch_test reg (code ! nat (x - 1))) code"
        by (simp add: c0_def patchtestreg_jmp [OF x(2-4)])
      moreover have "nat (x - 1) < length code" "(j = nat (x - 1)) = (int j + 1 = x)"
        using True x(2,3) by (auto simp: value_jump_def)
      ultimately show ?thesis
        using True that by (auto simp: nth_setcode patched_def value_jump_def)
    next
      case F: False
      then have "c0 = code" by (simp add: c0_def patchtestreg_jmp [OF x(2-4)])
      moreover have "\<not> is_opcode (code ! j) OP_TESTSET" if "int j + 1 = x"
        using F that by (auto simp: value_jump_def)
      ultimately show ?thesis using that by (auto simp: patched_def)
    qed
    ultimately show ?thesis by simp
  qed
  show thesis by (rule that [OF po x(6)]) (simp_all add: len cell)
qed

lemma patchlistaux_loop_patches:
  assumes "jump_list code l xs"
    and "\<forall>x \<in> set xs. \<bar>(if value_jump code x then vt else dt) - (x + 1)\<bar> \<le> MAXARG_sBx"
  shows "\<exists>c'. patchlistaux_loop l vt reg dt code = Some (Inr ((), c')) \<and> length c' = length code \<and>
    (\<forall>j < length code. c' ! j = patched code (set xs) vt reg dt j)"
  using assms
proof (induction xs arbitrary: l code)
  case Nil
  then show ?case by (simp add: patchlistaux_loop.simps patched_def)
next
  case (Cons x xs)
  have ran: "\<bar>(if value_jump code x then vt else dt) - (x + 1)\<bar> \<le> MAXARG_sBx"
    using Cons.prems(2) by simp
  obtain nxt c1 where one: "patch_one l vt reg dt code = Inr (nxt, c1)" "jump_list code nxt xs"
    "length c1 = length code" "\<And>j. j < length code \<Longrightarrow> c1 ! j = patched code {x} vt reg dt j"
    using patch_one_jmp [OF Cons.prems(1) ran] by metis
  have dis: "x \<notin> set xs" using jump_list_distinct [OF Cons.prems(1)] by simp
  note mem = jump_list_mem [OF one(2)]
  note xm = jump_list_mem [OF Cons.prems(1), of x, simplified]
  have same: "c1 ! nat y = code ! nat y" if "y \<in> set xs" for y
    using one(4) [of "nat y"] mem [OF that] that dis
    by (auto simp: patched_def dest: opcode_disjoint)
  have vj: "value_jump c1 y = value_jump code y" if "y \<in> set xs" for y
  proof (cases "1 \<le> y")
    case True
    then have ny: "nat (y - 1) < length code" "int (nat (y - 1)) = y - 1" using mem [OF that] by auto
    have "y \<noteq> x" using that dis by auto
    then have "is_opcode (c1 ! nat (y - 1)) OP_TESTSET = is_opcode (code ! nat (y - 1)) OP_TESTSET"
      using one(4) [OF ny(1)] ny(2) xm
      by (cases "y - 1 = x") (auto simp: patched_def dest: opcode_disjoint)
    then show ?thesis by (simp add: value_jump_def)
  qed (simp add: value_jump_def)
  have "jump_list c1 nxt xs" by (rule jump_list_frame [OF one(2,3) same])
  moreover have "\<forall>y \<in> set xs. \<bar>(if value_jump c1 y then vt else dt) - (y + 1)\<bar> \<le> MAXARG_sBx"
    using Cons.prems(2) vj by simp
  ultimately obtain c' where c': "patchlistaux_loop nxt vt reg dt c1 = Some (Inr ((), c'))"
    "length c' = length code" "\<forall>j < length code. c' ! j = patched c1 (set xs) vt reg dt j"
    using Cons.IH [of c1 nxt] one(3) by auto
  have "l \<noteq> NO_JUMP" using Cons.prems(1) jump_list_head by blast
  then have "patchlistaux_loop l vt reg dt code = Some (Inr ((), c'))"
    using c'(1) one(1) by (subst patchlistaux_loop.simps) simp
  moreover have "c' ! j = patched code (set (x # xs)) vt reg dt j" if j: "j < length code" for j
  proof -
    have e: "c' ! j = patched c1 (set xs) vt reg dt j" using c'(3) j by simp
    consider "int j \<in> set xs" | "int j = x" | "int j \<notin> set xs" "int j \<noteq> x" by blast
    then show ?thesis
    proof cases
      case 1
      then show ?thesis using e same [OF 1] vj [OF 1] by (simp add: patched_def)
    next
      case 2
      then have "\<not> is_opcode (c1 ! j) OP_TESTSET"
        using one(4) [OF j] xm by (auto simp: patched_def dest: opcode_disjoint)
      then have "c' ! j = c1 ! j" using e 2 dis by (simp add: patched_def)
      with one(4) [OF j] 2 show ?thesis by (simp add: patched_def)
    next
      case 3
      show ?thesis
      proof (cases "int j + 1 = x")
        case True
        then show ?thesis using e 3 one(4) [OF j] dis by (simp add: patched_def)
      next
        case False
        then show ?thesis using e 3 one(4) [OF j] by (simp add: patched_def)
      qed
    qed
  qed
  ultimately show ?case using c'(2) by simp
qed


lemma jump_dest_patched:
  assumes "\<forall>j < length code. c' ! j = patched code xs vt reg dt j" "x \<in> xs" "0 \<le> x" "nat x < length code"
    and "\<bar>(if value_jump code x then vt else dt) - (x + 1)\<bar> \<le> MAXARG_sBx"
  shows "jump_dest c' x = (if value_jump code x then vt else dt)"
proof -
  have "c' ! nat x = SETARG_sBx (code ! nat x) ((if value_jump code x then vt else dt) - (x + 1))"
    using assms(1-4) by (simp add: patched_def)
  then show ?thesis using assms(5) by (simp add: jump_dest_def SETARG_sBx_get)
qed

lemma patchlistaux_eq:
  assumes "jump_list (fs_code fs) l xs"
    and "\<forall>x \<in> set xs. \<bar>(if value_jump (fs_code fs) x then vt else dt) - (x + 1)\<bar> \<le> MAXARG_sBx"
  obtains c' where "patchlistaux l vt reg dt fs = Some (Inr ((), fs\<lparr>fs_code := c'\<rparr>))"
    "length c' = length (fs_code fs)"
    "\<forall>j < length (fs_code fs). c' ! j = patched (fs_code fs) (set xs) vt reg dt j"
proof -
  obtain c' where "patchlistaux_loop l vt reg dt (fs_code fs) = Some (Inr ((), c'))"
    "length c' = length (fs_code fs)"
    "\<forall>j < length (fs_code fs). c' ! j = patched (fs_code fs) (set xs) vt reg dt j"
    using patchlistaux_loop_patches [OF assms] by blast
  then show thesis by (intro that [of c']) (simp_all add: patchlistaux_def on_code_array_def)
qed

text \<open>
  C32: patching a list of pending jumps always ends.  Afterwards each jump of the list that
  carries the value of an \<^verbatim>\<open>OP_TESTSET\<close> goes to \<^verbatim>\<open>vtarget\<close>, with the test storing into the
  register asked for (or turned into a plain \<^verbatim>\<open>OP_TEST\<close>), each other jump goes to
  \<^verbatim>\<open>dtarget\<close>, and no other instruction has changed.\<close>

theorem patchlist_sends_jumps:
  assumes "jump_list (fs_code fs) l xs"
    and "\<forall>x \<in> set xs. \<bar>(if value_jump (fs_code fs) x then vtarget else dtarget) - (x + 1)\<bar> \<le> MAXARG_sBx"
  shows "\<exists>code. patchlistaux l vtarget reg dtarget fs = Some (Inr ((), fs\<lparr>fs_code := code\<rparr>)) \<and>
    length code = length (fs_code fs) \<and>
    (\<forall>x \<in> set xs. jump_dest code x = (if value_jump (fs_code fs) x then vtarget else dtarget)) \<and>
    (\<forall>j < length code. int j \<notin> set xs \<longrightarrow> code ! j =
       (if int j + 1 \<in> set xs \<and> is_opcode (fs_code fs ! j) OP_TESTSET
        then patch_test reg (fs_code fs ! j) else fs_code fs ! j))"
proof -
  obtain c' where c': "patchlistaux l vtarget reg dtarget fs = Some (Inr ((), fs\<lparr>fs_code := c'\<rparr>))"
    "length c' = length (fs_code fs)"
    "\<forall>j < length (fs_code fs). c' ! j = patched (fs_code fs) (set xs) vtarget reg dtarget j"
    by (rule patchlistaux_eq [OF assms])
  have "jump_dest c' x = (if value_jump (fs_code fs) x then vtarget else dtarget)" if "x \<in> set xs" for x
    using jump_dest_patched [OF c'(3) that] jump_list_mem [OF assms(1) that] assms(2) that by blast
  moreover have "c' ! j = (if int j + 1 \<in> set xs \<and> is_opcode (fs_code fs ! j) OP_TESTSET
      then patch_test reg (fs_code fs ! j) else fs_code fs ! j)"
    if "j < length c'" "int j \<notin> set xs" for j
    using c'(2,3) that by (simp add: patched_def)
  ultimately show ?thesis using c'(1,2) by blast
qed

definition jumps_demo :: "Instruction list" where
  "jumps_demo = [CREATE_ABC 27 255 3 1, CREATE_ABx 22 0 131072, CREATE_ABC 0 1 2 0, CREATE_ABx 22 0 131070]"

definition demo_state :: FuncState where
  "demo_state = \<lparr>fs_code = jumps_demo, fs_lineinfo = [1, 1, 1, 1], fs_sizecode = 4, fs_sizelineinfo = 4,
     fs_kv = [], fs_sizek = 0, fs_h = [], fs_pc = 4, fs_lasttarget = - 1, fs_jpc = NO_JUMP, fs_freereg = 1,
     fs_nactvar = 1, fs_maxstack = 4, fs_lastline = 1\<rparr>"

theorem patchlist_sends_jumps_witness:
  "\<exists>code. patchlistaux 1 9 2 7 demo_state = Some (Inr ((), demo_state\<lparr>fs_code := code\<rparr>)) \<and>
    jump_dest code 1 = 9 \<and> jump_dest code 3 = 7"
proof -
  have l: "jump_list (fs_code demo_state) 1 [1, 3]" by code_simp
  have r: "\<forall>x \<in> set [1, 3]. \<bar>(if value_jump (fs_code demo_state) x then 9 else 7) - (x + 1)\<bar> \<le> MAXARG_sBx"
    by code_simp
  have v: "value_jump (fs_code demo_state) 1" "\<not> value_jump (fs_code demo_state) 3" by code_simp+
  from patchlist_sends_jumps [OF l r, of 2] v show ?thesis by auto
qed

subsection \<open>The next instruction\<close>

lemma luaK_concat_lists:
  assumes "jump_list (fs_code fs) l1 xs" "jump_list (fs_code fs) l2 ys" "set xs \<inter> set ys = {}"
    and "\<forall>x \<in> set xs \<union> set ys. x < MAXARG_sBx"
  obtains l c where "luaK_concat l1 l2 fs = Some (Inr (l, fs\<lparr>fs_code := c\<rparr>))" "jump_list c l (xs @ ys)"
    "length c = length (fs_code fs)"
proof (cases "xs = [] \<or> ys = []")
  case True
  then have "luaK_concat l1 l2 fs = Some (Inr (if ys = [] then l1 else l2, fs))"
    using assms(1,2) by (auto simp: luaK_concat_def retM_def dest: jump_list_head)
  moreover have "jump_list (fs_code fs) (if ys = [] then l1 else l2) (xs @ ys)"
    using True assms(1,2) by auto
  ultimately show thesis using that [of "if ys = [] then l1 else l2" "fs_code fs"] by simp
next
  case False
  let ?z = "List.last xs"
  have z: "?z \<in> set xs" and l2: "l2 \<in> set ys"
    using False assms(2) by (auto simp: neq_Nil_conv)
  have nj: "l1 \<noteq> NO_JUMP" "l2 \<noteq> NO_JUMP"
    using False assms(1,2) jump_list_head by (metis neq_Nil_conv)+
  have ran: "\<bar>l2 - (?z + 1)\<bar> \<le> MAXARG_sBx"
  proof -
    have "0 \<le> ?z" "?z < MAXARG_sBx" "0 \<le> l2" "l2 < MAXARG_sBx" "?z \<noteq> l2"
      using jump_list_mem [OF assms(1) z] jump_list_mem [OF assms(2) l2] assms(3,4) z l2 by auto
    then show ?thesis by linarith
  qed
  have "fixjump ?z l2 (fs_code fs) = Inr (setcode ?z (SETARG_sBx (fs_code fs ! nat ?z) (l2 - (?z + 1))) (fs_code fs))"
    using fixjump_ok [OF _ _ ran] jump_list_mem [OF assms(1) z] by blast
  then have "luaK_concat l1 l2 fs =
      Some (Inr (l1, fs\<lparr>fs_code := setcode ?z (SETARG_sBx (fs_code fs ! nat ?z) (l2 - (?z + 1))) (fs_code fs)\<rparr>))"
    using nj concat_loop_eq [OF assms(1)] False by (simp add: luaK_concat_def on_code_array_def)
  with jump_list_append [OF assms(1) _ assms(2) _ assms(3) ran] False show thesis
    by (intro that [of l1 "setcode ?z (SETARG_sBx (fs_code fs ! nat ?z) (l2 - (?z + 1))) (fs_code fs)"]) simp_all
qed

lemma grow_ok: "sz < limit \<Longrightarrow> \<exists>s. luaM_growvector n sz limit m = Inr s"
  by (auto simp: luaM_growvector_def luaM_growaux_def)

lemma luaK_code_eq:
  assumes "jump_list (fs_code fs) (fs_jpc fs) xs" "\<forall>x \<in> set xs. x < fs_pc fs"
    and pc: "0 \<le> fs_pc fs" "fs_pc fs \<le> MAXARG_sBx" "nat (fs_pc fs) \<le> length (fs_code fs)"
    and sz: "fs_sizecode fs < K_MAX_INT" "fs_sizelineinfo fs < K_MAX_INT"
  obtains fs' where "luaK_code i line fs = Some (Inr (fs_pc fs, fs'))"
    "fs_code fs' ! nat (fs_pc fs) = i" "fs_pc fs' = fs_pc fs + 1" "fs_jpc fs' = NO_JUMP"
    "\<forall>x \<in> set xs. jump_dest (fs_code fs') x = fs_pc fs"
proof -
  have mem: "0 \<le> x \<and> nat x < length (fs_code fs) \<and> x < fs_pc fs" if "x \<in> set xs" for x
    using jump_list_mem [OF assms(1) that] assms(2) that by blast
  have ran: "\<forall>x \<in> set xs. \<bar>(if value_jump (fs_code fs) x then fs_pc fs else fs_pc fs) - (x + 1)\<bar> \<le> MAXARG_sBx"
    using mem pc by fastforce
  obtain c' where c': "patchlistaux (fs_jpc fs) (fs_pc fs) NO_REG (fs_pc fs) fs = Some (Inr ((), fs\<lparr>fs_code := c'\<rparr>))"
    "length c' = length (fs_code fs)"
    "\<forall>j < length (fs_code fs). c' ! j = patched (fs_code fs) (set xs) (fs_pc fs) NO_REG (fs_pc fs) j"
    by (rule patchlistaux_eq [OF assms(1) ran])
  obtain sc sl where g: "luaM_growvector (fs_pc fs) (fs_sizecode fs) K_MAX_INT ''code size overflow'' = Inr sc"
    "luaM_growvector (fs_pc fs) (fs_sizelineinfo fs) K_MAX_INT ''code size overflow'' = Inr sl"
    using grow_ok [OF sz(1)] grow_ok [OF sz(2)] by blast
  define fs' where "fs' = fs\<lparr>fs_code := putcell (fs_pc fs) i c', fs_jpc := NO_JUMP, fs_sizecode := sc,
    fs_sizelineinfo := sl, fs_lineinfo := putcell (fs_pc fs) line (fs_lineinfo fs), fs_pc := fs_pc fs + 1\<rparr>"
  have eq: "luaK_code i line fs = Some (Inr (fs_pc fs, fs'))"
    using c'(1) g pc by (simp add: luaK_code_def dischargejpc_def thenM_def bindM_def getM_def modM_def liftM_def retM_def fs'_def)
  have put: "putcell (fs_pc fs) i c' ! j = (if j = nat (fs_pc fs) then i else c' ! j)" if "j \<le> nat (fs_pc fs)" for j
    using pc(3) c'(2) that by (auto simp: putcell_def nth_append nth_list_update)
  have "jump_dest (fs_code fs') x = fs_pc fs" if x: "x \<in> set xs" for x
  proof -
    have "jump_dest c' x = fs_pc fs"
      using jump_dest_patched [OF c'(3) x] mem [OF x] ran x by auto
    moreover have "nat x \<noteq> nat (fs_pc fs)" "nat x \<le> nat (fs_pc fs)" using mem [OF x] by auto
    ultimately show ?thesis by (simp add: jump_dest_def fs'_def put)
  qed
  then show thesis using put [of "nat (fs_pc fs)"] by (intro that [OF eq]) (simp_all add: fs'_def)
qed

text \<open>
  jumps patched to `here' reach the next instruction: after \<^verbatim>\<open>luaK_patchtohere\<close> on a list,
  the next \<^verbatim>\<open>luaK_code\<close> succeeds, and every jump of that list and every jump that was already
  waiting goes to the instruction it emits.\<close>

theorem pending_jumps_reach_next:
  assumes "jump_list (fs_code fs) (fs_jpc fs) xs" "jump_list (fs_code fs) l ys" "set xs \<inter> set ys = {}"
    and "\<forall>x \<in> set xs \<union> set ys. x < fs_pc fs"
    and "0 \<le> fs_pc fs" "fs_pc fs \<le> MAXARG_sBx" "nat (fs_pc fs) \<le> length (fs_code fs)"
    and "fs_sizecode fs < K_MAX_INT" "fs_sizelineinfo fs < K_MAX_INT"
  shows "\<exists>fs'. thenM (luaK_patchtohere l) (luaK_code i line) fs = Some (Inr (fs_pc fs, fs')) \<and>
    fs_code fs' ! nat (fs_pc fs) = i \<and> fs_pc fs' = fs_pc fs + 1 \<and> fs_jpc fs' = NO_JUMP \<and>
    (\<forall>x \<in> set xs \<union> set ys. jump_dest (fs_code fs') x = fs_pc fs)"
proof -
  let ?f = "fs\<lparr>fs_lasttarget := fs_pc fs\<rparr>"
  have j: "jump_list (fs_code ?f) (fs_jpc ?f) xs" "jump_list (fs_code ?f) l ys" using assms(1,2) by simp_all
  have le: "\<forall>x \<in> set xs \<union> set ys. x < MAXARG_sBx" using assms(4,6) by (meson less_le_trans)
  obtain l' c where c: "luaK_concat (fs_jpc ?f) l ?f = Some (Inr (l', ?f\<lparr>fs_code := c\<rparr>))"
    "jump_list c l' (xs @ ys)" "length c = length (fs_code ?f)"
    by (rule luaK_concat_lists [OF j assms(3) le])
  let ?g = "?f\<lparr>fs_code := c, fs_jpc := l'\<rparr>"
  have p: "luaK_patchtohere l fs = Some (Inr ((), ?g))"
    using c(1) by (simp add: luaK_patchtohere_def luaK_getlabel_def thenM_def bindM_def getM_def modM_def)
  obtain fs' where f: "luaK_code i line ?g = Some (Inr (fs_pc ?g, fs'))"
    "fs_code fs' ! nat (fs_pc ?g) = i" "fs_pc fs' = fs_pc ?g + 1" "fs_jpc fs' = NO_JUMP"
    "\<forall>x \<in> set (xs @ ys). jump_dest (fs_code fs') x = fs_pc ?g"
    by (rule luaK_code_eq [of ?g "xs @ ys"]) (use assms(4-) c in auto)
  have "thenM (luaK_patchtohere l) (luaK_code i line) fs = Some (Inr (fs_pc fs, fs'))"
    using p f(1) by (simp add: thenM_def bindM_def)
  with f(2-) show ?thesis by auto
qed

theorem pending_jumps_reach_next_witness:
  "\<exists>fs'. thenM (luaK_patchtohere 1) (luaK_code 0 1) demo_state = Some (Inr (4, fs')) \<and>
    jump_dest (fs_code fs') 1 = 4 \<and> jump_dest (fs_code fs') 3 = 4"
proof -
  have "jump_list (fs_code demo_state) (fs_jpc demo_state) []" "jump_list (fs_code demo_state) 1 [1, 3]"
    "set [] \<inter> set [1, 3] = ({} :: int set)" "\<forall>x \<in> set [] \<union> set [1, 3]. x < fs_pc demo_state"
    "0 \<le> fs_pc demo_state" "fs_pc demo_state \<le> MAXARG_sBx"
    "nat (fs_pc demo_state) \<le> length (fs_code demo_state)" "fs_sizecode demo_state < K_MAX_INT"
    "fs_sizelineinfo demo_state < K_MAX_INT"
    by code_simp+
  from pending_jumps_reach_next [OF this, of 0 1] show ?thesis by (auto simp: demo_state_def)
qed

end
