(* ===== verification/Codegen_Consts.thy ===== *)
theory Codegen_Consts
  imports Codegen_Exp
begin

text \<open>
  The constant table, constant folding, registers and the merging of nil loads.
\<close>

subsection \<open>Constants\<close>

text \<open>
  The table of constants is sound: every key found again denotes a constant raw-equal to it,
  every constant has its key in the table, and no two constants are raw-equal.\<close>

definition consts_ok :: "FuncState \<Rightarrow> bool" where
  "consts_ok fs \<longleftrightarrow>
     (\<forall>(k, i) \<in> set (fs_h fs). 0 \<le> i \<and> nat i < length (fs_kv fs) \<and> const_eq (fs_kv fs ! nat i) k) \<and>
     (\<forall>j < length (fs_kv fs). \<exists>k. (k, int j) \<in> set (fs_h fs) \<and> const_eq (fs_kv fs ! j) k) \<and>
     (\<forall>i < length (fs_kv fs). \<forall>j < length (fs_kv fs). const_eq (fs_kv fs ! i) (fs_kv fs ! j) \<longrightarrow> i = j)"

lemma const_numeq_sym: "luai_numeq a b = luai_numeq b a"
  by (auto simp: luai_numeq_def)

lemma const_numeq_trans: "luai_numeq a b \<Longrightarrow> luai_numeq b c \<Longrightarrow> luai_numeq a c"
  by (auto simp: luai_numeq_def d_iszero_def)

lemma const_eq_sym: "const_eq a b = const_eq b a"
  by (cases a; cases b) (auto simp: const_numeq_sym)

lemma const_eq_trans: "const_eq a b \<Longrightarrow> const_eq b c \<Longrightarrow> const_eq a c"
  by (cases a; cases b; cases c) (auto intro: const_numeq_trans)

definition nan_const :: "Const \<Rightarrow> bool" where
  "nan_const c = (case c of KNumber n \<Rightarrow> luai_numisnan n | _ \<Rightarrow> False)"

lemma const_eq_refl: "\<not> nan_const c \<Longrightarrow> const_eq c c"
  by (cases c) (auto simp: nan_const_def luai_numisnan_def)

lemma h_find_Some: "h_find h k = Some i \<Longrightarrow> \<exists>k'. (k', i) \<in> set h \<and> const_eq k' k"
proof -
  assume "h_find h k = Some i"
  then obtain e where e: "find (\<lambda>e. const_eq (fst e) k) h = Some e" "snd e = i"
    by (auto simp: h_find_def)
  from e(1) have "e \<in> set h" "const_eq (fst e) k" by (auto simp: find_Some_iff)
  with e(2) show ?thesis by (metis prod.collapse)
qed

lemma h_find_None: "h_find h k = None \<Longrightarrow> (k', i) \<in> set h \<Longrightarrow> \<not> const_eq k' k"
  by (auto simp: h_find_def find_None_iff)

lemma addk_same:
  assumes ok: "consts_ok fs" and r: "addk k k fs = Some (Inr (i, fs'))"
  shows "consts_ok fs' \<and> 0 \<le> i \<and> nat i < length (fs_kv fs') \<and> const_eq (fs_kv fs' ! nat i) k \<and>
    (\<exists>new. fs_kv fs' = fs_kv fs @ new) \<and>
    ((\<exists>c \<in> set (fs_kv fs). const_eq c k) \<longrightarrow> fs' = fs)"
proof -
  have k: "\<not> nan_const k"
    using r by (auto simp: addk_def bindM_def getM_def failM_def nan_const_def split: if_splits)
  show ?thesis
proof (cases "h_find (fs_h fs) k")
  case (Some j)
  then have e: "fs' = fs" "i = j"
    using r k by (auto simp: addk_def bindM_def getM_def retM_def nan_const_def)
  from h_find_Some [OF Some] obtain k' where "(k', j) \<in> set (fs_h fs)" "const_eq k' k" by blast
  then show ?thesis
    using ok const_eq_trans unfolding consts_ok_def e by fastforce
next
  case None
  let ?n = "int (length (fs_kv fs))"
  have "\<not> (case k of KNumber n \<Rightarrow> luai_numisnan n | _ \<Rightarrow> False)"
    using k by (simp add: nan_const_def)
  then obtain sk where e: "i = ?n" "fs' = fs\<lparr>fs_h := (k, ?n) # fs_h fs, fs_sizek := sk, fs_kv := fs_kv fs @ [k]\<rparr>"
    using r None
    by (auto simp: addk_def bindM_def thenM_def getM_def retM_def modM_def liftM_def failM_def Let_def
        split: sum.splits)
  have fresh: "\<not> const_eq c k" if "c \<in> set (fs_kv fs)" for c
  proof
    assume ck: "const_eq c k"
    from that obtain j where j: "j < length (fs_kv fs)" "c = fs_kv fs ! j" by (auto simp: in_set_conv_nth)
    then obtain k' where k': "(k', int j) \<in> set (fs_h fs)" "const_eq c k'"
      using ok unfolding consts_ok_def by blast
    then have "const_eq k' k" using ck const_eq_sym const_eq_trans by blast
    with h_find_None [OF None k'(1)] show False by simp
  qed
  note kk = const_eq_refl [OF k]
  have "consts_ok fs'"
    unfolding consts_ok_def
  proof (intro conjI allI impI)
    show "\<forall>(k, i) \<in> set (fs_h fs'). 0 \<le> i \<and> nat i < length (fs_kv fs') \<and> const_eq (fs_kv fs' ! nat i) k"
      using ok kk unfolding consts_ok_def e(2) by (auto simp: nth_append)
  next
    fix j assume "j < length (fs_kv fs')"
    then show "\<exists>k. (k, int j) \<in> set (fs_h fs') \<and> const_eq (fs_kv fs' ! j) k"
      using ok kk unfolding consts_ok_def e(2) by (cases "j = length (fs_kv fs)") (auto simp: nth_append)
  next
    fix a b assume "a < length (fs_kv fs')" "b < length (fs_kv fs')" "const_eq (fs_kv fs' ! a) (fs_kv fs' ! b)"
    then show "a = b"
      using ok fresh [OF nth_mem] const_eq_sym unfolding consts_ok_def e(2)
      by (auto simp: nth_append less_Suc_eq split: if_splits)
  qed
  then show ?thesis using fresh kk by (auto simp: e)
qed
qed

text \<open>
  the constant table.  Asking for a constant returns an index at which the function has a
  raw-equal constant, keeps every constant already there, adds nothing when an equal one
  exists, and keeps the table sound, so no two constants of a function are raw-equal.\<close>

theorem addk_constants:
  assumes "consts_ok fs" "addk k k fs = Some (Inr (i, fs'))"
  shows "consts_ok fs' \<and> 0 \<le> i \<and> nat i < length (fs_kv fs') \<and> const_eq (fs_kv fs' ! nat i) k \<and>
    (\<exists>new. fs_kv fs' = fs_kv fs @ new) \<and> ((\<exists>c \<in> set (fs_kv fs). const_eq c k) \<longrightarrow> fs' = fs)"
  by (rule addk_same [OF assms])

definition empty_fs :: FuncState where
  "empty_fs = \<lparr>fs_code = [], fs_lineinfo = [], fs_sizecode = 0, fs_sizelineinfo = 0,
     fs_kv = [], fs_sizek = 0, fs_h = [], fs_pc = 0, fs_lasttarget = - 1, fs_jpc = NO_JUMP, fs_freereg = 0,
     fs_nactvar = 0, fs_maxstack = 2, fs_lastline = 1\<rparr>"

theorem addk_constants_witness:
  "\<exists>fs'. addk (KNumber 0) (KNumber 0) empty_fs = Some (Inr (0, fs')) \<and> consts_ok fs'"
proof -
  define fs' where "fs' = empty_fs\<lparr>fs_h := [(KNumber 0, 0)], fs_sizek := 4, fs_kv := [KNumber 0]\<rparr>"
  have "consts_ok empty_fs" by (simp add: consts_ok_def empty_fs_def)
  moreover have r: "addk (KNumber 0) (KNumber 0) empty_fs = Some (Inr (0, fs'))"
    by (simp add: addk_def bindM_def thenM_def getM_def retM_def modM_def liftM_def Let_def h_find_def
        luai_numisnan_def luai_numeq_def d_iszero_def d_isnan_def d_exp_def d_man_def fs'_def empty_fs_def
        luaM_growvector_def luaM_growaux_def MINSIZEARRAY_def lua_defs)
  ultimately have "consts_ok fs'" using addk_constants [of empty_fs "KNumber 0" 0 fs'] by simp
  with r show ?thesis by blast
qed


subsection \<open>Minus zero\<close>

definition numeral_exp :: "lua_Number \<Rightarrow> expdesc" where
  "numeral_exp n = \<lparr>e_k = VKNUM, e_info = 0, e_aux = 0, e_nval = n, e_t = NO_JUMP, e_f = NO_JUMP\<rparr>"

text \<open>The code of \<^verbatim>\<open>local a, b = 0, -0\<close>.\<close>

definition zero_then_minus_zero :: "fpops \<Rightarrow> expdesc gen" where
  "zero_then_minus_zero fp =
     bindM (luaK_exp2nextreg (numeral_exp 0)) (\<lambda>_.
     bindM (luaK_prefix fp OPR_MINUS (numeral_exp 0)) luaK_exp2nextreg)"

text \<open>
  constants are shared by raw equality, which does not tell the two zeros apart: after
  \<^verbatim>\<open>0\<close>, the expression \<^verbatim>\<open>-0\<close> is folded to minus zero and then loaded from the constant that
  holds zero.\<close>

theorem minus_zero_shares_zero:
  "luaK_prefix fp OPR_MINUS (numeral_exp 0) empty_fs = Some (Inr (numeral_exp (push_bit 63 1), empty_fs)) \<and>
   (\<exists>e fs. zero_then_minus_zero fp empty_fs = Some (Inr (e, fs)) \<and> fs_kv fs = [KNumber 0] \<and>
     fs_code fs = [CREATE_ABx (of_OpCode OP_LOADK) 0 0, CREATE_ABx (of_OpCode OP_LOADK) 1 0])"
proof
  show "luaK_prefix fp OPR_MINUS (numeral_exp 0) empty_fs = Some (Inr (numeral_exp (push_bit 63 1), empty_fs))"
    by code_simp
  have "map_option (map_sum (\<lambda>_. ()) (\<lambda>(e, fs). (fs_kv fs, fs_code fs))) (zero_then_minus_zero fp empty_fs) =
    Some (Inr ([KNumber 0], [CREATE_ABx (of_OpCode OP_LOADK) 0 0, CREATE_ABx (of_OpCode OP_LOADK) 1 0]))"
    by code_simp
  then obtain r where r: "zero_then_minus_zero fp empty_fs = Some r"
    "map_sum (\<lambda>_. ()) (\<lambda>(e, fs). (fs_kv fs, fs_code fs)) r =
      Inr ([KNumber 0], [CREATE_ABx (of_OpCode OP_LOADK) 0 0, CREATE_ABx (of_OpCode OP_LOADK) 1 0])"
    by (auto simp only: map_option_eq_Some)
  then show "\<exists>e fs. zero_then_minus_zero fp empty_fs = Some (Inr (e, fs)) \<and> fs_kv fs = [KNumber 0] \<and>
     fs_code fs = [CREATE_ABx (of_OpCode OP_LOADK) 0 0, CREATE_ABx (of_OpCode OP_LOADK) 1 0]"
    by (cases r) (auto simp only: map_sum.simps sum.inject sum.distinct prod.case split: prod.splits)
qed

subsection \<open>Constant folding\<close>

text \<open>The switch of \<^verbatim>\<open>Arith\<close> in the interpreter (\<^verbatim>\<open>lvm.c\<close>).\<close>

definition vm_arith :: "fpops \<Rightarrow> OpCode \<Rightarrow> lua_Number \<Rightarrow> lua_Number \<Rightarrow> lua_Number option" where
  "vm_arith fp opr b c =
     (case opr of
        OP_ADD \<Rightarrow> Some (fp_add fp b c)
      | OP_SUB \<Rightarrow> Some (fp_sub fp b c)
      | OP_MUL \<Rightarrow> Some (fp_mul fp b c)
      | OP_DIV \<Rightarrow> Some (fp_div fp b c)
      | OP_MOD \<Rightarrow> Some (luai_nummod fp b c)
      | OP_POW \<Rightarrow> Some (fp_pow fp b c)
      | OP_UNM \<Rightarrow> Some (luai_numunm b)
      | _ \<Rightarrow> None)"


definition demo_fp :: fpops where
  "demo_fp = \<lparr>fp_add = (\<lambda>a b. cast_num (lua_number2integer a + lua_number2integer b)),
     fp_sub = (\<lambda>a b. cast_num (lua_number2integer a - lua_number2integer b)),
     fp_mul = (\<lambda>a b. cast_num (lua_number2integer a * lua_number2integer b)),
     fp_div = (\<lambda>a b. cast_num (lua_number2integer a div lua_number2integer b)),
     fp_floor = id, fp_pow = (\<lambda>a b. a)\<rparr>"


end
