(* ===== verification/Codegen_Inv.thy ===== *)
theory Codegen_Inv
  imports Codegen_Consts
begin

text \<open>
  An invariant of the function being compiled that every operation of the code generator
  keeps: the registers in use fit in the frame, and the frame in \<^verbatim>\<open>MAXSTACK\<close>; the constant table
  is sound; the line table has an entry for every instruction.  The frame only grows: it stays at
  least as large as any bound \<open>low\<close> that it has reached.  The parser itself resets the number of
  registers in use, so the first clause is left out where it takes part (\<open>st\<close> is false).
\<close>

definition fs_ok :: "bool \<Rightarrow> int \<Rightarrow> FuncState \<Rightarrow> bool" where
  "fs_ok st low fs \<longleftrightarrow> (st \<longrightarrow> fs_freereg fs \<le> fs_maxstack fs) \<and> low \<le> fs_maxstack fs \<and>
     0 \<le> fs_maxstack fs \<and> fs_maxstack fs < K_MAXSTACK \<and> consts_ok fs \<and>
     nat (fs_pc fs) \<le> length (fs_code fs) \<and> length (fs_lineinfo fs) = length (fs_code fs)"

definition keeps :: "bool \<Rightarrow> int \<Rightarrow> 'a gen \<Rightarrow> bool" where
  "keeps st low m \<longleftrightarrow> (\<forall>fs x fs'. fs_ok st low fs \<longrightarrow> m fs = Some (Inr (x, fs')) \<longrightarrow> fs_ok st low fs')"

named_theorems keepsI

lemma keepsD: "keeps st low m \<Longrightarrow> fs_ok st low fs \<Longrightarrow> m fs = Some (Inr (x, fs')) \<Longrightarrow> fs_ok st low fs'"
  by (auto simp: keeps_def)

lemma keeps_ret [keepsI]: "keeps st low (retM x)"
  by (simp add: keeps_def retM_def)

lemma keeps_fail [keepsI]: "keeps st low (failM e)"
  by (simp add: keeps_def failM_def)

lemma keeps_get [keepsI]: "keeps st low (getM f)"
  by (simp add: keeps_def getM_def)

lemma keeps_lift [keepsI]: "keeps st low (liftM r)"
  by (simp add: keeps_def liftM_def retM_def failM_def split: sum.split)

lemma keeps_mod: "(\<And>fs. fs_ok st low fs \<Longrightarrow> fs_ok st low (f fs)) \<Longrightarrow> keeps st low (modM f)"
  by (simp add: keeps_def modM_def)

lemma keeps_read [keepsI]: "keeps st low (readcode pc)"
  by (auto simp: keeps_def readcode_def split: option.splits)

lemma keeps_bind [keepsI]: "keeps st low m \<Longrightarrow> (\<And>x. keeps st low (f x)) \<Longrightarrow> keeps st low (bindM m f)"
proof -
  assume k: "keeps st low m" "\<And>x. keeps st low (f x)"
  have "fs_ok st low fs'" if ok: "fs_ok st low fs" and e: "bindM m f fs = Some (Inr (y, fs'))" for fs y fs'
  proof -
    obtain x fs1 where "m fs = Some (Inr (x, fs1))" "f x fs1 = Some (Inr (y, fs'))"
      using e unfolding bindM_def by (auto split: option.split_asm sum.split_asm prod.split_asm)
    then show ?thesis using keepsD [OF k(1) ok] keepsD [OF k(2)] by blast
  qed
  then show ?thesis by (auto simp: keeps_def)
qed

lemma keeps_then [keepsI]: "keeps st low m \<Longrightarrow> keeps st low n \<Longrightarrow> keeps st low (thenM m n)"
  by (simp add: thenM_def keeps_bind)

lemma keeps_if [keepsI]: "(b \<Longrightarrow> keeps st low m) \<Longrightarrow> (\<not> b \<Longrightarrow> keeps st low n) \<Longrightarrow> keeps st low (if b then m else n)"
  by simp

lemma keeps_prod [keepsI]: "(\<And>a b. keeps st low (f a b)) \<Longrightarrow> keeps st low (case p of (a, b) \<Rightarrow> f a b)"
  by (cases p) simp

lemma keeps_kind [keepsI]:
  "keeps st low a1 \<Longrightarrow> keeps st low a2 \<Longrightarrow> keeps st low a3 \<Longrightarrow> keeps st low a4 \<Longrightarrow> keeps st low a5 \<Longrightarrow> keeps st low a6 \<Longrightarrow> keeps st low a7 \<Longrightarrow> keeps st low a8 \<Longrightarrow>
   keeps st low a9 \<Longrightarrow> keeps st low a10 \<Longrightarrow> keeps st low a11 \<Longrightarrow> keeps st low a12 \<Longrightarrow> keeps st low a13 \<Longrightarrow> keeps st low a14 \<Longrightarrow> keeps st low a15 \<Longrightarrow>
   keeps st low (case_expkind a1 a2 a3 a4 a5 a6 a7 a8 a9 a10 a11 a12 a13 a14 a15 k)"
  by (cases k) simp_all

lemma keeps_option [keepsI]:
  "keeps st low a \<Longrightarrow> (\<And>x. keeps st low (f x)) \<Longrightarrow> keeps st low (case r of None \<Rightarrow> a | Some x \<Rightarrow> f x)"
  by (cases r) simp_all

subsection \<open>The loops keep the length of the code\<close>

lemma fixjump_length: "fixjump pc dest code = Inr c' \<Longrightarrow> length c' = length code"
  by (auto simp: fixjump_def Let_def setcode_def split: option.splits if_splits)

lemma patchtestreg_length: "length (snd (patchtestreg x reg code)) = length code"
  by (simp add: patchtestreg_def Let_def setcode_def)

lemma patch_one_length: "patch_one l v r d code = Inr (n, c') \<Longrightarrow> length c' = length code"
proof -
  assume "patch_one l v r d code = Inr (n, c')"
  then have "\<exists>t. fixjump l t (snd (patchtestreg l r code)) = Inr c'"
    by (cases "fixjump l (if fst (patchtestreg l r code) then v else d) (snd (patchtestreg l r code))")
      (auto simp: patch_one_def Let_def split: option.splits prod.splits)
  then show ?thesis using fixjump_length patchtestreg_length by metis
qed

lemma patchlistaux_length:
  assumes "patchlistaux_loop l v r d code = Some y"
  shows "y = Inr ((), c') \<longrightarrow> length c' = length code"
  by (rule patchlistaux_loop.raw_induct [where P = "\<lambda>l v r d code y. y = Inr ((), c') \<longrightarrow> length c' = length code", OF _ assms])
    (fastforce split: if_splits sum.splits dest: patch_one_length)

lemma removevalues_length:
  assumes "removevalues_loop l code = Some y"
  shows "y = Inr ((), c') \<longrightarrow> length c' = length code"
  by (rule removevalues_loop.raw_induct [where P = "\<lambda>l code y. y = Inr ((), c') \<longrightarrow> length c' = length code", OF _ assms])
    (fastforce simp: Let_def patchtestreg_length split: if_splits option.splits)

lemma concat_length:
  assumes "concat_loop l l2 code = Some y"
  shows "y = Inr c' \<longrightarrow> length c' = length code"
  by (rule concat_loop.raw_induct [where P = "\<lambda>l l2 code y. y = Inr c' \<longrightarrow> length c' = length code", OF _ assms])
    (fastforce split: if_splits option.splits dest: fixjump_length)

lemma keeps_on_code_array:
  assumes "\<And>code x c'. m code = Some (Inr (x, c')) \<Longrightarrow> length c' = length code"
  shows "keeps st low (on_code_array m)"
  using assms
  by (fastforce simp: keeps_def on_code_array_def fs_ok_def consts_ok_def split: option.splits sum.splits)

lemma keeps_loops [keepsI]:
  "keeps st low (patchlistaux l v r d)" "keeps st low (removevalues l)" "keeps st low (need_value l)"
  unfolding patchlistaux_def removevalues_def need_value_def
  using patchlistaux_length removevalues_length
  by (auto intro!: keeps_on_code_array simp: map_sum_def split: sum.splits)


subsection \<open>The operations\<close>

lemma fs_ok_code: "fs_ok st low fs \<Longrightarrow> length c = length (fs_code fs) \<Longrightarrow> fs_ok st low (fs\<lparr>fs_code := c\<rparr>)"
  by (simp add: fs_ok_def consts_ok_def)

lemma keeps_write [keepsI]: "keeps st low (writecode pc f)"
  unfolding writecode_def
  by (intro keepsI keeps_mod) (simp add: fs_ok_code setcode_def)

lemma keeps_concat [keepsI]: "keeps st low (luaK_concat l1 l2)"
proof -
  have "keeps st low (on_code_array (\<lambda>code. map_option (map_sum id (Pair l1)) (concat_loop l1 l2 code)))"
  proof (rule keeps_on_code_array)
    fix code x c'
    assume "map_option (map_sum id (Pair l1)) (concat_loop l1 l2 code) = Some (Inr (x, c'))"
    then obtain z where "concat_loop l1 l2 code = Some z" "map_sum id (Pair l1) z = Inr (x, c')" by auto
    then show "length c' = length code" using concat_length [of l1 l2 code z c'] by (cases z) auto
  qed
  then show ?thesis unfolding luaK_concat_def by (intro keepsI)
qed

lemma keeps_marks [keepsI]:
  "keeps st low (modM (\<lambda>fs. fs\<lparr>fs_jpc := f fs\<rparr>))" "keeps st low (modM (\<lambda>fs. fs\<lparr>fs_lasttarget := f fs\<rparr>))"
  "keeps st low (modM (\<lambda>fs. fs\<lparr>fs_pc := fs_pc fs - 1\<rparr>))" "keeps st low (modM (\<lambda>fs. fs\<lparr>fs_freereg := fs_freereg fs - 1\<rparr>))"
  by (rule keeps_mod, cases st, simp_all add: fs_ok_def consts_ok_def nat_le_iff)+

lemma keeps_labels [keepsI]: "keeps st low luaK_getlabel" "keeps st low dischargejpc"
  unfolding luaK_getlabel_def dischargejpc_def by (intro keepsI)+

lemma keeps_patch [keepsI]: "keeps st low (luaK_patchtohere l)"
  unfolding luaK_patchtohere_def by (intro keepsI)

lemma keeps_code [keepsI]: "keeps st low (luaK_code i line)"
proof -
  have "keeps st low (bindM (getM (\<lambda>fs. fs)) (\<lambda>fs.
         bindM (liftM (luaM_growvector (fs_pc fs) (fs_sizecode fs) K_MAX_INT ''code size overflow'')) (\<lambda>sc.
         thenM (if fs_pc fs < 0 then failM OutOfBounds
                else modM (\<lambda>fs. fs\<lparr>fs_sizecode := sc, fs_code := putcell (fs_pc fs) i (fs_code fs)\<rparr>))
         (bindM (liftM (luaM_growvector (fs_pc fs) (fs_sizelineinfo fs) K_MAX_INT ''code size overflow'')) (\<lambda>sl.
         thenM (modM (\<lambda>fs. fs\<lparr>fs_sizelineinfo := sl, fs_lineinfo := putcell (fs_pc fs) line (fs_lineinfo fs),
                  fs_pc := fs_pc fs + 1\<rparr>))
           (retM (fs_pc fs)))))))"
    unfolding keeps_def gen_defs
    by (auto simp: fs_ok_def consts_ok_def putcell_def nat_le_iff split: sum.splits if_splits)
  then show ?thesis unfolding luaK_code_def by (rule keeps_then [OF keeps_labels(2)])
qed

lemma keeps_emit [keepsI]:
  "keeps st low (luaK_codeABC op a b c)" "keeps st low (luaK_codeABx op a bx)" "keeps st low (luaK_codeAsBx op a sbx)"
  unfolding luaK_codeABC_def luaK_codeAsBx_def luaK_codeABx_def by (intro keepsI)+

lemma keeps_jump [keepsI]: "keeps st low luaK_jump"
  unfolding luaK_jump_def by (intro keepsI)

lemma keeps_condjump [keepsI]: "keeps st low (condjump op a b c)"
  unfolding condjump_def by (intro keepsI)

lemma keeps_nil [keepsI]: "keeps st low (luaK_nil r n)"
  unfolding luaK_nil_def Let_def by (intro keepsI)

lemma keeps_reserve [keepsI]: "keeps st low (luaK_reserveregs n)"
  unfolding keeps_def luaK_reserveregs_def luaK_checkstack_def gen_defs
  by (auto simp: fs_ok_def consts_ok_def K_MAXSTACK_def split: if_splits)

lemma keeps_freereg [keepsI]: "keeps st low (freereg r)"
  unfolding freereg_def by (intro keepsI)

lemma keeps_freeexp [keepsI]: "keeps st low (freeexp e)"
  unfolding freeexp_def by (intro keepsI)

lemma addk_fields:
  assumes "addk k v fs = Some (Inr (i, fs'))"
  shows "\<exists>h s kv. fs' = fs\<lparr>fs_h := h, fs_sizek := s, fs_kv := kv\<rparr>"
proof (cases "h_find (fs_h fs) k")
  case None
  let ?s = "luaM_growvector (int (length (fs_kv fs))) (fs_sizek fs) MAXARG_Bx ''constant table overflow''"
  from None assms show ?thesis
    by (cases ?s) (auto simp: addk_def gen_defs Let_def split: if_splits)
next
  case (Some j)
  with assms have "fs' = fs" by (auto simp: addk_def gen_defs split: if_splits)
  then have "fs' = fs\<lparr>fs_h := fs_h fs, fs_sizek := fs_sizek fs, fs_kv := fs_kv fs\<rparr>" by simp
  then show ?thesis by blast
qed

lemma keeps_addk: "keeps st low (addk k k)"
proof -
  have "fs_ok st low fs'" if ok: "fs_ok st low fs" and r: "addk k k fs = Some (Inr (i, fs'))" for fs i fs'
  proof -
    have "consts_ok fs'" using addk_same [OF _ r] ok by (simp add: fs_ok_def)
    moreover have "\<exists>h s kv. fs' = fs\<lparr>fs_h := h, fs_sizek := s, fs_kv := kv\<rparr>"
      by (rule addk_fields [OF r])
    ultimately show ?thesis using ok by (auto simp: fs_ok_def)
  qed
  then show ?thesis by (auto simp: keeps_def)
qed

lemma keeps_constants [keepsI]: "keeps st low (luaK_stringK s)" "keeps st low (luaK_numberK n)" "keeps st low (boolK b)" "keeps st low nilK"
  unfolding luaK_stringK_def luaK_numberK_def boolK_def nilK_def by (rule keeps_addk)+


lemma keeps_returns [keepsI]: "keeps st low (luaK_setreturns e n)" "keeps st low (luaK_setoneret e)"
  unfolding luaK_setreturns_def luaK_setoneret_def by (intro keepsI)+

lemma keeps_discharge [keepsI]: "keeps st low (luaK_dischargevars e)"
  unfolding luaK_dischargevars_def relocable_def luaK_setoneret_def by (intro keepsI)

lemma keeps_label [keepsI]: "keeps st low (code_label a b j)"
  unfolding code_label_def by (intro keepsI)

lemma keeps_discharge2reg [keepsI]: "keeps st low (discharge2reg e r)"
  unfolding discharge2reg_def Let_def by (intro keepsI)

lemma keeps_discharge2any [keepsI]: "keeps st low (discharge2anyreg e)"
  unfolding discharge2anyreg_def by (intro keepsI)

lemma keeps_concat_lists [keepsI]: "keeps st low (concat_t e l)" "keeps st low (concat_f e l)"
  unfolding concat_t_def concat_f_def by (intro keepsI)+

lemma keeps_exp2reg [keepsI]: "keeps st low (exp2reg e r)"
  unfolding exp2reg_def orK_def by (intro keepsI)

lemma keeps_exp2nextreg [keepsI]: "keeps st low (luaK_exp2nextreg e)"
  unfolding luaK_exp2nextreg_def by (intro keepsI)

lemma keeps_exp2anyreg [keepsI]: "keeps st low (luaK_exp2anyreg e)"
  unfolding luaK_exp2anyreg_def by (intro keepsI)

lemma keeps_exp2val [keepsI]: "keeps st low (luaK_exp2val e)"
  unfolding luaK_exp2val_def by (intro keepsI)

lemma keeps_exp2RK [keepsI]: "keeps st low (luaK_exp2RK e)"
  unfolding luaK_exp2RK_def Let_def by (intro keepsI)

lemma keeps_storevar [keepsI]: "keeps st low (luaK_storevar v e)"
  unfolding luaK_storevar_def by (intro keepsI)

lemma keeps_self [keepsI]: "keeps st low (luaK_self e k)"
  unfolding luaK_self_def by (intro keepsI)

lemma keeps_invertjump [keepsI]: "keeps st low (invertjump e)"
  unfolding invertjump_def by (intro keepsI)

lemma keeps_jumponcond [keepsI]: "keeps st low (jumponcond e c)"
  unfolding jumponcond_def jumponcond_reg_def by (intro keepsI)

lemma keeps_goif [keepsI]: "keeps st low (luaK_goiftrue e)" "keeps st low (luaK_goiffalse e)"
  unfolding luaK_goiftrue_def luaK_goiffalse_def by (intro keepsI)+

lemma keeps_not [keepsI]: "keeps st low (codenot e)"
  unfolding codenot_def codenot_reg_def relocable_def Let_def by (intro keepsI)

lemma keeps_indexed [keepsI]: "keeps st low (luaK_indexed t k)"
  unfolding luaK_indexed_def by (intro keepsI)

lemma keeps_arith [keepsI]: "keeps st low (codearith fp opr e1 e2)"
  unfolding codearith_def relocable_def by (intro keepsI)

lemma keeps_comp [keepsI]: "keeps st low (codecomp opr c e1 e2)"
  unfolding codecomp_def by (intro keepsI)

lemma keeps_prefix [keepsI]: "keeps st low (luaK_prefix fp opr e)"
  unfolding luaK_prefix_def Let_def by (split UnOpr.split) (intro conjI impI keepsI)

lemma keeps_infix [keepsI]: "keeps st low (luaK_infix opr e)"
  unfolding luaK_infix_def by (intro keepsI)

lemma keeps_posfix [keepsI]: "keeps st low (luaK_posfix fp opr e1 e2)"
  unfolding luaK_posfix_def posfix_concat_def Let_def by (split BinOpr.split) (intro conjI impI keepsI)


lemma keeps_patchlist [keepsI]: "keeps st low (luaK_patchlist l t)"
  unfolding luaK_patchlist_def by (intro keepsI)

lemma keeps_ret_instr [keepsI]: "keeps st low (luaK_ret f n)"
  unfolding luaK_ret_def by (intro keepsI)

lemma keeps_fixline [keepsI]: "keeps st low (luaK_fixline line)"
proof -
  have "keeps st low (modM (\<lambda>fs. fs\<lparr>fs_lineinfo := (fs_lineinfo fs)[nat (pc - 1) := line]\<rparr>))" for pc
    by (rule keeps_mod) (simp add: fs_ok_def consts_ok_def)
  then show ?thesis unfolding luaK_fixline_def by (intro keepsI)
qed

lemma keeps_checkstack [keepsI]: "keeps st low (luaK_checkstack n)"
  unfolding keeps_def luaK_checkstack_def gen_defs
  by (auto simp: fs_ok_def consts_ok_def K_MAXSTACK_def split: if_splits)

lemma keeps_set_freereg [keepsI]: "keeps False low (modM (\<lambda>fs. fs\<lparr>fs_freereg := r\<rparr>))"
  by (rule keeps_mod) (simp add: fs_ok_def consts_ok_def)

lemma keeps_setlist [keepsI]: "keeps False low (luaK_setlist base nelems tostore)"
  unfolding luaK_setlist_def Let_def by (intro keepsI)

subsection \<open>What the parser can do\<close>

text \<open>A call of the code generator by the parser, with arbitrary arguments.\<close>

datatype kcall = CPrefix UnOpr expdesc | CInfix BinOpr expdesc | CPosfix BinOpr expdesc expdesc
  | CStore expdesc expdesc | CSelf expdesc expdesc | CIndexed expdesc expdesc | CNextReg expdesc
  | CAnyReg expdesc | CVal expdesc | CRK expdesc | CGoIfTrue expdesc | CReturns expdesc int | CNil int int
  | CJump | CRet int int | CPatch int int | CHere int | CReserve int | CLine int | CString string

fun run_call :: "fpops \<Rightarrow> kcall \<Rightarrow> unit gen" where
  "run_call fp (CPrefix opr e) = thenM (luaK_prefix fp opr e) (retM ())"
| "run_call fp (CInfix opr e) = thenM (luaK_infix opr e) (retM ())"
| "run_call fp (CPosfix opr e1 e2) = thenM (luaK_posfix fp opr e1 e2) (retM ())"
| "run_call fp (CStore v e) = thenM (luaK_storevar v e) (retM ())"
| "run_call fp (CSelf e k) = thenM (luaK_self e k) (retM ())"
| "run_call fp (CIndexed t k) = thenM (luaK_indexed t k) (retM ())"
| "run_call fp (CNextReg e) = thenM (luaK_exp2nextreg e) (retM ())"
| "run_call fp (CAnyReg e) = thenM (luaK_exp2anyreg e) (retM ())"
| "run_call fp (CVal e) = thenM (luaK_exp2val e) (retM ())"
| "run_call fp (CRK e) = thenM (luaK_exp2RK e) (retM ())"
| "run_call fp (CGoIfTrue e) = thenM (luaK_goiftrue e) (retM ())"
| "run_call fp (CReturns e n) = luaK_setreturns e n"
| "run_call fp (CNil r n) = luaK_nil r n"
| "run_call fp CJump = thenM luaK_jump (retM ())"
| "run_call fp (CRet r n) = luaK_ret r n"
| "run_call fp (CPatch l t) = luaK_patchlist l t"
| "run_call fp (CHere l) = luaK_patchtohere l"
| "run_call fp (CReserve n) = luaK_reserveregs n"
| "run_call fp (CLine n) = luaK_fixline n"
| "run_call fp (CString s) = thenM (luaK_stringK s) (retM ())"

fun run_calls :: "fpops \<Rightarrow> kcall list \<Rightarrow> unit gen" where
  "run_calls fp [] = retM ()"
| "run_calls fp (c # cs) = thenM (run_call fp c) (run_calls fp cs)"

lemma keeps_call [keepsI]: "keeps st low (run_call fp c)"
  by (cases c) (simp_all only: run_call.simps, (intro keepsI)+)

lemma keeps_calls: "keeps st low (run_calls fp cs)"
  by (induction cs) (simp_all only: run_calls.simps, (intro keepsI | assumption)+)



end
