(* ===== verification/Ctype.thy ===== *)
theory Ctype
  imports Prelude
begin

text \<open>
  Characters as C sees them (\<^verbatim>\<open>ctype.h\<close> in the ``C'' locale), on the \<^verbatim>\<open>int\<close> values of an
  \<^verbatim>\<open>unsigned char\<close> or \<^verbatim>\<open>EOF\<close>.
\<close>

definition char_int :: "int \<Rightarrow> char" where
  "char_int c = char_of (nat (c mod 256))"

definition ch :: "char \<Rightarrow> int" where
  "ch c = int (of_char c)"

definition c_isdigit :: "int \<Rightarrow> bool" where
  "c_isdigit c \<longleftrightarrow> 48 \<le> c \<and> c \<le> 57"

definition c_islower :: "int \<Rightarrow> bool" where
  "c_islower c \<longleftrightarrow> 97 \<le> c \<and> c \<le> 122"

definition c_isupper :: "int \<Rightarrow> bool" where
  "c_isupper c \<longleftrightarrow> 65 \<le> c \<and> c \<le> 90"

definition c_isalpha :: "int \<Rightarrow> bool" where
  "c_isalpha c \<longleftrightarrow> c_isupper c \<or> c_islower c"

definition c_isalnum :: "int \<Rightarrow> bool" where
  "c_isalnum c \<longleftrightarrow> c_isdigit c \<or> c_isalpha c"

definition c_isspace :: "int \<Rightarrow> bool" where
  "c_isspace c \<longleftrightarrow> 9 \<le> c \<and> c \<le> 13 \<or> c = 32"

definition c_iscntrl :: "int \<Rightarrow> bool" where
  "c_iscntrl c \<longleftrightarrow> 0 \<le> c \<and> c < 32 \<or> c = 127"

definition c_ispunct :: "int \<Rightarrow> bool" where
  "c_ispunct c \<longleftrightarrow> 32 < c \<and> c < 127 \<and> \<not> c_isalnum c"

definition c_isxdigit :: "int \<Rightarrow> bool" where
  "c_isxdigit c \<longleftrightarrow> c_isdigit c \<or> 97 \<le> c \<and> c \<le> 102 \<or> 65 \<le> c \<and> c \<le> 70"

definition c_tolower :: "int \<Rightarrow> int" where
  "c_tolower c = (if c_isupper c then c + 32 else c)"

definition c_toupper :: "int \<Rightarrow> int" where
  "c_toupper c = (if c_islower c then c - 32 else c)"

text \<open>A C string ends at its first zero.\<close>

definition c_str :: "string \<Rightarrow> string" where
  "c_str s = takeWhile (\<lambda>c. c \<noteq> CHR 0x00) s"

end
