(* ===== verification/Lexer.thy ===== *)
theory Lexer
  imports Monads Ctype Zio Objects
begin

text \<open>
  The lexical analyser (\<^verbatim>\<open>llex.h\<close>, \<^verbatim>\<open>llex.c\<close>).  Its functions work on the lexer state, with
  characters read from a buffered stream by \<^const>\<open>zgetc\<close>; \<open>rd\<close> is the stream's reader.

  A computation ends with a token, with an error (a syntax error, or \<open>MemError\<close>, an access
  outside the blocks of the stream or outside the token buffer), or does not end.  An error is kept as its parts: line,
  message and the text it is near.  \<open>lex_env\<close> holds what the lexer takes from the C library:
  \<^verbatim>\<open>strtod\<close> and \<^verbatim>\<open>strtoul\<close> (which yield the number and the length of text used) and the decimal
  point of the locale; character classes are those of the ``C'' locale.

  Strings are interned in the real lexer, which does not change their text; \<open>ls_h\<close> is the set
  of strings entered into the table \<^verbatim>\<open>fs->h\<close> of the function being compiled.
\<close>

subsection \<open>Tokens\<close>

definition FIRST_RESERVED :: int where "FIRST_RESERVED = 257"

definition luaX_tokens :: "string list" where
  "luaX_tokens =
     [''and'', ''break'', ''do'', ''else'', ''elseif'', ''end'', ''false'', ''for'', ''function'', ''if'',
      ''in'', ''local'', ''nil'', ''not'', ''or'', ''repeat'', ''return'', ''then'', ''true'', ''until'',
      ''while'', ''..'', ''...'', ''=='', ''>='', ''<='', ''~='', ''<number>'', ''<name>'', ''<string>'', ''<eof>'']"

definition NUM_RESERVED :: nat where "NUM_RESERVED = 21"

definition TK_CONCAT :: int where "TK_CONCAT = 278"
definition TK_DOTS :: int where "TK_DOTS = 279"
definition TK_EQ :: int where "TK_EQ = 280"
definition TK_GE :: int where "TK_GE = 281"
definition TK_LE :: int where "TK_LE = 282"
definition TK_NE :: int where "TK_NE = 283"
definition TK_NUMBER :: int where "TK_NUMBER = 284"
definition TK_NAME :: int where "TK_NAME = 285"
definition TK_STRING :: int where "TK_STRING = 286"
definition TK_EOS :: int where "TK_EOS = 287"

datatype SemInfo = SemNone | SemR lua_Number | SemTs string

record Token =
  token :: int
  seminfo :: SemInfo

record lex_env =
  strtod :: "string \<Rightarrow> lua_Number \<times> nat"
  strtoul16 :: "string \<Rightarrow> int \<times> nat"
  decimal_point :: int

record 'd LexState =
  ls_current :: int
  ls_linenumber :: int
  ls_lastline :: int
  ls_t :: Token
  ls_lookahead :: Token
  ls_z :: "'d ZIO"
  ls_buff :: string
  ls_buffsize :: nat
  ls_h :: "string list"
  ls_decpoint :: int

datatype lexstop = LexError int string "string option" | MemError

type_synonym ('d, 'a) lex = "('d LexState, lexstop, 'a) comp"

subsection \<open>The stream and the buffer\<close>

definition is_newline :: "int \<Rightarrow> bool" where
  "is_newline c \<longleftrightarrow> c = 10 \<or> c = 13"

definition lex_next :: "'d reader \<Rightarrow> ('d, unit) lex" where
  "lex_next rd ls =
     (case zgetc rd (ls_z ls) of
        None \<Rightarrow> Some (Inl MemError)
      | Some (c, z) \<Rightarrow> Some (Inr ((), ls\<lparr>ls_current := c, ls_z := z\<rparr>)))"

definition MAX_SIZET :: nat where "MAX_SIZET = 2 ^ 64 - 3"

text \<open>\<^verbatim>\<open>save\<close>, with its result when the buffer cannot grow.\<close>

definition save_or :: "('d, unit) lex \<Rightarrow> int \<Rightarrow> ('d, unit) lex" where
  "save_or too_long c =
     bindM (getM (\<lambda>ls. (length (ls_buff ls), ls_buffsize ls))) (\<lambda>(n, sz).
     thenM
       (if n + 1 > sz then
          (if sz \<ge> MAX_SIZET div 2 then too_long else modM (\<lambda>ls. ls\<lparr>ls_buffsize := sz * 2\<rparr>))
        else retM ())
       (bindM (getM ls_buffsize) (\<lambda>sz.
         if n < sz then modM (\<lambda>ls. ls\<lparr>ls_buff := ls_buff ls @ [char_int c]\<rparr>) else failM MemError)))"

fun show_nat :: "nat \<Rightarrow> string" where
  "show_nat n = (if n < 10 then [char_of (48 + n)] else show_nat (n div 10) @ [char_of (48 + n mod 10)])"

declare show_nat.simps [simp del]

definition luaX_token2str :: "int \<Rightarrow> string" where
  "luaX_token2str t =
     (if t < FIRST_RESERVED then
        (if c_iscntrl t then ''char('' @ show_nat (nat t) @ '')'' else [char_int t])
      else luaX_tokens ! nat (t - FIRST_RESERVED))"

definition lex_error0 :: "string \<Rightarrow> ('d, 'a) lex" where
  "lex_error0 msg = bindM (getM ls_linenumber) (\<lambda>l. failM (LexError l msg None))"

definition save :: "int \<Rightarrow> ('d, unit) lex" where
  "save = save_or (lex_error0 ''lexical element too long'')"

definition txtToken :: "int \<Rightarrow> ('d, string) lex" where
  "txtToken t =
     (if t \<in> {TK_NAME, TK_STRING, TK_NUMBER} then thenM (save 0) (getM (\<lambda>ls. c_str (ls_buff ls)))
      else retM (luaX_token2str t))"

definition luaX_lexerror :: "string \<Rightarrow> int \<Rightarrow> ('d, 'a) lex" where
  "luaX_lexerror msg t =
     (if t = 0 then lex_error0 msg
      else bindM (txtToken t) (\<lambda>txt. bindM (getM ls_linenumber) (\<lambda>l. failM (LexError l msg (Some txt)))))"

definition luaX_syntaxerror :: "string \<Rightarrow> ('d, 'a) lex" where
  "luaX_syntaxerror msg = bindM (getM (\<lambda>ls. token (ls_t ls))) (luaX_lexerror msg)"

definition save_and_next :: "'d reader \<Rightarrow> ('d, unit) lex" where
  "save_and_next rd = bindM (getM ls_current) (\<lambda>c. thenM (save c) (lex_next rd))"

definition resetbuffer :: "('d, unit) lex" where
  "resetbuffer = modM (\<lambda>ls. ls\<lparr>ls_buff := []\<rparr>)"

definition luaX_newstring :: "string \<Rightarrow> ('d, string) lex" where
  "luaX_newstring s = thenM (modM (\<lambda>ls. ls\<lparr>ls_h := List.insert s (ls_h ls)\<rparr>)) (retM s)"

definition L_MAX_INT :: int where "L_MAX_INT = 2 ^ 31 - 3"

definition inclinenumber :: "'d reader \<Rightarrow> ('d, unit) lex" where
  "inclinenumber rd =
     bindM (getM ls_current) (\<lambda>old.
     thenM (lex_next rd)
     (bindM (getM ls_current) (\<lambda>c.
     thenM (if is_newline c \<and> c \<noteq> old then lex_next rd else retM ())
     (thenM (modM (\<lambda>ls. ls\<lparr>ls_linenumber := ls_linenumber ls + 1\<rparr>))
     (bindM (getM ls_linenumber) (\<lambda>l.
       if l \<ge> L_MAX_INT then luaX_syntaxerror ''chunk has too many lines'' else retM ()))))))"

definition luaX_setinput :: "'d reader \<Rightarrow> 'd ZIO \<Rightarrow> ('d, unit) lex" where
  "luaX_setinput rd z =
     thenM (modM (\<lambda>ls. ls\<lparr>ls_decpoint := 46, ls_lookahead := (ls_lookahead ls)\<lparr>token := TK_EOS\<rparr>, ls_z := z,
                     ls_linenumber := 1, ls_lastline := 1, ls_buffsize := LUA_MINBUFFER\<rparr>))
       (lex_next rd)"

text \<open>\<^verbatim>\<open>strchr\<close> finds the terminating zero of its string.\<close>

definition c_strchr :: "string \<Rightarrow> int \<Rightarrow> bool" where
  "c_strchr cs c \<longleftrightarrow> char_int c \<in> set cs \<or> char_int c = CHR 0x00"

definition check_next :: "'d reader \<Rightarrow> string \<Rightarrow> ('d, bool) lex" where
  "check_next rd cs =
     bindM (getM ls_current) (\<lambda>c.
       if \<not> c_strchr cs c then retM False else thenM (save_and_next rd) (retM True))"

subsection \<open>Numerals\<close>

definition luaO_str2d :: "lex_env \<Rightarrow> string \<Rightarrow> lua_Number option" where
  "luaO_str2d env s =
     (let s = c_str s; (r, e) = strtod env s in
      if e = 0 then None
      else
        let (r, e) = (if e < length s \<and> s ! e \<in> {CHR ''x'', CHR ''X''}
                      then (let (u, e) = strtoul16 env s in (cast_num u, e)) else (r, e)) in
        if dropWhile (\<lambda>c. c_isspace (ch c)) (drop e s) = [] then Some r else None)"

definition buffreplace :: "int \<Rightarrow> int \<Rightarrow> ('d, unit) lex" where
  "buffreplace a b =
     modM (\<lambda>ls. ls\<lparr>ls_buff := map (\<lambda>c. if c = char_int a then char_int b else c) (ls_buff ls)\<rparr>)"

definition trydecpoint :: "lex_env \<Rightarrow> ('d, SemInfo) lex" where
  "trydecpoint env =
     bindM (getM ls_decpoint) (\<lambda>old.
     thenM (modM (\<lambda>ls. ls\<lparr>ls_decpoint := decimal_point env\<rparr>))
     (thenM (buffreplace old (decimal_point env))
     (bindM (getM ls_buff) (\<lambda>b.
       case luaO_str2d env b of
         None \<Rightarrow> thenM (buffreplace (decimal_point env) 46) (luaX_lexerror ''malformed number'' TK_NUMBER)
       | Some r \<Rightarrow> retM (SemR r)))))"

partial_function (option) save_while :: "'d reader \<Rightarrow> (int \<Rightarrow> bool) \<Rightarrow> ('d, unit) lex" where
  [code]: "save_while rd P ls =
     bindM (getM ls_current) (\<lambda>c. if P c then thenM (save_and_next rd) (save_while rd P) else retM ()) ls"

definition digits_or_dot :: "int \<Rightarrow> bool" where
  "digits_or_dot c \<longleftrightarrow> c_isdigit c \<or> c = 46"

definition word_char :: "int \<Rightarrow> bool" where
  "word_char c \<longleftrightarrow> c_isalnum c \<or> c = 95"

definition read_numeral :: "lex_env \<Rightarrow> 'd reader \<Rightarrow> ('d, SemInfo) lex" where
  "read_numeral env rd =
     thenM (save_and_next rd)
     (thenM (save_while rd digits_or_dot)
     (bindM (check_next rd ''Ee'') (\<lambda>e.
     thenM (if e then thenM (check_next rd ''+-'') (retM ()) else retM ())
     (thenM (save_while rd word_char)
     (thenM (save 0)
     (bindM (getM ls_decpoint) (\<lambda>dp.
     thenM (buffreplace 46 dp)
     (bindM (getM ls_buff) (\<lambda>b.
       case luaO_str2d env b of None \<Rightarrow> trydecpoint env | Some r \<Rightarrow> retM (SemR r))))))))))"

subsection \<open>Strings\<close>

partial_function (option) skip_sep_loop :: "'d reader \<Rightarrow> int \<Rightarrow> ('d, int) lex" where
  [code]: "skip_sep_loop rd count ls =
     bindM (getM ls_current) (\<lambda>c.
       if c = 61 then thenM (save_and_next rd) (skip_sep_loop rd (count + 1)) else retM count) ls"

definition skip_sep :: "'d reader \<Rightarrow> ('d, int) lex" where
  "skip_sep rd =
     bindM (getM ls_current) (\<lambda>s.
     thenM (save_and_next rd)
     (bindM (skip_sep_loop rd 0) (\<lambda>count.
     bindM (getM ls_current) (\<lambda>c. retM (if c = s then count else - count - 1)))))"

text \<open>The loop of \<^verbatim>\<open>read_long_string\<close>; \<open>str\<close> tells a string from a comment.\<close>

partial_function (option) long_string_loop :: "'d reader \<Rightarrow> bool \<Rightarrow> int \<Rightarrow> ('d, unit) lex" where
  [code]: "long_string_loop rd str sep ls =
     bindM (getM ls_current) (\<lambda>c.
       if c = EOZ then
         luaX_lexerror (if str then ''unfinished long string'' else ''unfinished long comment'') TK_EOS
       else if c = 91 then
         bindM (skip_sep rd) (\<lambda>n.
           if n = sep then
             thenM (save_and_next rd)
               (if sep = 0 then luaX_lexerror ''nesting of [[...]] is deprecated'' 91
                else long_string_loop rd str sep)
           else long_string_loop rd str sep)
       else if c = 93 then
         bindM (skip_sep rd) (\<lambda>n.
           if n = sep then save_and_next rd else long_string_loop rd str sep)
       else if is_newline c then
         thenM (save 10) (thenM (inclinenumber rd)
           (thenM (if \<not> str then resetbuffer else retM ()) (long_string_loop rd str sep)))
       else thenM (if str then save_and_next rd else lex_next rd) (long_string_loop rd str sep)) ls"

definition read_long_string :: "'d reader \<Rightarrow> bool \<Rightarrow> int \<Rightarrow> ('d, SemInfo) lex" where
  "read_long_string rd str sep =
     thenM (save_and_next rd)
     (bindM (getM ls_current) (\<lambda>c.
     thenM (if is_newline c then inclinenumber rd else retM ())
     (thenM (long_string_loop rd str sep)
       (if str then
          bindM (getM ls_buff) (\<lambda>b.
          bindM (luaX_newstring (take (length b - 2 * (2 + nat sep)) (drop (2 + nat sep) b))) (\<lambda>s. retM (SemTs s)))
        else retM SemNone))))"

text \<open>The digits of a decimal escape: at most three.\<close>

fun decimal_escape :: "'d reader \<Rightarrow> nat \<Rightarrow> int \<Rightarrow> ('d, int) lex" where
  "decimal_escape rd 0 c = retM c"
| "decimal_escape rd (Suc n) c =
     bindM (getM ls_current) (\<lambda>d.
       if c_isdigit d then thenM (lex_next rd) (decimal_escape rd n (10 * c + (d - 48))) else retM c)"

definition simple_escape :: "int \<Rightarrow> int option" where
  "simple_escape c =
     (if c = 97 then Some 7 else if c = 98 then Some 8 else if c = 102 then Some 12 else if c = 110 then Some 10
      else if c = 114 then Some 13 else if c = 116 then Some 9 else if c = 118 then Some 11 else None)"

text \<open>The character after a backslash.\<close>

definition escaped :: "'d reader \<Rightarrow> int \<Rightarrow> ('d, unit) lex" where
  "escaped rd c =
     (case simple_escape c of
        Some x \<Rightarrow> thenM (save x) (lex_next rd)
      | None \<Rightarrow>
          if is_newline c then thenM (save 10) (inclinenumber rd)
          else if c = EOZ then retM ()
          else if \<not> c_isdigit c then save_and_next rd
          else bindM (decimal_escape rd 3 0) (\<lambda>x.
                 if x > 255 then luaX_lexerror ''escape sequence too large'' TK_STRING else save x))"

definition read_escape :: "'d reader \<Rightarrow> ('d, unit) lex" where
  "read_escape rd = thenM (lex_next rd) (bindM (getM ls_current) (escaped rd))"

partial_function (option) read_string_loop :: "'d reader \<Rightarrow> int \<Rightarrow> ('d, unit) lex" where
  [code]: "read_string_loop rd del ls =
     bindM (getM ls_current) (\<lambda>c.
       if c = del then retM ()
       else if c = EOZ then luaX_lexerror ''unfinished string'' TK_EOS
       else if is_newline c then luaX_lexerror ''unfinished string'' TK_STRING
       else thenM (if c = 92 then read_escape rd else save_and_next rd) (read_string_loop rd del)) ls"

definition read_string :: "'d reader \<Rightarrow> int \<Rightarrow> ('d, SemInfo) lex" where
  "read_string rd del =
     thenM (save_and_next rd)
     (thenM (read_string_loop rd del)
     (thenM (save_and_next rd)
     (bindM (getM ls_buff) (\<lambda>b.
     bindM (luaX_newstring (take (length b - 2) (drop 1 b))) (\<lambda>s. retM (SemTs s))))))"

subsection \<open>Tokens\<close>

partial_function (option) skip_line :: "'d reader \<Rightarrow> ('d, unit) lex" where
  [code]: "skip_line rd ls =
     bindM (getM ls_current) (\<lambda>c.
       if \<not> is_newline c \<and> c \<noteq> EOZ then thenM (lex_next rd) (skip_line rd) else retM ()) ls"

text \<open>The rest of a comment, after its two dashes.\<close>

definition skip_comment :: "'d reader \<Rightarrow> ('d, unit) lex" where
  "skip_comment rd =
     bindM (getM ls_current) (\<lambda>c.
       if c = 91 then
         bindM (skip_sep rd) (\<lambda>sep.
         thenM resetbuffer
           (if sep \<ge> 0 then thenM (read_long_string rd False sep) resetbuffer else skip_line rd))
       else skip_line rd)"

definition one_or_two :: "'d reader \<Rightarrow> int \<Rightarrow> int \<Rightarrow> ('d, int \<times> SemInfo) lex" where
  "one_or_two rd one two =
     thenM (lex_next rd)
     (bindM (getM ls_current) (\<lambda>c.
       if c \<noteq> 61 then retM (one, SemNone) else thenM (lex_next rd) (retM (two, SemNone))))"

definition reserved_word :: "string \<Rightarrow> int" where
  "reserved_word s =
     (let i = length (takeWhile (\<lambda>w. w \<noteq> s) (take NUM_RESERVED luaX_tokens)) in
      if i < NUM_RESERVED then int i + 1 else 0)"

definition read_name :: "'d reader \<Rightarrow> ('d, int \<times> SemInfo) lex" where
  "read_name rd =
     thenM (save_and_next rd)
     (thenM (save_while rd word_char)
     (bindM (getM ls_buff) (\<lambda>b.
     bindM (luaX_newstring b) (\<lambda>ts.
       if reserved_word ts > 0 then retM (reserved_word ts - 1 + FIRST_RESERVED, SemNone)
       else retM (TK_NAME, SemTs ts)))))"

definition read_dots :: "lex_env \<Rightarrow> 'd reader \<Rightarrow> ('d, int \<times> SemInfo) lex" where
  "read_dots env rd =
     thenM (save_and_next rd)
     (bindM (check_next rd ''.'') (\<lambda>two.
       if two then
         bindM (check_next rd ''.'') (\<lambda>three. retM (if three then TK_DOTS else TK_CONCAT, SemNone))
       else
         bindM (getM ls_current) (\<lambda>c.
           if \<not> c_isdigit c then retM (46, SemNone)
           else bindM (read_numeral env rd) (\<lambda>r. retM (TK_NUMBER, r)))))"

partial_function (option) llex_loop :: "lex_env \<Rightarrow> 'd reader \<Rightarrow> ('d, int \<times> SemInfo) lex" where
  [code]: "llex_loop env rd ls =
     bindM (getM ls_current) (\<lambda>c.
       if is_newline c then thenM (inclinenumber rd) (llex_loop env rd)
       else if c = 45 then
         thenM (lex_next rd)
         (bindM (getM ls_current) (\<lambda>c.
           if c \<noteq> 45 then retM (45, SemNone)
           else thenM (lex_next rd) (thenM (skip_comment rd) (llex_loop env rd))))
       else if c = 91 then
         bindM (skip_sep rd) (\<lambda>sep.
           if sep \<ge> 0 then bindM (read_long_string rd True sep) (\<lambda>s. retM (TK_STRING, s))
           else if sep = - 1 then retM (91, SemNone)
           else luaX_lexerror ''invalid long string delimiter'' TK_STRING)
       else if c = 61 then one_or_two rd 61 TK_EQ
       else if c = 60 then one_or_two rd 60 TK_LE
       else if c = 62 then one_or_two rd 62 TK_GE
       else if c = 126 then one_or_two rd 126 TK_NE
       else if c = 34 \<or> c = 39 then bindM (read_string rd c) (\<lambda>s. retM (TK_STRING, s))
       else if c = 46 then read_dots env rd
       else if c = EOZ then retM (TK_EOS, SemNone)
       else if c_isspace c then thenM (lex_next rd) (llex_loop env rd)
       else if c_isdigit c then bindM (read_numeral env rd) (\<lambda>r. retM (TK_NUMBER, r))
       else if c_isalpha c \<or> c = 95 then read_name rd
       else thenM (lex_next rd) (retM (c, SemNone))) ls"

definition llex :: "lex_env \<Rightarrow> 'd reader \<Rightarrow> ('d, int \<times> SemInfo) lex" where
  "llex env rd = thenM resetbuffer (llex_loop env rd)"

definition luaX_next :: "lex_env \<Rightarrow> 'd reader \<Rightarrow> ('d, unit) lex" where
  "luaX_next env rd =
     thenM (modM (\<lambda>ls. ls\<lparr>ls_lastline := ls_linenumber ls\<rparr>))
     (bindM (getM (\<lambda>ls. token (ls_lookahead ls))) (\<lambda>la.
       if la \<noteq> TK_EOS then
         modM (\<lambda>ls. ls\<lparr>ls_t := ls_lookahead ls, ls_lookahead := (ls_lookahead ls)\<lparr>token := TK_EOS\<rparr>\<rparr>)
       else bindM (llex env rd) (\<lambda>(t, s). modM (\<lambda>ls. ls\<lparr>ls_t := \<lparr>token = t, seminfo = s\<rparr>\<rparr>))))"

definition luaX_lookahead :: "lex_env \<Rightarrow> 'd reader \<Rightarrow> ('d, unit) lex" where
  "luaX_lookahead env rd =
     bindM (llex env rd) (\<lambda>(t, s). modM (\<lambda>ls. ls\<lparr>ls_lookahead := \<lparr>token = t, seminfo = s\<rparr>\<rparr>))"

end
