(* ===== verification/Lexer_Laws.thy ===== *)
theory Lexer_Laws
  imports Lexer
begin

text \<open>
  The lexer is total and memory safe: on every input it returns a token or a syntax error, in
  finitely many steps, without reading the stream past its end or writing outside its buffer,
  and every token but the last consumes input.
\<close>

text \<open>The characters left to the lexer, the current one included, are \<open>cs\<close>.\<close>

definition lex_in :: "'d reader \<Rightarrow> 'd LexState \<Rightarrow> u8 list \<Rightarrow> bool" where
  "lex_in rd ls cs \<longleftrightarrow>
     (case cs of [] \<Rightarrow> ls_current ls = EOZ | b # r \<Rightarrow> ls_current ls = uint b \<and> zio_is rd (ls_z ls) r) \<and>
     0 < ls_buffsize ls \<and> length (ls_buff ls) \<le> ls_buffsize ls"

definition too_big :: nat where "too_big = MAX_SIZET div 2"

lemma uint_not_EOZ: "uint (b :: u8) \<noteq> - 1"
  using uint_ge_0 [of b] by linarith

lemma lex_in_current: "lex_in rd ls cs \<Longrightarrow> ls_current ls = EOZ \<longleftrightarrow> cs = []"
  by (cases cs) (auto simp: lex_in_def EOZ_def uint_not_EOZ)

lemma lex_in_Cons: "lex_in rd ls (b # r) \<Longrightarrow> ls_current ls = uint b"
  by (simp add: lex_in_def)

lemma next_exact:
  assumes "lex_in rd ls (b # r)"
  shows "runs (lex_next rd) ls (\<lambda>_ ls'. lex_in rd ls' r \<and> ls_buff ls' = ls_buff ls \<and>
    ls_linenumber ls' = ls_linenumber ls) E"
proof -
  from assms have "zio_is rd (ls_z ls) r" by (simp add: lex_in_def)
  from zgetc_spec [OF this] obtain z' where
    "zgetc rd (ls_z ls) = Some (if r = [] then EOZ else uint (hd r), z')" "r \<noteq> [] \<longrightarrow> zio_is rd z' (tl r)"
    by blast
  then show ?thesis using assms by (cases r) (auto simp: runs_def lex_next_def lex_in_def)
qed

lemma save_exact:
  assumes "lex_in rd ls cs"
  shows "runs (save c) ls (\<lambda>_ ls'. lex_in rd ls' cs \<and> ls_buff ls' = ls_buff ls @ [char_int c] \<and>
    ls_linenumber ls' = ls_linenumber ls \<and> ls_current ls' = ls_current ls)
    (\<lambda>e. e \<noteq> MemError \<and> too_big \<le> length (ls_buff ls))"
  using assms
  by (auto simp: save_def save_or_def runs_simps lex_error0_def too_big_def lex_in_def split: list.splits)

lemma save_and_next_exact:
  assumes "lex_in rd ls (b # r)"
  shows "runs (save_and_next rd) ls (\<lambda>_ ls'. lex_in rd ls' r \<and> ls_buff ls' = ls_buff ls @ [char_int (uint b)] \<and>
    ls_linenumber ls' = ls_linenumber ls) (\<lambda>e. e \<noteq> MemError \<and> too_big \<le> length (ls_buff ls))"
  unfolding save_and_next_def
proof (intro runs_getI runs_thenI [OF save_exact [OF assms]])
  fix s'
  assume "lex_in rd s' (b # r) \<and> ls_buff s' = ls_buff ls @ [char_int (ls_current ls)] \<and>
    ls_linenumber s' = ls_linenumber ls \<and> ls_current s' = ls_current ls"
  then show "runs (lex_next rd) s' (\<lambda>_ ls'. lex_in rd ls' r \<and> ls_buff ls' = ls_buff ls @ [char_int (uint b)] \<and>
      ls_linenumber ls' = ls_linenumber ls) (\<lambda>e. e \<noteq> MemError \<and> too_big \<le> length (ls_buff ls))"
    using lex_in_Cons [OF assms] by (auto intro!: runs_mono [OF next_exact])
qed

lemma lexerror_runs:
  assumes "lex_in rd ls cs"
  shows "runs (luaX_lexerror msg t) ls Q (\<lambda>e. e \<noteq> MemError)"
proof -
  have "runs (save 0) ls (\<lambda>_ _. True) (\<lambda>e. e \<noteq> MemError)"
    by (rule runs_mono [OF save_exact [OF assms]]) auto
  then show ?thesis
    by (auto simp: luaX_lexerror_def lex_error0_def runs_simps txtToken_def elim: runs_mono)
qed

subsection \<open>Totality\<close>

definition lexes :: "'d reader \<Rightarrow> u8 list \<Rightarrow> nat \<Rightarrow> ('d, 'a) lex \<Rightarrow> 'd LexState \<Rightarrow> bool" where
  "lexes rd cs d m ls \<longleftrightarrow>
     runs m ls (\<lambda>_ ls'. \<exists>cs'. lex_in rd ls' cs' \<and> length cs' + d \<le> length cs) (\<lambda>e. e \<noteq> MemError)"

lemma lexes_get [simp]: "lexes rd cs d (bindM (getM g) f) ls = lexes rd cs d (f (g ls)) ls"
  by (simp add: lexes_def runs_simps)

lemma lexes_ret: "lex_in rd ls cs \<Longrightarrow> lexes rd cs 0 (retM x) ls"
  by (auto simp: lexes_def)

lemma lexes_bind:
  assumes "lexes rd cs d1 m ls"
    and "\<And>x ls' cs'. lex_in rd ls' cs' \<Longrightarrow> length cs' + d1 \<le> length cs \<Longrightarrow> lexes rd cs' (d - d1) (f x) ls'"
  shows "lexes rd cs d (bindM m f) ls"
  unfolding lexes_def runs_simps
  by (rule runs_mono [OF assms(1) [unfolded lexes_def]], elim exE conjE,
      rule runs_mono [OF assms(2) [unfolded lexes_def]]) auto

lemma lexes_then:
  assumes "lexes rd cs d1 m ls"
    and "\<And>ls' cs'. lex_in rd ls' cs' \<Longrightarrow> length cs' + d1 \<le> length cs \<Longrightarrow> lexes rd cs' (d - d1) n ls'"
  shows "lexes rd cs d (thenM m n) ls"
  unfolding thenM_def by (rule lexes_bind [OF assms])

lemma lexes_weaken: "lexes rd cs d m ls \<Longrightarrow> d' \<le> d \<Longrightarrow> lexes rd cs d' m ls"
  unfolding lexes_def by (erule runs_mono) auto

lemma lexes_longer: "lexes rd cs' d' m ls \<Longrightarrow> length cs' + d \<le> length cs + d' \<Longrightarrow> lexes rd cs d m ls"
  unfolding lexes_def by (erule runs_mono) auto

lemma lexes_next:
  assumes "lex_in rd ls cs" "ls_current ls \<noteq> EOZ"
  shows "lexes rd cs 1 (lex_next rd) ls"
proof -
  from assms obtain b r where "cs = b # r" using lex_in_current by (cases cs) auto
  with assms(1) show ?thesis unfolding lexes_def by (auto intro: runs_mono [OF next_exact])
qed

lemma lexes_save: "lex_in rd ls cs \<Longrightarrow> lexes rd cs 0 (save c) ls"
  unfolding lexes_def by (rule runs_mono [OF save_exact]) auto

lemma lexes_save_next:
  assumes "lex_in rd ls cs" "ls_current ls \<noteq> EOZ"
  shows "lexes rd cs 1 (save_and_next rd) ls"
proof -
  from assms obtain b r where "cs = b # r" using lex_in_current by (cases cs) auto
  with assms(1) show ?thesis unfolding lexes_def by (auto intro: runs_mono [OF save_and_next_exact])
qed

lemma lexes_error: "lex_in rd ls cs \<Longrightarrow> lexes rd cs d (luaX_lexerror msg t) ls"
  unfolding lexes_def by (rule lexerror_runs)


lemma lexes_mod:
  "lex_in rd ls cs \<Longrightarrow> (\<And>ls. lex_in rd ls cs \<Longrightarrow> lex_in rd (f ls) cs) \<Longrightarrow> lexes rd cs 0 (modM f) ls"
  by (auto simp: lexes_def)

lemma lexes_newline:
  assumes "lex_in rd ls cs" "ls_current ls \<noteq> EOZ"
  shows "lexes rd cs 1 (inclinenumber rd) ls"
proof -
  have skip: "lexes rd c 0 (if is_newline (ls_current s) \<and> ls_current s \<noteq> old then lex_next rd else retM ()) s"
    if "lex_in rd s c" for s :: "'a LexState" and c old
    using that lexes_weaken [OF lexes_next [OF that], of 0] lexes_ret [OF that]
    by (auto simp: is_newline_def EOZ_def)
  have tail: "lexes rd c 0 (thenM (modM (\<lambda>ls. ls\<lparr>ls_linenumber := ls_linenumber ls + 1\<rparr>))
     (bindM (getM ls_linenumber) (\<lambda>l.
       if l \<ge> L_MAX_INT then luaX_syntaxerror ''chunk has too many lines'' else retM ()))) s"
    if "lex_in rd s c" for s :: "'a LexState" and c
    by (rule lexes_then [OF lexes_mod [OF that]])
      (auto simp: lex_in_def luaX_syntaxerror_def intro!: lexes_error lexes_ret split: list.splits)
  show ?thesis
    unfolding inclinenumber_def lexes_get
    by (rule lexes_then [OF lexes_next [OF assms]], unfold lexes_get)
      (rule lexes_then [OF skip], assumption, simp add: tail)
qed

lemma save_while_eq:
  "save_while rd P = bindM (getM ls_current) (\<lambda>c. if P c then thenM (save_and_next rd) (save_while rd P) else retM ())"
  by (rule ext) (rule save_while.simps)

lemma lexes_save_while:
  assumes "lex_in rd ls cs" "\<not> P EOZ"
  shows "lexes rd cs 0 (save_while rd P) ls"
  using assms(1)
proof (induction "length cs" arbitrary: cs ls rule: less_induct)
  case less
  show ?case
  proof (cases "P (ls_current ls)")
    case True
    then have "ls_current ls \<noteq> EOZ" using assms(2) by auto
    then have "lexes rd cs 0 (thenM (save_and_next rd) (save_while rd P)) ls"
      using less by (intro lexes_then [OF lexes_save_next]) auto
    with True show ?thesis by (subst save_while_eq) simp
  next
    case False
    then show ?thesis by (subst save_while_eq) (simp add: lexes_ret less.prems)
  qed
qed

lemma char_int_EOZ: "char_int EOZ = CHR 0xFF"
  by code_simp

lemma lexes_check_next:
  assumes "lex_in rd ls cs" "CHR 0xFF \<notin> set t"
  shows "lexes rd cs 0 (check_next rd t) ls"
proof (cases "c_strchr t (ls_current ls)")
  case True
  then have "ls_current ls \<noteq> EOZ" using assms(2) by (auto simp: c_strchr_def char_int_EOZ)
  then have "lexes rd cs 0 (thenM (save_and_next rd) (retM True)) ls"
    using assms by (intro lexes_then [OF lexes_save_next] lexes_weaken [OF lexes_ret]) auto
  with True show ?thesis by (simp add: check_next_def)
next
  case False
  then show ?thesis by (simp add: check_next_def lexes_ret assms)
qed

lemma lexes_buffreplace: "lex_in rd ls cs \<Longrightarrow> lexes rd cs 0 (buffreplace a b) ls"
  unfolding buffreplace_def by (rule lexes_mod) (auto simp: lex_in_def split: list.splits)

lemma lexes_trydecpoint:
  assumes "lex_in rd ls cs"
  shows "lexes rd cs 0 (trydecpoint env) ls"
  unfolding trydecpoint_def lexes_get
  by (rule lexes_then [OF lexes_mod [OF assms]], simp add: lex_in_def split: list.splits,
      rule lexes_then [OF lexes_buffreplace], assumption, unfold lexes_get)
    (auto split: option.split intro!: lexes_ret lexes_then [OF lexes_buffreplace] lexes_error)


lemma lexes_bindP:
  assumes "runs m ls (\<lambda>x ls'. \<exists>cs'. lex_in rd ls' cs' \<and> length cs' + d1 \<le> length cs \<and> P x ls') (\<lambda>e. e \<noteq> MemError)"
    and "\<And>x ls' cs'. lex_in rd ls' cs' \<Longrightarrow> length cs' + d1 \<le> length cs \<Longrightarrow> P x ls' \<Longrightarrow> lexes rd cs' (d - d1) (f x) ls'"
  shows "lexes rd cs d (bindM m f) ls"
  unfolding lexes_def runs_simps
  by (rule runs_mono [OF assms(1)], elim exE conjE, rule runs_mono [OF assms(2) [unfolded lexes_def]]) auto

lemma lexes_if: "(b \<Longrightarrow> lexes rd cs d m ls) \<Longrightarrow> (\<not> b \<Longrightarrow> lexes rd cs d n ls) \<Longrightarrow> lexes rd cs d (if b then m else n) ls"
  by simp

lemmas lexes_then0 = lexes_then [where d = 0 and ?d1.0 = 0, simplified]
  and lexes_bind0 = lexes_bind [where d = 0 and ?d1.0 = 0, simplified]

lemma classes_EOZ: "\<not> digits_or_dot EOZ" "\<not> word_char EOZ" "\<not> c_isdigit EOZ" "\<not> is_newline EOZ" "\<not> c_isspace EOZ"
  by (simp_all add: digits_or_dot_def word_char_def c_isalnum_def c_isalpha_def c_isupper_def c_islower_def c_isdigit_def is_newline_def
      c_isspace_def EOZ_def)

lemma lexes_read_numeral:
  assumes "lex_in rd ls cs" "ls_current ls \<noteq> EOZ"
  shows "lexes rd cs 1 (read_numeral env rd) ls"
proof -
  have exp: "lexes rd c 0 (if e then thenM (check_next rd ''+-'') (retM ()) else retM ()) s"
    if "lex_in rd s c" for e c and s :: "'a LexState"
    using that by (cases e) (auto intro!: lexes_ret lexes_then0 [OF lexes_check_next])
  have res: "lexes rd c 0 (case luaO_str2d env b of None \<Rightarrow> trydecpoint env | Some r \<Rightarrow> retM (SemR r)) s"
    if "lex_in rd s c" for b c and s :: "'a LexState"
    using that by (auto split: option.split intro!: lexes_ret lexes_trydecpoint)
  show ?thesis
    unfolding read_numeral_def
    by (rule lexes_then [OF lexes_save_next [OF assms]], simp only: diff_self_eq_0)
      (simp only: lexes_get | rule lexes_then0 lexes_bind0 exp res lexes_save lexes_save_while lexes_check_next
        lexes_buffreplace | assumption | (simp add: classes_EOZ; fail))+
qed

subsection \<open>Strings\<close>

lemma skip_sep_loop_eq:
  "skip_sep_loop rd n = bindM (getM ls_current) (\<lambda>c.
     if c = 61 then thenM (save_and_next rd) (skip_sep_loop rd (n + 1)) else retM n)"
  by (rule ext) (rule skip_sep_loop.simps)

lemma skip_sep_loop_runs:
  assumes "lex_in rd ls cs" "0 \<le> n"
  shows "runs (skip_sep_loop rd n) ls (\<lambda>m ls'. \<exists>cs'. lex_in rd ls' cs' \<and> length cs' \<le> length cs \<and> 0 \<le> m) (\<lambda>e. e \<noteq> MemError)"
  using assms
proof (induction "length cs" arbitrary: cs ls n rule: less_induct)
  case less
  show ?case
  proof (cases "ls_current ls = 61")
    case True
    then obtain b r where cs: "cs = b # r" using lex_in_current [OF less.prems(1)] by (cases cs) (auto simp: EOZ_def)
    note sn = save_and_next_exact [OF less.prems(1) [unfolded cs]]
    have "runs (thenM (save_and_next rd) (skip_sep_loop rd (n + 1))) ls
        (\<lambda>m ls'. \<exists>cs'. lex_in rd ls' cs' \<and> length cs' \<le> length cs \<and> 0 \<le> m) (\<lambda>e. e \<noteq> MemError)"
      by (rule runs_thenI [OF runs_mono [OF sn]], assumption, simp, elim conjE,
          rule runs_mono [OF less.hyps]) (use less.prems cs in auto)
    with True show ?thesis by (subst skip_sep_loop_eq) (simp add: runs_simps)
  next
    case False
    with less.prems show ?thesis by (subst skip_sep_loop_eq) (auto simp: runs_simps)
  qed
qed

lemma skip_sep_runs:
  assumes "lex_in rd ls cs" "ls_current ls \<noteq> EOZ"
  shows "runs (skip_sep rd) ls (\<lambda>m ls'. \<exists>cs'. lex_in rd ls' cs' \<and> length cs' + 1 \<le> length cs \<and>
    (0 \<le> m \<longrightarrow> ls_current ls' \<noteq> EOZ)) (\<lambda>e. e \<noteq> MemError)"
proof -
  from assms obtain b r where cs: "cs = b # r" using lex_in_current by (cases cs) auto
  note sn = save_and_next_exact [OF assms(1) [unfolded cs]]
  show ?thesis
    unfolding skip_sep_def
    by (intro runs_getI, rule runs_thenI [OF runs_mono [OF sn]], assumption, simp, elim conjE,
        rule runs_bindI [OF skip_sep_loop_runs], assumption, simp)
      (use assms(2) cs in \<open>auto simp: runs_simps\<close>)
qed


lemma lexes_reset: "lex_in rd ls cs \<Longrightarrow> lexes rd cs 0 resetbuffer ls"
  unfolding resetbuffer_def by (rule lexes_mod) (auto simp: lex_in_def split: list.splits)

lemma lexes_newstring: "lex_in rd ls cs \<Longrightarrow> lexes rd cs 0 (luaX_newstring s) ls"
  unfolding luaX_newstring_def
  by (rule lexes_then0 [OF lexes_mod]) (auto simp: lex_in_def intro: lexes_ret split: list.splits)

lemma long_string_loop_eq:
  "long_string_loop rd str sep = bindM (getM ls_current) (\<lambda>c.
       if c = EOZ then
         luaX_lexerror (if str then ''unfinished long string'' else ''unfinished long comment'') TK_EOS
       else if c = 91 then
         bindM (skip_sep rd) (\<lambda>n.
           if n = sep then
             thenM (save_and_next rd)
               (if sep = 0 then luaX_lexerror ''nesting of [[...]] is deprecated'' 91
                else long_string_loop rd str sep)
           else long_string_loop rd str sep)
       else if c = 93 then
         bindM (skip_sep rd) (\<lambda>n.
           if n = sep then save_and_next rd else long_string_loop rd str sep)
       else if is_newline c then
         thenM (save 10) (thenM (inclinenumber rd)
           (thenM (if \<not> str then resetbuffer else retM ()) (long_string_loop rd str sep)))
       else thenM (if str then save_and_next rd else lex_next rd) (long_string_loop rd str sep))"
  by (rule ext) (rule long_string_loop.simps)

lemma lexes_same: "lexes rd cs d m ls \<Longrightarrow> lexes rd cs 0 m ls"
  by (erule lexes_weaken) simp

lemma lexes_long_loop:
  assumes "lex_in rd ls cs" "0 \<le> sep"
  shows "lexes rd cs 0 (long_string_loop rd str sep) ls"
  using assms(1)
proof (induction "length cs" arbitrary: cs ls rule: less_induct)
  case less
  note IH = less.hyps
  have again: "lexes rd c 0 (long_string_loop rd str sep) s"
    if "lex_in rd s c" "length c + 1 \<le> length cs" for c s
    using IH [OF _ that(1)] that(2) by simp
  have after: "lexes rd c 0 (if n = sep then thenM (save_and_next rd)
        (if sep = 0 then luaX_lexerror ''nesting of [[...]] is deprecated'' 91 else long_string_loop rd str sep)
      else long_string_loop rd str sep) s"
    if "lex_in rd s c" "length c + 1 \<le> length cs" "0 \<le> n \<longrightarrow> ls_current s \<noteq> EOZ" for c s n
  proof (cases "n = sep")
    case True
    then have "ls_current s \<noteq> EOZ" using that(3) assms(2) by simp
    then show ?thesis using that True
      by (auto intro!: lexes_then [OF lexes_save_next] lexes_error again)
  qed (use that in \<open>auto intro: again\<close>)
  have close: "lexes rd c 0 (if n = sep then save_and_next rd else long_string_loop rd str sep) s"
    if "lex_in rd s c" "length c + 1 \<le> length cs" "0 \<le> n \<longrightarrow> ls_current s \<noteq> EOZ" for c s n
    using that assms(2) by (auto intro: lexes_same [OF lexes_save_next] again)
  show ?case
  proof (cases "ls_current ls = EOZ")
    case True
    then show ?thesis by (subst long_string_loop_eq) (simp add: lexes_error less.prems)
  next
    case False
    note sep = skip_sep_runs [OF less.prems False]
    have nl: "lexes rd cs 0 (thenM (save 10) (thenM (inclinenumber rd)
           (thenM (if \<not> str then resetbuffer else retM ()) (long_string_loop rd str sep)))) ls"
    proof -
      have tail: "lexes rd c 0 (thenM (if \<not> str then resetbuffer else retM ()) (long_string_loop rd str sep)) s"
        if "lex_in rd s c" "length c + 1 \<le> length cs" for c s
        by (rule lexes_then0 [OF lexes_if [OF lexes_reset lexes_ret]]) (use that in \<open>auto intro: again\<close>)
      have "runs (save 10) ls (\<lambda>_ ls'. \<exists>cs'. lex_in rd ls' cs' \<and> length cs' + 0 \<le> length cs \<and>
          ls_current ls' \<noteq> EOZ) (\<lambda>e. e \<noteq> MemError)"
        by (rule runs_mono [OF save_exact [OF less.prems]]) (use False in auto)
      then show ?thesis
        unfolding thenM_def [of "save 10"]
        by - (rule lexes_bindP, assumption, simp only: diff_0_eq_0, rule lexes_then [OF lexes_newline],
            assumption, assumption, simp only: diff_0_eq_0, rule tail, assumption, simp)
    qed
    have ch: "lexes rd cs 0 (thenM (if str then save_and_next rd else lex_next rd) (long_string_loop rd str sep)) ls"
      by (rule lexes_then [OF lexes_if [OF lexes_save_next [OF less.prems False] lexes_next [OF less.prems False]]])
        (auto intro: again)
    have opn: "lexes rd cs 0 (bindM (skip_sep rd) (\<lambda>n. if n = sep then thenM (save_and_next rd)
        (if sep = 0 then luaX_lexerror ''nesting of [[...]] is deprecated'' 91 else long_string_loop rd str sep)
      else long_string_loop rd str sep)) ls"
      by (rule lexes_bindP [OF sep], simp only: diff_0_eq_0) (rule after)
    have cls: "lexes rd cs 0 (bindM (skip_sep rd) (\<lambda>n.
        if n = sep then save_and_next rd else long_string_loop rd str sep)) ls"
      by (rule lexes_bindP [OF sep], simp only: diff_0_eq_0) (rule close)
    show ?thesis
      by (subst long_string_loop_eq) (simp only: lexes_get, intro lexes_if opn cls nl ch, simp add: False)
  qed
qed

lemma lexes_long_string:
  assumes "lex_in rd ls cs" "ls_current ls \<noteq> EOZ" "0 \<le> sep"
  shows "lexes rd cs 1 (read_long_string rd str sep) ls"
proof -
  have nl: "lexes rd c 0 (if is_newline (ls_current s) then inclinenumber rd else retM ()) s"
    if "lex_in rd s c" for c and s :: "'a LexState"
    using that by (auto intro!: lexes_ret lexes_same [OF lexes_newline] simp: is_newline_def EOZ_def)
  have fin: "lexes rd c 0 (if str then
          bindM (getM ls_buff) (\<lambda>b.
          bindM (luaX_newstring (take (length b - 2 * (2 + nat sep)) (drop (2 + nat sep) b))) (\<lambda>s. retM (SemTs s)))
        else retM SemNone) s"
    if "lex_in rd s c" for c and s :: "'a LexState"
    using that by (auto intro!: lexes_ret lexes_bind0 [OF lexes_newstring])
  show ?thesis
    unfolding read_long_string_def
    by (rule lexes_then [OF lexes_save_next [OF assms(1,2)]], simp only: diff_self_eq_0)
      (simp only: lexes_get | rule lexes_then0 nl fin lexes_long_loop assms(3) | assumption)+
qed

lemma lexes_decimal:
  "lex_in rd ls cs \<Longrightarrow> lexes rd cs 0 (decimal_escape rd n c) ls"
proof (induction n arbitrary: ls cs c)
  case 0
  then show ?case by (simp add: lexes_ret)
next
  case (Suc n)
  show ?case
  proof (cases "c_isdigit (ls_current ls)")
    case True
    then have "ls_current ls \<noteq> EOZ" using classes_EOZ by auto
    then have "lexes rd cs 0 (thenM (lex_next rd) (decimal_escape rd n (10 * c + (ls_current ls - 48)))) ls"
      using Suc by (auto intro!: lexes_then [OF lexes_next])
    with True show ?thesis by simp
  qed (simp add: lexes_ret Suc.prems)
qed

lemma lexes_escape:
  assumes "lex_in rd ls cs" "ls_current ls \<noteq> EOZ"
  shows "lexes rd cs 1 (read_escape rd) ls"
proof -
  have nl: "lexes rd c 0 (thenM (save x) m) s"
    if "lex_in rd s c" "ls_current s \<noteq> EOZ" "m = inclinenumber rd \<or> m = lex_next rd" for c x m and s :: "'a LexState"
  proof -
    have "runs (save x) s (\<lambda>_ ls'. \<exists>cs'. lex_in rd ls' cs' \<and> length cs' + 0 \<le> length c \<and>
          ls_current ls' \<noteq> EOZ) (\<lambda>e. e \<noteq> MemError)"
      by (rule runs_mono [OF save_exact [OF that(1)]]) (use that(2) in auto)
    from lexes_bindP [OF this, of 0 "\<lambda>_. m"] show ?thesis
      unfolding thenM_def using that(3)
      by (auto intro!: lexes_same [OF lexes_newline] lexes_same [OF lexes_next])
  qed
  have dec: "lexes rd c 0 (bindM (decimal_escape rd 3 0) (\<lambda>x.
      if x > 255 then luaX_lexerror ''escape sequence too large'' TK_STRING else save x)) s"
    if "lex_in rd s c" for c and s :: "'a LexState"
    using that by (auto intro!: lexes_bind0 [OF lexes_decimal] lexes_error lexes_save)
  have simple: "simple_escape c = Some x \<Longrightarrow> c \<noteq> EOZ" for c x
    by (auto simp: simple_escape_def EOZ_def split: if_splits)
  show ?thesis
    unfolding read_escape_def escaped_def
    by (rule lexes_then [OF lexes_next [OF assms]], simp only: diff_self_eq_0 lexes_get)
      (auto split: option.split dest: simple intro!: nl dec lexes_ret lexes_same [OF lexes_save_next] simp: is_newline_def EOZ_def)
qed


lemma read_string_loop_eq:
  "read_string_loop rd del = bindM (getM ls_current) (\<lambda>c.
       if c = del then retM ()
       else if c = EOZ then luaX_lexerror ''unfinished string'' TK_EOS
       else if is_newline c then luaX_lexerror ''unfinished string'' TK_STRING
       else thenM (if c = 92 then read_escape rd else save_and_next rd) (read_string_loop rd del))"
  by (rule ext) (rule read_string_loop.simps)

text \<open>The loop stops on the delimiter.\<close>

lemma string_loop_runs:
  assumes "lex_in rd ls cs"
  shows "runs (read_string_loop rd del) ls (\<lambda>_ ls'. \<exists>cs'. lex_in rd ls' cs' \<and> length cs' + 0 \<le> length cs \<and>
    ls_current ls' = del) (\<lambda>e. e \<noteq> MemError)"
  using assms
proof (induction "length cs" arbitrary: cs ls rule: less_induct)
  case less
  consider "ls_current ls = del" | "ls_current ls \<noteq> del" "ls_current ls = EOZ \<or> is_newline (ls_current ls)"
    | "ls_current ls \<noteq> del" "ls_current ls \<noteq> EOZ" "\<not> is_newline (ls_current ls)" by blast
  then show ?case
  proof cases
    case 1
    with less.prems show ?thesis by (subst read_string_loop_eq) (auto simp: runs_simps)
  next
    case 2
    with less.prems show ?thesis
      by (subst read_string_loop_eq) (auto simp: runs_simps intro: lexerror_runs)
  next
    case 3
    define m where "m = (if ls_current ls = 92 then read_escape rd else save_and_next rd)"
    have m: "lexes rd cs 1 m ls"
      using lexes_escape [OF less.prems 3(2)] lexes_save_next [OF less.prems 3(2)] by (simp add: m_def)
    have "runs (thenM m (read_string_loop rd del)) ls (\<lambda>_ ls'. \<exists>cs'. lex_in rd ls' cs' \<and>
        length cs' + 0 \<le> length cs \<and> ls_current ls' = del) (\<lambda>e. e \<noteq> MemError)"
    proof (rule runs_thenI [OF m [unfolded lexes_def]])
      fix x s'
      assume "\<exists>cs'. lex_in rd s' cs' \<and> length cs' + 1 \<le> length cs"
      then obtain c where "lex_in rd s' c" "length c < length cs" by auto
      then show "runs (read_string_loop rd del) s' (\<lambda>_ ls'. \<exists>cs'. lex_in rd ls' cs' \<and>
          length cs' + 0 \<le> length cs \<and> ls_current ls' = del) (\<lambda>e. e \<noteq> MemError)"
        by (intro runs_mono [OF less.hyps [of c s']]) (auto intro: exI less_imp_le order_trans)
    qed
    with 3 show ?thesis unfolding m_def by (subst read_string_loop_eq) (auto simp: runs_simps)
  qed
qed

lemma lexes_read_string:
  assumes "lex_in rd ls cs" "ls_current ls \<noteq> EOZ"
  shows "lexes rd cs 1 (read_string rd (ls_current ls)) ls"
proof -
  have fin: "lexes rd c 0 (thenM (save_and_next rd)
     (bindM (getM ls_buff) (\<lambda>b.
     bindM (luaX_newstring (take (length b - 2) (drop 1 b))) (\<lambda>s. retM (SemTs s))))) s"
    if "lex_in rd s c" "ls_current s = ls_current ls" for c s
    by (rule lexes_then [OF lexes_save_next]) (use that assms(2) in \<open>auto intro!: lexes_bind0 [OF lexes_newstring] lexes_ret\<close>)
  have "lexes rd c 0 (thenM (read_string_loop rd (ls_current ls)) (thenM (save_and_next rd)
     (bindM (getM ls_buff) (\<lambda>b.
     bindM (luaX_newstring (take (length b - 2) (drop 1 b))) (\<lambda>s. retM (SemTs s)))))) s"
    if "lex_in rd s c" for c s
    unfolding thenM_def [of "read_string_loop rd (ls_current ls)"]
    by (rule lexes_bindP [OF string_loop_runs [OF that]], simp only: diff_0_eq_0) (rule fin)
  then show ?thesis
    unfolding read_string_def by (auto intro!: lexes_then [OF lexes_save_next [OF assms]])
qed

subsection \<open>Tokens\<close>

lemma skip_line_eq:
  "skip_line rd = bindM (getM ls_current) (\<lambda>c.
     if \<not> is_newline c \<and> c \<noteq> EOZ then thenM (lex_next rd) (skip_line rd) else retM ())"
  by (rule ext) (rule skip_line.simps)

lemma lexes_skip_line:
  assumes "lex_in rd ls cs"
  shows "lexes rd cs 0 (skip_line rd) ls"
  using assms
proof (induction "length cs" arbitrary: cs ls rule: less_induct)
  case less
  show ?case
  proof (cases "\<not> is_newline (ls_current ls) \<and> ls_current ls \<noteq> EOZ")
    case True
    then have "lexes rd cs 0 (thenM (lex_next rd) (skip_line rd)) ls"
      using less by (intro lexes_then [OF lexes_next]) auto
    with True show ?thesis by (subst skip_line_eq) simp
  next
    case False
    then show ?thesis by (subst skip_line_eq) (simp only: lexes_get if_not_P, simp add: lexes_ret less.prems)
  qed
qed

lemma lexes_skip_comment:
  assumes "lex_in rd ls cs"
  shows "lexes rd cs 0 (skip_comment rd) ls"
proof (cases "ls_current ls = 91")
  case True
  then have ne: "ls_current ls \<noteq> EOZ" by (simp add: EOZ_def)
  have rs: "runs resetbuffer s (\<lambda>_ ls'. \<exists>cs'. lex_in rd ls' cs' \<and> length cs' + 0 \<le> length c \<and>
      ls_current ls' = ls_current s) (\<lambda>e. e \<noteq> MemError)" if "lex_in rd s c" for c and s :: "'a LexState"
    using that by (auto simp: resetbuffer_def lex_in_def split: list.splits intro!: exI [of _ c])
  have after: "lexes rd c 0 (thenM resetbuffer
           (if sep \<ge> 0 then thenM (read_long_string rd False sep) resetbuffer else skip_line rd)) s"
    if "lex_in rd s c" "0 \<le> sep \<longrightarrow> ls_current s \<noteq> EOZ" for c s sep
    unfolding thenM_def [of resetbuffer]
    by (rule lexes_bindP [OF rs [OF that(1)]])
      (use that(2) in \<open>auto intro!: lexes_skip_line lexes_then [OF lexes_long_string] lexes_reset\<close>)
  have "lexes rd cs 0 (bindM (skip_sep rd) (\<lambda>sep. thenM resetbuffer
           (if sep \<ge> 0 then thenM (read_long_string rd False sep) resetbuffer else skip_line rd))) ls"
    by (rule lexes_bindP [OF skip_sep_runs [OF assms ne]], simp only: diff_0_eq_0) (rule after)
  with True show ?thesis by (simp add: skip_comment_def)
next
  case False
  then show ?thesis by (simp add: skip_comment_def lexes_skip_line assms)
qed


text \<open>A token: consumed input, or the end of the input.\<close>

definition tokens :: "'d reader \<Rightarrow> u8 list \<Rightarrow> ('d, int \<times> SemInfo) lex \<Rightarrow> 'd LexState \<Rightarrow> bool" where
  "tokens rd cs m ls \<longleftrightarrow>
     runs m ls (\<lambda>(t, s) ls'. \<exists>cs'. lex_in rd ls' cs' \<and>
       (if t = TK_EOS then cs' = [] else length cs' < length cs)) (\<lambda>e. e \<noteq> MemError)"

lemma tokens_get [simp]: "tokens rd cs (bindM (getM g) f) ls = tokens rd cs (f (g ls)) ls"
  by (simp add: tokens_def runs_simps)

lemma tokens_bind:
  assumes "lexes rd cs d m ls"
    and "\<And>x ls' cs'. lex_in rd ls' cs' \<Longrightarrow> length cs' + d \<le> length cs \<Longrightarrow> tokens rd cs (f x) ls'"
  shows "tokens rd cs (bindM m f) ls"
  unfolding tokens_def runs_simps
  by (rule runs_mono [OF assms(1) [unfolded lexes_def]], elim exE conjE,
      rule assms(2) [unfolded tokens_def]) auto

lemma tokens_then:
  assumes "lexes rd cs d m ls"
    and "\<And>ls' cs'. lex_in rd ls' cs' \<Longrightarrow> length cs' + d \<le> length cs \<Longrightarrow> tokens rd cs n ls'"
  shows "tokens rd cs (thenM m n) ls"
  unfolding thenM_def by (rule tokens_bind [OF assms])

lemma tokens_ret: "lex_in rd ls cs' \<Longrightarrow> length cs' + 1 \<le> length cs \<Longrightarrow> t \<noteq> TK_EOS \<Longrightarrow> tokens rd cs (retM (t, s)) ls"
  by (auto simp: tokens_def)

lemma tokens_error: "lex_in rd ls c \<Longrightarrow> tokens rd cs (luaX_lexerror msg t) ls"
  unfolding tokens_def by (rule lexerror_runs)

lemma tokens_shorter: "tokens rd cs' m ls \<Longrightarrow> length cs' \<le> length cs \<Longrightarrow> tokens rd cs m ls"
  unfolding tokens_def by (erule runs_mono) (auto split: if_splits prod.splits, fastforce)

lemmas token_codes = TK_CONCAT_def TK_DOTS_def TK_EQ_def TK_GE_def TK_LE_def TK_NE_def TK_NUMBER_def
  TK_NAME_def TK_STRING_def TK_EOS_def FIRST_RESERVED_def

lemma tokens_one_or_two:
  assumes "lex_in rd ls cs" "ls_current ls \<noteq> EOZ" "one \<noteq> TK_EOS" "two \<noteq> TK_EOS"
  shows "tokens rd cs (one_or_two rd one two) ls"
proof -
  have "tokens rd cs (if ls_current s \<noteq> 61 then retM (one, SemNone) else thenM (lex_next rd) (retM (two, SemNone))) s"
    if "lex_in rd s c" "length c + 1 \<le> length cs" for s :: "'a LexState" and c
    using that assms
    by (auto simp: EOZ_def intro!: tokens_ret tokens_then [OF lexes_longer [OF lexes_next [OF that(1)], where cs = cs and d = 1]])
  then show ?thesis
    unfolding one_or_two_def by (intro tokens_then [OF lexes_next [OF assms(1,2)]]) simp
qed

lemma reserved_bound: "reserved_word s \<le> 21"
  by (auto simp: reserved_word_def Let_def NUM_RESERVED_def)

lemma tokens_name:
  assumes "lex_in rd ls cs" "ls_current ls \<noteq> EOZ"
  shows "tokens rd cs (read_name rd) ls"
proof -
  have fin: "tokens rd cs (if reserved_word w > 0 then retM (reserved_word w - 1 + FIRST_RESERVED, SemNone)
       else retM (TK_NAME, SemTs w)) s"
    if "lex_in rd s c" "length c + 1 \<le> length cs" for s :: "'a LexState" and c w
    using that reserved_bound [of w] by (auto intro!: tokens_ret simp: token_codes)
  have ns: "tokens rd cs (bindM (luaX_newstring b) (\<lambda>ts.
       if reserved_word ts > 0 then retM (reserved_word ts - 1 + FIRST_RESERVED, SemNone)
       else retM (TK_NAME, SemTs ts))) s"
    if "lex_in rd s c" "length c + 1 \<le> length cs" for s :: "'a LexState" and c b
    by (rule tokens_bind [OF lexes_longer [OF lexes_newstring [OF that(1)], where cs = cs and d = 1]])
      (use that(2) in simp, rule fin)
  have sw: "lexes rd cs 1 (save_while rd word_char) s"
    if "lex_in rd s c" "length c + 1 \<le> length cs" for s :: "'a LexState" and c
    by (rule lexes_longer [OF lexes_save_while [OF that(1)]]) (use that(2) in \<open>simp_all add: classes_EOZ\<close>)
  show ?thesis
    unfolding read_name_def
    by (rule tokens_then [OF lexes_save_next [OF assms]], rule tokens_then [OF sw], assumption, assumption,
        simp only: tokens_get, rule ns)
qed

lemma tokens_dots:
  assumes "lex_in rd ls cs" "ls_current ls \<noteq> EOZ"
  shows "tokens rd cs (read_dots env rd) ls"
proof -
  have ck: "lexes rd cs 1 (check_next rd ''.'') s"
    if "lex_in rd s c" "length c + 1 \<le> length cs" for s :: "'a LexState" and c
    by (rule lexes_longer [OF lexes_check_next [OF that(1)]]) (use that(2) in simp_all)
  have num: "tokens rd cs (bindM (read_numeral env rd) (\<lambda>r. retM (TK_NUMBER, r))) s"
    if "lex_in rd s c" "length c + 1 \<le> length cs" "ls_current s \<noteq> EOZ" for s :: "'a LexState" and c
    by (rule tokens_bind [OF lexes_longer [OF lexes_read_numeral [OF that(1,3)], where cs = cs and d = 1]])
      (use that(2) in \<open>auto intro: tokens_ret simp: token_codes\<close>)
  have one: "tokens rd cs (bindM (getM ls_current) (\<lambda>c. if \<not> c_isdigit c then retM (46, SemNone)
           else bindM (read_numeral env rd) (\<lambda>r. retM (TK_NUMBER, r)))) s"
    if "lex_in rd s c" "length c + 1 \<le> length cs" for s :: "'a LexState" and c
  proof (cases "c_isdigit (ls_current s)")
    case True
    then have "ls_current s \<noteq> EOZ" using classes_EOZ(3) by auto
    with num [OF that] True show ?thesis by simp
  qed (use that in \<open>auto intro!: tokens_ret simp: token_codes\<close>)
  have two: "tokens rd cs (bindM (check_next rd ''.'') (\<lambda>three. retM (if three then TK_DOTS else TK_CONCAT, SemNone))) s"
    if "lex_in rd s c" "length c + 1 \<le> length cs" for s :: "'a LexState" and c
    by (rule tokens_bind [OF ck [OF that]]) (auto intro: tokens_ret simp: token_codes)
  have all: "tokens rd cs (if t then bindM (check_next rd ''.'') (\<lambda>three. retM (if three then TK_DOTS else TK_CONCAT, SemNone))
      else bindM (getM ls_current) (\<lambda>c. if \<not> c_isdigit c then retM (46, SemNone)
           else bindM (read_numeral env rd) (\<lambda>r. retM (TK_NUMBER, r)))) s"
    if "lex_in rd s c" "length c + 1 \<le> length cs" for t and s :: "'a LexState" and c
    using one [OF that] two [OF that] by (cases t) simp_all
  show ?thesis
    unfolding read_dots_def
    by (rule tokens_then [OF lexes_save_next [OF assms]], rule tokens_bind [OF ck], assumption, assumption, rule all)
qed

lemma llex_loop_eq:
  "llex_loop env rd = bindM (getM ls_current) (\<lambda>c.
       if is_newline c then thenM (inclinenumber rd) (llex_loop env rd)
       else if c = 45 then
         thenM (lex_next rd)
         (bindM (getM ls_current) (\<lambda>c.
           if c \<noteq> 45 then retM (45, SemNone)
           else thenM (lex_next rd) (thenM (skip_comment rd) (llex_loop env rd))))
       else if c = 91 then
         bindM (skip_sep rd) (\<lambda>sep.
           if sep \<ge> 0 then bindM (read_long_string rd True sep) (\<lambda>s. retM (TK_STRING, s))
           else if sep = - 1 then retM (91, SemNone)
           else luaX_lexerror ''invalid long string delimiter'' TK_STRING)
       else if c = 61 then one_or_two rd 61 TK_EQ
       else if c = 60 then one_or_two rd 60 TK_LE
       else if c = 62 then one_or_two rd 62 TK_GE
       else if c = 126 then one_or_two rd 126 TK_NE
       else if c = 34 \<or> c = 39 then bindM (read_string rd c) (\<lambda>s. retM (TK_STRING, s))
       else if c = 46 then read_dots env rd
       else if c = EOZ then retM (TK_EOS, SemNone)
       else if c_isspace c then thenM (lex_next rd) (llex_loop env rd)
       else if c_isdigit c then bindM (read_numeral env rd) (\<lambda>r. retM (TK_NUMBER, r))
       else if c_isalpha c \<or> c = 95 then read_name rd
       else thenM (lex_next rd) (retM (c, SemNone)))"
  by (rule ext) (rule llex_loop.simps)

lemma tokens_if: "(b \<Longrightarrow> tokens rd cs m ls) \<Longrightarrow> (\<not> b \<Longrightarrow> tokens rd cs n ls) \<Longrightarrow> tokens rd cs (if b then m else n) ls"
  by simp

lemma tokens_bindP:
  assumes "runs m ls (\<lambda>x ls'. \<exists>cs'. lex_in rd ls' cs' \<and> length cs' + d \<le> length cs \<and> P x ls') (\<lambda>e. e \<noteq> MemError)"
    and "\<And>x ls' cs'. lex_in rd ls' cs' \<Longrightarrow> length cs' + d \<le> length cs \<Longrightarrow> P x ls' \<Longrightarrow> tokens rd cs (f x) ls'"
  shows "tokens rd cs (bindM m f) ls"
  unfolding tokens_def runs_simps
  by (rule runs_mono [OF assms(1)], elim exE conjE, rule assms(2) [unfolded tokens_def]) auto

lemma uint8_not_EOS: "lex_in rd ls (b # r) \<Longrightarrow> ls_current ls \<noteq> TK_EOS"
  using uint_bounded [of b] by (auto simp: lex_in_def TK_EOS_def)

lemma tokens_llex_loop:
  assumes "lex_in rd ls cs"
  shows "tokens rd cs (llex_loop env rd) ls"
  using assms
proof (induction "length cs" arbitrary: cs ls rule: less_induct)
  case less
  have again: "tokens rd cs (llex_loop env rd) s" if "lex_in rd s c" "length c + 1 \<le> length cs" for s c
    using tokens_shorter [OF less.hyps [OF _ that(1)]] that(2) by simp
  show ?case
  proof (cases "ls_current ls = EOZ")
    case True
    then have "cs = []" using lex_in_current [OF less.prems] by simp
    then have "tokens rd cs (retM (TK_EOS, SemNone)) ls" using less.prems by (auto simp: tokens_def)
    then show ?thesis
      using True by (subst llex_loop_eq) (simp add: EOZ_def is_newline_def)
  next
    case False
    note ne = less.prems False
    have cur: "ls_current ls \<noteq> TK_EOS"
      using uint8_not_EOS less.prems lex_in_current [OF less.prems] False by (cases cs) auto
    have dash: "tokens rd cs (if ls_current s \<noteq> 45 then retM (45, SemNone)
        else thenM (lex_next rd) (thenM (skip_comment rd) (llex_loop env rd))) s"
      if s: "lex_in rd s c" "length c + 1 \<le> length cs" for s c
    proof (rule tokens_if)
      assume "\<not> ls_current s \<noteq> 45"
      then have e: "ls_current s \<noteq> EOZ" by (simp add: EOZ_def)
      show "tokens rd cs (thenM (lex_next rd) (thenM (skip_comment rd) (llex_loop env rd))) s"
        by (rule tokens_then [OF lexes_longer [OF lexes_next [OF s(1) e], where cs = cs and d = 1]],
            use s(2) in simp, rule tokens_then [OF lexes_longer [OF lexes_skip_comment, where cs = cs and d = 1]],
            assumption, simp, rule again)
    qed (use s in \<open>auto intro: tokens_ret simp: token_codes\<close>)
    have brk: "tokens rd cs (if sep \<ge> 0 then bindM (read_long_string rd True sep) (\<lambda>s. retM (TK_STRING, s))
           else if sep = - 1 then retM (91, SemNone)
           else luaX_lexerror ''invalid long string delimiter'' TK_STRING) s"
      if s: "lex_in rd s c" "length c + 1 \<le> length cs" "0 \<le> sep \<longrightarrow> ls_current s \<noteq> EOZ" for s c sep
    proof (rule tokens_if)
      assume sep: "0 \<le> sep"
      with s(3) have e: "ls_current s \<noteq> EOZ" by simp
      show "tokens rd cs (bindM (read_long_string rd True sep) (\<lambda>s. retM (TK_STRING, s))) s"
        by (rule tokens_bind [OF lexes_longer [OF lexes_long_string [OF s(1) e sep], where cs = cs and d = 1]])
          (use s(2) in \<open>auto intro: tokens_ret simp: token_codes\<close>)
    qed (use s in \<open>auto intro!: tokens_ret tokens_error simp: token_codes\<close>)
    have sk: "tokens rd cs (bindM (skip_sep rd) (\<lambda>sep.
           if sep \<ge> 0 then bindM (read_long_string rd True sep) (\<lambda>s. retM (TK_STRING, s))
           else if sep = - 1 then retM (91, SemNone)
           else luaX_lexerror ''invalid long string delimiter'' TK_STRING)) ls"
      by (rule tokens_bindP [OF skip_sep_runs [OF ne]]) (rule brk)
    have str: "tokens rd cs (bindM (read_string rd (ls_current ls)) (\<lambda>s. retM (TK_STRING, s))) ls"
      by (rule tokens_bind [OF lexes_read_string [OF ne]]) (auto intro: tokens_ret simp: token_codes)
    have num: "tokens rd cs (bindM (read_numeral env rd) (\<lambda>r. retM (TK_NUMBER, r))) ls"
      by (rule tokens_bind [OF lexes_read_numeral [OF ne]]) (auto intro: tokens_ret simp: token_codes)
    have single: "tokens rd cs (thenM (lex_next rd) (retM (ls_current ls, SemNone))) ls"
      by (rule tokens_then [OF lexes_next [OF ne]]) (use cur in \<open>auto intro: tokens_ret\<close>)
    show ?thesis
      by (subst llex_loop_eq) (simp only: tokens_get, intro tokens_if tokens_then [OF lexes_newline [OF ne]]
          tokens_then [OF lexes_next [OF ne]] single sk str num tokens_dots tokens_name tokens_one_or_two ne,
          (assumption | simp only: tokens_get False | rule again dash | (simp add: token_codes; fail))+)
  qed
qed

end
