(* ===== verification/Lexer_Runs.thy ===== *)
theory Lexer_Runs
  imports Lexer_Laws Dump
begin

text \<open>
  Properties of the lexer: totality, and the round trip through the quoting of
  \<^verbatim>\<open>string.format ("%q")\<close> (\<^verbatim>\<open>addquoted\<close> in \<^verbatim>\<open>lstrlib.c\<close>), which is meant to produce text that
  the lexer reads back.
\<close>

lemma runs_total: "runs m s Q E \<longleftrightarrow>
  (\<exists>r. m s = Some r \<and> (case r of Inl e \<Rightarrow> E e | Inr (x, s') \<Rightarrow> Q x s'))"
  by (auto simp: runs_def split: option.splits)

lemma llex_tokens: "lex_in rd ls cs \<Longrightarrow> tokens rd cs (llex env rd) ls"
  unfolding llex_def
  by (rule tokens_then [OF lexes_reset], assumption, rule tokens_shorter [OF tokens_llex_loop]) auto

text \<open>
  C29: the lexer is total and memory safe: on every input it returns, in finitely many steps, a
  token or a syntax error, never touching memory outside the stream's blocks or its buffer;
  each token consumes input, except that at the end of the input the token is \<^verbatim>\<open>TK_EOS\<close>.\<close>

theorem lexer_total:
  assumes "lex_in rd ls cs"
  shows "\<exists>r. llex env rd ls = Some r \<and>
    (case r of
       Inl e \<Rightarrow> e \<noteq> MemError
     | Inr ((t, s), ls') \<Rightarrow>
         \<exists>cs'. lex_in rd ls' cs' \<and> (if t = TK_EOS then cs' = [] else length cs' < length cs))"
proof -
  from llex_tokens [OF assms, of env] obtain r where "llex env rd ls = Some r"
    "case r of Inl e \<Rightarrow> e \<noteq> MemError
     | Inr (x, ls') \<Rightarrow> (case x of (t, s) \<Rightarrow> \<lambda>ls'. \<exists>cs'. lex_in rd ls' cs' \<and>
          (if t = TK_EOS then cs' = [] else length cs' < length cs)) ls'"
    unfolding tokens_def runs_total by blast
  then show ?thesis by (intro exI [of _ r]) (cases r; simp split: prod.splits split del: if_split)
qed

text \<open>Setting the input leaves its bytes to be read.\<close>

lemma setinput_in:
  assumes "feeds rd d cs"
  shows "runs (luaX_setinput rd (luaZ_init d)) ls
    (\<lambda>_ ls'. ls_linenumber ls' = 1 \<and> (ls_buff ls = [] \<longrightarrow> lex_in rd ls' cs)) (\<lambda>_. False)"
proof -
  from zgetc_spec [OF zio_is_init [OF assms]] obtain z' where
    "zgetc rd (luaZ_init d) = Some (if cs = [] then EOZ else uint (hd cs), z')" "cs \<noteq> [] \<longrightarrow> zio_is rd z' (tl cs)"
    by blast
  then show ?thesis
    by (cases cs) (auto simp: luaX_setinput_def gen_defs lex_next_def runs_def lex_in_def LUA_MINBUFFER_def)
qed

definition lex_start :: "u8 list \<Rightarrow> u8 list list LexState" where
  "lex_start bs = \<lparr>ls_current = uint (hd bs), ls_linenumber = 1, ls_lastline = 1,
     ls_t = \<lparr>token = TK_EOS, seminfo = SemNone\<rparr>, ls_lookahead = \<lparr>token = TK_EOS, seminfo = SemNone\<rparr>,
     ls_z = \<lparr>z_n = of_nat (length bs - 1), z_blk = bs, z_p = 1, z_data = []\<rparr>, ls_buff = [], ls_buffsize = 32,
     ls_h = [], ls_decpoint = 46\<rparr>"

lemma lex_start_in: "bs \<noteq> [] \<Longrightarrow> length bs < 2 ^ 63 \<Longrightarrow> lex_in block_reader (lex_start bs) bs"
  by (cases bs) (auto simp: lex_in_def lex_start_def zio_is_def block_reader_def unat_of_nat_len feeds.eof)

definition c_env :: lex_env where
  "c_env = \<lparr>strtod = (\<lambda>s. let d = takeWhile (\<lambda>c. c_isdigit (ch c)) s in
       (cast_num (foldl (\<lambda>n c. 10 * n + (ch c - 48)) 0 d), length d)),
     strtoul16 = (\<lambda>s. (0, 0)), decimal_point = 46\<rparr>"

theorem lexer_total_witness:
  "\<exists>r. llex c_env block_reader (lex_start (str_bytes ''x = 12'')) = Some r"
proof -
  have "lex_in block_reader (lex_start (str_bytes ''x = 12'')) (str_bytes ''x = 12'')"
    by (rule lex_start_in) (simp_all add: str_bytes_def)
  from lexer_total [OF this, of c_env] show ?thesis by blast
qed

subsection \<open>Quoted strings\<close>

definition quote_char :: "char \<Rightarrow> string" where
  "quote_char c =
     (if c \<in> {CHR 0x22, CHR 0x5C, CHR 0x0A} then [CHR 0x5C, c]
      else if c = CHR 0x0D then [CHR 0x5C, CHR 0x72]
      else if c = CHR 0x00 then [CHR 0x5C, CHR 0x30, CHR 0x30, CHR 0x30]
      else [c])"

definition addquoted :: "string \<Rightarrow> string" where
  "addquoted s = CHR 0x22 # concat (map quote_char s) @ [CHR 0x22]"

definition byte_of :: "char \<Rightarrow> u8" where
  "byte_of c = of_nat (of_char c)"

lemma str_bytes_byte_of: "str_bytes s = map byte_of s"
  by (simp add: str_bytes_def byte_of_def)

lemma uint_byte_of: "uint (byte_of c) = int (of_char c)"
proof -
  have "of_char c mod (256 :: nat) = of_char c" by (rule of_char_mod_256)
  then show ?thesis by (simp add: byte_of_def uint_nat unat_of_nat take_bit_eq_mod)
qed

lemma char_int_byte: "char_int (uint (byte_of c)) = c"
proof -
  have "of_char c mod (256 :: nat) = of_char c" by (rule of_char_mod_256)
  then have "nat (int (of_char c) mod 256) = of_char c" by (simp add: nat_mod_distrib)
  then show ?thesis by (simp add: char_int_def uint_byte_of)
qed

lemma uint_byte_of_eq: "uint (byte_of c) = n \<longleftrightarrow> 0 \<le> n \<and> n < 256 \<and> c = char_of (nat n)"
proof
  assume "uint (byte_of c) = n"
  moreover have "of_char c < (256 :: nat)" by simp
  ultimately show "0 \<le> n \<and> n < 256 \<and> c = char_of (nat n)" by (auto simp: uint_byte_of)
next
  assume "0 \<le> n \<and> n < 256 \<and> c = char_of (nat n)"
  then show "uint (byte_of c) = n" by (auto simp: uint_byte_of zmod_int)
qed

text \<open>Steps that cannot fail while the buffer has room.\<close>

definition at_input :: "'d reader \<Rightarrow> 'd LexState \<Rightarrow> u8 list \<Rightarrow> string \<Rightarrow> int \<Rightarrow> bool" where
  "at_input rd ls cs buf line \<longleftrightarrow> lex_in rd ls cs \<and> ls_buff ls = buf \<and> ls_linenumber ls = line"

lemma at_save:
  "at_input rd ls cs buf line \<Longrightarrow> length buf < too_big \<Longrightarrow>
   runs (save c) ls (\<lambda>_ ls'. at_input rd ls' cs (buf @ [char_int c]) line \<and> ls_current ls' = ls_current ls) E"
  unfolding at_input_def by (elim conjE, rule runs_mono [OF save_exact]) auto

lemma at_next:
  "at_input rd ls (b # r) buf line \<Longrightarrow> runs (lex_next rd) ls (\<lambda>_ ls'. at_input rd ls' r buf line) E"
  unfolding at_input_def by (elim conjE, rule runs_mono [OF next_exact]) auto

lemma at_save_next:
  "at_input rd ls (byte_of c # r) buf line \<Longrightarrow> length buf < too_big \<Longrightarrow>
   runs (save_and_next rd) ls (\<lambda>_ ls'. at_input rd ls' r (buf @ [c]) line) E"
  unfolding at_input_def by (elim conjE, rule runs_mono [OF save_and_next_exact]) (auto simp: char_int_byte)

lemma at_current: "at_input rd ls (b # r) buf line \<Longrightarrow> ls_current ls = uint b"
  by (simp add: at_input_def lex_in_def)

lemma at_newline:
  assumes "at_input rd ls (b # d # r) buf line" "line + 1 < L_MAX_INT" "\<not> is_newline (uint d)"
  shows "runs (inclinenumber rd) ls (\<lambda>_ ls'. at_input rd ls' (d # r) buf (line + 1)) E"
  unfolding inclinenumber_def
proof (intro runs_getI, rule runs_thenI [OF at_next [OF assms(1)]], intro runs_getI)
  fix s assume s: "at_input rd s (d # r) buf line"
  then show "runs (thenM (if is_newline (ls_current s) \<and> ls_current s \<noteq> ls_current ls then lex_next rd else retM ())
     (thenM (modM (\<lambda>ls. ls\<lparr>ls_linenumber := ls_linenumber ls + 1\<rparr>))
     (bindM (getM ls_linenumber) (\<lambda>l.
       if l \<ge> L_MAX_INT then luaX_syntaxerror ''chunk has too many lines'' else retM ())))) s
     (\<lambda>_ ls'. at_input rd ls' (d # r) buf (line + 1)) E"
    using assms(2,3) at_current [OF s]
    by (auto simp: runs_simps at_input_def lex_in_def)
qed


definition quoted_bytes :: "string \<Rightarrow> u8 list" where
  "quoted_bytes s = map byte_of (concat (map quote_char s))"

lemma quoted_not_newline:
  "\<not> is_newline (uint (hd (quoted_bytes s @ byte_of CHR 0x22 # rest)))"
proof (cases s)
  case Nil
  then show ?thesis by (simp add: quoted_bytes_def uint_byte_of is_newline_def)
next
  case (Cons c t)
  have "c \<noteq> char_of (nat 10) \<and> c \<noteq> char_of (nat 13) \<Longrightarrow> \<not> is_newline (uint (byte_of c))"
    by (auto simp: is_newline_def uint_byte_of_eq)
  moreover have "char_of (nat 10) = CHR 0x0A" "char_of (nat 13) = CHR 0x0D" by code_simp+
  ultimately show ?thesis
    using Cons by (auto simp: quoted_bytes_def quote_char_def uint_byte_of is_newline_def)
qed

text \<open>The escape sequences that quoting produces.\<close>

lemma escaped_plain:
  assumes "at_input rd s (byte_of c # r) buf line" "length buf < too_big" "c \<in> {CHR 0x22, CHR 0x5C}"
  shows "runs (escaped rd (uint (byte_of c))) s (\<lambda>_ ls'. at_input rd ls' r (buf @ [c]) line) E"
  using at_save_next [OF assms(1,2)] assms(3)
  by (auto simp: escaped_def uint_byte_of simple_escape_def is_newline_def EOZ_def c_isdigit_def)

lemma escaped_newline:
  assumes s: "at_input rd s (byte_of CHR 0x0A # d # r) buf line"
    and "length buf < too_big" "line + 1 < L_MAX_INT" "\<not> is_newline (uint d)"
  shows "runs (escaped rd (uint (byte_of CHR 0x0A))) s
    (\<lambda>_ ls'. at_input rd ls' (d # r) (buf @ [CHR 0x0A]) (line + 1)) E"
proof -
  have nl: "char_int 10 = CHR 0x0A" by code_simp
  have "runs (thenM (save 10) (inclinenumber rd)) s
      (\<lambda>_ ls'. at_input rd ls' (d # r) (buf @ [CHR 0x0A]) (line + 1)) E"
    by (rule runs_thenI [OF at_save [OF s assms(2)]], elim conjE, rule runs_mono [OF at_newline])
      (use assms(3,4) in \<open>auto simp: nl\<close>)
  then show ?thesis by (simp add: escaped_def uint_byte_of simple_escape_def is_newline_def)
qed

lemma escaped_return:
  assumes s: "at_input rd s (byte_of CHR 0x72 # r) buf line" and "length buf < too_big"
  shows "runs (escaped rd (uint (byte_of CHR 0x72))) s (\<lambda>_ ls'. at_input rd ls' r (buf @ [CHR 0x0D]) line) E"
proof -
  have cr: "char_int 13 = CHR 0x0D" by code_simp
  have "runs (thenM (save 13) (lex_next rd)) s (\<lambda>_ ls'. at_input rd ls' r (buf @ [CHR 0x0D]) line) E"
    by (rule runs_thenI [OF at_save [OF s assms(2)]], elim conjE, rule runs_mono [OF at_next]) (auto simp: cr)
  then show ?thesis by (simp add: escaped_def uint_byte_of simple_escape_def)
qed

lemma decimal_zeros:
  "at_input rd t (replicate n (byte_of CHR 0x30) @ r) buf line \<Longrightarrow>
   runs (decimal_escape rd n 0) t (\<lambda>v ls'. v = 0 \<and> at_input rd ls' r buf line) E"
proof (induction n arbitrary: t)
  case (Suc n)
  then have t: "at_input rd t (byte_of CHR 0x30 # replicate n (byte_of CHR 0x30) @ r) buf line" by simp
  have "ls_current t = 48" using at_current [OF t] by (simp add: uint_byte_of)
  then show ?case
    by (simp add: c_isdigit_def runs_bind) (rule runs_thenI [OF at_next [OF t]], simp add: Suc.IH)
qed (simp add: runs_simps)

lemma escaped_zero:
  assumes s: "at_input rd s (replicate 3 (byte_of CHR 0x30) @ r) buf line" and "length buf < too_big"
  shows "runs (escaped rd (uint (byte_of CHR 0x30))) s (\<lambda>_ ls'. at_input rd ls' r (buf @ [CHR 0x00]) line) E"
proof -
  have nul: "char_int 0 = CHR 0x00" by code_simp
  have "runs (bindM (decimal_escape rd 3 0) (\<lambda>v.
      if v > 255 then luaX_lexerror ''escape sequence too large'' TK_STRING else save v)) s
      (\<lambda>_ ls'. at_input rd ls' r (buf @ [CHR 0x00]) line) E"
    by (rule runs_bindI [OF decimal_zeros [OF s]]) (use assms(2) nul in \<open>auto intro!: runs_mono [OF at_save]\<close>)
  then show ?thesis
    by (simp add: escaped_def uint_byte_of simple_escape_def is_newline_def EOZ_def c_isdigit_def)
qed

text \<open>One escape sequence or plain character.\<close>

lemma read_quoted_char:
  assumes i: "at_input rd ls (map byte_of (quote_char c) @ d # r) buf line" and b: "length buf < too_big"
    and l: "c = CHR 0x0A \<Longrightarrow> line + 1 < L_MAX_INT" and n: "\<not> is_newline (uint d)"
  shows "runs (if ls_current ls = 92 then read_escape rd else save_and_next rd) ls
    (\<lambda>_ ls'. at_input rd ls' (d # r) (buf @ [c]) (line + of_bool (c = CHR 0x0A))) E"
    (is "runs ?m ls ?Q E")
proof -
  have esc: "runs ?m ls ?Q E"
    if q: "quote_char c = CHR 0x5C # x # xs"
      and k: "\<And>s. at_input rd s (byte_of x # map byte_of xs @ d # r) buf line \<Longrightarrow>
        runs (escaped rd (uint (byte_of x))) s ?Q E" for x xs
  proof -
    from i q have j: "at_input rd ls (byte_of CHR 0x5C # byte_of x # map byte_of xs @ d # r) buf line" by simp
    then have "?m = read_escape rd" using at_current [OF j] by (simp add: uint_byte_of)
    then show ?thesis
      unfolding read_escape_def
      by (simp only:) (rule runs_thenI [OF at_next [OF j]], rule runs_getI, frule at_current, simp only:, rule k)
  qed
  consider "c \<in> {CHR 0x22, CHR 0x5C}" | "c = CHR 0x0A" | "c = CHR 0x0D" | "c = CHR 0x00"
    | "c \<notin> {CHR 0x22, CHR 0x5C, CHR 0x0A, CHR 0x0D, CHR 0x00}" by blast
  then show ?thesis
  proof cases
    case 1
    then have q: "quote_char c = CHR 0x5C # c # []" and n: "(c = CHR 0x0A) = False" by (auto simp: quote_char_def)
    show ?thesis by (rule esc [OF q]) (simp add: n escaped_plain [OF _ b 1])
  next
    case 2
    then have q: "quote_char c = CHR 0x5C # CHR 0x0A # []" by (auto simp: quote_char_def)
    show ?thesis by (rule esc [OF q]) (use escaped_newline [OF _ b l [OF 2] n] 2 in simp)
  next
    case 3
    then have q: "quote_char c = CHR 0x5C # CHR 0x72 # []" by (auto simp: quote_char_def)
    show ?thesis by (rule esc [OF q]) (use escaped_return [OF _ b] 3 in simp)
  next
    case 4
    then have q: "quote_char c = CHR 0x5C # CHR 0x30 # [CHR 0x30, CHR 0x30]" by (auto simp: quote_char_def)
    show ?thesis by (rule esc [OF q]) (use escaped_zero [OF _ b] 4 in \<open>simp add: numeral_3_eq_3\<close>)
  next
    case 5
    then have q: "quote_char c = [c]" by (auto simp: quote_char_def)
    with i have j: "at_input rd ls (byte_of c # d # r) buf line" by simp
    have "char_of (nat 92) = CHR 0x5C" by code_simp
    then have "ls_current ls \<noteq> 92" using at_current [OF j] 5 by (auto simp: uint_byte_of_eq)
    then show ?thesis using at_save_next [OF j b] 5 by simp
  qed
qed

lemma read_quoted_string:
  assumes "at_input rd ls (quoted_bytes s @ byte_of CHR 0x22 # rest) buf line"
    and "length buf + length s < too_big" "line + int (count_list s CHR 0x0A) < L_MAX_INT"
  shows "runs (read_string_loop rd 34) ls
    (\<lambda>_ ls'. \<exists>line'. at_input rd ls' (byte_of CHR 0x22 # rest) (buf @ s) line') E"
  using assms
proof (induction s arbitrary: ls buf line)
  case Nil
  then have i: "at_input rd ls (byte_of CHR 0x22 # rest) buf line" by (simp add: quoted_bytes_def)
  from at_current [OF i] have "ls_current ls = 34" by (simp add: uint_byte_of)
  with i show ?case by (subst read_string_loop_eq) (auto simp: runs_simps)
next
  case (Cons c s)
  define d where "d = hd (quoted_bytes s @ byte_of CHR 0x22 # rest)"
  define r where "r = tl (quoted_bytes s @ byte_of CHR 0x22 # rest)"
  have dr: "quoted_bytes s @ byte_of CHR 0x22 # rest = d # r"
    by (cases "quoted_bytes s") (simp_all add: d_def r_def)
  have i: "at_input rd ls (map byte_of (quote_char c) @ d # r) buf line"
    using Cons.prems(1) dr by (simp add: quoted_bytes_def)
  have first: "ls_current ls \<noteq> 34 \<and> ls_current ls \<noteq> EOZ \<and> \<not> is_newline (ls_current ls)"
  proof -
    have cs: "char_of (nat 34) = CHR 0x22" "char_of (nat 10) = CHR 0x0A" "char_of (nat 13) = CHR 0x0D" by code_simp+
    obtain x xs where q: "quote_char c = x # xs" "x = CHR 0x5C \<or> x = c \<and> c \<notin> {CHR 0x22, CHR 0x0A, CHR 0x0D}"
    proof (cases "quote_char c")
      case Nil
      then show thesis by (simp add: quote_char_def split: if_splits)
    next
      case (Cons x xs)
      moreover have "hd (quote_char c) = CHR 0x5C \<or> hd (quote_char c) = c \<and> c \<notin> {CHR 0x22, CHR 0x0A, CHR 0x0D}"
        by (auto simp: quote_char_def)
      ultimately show thesis using that [of x xs] by simp
    qed
    with i have j: "at_input rd ls (byte_of x # map byte_of xs @ d # r) buf line" by simp
    show ?thesis
      using at_current [OF j] q(2) cs by (auto simp: uint_byte_of_eq is_newline_def EOZ_def)
  qed
  have n: "\<not> is_newline (uint d)" unfolding d_def by (rule quoted_not_newline)
  have "runs (thenM (if ls_current ls = 92 then read_escape rd else save_and_next rd) (read_string_loop rd 34)) ls
    (\<lambda>_ ls'. \<exists>line'. at_input rd ls' (byte_of CHR 0x22 # rest) (buf @ c # s) line') E"
  proof (rule runs_thenI [OF read_quoted_char [OF i _ _ n]])
    show "length buf < too_big" "c = CHR 0x0A \<Longrightarrow> line + 1 < L_MAX_INT" using Cons.prems(2,3) by auto
    fix x s'
    assume "at_input rd s' (d # r) (buf @ [c]) (line + of_bool (c = CHR 0x0A))"
    from Cons.IH [OF this [folded dr]] Cons.prems(2,3)
    show "runs (read_string_loop rd 34) s'
        (\<lambda>_ ls'. \<exists>line'. at_input rd ls' (byte_of CHR 0x22 # rest) (buf @ c # s) line') E"
      by (auto split: if_splits)
  qed
  with first show ?case by (subst read_string_loop_eq) (simp add: runs_simps)
qed


lemma at_reset: "at_input rd ls cs buf line \<Longrightarrow> at_input rd (ls\<lparr>ls_buff := []\<rparr>) cs [] line"
  by (auto simp: at_input_def lex_in_def split: list.splits)

text \<open>
  C30: quoting round trip: the text \<^verbatim>\<open>string.format ("%q", s)\<close> produces is read back by the
  lexer as the string \<open>s\<close>, for every string, whatever follows it, within the limits on
  the length of a token and on the number of lines.\<close>

theorem quoted_roundtrip:
  assumes "lex_in rd ls (str_bytes (addquoted s) @ rest)" "length s + 2 < too_big"
    and "ls_linenumber ls + int (count_list s CHR 0x0A) < L_MAX_INT"
  shows "\<exists>ls'. llex env rd ls = Some (Inr ((TK_STRING, SemTs s), ls')) \<and> lex_in rd ls' rest"
proof -
  let ?l = "ls_linenumber ls" and ?q = "byte_of CHR 0x22" and ?ls = "ls\<lparr>ls_buff := []\<rparr>"
  have "at_input rd ls (?q # quoted_bytes s @ ?q # rest) (ls_buff ls) ?l"
    using assms(1) by (simp add: at_input_def addquoted_def str_bytes_byte_of quoted_bytes_def)
  then have i: "at_input rd ?ls (?q # quoted_bytes s @ ?q # rest) [] ?l" by (rule at_reset)
  have cur: "ls_current ?ls = 34" using at_current [OF i] by (simp add: uint_byte_of)
  have b: "length [] < too_big" using assms(2) by simp
  have str: "runs (read_string rd 34) ?ls (\<lambda>v ls'. v = SemTs s \<and> lex_in rd ls' rest) (\<lambda>_. False)"
    unfolding read_string_def
  proof (rule runs_thenI [OF at_save_next [OF i b]], rule runs_thenI [OF read_quoted_string],
      assumption, use assms(2) in simp, use assms(3) in simp, elim exE, rule runs_thenI [OF at_save_next],
      assumption, use assms(2) in simp, rule runs_getI)
    fix s' line'
    assume "at_input rd s' rest ((([] @ [CHR 0x22]) @ s) @ [CHR 0x22]) line'"
    then show "runs (bindM (luaX_newstring (take (length (ls_buff s') - 2) (drop 1 (ls_buff s')))) (\<lambda>s. retM (SemTs s))) s'
        (\<lambda>v ls'. v = SemTs s \<and> lex_in rd ls' rest) (\<lambda>_. False)"
      by (auto simp: luaX_newstring_def runs_simps at_input_def lex_in_def split: list.splits)
  qed
  have "runs (llex env rd) ls (\<lambda>(t, v) ls'. t = TK_STRING \<and> v = SemTs s \<and> lex_in rd ls' rest) (\<lambda>_. False)"
    unfolding llex_def resetbuffer_def
    by (subst llex_loop_eq) (use cur in \<open>auto simp: runs_simps is_newline_def intro!: runs_mono [OF str]\<close>)
  then obtain r where "llex env rd ls = Some r"
    "case r of Inl e \<Rightarrow> False | Inr (x, ls') \<Rightarrow> (case x of (t, v) \<Rightarrow> \<lambda>ls'. t = TK_STRING \<and> v = SemTs s \<and> lex_in rd ls' rest) ls'"
    unfolding runs_total by blast
  then show ?thesis by (cases r) (auto split: prod.splits)
qed

theorem quoted_roundtrip_witness:
  "\<exists>ls'. llex c_env block_reader (lex_start (str_bytes (addquoted [CHR 0x00, CHR 0x0A, CHR 0x22, CHR ''a''])))
     = Some (Inr ((TK_STRING, SemTs [CHR 0x00, CHR 0x0A, CHR 0x22, CHR ''a'']), ls'))"
proof -
  let ?s = "[CHR 0x00, CHR 0x0A, CHR 0x22, CHR ''a'']"
  let ?b = "str_bytes (addquoted ?s) @ []"
  have i: "lex_in block_reader (lex_start ?b) ?b"
    by (rule lex_start_in) (simp_all add: str_bytes_def addquoted_def quote_char_def)
  have l: "length ?s + 2 < too_big" by (simp add: too_big_def MAX_SIZET_def)
  have n: "ls_linenumber (lex_start ?b) + int (count_list ?s CHR 0x0A) < L_MAX_INT"
    by (simp add: lex_start_def L_MAX_INT_def)
  from quoted_roundtrip [OF i l n, of c_env] show ?thesis by auto
qed

subsection \<open>Zero bytes\<close>

text \<open>
  \<^verbatim>\<open>check_next\<close> searches its set of characters with \<^verbatim>\<open>strchr\<close>, which also finds the
  terminating zero, so a zero byte in the source reads as a second dot: a dot followed by a
  zero byte is the token \<^verbatim>\<open>..\<close>, and by two of them \<^verbatim>\<open>...\<close>.\<close>

theorem zero_byte_reads_as_dot:
  "map_option (map_sum id fst) (llex env block_reader (lex_start [46, 0, 97])) = Some (Inr (TK_CONCAT, SemNone)) \<and>
   map_option (map_sum id fst) (llex env block_reader (lex_start [46, 0, 0, 97])) = Some (Inr (TK_DOTS, SemNone))"
  by (intro conjI; code_simp)

end
