(* ===== verification/Patterns.thy ===== *)
theory Patterns
  imports Ctype
begin

text \<open>
  Pattern matching of the string library (\<^verbatim>\<open>lstrlib.c\<close>).

  Pointers into the subject and the pattern are indexes.  Both are C strings with a
  terminating zero, which the code reads: \<open>rd_char\<close> gives it at the end, and fails beyond
  (\<open>BadRead\<close>).  The capture array is the list of its slots below \<^verbatim>\<open>level\<close>: the code never reads
  the others.  A function that raises a Lua error gives \<open>Inl\<close>.

  \<^verbatim>\<open>match\<close> and the functions it shares the work with call each other; here the others take
  the matcher of the rest of the pattern as an argument.  Characters are \<^verbatim>\<open>int\<close> codes.
\<close>

datatype merror = MError string | BadRead

type_synonym capture = "nat \<times> int"
type_synonym captures = "capture list"

definition CAP_UNFINISHED :: int where "CAP_UNFINISHED = - 1"
definition CAP_POSITION :: int where "CAP_POSITION = - 2"
definition LUA_MAXCAPTURES :: nat where "LUA_MAXCAPTURES = 32"
definition L_ESC :: int where "L_ESC = 37"

definition bindE :: "'e + 'a \<Rightarrow> ('a \<Rightarrow> 'e + 'b) \<Rightarrow> 'e + 'b" where
  "bindE m f = (case m of Inl e \<Rightarrow> Inl e | Inr x \<Rightarrow> f x)"

lemma bindE_simps [simp]: "bindE (Inl e) f = Inl e" "bindE (Inr x) f = f x"
  by (simp_all add: bindE_def)

lemma bindE_cong [fundef_cong]:
  "m = m' \<Longrightarrow> (\<And>x. m' = Inr x \<Longrightarrow> f x = g x) \<Longrightarrow> bindE m f = bindE m' g"
  by (cases m') simp_all

definition rd_char :: "string \<Rightarrow> nat \<Rightarrow> merror + int" where
  "rd_char s i = (if i < length s then Inr (ch (s ! i)) else if i = length s then Inr 0 else Inl BadRead)"

subsection \<open>Captures\<close>

definition check_capture :: "captures \<Rightarrow> int \<Rightarrow> merror + nat" where
  "check_capture ms l =
     (let l = l - 49 in
      if l < 0 \<or> l \<ge> int (length ms) \<or> snd (ms ! nat l) = CAP_UNFINISHED
      then Inl (MError ''invalid capture index'') else Inr (nat l))"

fun capture_to_close_loop :: "captures \<Rightarrow> nat \<Rightarrow> merror + nat" where
  "capture_to_close_loop ms 0 = Inl (MError ''invalid pattern capture'')"
| "capture_to_close_loop ms (Suc level) =
     (if snd (ms ! level) = CAP_UNFINISHED then Inr level else capture_to_close_loop ms level)"

definition capture_to_close :: "captures \<Rightarrow> merror + nat" where
  "capture_to_close ms = capture_to_close_loop ms (length ms)"

subsection \<open>Single characters\<close>

text \<open>The loop that looks for the closing bracket of a set.\<close>

definition bracket_skip :: "string \<Rightarrow> nat \<Rightarrow> int \<Rightarrow> merror + nat" where
  "bracket_skip pat p x =
     (if x = L_ESC then bindE (rd_char pat (p + 1)) (\<lambda>y. Inr (if y \<noteq> 0 then p + 2 else p + 1))
      else Inr (p + 1))"

lemma bindE_Inr_iff: "bindE m f = Inr y \<longleftrightarrow> (\<exists>x. m = Inr x \<and> f x = Inr y)"
  by (cases m) auto

lemma rd_char_nz: "rd_char pat p = Inr x \<Longrightarrow> x \<noteq> 0 \<Longrightarrow> p < length pat"
  by (auto simp: rd_char_def split: if_splits)

lemma bracket_skip_bounds: "bracket_skip pat p x = Inr q \<Longrightarrow> p < q"
  by (auto simp: bracket_skip_def bindE_Inr_iff split: if_splits)

function bracket_end :: "string \<Rightarrow> nat \<Rightarrow> merror + nat" where
  "bracket_end pat p =
     bindE (rd_char pat p) (\<lambda>x.
       if x = 0 then Inl (MError ''malformed pattern (missing ']')'')
       else
         bindE (bracket_skip pat p x) (\<lambda>q.
         bindE (rd_char pat q) (\<lambda>z. if z = 93 then Inr (q + 1) else bracket_end pat q)))"
  by pat_completeness auto
termination
proof (relation "measure (\<lambda>(pat, p). length pat - p)")
  fix pat p x q z
  assume "rd_char pat p = Inr x" "x \<noteq> 0" "bracket_skip pat p x = Inr q"
  then have "p < length pat" "p < q" by (auto dest: rd_char_nz bracket_skip_bounds)
  then show "((pat, q), (pat, p)) \<in> measure (\<lambda>(pat, p). length pat - p)" by simp
qed simp

declare bracket_end.simps [simp del]

definition classend :: "string \<Rightarrow> nat \<Rightarrow> merror + nat" where
  "classend pat p =
     bindE (rd_char pat p) (\<lambda>x.
       if x = L_ESC then
         bindE (rd_char pat (p + 1)) (\<lambda>y.
           if y = 0 then Inl (MError ''malformed pattern (ends with '%')'') else Inr (p + 2))
       else if x = 91 then
         bindE (rd_char pat (p + 1)) (\<lambda>y. bracket_end pat (if y = 94 then p + 2 else p + 1))
       else Inr (p + 1))"

definition match_class :: "int \<Rightarrow> int \<Rightarrow> bool" where
  "match_class c cl =
     (let l = c_tolower cl; res = (\<lambda>b. if c_islower cl then b else \<not> b) in
      if l = 97 then res (c_isalpha c)
      else if l = 99 then res (c_iscntrl c)
      else if l = 100 then res (c_isdigit c)
      else if l = 108 then res (c_islower c)
      else if l = 112 then res (c_ispunct c)
      else if l = 115 then res (c_isspace c)
      else if l = 117 then res (c_isupper c)
      else if l = 119 then res (c_isalnum c)
      else if l = 120 then res (c_isxdigit c)
      else if l = 122 then res (c = 0)
      else cl = c)"

function bracket_loop :: "string \<Rightarrow> int \<Rightarrow> nat \<Rightarrow> nat \<Rightarrow> bool \<Rightarrow> merror + bool" where
  "bracket_loop pat c p ec sig =
     (if p < ec then
        bindE (rd_char pat p) (\<lambda>x.
        bindE (rd_char pat (p + 1)) (\<lambda>y.
          if x = L_ESC then (if match_class c y then Inr sig else bracket_loop pat c (p + 2) ec sig)
          else if y = 45 \<and> p + 2 < ec then
            bindE (rd_char pat (p + 2)) (\<lambda>z.
              if x \<le> c \<and> c \<le> z then Inr sig else bracket_loop pat c (p + 3) ec sig)
          else if x = c then Inr sig
          else bracket_loop pat c (p + 1) ec sig))
      else Inr (\<not> sig))"
  by pat_completeness auto
termination
  by (relation "measure (\<lambda>(pat, c, p, ec, sig). ec - p)") auto

declare bracket_loop.simps [simp del]

definition matchbracketclass :: "string \<Rightarrow> int \<Rightarrow> nat \<Rightarrow> nat \<Rightarrow> merror + bool" where
  "matchbracketclass pat c p ec =
     bindE (rd_char pat (p + 1)) (\<lambda>x.
       if x = 94 then bracket_loop pat c (p + 2) ec False else bracket_loop pat c (p + 1) ec True)"

definition singlematch :: "string \<Rightarrow> int \<Rightarrow> nat \<Rightarrow> nat \<Rightarrow> merror + bool" where
  "singlematch pat c p ep =
     bindE (rd_char pat p) (\<lambda>x.
       if x = 46 then Inr True
       else if x = L_ESC then bindE (rd_char pat (p + 1)) (\<lambda>y. Inr (match_class c y))
       else if x = 91 then matchbracketclass pat c p (ep - 1)
       else Inr (x = c))"

text \<open>\<^verbatim>\<open>s < ms->src_end && singlematch (uchar (*s), p, ep)\<close>.\<close>

definition single_at :: "string \<Rightarrow> string \<Rightarrow> nat \<Rightarrow> nat \<Rightarrow> nat \<Rightarrow> merror + bool" where
  "single_at src pat s p ep =
     (if s < length src then bindE (rd_char src s) (\<lambda>c. singlematch pat c p ep) else Inr False)"

subsection \<open>Balanced strings and back references\<close>

function balance_loop :: "string \<Rightarrow> int \<Rightarrow> int \<Rightarrow> int \<Rightarrow> nat \<Rightarrow> merror + nat option" where
  "balance_loop src b e cont s =
     (if s + 1 < length src then
        bindE (rd_char src (s + 1)) (\<lambda>c.
          if c = e then (if cont - 1 = 0 then Inr (Some (s + 2)) else balance_loop src b e (cont - 1) (s + 1))
          else balance_loop src b e (if c = b then cont + 1 else cont) (s + 1))
      else Inr None)"
  by pat_completeness auto
termination
  by (relation "measure (\<lambda>(src, b, e, cont, s). length src - s)") auto

declare balance_loop.simps [simp del]

definition matchbalance :: "string \<Rightarrow> string \<Rightarrow> nat \<Rightarrow> nat \<Rightarrow> merror + nat option" where
  "matchbalance src pat s p =
     bindE (rd_char pat p) (\<lambda>b.
     bindE (if b = 0 then Inr 0 else rd_char pat (p + 1)) (\<lambda>e.
       if b = 0 \<or> e = 0 then Inl (MError ''unbalanced pattern'')
       else bindE (rd_char src s) (\<lambda>c. if c \<noteq> b then Inr None else balance_loop src b e 1 s)))"

text \<open>The length of a capture is compared as a \<^verbatim>\<open>size_t\<close>.\<close>

definition match_capture :: "string \<Rightarrow> captures \<Rightarrow> nat \<Rightarrow> int \<Rightarrow> merror + nat option" where
  "match_capture src ms s l =
     bindE (check_capture ms l) (\<lambda>l.
       let (init, len) = ms ! l; n = nat (len mod 2 ^ 64) in
       if length src - s \<ge> n \<and> take n (drop init src) = take n (drop s src)
       then Inr (Some (s + n)) else Inr None)"

subsection \<open>The matcher\<close>

type_synonym mresult = "merror + nat option \<times> captures"

text \<open>\<^verbatim>\<open>max_expand\<close>: count the repetitions, then try from the longest.\<close>

function count_max :: "string \<Rightarrow> string \<Rightarrow> nat \<Rightarrow> nat \<Rightarrow> nat \<Rightarrow> merror + nat" where
  "count_max src pat s p ep =
     (if s < length src then
        bindE (single_at src pat s p ep) (\<lambda>m.
          if m then bindE (count_max src pat (s + 1) p ep) (\<lambda>i. Inr (i + 1)) else Inr 0)
      else Inr 0)"
  by pat_completeness auto
termination
  by (relation "measure (\<lambda>(src, pat, s, p, ep). length src - s)") auto

declare count_max.simps [simp del]

fun max_loop :: "(captures \<Rightarrow> nat \<Rightarrow> mresult) \<Rightarrow> captures \<Rightarrow> nat \<Rightarrow> nat \<Rightarrow> mresult" where
  "max_loop m ms s 0 = m ms s"
| "max_loop m ms s (Suc i) =
     bindE (m ms (s + Suc i)) (\<lambda>(res, ms). if res \<noteq> None then Inr (res, ms) else max_loop m ms s i)"

definition max_expand ::
  "(captures \<Rightarrow> nat \<Rightarrow> mresult) \<Rightarrow> string \<Rightarrow> string \<Rightarrow> captures \<Rightarrow> nat \<Rightarrow> nat \<Rightarrow> nat \<Rightarrow> mresult" where
  "max_expand m src pat ms s p ep = bindE (count_max src pat s p ep) (max_loop m ms s)"

function min_expand ::
  "(captures \<Rightarrow> nat \<Rightarrow> mresult) \<Rightarrow> string \<Rightarrow> string \<Rightarrow> captures \<Rightarrow> nat \<Rightarrow> nat \<Rightarrow> nat \<Rightarrow> mresult" where
  "min_expand m src pat ms s p ep =
     bindE (m ms s) (\<lambda>(res, ms).
       if res \<noteq> None then Inr (res, ms)
       else bindE (single_at src pat s p ep) (\<lambda>b.
         if b \<and> s < length src then min_expand m src pat ms (s + 1) p ep else Inr (None, ms)))"
  by pat_completeness auto
termination
  by (relation "measure (\<lambda>(m, src, pat, ms, s, p, ep). length src - s)") auto

declare min_expand.simps [simp del]

definition start_capture :: "(captures \<Rightarrow> nat \<Rightarrow> mresult) \<Rightarrow> captures \<Rightarrow> nat \<Rightarrow> int \<Rightarrow> mresult" where
  "start_capture m ms s what =
     (if length ms \<ge> LUA_MAXCAPTURES then Inl (MError ''too many captures'')
      else bindE (m (ms @ [(s, what)]) s) (\<lambda>(res, ms). Inr (res, if res = None then butlast ms else ms)))"

definition end_capture :: "(captures \<Rightarrow> nat \<Rightarrow> mresult) \<Rightarrow> captures \<Rightarrow> nat \<Rightarrow> mresult" where
  "end_capture m ms s =
     bindE (capture_to_close ms) (\<lambda>l.
     bindE (m (ms[l := (fst (ms ! l), int s - int (fst (ms ! l)))]) s) (\<lambda>(res, ms).
       Inr (res, if res = None then ms[l := (fst (ms ! l), CAP_UNFINISHED)] else ms)))"

lemma max_loop_cong: "(\<And>ms s. m ms s = m' ms s) \<Longrightarrow> max_loop m ms s i = max_loop m' ms s i"
proof -
  assume "\<And>ms s. m ms s = m' ms s"
  then have "m = m'" by (intro ext)
  then show ?thesis by simp
qed

lemma matcher_cong [fundef_cong]:
  "(\<And>ms s. m ms s = m' ms s) \<Longrightarrow> max_expand m src pat ms s p ep = max_expand m' src pat ms s p ep"
  "(\<And>ms s. m ms s = m' ms s) \<Longrightarrow> min_expand m src pat ms s p ep = min_expand m' src pat ms s p ep"
  "(\<And>ms s. m ms s = m' ms s) \<Longrightarrow> start_capture m ms s what = start_capture m' ms s what"
  "(\<And>ms s. m ms s = m' ms s) \<Longrightarrow> end_capture m ms s = end_capture m' ms s"
proof -
  assume "\<And>ms s. m ms s = m' ms s"
  then have "m = m'" by (intro ext)
  then show "max_expand m src pat ms s p ep = max_expand m' src pat ms s p ep"
    "min_expand m src pat ms s p ep = min_expand m' src pat ms s p ep"
    "start_capture m ms s what = start_capture m' ms s what" "end_capture m ms s = end_capture m' ms s"
    by simp_all
qed

text \<open>The character before \<open>s\<close>, for a frontier.\<close>

definition previous_char :: "string \<Rightarrow> nat \<Rightarrow> merror + int" where
  "previous_char src s = (if s = 0 then Inr 0 else rd_char src (s - 1))"

definition frontier_at :: "string \<Rightarrow> string \<Rightarrow> nat \<Rightarrow> nat \<Rightarrow> nat \<Rightarrow> merror + bool" where
  "frontier_at src pat s p ep =
     bindE (previous_char src s) (\<lambda>prev.
     bindE (matchbracketclass pat prev p (ep - 1)) (\<lambda>a.
       if a then Inr False
       else bindE (rd_char src s) (\<lambda>c. matchbracketclass pat c p (ep - 1))))"

lemma bracket_end_bounds: "bracket_end pat p = Inr ep \<Longrightarrow> p < ep \<and> ep \<le> length pat"
proof (induction pat p rule: bracket_end.induct)
  case (1 pat p)
  from "1.prems" obtain x q z where s: "rd_char pat p = Inr x" "x \<noteq> 0" "bracket_skip pat p x = Inr q"
    "rd_char pat q = Inr z" "(if z = 93 then Inr (q + 1) else bracket_end pat q) = Inr ep"
    unfolding bracket_end.simps [of pat p] bindE_Inr_iff by (auto split: if_splits simp: bindE_Inr_iff)
  show ?case
  proof (cases "z = 93")
    case True
    then show ?thesis using s(5) rd_char_nz [OF s(4)] bracket_skip_bounds [OF s(3)] by auto
  next
    case False
    then show ?thesis using "1.IH" [OF s(1-4) False] s(5) bracket_skip_bounds [OF s(3)] by auto
  qed
qed

lemma classend_bounds:
  assumes "classend pat p = Inr ep" "rd_char pat p = Inr x" "x \<noteq> 0"
  shows "p < ep \<and> ep \<le> length pat"
proof -
  have p: "p < length pat" using assms(2,3) by (rule rd_char_nz)
  show ?thesis
    using assms p rd_char_nz [of pat "p + 1"] bracket_end_bounds [of pat _ ep]
    by (auto simp: classend_def bindE_Inr_iff split: if_splits; fastforce)
qed


lemma classend_gt: "classend pat p = Inr ep \<Longrightarrow> p < ep"
  using bracket_end_bounds [of pat "p + 2" ep] bracket_end_bounds [of pat "p + 1" ep]
  by (auto simp: classend_def bindE_Inr_iff split: if_splits)

lemma pattern_shrinks: "rd_char pat p = Inr c \<Longrightarrow> c \<noteq> 0 \<Longrightarrow> p < q \<Longrightarrow> length pat - q < length pat - p"
  using rd_char_nz by force

function match :: "string \<Rightarrow> string \<Rightarrow> captures \<Rightarrow> nat \<Rightarrow> nat \<Rightarrow> mresult" where
  "match src pat ms s p =
     bindE (rd_char pat p) (\<lambda>c.
       if c = 0 then Inr (Some s, ms)
       else bindE (rd_char pat (p + 1)) (\<lambda>d.
         if c = 40 then
           (if d = 41 then start_capture (\<lambda>ms s. match src pat ms s (p + 2)) ms s CAP_POSITION
            else start_capture (\<lambda>ms s. match src pat ms s (p + 1)) ms s CAP_UNFINISHED)
         else if c = 41 then end_capture (\<lambda>ms s. match src pat ms s (p + 1)) ms s
         else if c = L_ESC \<and> d = 98 then
           bindE (matchbalance src pat s (p + 2)) (\<lambda>r.
             case r of None \<Rightarrow> Inr (None, ms) | Some s \<Rightarrow> match src pat ms s (p + 4))
         else if c = L_ESC \<and> d = 102 then
           bindE (rd_char pat (p + 2)) (\<lambda>x.
             if x \<noteq> 91 then Inl (MError ''missing '[' after '%f' in pattern'')
             else bindE (classend pat (p + 2)) (\<lambda>ep.
               bindE (frontier_at src pat s (p + 2) ep) (\<lambda>f.
                 if \<not> f then Inr (None, ms) else match src pat ms s ep)))
         else if c = L_ESC \<and> c_isdigit d then
           bindE (match_capture src ms s d) (\<lambda>r.
             case r of None \<Rightarrow> Inr (None, ms) | Some s \<Rightarrow> match src pat ms s (p + 2))
         else if c = 36 \<and> d = 0 then Inr (if s = length src then Some s else None, ms)
         else
           bindE (classend pat p) (\<lambda>ep.
           bindE (single_at src pat s p ep) (\<lambda>m.
           bindE (rd_char pat ep) (\<lambda>q.
             if q = 63 then
               (if m then bindE (match src pat ms (s + 1) (ep + 1)) (\<lambda>(res, ms).
                  if res \<noteq> None then Inr (res, ms) else match src pat ms s (ep + 1))
                else match src pat ms s (ep + 1))
             else if q = 42 then max_expand (\<lambda>ms s. match src pat ms s (ep + 1)) src pat ms s p ep
             else if q = 43 then
               (if m then max_expand (\<lambda>ms s. match src pat ms s (ep + 1)) src pat ms (s + 1) p ep else Inr (None, ms))
             else if q = 45 then min_expand (\<lambda>ms s. match src pat ms s (ep + 1)) src pat ms s p ep
             else if \<not> m then Inr (None, ms) else match src pat ms (s + 1) ep)))))"
  by pat_completeness auto
termination
  by (relation "measure (\<lambda>(src, pat, ms, s, p). length pat - p)")
    (simp_all only: in_measure prod.case, simp, (erule (1) pattern_shrinks, (linarith | (drule classend_gt, linarith)))+)

declare match.simps [simp del]

end
