(* ===== verification/Pattern_Laws.thy ===== *)
theory Pattern_Laws
  imports Patterns
begin

text \<open>
  What matching means.  \<open>pm src pat ms s p e ms'\<close>: the pattern from \<open>p\<close> on matches the subject
  from \<open>s\<close> to \<open>e\<close>, and the captures become \<open>ms'\<close>.  It is the reading of a pattern in the Lua
  manual, with no order of search: an item with a suffix matches any number of characters
  that the suffix allows.  \<^verbatim>\<open>match\<close> is shown to find a match exactly when there is one, and to
  leave the captures alone when there is none.
\<close>

text \<open>A character (and the next one) that starts a single-character item.\<close>

definition item_start :: "int \<Rightarrow> int \<Rightarrow> bool" where
  "item_start c d \<longleftrightarrow> c \<notin> {0, 40, 41} \<and> \<not> (c = L_ESC \<and> (d = 98 \<or> d = 102 \<or> c_isdigit d)) \<and> \<not> (c = 36 \<and> d = 0)"

text \<open>How often a suffix lets the item occur.\<close>

definition allowed :: "int \<Rightarrow> nat \<Rightarrow> bool" where
  "allowed q k \<longleftrightarrow>
     (if q = 63 then k \<le> 1 else if q = 42 \<or> q = 45 then True else if q = 43 then 1 \<le> k else k = 1)"

definition after_item :: "int \<Rightarrow> nat \<Rightarrow> nat" where
  "after_item q ep = (if q \<in> {63, 42, 43, 45} then ep + 1 else ep)"

inductive pm :: "string \<Rightarrow> string \<Rightarrow> captures \<Rightarrow> nat \<Rightarrow> nat \<Rightarrow> nat \<Rightarrow> captures \<Rightarrow> bool" for src pat where
  pm_end: "rd_char pat p = Inr 0 \<Longrightarrow> pm src pat ms s p s ms"
| pm_position: "rd_char pat p = Inr 40 \<Longrightarrow> rd_char pat (p + 1) = Inr 41 \<Longrightarrow>
    pm src pat (ms @ [(s, CAP_POSITION)]) s (p + 2) e ms' \<Longrightarrow> pm src pat ms s p e ms'"
| pm_open: "rd_char pat p = Inr 40 \<Longrightarrow> rd_char pat (p + 1) \<noteq> Inr 41 \<Longrightarrow>
    pm src pat (ms @ [(s, CAP_UNFINISHED)]) s (p + 1) e ms' \<Longrightarrow> pm src pat ms s p e ms'"
| pm_close: "rd_char pat p = Inr 41 \<Longrightarrow> capture_to_close ms = Inr l \<Longrightarrow>
    pm src pat (ms[l := (fst (ms ! l), int s - int (fst (ms ! l)))]) s (p + 1) e ms' \<Longrightarrow> pm src pat ms s p e ms'"
| pm_balance: "rd_char pat p = Inr L_ESC \<Longrightarrow> rd_char pat (p + 1) = Inr 98 \<Longrightarrow>
    matchbalance src pat s (p + 2) = Inr (Some t) \<Longrightarrow> pm src pat ms t (p + 4) e ms' \<Longrightarrow> pm src pat ms s p e ms'"
| pm_frontier: "rd_char pat p = Inr L_ESC \<Longrightarrow> rd_char pat (p + 1) = Inr 102 \<Longrightarrow>
    classend pat (p + 2) = Inr ep \<Longrightarrow> frontier_at src pat s (p + 2) ep = Inr True \<Longrightarrow>
    pm src pat ms s ep e ms' \<Longrightarrow> pm src pat ms s p e ms'"
| pm_back: "rd_char pat p = Inr L_ESC \<Longrightarrow> rd_char pat (p + 1) = Inr d \<Longrightarrow> c_isdigit d \<Longrightarrow>
    match_capture src ms s d = Inr (Some t) \<Longrightarrow> pm src pat ms t (p + 2) e ms' \<Longrightarrow> pm src pat ms s p e ms'"
| pm_dollar: "rd_char pat p = Inr 36 \<Longrightarrow> rd_char pat (p + 1) = Inr 0 \<Longrightarrow> s = length src \<Longrightarrow> pm src pat ms s p s ms"
| pm_item: "rd_char pat p = Inr c \<Longrightarrow> rd_char pat (p + 1) = Inr d \<Longrightarrow> item_start c d \<Longrightarrow>
    classend pat p = Inr ep \<Longrightarrow> rd_char pat ep = Inr q \<Longrightarrow> allowed q k \<Longrightarrow>
    (\<forall>i < k. single_at src pat (s + i) p ep = Inr True) \<Longrightarrow>
    pm src pat ms (s + k) (after_item q ep) e ms' \<Longrightarrow> pm src pat ms s p e ms'"

inductive_cases pmE: "pm src pat ms s p e ms'"

subsection \<open>The rest of the pattern\<close>

text \<open>
  The functions that share the work with \<^verbatim>\<open>match\<close> rely on the matcher of the rest of the
  pattern: if it implements a relation, so do they.\<close>

definition implements :: "mresult \<Rightarrow> captures \<Rightarrow> (nat \<Rightarrow> captures \<Rightarrow> bool) \<Rightarrow> bool" where
  "implements r ms R \<longleftrightarrow>
     (case r of
        Inl _ \<Rightarrow> True
      | Inr (Some e, ms') \<Rightarrow> R e ms'
      | Inr (None, ms') \<Rightarrow> ms' = ms \<and> (\<forall>e ms'. \<not> R e ms'))"

lemma implements_Inl [simp]: "implements (Inl x) ms R"
  by (simp add: implements_def)

lemma implements_Some [simp]: "implements (Inr (Some e, ms')) ms R = R e ms'"
  by (simp add: implements_def)

lemma implements_None [simp]: "implements (Inr (None, ms')) ms R \<longleftrightarrow> ms' = ms \<and> (\<forall>e ms'. \<not> R e ms')"
  by (simp add: implements_def)

lemma implements_cong: "(\<And>e ms'. R e ms' = R' e ms') \<Longrightarrow> implements r ms R = implements r ms R'"
  by (simp add: implements_def split: sum.split option.split prod.split)

lemma implements_simp_cong:
  "r = r' \<Longrightarrow> (\<And>e ms'. R e ms' = R' e ms') \<Longrightarrow> implements r ms R = implements r' ms R'"
  using implements_cong by blast

lemma single_at_end: "length src \<le> s \<Longrightarrow> single_at src pat s p ep = Inr False"
  by (simp add: single_at_def)

lemma count_max_counts:
  "count_max src pat s p ep = Inr n \<Longrightarrow>
   (\<forall>i < n. single_at src pat (s + i) p ep = Inr True) \<and> single_at src pat (s + n) p ep = Inr False"
proof (induction src pat s p ep arbitrary: n rule: count_max.induct)
  case (1 src pat s p ep)
  show ?case
  proof (cases "s < length src")
    case True
    with "1.prems" obtain m where m: "single_at src pat s p ep = Inr m"
      by (subst (asm) count_max.simps) (auto simp: bindE_Inr_iff)
    show ?thesis
    proof (cases m)
      case T: True
      with "1.prems" True m obtain k where k: "count_max src pat (s + 1) p ep = Inr k" "n = Suc k"
        by (subst (asm) count_max.simps) (auto simp: bindE_Inr_iff)
      from "1.IH" [OF True m T k(1)] have
        "\<forall>i < k. single_at src pat (Suc s + i) p ep = Inr True" "single_at src pat (Suc s + k) p ep = Inr False"
        by simp_all
      with m T k(2) show ?thesis by (auto simp: less_Suc_eq_0_disj)
    next
      case False
      with "1.prems" True m have "n = 0" by (subst (asm) count_max.simps) simp
      with m False show ?thesis by simp
    qed
  next
    case False
    with "1.prems" have "n = 0" by (subst (asm) count_max.simps) simp
    with False show ?thesis by (simp add: single_at_end)
  qed
qed

lemma to_close_loop:
  "capture_to_close_loop ms n = Inr l \<Longrightarrow> l < n \<and> snd (ms ! l) = CAP_UNFINISHED"
  by (induction n) (auto split: if_splits)

lemma capture_to_close_unfinished:
  "capture_to_close ms = Inr l \<Longrightarrow> l < length ms \<and> snd (ms ! l) = CAP_UNFINISHED"
  by (auto simp: capture_to_close_def dest: to_close_loop)

locale rest_matcher =
  fixes m :: "captures \<Rightarrow> nat \<Rightarrow> mresult" and R :: "captures \<Rightarrow> nat \<Rightarrow> nat \<Rightarrow> captures \<Rightarrow> bool"
  assumes implemented: "implements (m ms s) ms (R ms s)"
begin

lemma max_loop_implements: "implements (max_loop m ms s i) ms (\<lambda>e ms'. \<exists>k \<le> i. R ms (s + k) e ms')"
proof (induction i)
  case 0
  then show ?case using implemented [of ms s] by simp
next
  case (Suc i)
  show ?case
  proof (cases "m ms (s + Suc i)")
    case (Inr r)
    obtain res ms' where r: "r = (res, ms')" by (cases r)
    with Inr implemented [of ms "s + Suc i"] Suc.IH show ?thesis
      by (cases res; cases "max_loop m ms s i")
        (auto simp: implements_def le_Suc_eq split: option.splits prod.splits)
  qed simp
qed

lemma max_expand_implements:
  "implements (max_expand m src pat ms s p ep) ms
     (\<lambda>e ms'. \<exists>k. (\<forall>i < k. single_at src pat (s + i) p ep = Inr True) \<and> R ms (s + k) e ms')"
proof (cases "count_max src pat s p ep")
  case (Inr n)
  note c = count_max_counts [OF Inr]
  have "(\<forall>i < k. single_at src pat (s + i) p ep = Inr True) \<longleftrightarrow> k \<le> n" for k
    using c by (metis less_le_trans not_le_imp_less sum.inject(2))
  with max_loop_implements [of ms s n] Inr show ?thesis by (simp add: max_expand_def)
qed (simp add: max_expand_def)

lemma min_expand_implements:
  "implements (min_expand m src pat ms s p ep) ms
     (\<lambda>e ms'. \<exists>k. (\<forall>i < k. single_at src pat (s + i) p ep = Inr True) \<and> R ms (s + k) e ms')"
proof (induction "length src - s" arbitrary: s rule: less_induct)
  case less
  show ?case
  proof (cases "m ms s")
    case (Inr r)
    obtain res ms' where r: "r = (res, ms')" by (cases r)
    show ?thesis
    proof (cases res)
      case (Some e)
      with r Inr implemented [of ms s] have "R ms s e ms'" by simp
      then have "\<exists>k. (\<forall>i < k. single_at src pat (s + i) p ep = Inr True) \<and> R ms (s + k) e ms'"
        by (intro exI [of _ 0]) simp
      with r Inr Some show ?thesis by (subst min_expand.simps) simp
    next
      case None
      with r Inr implemented [of ms s] have n: "ms' = ms" "\<And>e x. \<not> R ms s e x" by simp_all
      show ?thesis
      proof (cases "single_at src pat s p ep")
        case b: (Inr b)
        show ?thesis
        proof (cases b)
          case True
          then have l: "s < length src" using b single_at_end [of src s] by (metis not_le sum.inject(2))
          have shift: "(\<exists>k. (\<forall>i < k. single_at src pat (s + i) p ep = Inr True) \<and> R ms (s + k) e x) \<longleftrightarrow>
              (\<exists>k. (\<forall>i < k. single_at src pat (Suc s + i) p ep = Inr True) \<and> R ms (Suc s + k) e x)" for e x
          proof
            assume "\<exists>k. (\<forall>i < k. single_at src pat (s + i) p ep = Inr True) \<and> R ms (s + k) e x"
            then obtain k where k: "\<forall>i < k. single_at src pat (s + i) p ep = Inr True" "R ms (s + k) e x" by blast
            with n(2) obtain j where "k = Suc j" by (cases k) auto
            with k show "\<exists>k. (\<forall>i < k. single_at src pat (Suc s + i) p ep = Inr True) \<and> R ms (Suc s + k) e x"
              by (intro exI [of _ j]) (auto dest: spec [of _ "Suc _"])
          next
            assume "\<exists>k. (\<forall>i < k. single_at src pat (Suc s + i) p ep = Inr True) \<and> R ms (Suc s + k) e x"
            then obtain k where "\<forall>i < k. single_at src pat (Suc s + i) p ep = Inr True" "R ms (Suc s + k) e x" by blast
            with b True show "\<exists>k. (\<forall>i < k. single_at src pat (s + i) p ep = Inr True) \<and> R ms (s + k) e x"
              by (intro exI [of _ "Suc k"]) (auto simp: less_Suc_eq_0_disj)
          qed
          have "min_expand m src pat ms s p ep = min_expand m src pat ms (Suc s) p ep"
            using r Inr None n b True l by (subst min_expand.simps) simp
          with less [of "Suc s"] l show ?thesis by (simp only: shift)
        next
          case False
          have "\<not> (\<exists>k. (\<forall>i < k. single_at src pat (s + i) p ep = Inr True) \<and> R ms (s + k) e x)" for e x
          proof
            assume "\<exists>k. (\<forall>i < k. single_at src pat (s + i) p ep = Inr True) \<and> R ms (s + k) e x"
            then obtain k where k: "\<forall>i < k. single_at src pat (s + i) p ep = Inr True" "R ms (s + k) e x" by blast
            then show False using n(2) b False by (cases k) auto
          qed
          with r Inr None n b False show ?thesis by (subst min_expand.simps) simp
        qed
      qed (use r Inr None n in \<open>subst min_expand.simps, simp\<close>)
    qed
  qed (subst min_expand.simps, simp)
qed

lemma start_capture_implements: "implements (start_capture m ms s what) ms (R (ms @ [(s, what)]) s)"
proof (cases "m (ms @ [(s, what)]) s")
  case (Inr r)
  obtain res ms' where "r = (res, ms')" by (cases r)
  with Inr implemented [of "ms @ [(s, what)]" s] show ?thesis
    by (cases res) (auto simp: start_capture_def)
qed (simp add: start_capture_def)

lemma end_capture_implements:
  "implements (end_capture m ms s) ms
     (\<lambda>e ms'. \<exists>l. capture_to_close ms = Inr l \<and> R (ms[l := (fst (ms ! l), int s - int (fst (ms ! l)))]) s e ms')"
proof (cases "capture_to_close ms")
  case (Inr l)
  let ?ms = "ms[l := (fst (ms ! l), int s - int (fst (ms ! l)))]"
  have undo: "?ms[l := (fst (?ms ! l), CAP_UNFINISHED)] = ms"
    using capture_to_close_unfinished [OF Inr] by (auto intro!: nth_equalityI simp: nth_list_update prod_eq_iff)
  show ?thesis
  proof (cases "m ?ms s")
    case r: (Inr r)
    obtain res ms' where "r = (res, ms')" by (cases r)
    with r Inr implemented [of ?ms s] undo show ?thesis
      by (cases res) (auto simp: end_capture_def)
  qed (simp add: end_capture_def Inr)
qed (simp add: end_capture_def)

end

subsection \<open>The matcher\<close>

text \<open>One step of the relation, by the character that starts the pattern.\<close>

lemma pm_end_iff: "rd_char pat p = Inr 0 \<Longrightarrow> pm src pat ms s p e ms' \<longleftrightarrow> e = s \<and> ms' = ms"
  by (auto elim: pmE intro: pm_end simp: item_start_def L_ESC_def)

lemma pm_position_iff:
  "rd_char pat p = Inr 40 \<Longrightarrow> rd_char pat (p + 1) = Inr 41 \<Longrightarrow>
   pm src pat ms s p e ms' \<longleftrightarrow> pm src pat (ms @ [(s, CAP_POSITION)]) s (p + 2) e ms'"
  by (auto elim: pmE intro: pm_position simp: item_start_def L_ESC_def)

lemma pm_open_iff:
  "rd_char pat p = Inr 40 \<Longrightarrow> rd_char pat (p + 1) \<noteq> Inr 41 \<Longrightarrow>
   pm src pat ms s p e ms' \<longleftrightarrow> pm src pat (ms @ [(s, CAP_UNFINISHED)]) s (p + 1) e ms'"
  by (auto elim: pmE intro: pm_open simp: item_start_def L_ESC_def)

lemma pm_close_iff:
  "rd_char pat p = Inr 41 \<Longrightarrow>
   pm src pat ms s p e ms' \<longleftrightarrow>
     (\<exists>l. capture_to_close ms = Inr l \<and>
        pm src pat (ms[l := (fst (ms ! l), int s - int (fst (ms ! l)))]) s (p + 1) e ms')"
  by (auto elim: pmE intro: pm_close simp: item_start_def L_ESC_def)

lemma pm_balance_iff:
  "rd_char pat p = Inr L_ESC \<Longrightarrow> rd_char pat (p + 1) = Inr 98 \<Longrightarrow>
   pm src pat ms s p e ms' \<longleftrightarrow>
     (\<exists>t. matchbalance src pat s (p + 2) = Inr (Some t) \<and> pm src pat ms t (p + 4) e ms')"
  by (auto elim: pmE intro: pm_balance simp: item_start_def L_ESC_def c_isdigit_def)

lemma pm_frontier_iff:
  "rd_char pat p = Inr L_ESC \<Longrightarrow> rd_char pat (p + 1) = Inr 102 \<Longrightarrow>
   pm src pat ms s p e ms' \<longleftrightarrow>
     (\<exists>ep. classend pat (p + 2) = Inr ep \<and> frontier_at src pat s (p + 2) ep = Inr True \<and> pm src pat ms s ep e ms')"
  by (auto elim: pmE intro: pm_frontier simp: item_start_def L_ESC_def c_isdigit_def)

lemma pm_back_iff:
  "rd_char pat p = Inr L_ESC \<Longrightarrow> rd_char pat (p + 1) = Inr d \<Longrightarrow> c_isdigit d \<Longrightarrow>
   pm src pat ms s p e ms' \<longleftrightarrow>
     (\<exists>t. match_capture src ms s d = Inr (Some t) \<and> pm src pat ms t (p + 2) e ms')"
  by (auto elim: pmE intro: pm_back simp: item_start_def L_ESC_def c_isdigit_def)

lemma pm_dollar_iff:
  "rd_char pat p = Inr 36 \<Longrightarrow> rd_char pat (p + 1) = Inr 0 \<Longrightarrow>
   pm src pat ms s p e ms' \<longleftrightarrow> s = length src \<and> e = s \<and> ms' = ms"
  by (auto elim: pmE intro: pm_dollar simp: item_start_def L_ESC_def)

lemma pm_item_iff:
  "rd_char pat p = Inr c \<Longrightarrow> rd_char pat (p + 1) = Inr d \<Longrightarrow> item_start c d \<Longrightarrow>
   classend pat p = Inr ep \<Longrightarrow> rd_char pat ep = Inr q \<Longrightarrow>
   pm src pat ms s p e ms' \<longleftrightarrow>
     (\<exists>k. allowed q k \<and> (\<forall>i < k. single_at src pat (s + i) p ep = Inr True) \<and>
        pm src pat ms (s + k) (after_item q ep) e ms')"
  (is "_ \<Longrightarrow> _ \<Longrightarrow> _ \<Longrightarrow> _ \<Longrightarrow> _ \<Longrightarrow> ?L = ?R")
proof -
  assume a: "rd_char pat p = Inr c" "rd_char pat (p + 1) = Inr d" "item_start c d"
    "classend pat p = Inr ep" "rd_char pat ep = Inr q"
  have "?R" if "?L"
    using that by (cases rule: pm.cases) (use a in \<open>auto simp: item_start_def\<close>)
  then show "?L = ?R" using a by (auto intro: pm_item)
qed


lemma implements_bind:
  "(\<And>x. m = Inr x \<Longrightarrow> implements (f x) ms R) \<Longrightarrow> implements (bindE m f) ms R"
  by (cases m) simp_all

lemma ex_pos_iff: "(\<exists>k. 1 \<le> k \<and> Q k) \<longleftrightarrow> (\<exists>k. Q (Suc k))"
  by (metis One_nat_def Suc_le_D Suc_le_eq zero_less_Suc)

lemma match_item_implements:
  assumes IH: "\<And>q. p < q \<Longrightarrow> rest_matcher (\<lambda>ms s. match src pat ms s q) (\<lambda>ms s. pm src pat ms s q)"
    and c: "rd_char pat p = Inr c" and d: "rd_char pat (p + 1) = Inr d" and i: "item_start c d"
  shows "implements (match src pat ms s p) ms (pm src pat ms s p)"
proof (cases "classend pat p")
  case ep: (Inr ep)
  then have lt: "p < ep" "p < ep + 1" using classend_gt by fastforce+
  note r1 = IH [OF lt(2)] and r0 = IH [OF lt(1)]
  note i1 = rest_matcher.implemented [OF r1] and i0 = rest_matcher.implemented [OF r0]
  show ?thesis
  proof (cases "single_at src pat s p ep")
    case m: (Inr m)
    show ?thesis
    proof (cases "rd_char pat ep")
      case q: (Inr q)
      note iff = implements_cong [of "pm src pat ms s p", OF pm_item_iff [OF c d i ep q]]
      have body: "match src pat ms s p =
          (if q = 63 then
             (if m then bindE (match src pat ms (s + 1) (ep + 1)) (\<lambda>(res, ms).
                if res \<noteq> None then Inr (res, ms) else match src pat ms s (ep + 1))
              else match src pat ms s (ep + 1))
           else if q = 42 then max_expand (\<lambda>ms s. match src pat ms s (ep + 1)) src pat ms s p ep
           else if q = 43 then
             (if m then max_expand (\<lambda>ms s. match src pat ms s (ep + 1)) src pat ms (s + 1) p ep else Inr (None, ms))
           else if q = 45 then min_expand (\<lambda>ms s. match src pat ms s (ep + 1)) src pat ms s p ep
           else if \<not> m then Inr (None, ms) else match src pat ms (s + 1) ep)"
        using i c d ep m q by (subst match.simps) (auto simp: item_start_def)
      have few: "(\<exists>k. k \<le> 1 \<and> (\<forall>i < k. single_at src pat (s + i) p ep = Inr True) \<and> P (s + k)) \<longleftrightarrow>
          P s \<or> m \<and> P (s + 1)" for P
        using m by (auto simp: le_Suc_eq)
      have one: "(\<exists>k. k = 1 \<and> (\<forall>i < k. single_at src pat (s + i) p ep = Inr True) \<and> P (s + k)) \<longleftrightarrow> m \<and> P (s + 1)" for P
        using m by auto
      have plus: "(\<exists>k. 1 \<le> k \<and> (\<forall>i < k. single_at src pat (s + i) p ep = Inr True) \<and> P (s + k)) \<longleftrightarrow>
          m \<and> (\<exists>k. (\<forall>i < k. single_at src pat (s + 1 + i) p ep = Inr True) \<and> P (s + 1 + k))" for P
      proof -
        have "(\<forall>i < Suc k. single_at src pat (s + i) p ep = Inr True) \<longleftrightarrow>
            m \<and> (\<forall>i < k. single_at src pat (s + 1 + i) p ep = Inr True)" for k
          using m by (auto simp: less_Suc_eq_0_disj)
        then show ?thesis by (simp only: ex_pos_iff) simp
      qed
      consider "q = 63" | "q = 42" | "q = 43" | "q = 45" | "q \<notin> {63, 42, 43, 45}" by blast
      then show ?thesis
      proof cases
        case 1
        have step: "pm src pat ms s p e x \<longleftrightarrow> pm src pat ms s (ep + 1) e x \<or> m \<and> pm src pat ms (s + 1) (ep + 1) e x" for e x
          using few [of "\<lambda>s. pm src pat ms s (ep + 1) e x"] 1
          by (simp only: pm_item_iff [OF c d i ep q]) (simp add: allowed_def after_item_def)
        show ?thesis
          using i1 [of ms s] i1 [of ms "s + 1"] unfolding implements_cong [of "pm src pat ms s p", OF step] body
          by (cases "match src pat ms (s + 1) (ep + 1)"; cases "match src pat ms s (ep + 1)")
            (auto simp: 1 implements_def split: option.splits prod.splits)
      next
        case 2
        then show ?thesis
          using rest_matcher.max_expand_implements [OF r1, of src pat ms s p ep] unfolding iff body
          by (simp add: allowed_def after_item_def)
      next
        case 3
        have step: "pm src pat ms s p e x \<longleftrightarrow>
            m \<and> (\<exists>k. (\<forall>i < k. single_at src pat (s + 1 + i) p ep = Inr True) \<and> pm src pat ms (s + 1 + k) (ep + 1) e x)" for e x
          using plus [of "\<lambda>s. pm src pat ms s (ep + 1) e x"] 3
          by (simp only: pm_item_iff [OF c d i ep q]) (simp add: allowed_def after_item_def)
        show ?thesis
          using rest_matcher.max_expand_implements [OF r1, of src pat ms "s + 1" p ep]
          unfolding implements_cong [of "pm src pat ms s p", OF step] body
          by (cases m) (simp_all add: 3)
      next
        case 4
        then show ?thesis
          using rest_matcher.min_expand_implements [OF r1, of src pat ms s p ep] unfolding iff body
          by (simp add: allowed_def after_item_def)
      next
        case 5
        have step: "pm src pat ms s p e x \<longleftrightarrow> m \<and> pm src pat ms (s + 1) ep e x" for e x
          using one [of "\<lambda>s. pm src pat ms s ep e x"] 5
          by (simp only: pm_item_iff [OF c d i ep q]) (simp add: allowed_def after_item_def)
        show ?thesis
          using i0 [of ms "s + 1"] 5 unfolding implements_cong [of "pm src pat ms s p", OF step] body
          by (cases m) simp_all
      qed
    qed (use i c d ep m in \<open>subst match.simps, auto simp: item_start_def\<close>)
  qed (use i c d ep in \<open>subst match.simps, auto simp: item_start_def\<close>)
qed (use i c d in \<open>subst match.simps, auto simp: item_start_def\<close>)

lemma match_implements: "implements (match src pat ms s p) ms (pm src pat ms s p)"
proof (induction "length pat - p" arbitrary: ms s p rule: less_induct)
  case less
  show ?case
  proof (cases "\<exists>c d. rd_char pat p = Inr c \<and> c \<noteq> 0 \<and> rd_char pat (p + 1) = Inr d")
    case False
    then consider e where "rd_char pat p = Inl e" | "rd_char pat p = Inr 0"
      | c e where "rd_char pat p = Inr c" "c \<noteq> 0" "rd_char pat (p + 1) = Inl e"
      by (metis obj_sumE)
    then show ?thesis by cases (simp_all add: match.simps [of src pat ms s p] pm_end_iff)
  next
    case True
    then obtain c d where c: "rd_char pat p = Inr c" "c \<noteq> 0" and d: "rd_char pat (p + 1) = Inr d" by blast
    have sub: "implements (match src pat ms s q) ms (pm src pat ms s q)" if "p < q" for ms s q
      using less.hyps [OF pattern_shrinks [OF c that]] .
    have IH: "rest_matcher (\<lambda>ms s. match src pat ms s q) (\<lambda>ms s. pm src pat ms s q)" if "p < q" for q
      using sub [OF that] by unfold_locales
    have lt: "p < p + 1" "p < p + 2" by simp_all
    note head = match.simps [of src pat ms s p]
    consider "item_start c d" | "c = 40" "d = 41" | "c = 40" "d \<noteq> 41" | "c = 41" | "c = L_ESC" "d = 98"
      | "c = L_ESC" "d = 102" | "c = L_ESC" "c_isdigit d" | "c = 36" "d = 0"
      using c(2) by (auto simp: item_start_def)
    then show ?thesis
    proof cases
      case 1
      show ?thesis by (rule match_item_implements [OF IH c(1) d 1])
    next
      case 2
      then show ?thesis
        using rest_matcher.start_capture_implements [OF IH [OF lt(2)], of ms s CAP_POSITION] c d
        by (simp add: head pm_position_iff cong: implements_simp_cong)
    next
      case 3
      then show ?thesis
        using rest_matcher.start_capture_implements [OF IH [OF lt(1)], of ms s CAP_UNFINISHED] c d
        by (simp add: head pm_open_iff cong: implements_simp_cong)
    next
      case 4
      then show ?thesis
        using rest_matcher.end_capture_implements [OF IH [OF lt(1)], of ms s] c d
        by (simp add: head pm_close_iff cong: implements_simp_cong)
    next
      case 5
      then show ?thesis
        using c d sub [of "p + 4"]
        by (cases "matchbalance src pat s (p + 2)")
          (auto simp: head pm_balance_iff L_ESC_def cong: implements_simp_cong split: option.split)
    next
      case 6
      show ?thesis
      proof (cases "classend pat (p + 2)")
        case (Inr ep)
        then have "p < ep" using classend_gt by fastforce
        with 6 c d Inr sub [of ep ms s] show ?thesis
          by (cases "rd_char pat (p + 2)"; cases "frontier_at src pat s (p + 2) ep")
            (auto simp: head pm_frontier_iff L_ESC_def cong: implements_simp_cong)
      qed (use 6 c d in \<open>cases "rd_char pat (p + 2)"; simp add: head L_ESC_def\<close>)
    next
      case 7
      then show ?thesis
        using c d sub [of "p + 2"]
        by (cases "match_capture src ms s d")
          (auto simp: head pm_back_iff L_ESC_def c_isdigit_def cong: implements_simp_cong split: option.split)
    next
      case 8
      then show ?thesis
        using c d by (auto simp: head pm_dollar_iff L_ESC_def cong: implements_simp_cong)
    qed
  qed
qed

end
