(* ===== verification/Pattern_Safety.thy ===== *)
theory Pattern_Safety
  imports Pattern_Laws
begin

text \<open>
  Memory safety of pattern matching: \<^verbatim>\<open>match\<close> reads no character past the terminating zero of
  the subject or the pattern, a match ends within the subject, and every capture it leaves
  lies in the subject before the end of the match.
\<close>

subsection \<open>Where a match ends\<close>

definition captures_in :: "string \<Rightarrow> nat \<Rightarrow> captures \<Rightarrow> bool" where
  "captures_in src s ms \<longleftrightarrow>
     s \<le> length src \<and>
     (\<forall>(i, l) \<in> set ms. i \<le> s \<and> (l = CAP_UNFINISHED \<or> l = CAP_POSITION \<or> 0 \<le> l \<and> int i + l \<le> int s))"

lemma captures_in_later: "captures_in src s ms \<Longrightarrow> s \<le> t \<Longrightarrow> t \<le> length src \<Longrightarrow> captures_in src t ms"
  by (fastforce simp: captures_in_def)

lemma captures_in_add:
  "captures_in src s ms \<Longrightarrow> w = CAP_UNFINISHED \<or> w = CAP_POSITION \<Longrightarrow> captures_in src s (ms @ [(s, w)])"
  by (auto simp: captures_in_def)

lemma captures_in_close:
  assumes "captures_in src s ms" "l < length ms"
  shows "captures_in src s (ms[l := (fst (ms ! l), int s - int (fst (ms ! l)))])"
proof -
  have "ms ! l \<in> set ms" using assms(2) by simp
  then have "fst (ms ! l) \<le> s" using assms(1) by (auto simp: captures_in_def case_prod_beta)
  then show ?thesis using assms by (auto simp: captures_in_def dest!: subsetD [OF set_update_subset_insert])
qed

lemma balance_loop_bounds: "balance_loop src b e cont s = Inr (Some t) \<Longrightarrow> s < t \<and> t \<le> length src"
proof (induction src b e cont s rule: balance_loop.induct)
  case (1 src b e cont s)
  show ?case
  proof (cases "s + 1 < length src")
    case True
    then have rd: "rd_char src (s + 1) = Inr (ch (src ! (s + 1)))" by (simp add: rd_char_def)
    note IH = "1.IH" [OF True rd]
    show ?thesis using "1.prems" True rd IH
      by (subst (asm) balance_loop.simps) (auto split: if_splits)
  next
    case False
    with "1.prems" show ?thesis by (subst (asm) balance_loop.simps) simp
  qed
qed

lemma matchbalance_bounds: "matchbalance src pat s p = Inr (Some t) \<Longrightarrow> s < t \<and> t \<le> length src"
  by (auto simp: matchbalance_def bindE_Inr_iff balance_loop_bounds split: if_splits)

lemma match_capture_bounds: "match_capture src ms s l = Inr (Some t) \<Longrightarrow> s \<le> length src \<Longrightarrow> s \<le> t \<and> t \<le> length src"
  by (auto simp: match_capture_def bindE_Inr_iff Let_def case_prod_beta simp del: split_paired_All split: if_splits)

lemma single_at_inside: "single_at src pat s p ep = Inr True \<Longrightarrow> s < length src"
  by (simp add: single_at_def split: if_splits)

lemma pm_bounds:
  "pm src pat ms s p e ms' \<Longrightarrow> captures_in src s ms \<Longrightarrow> s \<le> e \<and> captures_in src e ms'"
proof (induction rule: pm.induct)
  case (pm_position p ms s e ms')
  then show ?case by (auto intro: captures_in_add)
next
  case (pm_open p ms s e ms')
  then show ?case by (auto intro: captures_in_add)
next
  case (pm_close p ms l s e ms')
  then show ?case by (auto intro: captures_in_close dest: capture_to_close_unfinished)
next
  case (pm_balance p s t ms e ms')
  have "s < t" "t \<le> length src" using matchbalance_bounds [OF pm_balance.hyps(3)] by auto
  then show ?case using pm_balance.IH captures_in_later [OF pm_balance.prems] by fastforce
next
  case (pm_back p d ms s t e ms')
  have "s \<le> length src" using pm_back.prems by (simp add: captures_in_def)
  then have "s \<le> t" "t \<le> length src" using match_capture_bounds [OF pm_back.hyps(4)] by auto
  then show ?case using pm_back.IH captures_in_later [OF pm_back.prems] by fastforce
next
  case (pm_item p c d ep q k s ms e ms')
  have "s + k \<le> length src"
  proof (cases k)
    case 0
    then show ?thesis using pm_item.prems by (simp add: captures_in_def)
  next
    case (Suc j)
    then have "single_at src pat (s + j) p ep = Inr True" using pm_item.hyps by simp
    then show ?thesis using Suc single_at_inside by fastforce
  qed
  then show ?case using pm_item.IH captures_in_later [OF pm_item.prems] by fastforce
qed auto

lemma match_bounds:
  assumes "match src pat ms s p = Inr (r, ms')" "captures_in src s ms"
  shows "(case r of None \<Rightarrow> ms' = ms | Some e \<Rightarrow> s \<le> e \<and> captures_in src e ms')"
  using match_implements [of src pat ms s p] assms pm_bounds by (fastforce simp: implements_def split: option.splits)

subsection \<open>Reads of the pattern\<close>

abbreviation bad_read :: "merror + 'a \<Rightarrow> bool" where
  "bad_read r \<equiv> r = Inl BadRead"

lemma rd_char_safe [simp]: "bad_read (rd_char s i) \<longleftrightarrow> length s < i"
  by (simp add: rd_char_def)

lemma bad_bind: "bad_read (bindE m f) \<longleftrightarrow> bad_read m \<or> (\<exists>x. m = Inr x \<and> bad_read (f x))"
  by (cases m) auto

lemma bracket_skip_safe:
  assumes "rd_char pat p = Inr x" "x \<noteq> 0"
  shows "\<not> bad_read (bracket_skip pat p x)" "bracket_skip pat p x = Inr q \<Longrightarrow> q \<le> length pat"
  using rd_char_nz [OF assms] rd_char_nz [of pat "p + 1"]
  by (auto simp: bracket_skip_def bad_bind bindE_Inr_iff split: if_splits)

lemma bracket_end_safe: "p \<le> length pat \<Longrightarrow> \<not> bad_read (bracket_end pat p)"
proof (induction pat p rule: bracket_end.induct)
  case (1 pat p)
  show ?case
  proof
    assume "bad_read (bracket_end pat p)"
    then obtain x q z where s: "rd_char pat p = Inr x" "x \<noteq> 0" "bracket_skip pat p x = Inr q"
      "rd_char pat q = Inr z" "z \<noteq> 93" "bad_read (bracket_end pat q)"
      using "1.prems" bracket_skip_safe [of pat p]
      by (subst (asm) bracket_end.simps) (fastforce simp: bad_bind split: if_splits)
    moreover have "q \<le> length pat" using bracket_skip_safe s by blast
    ultimately show False using "1.IH" by blast
  qed
qed

lemma classend_safe:
  assumes "rd_char pat p = Inr x" "x \<noteq> 0"
  shows "\<not> bad_read (classend pat p)"
  using rd_char_nz [OF assms] rd_char_nz [of pat "p + 1"] bracket_end_safe [of "p + 1" pat] bracket_end_safe [of "p + 2" pat]
  by (auto simp: classend_def bad_bind bindE_Inr_iff split: if_splits)

lemma bracket_loop_safe: "ec < length pat \<Longrightarrow> \<not> bad_read (bracket_loop pat c p ec sig)"
proof (induction pat c p ec sig rule: bracket_loop.induct)
  case (1 pat c p ec sig)
  show ?case
  proof (cases "p < ec")
    case True
    obtain x y where rd: "rd_char pat p = Inr x" "rd_char pat (p + 1) = Inr y"
      using True "1.prems" by (auto simp: rd_char_def)
    note IH = "1.IH" [OF True rd]
    show ?thesis
      using True "1.prems" rd IH by (subst bracket_loop.simps) (auto simp: bad_bind split: if_splits)
  qed (subst bracket_loop.simps, simp)
qed

lemma class_safe:
  assumes "classend pat p = Inr ep" "rd_char pat p = Inr x" "x \<noteq> 0"
  shows "\<not> bad_read (matchbracketclass pat c p (ep - 1))" "\<not> bad_read (singlematch pat c p ep)"
proof -
  have "p < ep" "ep \<le> length pat" "p < length pat"
    using classend_bounds [OF assms] rd_char_nz [OF assms(2,3)] by auto
  then show "\<not> bad_read (matchbracketclass pat c p (ep - 1))"
    using bracket_loop_safe [of "ep - 1" pat] by (auto simp: matchbracketclass_def bad_bind split: if_splits)
  then show "\<not> bad_read (singlematch pat c p ep)"
    using \<open>p < length pat\<close> by (auto simp: singlematch_def bad_bind split: if_splits)
qed

lemma single_at_safe:
  assumes "classend pat p = Inr ep" "rd_char pat p = Inr x" "x \<noteq> 0"
  shows "\<not> bad_read (single_at src pat s p ep)"
  using class_safe [OF assms] by (simp add: single_at_def bad_bind)

lemma balance_loop_safe: "\<not> bad_read (balance_loop src b e cont s)"
proof (induction src b e cont s rule: balance_loop.induct)
  case (1 src b e cont s)
  show ?case
  proof (cases "s + 1 < length src")
    case True
    then have rd: "rd_char src (s + 1) = Inr (ch (src ! (s + 1)))" by (simp add: rd_char_def)
    note IH = "1.IH" [OF True rd]
    show ?thesis using True rd IH by (subst balance_loop.simps) (auto split: if_splits)
  qed (subst balance_loop.simps, simp)
qed

lemma matchbalance_safe:
  assumes "p \<le> length pat" "s \<le> length src"
  shows "\<not> bad_read (matchbalance src pat s p)" "matchbalance src pat s p = Inr (Some t) \<Longrightarrow> p + 2 \<le> length pat"
  using assms rd_char_nz [of pat p] rd_char_nz [of pat "p + 1"] balance_loop_safe [of src]
  by (auto simp: matchbalance_def bad_bind bindE_Inr_iff split: if_splits)

lemma match_capture_safe: "\<not> bad_read (match_capture src ms s l)"
  by (auto simp: match_capture_def check_capture_def bad_bind Let_def split: prod.splits)

lemma count_max_safe:
  assumes "\<And>s. \<not> bad_read (single_at src pat s p ep)"
  shows "\<not> bad_read (count_max src pat s p ep)"
proof (induction "length src - s" arbitrary: s rule: less_induct)
  case less
  show ?case
  proof (cases "s < length src")
    case True
    then have "\<not> bad_read (count_max src pat (s + 1) p ep)" using less by simp
    then show ?thesis using assms by (subst count_max.simps) (auto simp: bad_bind split: if_splits)
  qed (subst count_max.simps, simp)
qed

subsection \<open>The matcher\<close>

text \<open>What the functions that share the work with \<^verbatim>\<open>match\<close> need of the matcher of the rest.\<close>

locale safe_matcher =
  fixes src :: string and m :: "captures \<Rightarrow> nat \<Rightarrow> mresult"
  assumes safe: "s \<le> length src \<Longrightarrow> \<not> bad_read (m ms s)"
begin

lemma max_loop_safe: "s + i \<le> length src \<Longrightarrow> \<not> bad_read (max_loop m ms s i)"
  by (induction i arbitrary: ms) (auto simp: bad_bind safe split: prod.splits)

lemma max_expand_safe:
  assumes "\<And>s. \<not> bad_read (single_at src pat s p ep)" "s \<le> length src"
  shows "\<not> bad_read (max_expand m src pat ms s p ep)"
proof
  assume "bad_read (max_expand m src pat ms s p ep)"
  then obtain n where n: "count_max src pat s p ep = Inr n" "bad_read (max_loop m ms s n)"
    using count_max_safe [of src pat p ep s] assms(1) by (auto simp: max_expand_def bad_bind)
  have "s + n \<le> length src"
  proof (cases n)
    case (Suc k)
    then have "single_at src pat (s + k) p ep = Inr True" using count_max_counts [OF n(1)] by simp
    then show ?thesis using Suc single_at_inside by fastforce
  qed (use assms(2) in simp)
  then show False using n(2) max_loop_safe by blast
qed

lemma min_expand_safe:
  assumes "\<And>s. \<not> bad_read (single_at src pat s p ep)"
  shows "s \<le> length src \<Longrightarrow> \<not> bad_read (min_expand m src pat ms s p ep)"
proof (induction "length src - s" arbitrary: s ms rule: less_induct)
  case less
  have "\<not> bad_read (min_expand m src pat x (s + 1) p ep)" if "s < length src" for x
    using less that by simp
  then show ?case
    using safe [OF less.prems] assms by (subst min_expand.simps) (auto simp: bad_bind split: if_splits)
qed

lemma start_capture_safe: "s \<le> length src \<Longrightarrow> \<not> bad_read (start_capture m ms s what)"
  by (auto simp: start_capture_def bad_bind safe)

lemma capture_to_close_loop_safe: "\<not> bad_read (capture_to_close_loop ms n)"
  by (induction n) auto

lemma end_capture_safe: "s \<le> length src \<Longrightarrow> \<not> bad_read (end_capture m ms s)"
  by (auto simp: end_capture_def capture_to_close_def bad_bind safe capture_to_close_loop_safe)

end

lemma frontier_safe:
  assumes "classend pat p = Inr ep" "rd_char pat p = Inr x" "x \<noteq> 0" "s \<le> length src"
  shows "\<not> bad_read (frontier_at src pat s p ep)"
  using class_safe(1) [OF assms(1-3)] assms(4)
  by (auto simp: frontier_at_def previous_char_def bad_bind split: if_splits)

lemma match_safe: "s \<le> length src \<Longrightarrow> p \<le> length pat \<Longrightarrow> \<not> bad_read (match src pat ms s p)"
proof (induction "length pat - p" arbitrary: ms s p rule: less_induct)
  case less
  show ?case
  proof (cases "p < length pat")
    case True
    then obtain c d where c: "rd_char pat p = Inr c" and d: "rd_char pat (p + 1) = Inr d"
      by (cases "p + 1 = length pat") (auto simp: rd_char_def)
    show ?thesis
    proof (cases "c = 0")
      case False
      have sub: "\<not> bad_read (match src pat ms s q)" if "p < q" "q \<le> length pat" "s \<le> length src" for ms s q
        using less.hyps [of q s ms] that True by linarith
      have R: "safe_matcher src (\<lambda>ms s. match src pat ms s q)" if "p < q" "q \<le> length pat" for q
        using sub [OF that] by unfold_locales
      note head = match.simps [of src pat ms s p]
      consider "item_start c d" | "c = 40" "d = 41" | "c = 40" "d \<noteq> 41" | "c = 41" | "c = L_ESC" "d = 98"
        | "c = L_ESC" "d = 102" | "c = L_ESC" "c_isdigit d" | "c = 36" "d = 0"
        using False by (auto simp: item_start_def)
      then show ?thesis
      proof cases
        case 1
        show ?thesis
        proof (cases "classend pat p")
          case ep: (Inr ep)
          have lt: "p < ep" "ep \<le> length pat" using classend_bounds [OF ep c False] by auto
          have item: "\<not> bad_read (single_at src pat s p ep)" for s by (rule single_at_safe [OF ep c False])
          obtain q where q: "rd_char pat ep = Inr q" using lt by (cases "ep = length pat") (auto simp: rd_char_def)
          have nx: "ep + 1 \<le> length pat" if "q \<noteq> 0" using rd_char_nz [OF q that] by simp
          show ?thesis
          proof (cases "single_at src pat s p ep")
            case m: (Inr m)
            then have m1: "s + 1 \<le> length src" if m using single_at_inside that by fastforce
            show ?thesis
              using 1 c d ep m q False lt m1 nx sub [of ep "s + 1"] sub [of "ep + 1" s] sub [of "ep + 1" "s + 1"]
                less.prems(1) safe_matcher.max_expand_safe [OF R item, of "ep + 1"]
                safe_matcher.min_expand_safe [OF R item, of "ep + 1"]
              by (auto simp: head item_start_def bad_bind)
          next
            case (Inl x)
            with item [of s] 1 c d ep q False show ?thesis by (auto simp: head item_start_def)
          qed
        next
          case (Inl x)
          with classend_safe [OF c False] 1 c d False show ?thesis by (auto simp: head item_start_def)
        qed
      next
        case 2
        then have "p + 2 \<le> length pat" using rd_char_nz [OF d] by simp
        then show ?thesis using 2 c d safe_matcher.start_capture_safe [OF R] less.prems(1) by (simp add: head)
      next
        case 3
        then show ?thesis using c d True safe_matcher.start_capture_safe [OF R] less.prems(1) by (simp add: head)
      next
        case 4
        then show ?thesis using c d True safe_matcher.end_capture_safe [OF R] less.prems(1) by (simp add: head)
      next
        case 5
        then have l: "p + 2 \<le> length pat" using rd_char_nz [OF d] by simp
        note b = matchbalance_safe [OF l less.prems(1)]
        show ?thesis
          using 5 c d b matchbalance_bounds [of src pat s "p + 2"] sub [of "p + 4"]
          by (auto simp: head L_ESC_def bad_bind split: option.splits)
      next
        case 6
        then have l: "p + 2 \<le> length pat" using rd_char_nz [OF d] by simp
        then obtain x where x: "rd_char pat (p + 2) = Inr x" by (cases "p + 2 = length pat") (auto simp: rd_char_def)
        show ?thesis
        proof (cases "x = 91")
          case b: True
          then have nz: "x \<noteq> 0" by simp
          show ?thesis
          proof (cases "classend pat (p + 2)")
            case ep: (Inr ep)
            then show ?thesis
              using 6 c d x b frontier_safe [OF ep x nz less.prems(1)] classend_bounds [OF ep x nz] sub [of ep s]
                less.prems(1) by (auto simp: head L_ESC_def bad_bind)
          next
            case (Inl e)
            with 6 c d x b classend_safe [OF x nz] show ?thesis by (auto simp: head L_ESC_def)
          qed
        qed (use 6 c d x in \<open>simp add: head L_ESC_def\<close>)
      next
        case 7
        then have "d \<noteq> 0" by (auto simp: c_isdigit_def)
        then have l: "p + 2 \<le> length pat" using rd_char_nz [OF d] by simp
        then show ?thesis
          using 7 c d match_capture_safe [of src ms s d] match_capture_bounds [of src ms s d] less.prems(1) sub [of "p + 2"]
          by (auto simp: head L_ESC_def c_isdigit_def bad_bind split: option.splits)
      next
        case 8
        then show ?thesis using c d by (simp add: head L_ESC_def)
      qed
    qed (use c in \<open>simp add: match.simps\<close>)
  next
    case False
    with less.prems(2) have "rd_char pat p = Inr 0" by (simp add: rd_char_def)
    then show ?thesis by (simp add: match.simps [of src pat ms s p])
  qed
qed

text \<open>The matcher is itself a matcher of the rest of a pattern, and a safe one.\<close>

interpretation pattern: rest_matcher "\<lambda>ms s. match src pat ms s p" "\<lambda>ms s. pm src pat ms s p" for src pat p
  by unfold_locales (rule match_implements)

interpretation safe_pattern: safe_matcher src "\<lambda>ms s. match src pat ms s 0" for src pat
  by unfold_locales (simp add: match_safe)

text \<open>
  C18: for every pattern and subject \<^verbatim>\<open>match\<close> ends without reading past either string; when it
  returns the end of a match the pattern matches up to there and the captures lie before it, and
  when it returns null there is no way at all for the pattern to match, and the captures are as
  they were.\<close>

theorem match_correct:
  assumes "captures_in src s ms" "p \<le> length pat"
  shows "case match src pat ms s p of
      Inl e \<Rightarrow> e \<noteq> BadRead
    | Inr (Some e, ms') \<Rightarrow> pm src pat ms s p e ms' \<and> s \<le> e \<and> captures_in src e ms'
    | Inr (None, ms') \<Rightarrow> ms' = ms \<and> (\<forall>e ms'. \<not> pm src pat ms s p e ms')"
proof -
  have "s \<le> length src" using assms(1) by (simp add: captures_in_def)
  then have "\<not> bad_read (match src pat ms s p)" using assms(2) by (rule match_safe)
  with pattern.implemented [of src pat ms s p] pm_bounds [OF _ assms(1), of pat p] show ?thesis
    by (fastforce simp: implements_def split: sum.splits option.splits)
qed

theorem match_correct_witness:
  "match ''key=value'' ''(%w+)=(%w*)'' [] 0 0 = Inr (Some 9, [(0, 3), (4, 5)]) \<and>
   pm ''key=value'' ''(%w+)=(%w*)'' [] 0 0 9 [(0, 3), (4, 5)] \<and> captures_in ''key=value'' 9 [(0, 3), (4, 5)]"
proof -
  have m: "match ''key=value'' ''(%w+)=(%w*)'' [] 0 0 = Inr (Some 9, [(0, 3), (4, 5)])" by code_simp
  have "captures_in ''key=value'' 0 []" by (simp add: captures_in_def)
  from match_correct [OF this, of 0 "''(%w+)=(%w*)''"] m show ?thesis by simp
qed

end
