(* ===== verification/Strlib.thy ===== *)
theory Strlib
  imports Pattern_Safety Numbers
begin

text \<open>
  The operations of the string library (\<^verbatim>\<open>lstrlib.c\<close>) after their arguments are read: a string
  argument is its bytes, an integer argument the \<^verbatim>\<open>ptrdiff_t\<close> of \<^verbatim>\<open>luaL_checkinteger\<close>, an
  optional one an \<^verbatim>\<open>option\<close>.  Results are the Lua values left on the stack.  A
  \<^verbatim>\<open>luaL_Buffer\<close> is the string collected in it.
\<close>

text \<open>The Lua values that pass through; \<open>VOther\<close> carries the name of the type.\<close>

datatype lvalue = VNil | VBool bool | VNum lua_Number | VStr string | VOther string

definition pushinteger :: "int \<Rightarrow> lvalue" where
  "pushinteger n = VNum (cast_num n)"

text \<open>A \<^verbatim>\<open>ptrdiff_t\<close> cast to \<^verbatim>\<open>int\<close>.\<close>

definition c_int :: "int \<Rightarrow> int" where
  "c_int x = signed_take_bit 31 x"

definition LUAI_MAXCSTACK :: nat where "LUAI_MAXCSTACK = 8000"

definition lua_checkstack :: "nat \<Rightarrow> int \<Rightarrow> bool" where
  "lua_checkstack used sz \<longleftrightarrow> \<not> (sz > int LUAI_MAXCSTACK \<or> int used + sz > int LUAI_MAXCSTACK)"

definition luaL_checkstack :: "nat \<Rightarrow> int \<Rightarrow> string \<Rightarrow> merror + unit" where
  "luaL_checkstack used space mes =
     (if lua_checkstack used space then Inr () else Inl (MError (''stack overflow ('' @ mes @ '')'')))"

subsection \<open>Slices and characters\<close>

definition str_len :: "string \<Rightarrow> lvalue list" where
  "str_len s = [pushinteger (int (length s))]"

definition posrelat :: "int \<Rightarrow> nat \<Rightarrow> int" where
  "posrelat pos len =
     (let pos = if pos < 0 then pos + int len + 1 else pos in if pos \<ge> 0 then pos else 0)"

definition str_sub :: "string \<Rightarrow> int \<Rightarrow> int option \<Rightarrow> string" where
  "str_sub s i j =
     (let l = length s; start = posrelat i l; end = posrelat (case j of None \<Rightarrow> - 1 | Some j \<Rightarrow> j) l;
          start = if start < 1 then 1 else start; end = if end > int l then int l else end in
      if start \<le> end then take (nat (end - start + 1)) (drop (nat (start - 1)) s) else [])"

fun str_reverse_loop :: "string \<Rightarrow> nat \<Rightarrow> string \<Rightarrow> string" where
  "str_reverse_loop s 0 b = b"
| "str_reverse_loop s (Suc l) b = str_reverse_loop s l (b @ [s ! l])"

definition str_reverse :: "string \<Rightarrow> string" where
  "str_reverse s = str_reverse_loop s (length s) []"

definition str_lower :: "string \<Rightarrow> string" where
  "str_lower s = map (\<lambda>c. char_int (c_tolower (ch c))) s"

definition str_upper :: "string \<Rightarrow> string" where
  "str_upper s = map (\<lambda>c. char_int (c_toupper (ch c))) s"

function str_rep_loop :: "string \<Rightarrow> int \<Rightarrow> string \<Rightarrow> string" where
  "str_rep_loop s n b = (if n > 0 then str_rep_loop s (n - 1) (b @ s) else b)"
  by pat_completeness auto
termination
  by (relation "measure (\<lambda>(s, n, b). nat n)") auto

declare str_rep_loop.simps [simp del]

definition str_rep :: "string \<Rightarrow> int \<Rightarrow> string" where
  "str_rep s n = str_rep_loop s (c_int n) []"

definition str_byte :: "nat \<Rightarrow> string \<Rightarrow> int option \<Rightarrow> int option \<Rightarrow> merror + lvalue list" where
  "str_byte used s i j =
     (let l = length s; posi = posrelat (case i of None \<Rightarrow> 1 | Some i \<Rightarrow> i) l;
          pose = posrelat (case j of None \<Rightarrow> posi | Some j \<Rightarrow> j) l;
          posi = if posi \<le> 0 then 1 else posi; pose = if pose > int l then int l else pose in
      if posi > pose then Inr []
      else let n = c_int (pose - posi + 1) in
        if posi + n \<le> pose then Inl (MError ''string slice too long'')
        else bindE (luaL_checkstack used n ''string slice too long'') (\<lambda>_.
          Inr (map (\<lambda>k. pushinteger (ch (s ! nat (posi + int k - 1)))) [0..<nat n])))"

fun str_char_loop :: "int list \<Rightarrow> string \<Rightarrow> merror + string" where
  "str_char_loop [] b = Inr b"
| "str_char_loop (x # xs) b =
     (let c = c_int x in
      if c mod 256 = c then str_char_loop xs (b @ [char_int (c mod 256)]) else Inl (MError ''invalid value''))"

definition str_char :: "int list \<Rightarrow> merror + string" where
  "str_char args = str_char_loop args []"

subsection \<open>Searching\<close>

text \<open>\<^verbatim>\<open>memchr (s1 + i, c, n)\<close>, as an index of \<open>s1\<close>.\<close>

fun memchr :: "string \<Rightarrow> nat \<Rightarrow> char \<Rightarrow> nat \<Rightarrow> nat option" where
  "memchr s i c 0 = None"
| "memchr s i c (Suc n) = (if s ! i = c then Some i else memchr s (Suc i) c n)"

lemma memchr_Some: "memchr s i c n = Some k \<Longrightarrow> i \<le> k \<and> k < i + n \<and> s ! k = c \<and> (\<forall>j. i \<le> j \<and> j < k \<longrightarrow> s ! j \<noteq> c)"
  by (induction s i c n rule: memchr.induct) (auto split: if_splits simp: Suc_le_eq dest: le_neq_implies_less)

lemma memchr_None: "memchr s i c n = None \<longleftrightarrow> (\<forall>j \<in> {i..<i + n}. s ! j \<noteq> c)"
proof (induction s i c n rule: memchr.induct)
  case (2 s i c n)
  have "{i..<i + Suc n} = insert i {Suc i..<Suc i + n}" by auto
  with 2 show ?case by auto
qed simp

text \<open>The loop of \<^verbatim>\<open>lmemfind\<close>: \<open>i\<close> is the offset of the current \<^verbatim>\<open>s1\<close> and \<open>l1\<close>, \<open>l2\<close> its counters.\<close>

function lmemfind_loop :: "string \<Rightarrow> nat \<Rightarrow> nat \<Rightarrow> string \<Rightarrow> nat \<Rightarrow> nat option" where
  "lmemfind_loop s1 i l1 s2 l2 =
     (if l1 > 0 then
        (case memchr s1 i (s2 ! 0) l1 of
           None \<Rightarrow> None
         | Some k \<Rightarrow>
             if take l2 (drop (k + 1) s1) = take l2 (drop 1 s2) then Some k
             else lmemfind_loop s1 (k + 1) (l1 - (k + 1 - i)) s2 l2)
      else None)"
  by pat_completeness auto
termination
  by (relation "measure (\<lambda>(s1, i, l1, s2, l2). l1)") (auto dest: memchr_Some)

declare lmemfind_loop.simps [simp del]

definition lmemfind :: "string \<Rightarrow> string \<Rightarrow> nat option" where
  "lmemfind s1 s2 =
     (if length s2 = 0 then Some 0
      else if length s2 > length s1 then None
      else lmemfind_loop s1 0 (length s1 - (length s2 - 1)) s2 (length s2 - 1))"

definition push_onecapture :: "string \<Rightarrow> captures \<Rightarrow> int \<Rightarrow> nat \<Rightarrow> nat \<Rightarrow> merror + lvalue" where
  "push_onecapture src ms i s e =
     (if i \<ge> int (length ms) then
        (if i = 0 then Inr (VStr (take (e - s) (drop s src))) else Inl (MError ''invalid capture index''))
      else
        let (init, l) = ms ! nat i in
        if l = CAP_UNFINISHED then Inl (MError ''unfinished capture'')
        else if l = CAP_POSITION then Inr (pushinteger (int init + 1))
        else Inr (VStr (take (nat l) (drop init src))))"

fun push_loop :: "string \<Rightarrow> captures \<Rightarrow> nat \<Rightarrow> nat \<Rightarrow> nat list \<Rightarrow> merror + lvalue list" where
  "push_loop src ms s e [] = Inr []"
| "push_loop src ms s e (i # is) =
     bindE (push_onecapture src ms (int i) s e) (\<lambda>v. bindE (push_loop src ms s e is) (\<lambda>vs. Inr (v # vs)))"

text \<open>\<open>whole\<close> is the match, if the caller wants it pushed when there are no captures.\<close>

definition push_captures :: "nat \<Rightarrow> string \<Rightarrow> captures \<Rightarrow> (nat \<times> nat) option \<Rightarrow> merror + lvalue list" where
  "push_captures used src ms whole =
     (let nlevels = if length ms = 0 \<and> whole \<noteq> None then 1 else length ms in
      bindE (luaL_checkstack used (int nlevels) ''too many captures'') (\<lambda>_.
        case whole of
          None \<Rightarrow> push_loop src ms 0 0 [0..<nlevels]
        | Some (s, e) \<Rightarrow> push_loop src ms s e [0..<nlevels]))"

definition SPECIALS :: string where "SPECIALS = ''^$*+?.([%-''"

function find_loop :: "nat \<Rightarrow> string \<Rightarrow> string \<Rightarrow> nat \<Rightarrow> bool \<Rightarrow> bool \<Rightarrow> nat \<Rightarrow> merror + lvalue list" where
  "find_loop used s p pstart is_find anchor s1 =
     bindE (match s p [] s1 pstart) (\<lambda>(res, ms).
       case res of
         Some e \<Rightarrow>
           if is_find then
             bindE (push_captures (used + 2) s ms None) (\<lambda>vs. Inr (pushinteger (int s1 + 1) # pushinteger (int e) # vs))
           else push_captures used s ms (Some (s1, e))
       | None \<Rightarrow> if s1 < length s \<and> \<not> anchor then find_loop used s p pstart is_find anchor (s1 + 1) else Inr [VNil])"
  by pat_completeness auto
termination
  by (relation "measure (\<lambda>(used, s, p, pstart, find, anchor, s1). length s - s1)") auto

declare find_loop.simps [simp del]

text \<open>\<open>plain\<close> is the truth value of the fourth argument, \<open>used\<close> the number of arguments.\<close>

definition str_find_aux :: "nat \<Rightarrow> string \<Rightarrow> string \<Rightarrow> int option \<Rightarrow> bool \<Rightarrow> bool \<Rightarrow> merror + lvalue list" where
  "str_find_aux used s p i plain is_find =
     (let l1 = length s; init = posrelat (case i of None \<Rightarrow> 1 | Some i \<Rightarrow> i) l1 - 1;
          init = nat (if init < 0 then 0 else if init > int l1 then int l1 else init) in
      if is_find \<and> (plain \<or> (\<forall>c \<in> set (c_str p). c \<notin> set SPECIALS)) then
        (case lmemfind (drop init s) p of
           Some k \<Rightarrow> Inr [pushinteger (int (init + k) + 1), pushinteger (int (init + k) + int (length p))]
         | None \<Rightarrow> Inr [VNil])
      else
        let anchor = (rd_char p 0 = Inr 94) in
        find_loop used s p (if anchor then 1 else 0) is_find anchor init)"

definition str_find :: "nat \<Rightarrow> string \<Rightarrow> string \<Rightarrow> int option \<Rightarrow> bool \<Rightarrow> merror + lvalue list" where
  "str_find used s p i plain = str_find_aux used s p i plain True"

definition str_match :: "nat \<Rightarrow> string \<Rightarrow> string \<Rightarrow> int option \<Rightarrow> bool \<Rightarrow> merror + lvalue list" where
  "str_match used s p i plain = str_find_aux used s p i plain False"

text \<open>
  The iterator of \<^verbatim>\<open>gmatch\<close>: \<open>start\<close> is its third upvalue.  \<open>None\<close> is the end of the
  iteration; otherwise the results and the new upvalue.\<close>

function gmatch_aux :: "string \<Rightarrow> string \<Rightarrow> nat \<Rightarrow> merror + (lvalue list \<times> nat) option" where
  "gmatch_aux s p src =
     (if src \<le> length s then
        bindE (match s p [] src 0) (\<lambda>(res, ms).
          case res of
            Some e \<Rightarrow> bindE (push_captures 0 s ms (Some (src, e))) (\<lambda>vs.
              Inr (Some (vs, if e = src then e + 1 else e)))
          | None \<Rightarrow> gmatch_aux s p (src + 1))
      else Inr None)"
  by pat_completeness auto
termination
  by (relation "measure (\<lambda>(s, p, src). Suc (length s) - src)") auto

declare gmatch_aux.simps [simp del]

subsection \<open>Substitution\<close>

text \<open>
  The third argument of \<^verbatim>\<open>gsub\<close>.  A function is Lua code and a table may have an \<^verbatim>\<open>__index\<close>
  metamethod; both may change the state \<open>'g\<close> of the program or raise an error.\<close>

datatype 'g repl =
  RString string
| RFunction "lvalue list \<Rightarrow> 'g \<Rightarrow> merror + lvalue \<times> 'g"
| RTable "lvalue \<Rightarrow> 'g \<Rightarrow> merror + lvalue \<times> 'g"

text \<open>\<^verbatim>\<open>luaL_addvalue\<close> of a string or a number; \<open>num2str\<close> is \<^verbatim>\<open>lua_number2str\<close>.\<close>

fun value_text :: "(lua_Number \<Rightarrow> string) \<Rightarrow> lvalue \<Rightarrow> string option" where
  "value_text num2str (VStr s) = Some s"
| "value_text num2str (VNum n) = Some (num2str n)"
| "value_text num2str _ = None"

function add_s_loop ::
  "(lua_Number \<Rightarrow> string) \<Rightarrow> string \<Rightarrow> captures \<Rightarrow> string \<Rightarrow> nat \<Rightarrow> nat \<Rightarrow> nat \<Rightarrow> string \<Rightarrow> merror + string" where
  "add_s_loop num2str src ms news s e i b =
     (if i < length news then
        if news ! i \<noteq> CHR 0x25 then add_s_loop num2str src ms news s e (i + 1) (b @ [news ! i])
        else
          bindE (rd_char news (i + 1)) (\<lambda>x.
            if \<not> c_isdigit x then add_s_loop num2str src ms news s e (i + 2) (b @ [char_int x])
            else if x = 48 then add_s_loop num2str src ms news s e (i + 2) (b @ take (e - s) (drop s src))
            else
              bindE (push_onecapture src ms (x - 49) s e) (\<lambda>v.
                add_s_loop num2str src ms news s e (i + 2) (b @ the (value_text num2str v))))
      else Inr b)"
  by pat_completeness auto
termination
  by (relation "measure (\<lambda>(num2str, src, ms, news, s, e, i, b). length news - i)") auto

declare add_s_loop.simps [simp del]

definition add_s ::
  "(lua_Number \<Rightarrow> string) \<Rightarrow> string \<Rightarrow> captures \<Rightarrow> string \<Rightarrow> nat \<Rightarrow> nat \<Rightarrow> string \<Rightarrow> merror + string" where
  "add_s num2str src ms news s e b = add_s_loop num2str src ms news s e 0 b"

fun type_name :: "lvalue \<Rightarrow> string" where
  "type_name VNil = ''nil''"
| "type_name (VBool b) = ''boolean''"
| "type_name (VNum n) = ''number''"
| "type_name (VStr s) = ''string''"
| "type_name (VOther t) = t"

text \<open>The end of \<^verbatim>\<open>add_value\<close>: what a function or a table gave is added to the buffer.\<close>

definition add_result :: "(lua_Number \<Rightarrow> string) \<Rightarrow> string \<Rightarrow> nat \<Rightarrow> nat \<Rightarrow> string \<Rightarrow> lvalue \<Rightarrow> merror + string" where
  "add_result num2str src s e b v =
     (if v = VNil \<or> v = VBool False then Inr (b @ take (e - s) (drop s src))
      else case value_text num2str v of
        Some t \<Rightarrow> Inr (b @ t)
      | None \<Rightarrow> Inl (MError (''invalid replacement value (a '' @ type_name v @ '')'')))"

definition add_value ::
  "(lua_Number \<Rightarrow> string) \<Rightarrow> 'g repl \<Rightarrow> nat \<Rightarrow> string \<Rightarrow> captures \<Rightarrow> nat \<Rightarrow> nat \<Rightarrow> string \<Rightarrow> 'g \<Rightarrow> merror + string \<times> 'g" where
  "add_value num2str r used src ms s e b g =
     (case r of
        RString news \<Rightarrow> bindE (add_s num2str src ms news s e b) (\<lambda>b. Inr (b, g))
      | RFunction f \<Rightarrow>
          bindE (push_captures (used + 1) src ms (Some (s, e))) (\<lambda>vs.
          bindE (f vs g) (\<lambda>(v, g). bindE (add_result num2str src s e b v) (\<lambda>b. Inr (b, g))))
      | RTable t \<Rightarrow>
          bindE (push_onecapture src ms 0 s e) (\<lambda>k.
          bindE (t k g) (\<lambda>(v, g). bindE (add_result num2str src s e b v) (\<lambda>b. Inr (b, g)))))"

text \<open>A match ends where it starts or inside the subject, so the loop of \<^verbatim>\<open>gsub\<close> advances.\<close>

lemma pm_advances: "pm src pat ms s p e ms' \<Longrightarrow> s \<le> e \<and> (e = s \<or> e \<le> length src)"
proof (induction rule: pm.induct)
  case (pm_balance p s t ms e ms')
  then show ?case using matchbalance_bounds [OF pm_balance.hyps(3)] by auto
next
  case (pm_back p d ms s t e ms')
  then have "s \<le> t \<and> (t = s \<or> t \<le> length src)"
    by (auto simp: match_capture_def bindE_Inr_iff Let_def case_prod_beta simp del: split_paired_All split: if_splits)
  then show ?case using pm_back.IH by auto
next
  case (pm_item p c d ep q k s ms e ms')
  have "k = 0 \<or> s + k \<le> length src"
  proof (cases k)
    case (Suc j)
    then have "single_at src pat (s + j) p ep = Inr True" using pm_item.hyps by simp
    then show ?thesis using Suc single_at_inside by fastforce
  qed simp
  then show ?case using pm_item.IH by auto
qed auto

lemma match_advances:
  assumes "match src pat ms s p = Inr (Some e, ms')"
  shows "s \<le> e \<and> (e = s \<or> e \<le> length src)"
  using match_implements [of src pat ms s p] assms pm_advances by simp

text \<open>The loop of \<^verbatim>\<open>gsub\<close>, with what it keeps: the position, the count, the buffer and the program.\<close>

function gsub_loop ::
  "(lua_Number \<Rightarrow> string) \<Rightarrow> 'g repl \<Rightarrow> nat \<Rightarrow> string \<Rightarrow> string \<Rightarrow> nat \<Rightarrow> bool \<Rightarrow> int \<Rightarrow> nat \<Rightarrow> int \<Rightarrow> string \<Rightarrow> 'g \<Rightarrow>
   merror + (nat \<times> int \<times> string \<times> 'g)" where
  "gsub_loop num2str r used s p pstart anchor max_s src n b g =
     (if n < max_s then
        bindE (match s p [] src pstart) (\<lambda>(res, ms).
        bindE (case res of
                 None \<Rightarrow> Inr (n, b, g)
               | Some e \<Rightarrow> bindE (add_value num2str r used s ms src e b g) (\<lambda>(b, g). Inr (n + 1, b, g)))
          (\<lambda>(n, b, g).
             let e = (case res of None \<Rightarrow> src | Some e \<Rightarrow> e) in
             if e > src then
               (if anchor then Inr (e, n, b, g) else gsub_loop num2str r used s p pstart anchor max_s e n b g)
             else if src < length s then
               (if anchor then Inr (src + 1, n, b @ [s ! src], g)
                else gsub_loop num2str r used s p pstart anchor max_s (src + 1) n (b @ [s ! src]) g)
             else Inr (src, n, b, g)))
      else Inr (src, n, b, g))"
  by pat_completeness auto
termination
proof (relation "measure (\<lambda>(num2str, r, used, s, p, pstart, anchor, max_s, src, n, b, g). length s - src)", goal_cases)
  case (2 num2str r used s p pstart anchor max_s src n b g m res ms z n' y b' g' e)
  then have "match s p [] src pstart = Inr (Some e, ms)" "src < e" by (auto split: option.splits)
  then show ?case using match_advances by fastforce
qed auto

declare gsub_loop.simps [simp del]

definition str_gsub ::
  "(lua_Number \<Rightarrow> string) \<Rightarrow> nat \<Rightarrow> string \<Rightarrow> string \<Rightarrow> 'g repl \<Rightarrow> int option \<Rightarrow> 'g \<Rightarrow> merror + (lvalue list \<times> 'g)" where
  "str_gsub num2str used s p r max_arg g =
     (let max_s = c_int (case max_arg of None \<Rightarrow> int (length s) + 1 | Some m \<Rightarrow> m);
          anchor = (rd_char p 0 = Inr 94) in
      bindE (gsub_loop num2str r used s p (if anchor then 1 else 0) anchor max_s 0 0 [] g) (\<lambda>(src, n, b, g).
        Inr ([VStr (b @ drop src s), pushinteger n], g)))"

end
