(* ===== verification/Strlib_Laws.thy ===== *)
theory Strlib_Laws
  imports Strlib
begin

text \<open>What the operations of the string library compute.\<close>

subsection \<open>Plain search\<close>

definition occurs_at :: "string \<Rightarrow> string \<Rightarrow> nat \<Rightarrow> bool" where
  "occurs_at s p k \<longleftrightarrow> k + length p \<le> length s \<and> take (length p) (drop k s) = p"

lemma occurs_at_Cons:
  "occurs_at s (c # p) k \<longleftrightarrow> k + length p < length s \<and> s ! k = c \<and> take (length p) (drop (k + 1) s) = p"
  by (auto simp: occurs_at_def Cons_nth_drop_Suc [symmetric])

lemma lmemfind_loop_first:
  assumes "i + l1 + length p = length s"
  shows "(case lmemfind_loop s i l1 (c # p) (length p) of
            Some k \<Rightarrow> i \<le> k \<and> occurs_at s (c # p) k \<and> (\<forall>j. i \<le> j \<and> j < k \<longrightarrow> \<not> occurs_at s (c # p) j)
          | None \<Rightarrow> \<forall>j \<ge> i. \<not> occurs_at s (c # p) j)"
  using assms
proof (induction l1 arbitrary: i rule: less_induct)
  case (less l1)
  show ?case
  proof (cases "l1 = 0")
    case True
    with less.prems show ?thesis by (simp add: lmemfind_loop.simps occurs_at_Cons)
  next
    case False
    show ?thesis
    proof (cases "memchr s i c l1")
      case None
      then have "\<not> occurs_at s (c # p) j" if "i \<le> j" for j
        using that less.prems by (auto simp: memchr_None occurs_at_Cons)
      with None show ?thesis by (simp add: lmemfind_loop.simps)
    next
      case (Some k)
      note k = memchr_Some [OF Some]
      show ?thesis
      proof (cases "take (length p) (drop (k + 1) s) = p")
        case True
        with k less.prems have "occurs_at s (c # p) k" by (simp add: occurs_at_Cons)
        moreover have "\<not> occurs_at s (c # p) j" if "i \<le> j" "j < k" for j
          using k that by (auto simp: occurs_at_Cons)
        ultimately show ?thesis using Some k True False by (simp add: lmemfind_loop.simps)
      next
        case miss: False
        let ?l = "l1 - (k + 1 - i)"
        have step: "lmemfind_loop s i l1 (c # p) (length p) = lmemfind_loop s (k + 1) ?l (c # p) (length p)"
          using Some miss False by (subst lmemfind_loop.simps) simp
        have no: "\<not> occurs_at s (c # p) j" if "i \<le> j" "j < k + 1" for j
          using k miss that by (auto simp: occurs_at_Cons less_Suc_eq)
        have "?l < l1" "k + 1 + ?l + length p = length s" using k less.prems by auto
        from less.IH [OF this] no k show ?thesis
          unfolding step by (auto split: option.splits) (meson Suc_leI not_less)+
      qed
    qed
  qed
qed

text \<open>
  a plain search returns the first occurrence, and none only if there is none.\<close>

theorem lmemfind_first:
  "lmemfind s p = Some k \<longleftrightarrow> occurs_at s p k \<and> (\<forall>j < k. \<not> occurs_at s p j)"
proof (cases p)
  case Nil
  then show ?thesis by (auto simp: lmemfind_def occurs_at_def)
next
  case (Cons c q)
  show ?thesis
  proof (cases "length s < length p")
    case True
    then show ?thesis by (auto simp: lmemfind_def occurs_at_def Cons)
  next
    case False
    then have "0 + (length s - length q) + length q = length s" using Cons by simp
    note first = lmemfind_loop_first [OF this, of c]
    have run: "lmemfind s (c # q) = lmemfind_loop s 0 (length s - length q) (c # q) (length q)"
      using False Cons by (simp add: lmemfind_def)
    show ?thesis
    proof (cases "lmemfind s (c # q)")
      case None
      with first have "\<not> occurs_at s (c # q) k" for k by (simp add: run)
      with None show ?thesis by (simp add: Cons)
    next
      case (Some k')
      with first have k': "occurs_at s (c # q) k'" "\<And>j. j < k' \<Longrightarrow> \<not> occurs_at s (c # q) j" by (auto simp: run)
      have "k' = k" if "occurs_at s (c # q) k" "\<forall>j < k. \<not> occurs_at s (c # q) j"
        using that k' by (cases k k' rule: linorder_cases) auto
      with Some k' show ?thesis by (auto simp: Cons)
    qed
  qed
qed

theorem lmemfind_first_witness:
  "lmemfind ''abcabc'' ''ca'' = Some 2 \<and> occurs_at ''abcabc'' ''ca'' 2 \<and> (\<forall>j < 2. \<not> occurs_at ''abcabc'' ''ca'' j)"
proof -
  have "lmemfind ''abcabc'' ''ca'' = Some 2" by code_simp
  then show ?thesis using lmemfind_first [of "''abcabc''" "''ca''" 2] by blast
qed

subsection \<open>Slices\<close>

lemma nths_interval: "nths s {k. a \<le> k \<and> k < b} = take (b - a) (drop a s)"
proof (induction s arbitrary: a b)
  case (Cons x s)
  show ?case
  proof (cases a)
    case 0
    show ?thesis
    proof (cases b)
      case (Suc b')
      then have "{j. Suc j \<in> {k. a \<le> k \<and> k < b}} = {k. 0 \<le> k \<and> k < b'}" using 0 by auto
      then show ?thesis using Cons [of 0 b'] 0 Suc by (simp add: nths_Cons)
    qed (simp add: 0)
  next
    case (Suc a')
    then have "{j. Suc j \<in> {k. a \<le> k \<and> k < b}} = {k. a' \<le> k \<and> k < b - 1}" by auto
    then show ?thesis using Cons [of a' "b - 1"] Suc by (simp add: nths_Cons)
  qed
qed simp

text \<open>
  \<^verbatim>\<open>string.sub\<close> gives exactly the characters whose 1-based positions lie between its two
  arguments, a negative argument counting from the end.\<close>

theorem str_sub_positions:
  "str_sub s i (Some j) = nths s {k. posrelat i (length s) \<le> int k + 1 \<and> int k + 1 \<le> posrelat j (length s)}"
proof -
  let ?a = "posrelat i (length s)" and ?b = "posrelat j (length s)"
  have nn: "0 \<le> ?a" "0 \<le> ?b" by (simp_all add: posrelat_def Let_def)
  have "{k. ?a \<le> int k + 1 \<and> int k + 1 \<le> ?b} = {k. nat (?a - 1) \<le> k \<and> k < nat ?b}"
    using nn by auto
  then have nt: "nths s {k. ?a \<le> int k + 1 \<and> int k + 1 \<le> ?b} = take (nat ?b - nat (?a - 1)) (drop (nat (?a - 1)) s)"
    by (simp add: nths_interval)
  show ?thesis
  proof (cases "?a \<le> ?b \<and> ?a \<le> int (length s)")
    case True
    then obtain a b where "?a = int a" "?b = int b" using nn by (metis nonneg_int_cases)
    moreover have "nat (int b - int a + 1) = Suc b - a" by linarith
    ultimately show ?thesis unfolding nt using True
      by (auto simp: str_sub_def Let_def nat_diff_distrib Suc_le_eq)
  qed (use nn in \<open>unfold nt, auto simp: str_sub_def Let_def\<close>)
qed

subsection \<open>Captures\<close>

lemma push_onecapture_safe: "\<not> bad_read (push_onecapture src ms i s e)"
  by (auto simp: push_onecapture_def split: prod.splits)

lemma push_loop_safe: "\<not> bad_read (push_loop src ms s e is)"
  by (induction "is") (auto simp: bad_bind push_onecapture_safe)

lemma push_captures_safe: "\<not> bad_read (push_captures used src ms whole)"
proof -
  have "\<not> bad_read (luaL_checkstack used n m)" for n m by (simp add: luaL_checkstack_def)
  then show ?thesis
    by (simp add: push_captures_def Let_def bad_bind push_loop_safe del: upt_Suc push_loop.simps split: option.split)
qed

subsection \<open>Substitution\<close>

lemma add_s_safe: "\<not> bad_read (add_s_loop num2str src ms news s e i b)"
proof (induction num2str src ms news s e i b rule: add_s_loop.induct)
  case (1 num2str src ms news s e i b)
  show ?case
    using "1.IH" push_onecapture_safe [of src ms _ s e]
    by (subst add_s_loop.simps) (auto simp: bad_bind split: if_splits)
qed

text \<open>A replacement whose code does not itself claim a bad read.\<close>

definition repl_safe :: "'g repl \<Rightarrow> bool" where
  "repl_safe r =
     (case r of RString _ \<Rightarrow> True | RFunction f \<Rightarrow> \<forall>vs g. \<not> bad_read (f vs g) | RTable t \<Rightarrow> \<forall>v g. \<not> bad_read (t v g))"

lemma add_value_safe: "repl_safe r \<Longrightarrow> \<not> bad_read (add_value num2str r used src ms s e b g)"
  by (auto simp: add_value_def repl_safe_def add_s_def add_result_def bad_bind add_s_safe push_captures_safe
      push_onecapture_safe split: repl.splits option.splits if_splits)

lemma gsub_loop_bounds:
  assumes "gsub_loop num2str r used s p ps anchor max_s src n b g = Inr (e, n', b', g')" "src \<le> length s"
  shows "src \<le> e \<and> e \<le> length s \<and> n \<le> n' \<and> n' \<le> n + int (length s - src) + 1 \<and> n' \<le> max n max_s"
  using assms
proof (induction num2str r used s p ps anchor max_s src n b g rule: gsub_loop.induct)
  case (1 num2str r used s p ps anchor max_s src n b g)
  show ?case
  proof (cases "n < max_s")
    case lt: True
    with "1.prems"(1) obtain res ms n1 b1 g1 where
      m: "match s p [] src ps = Inr (res, ms)" and
      a: "(case res of None \<Rightarrow> Inr (n, b, g)
           | Some e \<Rightarrow> bindE (add_value num2str r used s ms src e b g) (\<lambda>(b, g). Inr (n + 1, b, g))) = Inr (n1, b1, g1)"
      by (subst (asm) gsub_loop.simps) (auto simp: bindE_Inr_iff split: prod.splits)
    have n1: "n1 = n \<or> n1 = n + 1" using a by (auto simp: bindE_Inr_iff split: option.splits)
    let ?e = "case res of None \<Rightarrow> src | Some e \<Rightarrow> e"
    have e: "src \<le> ?e \<and> ?e \<le> length s"
      using match_advances [of s p "[]" src ps] m "1.prems"(2) by (auto split: option.splits)
    have run: "(if ?e > src then
        (if anchor then Inr (?e, n1, b1, g1) else gsub_loop num2str r used s p ps anchor max_s ?e n1 b1 g1)
      else if src < length s then
        (if anchor then Inr (src + 1, n1, b1 @ [s ! src], g1)
         else gsub_loop num2str r used s p ps anchor max_s (src + 1) n1 (b1 @ [s ! src]) g1)
      else Inr (src, n1, b1, g1)) = Inr (e, n', b', g')"
      using "1.prems"(1) lt m a by (subst (asm) gsub_loop.simps) (simp add: Let_def)
    note IH = "1.IH" [OF lt m refl a refl refl refl]
    show ?thesis
    proof (cases "?e > src")
      case True
      show ?thesis
      proof (cases anchor)
        case False
        with run True IH(1) [OF True False] e n1 lt show ?thesis by auto
      qed (use run True e n1 lt in auto)
    next
      case stay: False
      show ?thesis
      proof (cases "src < length s \<and> \<not> anchor")
        case True
        then have go: "gsub_loop num2str r used s p ps anchor max_s (src + 1) n1 (b1 @ [s ! src]) g1 = Inr (e, n', b', g')"
          using run stay by simp
        from IH(2) [OF stay _ _ go] True n1 lt show ?thesis by auto
      qed (use run stay n1 lt "1.prems"(2) in \<open>auto split: if_splits\<close>)
    qed
  qed (use "1.prems" in \<open>subst (asm) gsub_loop.simps, auto\<close>)
qed

lemma gsub_loop_safe:
  assumes "repl_safe r" "ps \<le> length p" "src \<le> length s"
  shows "\<not> bad_read (gsub_loop num2str r used s p ps anchor max_s src n b g)"
  using assms(3)
proof (induction "length s - src" arbitrary: src n b g rule: less_induct)
  case less
  note unfold = gsub_loop.simps [of num2str r used s p ps anchor max_s src n b g]
  have on: "\<not> bad_read (gsub_loop num2str r used s p ps anchor max_s t m c h)"
    if "src < t" "t \<le> length s" for t m c h
    using less.hyps [of t m c h] that less.prems by linarith
  show ?case
  proof (cases "n < max_s")
    case lt: True
    show ?thesis
    proof (cases "match s p [] src ps")
      case (Inl x)
      then have "x \<noteq> BadRead" using match_safe [OF less.prems assms(2), of "[]"] by simp
      then show ?thesis using lt Inl by (simp add: unfold)
    next
      case (Inr y)
      obtain res ms where y: "y = (res, ms)" by (cases y)
      show ?thesis
      proof (cases res)
        case None
        then show ?thesis unfolding unfold using lt Inr y on by (cases anchor) auto
      next
        case (Some e)
        have e: "e = src \<or> e \<le> length s" using match_advances [of s p "[]" src ps e ms] Inr y Some by simp
        show ?thesis
        proof (cases "add_value num2str r used s ms src e b g")
          case (Inl x)
          then show ?thesis using lt Inr y Some add_value_safe [OF assms(1)] by (simp add: unfold) metis
        next
          case (Inr z)
          then show ?thesis unfolding unfold
            using lt \<open>match s p [] src ps = Inr y\<close> y Some e on by (cases z; cases anchor) auto
        qed
      qed
    qed
  qed (simp add: unfold)
qed

text \<open>
  C34: \<^verbatim>\<open>string.gsub\<close> ends on every subject, pattern and replacement, reads nothing past the
  strings, and reports at most one substitution per position of the subject and at most the
  number asked for.\<close>

theorem str_gsub_bounds:
  assumes "repl_safe r"
  shows "case str_gsub num2str used s p r max_arg g of
      Inl e \<Rightarrow> e \<noteq> BadRead
    | Inr (vs, g') \<Rightarrow> \<exists>t n. vs = [VStr t, pushinteger n] \<and> 0 \<le> n \<and> n \<le> int (length s) + 1 \<and>
        (case max_arg of None \<Rightarrow> True | Some m \<Rightarrow> n \<le> max 0 (c_int m))"
proof -
  let ?ps = "if rd_char p 0 = Inr 94 then 1 else 0 :: nat"
  let ?max = "c_int (case max_arg of None \<Rightarrow> int (length s) + 1 | Some m \<Rightarrow> m)"
  let ?run = "gsub_loop num2str r used s p ?ps (rd_char p 0 = Inr 94) ?max 0 0 [] g"
  have ps: "?ps \<le> length p" using rd_char_nz [of p 0 94] by (auto simp: Suc_le_eq)
  show ?thesis
  proof (cases ?run)
    case (Inl e)
    with gsub_loop_safe [OF assms ps, of 0 s num2str used _ _ 0 "[]" g] show ?thesis
      by (auto simp: str_gsub_def Let_def)
  next
    case (Inr x)
    obtain e n b g' where x: "x = (e, n, b, g')" by (cases x)
    from gsub_loop_bounds [OF Inr [unfolded x]] have "0 \<le> n" "n \<le> int (length s) + 1" "n \<le> max 0 ?max"
      by simp_all
    with Inr x show ?thesis by (auto simp: str_gsub_def Let_def split: option.splits)
  qed
qed

theorem str_gsub_bounds_witness:
  "case str_gsub (\<lambda>_. []) 3 ''hello'' ''l'' (RString ''L'') (Some 1) () of
      Inl e \<Rightarrow> e \<noteq> BadRead
    | Inr (vs, g') \<Rightarrow> \<exists>t n. vs = [VStr t, pushinteger n] \<and> 0 \<le> n \<and> n \<le> int (length ''hello'') + 1 \<and>
        (case Some 1 of None \<Rightarrow> True | Some m \<Rightarrow> n \<le> max 0 (c_int m))"
  by (rule str_gsub_bounds) (simp add: repl_safe_def)

lemma add_s_whole: "add_s num2str src ms ''%0'' s e b = Inr (b @ take (e - s) (drop s src))"
  by (simp add: add_s_def add_s_loop.simps rd_char_def ch_def c_isdigit_def)

lemma take_append_slice: "i \<le> j \<Longrightarrow> take i s @ take (j - i) (drop i s) = take j s"
  by (metis le_add_diff_inverse take_add)

lemma gsub_loop_identity:
  assumes "gsub_loop num2str (RString ''%0'') used s p ps anchor max_s src n (take src s) g = Inr (e, n', b', g')"
    "src \<le> length s"
  shows "b' = take e s \<and> g' = g \<and> e \<le> length s"
  using assms
proof (induction "length s - src" arbitrary: src n g rule: less_induct)
  case less
  show ?case
  proof (cases "n < max_s")
    case True
    with less.prems(1) obtain res ms where m: "match s p [] src ps = Inr (res, ms)"
      by (subst (asm) gsub_loop.simps) (auto simp: bindE_Inr_iff)
    have next_char: "take src s @ [s ! src] = take (src + 1) s" if "src < length s"
      using that by (simp add: take_Suc_conv_app_nth)
    show ?thesis
    proof (cases "\<exists>e. res = Some e \<and> src < e")
      case go: True
      then obtain e1 where e1: "res = Some e1" "src < e1" by blast
      with match_advances [of s p "[]" src ps e1 ms] m have le: "e1 \<le> length s" by auto
      have b: "take src s @ take (e1 - src) (drop src s) = take e1 s" using e1 by (intro take_append_slice) simp
      show ?thesis
        using less.prems less.hyps [of e1] True m e1 le b
        by (subst (asm) gsub_loop.simps) (auto simp: add_value_def add_s_whole split: if_splits)
    next
      case False
      have b: "take src s @ take (e1 - src) (drop src s) = take src s" if "res = Some e1" for e1
        using that False by simp
      show ?thesis
        using less.prems less.hyps [of "src + 1"] True m False b next_char
        by (subst (asm) gsub_loop.simps)
          (auto simp: add_value_def add_s_whole split: if_splits option.splits)
    qed
  next
    case False
    with less.prems show ?thesis by (subst (asm) gsub_loop.simps) auto
  qed
qed

text \<open>
  replacing every match by itself leaves the subject as it is, for every pattern: no
  character is lost or doubled between, before or after the matches.\<close>

theorem str_gsub_identity:
  "case str_gsub num2str used s p (RString ''%0'') max_arg g of
     Inl _ \<Rightarrow> True
   | Inr (vs, g') \<Rightarrow> g' = g \<and> (\<exists>n. vs = [VStr s, pushinteger n])"
proof -
  let ?ps = "if rd_char p 0 = Inr 94 then 1 else 0 :: nat"
  let ?max = "c_int (case max_arg of None \<Rightarrow> int (length s) + 1 | Some m \<Rightarrow> m)"
  let ?run = "gsub_loop num2str (RString ''%0'') used s p ?ps (rd_char p 0 = Inr 94) ?max 0 0 [] g"
  show ?thesis
  proof (cases ?run)
    case (Inr x)
    obtain e n b g' where x: "x = (e, n, b, g')" by (cases x)
    with Inr have "gsub_loop num2str (RString ''%0'') used s p ?ps (rd_char p 0 = Inr 94) ?max 0 0 (take 0 s) g = Inr (e, n, b, g')"
      by simp
    from gsub_loop_identity [OF this] have "b @ drop e s = s" "g' = g" by simp_all
    with Inr x show ?thesis by (auto simp: str_gsub_def Let_def)
  qed (simp add: str_gsub_def Let_def)
qed

subsection \<open>Searching for a pattern\<close>

lemma find_loop_leftmost:
  assumes "find_loop used s p ps is_find anchor s1 = Inr r" "s1 \<le> length s"
  shows "r = [VNil] \<and> (\<forall>k e ms. s1 \<le> k \<and> k \<le> (if anchor then s1 else length s) \<longrightarrow> \<not> pm s p [] k ps e ms) \<or>
    (\<exists>k e ms. s1 \<le> k \<and> k \<le> (if anchor then s1 else length s) \<and> pm s p [] k ps e ms \<and>
       (\<forall>j e ms. s1 \<le> j \<and> j < k \<longrightarrow> \<not> pm s p [] j ps e ms) \<and>
       (if is_find then \<exists>vs. push_captures (used + 2) s ms None = Inr vs \<and> r = pushinteger (int k + 1) # pushinteger (int e) # vs
        else push_captures used s ms (Some (k, e)) = Inr r))"
  using assms
proof (induction "length s - s1" arbitrary: s1 rule: less_induct)
  case less
  from less.prems(1) obtain res ms where m: "match s p [] s1 ps = Inr (res, ms)"
    by (subst (asm) find_loop.simps) (auto simp: bindE_Inr_iff)
  note impl = match_implements [of s p "[]" s1 ps, unfolded m]
  show ?case
  proof (cases res)
    case (Some e)
    with impl have "pm s p [] s1 ps e ms" by simp
    moreover have "(if is_find then \<exists>vs. push_captures (used + 2) s ms None = Inr vs \<and> r = pushinteger (int s1 + 1) # pushinteger (int e) # vs
        else push_captures used s ms (Some (s1, e)) = Inr r)"
      using less.prems(1) m Some by (subst (asm) find_loop.simps) (auto simp: bindE_Inr_iff split: if_splits)
    ultimately show ?thesis using less.prems(2) by (intro disjI2 exI [of _ s1] exI [of _ e] exI [of _ ms]) auto
  next
    case None
    with impl have no: "\<not> pm s p [] s1 ps e ms" for e ms by simp
    show ?thesis
    proof (cases "s1 < length s \<and> \<not> anchor")
      case True
      then have run: "find_loop used s p ps is_find anchor (s1 + 1) = Inr r"
        using less.prems(1) m None by (subst (asm) find_loop.simps) auto
      from True have "length s - (s1 + 1) < length s - s1" "s1 + 1 \<le> length s" by auto
      note IH = less.hyps [OF this(1) run this(2)]
      have later: "s1 \<le> k \<longleftrightarrow> k = s1 \<or> s1 + 1 \<le> k" for k by auto
      from IH show ?thesis
      proof (elim disjE exE conjE)
        fix k e ms
        assume k: "s1 + 1 \<le> k" "k \<le> (if anchor then s1 + 1 else length s)" "pm s p [] k ps e ms"
          "\<forall>j e ms. s1 + 1 \<le> j \<and> j < k \<longrightarrow> \<not> pm s p [] j ps e ms"
          "(if is_find then \<exists>vs. push_captures (used + 2) s ms None = Inr vs \<and> r = pushinteger (int k + 1) # pushinteger (int e) # vs
            else push_captures used s ms (Some (k, e)) = Inr r)"
        then show ?thesis using True no later
          by (intro disjI2 exI [of _ k] exI [of _ e] exI [of _ ms]) auto
      next
        assume "r = [VNil]"
          "\<forall>k e ms. s1 + 1 \<le> k \<and> k \<le> (if anchor then s1 + 1 else length s) \<longrightarrow> \<not> pm s p [] k ps e ms"
        then show ?thesis using True no later by (intro disjI1) auto
      qed
    next
      case False
      then have "r = [VNil]" using less.prems(1) m None by (subst (asm) find_loop.simps) auto
      then show ?thesis using False no less.prems(2) by (intro disjI1) (auto split: if_splits)
    qed
  qed
qed

text \<open>Where a search starts.\<close>

definition find_init :: "string \<Rightarrow> int option \<Rightarrow> nat" where
  "find_init s i = nat (min (max (posrelat (case i of None \<Rightarrow> 1 | Some i \<Rightarrow> i) (length s) - 1) 0) (int (length s)))"

text \<open>
  \<^verbatim>\<open>string.find\<close> with a pattern that is not anchored returns the leftmost position, from where
  the search starts, at which the pattern matches, and the end of a match there; it returns nil
  only if the pattern matches nowhere from there on.\<close>

theorem str_find_leftmost:
  assumes "str_find used s p i False = Inr r" "\<exists>c \<in> set (c_str p). c \<in> set SPECIALS" "rd_char p 0 \<noteq> Inr 94"
  shows "r = [VNil] \<and> (\<forall>k e ms. find_init s i \<le> k \<and> k \<le> length s \<longrightarrow> \<not> pm s p [] k 0 e ms) \<or>
    (\<exists>k e ms vs. r = pushinteger (int k + 1) # pushinteger (int e) # vs \<and>
       push_captures (used + 2) s ms None = Inr vs \<and> find_init s i \<le> k \<and> k \<le> length s \<and> pm s p [] k 0 e ms \<and>
       (\<forall>j e ms. find_init s i \<le> j \<and> j < k \<longrightarrow> \<not> pm s p [] j 0 e ms))"
proof -
  have init: "nat (if x < 0 then 0 else if x > int l then int l else x) = nat (min (max x 0) (int l))" for x l by auto
  have special: "\<not> (\<forall>c \<in> set (c_str p). c \<notin> set SPECIALS)" using assms(2) by blast
  have run: "find_loop used s p 0 True False (find_init s i) = Inr r"
    using assms(1,3) special by (simp add: str_find_def str_find_aux_def Let_def find_init_def init)
  have "find_init s i \<le> length s" by (auto simp: find_init_def)
  from find_loop_leftmost [OF run this] show ?thesis by auto
qed

theorem str_find_leftmost_witness:
  "\<exists>r. str_find 2 ''say 42'' ''%d+'' None False = Inr r \<and>
    (r = [VNil] \<and> (\<forall>k e ms. find_init ''say 42'' None \<le> k \<and> k \<le> length ''say 42'' \<longrightarrow> \<not> pm ''say 42'' ''%d+'' [] k 0 e ms) \<or>
    (\<exists>k e ms vs. r = pushinteger (int k + 1) # pushinteger (int e) # vs \<and>
       push_captures (2 + 2) ''say 42'' ms None = Inr vs \<and> find_init ''say 42'' None \<le> k \<and> k \<le> length ''say 42'' \<and>
       pm ''say 42'' ''%d+'' [] k 0 e ms \<and>
       (\<forall>j e ms. find_init ''say 42'' None \<le> j \<and> j < k \<longrightarrow> \<not> pm ''say 42'' ''%d+'' [] j 0 e ms)))"
proof -
  have r: "str_find 2 ''say 42'' ''%d+'' None False = Inr [pushinteger 5, pushinteger 6]" by code_simp
  have "\<exists>c \<in> set (c_str ''%d+''). c \<in> set SPECIALS" "rd_char ''%d+'' 0 \<noteq> Inr 94" by code_simp+
  from str_find_leftmost [OF r this] r show ?thesis by blast
qed

subsection \<open>Iteration\<close>

text \<open>
  the iterator of \<^verbatim>\<open>gmatch\<close> always moves on, even over empty matches, and its position
  stays within the subject and its terminating zero, so a loop over the matches ends.\<close>

theorem gmatch_advances:
  assumes "gmatch_aux s p start = Inr (Some (vs, next_start))"
  shows "start < next_start \<and> next_start \<le> length s + 1"
  using assms
proof (induction "length s + 1 - start" arbitrary: start rule: less_induct)
  case less
  show ?case
  proof (cases "start \<le> length s")
    case True
    with less.prems obtain res ms where m: "match s p [] start 0 = Inr (res, ms)"
      by (subst (asm) gmatch_aux.simps) (auto simp: bindE_Inr_iff)
    show ?thesis
    proof (cases res)
      case (Some e)
      with match_advances [of s p "[]" start 0 e ms] m have "start \<le> e \<and> e \<le> length s" using True by auto
      with less.prems True m Some show ?thesis
        by (subst (asm) gmatch_aux.simps) (auto simp: bindE_Inr_iff split: if_splits)
    next
      case None
      then have "gmatch_aux s p (start + 1) = Inr (Some (vs, next_start))"
        using less.prems True m by (subst (asm) gmatch_aux.simps) auto
      moreover have "length s + 1 - (start + 1) < length s + 1 - start" using True by linarith
      ultimately show ?thesis using less.hyps [of "start + 1"] by simp
    qed
  next
    case False
    with less.prems show ?thesis by (subst (asm) gmatch_aux.simps) simp
  qed
qed

theorem gmatch_advances_witness: "\<exists>vs n. gmatch_aux ''ab'' ''x*'' 1 = Inr (Some (vs, n)) \<and> 1 < n \<and> n \<le> length ''ab'' + 1"
proof -
  have "gmatch_aux ''ab'' ''x*'' 1 = Inr (Some ([VStr []], 2))" by code_simp
  from this gmatch_advances [OF this] show ?thesis by blast
qed

subsection \<open>Bytes\<close>

lemma ch_range: "0 \<le> ch c \<and> ch c < 256"
  by (simp add: ch_def)

lemma char_int_ch: "char_int (ch c) = c"
proof -
  have "of_char c mod (256 :: nat) = of_char c" by (rule of_char_mod_256)
  then have "nat (int (of_char c) mod 256) = of_char c" by (simp add: nat_mod_distrib)
  then show ?thesis by (simp add: char_int_def ch_def)
qed

lemma c_int_small: "- (2 ^ 31) \<le> x \<Longrightarrow> x < 2 ^ 31 \<Longrightarrow> c_int x = x"
  by (simp add: c_int_def signed_take_bit_int_eq_self)

lemma str_char_loop_bytes: "str_char_loop (map ch s) b = Inr (b @ s)"
proof (induction s arbitrary: b)
  case (Cons c s)
  have "c_int (ch c) = ch c" "ch c mod 256 = ch c" using ch_range [of c] by (simp_all add: c_int_small)
  with Cons show ?case by (simp add: Let_def char_int_ch)
qed simp

lemma integer_pushinteger: "0 \<le> k \<Longrightarrow> k < 256 \<Longrightarrow> lua_number2integer (cast_num k) = k"
  using d_trunc_cast_num [of k] by (simp add: lua_number2integer_def number_to_bits_def)

text \<open>The integer a number argument is read as (\<^verbatim>\<open>luaL_checkinteger\<close>).\<close>

fun integer_arg :: "lvalue \<Rightarrow> int option" where
  "integer_arg (VNum d) = Some (lua_number2integer d)"
| "integer_arg _ = None"

text \<open>
  \<^verbatim>\<open>string.char\<close> applied to all the numbers \<^verbatim>\<open>string.byte\<close> gives for a string rebuilds it, if the
  stack has room for them.\<close>

theorem byte_char_roundtrip:
  assumes "used + length s \<le> LUAI_MAXCSTACK"
  shows "\<exists>vs ns. str_byte used s (Some 1) (Some (- 1)) = Inr vs \<and> map integer_arg vs = map Some ns \<and> str_char ns = Inr s"
proof (cases "s = []")
  case True
  then show ?thesis by (simp add: str_byte_def posrelat_def Let_def str_char_def)
next
  case False
  then have l: "1 \<le> length s" by (simp add: Suc_le_eq)
  have small: "c_int (int (length s)) = int (length s)"
    using assms by (intro c_int_small) (simp_all add: LUAI_MAXCSTACK_def)
  have room: "luaL_checkstack used (int (length s)) m = Inr ()" for m
    using assms by (simp add: luaL_checkstack_def lua_checkstack_def LUAI_MAXCSTACK_def)
  let ?vs = "map (\<lambda>c. pushinteger (ch c)) s"
  have pos: "posrelat 1 (length s) = 1" "posrelat (- 1) (length s) = int (length s)"
    by (simp_all add: posrelat_def)
  have "map (\<lambda>k. pushinteger (ch (s ! nat (1 + int k - 1)))) [0..<nat (int (length s))] = ?vs"
    by (intro nth_equalityI) simp_all
  with l have "str_byte used s (Some 1) (Some (- 1)) = Inr ?vs"
    by (simp add: str_byte_def pos Let_def small room)
  moreover have "map integer_arg ?vs = map Some (map ch s)"
    using ch_range by (simp add: pushinteger_def integer_pushinteger)
  moreover have "str_char (map ch s) = Inr s" by (simp add: str_char_def str_char_loop_bytes)
  ultimately show ?thesis by blast
qed

theorem byte_char_roundtrip_witness:
  "\<exists>vs ns. str_byte 3 ''Lua'' (Some 1) (Some (- 1)) = Inr vs \<and> map integer_arg vs = map Some ns \<and> str_char ns = Inr ''Lua''"
  by (rule byte_char_roundtrip) (simp add: LUAI_MAXCSTACK_def)

lemma str_reverse_loop_rev: "l \<le> length s \<Longrightarrow> str_reverse_loop s l b = b @ rev (take l s)"
  by (induction l arbitrary: b) (auto simp: take_Suc_conv_app_nth)

lemma str_reverse_rev: "str_reverse s = rev s"
  by (simp add: str_reverse_def str_reverse_loop_rev)

lemma str_rep_loop_concat: "str_rep_loop s n b = b @ concat (replicate (nat n) s)"
proof (induction "nat n" arbitrary: n b)
  case 0
  then show ?case by (subst str_rep_loop.simps) simp
next
  case (Suc k)
  then have n: "0 < n" "k = nat (n - 1)" by simp_all
  have "nat n = Suc (nat (n - 1))" using n(1) by simp
  with Suc.hyps(1) [OF n(2)] n(1) show ?case by (subst str_rep_loop.simps) simp
qed

subsection \<open>Two limits\<close>

text \<open>
  a \<^verbatim>\<open>%\<close> at the end of a replacement string is not an error: \<^verbatim>\<open>add_s\<close> reads on to the
  terminating zero and puts a zero byte into the result.\<close>

theorem gsub_trailing_escape:
  "str_gsub num2str used ''a'' ''a'' (RString ''%'') None g = Inr ([VStr [CHR 0x00], pushinteger 1], g)"
proof -
  have m: "match ''a'' ''a'' [] 0 0 = Inr (Some (Suc 0), [])" "match ''a'' ''a'' [] (Suc 0) 0 = Inr (None, [])" by code_simp+
  have add: "add_s num2str ''a'' [] ''%'' 0 (Suc 0) [] = Inr [CHR 0x00]"
    by (simp add: add_s_def add_s_loop.simps rd_char_def c_isdigit_def char_int_def char_of_def)
  show ?thesis
    by (simp add: str_gsub_def c_int_def rd_char_def ch_def m add add_value_def
        gsub_loop.simps [of _ _ _ _ _ _ _ _ 0] gsub_loop.simps [of _ _ _ _ _ _ _ _ "Suc 0"])
qed

text \<open>
  the default limit of \<^verbatim>\<open>gsub\<close> is the length of the subject plus one cast to \<^verbatim>\<open>int\<close>, which is
  negative for a subject of \<open>2 ^ 31 - 1\<close> bytes: nothing is replaced in it.\<close>

theorem gsub_default_limit_wraps:
  assumes "length s = 2 ^ 31 - 1"
  shows "str_gsub num2str used s p r None g = Inr ([VStr s, pushinteger 0], g)"
proof -
  have "c_int (int (length s) + 1) = - (2 ^ 31)"
    by (simp add: assms of_nat_diff c_int_def signed_take_bit_rec)
  then show ?thesis by (simp add: str_gsub_def Let_def gsub_loop.simps)
qed

theorem gsub_default_limit_wraps_witness:
  "str_gsub num2str 3 (replicate (2 ^ 31 - 1) CHR ''a'') ''a'' (RString ''b'') None g =
   Inr ([VStr (replicate (2 ^ 31 - 1) CHR ''a''), pushinteger 0], g)"
  by (rule gsub_default_limit_wraps) (rule length_replicate)

end
