(* ===== verification/Strlib_Format.thy ===== *)
theory Strlib_Format
  imports Strlib_Laws
begin

text \<open>
  \<^verbatim>\<open>string.format\<close>: the scan of an item, the small buffer that holds its specification, and
  the loop over the format.  What \<^verbatim>\<open>sprintf\<close> prints for an item is a parameter: a function
  of the specification, the C type it is given and the argument.\<close>

definition FLAGS :: string where "FLAGS = ''-+ #0''"
definition LUA_INTFRMLEN :: string where "LUA_INTFRMLEN = ''l''"

text \<open>\<^verbatim>\<open>sizeof\<close> counts the terminating zero of a literal.\<close>

definition MAX_FORMAT :: nat where
  "MAX_FORMAT = (length FLAGS + 1) + (length LUA_INTFRMLEN + 1) + 10"

function skip_flags :: "string \<Rightarrow> nat \<Rightarrow> nat" where
  "skip_flags fmt p =
     (if p < length fmt \<and> fmt ! p \<noteq> CHR 0x00 \<and> fmt ! p \<in> set FLAGS then skip_flags fmt (p + 1) else p)"
  by pat_completeness auto
termination
  by (relation "measure (\<lambda>(fmt, p). length fmt - p)") auto

declare skip_flags.simps [simp del]

definition skip_digit :: "string \<Rightarrow> nat \<Rightarrow> nat" where
  "skip_digit fmt p = (if p < length fmt \<and> c_isdigit (ch (fmt ! p)) then p + 1 else p)"

text \<open>The specification copied into \<^verbatim>\<open>form\<close>, as the bytes written, terminating zero included.\<close>

definition copy_form :: "string \<Rightarrow> nat \<Rightarrow> nat \<Rightarrow> string" where
  "copy_form fmt start p =
     (let src = take (p - start + 1) (drop start fmt @ [CHR 0x00]); txt = c_str src in
      CHR 0x25 # txt @ replicate (p - start + 1 - length txt) CHR 0x00 @ [CHR 0x00])"

definition scanformat :: "string \<Rightarrow> nat \<Rightarrow> merror + nat \<times> string" where
  "scanformat fmt start =
     (let p = skip_flags fmt start in
      if p - start \<ge> length FLAGS + 1 then Inl (MError ''invalid format (repeated flags)'')
      else
        let p = skip_digit fmt (skip_digit fmt p);
            p = (if p < length fmt \<and> fmt ! p = CHR ''.'' then skip_digit fmt (skip_digit fmt (p + 1)) else p) in
        if p < length fmt \<and> c_isdigit (ch (fmt ! p)) then Inl (MError ''invalid format (width or precision too long)'')
        else Inr (p, copy_form fmt start p))"

text \<open>The length modifier goes before the conversion character; \<^verbatim>\<open>strlen\<close> finds the end.\<close>

definition addintlen :: "string \<Rightarrow> string" where
  "addintlen form =
     (let l = length (c_str form); spec = form ! (l - 1) in
      take (l - 1) form @ LUA_INTFRMLEN @ [spec, CHR 0x00])"

datatype c_type = C_int | C_long | C_ulong | C_double

datatype item_arg = ItemNum c_type lua_Number | ItemStr string

text \<open>The argument of one item: the number as the C type it is cast to, or the string.\<close>

record fmt_env =
  sprintf :: "string \<Rightarrow> item_arg \<Rightarrow> string"
  tonumber :: "lvalue \<Rightarrow> lua_Number option"
  number2str :: "lua_Number \<Rightarrow> string"
  quoted :: "string \<Rightarrow> string"

definition checknumber :: "fmt_env \<Rightarrow> lvalue list \<Rightarrow> nat \<Rightarrow> merror + lua_Number" where
  "checknumber E args n =
     (case (if n < length args then tonumber E (args ! n) else None) of
        None \<Rightarrow> Inl (MError ''number expected'') | Some d \<Rightarrow> Inr d)"

definition checklstring :: "fmt_env \<Rightarrow> lvalue list \<Rightarrow> nat \<Rightarrow> merror + string" where
  "checklstring E args n =
     (case (if n < length args then value_text (number2str E) (args ! n) else None) of
        None \<Rightarrow> Inl (MError ''string expected'') | Some s \<Rightarrow> Inr s)"

text \<open>One item: what is added to the buffer.\<close>

definition format_item :: "fmt_env \<Rightarrow> lvalue list \<Rightarrow> nat \<Rightarrow> string \<Rightarrow> char option \<Rightarrow> merror + string" where
  "format_item E args arg form c =
     (if c = Some (CHR ''c'') then
        bindE (checknumber E args arg) (\<lambda>d. Inr (sprintf E form (ItemNum C_int d)))
      else if c \<in> Some ` set ''di'' then
        bindE (checknumber E args arg) (\<lambda>d. Inr (sprintf E (addintlen form) (ItemNum C_long d)))
      else if c \<in> Some ` set ''ouxX'' then
        bindE (checknumber E args arg) (\<lambda>d. Inr (sprintf E (addintlen form) (ItemNum C_ulong d)))
      else if c \<in> Some ` set ''eEfgG'' then
        bindE (checknumber E args arg) (\<lambda>d. Inr (sprintf E form (ItemNum C_double d)))
      else if c = Some (CHR ''q'') then
        bindE (checklstring E args arg) (\<lambda>s. Inr (quoted E s))
      else if c = Some (CHR ''s'') then
        bindE (checklstring E args arg) (\<lambda>s.
          if CHR ''.'' \<notin> set (c_str form) \<and> length s \<ge> 100 then Inr s else Inr (sprintf E form (ItemStr (c_str s))))
      else Inl (MError (''invalid option '' @ [CHR 0x27, CHR 0x25, case c of Some c \<Rightarrow> c | None \<Rightarrow> CHR 0x00, CHR 0x27] @
        '' to '' @ [CHR 0x27] @ ''format'' @ [CHR 0x27])))"

lemma skip_flags_ge: "p \<le> skip_flags fmt p"
  by (induction fmt p rule: skip_flags.induct) (subst skip_flags.simps, auto)

lemma skip_digit_ge: "p \<le> skip_digit fmt p \<and> skip_digit fmt p \<le> p + 1"
  by (auto simp: skip_digit_def)

lemma scanformat_range:
  assumes "scanformat fmt start = Inr (p, form)"
  shows "start \<le> p \<and> p \<le> start + 10"
proof -
  let ?f = "skip_flags fmt start"
  let ?w = "skip_digit fmt (skip_digit fmt ?f)"
  have f: "?f - start < 6" using assms by (auto simp: scanformat_def FLAGS_def Let_def split: if_splits)
  have p: "p = (if ?w < length fmt \<and> fmt ! ?w = CHR ''.'' then skip_digit fmt (skip_digit fmt (?w + 1)) else ?w)"
    using assms by (auto simp: scanformat_def Let_def split: if_splits)
  have "?w \<le> ?f + 2" "?f \<le> ?w"
    using skip_digit_ge [of ?f fmt] skip_digit_ge [of "skip_digit fmt ?f" fmt] by linarith+
  moreover have "skip_digit fmt (skip_digit fmt (?w + 1)) \<le> ?w + 3" "?w + 1 \<le> skip_digit fmt (skip_digit fmt (?w + 1))"
    using skip_digit_ge [of "?w + 1" fmt] skip_digit_ge [of "skip_digit fmt (?w + 1)" fmt] by linarith+
  ultimately show ?thesis using f p skip_flags_ge [of start fmt] by (auto split: if_splits)
qed

function format_loop :: "fmt_env \<Rightarrow> string \<Rightarrow> lvalue list \<Rightarrow> nat \<Rightarrow> nat \<Rightarrow> string \<Rightarrow> merror + string" where
  "format_loop E fmt args arg i b =
     (if i < length fmt then
        if fmt ! i \<noteq> CHR 0x25 then format_loop E fmt args arg (i + 1) (b @ [fmt ! i])
        else if i + 1 < length fmt \<and> fmt ! (i + 1) = CHR 0x25 then format_loop E fmt args arg (i + 2) (b @ [CHR 0x25])
        else
          bindE (scanformat fmt (i + 1)) (\<lambda>(p, form).
          bindE (format_item E args arg form (if p < length fmt then Some (fmt ! p) else None)) (\<lambda>t.
            format_loop E fmt args (arg + 1) (p + 1) (b @ t)))
      else Inr b)"
  by pat_completeness auto
termination
  by (relation "measure (\<lambda>(E, fmt, args, arg, i, b). length fmt - i)") (auto dest: scanformat_range)

declare format_loop.simps [simp del]

text \<open>The arguments after the format.\<close>

definition str_format :: "fmt_env \<Rightarrow> string \<Rightarrow> lvalue list \<Rightarrow> merror + string" where
  "str_format E fmt args = format_loop E fmt args 0 0 []"

subsection \<open>The buffer of a specification\<close>

lemma c_str_length: "length (c_str s) \<le> length s"
  by (simp add: c_str_def length_takeWhile_le)

text \<open>
  whatever the format, the specification copied by \<^verbatim>\<open>scanformat\<close>, also once \<^verbatim>\<open>addintlen\<close> has
  put a length modifier into it, fits the \<^verbatim>\<open>MAX_FORMAT\<close> bytes of the buffer with its terminating
  zero.\<close>

theorem scanformat_fits:
  assumes "scanformat fmt start = Inr (p, form)" "start \<le> length fmt"
  shows "length form \<le> MAX_FORMAT \<and> length (addintlen form) \<le> MAX_FORMAT"
proof -
  have form: "form = copy_form fmt start p"
    using assms(1) by (auto simp: scanformat_def Let_def split: if_splits)
  have r: "start \<le> p" "p \<le> start + 10" using scanformat_range [OF assms(1)] by auto
  have "length (c_str (take (p - start + 1) (drop start fmt @ [CHR 0x00]))) \<le> p - start + 1"
    using c_str_length by (metis (no_types, lifting) le_trans length_take min.cobounded2)
  then have len: "length form = p - start + 3" by (simp add: form copy_form_def Let_def)
  moreover have "length (addintlen form) \<le> length form + 3 - 1"
    using c_str_length [of form] len by (simp add: addintlen_def LUA_INTFRMLEN_def Let_def)
  moreover have "MAX_FORMAT = 18" by (simp add: MAX_FORMAT_def FLAGS_def LUA_INTFRMLEN_def)
  moreover obtain d where "p = start + d" "d \<le> 10" using r le_Suc_ex by fastforce
  ultimately show ?thesis by simp
qed

theorem scanformat_fits_witness:
  "\<exists>p form. scanformat ''-+5.2d'' 0 = Inr (p, form) \<and> length form \<le> MAX_FORMAT \<and> length (addintlen form) \<le> MAX_FORMAT"
proof -
  have "scanformat ''-+5.2d'' 0 = Inr (5, ''%-+5.2d'' @ [CHR 0x00])" by code_simp
  from this scanformat_fits [OF this] show ?thesis by auto
qed

end
