(* ===== verification/Tablib.thy ===== *)
theory Tablib
  imports Monads Strlib
begin

text \<open>
  The table library (\<^verbatim>\<open>ltablib.c\<close>).  A function works on the table that is its first argument
  through \<^verbatim>\<open>lua_rawgeti\<close> and \<^verbatim>\<open>lua_rawseti\<close>: the table is its values at integer keys.  The
  comparison function of \<^verbatim>\<open>sort\<close> and the callback of \<^verbatim>\<open>foreachi\<close> are Lua code, which may raise an
  error, change the rest of the program (\<open>'g\<close>) and the table itself, or not return.  The length
  \<open>n\<close> of the table is what \<^verbatim>\<open>luaL_getn\<close> gives.

  The stack holds the values that are compared and moved: here they are variables.  Indices are
  C \<^verbatim>\<open>int\<close>s; their sums do not overflow for tables of less than \<open>2 ^ 30\<close> elements.
\<close>

type_synonym ('v, 'g) tstate = "(int \<Rightarrow> 'v) \<times> 'g"
type_synonym ('v, 'g, 'a) tcomp = "(('v, 'g) tstate, merror, 'a) comp"

definition lua_rawgeti :: "int \<Rightarrow> ('v, 'g, 'v) tcomp" where
  "lua_rawgeti i = getM (\<lambda>(t, g). t i)"

definition lua_rawseti :: "int \<Rightarrow> 'v \<Rightarrow> ('v, 'g, unit) tcomp" where
  "lua_rawseti i v = modM (\<lambda>(t, g). (t(i := v), g))"

subsection \<open>Sorting\<close>

text \<open>\<^verbatim>\<open>set2 (L, i, j)\<close> pops the top of the stack into \<open>i\<close> and the value below it into \<open>j\<close>.\<close>

definition set2 :: "int \<Rightarrow> int \<Rightarrow> 'v \<Rightarrow> 'v \<Rightarrow> ('v, 'g, unit) tcomp" where
  "set2 i j x y = thenM (lua_rawseti i x) (lua_rawseti j y)"

text \<open>
  The order: the second argument of \<^verbatim>\<open>sort\<close> if there is one, read as a truth value, or else
  \<^verbatim>\<open>lua_lessthan\<close>.\<close>

definition sort_comp ::
  "('v \<Rightarrow> bool) \<Rightarrow> ('v \<Rightarrow> 'v \<Rightarrow> ('v, 'g, bool) tcomp) \<Rightarrow> ('v \<Rightarrow> 'v \<Rightarrow> ('v, 'g, 'v) tcomp) option \<Rightarrow>
   'v \<Rightarrow> 'v \<Rightarrow> ('v, 'g, bool) tcomp" where
  "sort_comp truth lessthan f a b =
     (case f of None \<Rightarrow> lessthan a b | Some f \<Rightarrow> bindM (f a b) (\<lambda>v. retM (truth v)))"

definition invalid_order :: merror where
  "invalid_order = MError ''invalid order function for sorting''"

text \<open>\<^verbatim>\<open>++i\<close> until \<open>a[i] >= P\<close>; gives \<open>i\<close> and \<open>a[i]\<close>.\<close>

partial_function (option) scan_up ::
  "('v \<Rightarrow> 'v \<Rightarrow> ('v, 'g, bool) tcomp) \<Rightarrow> 'v \<Rightarrow> int \<Rightarrow> int \<Rightarrow> ('v, 'g, int \<times> 'v) tcomp" where
  [code]: "scan_up cmp p u i s =
     bindM (lua_rawgeti (i + 1)) (\<lambda>ai.
     bindM (cmp ai p) (\<lambda>b.
       if b then (if i + 1 > u then failM invalid_order else scan_up cmp p u (i + 1)) else retM (i + 1, ai))) s"

text \<open>\<^verbatim>\<open>--j\<close> until \<open>a[j] <= P\<close>.\<close>

partial_function (option) scan_down ::
  "('v \<Rightarrow> 'v \<Rightarrow> ('v, 'g, bool) tcomp) \<Rightarrow> 'v \<Rightarrow> int \<Rightarrow> int \<Rightarrow> ('v, 'g, int \<times> 'v) tcomp" where
  [code]: "scan_down cmp p l j s =
     bindM (lua_rawgeti (j - 1)) (\<lambda>aj.
     bindM (cmp p aj) (\<lambda>b.
       if b then (if j - 1 < l then failM invalid_order else scan_down cmp p l (j - 1)) else retM (j - 1, aj))) s"

text \<open>The loop of the partition: gives the final \<open>i\<close>.\<close>

partial_function (option) partition_loop ::
  "('v \<Rightarrow> 'v \<Rightarrow> ('v, 'g, bool) tcomp) \<Rightarrow> 'v \<Rightarrow> int \<Rightarrow> int \<Rightarrow> int \<Rightarrow> int \<Rightarrow> ('v, 'g, int) tcomp" where
  [code]: "partition_loop cmp p l u i j s =
     bindM (scan_up cmp p u i) (\<lambda>ia.
     bindM (scan_down cmp p l j) (\<lambda>ja.
       if fst ja < fst ia then retM (fst ia)
       else thenM (set2 (fst ia) (fst ja) (snd ja) (snd ia)) (partition_loop cmp p l u (fst ia) (fst ja)))) s"

text \<open>Sort \<open>a[l]\<close> and \<open>a[u]\<close>; then these and \<open>a[i]\<close> in the middle.\<close>

definition sort_ends :: "('v \<Rightarrow> 'v \<Rightarrow> ('v, 'g, bool) tcomp) \<Rightarrow> int \<Rightarrow> int \<Rightarrow> ('v, 'g, unit) tcomp" where
  "sort_ends cmp l u =
     bindM (lua_rawgeti l) (\<lambda>al. bindM (lua_rawgeti u) (\<lambda>au.
     bindM (cmp au al) (\<lambda>b. if b then set2 l u au al else retM ())))"

definition sort_middle :: "('v \<Rightarrow> 'v \<Rightarrow> ('v, 'g, bool) tcomp) \<Rightarrow> int \<Rightarrow> int \<Rightarrow> int \<Rightarrow> ('v, 'g, unit) tcomp" where
  "sort_middle cmp l i u =
     bindM (lua_rawgeti i) (\<lambda>ai. bindM (lua_rawgeti l) (\<lambda>al.
     bindM (cmp ai al) (\<lambda>b.
       if b then set2 i l al ai
       else bindM (lua_rawgeti u) (\<lambda>au. bindM (cmp au ai) (\<lambda>b. if b then set2 i u au ai else retM ())))))"

text \<open>Put the pivot at \<open>u - 1\<close>, partition, and put it in its place: gives the place.\<close>

definition sort_partition :: "('v \<Rightarrow> 'v \<Rightarrow> ('v, 'g, bool) tcomp) \<Rightarrow> int \<Rightarrow> int \<Rightarrow> int \<Rightarrow> ('v, 'g, int) tcomp" where
  "sort_partition cmp l i u =
     bindM (lua_rawgeti i) (\<lambda>p. bindM (lua_rawgeti (u - 1)) (\<lambda>x.
     thenM (set2 i (u - 1) x p)
     (bindM (partition_loop cmp p l u l (u - 1)) (\<lambda>i.
      bindM (lua_rawgeti (u - 1)) (\<lambda>y. bindM (lua_rawgeti i) (\<lambda>ai.
      thenM (set2 (u - 1) i ai y) (retM i)))))))"

partial_function (option) auxsort ::
  "('v \<Rightarrow> 'v \<Rightarrow> ('v, 'g, bool) tcomp) \<Rightarrow> int \<Rightarrow> int \<Rightarrow> ('v, 'g, unit) tcomp" where
  [code]: "auxsort cmp l u s =
     (if l < u then
        thenM (sort_ends cmp l u)
          (if u - l = 1 then retM ()
           else thenM (sort_middle cmp l ((l + u) div 2) u)
             (if u - l = 2 then retM ()
              else bindM (sort_partition cmp l ((l + u) div 2) u) (\<lambda>i.
                if i - l < u - i then thenM (auxsort cmp l (i - 1)) (auxsort cmp (i + 1) u)
                else thenM (auxsort cmp (i + 1) u) (auxsort cmp l (i - 1))))) s
      else retM () s)"

definition sort_table ::
  "('v \<Rightarrow> bool) \<Rightarrow> ('v \<Rightarrow> 'v \<Rightarrow> ('v, 'g, bool) tcomp) \<Rightarrow> ('v \<Rightarrow> 'v \<Rightarrow> ('v, 'g, 'v) tcomp) option \<Rightarrow> nat \<Rightarrow> int \<Rightarrow> ('v, 'g, unit) tcomp" where
  "sort_table truth lessthan f used n =
     thenM (liftM (luaL_checkstack used 40 [])) (auxsort (sort_comp truth lessthan f) 1 n)"

subsection \<open>Insertion and removal\<close>

text \<open>Move up the elements from \<open>pos\<close>.\<close>

partial_function (option) move_up :: "int \<Rightarrow> int \<Rightarrow> ('v, 'g, unit) tcomp" where
  [code]: "move_up pos i s =
     (if i > pos then bindM (lua_rawgeti (i - 1)) (\<lambda>v. thenM (lua_rawseti i v) (move_up pos (i - 1))) s
      else retM () s)"

text \<open>The position is the second argument when there are three.\<close>

definition tinsert :: "int \<Rightarrow> int option \<Rightarrow> 'v \<Rightarrow> ('v, 'g, unit) tcomp" where
  "tinsert n arg v =
     (let e = n + 1 in
      case arg of
        None \<Rightarrow> lua_rawseti e v
      | Some p \<Rightarrow>
          let pos = c_int p; e = if pos > e then pos else e in
          thenM (move_up pos e) (lua_rawseti pos v))"

partial_function (option) move_down :: "int \<Rightarrow> int \<Rightarrow> ('v, 'g, unit) tcomp" where
  [code]: "move_down e pos s =
     (if pos < e then bindM (lua_rawgeti (pos + 1)) (\<lambda>v. thenM (lua_rawseti pos v) (move_down e (pos + 1))) s
      else retM () s)"

definition tremove :: "'v \<Rightarrow> int \<Rightarrow> int option \<Rightarrow> ('v, 'g, 'v option) tcomp" where
  "tremove nil e arg =
     (let pos = c_int (case arg of None \<Rightarrow> e | Some p \<Rightarrow> p) in
      if \<not> (1 \<le> pos \<and> pos \<le> e) then retM None
      else bindM (lua_rawgeti pos) (\<lambda>v. thenM (move_down e pos) (thenM (lua_rawseti e nil) (retM (Some v)))))"

subsection \<open>Concatenation and traversal\<close>

definition addfield :: "(lua_Number \<Rightarrow> string) \<Rightarrow> int \<Rightarrow> string \<Rightarrow> (lvalue, 'g, string) tcomp" where
  "addfield num2str i b =
     bindM (lua_rawgeti i) (\<lambda>v.
       case value_text num2str v of
         None \<Rightarrow> failM (MError (''invalid value ('' @ type_name v @ '') at index '' @ num2str (cast_num i) @
           '' in table for '' @ [CHR 0x27] @ ''concat'' @ [CHR 0x27]))
       | Some t \<Rightarrow> retM (b @ t))"

partial_function (option) concat_table ::
  "(lua_Number \<Rightarrow> string) \<Rightarrow> string \<Rightarrow> int \<Rightarrow> int \<Rightarrow> string \<Rightarrow> (lvalue, 'g, string) tcomp" where
  [code]: "concat_table num2str sep i last_index b s =
     (if i < last_index then
        bindM (addfield num2str i b) (\<lambda>b. concat_table num2str sep (i + 1) last_index (b @ sep)) s
      else if i = last_index then addfield num2str i b s
      else retM b s)"

definition tconcat ::
  "(lua_Number \<Rightarrow> string) \<Rightarrow> int \<Rightarrow> string option \<Rightarrow> int option \<Rightarrow> int option \<Rightarrow> (lvalue, 'g, string) tcomp" where
  "tconcat num2str n sep i j =
     concat_table num2str (case sep of None \<Rightarrow> [] | Some s \<Rightarrow> s)
       (c_int (case i of None \<Rightarrow> 1 | Some i \<Rightarrow> i)) (case j of None \<Rightarrow> n | Some j \<Rightarrow> c_int j) []"

partial_function (option) foreachi_loop ::
  "('v \<Rightarrow> bool) \<Rightarrow> (int \<Rightarrow> 'v \<Rightarrow> ('v, 'g, 'v) tcomp) \<Rightarrow> int \<Rightarrow> int \<Rightarrow> ('v, 'g, 'v option) tcomp" where
  [code]: "foreachi_loop isnil f n i s =
     (if i \<le> n then
        bindM (lua_rawgeti i) (\<lambda>v. bindM (f i v) (\<lambda>r.
          if \<not> isnil r then retM (Some r) else foreachi_loop isnil f n (i + 1))) s
      else retM None s)"

definition foreachi :: "('v \<Rightarrow> bool) \<Rightarrow> (int \<Rightarrow> 'v \<Rightarrow> ('v, 'g, 'v) tcomp) \<Rightarrow> int \<Rightarrow> ('v, 'g, 'v option) tcomp" where
  "foreachi isnil f n = foreachi_loop isnil f n 1"

end
