(* ===== verification/Compare.thy ===== *)
theory Compare
  imports Monads Strlib_Laws
begin

text \<open>
  Comparison of values in the interpreter (\<^verbatim>\<open>lvm.c\<close>): strings by \<^verbatim>\<open>l_strcmp\<close>, which compares
  the pieces between zero bytes with \<^verbatim>\<open>strcoll\<close>, numbers by their order, anything else by the
  metamethods \<^verbatim>\<open>__lt\<close> and \<^verbatim>\<open>__le\<close>.  A metamethod is Lua code: \<open>order_tm\<close> is \<^verbatim>\<open>call_orderTM\<close>
  for one event, \<^const>\<open>None\<close> where the code returns \<open>-1\<close>.
\<close>

function l_strcmp :: "(string \<Rightarrow> string \<Rightarrow> int) \<Rightarrow> string \<Rightarrow> string \<Rightarrow> int" where
  "l_strcmp strcoll l r =
     (let temp = strcoll (c_str l) (c_str r) in
      if temp \<noteq> 0 then temp
      else
        let len = length (c_str l) in
        if len = length r then (if len = length l then 0 else 1)
        else if len = length l then - 1
        else l_strcmp strcoll (drop (len + 1) l) (drop (len + 1) r))"
  by pat_completeness auto
termination
proof (relation "measure (\<lambda>(strcoll, l, r). length l)")
  fix strcoll :: "string \<Rightarrow> string \<Rightarrow> int" and l r :: string and x xa
  assume "xa = length (c_str l)" "xa \<noteq> length l"
  moreover have "length (c_str l) \<le> length l" by (simp add: c_str_def length_takeWhile_le)
  ultimately show "((strcoll, drop (xa + 1) l, drop (xa + 1) r), strcoll, l, r) \<in> measure (\<lambda>(strcoll, l, r). length l)"
    by auto
qed simp

declare l_strcmp.simps [simp del]

fun same_type :: "lvalue \<Rightarrow> lvalue \<Rightarrow> bool" where
  "same_type VNil VNil = True"
| "same_type (VBool _) (VBool _) = True"
| "same_type (VNum _) (VNum _) = True"
| "same_type (VStr _) (VStr _) = True"
| "same_type (VOther a) (VOther b) = (a = b)"
| "same_type _ _ = False"

text \<open>\<^verbatim>\<open>luaG_ordererror\<close>: it compares the third letters of the names of the types.\<close>

definition order_error :: "lvalue \<Rightarrow> lvalue \<Rightarrow> merror" where
  "order_error a b =
     (let t1 = type_name a; t2 = type_name b in
      if t1 ! 2 = t2 ! 2 then MError (''attempt to compare two '' @ t1 @ '' values'')
      else MError (''attempt to compare '' @ t1 @ '' with '' @ t2))"

type_synonym 's order_tm = "lvalue \<Rightarrow> lvalue \<Rightarrow> ('s, merror, bool option) comp"

definition luaV_lessthan :: "(string \<Rightarrow> string \<Rightarrow> int) \<Rightarrow> 's order_tm \<Rightarrow> lvalue \<Rightarrow> lvalue \<Rightarrow> ('s, merror, bool) comp" where
  "luaV_lessthan strcoll lt_tm l r =
     (if \<not> same_type l r then failM (order_error l r)
      else case (l, r) of
        (VNum a, VNum b) \<Rightarrow> retM (luai_numlt a b)
      | (VStr a, VStr b) \<Rightarrow> retM (l_strcmp strcoll a b < 0)
      | _ \<Rightarrow> bindM (lt_tm l r) (\<lambda>res. case res of Some b \<Rightarrow> retM b | None \<Rightarrow> failM (order_error l r)))"

definition lessequal ::
  "(string \<Rightarrow> string \<Rightarrow> int) \<Rightarrow> 's order_tm \<Rightarrow> 's order_tm \<Rightarrow> lvalue \<Rightarrow> lvalue \<Rightarrow> ('s, merror, bool) comp" where
  "lessequal strcoll lt_tm le_tm l r =
     (if \<not> same_type l r then failM (order_error l r)
      else case (l, r) of
        (VNum a, VNum b) \<Rightarrow> retM (luai_numle a b)
      | (VStr a, VStr b) \<Rightarrow> retM (l_strcmp strcoll a b \<le> 0)
      | _ \<Rightarrow> bindM (le_tm l r) (\<lambda>res. case res of
            Some b \<Rightarrow> retM b
          | None \<Rightarrow> bindM (lt_tm r l) (\<lambda>res. case res of
                Some b \<Rightarrow> retM (\<not> b)
              | None \<Rightarrow> failM (order_error l r))))"

subsection \<open>Strings with zero bytes\<close>

text \<open>\<^verbatim>\<open>strcoll\<close> in the ``C'' locale is \<^verbatim>\<open>strcmp\<close>, on the bytes as unsigned characters.\<close>

fun strcmp :: "string \<Rightarrow> string \<Rightarrow> int" where
  "strcmp [] [] = 0"
| "strcmp [] (y # ys) = - 1"
| "strcmp (x # xs) [] = 1"
| "strcmp (x # xs) (y # ys) = (if x = y then strcmp xs ys else ch x - ch y)"

text \<open>The order of strings a byte at a time, a proper prefix first: the reference.\<close>

fun byte_order :: "string \<Rightarrow> string \<Rightarrow> int" where
  "byte_order [] [] = 0"
| "byte_order [] (y # ys) = - 1"
| "byte_order (x # xs) [] = 1"
| "byte_order (x # xs) (y # ys) = (if ch x < ch y then - 1 else if ch y < ch x then 1 else byte_order xs ys)"

lemma ch_inject [simp]: "ch x = ch y \<longleftrightarrow> x = y"
  by (metis char_int_ch)

lemma c_str_Cons: "c_str (x # s) = (if x = CHR 0x00 then [] else x # c_str s)"
  by (simp add: c_str_def)

lemma c_str_Nil: "c_str [] = []"
  by (simp add: c_str_def)

lemma ch_zero: "ch c = 0 \<longleftrightarrow> c = CHR 0x00"
proof -
  have "ch (CHR 0x00) = 0" by (simp add: ch_def)
  then show ?thesis using ch_inject [of c "CHR 0x00"] by simp
qed

lemma l_strcmp_Cons:
  "l_strcmp strcmp (x # l) (y # r) = (if x = y then l_strcmp strcmp l r else
     if x = CHR 0x00 then - 1 else if y = CHR 0x00 then 1 else ch x - ch y)"
proof (cases "x = y")
  case True
  then show ?thesis
    by (cases "x = CHR 0x00") (subst (1) l_strcmp.simps, simp add: c_str_Cons,
      subst (1 2) l_strcmp.simps, simp add: c_str_Cons Let_def)
next
  case False
  then show ?thesis by (subst l_strcmp.simps) (auto simp: c_str_Cons Let_def)
qed

text \<open>
  in the ``C'' locale \<^verbatim>\<open>l_strcmp\<close> orders strings byte by byte over their whole length, zero bytes
  included, although it only ever hands zero-terminated pieces to \<^verbatim>\<open>strcoll\<close>.\<close>

theorem l_strcmp_bytewise: "sgn (l_strcmp strcmp l r) = byte_order l r"
proof (induction l r rule: byte_order.induct)
  case 1
  show ?case by (simp add: l_strcmp.simps c_str_Nil)
next
  case (2 y ys)
  show ?case by (cases "y = CHR 0x00") (simp_all add: l_strcmp.simps c_str_Nil c_str_Cons)
next
  case (3 x xs)
  show ?case by (cases "x = CHR 0x00") (simp_all add: l_strcmp.simps c_str_Nil c_str_Cons)
next
  case (4 x xs y ys)
  have nn: "0 \<le> ch x" "0 \<le> ch y" using ch_range by auto
  show ?case
  proof (cases "x = y")
    case True
    with 4 show ?thesis by (simp add: l_strcmp_Cons)
  next
    case False
    then have "ch x \<noteq> ch y" by simp
    then show ?thesis using False nn ch_zero [of x] ch_zero [of y] by (auto simp: l_strcmp_Cons)
  qed
qed

lemma byte_order_total: "byte_order l r = 0 \<longleftrightarrow> l = r"
  by (induction l r rule: byte_order.induct) auto

lemma byte_order_swap: "byte_order r l = - byte_order l r"
  by (induction l r rule: byte_order.induct) auto

end
