(* ===== verification/Tablib_Sort.thy ===== *)
theory Tablib_Sort
  imports Tablib Compare "HOL-Library.Multiset"
begin

text \<open>
  \<^verbatim>\<open>table.sort\<close>: with a comparison that is an order on the elements it ends without an error and
  leaves the elements sorted, none lost, none added, and nothing else in the table changed.
  With any comparison at all that returns, it still ends.\<close>

subsection \<open>Rearrangements\<close>

definition rearranged :: "int \<Rightarrow> int \<Rightarrow> (int \<Rightarrow> 'v) \<Rightarrow> (int \<Rightarrow> 'v) \<Rightarrow> bool" where
  "rearranged l u t t' \<longleftrightarrow> (\<exists>f. bij f \<and> (\<forall>k. k \<notin> {l..u} \<longrightarrow> f k = k) \<and> t' = t \<circ> f)"

lemma rearranged_refl: "rearranged l u t t"
  unfolding rearranged_def by (intro exI [of _ id]) simp

lemma rearranged_trans: "rearranged l u t t1 \<Longrightarrow> rearranged l u t1 t2 \<Longrightarrow> rearranged l u t t2"
proof -
  assume "rearranged l u t t1" "rearranged l u t1 t2"
  then obtain f g where "bij f" "\<forall>k. k \<notin> {l..u} \<longrightarrow> f k = k" "t1 = t \<circ> f"
    "bij g" "\<forall>k. k \<notin> {l..u} \<longrightarrow> g k = k" "t2 = t1 \<circ> g"
    by (auto simp: rearranged_def)
  then show ?thesis unfolding rearranged_def by (intro exI [of _ "f \<circ> g"]) (auto simp: bij_comp)
qed

lemma rearranged_mono: "rearranged l u t t' \<Longrightarrow> l' \<le> l \<Longrightarrow> u \<le> u' \<Longrightarrow> rearranged l' u' t t'"
  unfolding rearranged_def by (elim exE) (rule exI, auto)

lemma rearranged_swap:
  assumes "i \<in> {l..u}" "j \<in> {l..u}"
  shows "rearranged l u t (t(i := t j, j := t i))"
proof -
  let ?f = "id(i := j, j := i)"
  have "?f (?f k) = k" for k by simp
  then have "bij ?f" by (intro o_bij [of ?f]) auto
  moreover have "t(i := t j, j := t i) = t \<circ> ?f" by auto
  ultimately show ?thesis using assms unfolding rearranged_def by (intro exI [of _ ?f]) auto
qed

lemma rearranged_outside: "rearranged l u t t' \<Longrightarrow> k \<notin> {l..u} \<Longrightarrow> t' k = t k"
  by (auto simp: rearranged_def)

lemma bij_fixed_outside:
  assumes "bij f" "\<forall>k. k \<notin> A \<longrightarrow> f k = k"
  shows "f ` A = A"
proof -
  have inj: "inj f" and surj: "surj f" using assms(1) by (auto simp: bij_def)
  have "f x \<in> A" if "x \<in> A" for x
  proof (rule ccontr)
    assume "f x \<notin> A"
    then have "f (f x) = f x" using assms(2) by blast
    then have "f x = x" using injD [OF inj] by blast
    then show False using that \<open>f x \<notin> A\<close> by simp
  qed
  moreover have "\<exists>x \<in> A. f x = y" if "y \<in> A" for y
    using surjD [OF surj, of y] assms(2) that by metis
  ultimately show ?thesis by blast
qed

lemma rearranged_inside: "rearranged l u t t' \<Longrightarrow> k \<in> {l..u} \<Longrightarrow> \<exists>m \<in> {l..u}. t' k = t m"
proof -
  assume "rearranged l u t t'" and k: "k \<in> {l..u}"
  then obtain f where f: "bij f" "\<forall>k. k \<notin> {l..u} \<longrightarrow> f k = k" "t' = t \<circ> f" by (auto simp: rearranged_def)
  then have "f k \<in> {l..u}" using bij_fixed_outside [OF f(1,2)] k by blast
  then show ?thesis using f(3) by auto
qed

lemma rearranged_range: "rearranged l u t t' \<Longrightarrow> range t \<subseteq> A \<Longrightarrow> range t' \<subseteq> A"
  by (auto simp: rearranged_def)

lemma rearranged_all:
  "rearranged l u t t' \<Longrightarrow> \<forall>k \<in> {l..u}. P (t k) \<Longrightarrow> \<forall>k \<in> {l..u}. P (t' k)"
  using rearranged_inside by fastforce

lemma rearranged_mset:
  assumes "rearranged l u t t'"
  shows "image_mset t' (mset_set {l..u}) = image_mset t (mset_set {l..u})"
proof -
  obtain f where f: "bij f" "\<forall>k. k \<notin> {l..u} \<longrightarrow> f k = k" "t' = t \<circ> f" using assms by (auto simp: rearranged_def)
  have "inj_on f {l..u}" using f(1) by (auto simp: bij_def intro: inj_on_subset)
  then have "image_mset f (mset_set {l..u}) = mset_set {l..u}"
    using bij_fixed_outside [OF f(1,2)] by (simp add: image_mset_mset_set)
  then show ?thesis by (simp add: f(3) flip: image_mset.compositionality)
qed

subsection \<open>Sorting with an order\<close>

definition sorted_slice :: "('v \<Rightarrow> 'v \<Rightarrow> bool) \<Rightarrow> int \<Rightarrow> int \<Rightarrow> (int \<Rightarrow> 'v) \<Rightarrow> bool" where
  "sorted_slice lt l u t \<longleftrightarrow> (\<forall>i j. l \<le> i \<and> i < j \<and> j \<le> u \<longrightarrow> \<not> lt (t j) (t i))"

lemma runs_rawgeti [simp]: "runs (lua_rawgeti i) s Q E = Q (fst s i) s"
  by (cases s) (simp add: lua_rawgeti_def)

lemma runs_set2 [simp]: "runs (set2 i j x y) (t, g) Q E = Q () (t(i := x, j := y), g)"
  by (simp add: set2_def lua_rawseti_def runs_then)

text \<open>The loops as computations.\<close>

lemma scan_up_unfold:
  "scan_up cmp p u i =
     bindM (lua_rawgeti (i + 1)) (\<lambda>ai.
     bindM (cmp ai p) (\<lambda>b.
       if b then (if i + 1 > u then failM invalid_order else scan_up cmp p u (i + 1)) else retM (i + 1, ai)))"
  by (rule ext, subst scan_up.simps, rule refl)

lemma scan_down_unfold:
  "scan_down cmp p l j =
     bindM (lua_rawgeti (j - 1)) (\<lambda>aj.
     bindM (cmp p aj) (\<lambda>b.
       if b then (if j - 1 < l then failM invalid_order else scan_down cmp p l (j - 1)) else retM (j - 1, aj)))"
  by (rule ext, subst scan_down.simps, rule refl)

lemma partition_loop_unfold:
  "partition_loop cmp p l u i j =
     bindM (scan_up cmp p u i) (\<lambda>ia.
     bindM (scan_down cmp p l j) (\<lambda>ja.
       if fst ja < fst ia then retM (fst ia)
       else thenM (set2 (fst ia) (fst ja) (snd ja) (snd ia)) (partition_loop cmp p l u (fst ia) (fst ja))))"
  by (rule ext, subst partition_loop.simps, rule refl)

lemma auxsort_unfold:
  "auxsort cmp l u =
     (if l < u then
        thenM (sort_ends cmp l u)
          (if u - l = 1 then retM ()
           else thenM (sort_middle cmp l ((l + u) div 2) u)
             (if u - l = 2 then retM ()
              else bindM (sort_partition cmp l ((l + u) div 2) u) (\<lambda>i.
                if i - l < u - i then thenM (auxsort cmp l (i - 1)) (auxsort cmp (i + 1) u)
                else thenM (auxsort cmp (i + 1) u) (auxsort cmp l (i - 1)))))
      else retM ())"
  by (rule ext, subst auxsort.simps, simp)

text \<open>What \<^verbatim>\<open>sort\<close> needs of a comparison: it is pure, and a strict weak order on the elements \<open>A\<close>.\<close>

locale sort_order =
  fixes cmp :: "'v \<Rightarrow> 'v \<Rightarrow> ('v, 'g, bool) tcomp" and lt :: "'v \<Rightarrow> 'v \<Rightarrow> bool" and A :: "'v set"
  assumes pure: "a \<in> A \<Longrightarrow> b \<in> A \<Longrightarrow> cmp a b = retM (lt a b)"
    and asym: "a \<in> A \<Longrightarrow> b \<in> A \<Longrightarrow> lt a b \<Longrightarrow> \<not> lt b a"
    and nlt_trans: "a \<in> A \<Longrightarrow> b \<in> A \<Longrightarrow> c \<in> A \<Longrightarrow> \<not> lt b a \<Longrightarrow> \<not> lt c b \<Longrightarrow> \<not> lt c a"
begin

lemma runs_cmp: "a \<in> A \<Longrightarrow> b \<in> A \<Longrightarrow> runs (cmp a b) s Q E = Q (lt a b) s"
  by (simp add: pure)

lemma scan_up_runs:
  assumes "\<forall>k \<in> {l..u}. t k \<in> A" "p \<in> A" "l \<le> i" "i < m" "m \<le> u" "\<not> lt (t m) p"
  shows "runs (scan_up cmp p u i) (t, g)
    (\<lambda>(i', v) s. s = (t, g) \<and> v = t i' \<and> i < i' \<and> i' \<le> m \<and> (\<forall>k. i < k \<and> k < i' \<longrightarrow> lt (t k) p) \<and> \<not> lt (t i') p) (\<lambda>_. False)"
  using assms(3,4)
proof (induction "nat (m - i)" arbitrary: i rule: less_induct)
  case less
  have a: "t (i + 1) \<in> A" using assms(1,5) less.prems by auto
  show ?case
  proof (cases "lt (t (i + 1)) p")
    case True
    with assms(6) have "i + 1 \<noteq> m" by auto
    with less.prems have n: "nat (m - (i + 1)) < nat (m - i)" "l \<le> i + 1" "i + 1 < m" by auto
    have "k = i + 1 \<or> i + 1 < k" if "i < k" for k using that by linarith
    then have "runs (scan_up cmp p u (i + 1)) (t, g)
      (\<lambda>(i', v) s. s = (t, g) \<and> v = t i' \<and> i < i' \<and> i' \<le> m \<and> (\<forall>k. i < k \<and> k < i' \<longrightarrow> lt (t k) p) \<and> \<not> lt (t i') p) (\<lambda>_. False)"
      using less.hyps [OF n] True by (fastforce elim!: runs_mono)
    then show ?thesis using True n(3) assms(2,5) a
      by (simp add: scan_up_unfold [of cmp p u i] runs_bind runs_cmp)
  next
    case False
    then show ?thesis using less.prems a assms(2)
      by (auto simp: scan_up_unfold [of cmp p u i] runs_bind runs_cmp)
  qed
qed

lemma scan_down_runs:
  assumes "\<forall>k \<in> {l..u}. t k \<in> A" "p \<in> A" "l \<le> m" "m < j" "j \<le> u" "\<not> lt p (t m)"
  shows "runs (scan_down cmp p l j) (t, g)
    (\<lambda>(j', v) s. s = (t, g) \<and> v = t j' \<and> j' < j \<and> m \<le> j' \<and> (\<forall>k. j' < k \<and> k < j \<longrightarrow> lt p (t k)) \<and> \<not> lt p (t j')) (\<lambda>_. False)"
  using assms(4,5)
proof (induction "nat (j - m)" arbitrary: j rule: less_induct)
  case less
  have a: "t (j - 1) \<in> A" using assms(1,3) less.prems by auto
  show ?case
  proof (cases "lt p (t (j - 1))")
    case True
    with assms(6) have "j - 1 \<noteq> m" by auto
    with less.prems have n: "nat (j - 1 - m) < nat (j - m)" "m < j - 1" "j - 1 \<le> u" by auto
    have "k = j - 1 \<or> k < j - 1" if "k < j" for k using that by linarith
    then have "runs (scan_down cmp p l (j - 1)) (t, g)
      (\<lambda>(j', v) s. s = (t, g) \<and> v = t j' \<and> j' < j \<and> m \<le> j' \<and> (\<forall>k. j' < k \<and> k < j \<longrightarrow> lt p (t k)) \<and> \<not> lt p (t j')) (\<lambda>_. False)"
      using less.hyps [OF n] True by (fastforce elim!: runs_mono)
    then show ?thesis using True n(2) assms(2,3) a
      by (simp add: scan_down_unfold [of cmp p l j] runs_bind runs_cmp)
  next
    case False
    then show ?thesis using less.prems a assms(2)
      by (auto simp: scan_down_unfold [of cmp p l j] runs_bind runs_cmp)
  qed
qed

lemma partition_loop_runs:
  assumes "\<forall>k \<in> {l..u}. t k \<in> A" "p \<in> A" "l \<le> i" "i \<le> j" "i \<le> u - 2" "l + 1 \<le> j" "j \<le> u - 1"
    "\<forall>k \<in> {l..i}. \<not> lt p (t k)" "\<forall>k \<in> {j..u - 1}. \<not> lt (t k) p" "t (u - 1) = p"
  shows "runs (partition_loop cmp p l u i j) (t, g)
    (\<lambda>i' (t', g'). g' = g \<and> rearranged l (u - 2) t t' \<and> i < i' \<and> i' \<le> u - 1 \<and>
       (\<forall>k \<in> {l..i' - 1}. \<not> lt p (t' k)) \<and> (\<forall>k \<in> {i'..u - 1}. \<not> lt (t' k) p)) (\<lambda>_. False)"
  using assms(1,3-)
proof (induction "nat (u - i)" arbitrary: i j t rule: less_induct)
  case less
  have pp: "\<not> lt p p" using asym assms(2) by blast
  have up: "runs (scan_up cmp p u i) (t, g)
    (\<lambda>(i', v) s. s = (t, g) \<and> v = t i' \<and> i < i' \<and> i' \<le> u - 1 \<and> (\<forall>k. i < k \<and> k < i' \<longrightarrow> lt (t k) p) \<and> \<not> lt (t i') p) (\<lambda>_. False)"
    using less.prems assms(2) pp by (intro scan_up_runs) auto
  have down: "runs (scan_down cmp p l j) (t, g)
    (\<lambda>(j', v) s. s = (t, g) \<and> v = t j' \<and> j' < j \<and> l \<le> j' \<and> (\<forall>k. j' < k \<and> k < j \<longrightarrow> lt p (t k)) \<and> \<not> lt p (t j')) (\<lambda>_. False)"
    using less.prems assms(2) by (intro scan_down_runs) auto
  show ?case unfolding partition_loop_unfold [of cmp p l u i j]
  proof (rule runs_bindI [OF up], clarify, rule runs_bindI [OF down], clarify, unfold fst_conv snd_conv)
    fix i' j'
    assume i': "i < i'" "i' \<le> u - 1" "\<forall>k. i < k \<and> k < i' \<longrightarrow> lt (t k) p" "\<not> lt (t i') p"
      and j': "j' < j" "l \<le> j'" "\<forall>k. j' < k \<and> k < j \<longrightarrow> lt p (t k)" "\<not> lt p (t j')"
    have tA: "t k \<in> A" if "l \<le> k" "k \<le> u" for k using less.prems(1) that by simp
    have lo: "\<not> lt p (t k)" if "l \<le> k" "k < i'" for k
    proof (cases "k \<le> i")
      case False
      then have "lt (t k) p" using i'(3) that by simp
      then show ?thesis using asym tA [of k] that i'(2) assms(2) by auto
    qed (use less.prems(7) that in simp)
    have hi: "\<not> lt (t k) p" if "j' < k" "k \<le> u - 1" for k
    proof (cases "j \<le> k")
      case False
      then have "lt p (t k)" using j'(3) that by simp
      then show ?thesis using asym tA [of k] that j'(2) assms(2) by auto
    qed (use less.prems(8) that in simp)
    let ?post = "\<lambda>t i' (t', g'). g' = g \<and> rearranged l (u - 2) t t' \<and> i < i' \<and> i' \<le> u - 1 \<and>
       (\<forall>k \<in> {l..i' - 1}. \<not> lt p (t' k)) \<and> (\<forall>k \<in> {i'..u - 1}. \<not> lt (t' k) p)"
    show "runs (if j' < i' then retM i' else thenM (set2 i' j' (t j') (t i')) (partition_loop cmp p l u i' j'))
        (t, g) (?post t) (\<lambda>_. False)"
    proof (cases "j' < i'")
      case True
      have "\<not> lt (t k) p" if "i' \<le> k" "k \<le> u - 1" for k using hi [of k] that True by simp
      with True lo i' show ?thesis by (simp add: rearranged_refl)
    next
      case False
      let ?t = "t(i' := t j', j' := t i')"
      have pos: "i' \<in> {l..u - 2}" "j' \<in> {l..u - 2}" "l \<le> i'" "i' \<le> j'" "i' \<le> u - 2" "l + 1 \<le> j'" "j' \<le> u - 1"
        using False i' j' less.prems by auto
      have "\<forall>k \<in> {l..u}. ?t k \<in> A" using tA pos by auto
      moreover have "\<forall>k \<in> {l..i'}. \<not> lt p (?t k)" using lo j'(4) pos by (auto simp: order_le_less)
      moreover have "\<forall>k \<in> {j'..u - 1}. \<not> lt (?t k) p" using hi i'(4) pos by (auto simp: order_le_less)
      moreover have "?t (u - 1) = p" using pos less.prems(9) by auto
      moreover have "nat (u - i') < nat (u - i)" using i'(1) pos by auto
      ultimately have "runs (partition_loop cmp p l u i' j') (?t, g)
        (\<lambda>x (t', g'). g' = g \<and> rearranged l (u - 2) ?t t' \<and> i' < x \<and> x \<le> u - 1 \<and>
          (\<forall>k \<in> {l..x - 1}. \<not> lt p (t' k)) \<and> (\<forall>k \<in> {x..u - 1}. \<not> lt (t' k) p)) (\<lambda>_. False)"
        using less.hyps [of i' ?t j'] pos by blast
      moreover have "rearranged l (u - 2) t ?t" using rearranged_swap [OF pos(1,2)] .
      ultimately have "runs (partition_loop cmp p l u i' j') (?t, g) (?post t) (\<lambda>_. False)"
        using i'(1) by (elim runs_mono) (auto intro: rearranged_trans)
      with False show ?thesis by (simp add: runs_then)
    qed
  qed
qed

lemma sort_ends_runs:
  assumes "\<forall>k \<in> {l..u}. t k \<in> A" "l < u"
  shows "runs (sort_ends cmp l u) (t, g)
    (\<lambda>_ (t', g'). g' = g \<and> rearranged l u t t' \<and> \<not> lt (t' u) (t' l)) (\<lambda>_. False)"
proof -
  have "t l \<in> A" "t u \<in> A" using assms by auto
  moreover have "rearranged l u t (t(l := t u, u := t l))" using assms(2) by (intro rearranged_swap) auto
  ultimately show ?thesis using assms(2) asym
    by (simp add: sort_ends_def runs_bind runs_cmp rearranged_refl)
qed

lemma sort_middle_runs:
  assumes "\<forall>k \<in> {l..u}. t k \<in> A" "l < i" "i < u" "\<not> lt (t u) (t l)"
  shows "runs (sort_middle cmp l i u) (t, g)
    (\<lambda>_ (t', g'). g' = g \<and> rearranged l u t t' \<and> \<not> lt (t' i) (t' l) \<and> \<not> lt (t' u) (t' i)) (\<lambda>_. False)"
proof -
  have A: "t l \<in> A" "t u \<in> A" "t i \<in> A" using assms by auto
  have swap: "rearranged l u t (t(i := t l, l := t i))" "rearranged l u t (t(i := t u, u := t i))"
    using assms(2,3) by (intro rearranged_swap; simp)+
  have as: "lt (t i) (t l) \<Longrightarrow> \<not> lt (t l) (t i)" "lt (t u) (t i) \<Longrightarrow> \<not> lt (t i) (t u)" using A asym by blast+
  show ?thesis
  proof (cases "lt (t i) (t l)")
    case True
    then show ?thesis using A swap(1) as(1) assms(2-4) by (simp add: sort_middle_def runs_bind runs_cmp)
  next
    case False
    then show ?thesis using A swap(2) as(2) assms(2-4)
      by (cases "lt (t u) (t i)") (simp_all add: sort_middle_def runs_bind runs_cmp rearranged_refl)
  qed
qed

lemma sort_partition_runs:
  assumes "\<forall>k \<in> {l..u}. t k \<in> A" "l < i" "i \<le> u - 2" "\<not> lt (t i) (t l)" "\<not> lt (t u) (t i)"
  shows "runs (sort_partition cmp l i u) (t, g)
    (\<lambda>i' (t', g'). g' = g \<and> rearranged l u t t' \<and> l < i' \<and> i' < u \<and>
       (\<forall>k \<in> {l..i' - 1}. \<not> lt (t' i') (t' k)) \<and> (\<forall>k \<in> {i' + 1..u}. \<not> lt (t' k) (t' i'))) (\<lambda>_. False)"
proof -
  let ?p = "t i" and ?t = "t(i := t (u - 1), u - 1 := t i)"
  have pA: "?p \<in> A" and tA: "\<forall>k \<in> {l..u}. ?t k \<in> A" using assms(1-3) by auto
  have pp: "\<not> lt ?p ?p" using asym pA by blast
  have swapped: "rearranged l u t ?t" using assms(2,3) by (intro rearranged_swap) auto
  have part: "runs (partition_loop cmp ?p l u l (u - 1)) (?t, g)
    (\<lambda>i' (t', g'). g' = g \<and> rearranged l (u - 2) ?t t' \<and> l < i' \<and> i' \<le> u - 1 \<and>
       (\<forall>k \<in> {l..i' - 1}. \<not> lt ?p (t' k)) \<and> (\<forall>k \<in> {i'..u - 1}. \<not> lt (t' k) ?p)) (\<lambda>_. False)"
    by (rule partition_loop_runs [OF tA pA]) (use assms pp in auto)
  have place: "g' = g \<and> rearranged l u t (t'(u - 1 := t' i', i' := t' (u - 1))) \<and> l < i' \<and> i' < u \<and>
      (\<forall>k \<in> {l..i' - 1}. \<not> lt ((t'(u - 1 := t' i', i' := t' (u - 1))) i') ((t'(u - 1 := t' i', i' := t' (u - 1))) k)) \<and>
      (\<forall>k \<in> {i' + 1..u}. \<not> lt ((t'(u - 1 := t' i', i' := t' (u - 1))) k) ((t'(u - 1 := t' i', i' := t' (u - 1))) i'))"
    if p: "g' = g" "rearranged l (u - 2) ?t t'" "l < i'" "i' \<le> u - 1"
      "\<forall>k \<in> {l..i' - 1}. \<not> lt ?p (t' k)" "\<forall>k \<in> {i'..u - 1}. \<not> lt (t' k) ?p" for i' t' g'
  proof -
    have out: "t' (u - 1) = ?p" "t' u = t u" using rearranged_outside [OF p(2)] assms(2,3) by auto
    have "rearranged l u t' (t'(u - 1 := t' i', i' := t' (u - 1)))" using p(3,4) assms(2,3) by (intro rearranged_swap) auto
    moreover have "rearranged l u t t'" using rearranged_trans [OF swapped rearranged_mono [OF p(2)]] by simp
    ultimately have "rearranged l u t (t'(u - 1 := t' i', i' := t' (u - 1)))" by (rule rearranged_trans [rotated])
    moreover have "\<not> lt ?p (t' k)" if "l \<le> k" "k < i'" for k using p(5) that by simp
    moreover have "\<not> lt (t' k) ?p" if "i' \<le> k" "k \<le> u" for k
      using p(6) that assms(5) out(2) by (cases "k = u") auto
    ultimately show ?thesis using p(1,3,4) out(1) pp by auto
  qed
  show ?thesis
    by (simp add: sort_partition_def runs_bind runs_then)
      (rule runs_mono [OF part], insert place, auto)
qed

lemma sorted_combine:
  assumes A: "\<forall>k \<in> {l..u}. t k \<in> A" and m: "l \<le> m" "m \<le> u"
    and "sorted_slice lt l (m - 1) t" "sorted_slice lt (m + 1) u t"
    and lo: "\<forall>k \<in> {l..m - 1}. \<not> lt (t m) (t k)" and hi: "\<forall>k \<in> {m + 1..u}. \<not> lt (t k) (t m)"
  shows "sorted_slice lt l u t"
proof -
  have "\<not> lt (t j) (t i)" if ij: "l \<le> i" "i < j" "j \<le> u" for i j
  proof -
    consider "j < m" | "m < i" | "i \<le> m" "m \<le> j" by linarith
    then show ?thesis
    proof cases
      case 3
      have "\<not> lt (t m) (t i)" if "i < m" using lo that ij by simp
      moreover have "\<not> lt (t j) (t m)" if "m < j" using hi that ij by simp
      moreover have "\<not> lt (t j) (t i)" if "\<not> lt (t m) (t i)" "\<not> lt (t j) (t m)"
        by (rule nlt_trans [of _ "t m"]) (use A ij m that in auto)
      ultimately show ?thesis using 3 ij(2) by (metis order_le_less)
    qed (use assms(4,5) ij in \<open>simp_all add: sorted_slice_def\<close>)
  qed
  then show ?thesis by (simp add: sorted_slice_def)
qed

text \<open>Sorting the parts on either side of the pivot, in either order.\<close>

lemma halves_sorted:
  assumes A: "\<forall>k \<in> {l..u}. t k \<in> A" and m: "l \<le> m" "m \<le> u"
    and lo: "\<forall>k \<in> {l..m - 1}. \<not> lt (t m) (t k)" and hi: "\<forall>k \<in> {m + 1..u}. \<not> lt (t k) (t m)"
    and ab: "(a, b) = (l, m - 1) \<and> (c, d) = (m + 1, u) \<or> (a, b) = (m + 1, u) \<and> (c, d) = (l, m - 1)"
    and r1: "rearranged a b t t1" and s1: "sorted_slice lt a b t1"
    and r2: "rearranged c d t1 t2" and s2: "sorted_slice lt c d t2"
  shows "rearranged l u t t2 \<and> sorted_slice lt l u t2"
proof
  have sub: "l \<le> a" "b \<le> u" "l \<le> c" "d \<le> u" and disj: "\<And>k. k \<in> {a..b} \<Longrightarrow> k \<notin> {c..d}"
    and mid: "m \<notin> {a..b}" "m \<notin> {c..d}" using ab m by auto
  show r: "rearranged l u t t2"
    using rearranged_mono [OF r1 sub(1,2)] rearranged_mono [OF r2 sub(3,4)] by (rule rearranged_trans)
  have first: "t2 k = t1 k" if "k \<in> {a..b}" for k using rearranged_outside [OF r2 disj [OF that]] .
  have pivot: "t2 m = t m" using rearranged_outside [OF r2 mid(2)] rearranged_outside [OF r1 mid(1)] by simp
  have P1: "\<forall>k \<in> {a..b}. P (t2 k)" if "\<forall>k \<in> {a..b}. P (t k)" for P
    using rearranged_all [OF r1 that] first by simp
  have P2: "\<forall>k \<in> {c..d}. P (t2 k)" if "\<forall>k \<in> {c..d}. P (t k)" for P
  proof (rule rearranged_all [OF r2])
    show "\<forall>k \<in> {c..d}. P (t1 k)" using that rearranged_outside [OF r1] disj by (metis)
  qed
  have "sorted_slice lt a b t2" using s1 first by (simp add: sorted_slice_def)
  with s2 have s: "sorted_slice lt l (m - 1) t2" "sorted_slice lt (m + 1) u t2" using ab by auto
  have lo2: "\<forall>k \<in> {l..m - 1}. \<not> lt (t2 m) (t2 k)" and hi2: "\<forall>k \<in> {m + 1..u}. \<not> lt (t2 k) (t2 m)"
    using ab P1 [of "\<lambda>v. \<not> lt (t m) v"] P2 [of "\<lambda>v. \<not> lt (t m) v"]
      P1 [of "\<lambda>v. \<not> lt v (t m)"] P2 [of "\<lambda>v. \<not> lt v (t m)"] lo hi pivot by auto
  show "sorted_slice lt l u t2" by (rule sorted_combine [OF rearranged_all [OF r A] m s lo2 hi2])
qed

lemma auxsort_runs:
  assumes "\<forall>k \<in> {l..u}. t k \<in> A"
  shows "runs (auxsort cmp l u) (t, g)
    (\<lambda>_ (t', g'). g' = g \<and> rearranged l u t t' \<and> sorted_slice lt l u t') (\<lambda>_. False)"
  using assms
proof (induction "nat (u - l)" arbitrary: l u t rule: less_induct)
  case less
  let ?post = "\<lambda>_ :: unit. \<lambda>(t', g'). g' = g \<and> rearranged l u t t' \<and> sorted_slice lt l u t'"
  show ?case
  proof (cases "l < u")
    case False
    then show ?thesis by (auto simp: auxsort_unfold [of cmp l u] rearranged_refl sorted_slice_def)
  next
    case lu: True
    define i where "i = (l + u) div 2"
    have keep: "\<forall>k \<in> {l..u}. t' k \<in> A" if "rearranged l u t t'" for t'
      using rearranged_all [OF that less.prems] .
    have rest: "runs (bindM (sort_partition cmp l i u) (\<lambda>i.
          if i - l < u - i then thenM (auxsort cmp l (i - 1)) (auxsort cmp (i + 1) u)
          else thenM (auxsort cmp (i + 1) u) (auxsort cmp l (i - 1)))) (t2, g) ?post (\<lambda>_. False)"
      if t2: "rearranged l u t t2" "\<not> lt (t2 i) (t2 l)" "\<not> lt (t2 u) (t2 i)" and far: "u - l \<noteq> 1" "u - l \<noteq> 2" for t2
    proof -
      have i: "l < i" "i \<le> u - 2" using lu far by (auto simp: i_def)
      show ?thesis
      proof (rule runs_bindI [OF sort_partition_runs [OF keep [OF t2(1)] i t2(2,3)]], clarify)
        fix m t3
        assume t3: "rearranged l u t2 t3" "l < m" "m < u" "\<forall>k \<in> {l..m - 1}. \<not> lt (t3 m) (t3 k)" "\<forall>k \<in> {m + 1..u}. \<not> lt (t3 k) (t3 m)"
        have r3: "rearranged l u t t3" using rearranged_trans [OF t2(1) t3(1)] .
        have parts: "runs (thenM (auxsort cmp a b) (auxsort cmp c d)) (t3, g) ?post (\<lambda>_. False)"
          if ab: "(a, b) = (l, m - 1) \<and> (c, d) = (m + 1, u) \<or> (a, b) = (m + 1, u) \<and> (c, d) = (l, m - 1)" for a b c d
        proof -
          have small: "nat (b - a) < nat (u - l)" "nat (d - c) < nat (u - l)" using ab t3(2,3) by auto
          have sub: "l \<le> a" "b \<le> u" "l \<le> c" "d \<le> u" using ab t3(2,3) by auto
          have "\<forall>k \<in> {a..b}. t3 k \<in> A" using keep [OF r3] sub by auto
          note one = less.hyps [OF small(1) this]
          show ?thesis
          proof (rule runs_thenI [OF one], clarify)
            fix t4
            assume t4: "rearranged a b t3 t4" "sorted_slice lt a b t4"
            have "rearranged l u t t4" using rearranged_trans [OF r3 rearranged_mono [OF t4(1) sub(1,2)]] .
            from keep [OF this] have "\<forall>k \<in> {c..d}. t4 k \<in> A" using sub by auto
            from less.hyps [OF small(2) this] show "runs (auxsort cmp c d) (t4, g) ?post (\<lambda>_. False)"
            proof (rule runs_mono; clarify)
              fix t5
              assume "rearranged c d t4 t5" "sorted_slice lt c d t5"
              from halves_sorted [OF keep [OF r3] _ _ t3(4,5) ab t4 this] t3(2,3)
              show "g = g \<and> rearranged l u t t5 \<and> sorted_slice lt l u t5" using rearranged_trans [OF r3] by auto
            qed
          qed
        qed
        show "runs (if m - l < u - m then thenM (auxsort cmp l (m - 1)) (auxsort cmp (m + 1) u)
          else thenM (auxsort cmp (m + 1) u) (auxsort cmp l (m - 1))) (t3, g) ?post (\<lambda>_. False)"
          using parts by simp
      qed
    qed
    have middle: "runs (thenM (sort_middle cmp l i u) (if u - l = 2 then retM ()
          else bindM (sort_partition cmp l i u) (\<lambda>i.
            if i - l < u - i then thenM (auxsort cmp l (i - 1)) (auxsort cmp (i + 1) u)
            else thenM (auxsort cmp (i + 1) u) (auxsort cmp l (i - 1))))) (t1, g) ?post (\<lambda>_. False)"
      if t1: "rearranged l u t t1" "\<not> lt (t1 u) (t1 l)" and far: "u - l \<noteq> 1" for t1
    proof -
      have i: "l < i" "i < u" using lu far by (auto simp: i_def)
      show ?thesis
      proof (rule runs_thenI [OF sort_middle_runs [OF keep [OF t1(1)] i t1(2)]], clarify)
        fix t2
        assume t2: "rearranged l u t1 t2" "\<not> lt (t2 i) (t2 l)" "\<not> lt (t2 u) (t2 i)"
        have r2: "rearranged l u t t2" using rearranged_trans [OF t1(1) t2(1)] .
        have "sorted_slice lt l u t2" if "u - l = 2"
        proof (rule sorted_combine [OF keep [OF r2], of i])
          have e: "i = l + 1" "u = l + 2" using that by (auto simp: i_def)
          then have sets: "{l..i - 1} = {l}" "{i + 1..u} = {u}" by auto
          show "\<forall>k \<in> {l..i - 1}. \<not> lt (t2 i) (t2 k)" "\<forall>k \<in> {i + 1..u}. \<not> lt (t2 k) (t2 i)"
            unfolding sets using t2(2,3) by simp_all
          show "l \<le> i" "i \<le> u" "sorted_slice lt l (i - 1) t2" "sorted_slice lt (i + 1) u t2"
            using e by (auto simp: sorted_slice_def)
        qed
        then show "runs (if u - l = 2 then retM ()
          else bindM (sort_partition cmp l i u) (\<lambda>i.
            if i - l < u - i then thenM (auxsort cmp l (i - 1)) (auxsort cmp (i + 1) u)
            else thenM (auxsort cmp (i + 1) u) (auxsort cmp l (i - 1)))) (t2, g) ?post (\<lambda>_. False)"
          using rest [OF r2 t2(2,3) far] r2 by simp
      qed
    qed
    show ?thesis
      unfolding auxsort_unfold [of cmp l u] i_def [symmetric] if_P [OF lu]
    proof (rule runs_thenI [OF sort_ends_runs [OF less.prems lu]], clarify)
      fix t1
      assume t1: "rearranged l u t t1" "\<not> lt (t1 u) (t1 l)"
      have "sorted_slice lt l u t1" if "u - l = 1"
        unfolding sorted_slice_def
      proof (intro allI impI)
        fix i j
        assume "l \<le> i \<and> i < j \<and> j \<le> u"
        with that have "i = l" "j = u" by auto
        with t1(2) show "\<not> lt (t1 j) (t1 i)" by simp
      qed
      with middle [OF t1] t1(1)
      show "runs (if u - l = 1 then retM () else thenM (sort_middle cmp l i u) (if u - l = 2 then retM ()
          else bindM (sort_partition cmp l i u) (\<lambda>i.
            if i - l < u - i then thenM (auxsort cmp l (i - 1)) (auxsort cmp (i + 1) u)
            else thenM (auxsort cmp (i + 1) u) (auxsort cmp l (i - 1))))) (t1, g) ?post (\<lambda>_. False)"
        by simp
    qed
  qed
qed

end

subsection \<open>Numbers are sorted\<close>

text \<open>The default order on numbers other than NaN is such a comparison.\<close>

definition real_numbers :: "lvalue set" where
  "real_numbers = VNum ` {d. \<not> d_isnan d}"

fun num_less :: "lvalue \<Rightarrow> lvalue \<Rightarrow> bool" where
  "num_less (VNum a) (VNum b) = luai_numlt a b"
| "num_less _ _ = False"

lemma real_numbers_order:
  "sort_order (sort_comp truth (luaV_lessthan strcoll tm) None) num_less real_numbers"
  by unfold_locales
    (auto simp: real_numbers_def sort_comp_def luaV_lessthan_def luai_numlt_def)

interpretation number_order: sort_order "sort_comp truth (luaV_lessthan strcoll tm) None" num_less real_numbers
  for truth strcoll tm
  by (rule real_numbers_order)

text \<open>
  C35: \<^verbatim>\<open>table.sort\<close> with a comparison that is pure and a strict weak order on the elements returns
  without an error and leaves the elements in order, as a permutation of what they were, with
  every other entry of the table and the rest of the program unchanged.\<close>

theorem sort_sorts:
  assumes "sort_order (sort_comp truth lessthan f) lt A" "\<forall>k \<in> {1..n}. t k \<in> A" "used + 40 \<le> LUAI_MAXCSTACK"
  shows "\<exists>t'. sort_table truth lessthan f used n (t, g) = Some (Inr ((), (t', g))) \<and>
    (\<forall>i j. 1 \<le> i \<and> i < j \<and> j \<le> n \<longrightarrow> \<not> lt (t' j) (t' i)) \<and>
    image_mset t' (mset_set {1..n}) = image_mset t (mset_set {1..n}) \<and>
    (\<forall>k. k \<notin> {1..n} \<longrightarrow> t' k = t k)"
proof -
  have room: "luaL_checkstack used 40 [] = Inr ()"
    using assms(3) by (simp add: luaL_checkstack_def lua_checkstack_def LUAI_MAXCSTACK_def)
  have "sort_table truth lessthan f used n (t, g) = auxsort (sort_comp truth lessthan f) 1 n (t, g)"
    by (simp add: sort_table_def room liftM_def thenM_def bindM_def retM_def)
  with sort_order.auxsort_runs [OF assms(1,2), of g] show ?thesis
    using rearranged_mset rearranged_outside
    by (fastforce simp: runs_def sorted_slice_def split: option.splits sum.splits)
qed

theorem sort_sorts_witness:
  "\<exists>t'. sort_table (\<lambda>_. True) (luaV_lessthan strcmp (\<lambda>_ _. retM None)) None 1 3 ((\<lambda>k. VNum (cast_num (3 - k))), ()) = Some (Inr ((), (t', ()))) \<and>
    (\<forall>i j. 1 \<le> i \<and> i < j \<and> j \<le> (3 :: int) \<longrightarrow> \<not> num_less (t' j) (t' i))"
proof -
  have "\<forall>k \<in> {1..3 :: int}. VNum (cast_num (3 - k)) \<in> real_numbers"
    using not_nan_cast_num by (auto simp: real_numbers_def)
  from sort_sorts [OF real_numbers_order this, of 1 "\<lambda>_. True" strcmp "\<lambda>_ _. retM None" "()"] show ?thesis
    by (auto simp: LUAI_MAXCSTACK_def)
qed

subsection \<open>A comparison that is no order\<close>

text \<open>
  A function of the script that counts its calls and answers false, four times true, twice
  false, and so on.\<close>

definition counting :: "'v \<Rightarrow> 'v \<Rightarrow> ('v, int, bool) tcomp" where
  "counting a b s = Some (Inr (snd s mod 7 \<in> {1, 2, 3, 4}, (fst s, snd s + 1)))"

lemma counting_step: "counting a b (t, g) = Some (Inr (g mod 7 \<in> {1, 2, 3, 4}, (t, g + 1)))"
  by (simp add: counting_def)

lemma counting_scan_up:
  "scan_up counting p 4 1 (t, 7 * k + 2) = Some (Inr ((5, t 5), (t, 7 * k + 6)))"
proof -
  note u = scan_up.simps [of counting p 4]
  have "scan_up counting p 4 4 (t, 7 * k + 5) = Some (Inr ((5, t 5), (t, 7 * k + 6)))"
    by (subst u) (simp add: gen_defs lua_rawgeti_def counting_step add.commute)
  moreover have "scan_up counting p 4 3 (t, 7 * k + 4) = scan_up counting p 4 4 (t, 7 * k + 5)"
    by (subst u) (simp add: gen_defs lua_rawgeti_def counting_step add.commute)
  moreover have "scan_up counting p 4 2 (t, 7 * k + 3) = scan_up counting p 4 3 (t, 7 * k + 4)"
    by (subst u) (simp add: gen_defs lua_rawgeti_def counting_step add.commute)
  moreover have "scan_up counting p 4 1 (t, 7 * k + 2) = scan_up counting p 4 2 (t, 7 * k + 3)"
    by (subst u) (simp add: gen_defs lua_rawgeti_def counting_step add.commute)
  ultimately show ?thesis by simp
qed

lemma counting_partition:
  "partition_loop counting p 1 4 1 3 (t, 7 * k + 2) = Some (Inr (5, (t, 7 * k + 7)))"
proof -
  have "scan_down counting p 1 3 (t, 7 * k + 6) = Some (Inr ((2, t 2), (t, 7 * k + 7)))"
    by (subst scan_down.simps) (simp add: gen_defs lua_rawgeti_def counting_step add.commute)
  then show ?thesis
    by (subst partition_loop.simps) (simp add: gen_defs counting_scan_up)
qed

lemma counting_round:
  "\<exists>t'. (if 1 < (4 :: int) then
        thenM (sort_ends counting 1 4)
          (if 4 - 1 = (1 :: int) then retM ()
           else thenM (sort_middle counting 1 ((1 + 4) div 2) 4)
             (if 4 - 1 = (2 :: int) then retM ()
              else bindM (sort_partition counting 1 ((1 + 4) div 2) 4) (\<lambda>i.
                if i - 1 < 4 - i then thenM (f counting 1 (i - 1)) (f counting (i + 1) 4)
                else thenM (f counting (i + 1) 4) (f counting 1 (i - 1))))) (t, 7 * k)
      else retM () (t, 7 * k)) = thenM (f counting 6 4) (f counting 1 4) (t', 7 * k + 7)"
proof -
  have "\<exists>t'. sort_ends counting 1 4 (t, 7 * k) = Some (Inr ((), (t', 7 * k + 1)))"
    by (simp add: sort_ends_def gen_defs lua_rawgeti_def counting_step)
  then obtain t1 where 1: "sort_ends counting 1 4 (t, 7 * k) = Some (Inr ((), (t1, 7 * k + 1)))" ..
  have "\<exists>t'. sort_middle counting 1 2 4 (t1, 7 * k + 1) = Some (Inr ((), (t', 7 * k + 2)))"
    by (simp add: sort_middle_def set2_def lua_rawseti_def gen_defs lua_rawgeti_def counting_step)
  then obtain t2 where 2: "sort_middle counting 1 2 4 (t1, 7 * k + 1) = Some (Inr ((), (t2, 7 * k + 2)))" ..
  have "\<exists>t'. sort_partition counting 1 2 4 (t2, 7 * k + 2) = Some (Inr (5, (t', 7 * k + 7)))"
    by (simp add: sort_partition_def set2_def lua_rawseti_def gen_defs lua_rawgeti_def counting_partition)
  then obtain t3 where 3: "sort_partition counting 1 2 4 (t2, 7 * k + 2) = Some (Inr (5, (t3, 7 * k + 7)))" ..
  show ?thesis
    using 1 2 3 by (intro exI [of _ t3]) (simp add: gen_defs)
qed

lemma counting_hangs:
  assumes "auxsort cmp l u s = Some r"
  shows "\<not> (cmp = counting \<and> l = 1 \<and> u = 4 \<and> snd s mod 7 = 0) \<and> (\<not> l < u \<longrightarrow> r = Inr ((), s))"
proof (rule auxsort.raw_induct
    [where P = "\<lambda>cmp l u s r. \<not> (cmp = counting \<and> l = 1 \<and> u = 4 \<and> snd s mod 7 = 0) \<and> (\<not> l < u \<longrightarrow> r = Inr ((), s))", OF _ assms])
  fix f :: "('v \<Rightarrow> 'v \<Rightarrow> ('v, int, bool) tcomp) \<Rightarrow> int \<Rightarrow> int \<Rightarrow> ('v, int, unit) tcomp" and cmp l u s r
  assume IH: "\<And>cmp l u s r. f cmp l u s = Some r \<Longrightarrow>
      \<not> (cmp = counting \<and> l = 1 \<and> u = 4 \<and> snd s mod 7 = 0) \<and> (\<not> l < u \<longrightarrow> r = Inr ((), s))"
    and body: "(if l < u then
        thenM (sort_ends cmp l u)
          (if u - l = 1 then retM ()
           else thenM (sort_middle cmp l ((l + u) div 2) u)
             (if u - l = 2 then retM ()
              else bindM (sort_partition cmp l ((l + u) div 2) u) (\<lambda>i.
                if i - l < u - i then thenM (f cmp l (i - 1)) (f cmp (i + 1) u)
                else thenM (f cmp (i + 1) u) (f cmp l (i - 1))))) s
      else retM () s) = Some r"
  have "False" if c: "cmp = counting" "l = 1" "u = 4" "snd s mod 7 = 0"
  proof -
    obtain t g where s: "s = (t, g)" by (cases s)
    with c(4) obtain k where k: "g = 7 * k" by auto
    from counting_round [of f t k] body obtain t' where
      run: "thenM (f counting 6 4) (f counting 1 4) (t', 7 * k + 7) = Some r"
      unfolding c s k by auto
    then obtain x where x: "f counting 6 4 (t', 7 * k + 7) = Some x"
      by (auto simp: gen_defs split: option.splits)
    from IH [OF this] have "x = Inr ((), (t', 7 * k + 7))" by simp
    with run x have "f counting 1 4 (t', 7 * k + 7) = Some r" by (simp add: gen_defs)
    from IH [OF this] show False by simp
  qed
  moreover have "r = Inr ((), s)" if "\<not> l < u" using body that by (simp add: retM_def)
  ultimately show "\<not> (cmp = counting \<and> l = 1 \<and> u = 4 \<and> snd s mod 7 = 0) \<and> (\<not> l < u \<longrightarrow> r = Inr ((), s))" by argo
qed

text \<open>
  C36: with a comparison that is not an order \<^verbatim>\<open>table.sort\<close> may never return: the check for an
  invalid order function lets the scan stop one past the end of the slice, and the next round
  works on the same slice again.\<close>

theorem sort_may_hang: "auxsort counting 1 4 (t, 0) = None"
proof (rule ccontr)
  assume "auxsort counting 1 4 (t, 0) \<noteq> None"
  then obtain r where "auxsort counting 1 4 (t, 0) = Some r" by auto
  from counting_hangs [OF this] show False by simp
qed

end
