(* ===== verification/Tablib_Laws.thy ===== *)
theory Tablib_Laws
  imports Tablib_Sort
begin

text \<open>\<^verbatim>\<open>table.insert\<close>, \<^verbatim>\<open>table.remove\<close>, \<^verbatim>\<open>table.concat\<close> and \<^verbatim>\<open>table.foreachi\<close>.\<close>

lemma move_up_runs:
  "move_up pos i (t, g) = Some (Inr ((), (\<lambda>k. if pos < k \<and> k \<le> i then t (k - 1) else t k, g)))"
proof (induction "nat (i - pos)" arbitrary: i t rule: less_induct)
  case less
  show ?case
  proof (cases "pos < i")
    case True
    then have "nat (i - 1 - pos) < nat (i - pos)" by simp
    from less.hyps [OF this, of "t(i := t (i - 1))"] True show ?thesis
      by (subst move_up.simps) (auto simp: gen_defs lua_rawgeti_def lua_rawseti_def fun_eq_iff)
  next
    case False
    then have "(\<lambda>k. if pos < k \<and> k \<le> i then t (k - 1) else t k) = t" by (intro ext) auto
    with False show ?thesis by (subst move_up.simps) (simp add: retM_def)
  qed
qed

lemma move_down_runs:
  "move_down e pos (t, g) = Some (Inr ((), (\<lambda>k. if pos \<le> k \<and> k < e then t (k + 1) else t k, g)))"
proof (induction "nat (e - pos)" arbitrary: pos t rule: less_induct)
  case less
  show ?case
  proof (cases "pos < e")
    case True
    then have "nat (e - (pos + 1)) < nat (e - pos)" by simp
    from less.hyps [OF this, of "t(pos := t (pos + 1))"] True show ?thesis
      by (subst move_down.simps) (auto simp: gen_defs lua_rawgeti_def lua_rawseti_def fun_eq_iff)
  next
    case False
    then have "(\<lambda>k. if pos \<le> k \<and> k < e then t (k + 1) else t k) = t" by (intro ext) auto
    with False show ?thesis by (subst move_down.simps) (simp add: retM_def)
  qed
qed

lemma tinsert_runs:
  assumes "1 \<le> p" "p \<le> n + 1" "n + 1 < 2 ^ 31"
  shows "tinsert n (Some p) v (t, g) =
    Some (Inr ((), (\<lambda>k. if k = p then v else if p < k \<and> k \<le> n + 1 then t (k - 1) else t k, g)))"
proof -
  have "c_int p = p" using assms by (intro c_int_small) auto
  with assms(2) show ?thesis
    by (auto simp: tinsert_def Let_def thenM_def bindM_def move_up_runs lua_rawseti_def modM_def fun_eq_iff)
qed

lemma tremove_runs:
  assumes "1 \<le> p" "p \<le> e" "e < 2 ^ 31"
  shows "tremove nil e (Some p) (t, g) =
    Some (Inr (Some (t p), (\<lambda>k. if k = e then nil else if p \<le> k \<and> k < e then t (k + 1) else t k, g)))"
proof -
  have "c_int p = p" using assms by (intro c_int_small) auto
  with assms(1,2) show ?thesis
    by (auto simp: tremove_def Let_def gen_defs move_down_runs lua_rawseti_def lua_rawgeti_def fun_eq_iff)
qed

text \<open>
  removing at a position what was inserted there gives the value back and restores every
  entry of the table.\<close>

theorem insert_remove_roundtrip:
  assumes "1 \<le> p" "p \<le> n + 1" "n + 1 < 2 ^ 31" "t (n + 1) = nil"
  shows "bindM (tinsert n (Some p) v) (\<lambda>_. tremove nil (n + 1) (Some p)) (t, g) = Some (Inr (Some v, (t, g)))"
proof -
  define t1 where "t1 = (\<lambda>k. if k = p then v else if p < k \<and> k \<le> n + 1 then t (k - 1) else t k)"
  have "bindM (tinsert n (Some p) v) (\<lambda>_. tremove nil (n + 1) (Some p)) (t, g) = tremove nil (n + 1) (Some p) (t1, g)"
    using assms(1-3) by (simp add: bindM_def tinsert_runs t1_def)
  also have "\<dots> = Some (Inr (Some (t1 p), (\<lambda>k. if k = n + 1 then nil else if p \<le> k \<and> k < n + 1 then t1 (k + 1) else t1 k, g)))"
    by (rule tremove_runs [OF assms(1-3)])
  also have "t1 p = v" by (simp add: t1_def)
  also have "(\<lambda>k. if k = n + 1 then nil else if p \<le> k \<and> k < n + 1 then t1 (k + 1) else t1 k) = t"
    using assms by (intro ext) (auto simp: t1_def)
  finally show ?thesis .
qed

theorem insert_remove_roundtrip_witness:
  "bindM (tinsert 3 (Some 2) (9 :: int)) (\<lambda>_. tremove 0 (3 + 1) (Some 2)) (\<lambda>k. if k \<in> {1..3} then k else 0, ()) =
   Some (Inr (Some 9, (\<lambda>k. if k \<in> {1..3} then k else 0, ())))"
  by (rule insert_remove_roundtrip) simp_all

subsection \<open>Concatenation\<close>

text \<open>The reference: the texts of a list of values, separated.\<close>

fun join :: "string \<Rightarrow> string list \<Rightarrow> string" where
  "join sep [] = []"
| "join sep [x] = x"
| "join sep (x # y # xs) = x @ sep @ join sep (y # xs)"

lemma concat_table_runs:
  assumes "\<forall>k \<in> {i..j}. value_text num2str (t k) = Some (txt k)"
  shows "concat_table num2str sep i j b (t, g) = Some (Inr (b @ join sep (map txt [i..j]), (t, g)))"
  using assms
proof (induction "nat (j - i)" arbitrary: i b rule: less_induct)
  case less
  consider "i < j" | "i = j" | "j < i" by linarith
  then show ?case
  proof cases
    case 1
    then have "nat (j - (i + 1)) < nat (j - i)" "\<forall>k \<in> {i + 1..j}. value_text num2str (t k) = Some (txt k)"
      using less.prems by auto
    note rest = less.hyps [OF this]
    have "[i + 1..j] = (i + 1) # [i + 1 + 1..j]" "[i..j] = i # [i + 1..j]" using 1 by (simp_all only: upto_rec1)
    then show ?thesis using 1 less.prems rest
      by (subst concat_table.simps) (simp add: gen_defs addfield_def lua_rawgeti_def)
  next
    case 2
    then show ?thesis using less.prems
      by (subst concat_table.simps) (simp add: gen_defs addfield_def lua_rawgeti_def)
  next
    case 3
    then show ?thesis by (subst concat_table.simps) (simp add: retM_def)
  qed
qed

text \<open>
  \<^verbatim>\<open>table.concat\<close> of elements that are strings or numbers is their texts with the separator
  between them, the empty string if there are none, and does not change the table.\<close>

theorem tconcat_joins:
  assumes "\<forall>k \<in> {1..n}. value_text num2str (t k) = Some (txt k)"
  shows "tconcat num2str n (Some sep) None None (t, g) = Some (Inr (join sep (map txt [1..n]), (t, g)))"
proof -
  have "c_int 1 = 1" by (rule c_int_small) simp_all
  with concat_table_runs [OF assms, of sep "[]" g] show ?thesis by (simp add: tconcat_def)
qed

theorem tconcat_joins_witness:
  "tconcat (\<lambda>_. []) 3 (Some '', '') None None (\<lambda>k. VStr ''x'', ()) = Some (Inr (''x, x, x'', (\<lambda>k. VStr ''x'', ())))"
proof -
  have "[1..3 :: int] = [1, 2, 3]" by (simp add: upto_rec1)
  moreover have "\<forall>k \<in> {1..3 :: int}. value_text (\<lambda>_. []) (VStr ''x'') = Some ''x''" by simp
  ultimately show ?thesis using tconcat_joins [of 3 "\<lambda>_. []" "\<lambda>k. VStr ''x''" "\<lambda>_. ''x''" "'', ''" "()"] by simp
qed

end
