(* ===== verification/Parser.thy ===== *)
theory Parser
  imports Lexer Codegen_Exp Undump
begin

text \<open>
  The parser (\<^verbatim>\<open>lparser.c\<close>): its state and the functions below the grammar.

  The state is the lexer's, the functions being compiled, innermost first (\<^verbatim>\<open>ls->fs\<close> and its
  \<^verbatim>\<open>prev\<close> chain), and the count of nested C calls.  A function being compiled is the code
  generator's state and what only the parser uses of its \<^verbatim>\<open>Proto\<close> and \<^verbatim>\<open>FuncState\<close>.  The fixed
  arrays \<^verbatim>\<open>actvar\<close> and \<^verbatim>\<open>upvalues\<close> are lists; an access outside \<^verbatim>\<open>actvar\<close> or \<^verbatim>\<open>locvars\<close> is the
  error \<open>BadAccess\<close>.  The strings entered in the table \<^verbatim>\<open>fs->h\<close> of the enclosing function are
  put aside while an inner one is compiled.
\<close>

definition LUAI_MAXVARS :: int where "LUAI_MAXVARS = 200"
definition LUAI_MAXUPVALUES :: int where "LUAI_MAXUPVALUES = 60"
definition SHRT_MAX :: int where "SHRT_MAX = 32767"

record BlockCnt =
  bl_breaklist :: int
  bl_nactvar :: int
  bl_upval :: bool
  bl_isbreakable :: bool

record FuncParse =
  fp_fs :: FuncState
  fp_p :: "Proto list"
  fp_sizep :: int
  fp_locvars :: "LocVar list"
  fp_sizelocvars :: int
  fp_actvar :: "int list"
  fp_upvalues :: "string list"
  fp_sizeupvalues :: int
  fp_updesc :: "(expkind \<times> int) list"
  fp_bl :: "BlockCnt list"
  fp_source :: string
  fp_linedefined :: int
  fp_lastlinedefined :: int
  fp_numparams :: int
  fp_is_vararg :: u8
  fp_outer_strings :: "string list"

record 'd PState =
  ps_ls :: "'d LexState"
  ps_fs :: "FuncParse list"
  ps_nCcalls :: int

datatype pstop = LexStop lexstop | GenStop kstop | BadAccess | NoFuel

type_synonym ('d, 'a) parse = "('d PState, pstop, 'a) comp"

text \<open>What comes from outside: the C library and the reader of the stream.\<close>

record 'd penv =
  pe_lex :: lex_env
  pe_rd :: "'d reader"
  pe_fp :: fpops

text \<open>Computations in sequence.\<close>

primrec seqM :: "('s, 'e, unit) comp list \<Rightarrow> ('s, 'e, unit) comp" where
  "seqM [] = retM ()"
| "seqM (m # ms) = thenM m (seqM ms)"

definition whenM :: "bool \<Rightarrow> ('s, 'e, unit) comp \<Rightarrow> ('s, 'e, unit) comp" where
  "whenM b m = (if b then m else retM ())"

subsection \<open>Steps of the lexer and of the code generator\<close>

definition lexM :: "('d, 'a) lex \<Rightarrow> ('d, 'a) parse" where
  "lexM m ps =
     (case m (ps_ls ps) of
        None \<Rightarrow> None
      | Some (Inl e) \<Rightarrow> Some (Inl (LexStop e))
      | Some (Inr (x, ls)) \<Rightarrow> Some (Inr (x, ps\<lparr>ps_ls := ls\<rparr>)))"

text \<open>The function being compiled.\<close>

definition curM :: "(FuncParse \<Rightarrow> 'a) \<Rightarrow> ('d, 'a) parse" where
  "curM f ps = (case ps_fs ps of [] \<Rightarrow> Some (Inl BadAccess) | fp # fps \<Rightarrow> Some (Inr (f fp, ps)))"

definition setcurM :: "(FuncParse \<Rightarrow> FuncParse) \<Rightarrow> ('d, unit) parse" where
  "setcurM f ps =
     (case ps_fs ps of [] \<Rightarrow> Some (Inl BadAccess) | fp # fps \<Rightarrow> Some (Inr ((), ps\<lparr>ps_fs := f fp # fps\<rparr>)))"

text \<open>
  The code generator takes the line of an instruction from the lexer.  Its syntax errors are
  reported by the lexer, at the current token.\<close>

definition genM :: "'a gen \<Rightarrow> ('d, 'a) parse" where
  "genM m ps =
     (case ps_fs ps of
        [] \<Rightarrow> Some (Inl BadAccess)
      | fp # fps \<Rightarrow>
          (case m ((fp_fs fp)\<lparr>fs_lastline := ls_lastline (ps_ls ps)\<rparr>) of
             None \<Rightarrow> None
           | Some (Inl (SyntaxError msg)) \<Rightarrow> lexM (luaX_syntaxerror msg) ps
           | Some (Inl e) \<Rightarrow> Some (Inl (GenStop e))
           | Some (Inr (x, fs)) \<Rightarrow> Some (Inr (x, ps\<lparr>ps_fs := fp\<lparr>fp_fs := fs\<rparr> # fps\<rparr>))))"

definition tokenM :: "('d, int) parse" where
  "tokenM = getM (\<lambda>ps. token (ls_t (ps_ls ps)))"

definition lineM :: "('d, int) parse" where
  "lineM = getM (\<lambda>ps. ls_linenumber (ps_ls ps))"

definition nextM :: "'d penv \<Rightarrow> ('d, unit) parse" where
  "nextM E = lexM (luaX_next (pe_lex E) (pe_rd E))"

definition syntaxerrorM :: "string \<Rightarrow> ('d, 'a) parse" where
  "syntaxerrorM msg = lexM (luaX_syntaxerror msg)"

definition quoted_text :: "string \<Rightarrow> string" where
  "quoted_text s = [CHR 0x27] @ s @ [CHR 0x27]"

definition hasmultret :: "expkind \<Rightarrow> bool" where
  "hasmultret k \<longleftrightarrow> k = VCALL \<or> k = VVARARG"

definition init_exp :: "expkind \<Rightarrow> int \<Rightarrow> expdesc" where
  "init_exp k i = \<lparr>e_k = k, e_info = i, e_aux = 0, e_nval = 0, e_t = NO_JUMP, e_f = NO_JUMP\<rparr>"

subsection \<open>Tokens\<close>

definition anchor_token :: "('d, unit) parse" where
  "anchor_token =
     bindM (getM (\<lambda>ps. ls_t (ps_ls ps))) (\<lambda>t.
       if token t = TK_NAME \<or> token t = TK_STRING then
         (case seminfo t of SemTs s \<Rightarrow> bindM (lexM (luaX_newstring s)) (\<lambda>_. retM ()) | _ \<Rightarrow> failM BadAccess)
       else retM ())"

definition error_expected :: "int \<Rightarrow> ('d, 'a) parse" where
  "error_expected t = syntaxerrorM (quoted_text (luaX_token2str t) @ '' expected'')"

definition limit_message :: "FuncParse \<Rightarrow> int \<Rightarrow> string \<Rightarrow> string" where
  "limit_message fp limit what =
     (if fp_linedefined fp = 0 then ''main function has more than '' @ show_nat (nat limit) @ '' '' @ what
      else ''function at line '' @ show_nat (nat (fp_linedefined fp)) @ '' has more than '' @ show_nat (nat limit) @ '' '' @ what)"

definition luaY_checklimit :: "int \<Rightarrow> int \<Rightarrow> string \<Rightarrow> ('d, unit) parse" where
  "luaY_checklimit v l m =
     (if v > l then bindM (curM (\<lambda>fp. limit_message fp l m)) (\<lambda>msg. lexM (luaX_lexerror msg 0)) else retM ())"

definition testnext :: "'d penv \<Rightarrow> int \<Rightarrow> ('d, bool) parse" where
  "testnext E c = bindM tokenM (\<lambda>t. if t = c then thenM (nextM E) (retM True) else retM False)"

definition checkM :: "int \<Rightarrow> ('d, unit) parse" where
  "checkM c = bindM tokenM (\<lambda>t. if t \<noteq> c then error_expected c else retM ())"

definition checknext :: "'d penv \<Rightarrow> int \<Rightarrow> ('d, unit) parse" where
  "checknext E c = thenM (checkM c) (nextM E)"

definition check_match :: "'d penv \<Rightarrow> int \<Rightarrow> int \<Rightarrow> int \<Rightarrow> ('d, unit) parse" where
  "check_match E what who line =
     bindM (testnext E what) (\<lambda>b.
       if \<not> b then
         bindM lineM (\<lambda>l.
           if line = l then error_expected what
           else syntaxerrorM (quoted_text (luaX_token2str what) @ '' expected (to close '' @
             quoted_text (luaX_token2str who) @ '' at line '' @ show_nat (nat line) @ '')''))
       else retM ())"

text \<open>The string of the current token.\<close>

definition token_string :: "('d, string) parse" where
  "token_string =
     bindM (getM (\<lambda>ps. seminfo (ls_t (ps_ls ps)))) (\<lambda>s. case s of SemTs s \<Rightarrow> retM s | _ \<Rightarrow> failM BadAccess)"

definition str_checkname :: "'d penv \<Rightarrow> ('d, string) parse" where
  "str_checkname E =
     thenM (checkM TK_NAME) (bindM token_string (\<lambda>s. thenM (nextM E) (retM s)))"

definition codestring :: "string \<Rightarrow> ('d, expdesc) parse" where
  "codestring s = bindM (genM (luaK_stringK s)) (\<lambda>i. retM (init_exp VK i))"

definition checkname :: "'d penv \<Rightarrow> ('d, expdesc) parse" where
  "checkname E = bindM (str_checkname E) codestring"

subsection \<open>Local variables\<close>

definition growM :: "int \<Rightarrow> int \<Rightarrow> int \<Rightarrow> string \<Rightarrow> ('d, int) parse" where
  "growM nelems sz limit msg =
     (case luaM_growvector nelems sz limit msg of Inl e \<Rightarrow> failM (GenStop e) | Inr sz \<Rightarrow> retM sz)"

definition registerlocalvar :: "string \<Rightarrow> ('d, int) parse" where
  "registerlocalvar name =
     bindM (curM (\<lambda>fp. (int (length (fp_locvars fp)), fp_sizelocvars fp))) (\<lambda>(n, sz).
     bindM (growM n sz SHRT_MAX ''too many local variables'') (\<lambda>sz.
     thenM (setcurM (\<lambda>fp. fp\<lparr>fp_sizelocvars := sz,
              fp_locvars := fp_locvars fp @ [\<lparr>varname = Some name, startpc = 0, endpc = 0\<rparr>]\<rparr>))
       (retM n)))"

definition set_actvar :: "int \<Rightarrow> int \<Rightarrow> ('d, unit) parse" where
  "set_actvar i v =
     bindM (curM (\<lambda>fp. int (length (fp_actvar fp)))) (\<lambda>n.
       if 0 \<le> i \<and> i < n then setcurM (\<lambda>fp. fp\<lparr>fp_actvar := (fp_actvar fp)[nat i := v mod 65536]\<rparr>)
       else failM BadAccess)"

definition nactvarM :: "('d, int) parse" where
  "nactvarM = curM (\<lambda>fp. fs_nactvar (fp_fs fp))"

definition new_localvar :: "string \<Rightarrow> int \<Rightarrow> ('d, unit) parse" where
  "new_localvar name n =
     bindM nactvarM (\<lambda>na.
     thenM (luaY_checklimit (na + n + 1) LUAI_MAXVARS ''local variables'')
       (bindM (registerlocalvar name) (set_actvar (na + n))))"

definition new_localvarliteral :: "string \<Rightarrow> int \<Rightarrow> ('d, unit) parse" where
  "new_localvarliteral v n = bindM (lexM (luaX_newstring v)) (\<lambda>s. new_localvar s n)"

text \<open>\<^verbatim>\<open>getlocvar (fs, i)\<close>, to be changed.\<close>

definition upd_locvar :: "int \<Rightarrow> (LocVar \<Rightarrow> LocVar) \<Rightarrow> ('d, unit) parse" where
  "upd_locvar i f =
     bindM (curM (\<lambda>fp. (at (fp_actvar fp) i, length (fp_locvars fp)))) (\<lambda>(a, n).
       case a of
         None \<Rightarrow> failM BadAccess
       | Some v \<Rightarrow>
           if 0 \<le> v \<and> v < int n then
             setcurM (\<lambda>fp. fp\<lparr>fp_locvars := (fp_locvars fp)[nat v := f (fp_locvars fp ! nat v)]\<rparr>)
           else failM BadAccess)"

fun mark_start :: "nat \<Rightarrow> ('d, unit) parse" where
  "mark_start 0 = retM ()"
| "mark_start (Suc k) =
     bindM (curM (\<lambda>fp. (fs_nactvar (fp_fs fp), fs_pc (fp_fs fp)))) (\<lambda>(na, pc).
     thenM (upd_locvar (na - int (Suc k)) (\<lambda>v. v\<lparr>startpc := pc\<rparr>)) (mark_start k))"

definition adjustlocalvars :: "int \<Rightarrow> ('d, unit) parse" where
  "adjustlocalvars nvars =
     thenM (setcurM (\<lambda>fp. fp\<lparr>fp_fs := (fp_fs fp)\<lparr>fs_nactvar := (fs_nactvar (fp_fs fp) + nvars) mod 256\<rparr>\<rparr>))
       (mark_start (nat nvars))"

partial_function (option) removevars :: "int \<Rightarrow> ('d, unit) parse" where
  [code]: "removevars tolevel s =
     bindM (curM (\<lambda>fp. (fs_nactvar (fp_fs fp), fs_pc (fp_fs fp)))) (\<lambda>(na, pc).
       if na > tolevel then
         thenM (setcurM (\<lambda>fp. fp\<lparr>fp_fs := (fp_fs fp)\<lparr>fs_nactvar := na - 1\<rparr>\<rparr>))
           (thenM (upd_locvar (na - 1) (\<lambda>v. v\<lparr>endpc := pc\<rparr>)) (removevars tolevel))
       else retM ()) s"

subsection \<open>Variables of enclosing functions\<close>

fun find_updesc :: "(expkind \<times> int) list \<Rightarrow> int \<Rightarrow> expkind \<Rightarrow> int \<Rightarrow> int option" where
  "find_updesc [] i k info = None"
| "find_updesc ((k', info') # us) i k info =
     (if k' = k \<and> info' = info then Some i else find_updesc us (i + 1) k info)"

text \<open>An error of these functions is the message of \<^verbatim>\<open>luaX_lexerror\<close> or of \<^verbatim>\<open>luaG_runerror\<close>.\<close>

datatype uperror = UpLimit string | UpGen kstop | UpBad

definition indexupvalue :: "FuncParse \<Rightarrow> string \<Rightarrow> expdesc \<Rightarrow> uperror + int \<times> FuncParse" where
  "indexupvalue fp name v =
     (case find_updesc (fp_updesc fp) 0 (e_k v) (e_info v) of
        Some i \<Rightarrow> Inr (i, fp)
      | None \<Rightarrow>
          let nups = int (length (fp_upvalues fp)) in
          if nups + 1 > LUAI_MAXUPVALUES then Inl (UpLimit (limit_message fp LUAI_MAXUPVALUES ''upvalues''))
          else (case luaM_growvector nups (fp_sizeupvalues fp) K_MAX_INT [] of
                  Inl e \<Rightarrow> Inl (UpGen e)
                | Inr sz \<Rightarrow>
                    Inr (nups, fp\<lparr>fp_sizeupvalues := sz, fp_upvalues := fp_upvalues fp @ [name],
                           fp_updesc := fp_updesc fp @ [(e_k v, e_info v mod 256)]\<rparr>)))"

fun searchvar_loop :: "FuncParse \<Rightarrow> string \<Rightarrow> nat \<Rightarrow> int option" where
  "searchvar_loop fp n 0 = Some (- 1)"
| "searchvar_loop fp n (Suc i) =
     (case Option.bind (at (fp_actvar fp) (int i)) (at (fp_locvars fp)) of
        None \<Rightarrow> None
      | Some v \<Rightarrow> if Some n = varname v then Some (int i) else searchvar_loop fp n i)"

definition searchvar :: "FuncParse \<Rightarrow> string \<Rightarrow> int option" where
  "searchvar fp n = searchvar_loop fp n (nat (fs_nactvar (fp_fs fp)))"

fun markupval_blocks :: "BlockCnt list \<Rightarrow> int \<Rightarrow> BlockCnt list" where
  "markupval_blocks [] level = []"
| "markupval_blocks (bl # bls) level =
     (if bl_nactvar bl > level then bl # markupval_blocks bls level else bl\<lparr>bl_upval := True\<rparr> # bls)"

definition markupval :: "FuncParse \<Rightarrow> int \<Rightarrow> FuncParse" where
  "markupval fp level = fp\<lparr>fp_bl := markupval_blocks (fp_bl fp) level\<rparr>"

text \<open>The kind of the result is that of the expression.\<close>

fun singlevaraux :: "FuncParse list \<Rightarrow> string \<Rightarrow> bool \<Rightarrow> uperror + expdesc \<times> FuncParse list" where
  "singlevaraux [] n base = Inr (init_exp VGLOBAL NO_REG, [])"
| "singlevaraux (fp # fps) n base =
     (case searchvar fp n of
        None \<Rightarrow> Inl UpBad
      | Some v \<Rightarrow>
          if v \<ge> 0 then Inr (init_exp VLOCAL v, (if base then fp else markupval fp v) # fps)
          else
            (case singlevaraux fps n False of
               Inl e \<Rightarrow> Inl e
             | Inr (var, fps) \<Rightarrow>
                 if e_k var = VGLOBAL then Inr (var, fp # fps)
                 else (case indexupvalue fp n var of
                         Inl e \<Rightarrow> Inl e
                       | Inr (i, fp) \<Rightarrow> Inr (var\<lparr>e_info := i, e_k := VUPVAL\<rparr>, fp # fps))))"

definition singlevarM :: "string \<Rightarrow> ('d, expdesc) parse" where
  "singlevarM n ps =
     (case singlevaraux (ps_fs ps) n True of
        Inl (UpLimit msg) \<Rightarrow> lexM (luaX_lexerror msg 0) ps
      | Inl (UpGen e) \<Rightarrow> Some (Inl (GenStop e))
      | Inl UpBad \<Rightarrow> Some (Inl BadAccess)
      | Inr (var, fps) \<Rightarrow> Some (Inr (var, ps\<lparr>ps_fs := fps\<rparr>)))"

definition singlevar :: "'d penv \<Rightarrow> ('d, expdesc) parse" where
  "singlevar E =
     bindM (str_checkname E) (\<lambda>n. bindM (singlevarM n) (\<lambda>var.
       if e_k var = VGLOBAL then bindM (genM (luaK_stringK n)) (\<lambda>i. retM (var\<lparr>e_info := i\<rparr>))
       else retM var))"

end
