(* ===== verification/Parser_Scope.thy ===== *)
theory Parser_Scope
  imports Parser
begin

text \<open>
  Lexical scoping: the variable that \<^verbatim>\<open>singlevaraux\<close> (\<^verbatim>\<open>lparser.c\<close>) finds for a name is the one
  declared last in the innermost function that declares it.
\<close>

subsection \<open>Specification\<close>

text \<open>The names of the active local variables of a function, in the order of their declarations.\<close>

definition local_name :: "FuncParse \<Rightarrow> nat \<Rightarrow> TString" where
  "local_name fp i =
     (case Option.bind (at (fp_actvar fp) (int i)) (at (fp_locvars fp)) of Some v \<Rightarrow> varname v | None \<Rightarrow> None)"

definition active_names :: "FuncParse \<Rightarrow> TString list" where
  "active_names fp = map (local_name fp) [0..<nat (fs_nactvar (fp_fs fp))]"

fun last_index :: "TString \<Rightarrow> TString list \<Rightarrow> int option" where
  "last_index n [] = None"
| "last_index n (x # xs) = (case last_index n xs of Some i \<Rightarrow> Some (i + 1) | None \<Rightarrow> if x = n then Some 0 else None)"

text \<open>The declaration of a name: how many functions out it is, and its index there.\<close>

fun declared :: "FuncParse list \<Rightarrow> string \<Rightarrow> nat \<Rightarrow> (nat \<times> int) option" where
  "declared [] n d = None"
| "declared (fp # fps) n d =
     (case last_index (Some n) (active_names fp) of Some v \<Rightarrow> Some (d, v) | None \<Rightarrow> declared fps n (d + 1))"

text \<open>What an expression for a variable denotes, along the descriptions of the upvalues.\<close>

fun denotes :: "FuncParse list \<Rightarrow> expkind \<Rightarrow> int \<Rightarrow> nat \<Rightarrow> (nat \<times> int) option" where
  "denotes [] k i d = None"
| "denotes (fp # fps) k i d =
     (if k = VLOCAL then Some (d, i)
      else if k = VUPVAL then
        (case at (fp_updesc fp) i of Some (k', i') \<Rightarrow> denotes fps k' i' (d + 1) | None \<Rightarrow> None)
      else None)"

definition vars_ok :: "FuncParse \<Rightarrow> bool" where
  "vars_ok fp \<longleftrightarrow> length (fp_updesc fp) = length (fp_upvalues fp) \<and> int (length (fp_upvalues fp)) \<le> LUAI_MAXUPVALUES \<and>
     fs_nactvar (fp_fs fp) < 256"

subsection \<open>Proof\<close>

lemma last_index_snoc: "last_index n (xs @ [x]) = (if x = n then Some (int (length xs)) else last_index n xs)"
  by (induction xs) (auto split: option.splits)

lemma last_index_less: "last_index n xs = Some i \<Longrightarrow> 0 \<le> i \<and> i < int (length xs)"
  by (induction xs arbitrary: i) (fastforce split: option.splits if_splits)+

lemma searchvar_loop_last:
  "searchvar_loop fp n k = Some v \<Longrightarrow>
   last_index (Some n) (map (local_name fp) [0..<k]) = (if v \<ge> 0 then Some v else None)"
  by (induction fp n k rule: searchvar_loop.induct)
    (auto simp: last_index_snoc local_name_def split: option.split_asm if_split_asm)

lemma searchvar_last:
  "searchvar fp n = Some v \<Longrightarrow> last_index (Some n) (active_names fp) = (if v \<ge> 0 then Some v else None)"
  unfolding searchvar_def active_names_def by (rule searchvar_loop_last)

lemma searchvar_less: "searchvar fp n = Some v \<Longrightarrow> vars_ok fp \<Longrightarrow> v < 256"
  using searchvar_last [of fp n v] last_index_less [of "Some n" "active_names fp" v]
  by (auto simp: active_names_def vars_ok_def split: if_splits)

lemma find_updesc_at:
  "find_updesc us i k info = Some j \<Longrightarrow> i \<le> j \<and> j < i + int (length us) \<and> us ! nat (j - i) = (k, info)"
proof (induction us i k info rule: find_updesc.induct)
  case (2 k' info' us i k info)
  show ?case
  proof (cases "k' = k \<and> info' = info")
    case False
    with 2 have h: "i + 1 \<le> j" "j < i + 1 + int (length us)" "us ! nat (j - (i + 1)) = (k, info)" by auto
    then have "nat (j - i) = Suc (nat (j - (i + 1)))" by simp
    with h show ?thesis by simp
  qed (use 2 in auto)
qed simp

lemma indexupvalue_at:
  assumes "indexupvalue fp n v = Inr (i, fp')" "vars_ok fp" "0 \<le> e_info v" "e_info v < 256"
  shows "0 \<le> i \<and> i < 256 \<and> at (fp_updesc fp') i = Some (e_k v, e_info v)"
proof (cases "find_updesc (fp_updesc fp) 0 (e_k v) (e_info v)")
  case None
  with assms show ?thesis
    by (auto simp: indexupvalue_def Let_def at_def vars_ok_def LUAI_MAXUPVALUES_def nth_append split: if_splits sum.splits)
next
  case (Some j)
  from find_updesc_at [OF this] assms Some show ?thesis
    by (auto simp: indexupvalue_def at_def vars_ok_def LUAI_MAXUPVALUES_def)
qed

lemma scoping:
  assumes "singlevaraux fps n base = Inr (var, fps')" "\<forall>fp\<in>set fps. vars_ok fp"
  shows "denotes fps' (e_k var) (e_info var) d = declared fps n d \<and> (e_k var = VGLOBAL \<longleftrightarrow> declared fps n d = None) \<and>
    (e_k var \<noteq> VGLOBAL \<longrightarrow> 0 \<le> e_info var \<and> e_info var < 256 \<and> e_k var \<in> {VLOCAL, VUPVAL})"
  using assms
proof (induction fps n base arbitrary: var fps' d rule: singlevaraux.induct)
  case (1 n base)
  then show ?case by (auto simp: init_exp_def)
next
  case (2 fp fps n base)
  obtain v where v: "searchvar fp n = Some v" using 2(2) by (auto split: option.splits)
  have ok: "vars_ok fp" "\<forall>fp\<in>set fps. vars_ok fp" using 2(3) by simp_all
  show ?case
  proof (cases "v \<ge> 0")
    case True
    with 2(2) v searchvar_less [OF v ok(1)] searchvar_last [OF v] show ?thesis by (auto simp: init_exp_def)
  next
    case False
    obtain var1 fps1 where r: "singlevaraux fps n False = Inr (var1, fps1)"
      using 2(2) v False by (auto split: sum.splits)
    note ih = 2(1) [OF v False r ok(2), of "d + 1"]
    show ?thesis
    proof (cases "e_k var1 = VGLOBAL")
      case True
      with 2(2) v False r ih searchvar_last [OF v] show ?thesis by (auto split: if_splits)
    next
      case g: False
      with ih have i1: "0 \<le> e_info var1" "e_info var1 < 256" "e_k var1 \<in> {VLOCAL, VUPVAL}" by simp_all
      obtain i fp' where x: "indexupvalue fp n var1 = Inr (i, fp')" "var = var1\<lparr>e_info := i, e_k := VUPVAL\<rparr>" "fps' = fp' # fps1"
        using 2(2) v False r g by (auto split: sum.splits)
      from indexupvalue_at [OF x(1) ok(1) i1(1,2)] x(2,3) ih searchvar_last [OF v] False g show ?thesis by auto
    qed
  qed
qed

text \<open>
  C11: lexical scoping: the expression that \<^verbatim>\<open>singlevaraux\<close> gives for a name denotes, through the
  chain of upvalue descriptions it has recorded, the local variable of that name that was
  declared last in the innermost function with such a variable; the name is global exactly
  when no enclosing function declares it.\<close>

theorem singlevar_scoping:
  assumes "singlevaraux fps n True = Inr (var, fps')" "\<forall>fp\<in>set fps. vars_ok fp"
  shows "denotes fps' (e_k var) (e_info var) 0 = declared fps n 0 \<and> (e_k var = VGLOBAL \<longleftrightarrow> declared fps n 0 = None)"
  using scoping [OF assms] by blast

definition scope_func :: "string list \<Rightarrow> FuncParse" where
  "scope_func names =
     \<lparr>fp_fs = \<lparr>fs_code = [], fs_lineinfo = [], fs_sizecode = 0, fs_sizelineinfo = 0, fs_kv = [], fs_sizek = 0,
        fs_h = [], fs_pc = 0, fs_lasttarget = - 1, fs_jpc = NO_JUMP, fs_freereg = int (length names),
        fs_nactvar = int (length names), fs_maxstack = 2, fs_lastline = 0\<rparr>,
      fp_p = [], fp_sizep = 0, fp_locvars = map (\<lambda>s. \<lparr>varname = Some s, startpc = 0, endpc = 0\<rparr>) names,
      fp_sizelocvars = int (length names), fp_actvar = map int [0..<length names], fp_upvalues = [], fp_sizeupvalues = 0,
      fp_updesc = [], fp_bl = [], fp_source = [], fp_linedefined = 0, fp_lastlinedefined = 0, fp_numparams = 0,
      fp_is_vararg = 0, fp_outer_strings = []\<rparr>"

theorem singlevar_scoping_witness:
  "\<exists>var fps'. singlevaraux [scope_func [''z''], scope_func [], scope_func [''x'', ''x'', ''y'']] ''x'' True = Inr (var, fps') \<and>
     denotes fps' (e_k var) (e_info var) 0 = Some (2, 1)"
proof -
  let ?f = "[scope_func [''z''], scope_func [], scope_func [''x'', ''x'', ''y'']]"
  have "isl (singlevaraux ?f ''x'' True) = False" by code_simp
  then obtain var fps' where r: "singlevaraux ?f ''x'' True = Inr (var, fps')"
    by (cases "singlevaraux ?f ''x'' True") auto
  have "\<forall>fp\<in>set ?f. vars_ok fp" by code_simp
  moreover have "declared ?f ''x'' 0 = Some (2, 1)" by code_simp
  ultimately show ?thesis using singlevar_scoping [OF r] r by auto
qed

end
