(* ===== verification/Grammar.thy ===== *)
theory Grammar
  imports Parser
begin

text \<open>
  The grammar of the parser (\<^verbatim>\<open>lparser.c\<close>).  Its functions call each other, and their loops
  call them.  The recursive calls and the loops whose bodies contain them are the fields of
  \<open>'d grammar\<close>; every function takes the grammar \<open>g\<close> it calls for them, and the last
  definitions tie the knot: \<open>grammar E n\<close> is the parser that may nest such calls \<open>n\<close> deep, beyond
  which it fails with \<open>NoFuel\<close>.

  A function that fills an \<^verbatim>\<open>expdesc\<close> through a pointer returns it, next to its own result.
\<close>

record ConsControl =
  cc_v :: expdesc
  cc_t :: expdesc
  cc_nh :: int
  cc_na :: int
  cc_tostore :: int

record 'd grammar =
  g_chunk :: "('d, unit) parse"
  g_statements :: "('d, unit) parse"
  g_subexpr :: "int \<Rightarrow> ('d, expdesc \<times> BinOpr) parse"
  g_operators :: "int \<Rightarrow> expdesc \<Rightarrow> BinOpr \<Rightarrow> ('d, expdesc \<times> BinOpr) parse"
  g_explist :: "int \<Rightarrow> expdesc \<Rightarrow> ('d, int \<times> expdesc) parse"
  g_suffixes :: "expdesc \<Rightarrow> ('d, expdesc) parse"
  g_fields :: "ConsControl \<Rightarrow> ('d, ConsControl) parse"
  g_assignment :: "expdesc list \<Rightarrow> int \<Rightarrow> ('d, expdesc list) parse"
  g_elseif :: "int \<Rightarrow> int \<Rightarrow> ('d, int \<times> int) parse"

definition TK_AND :: int where "TK_AND = 257"
definition TK_BREAK :: int where "TK_BREAK = 258"
definition TK_DO :: int where "TK_DO = 259"
definition TK_ELSE :: int where "TK_ELSE = 260"
definition TK_ELSEIF :: int where "TK_ELSEIF = 261"
definition TK_END :: int where "TK_END = 262"
definition TK_FALSE :: int where "TK_FALSE = 263"
definition TK_FOR :: int where "TK_FOR = 264"
definition TK_FUNCTION :: int where "TK_FUNCTION = 265"
definition TK_IF :: int where "TK_IF = 266"
definition TK_IN :: int where "TK_IN = 267"
definition TK_LOCAL :: int where "TK_LOCAL = 268"
definition TK_NIL :: int where "TK_NIL = 269"
definition TK_NOT :: int where "TK_NOT = 270"
definition TK_OR :: int where "TK_OR = 271"
definition TK_REPEAT :: int where "TK_REPEAT = 272"
definition TK_RETURN :: int where "TK_RETURN = 273"
definition TK_THEN :: int where "TK_THEN = 274"
definition TK_TRUE :: int where "TK_TRUE = 275"
definition TK_UNTIL :: int where "TK_UNTIL = 276"
definition TK_WHILE :: int where "TK_WHILE = 277"

text \<open>Single-character tokens are their codes.\<close>

abbreviation tok :: "char \<Rightarrow> int" where "tok c \<equiv> int (of_char c)"

subsection \<open>Levels, blocks and functions\<close>

definition enterlevel :: "('d, unit) parse" where
  "enterlevel =
     thenM (modM (\<lambda>ps. ps\<lparr>ps_nCcalls := ps_nCcalls ps + 1\<rparr>))
       (bindM (getM ps_nCcalls) (\<lambda>n.
         if n > int LUAI_MAXCCALLS then lexM (luaX_lexerror ''chunk has too many syntax levels'' 0) else retM ()))"

definition leavelevel :: "('d, unit) parse" where
  "leavelevel = modM (\<lambda>ps. ps\<lparr>ps_nCcalls := ps_nCcalls ps - 1\<rparr>)"

definition enterblock :: "bool \<Rightarrow> ('d, unit) parse" where
  "enterblock isbreakable =
     setcurM (\<lambda>fp. fp\<lparr>fp_bl := \<lparr>bl_breaklist = NO_JUMP, bl_nactvar = fs_nactvar (fp_fs fp), bl_upval = False,
                             bl_isbreakable = isbreakable\<rparr> # fp_bl fp\<rparr>)"

definition set_freereg :: "int \<Rightarrow> ('d, unit) parse" where
  "set_freereg r = genM (modM (\<lambda>fs. fs\<lparr>fs_freereg := r\<rparr>))"

definition freeregM :: "('d, int) parse" where
  "freeregM = curM (\<lambda>fp. fs_freereg (fp_fs fp))"

definition leaveblock :: "('d, unit) parse" where
  "leaveblock =
     bindM (curM fp_bl) (\<lambda>bls.
       case bls of
         [] \<Rightarrow> failM BadAccess
       | bl # bls \<Rightarrow>
           seqM [setcurM (\<lambda>fp. fp\<lparr>fp_bl := bls\<rparr>),
             removevars (bl_nactvar bl),
             whenM (bl_upval bl) (bindM (genM (luaK_codeABC OP_CLOSE (bl_nactvar bl) 0 0)) (\<lambda>_. retM ())),
             bindM nactvarM set_freereg,
             genM (luaK_patchtohere (bl_breaklist bl))])"

definition empty_FuncState :: FuncState where
  "empty_FuncState = \<lparr>fs_code = [], fs_lineinfo = [], fs_sizecode = 0, fs_sizelineinfo = 0, fs_kv = [], fs_sizek = 0,
     fs_h = [], fs_pc = 0, fs_lasttarget = - 1, fs_jpc = NO_JUMP, fs_freereg = 0, fs_nactvar = 0,
     fs_maxstack = 2, fs_lastline = 0\<rparr>"

definition open_func :: "string \<Rightarrow> ('d, unit) parse" where
  "open_func source =
     modM (\<lambda>ps. ps\<lparr>ps_fs := \<lparr>fp_fs = empty_FuncState, fp_p = [], fp_sizep = 0, fp_locvars = [], fp_sizelocvars = 0,
         fp_actvar = replicate (nat LUAI_MAXVARS) 0, fp_upvalues = [], fp_sizeupvalues = 0, fp_updesc = [], fp_bl = [],
         fp_source = source, fp_linedefined = 0, fp_lastlinedefined = 0, fp_numparams = 0, fp_is_vararg = 0,
         fp_outer_strings = ls_h (ps_ls ps)\<rparr> # ps_fs ps,
       ps_ls := (ps_ls ps)\<lparr>ls_h := []\<rparr>\<rparr>)"

text \<open>The prototype of a finished function: the arrays are cut to the size that is in use.\<close>

definition proto_of :: "FuncParse \<Rightarrow> Proto" where
  "proto_of fp =
     (let fs = fp_fs fp in
      Proto (fs_kv fs) (take (nat (fs_pc fs)) (fs_code fs)) (fp_p fp) (take (nat (fs_pc fs)) (fs_lineinfo fs))
        (fp_locvars fp) (map Some (fp_upvalues fp)) (Some (fp_source fp)) (fp_linedefined fp) (fp_lastlinedefined fp)
        (of_nat (length (fp_upvalues fp))) (word_of_int (fp_numparams fp)) (fp_is_vararg fp)
        (word_of_int (fs_maxstack fs)))"

definition close_func :: "('d, FuncParse) parse" where
  "close_func =
     thenM (removevars 0)
     (thenM (genM (luaK_ret 0 0))
     (bindM (curM (\<lambda>fp. fp)) (\<lambda>fp.
      thenM (modM (\<lambda>ps. ps\<lparr>ps_fs := tl (ps_fs ps), ps_ls := (ps_ls ps)\<lparr>ls_h := fp_outer_strings fp\<rparr>\<rparr>))
      (thenM anchor_token (retM fp)))))"

text \<open>The instructions after \<^verbatim>\<open>OP_CLOSURE\<close> that say where the upvalues come from.\<close>

fun close_upvalues :: "(expkind \<times> int) list \<Rightarrow> ('d, unit) parse" where
  "close_upvalues [] = retM ()"
| "close_upvalues ((k, info) # us) =
     bindM (genM (luaK_codeABC (if k = VLOCAL then OP_MOVE else OP_GETUPVAL) 0 info 0)) (\<lambda>_. close_upvalues us)"

definition pushclosure :: "FuncParse \<Rightarrow> ('d, expdesc) parse" where
  "pushclosure func =
     bindM (curM (\<lambda>fp. (int (length (fp_p fp)), fp_sizep fp))) (\<lambda>(np, sz).
     bindM (growM np sz MAXARG_Bx ''constant table overflow'') (\<lambda>sz.
     thenM (setcurM (\<lambda>fp. fp\<lparr>fp_sizep := sz, fp_p := fp_p fp @ [proto_of func]\<rparr>))
     (bindM (genM (luaK_codeABx OP_CLOSURE 0 np)) (\<lambda>pc.
      thenM (close_upvalues (fp_updesc func)) (retM (init_exp VRELOCABLE pc))))))"

definition adjust_assign :: "int \<Rightarrow> int \<Rightarrow> expdesc \<Rightarrow> ('d, unit) parse" where
  "adjust_assign nvars nexps e =
     (let extra = nvars - nexps in
      if hasmultret (e_k e) then
        let extra = (if extra + 1 < 0 then 0 else extra + 1) in
        thenM (genM (luaK_setreturns e extra)) (whenM (extra > 1) (genM (luaK_reserveregs (extra - 1))))
      else
        thenM (if e_k e \<noteq> VVOID then bindM (genM (luaK_exp2nextreg e)) (\<lambda>_. retM ()) else retM ())
          (whenM (extra > 0)
            (bindM freeregM (\<lambda>reg. thenM (genM (luaK_reserveregs extra)) (genM (luaK_nil reg extra))))))"

subsection \<open>Expressions\<close>

definition expr :: "'d grammar \<Rightarrow> ('d, expdesc) parse" where
  "expr g = bindM (g_subexpr g 0) (\<lambda>(v, op). retM v)"

definition field :: "'d penv \<Rightarrow> expdesc \<Rightarrow> ('d, expdesc) parse" where
  "field E v =
     bindM (genM (luaK_exp2anyreg v)) (\<lambda>v.
     thenM (nextM E)
     (bindM (checkname E) (\<lambda>key. bindM (genM (luaK_indexed v key)) (\<lambda>(v, key). retM v))))"

definition yindex :: "'d penv \<Rightarrow> 'd grammar \<Rightarrow> ('d, expdesc) parse" where
  "yindex E g =
     thenM (nextM E)
     (bindM (expr g) (\<lambda>v. bindM (genM (luaK_exp2val v)) (\<lambda>v. thenM (checknext E (tok (CHR '']''))) (retM v))))"

definition recfield :: "'d penv \<Rightarrow> 'd grammar \<Rightarrow> ConsControl \<Rightarrow> ('d, ConsControl) parse" where
  "recfield E g cc =
     bindM freeregM (\<lambda>reg.
     bindM (bindM tokenM (\<lambda>t.
              if t = TK_NAME then thenM (luaY_checklimit (cc_nh cc) K_MAX_INT ''items in a constructor'') (checkname E)
              else yindex E g)) (\<lambda>key.
     thenM (checknext E (tok (CHR ''='')))
     (bindM (genM (luaK_exp2RK key)) (\<lambda>(rkkey, key).
      bindM (expr g) (\<lambda>val.
      bindM (genM (luaK_exp2RK val)) (\<lambda>(rkval, val).
      bindM (genM (luaK_codeABC OP_SETTABLE (e_info (cc_t cc)) rkkey rkval)) (\<lambda>_.
      thenM (set_freereg reg) (retM (cc\<lparr>cc_nh := cc_nh cc + 1\<rparr>)))))))))"

definition closelistfield :: "ConsControl \<Rightarrow> ('d, ConsControl) parse" where
  "closelistfield cc =
     (if e_k (cc_v cc) = VVOID then retM cc
      else
        bindM (genM (luaK_exp2nextreg (cc_v cc))) (\<lambda>v.
          let cc = cc\<lparr>cc_v := v\<lparr>e_k := VVOID\<rparr>\<rparr> in
          if cc_tostore cc = LFIELDS_PER_FLUSH then
            thenM (genM (luaK_setlist (e_info (cc_t cc)) (cc_na cc) (cc_tostore cc))) (retM (cc\<lparr>cc_tostore := 0\<rparr>))
          else retM cc))"

definition lastlistfield :: "ConsControl \<Rightarrow> ('d, ConsControl) parse" where
  "lastlistfield cc =
     (if cc_tostore cc = 0 then retM cc
      else if hasmultret (e_k (cc_v cc)) then
        thenM (genM (luaK_setreturns (cc_v cc) LUA_MULTRET))
          (thenM (genM (luaK_setlist (e_info (cc_t cc)) (cc_na cc) LUA_MULTRET)) (retM (cc\<lparr>cc_na := cc_na cc - 1\<rparr>)))
      else
        bindM (if e_k (cc_v cc) \<noteq> VVOID then genM (luaK_exp2nextreg (cc_v cc)) else retM (cc_v cc)) (\<lambda>v.
        thenM (genM (luaK_setlist (e_info (cc_t cc)) (cc_na cc) (cc_tostore cc))) (retM (cc\<lparr>cc_v := v\<rparr>))))"

definition listfield :: "'d grammar \<Rightarrow> ConsControl \<Rightarrow> ('d, ConsControl) parse" where
  "listfield g cc =
     bindM (expr g) (\<lambda>v.
     thenM (luaY_checklimit (cc_na cc) K_MAX_INT ''items in a constructor'')
       (retM (cc\<lparr>cc_v := v, cc_na := cc_na cc + 1, cc_tostore := cc_tostore cc + 1\<rparr>)))"

text \<open>The loop over the items of a constructor.\<close>

definition fields :: "'d penv \<Rightarrow> 'd grammar \<Rightarrow> ConsControl \<Rightarrow> ('d, ConsControl) parse" where
  "fields E g cc =
     bindM tokenM (\<lambda>t.
       if t = tok (CHR ''}'') then retM cc
       else
         bindM (closelistfield cc) (\<lambda>cc.
         bindM (if t = TK_NAME then
                  thenM (lexM (luaX_lookahead (pe_lex E) (pe_rd E)))
                    (bindM (getM (\<lambda>ps. token (ls_lookahead (ps_ls ps)))) (\<lambda>la.
                      if la \<noteq> tok (CHR ''='') then listfield g cc else recfield E g cc))
                else if t = tok (CHR ''['') then recfield E g cc
                else listfield g cc) (\<lambda>cc.
         bindM (testnext E (tok (CHR '',''))) (\<lambda>b.
           if b then g_fields g cc
           else bindM (testnext E (tok (CHR '';''))) (\<lambda>b. if b then g_fields g cc else retM cc)))))"

definition constructor :: "'d penv \<Rightarrow> 'd grammar \<Rightarrow> ('d, expdesc) parse" where
  "constructor E g =
     bindM lineM (\<lambda>line.
     bindM (genM (luaK_codeABC OP_NEWTABLE 0 0 0)) (\<lambda>pc.
     bindM (genM (luaK_exp2nextreg (init_exp VRELOCABLE pc))) (\<lambda>t.
     thenM (checknext E (tok (CHR ''{'')))
     (bindM (g_fields g \<lparr>cc_v = init_exp VVOID 0, cc_t = t, cc_nh = 0, cc_na = 0, cc_tostore = 0\<rparr>) (\<lambda>cc.
      thenM (check_match E (tok (CHR ''}'')) (tok (CHR ''{'')) line)
      (bindM (lastlistfield cc) (\<lambda>cc.
       thenM (genM (writecode pc (\<lambda>i. SETARG_B i (luaO_int2fb (word_of_int (cc_na cc))))))
       (thenM (genM (writecode pc (\<lambda>i. SETARG_C i (luaO_int2fb (word_of_int (cc_nh cc))))))
         (retM t)))))))))"


subsection \<open>Functions and calls\<close>

text \<open>\<^verbatim>\<open>LUA_COMPAT_VARARG\<close> is defined: a vararg function has a local \<^verbatim>\<open>arg\<close>.\<close>

definition param :: "'d penv \<Rightarrow> int \<Rightarrow> ('d, unit) parse" where
  "param E nparams =
     bindM tokenM (\<lambda>t.
       if t = TK_NAME then bindM (str_checkname E) (\<lambda>name. new_localvar name nparams)
       else if t = TK_DOTS then
         seqM [nextM E, new_localvarliteral ''arg'' nparams,
           setcurM (\<lambda>fp. fp\<lparr>fp_is_vararg := VARARG_HASARG OR VARARG_NEEDSARG\<rparr>),
           setcurM (\<lambda>fp. fp\<lparr>fp_is_vararg := fp_is_vararg fp OR VARARG_ISVARARG\<rparr>)]
       else syntaxerrorM (''<name> or '' @ quoted_text ''...'' @ '' expected''))"

partial_function (option) params :: "'d penv \<Rightarrow> int \<Rightarrow> ('d, int) parse" where
  [code]: "params E nparams s =
     thenM (param E nparams)
       (bindM (bindM (curM fp_is_vararg) (\<lambda>v. if v = 0 then testnext E (tok (CHR '','')) else retM False)) (\<lambda>more.
        if more then params E (nparams + 1) else retM (nparams + 1))) s"

definition parlist :: "'d penv \<Rightarrow> ('d, unit) parse" where
  "parlist E =
     thenM (setcurM (\<lambda>fp. fp\<lparr>fp_is_vararg := 0\<rparr>))
     (bindM tokenM (\<lambda>t.
      bindM (if t \<noteq> tok (CHR '')'') then params E 0 else retM 0) (\<lambda>nparams.
      seqM [adjustlocalvars nparams,
        setcurM (\<lambda>fp. fp\<lparr>fp_numparams := (fs_nactvar (fp_fs fp) - uint (fp_is_vararg fp AND VARARG_HASARG)) mod 256\<rparr>),
        bindM nactvarM (\<lambda>n. genM (luaK_reserveregs n))])))"

definition body :: "'d penv \<Rightarrow> 'd grammar \<Rightarrow> bool \<Rightarrow> int \<Rightarrow> ('d, expdesc) parse" where
  "body E g needself line =
     bindM (curM fp_source) (\<lambda>source.
     thenM (seqM [open_func source,
       setcurM (\<lambda>fp. fp\<lparr>fp_linedefined := line\<rparr>),
       checknext E (tok (CHR ''('')),
       whenM needself (thenM (new_localvarliteral ''self'' 0) (adjustlocalvars 1)),
       parlist E,
       checknext E (tok (CHR '')'')),
       g_chunk g,
       bindM lineM (\<lambda>l. setcurM (\<lambda>fp. fp\<lparr>fp_lastlinedefined := l\<rparr>)),
       check_match E TK_END TK_FUNCTION line])
     (bindM close_func pushclosure))"

text \<open>The loop of \<^verbatim>\<open>explist1\<close>.\<close>

definition explist :: "'d penv \<Rightarrow> 'd grammar \<Rightarrow> int \<Rightarrow> expdesc \<Rightarrow> ('d, int \<times> expdesc) parse" where
  "explist E g n v =
     bindM (testnext E (tok (CHR '',''))) (\<lambda>b.
       if b then bindM (genM (luaK_exp2nextreg v)) (\<lambda>_. bindM (expr g) (g_explist g (n + 1)))
       else retM (n, v))"

definition explist1 :: "'d grammar \<Rightarrow> ('d, int \<times> expdesc) parse" where
  "explist1 g = bindM (expr g) (g_explist g 1)"

definition paren_args :: "'d penv \<Rightarrow> 'd grammar \<Rightarrow> int \<Rightarrow> ('d, expdesc) parse" where
  "paren_args E g line =
     bindM (getM (\<lambda>ps. ls_lastline (ps_ls ps))) (\<lambda>lastline.
     thenM (if line \<noteq> lastline then syntaxerrorM ''ambiguous syntax (function call x new statement)'' else retM ())
     (thenM (nextM E)
     (bindM tokenM (\<lambda>t.
      bindM (if t = tok (CHR '')'') then retM (init_exp VVOID 0)
             else bindM (explist1 g) (\<lambda>(n, args).
                    thenM (genM (luaK_setreturns args LUA_MULTRET)) (retM args))) (\<lambda>args.
      thenM (check_match E (tok (CHR '')'')) (tok (CHR ''('')) line) (retM args))))))"

definition funcargs :: "'d penv \<Rightarrow> 'd grammar \<Rightarrow> expdesc \<Rightarrow> ('d, expdesc) parse" where
  "funcargs E g f =
     bindM lineM (\<lambda>line.
     bindM tokenM (\<lambda>t.
     bindM (if t = tok (CHR ''('') then paren_args E g line
            else if t = tok (CHR ''{'') then constructor E g
            else if t = TK_STRING then
              bindM token_string (\<lambda>s. bindM (codestring s) (\<lambda>args. thenM (nextM E) (retM args)))
            else syntaxerrorM ''function arguments expected'') (\<lambda>args.
     let base = e_info f in
     bindM (if hasmultret (e_k args) then retM LUA_MULTRET
            else thenM (if e_k args \<noteq> VVOID then bindM (genM (luaK_exp2nextreg args)) (\<lambda>_. retM ()) else retM ())
                   (bindM freeregM (\<lambda>r. retM (r - (base + 1))))) (\<lambda>nparams.
     bindM (genM (luaK_codeABC OP_CALL base (nparams + 1) 2)) (\<lambda>pc.
     thenM (genM (luaK_fixline line))
       (thenM (set_freereg (base + 1)) (retM (init_exp VCALL pc))))))))"

subsection \<open>Expressions with operators\<close>

definition prefixexp :: "'d penv \<Rightarrow> 'd grammar \<Rightarrow> ('d, expdesc) parse" where
  "prefixexp E g =
     bindM tokenM (\<lambda>t.
       if t = tok (CHR ''('') then
         bindM lineM (\<lambda>line.
         thenM (nextM E)
         (bindM (expr g) (\<lambda>v.
          thenM (check_match E (tok (CHR '')'')) (tok (CHR ''('')) line) (genM (luaK_dischargevars v)))))
       else if t = TK_NAME then singlevar E
       else syntaxerrorM ''unexpected symbol'')"

text \<open>The loop of \<^verbatim>\<open>primaryexp\<close>.\<close>

definition suffixes :: "'d penv \<Rightarrow> 'd grammar \<Rightarrow> expdesc \<Rightarrow> ('d, expdesc) parse" where
  "suffixes E g v =
     bindM tokenM (\<lambda>t.
       if t = tok (CHR ''.'') then bindM (field E v) (g_suffixes g)
       else if t = tok (CHR ''['') then
         bindM (genM (luaK_exp2anyreg v)) (\<lambda>v.
         bindM (yindex E g) (\<lambda>key.
         bindM (genM (luaK_indexed v key)) (\<lambda>(v, key). g_suffixes g v)))
       else if t = tok (CHR '':'') then
         thenM (nextM E)
         (bindM (checkname E) (\<lambda>key.
          bindM (genM (luaK_self v key)) (\<lambda>(v, key). bindM (funcargs E g v) (g_suffixes g))))
       else if t = tok (CHR ''('') \<or> t = TK_STRING \<or> t = tok (CHR ''{'') then
         bindM (genM (luaK_exp2nextreg v)) (\<lambda>v. bindM (funcargs E g v) (g_suffixes g))
       else retM v)"

definition primaryexp :: "'d penv \<Rightarrow> 'd grammar \<Rightarrow> ('d, expdesc) parse" where
  "primaryexp E g = bindM (prefixexp E g) (g_suffixes g)"

definition simpleexp :: "'d penv \<Rightarrow> 'd grammar \<Rightarrow> ('d, expdesc) parse" where
  "simpleexp E g =
     bindM tokenM (\<lambda>t.
       if t = TK_NUMBER then
         bindM (getM (\<lambda>ps. seminfo (ls_t (ps_ls ps)))) (\<lambda>s.
           case s of SemR r \<Rightarrow> thenM (nextM E) (retM ((init_exp VKNUM 0)\<lparr>e_nval := r\<rparr>)) | _ \<Rightarrow> failM BadAccess)
       else if t = TK_STRING then
         bindM token_string (\<lambda>s. bindM (codestring s) (\<lambda>v. thenM (nextM E) (retM v)))
       else if t = TK_NIL then thenM (nextM E) (retM (init_exp VNIL 0))
       else if t = TK_TRUE then thenM (nextM E) (retM (init_exp VTRUE 0))
       else if t = TK_FALSE then thenM (nextM E) (retM (init_exp VFALSE 0))
       else if t = TK_DOTS then
         bindM (curM fp_is_vararg) (\<lambda>va.
         thenM (if va = 0 then syntaxerrorM (''cannot use '' @ quoted_text ''...'' @ '' outside a vararg function'')
                else retM ())
         (thenM (setcurM (\<lambda>fp. fp\<lparr>fp_is_vararg := fp_is_vararg fp AND NOT VARARG_NEEDSARG\<rparr>))
         (bindM (genM (luaK_codeABC OP_VARARG 0 1 0)) (\<lambda>pc.
          thenM (nextM E) (retM (init_exp VVARARG pc))))))
       else if t = tok (CHR ''{'') then constructor E g
       else if t = TK_FUNCTION then thenM (nextM E) (bindM lineM (body E g False))
       else primaryexp E g)"

definition getunopr :: "int \<Rightarrow> UnOpr" where
  "getunopr op =
     (if op = TK_NOT then OPR_NOT else if op = tok (CHR ''-'') then OPR_MINUS
      else if op = tok (CHR ''#'') then OPR_LEN else OPR_NOUNOPR)"

definition getbinopr :: "int \<Rightarrow> BinOpr" where
  "getbinopr op =
     (if op = tok (CHR ''+'') then OPR_ADD else if op = tok (CHR ''-'') then OPR_SUB
      else if op = tok (CHR ''*'') then OPR_MUL else if op = tok (CHR ''/'') then OPR_DIV
      else if op = tok (CHR ''%'') then OPR_MOD else if op = tok (CHR ''^'') then OPR_POW
      else if op = TK_CONCAT then OPR_CONCAT else if op = TK_NE then OPR_NE
      else if op = TK_EQ then OPR_EQ else if op = tok (CHR ''<'') then OPR_LT
      else if op = TK_LE then OPR_LE else if op = tok (CHR ''>'') then OPR_GT
      else if op = TK_GE then OPR_GE else if op = TK_AND then OPR_AND
      else if op = TK_OR then OPR_OR else OPR_NOBINOPR)"

text \<open>The left and the right priority.\<close>

fun priority :: "BinOpr \<Rightarrow> int \<times> int" where
  "priority OPR_ADD = (6, 6)"
| "priority OPR_SUB = (6, 6)"
| "priority OPR_MUL = (7, 7)"
| "priority OPR_DIV = (7, 7)"
| "priority OPR_MOD = (7, 7)"
| "priority OPR_POW = (10, 9)"
| "priority OPR_CONCAT = (5, 4)"
| "priority OPR_NE = (3, 3)"
| "priority OPR_EQ = (3, 3)"
| "priority OPR_LT = (3, 3)"
| "priority OPR_LE = (3, 3)"
| "priority OPR_GT = (3, 3)"
| "priority OPR_GE = (3, 3)"
| "priority OPR_AND = (2, 2)"
| "priority OPR_OR = (1, 1)"
| "priority OPR_NOBINOPR = (0, 0)"

definition UNARY_PRIORITY :: int where "UNARY_PRIORITY = 8"

text \<open>The loop of \<^verbatim>\<open>subexpr\<close>.\<close>

definition operators :: "'d penv \<Rightarrow> 'd grammar \<Rightarrow> int \<Rightarrow> expdesc \<Rightarrow> BinOpr \<Rightarrow> ('d, expdesc \<times> BinOpr) parse" where
  "operators E g limit v op =
     (if op \<noteq> OPR_NOBINOPR \<and> fst (priority op) > limit then
        thenM (nextM E)
        (bindM (genM (luaK_infix op v)) (\<lambda>v.
         bindM (g_subexpr g (snd (priority op))) (\<lambda>(v2, nextop).
         bindM (genM (luaK_posfix (pe_fp E) op v v2)) (\<lambda>(v, v2). g_operators g limit v nextop))))
      else retM (v, op))"

definition subexpr :: "'d penv \<Rightarrow> 'd grammar \<Rightarrow> int \<Rightarrow> ('d, expdesc \<times> BinOpr) parse" where
  "subexpr E g limit =
     thenM enterlevel
     (bindM tokenM (\<lambda>t.
      let uop = getunopr t in
      bindM (if uop \<noteq> OPR_NOUNOPR then
               thenM (nextM E) (bindM (g_subexpr g UNARY_PRIORITY) (\<lambda>(v, op). genM (luaK_prefix (pe_fp E) uop v)))
             else simpleexp E g) (\<lambda>v.
      bindM tokenM (\<lambda>t.
      bindM (g_operators g limit v (getbinopr t)) (\<lambda>r. thenM leavelevel (retM r))))))"

end
