(* ===== verification/Statements.thy ===== *)
theory Statements
  imports Grammar
begin

text \<open>
  The statements of the grammar (\<^verbatim>\<open>lparser.c\<close>), and the parser itself.
\<close>

definition block_follow :: "int \<Rightarrow> bool" where
  "block_follow t \<longleftrightarrow> t \<in> {TK_ELSE, TK_ELSEIF, TK_END, TK_UNTIL, TK_EOS}"

definition block :: "'d grammar \<Rightarrow> ('d, unit) parse" where
  "block g = seqM [enterblock False, g_chunk g, leaveblock]"

subsection \<open>Assignments\<close>

text \<open>
  The chain of \<^verbatim>\<open>struct LHS_assign\<close> is the list of its expressions, the last one first.  An
  assignment returns the chain, since \<^verbatim>\<open>check_conflict\<close> changes the earlier ones.\<close>

definition safe_copy :: "int \<Rightarrow> expdesc \<Rightarrow> expdesc \<Rightarrow> expdesc" where
  "safe_copy extra v lh =
     (if e_k lh = VINDEXED then
        lh\<lparr>e_info := (if e_info lh = e_info v then extra else e_info lh),
           e_aux := (if e_aux lh = e_info v then extra else e_aux lh)\<rparr>
      else lh)"

definition conflicts :: "expdesc \<Rightarrow> expdesc \<Rightarrow> bool" where
  "conflicts v lh \<longleftrightarrow> e_k lh = VINDEXED \<and> (e_info lh = e_info v \<or> e_aux lh = e_info v)"

definition check_conflict :: "expdesc list \<Rightarrow> expdesc \<Rightarrow> ('d, expdesc list) parse" where
  "check_conflict lhs v =
     bindM freeregM (\<lambda>extra.
     thenM (whenM (\<exists>lh\<in>set lhs. conflicts v lh)
              (bindM (genM (luaK_codeABC OP_MOVE extra (e_info v) 0)) (\<lambda>_. genM (luaK_reserveregs 1))))
       (retM (map (safe_copy extra v) lhs)))"

text \<open>Storing the default value, which is on the top of the stack.\<close>

definition store_top :: "expdesc \<Rightarrow> ('d, unit) parse" where
  "store_top lh =
     bindM freeregM (\<lambda>r. bindM (genM (luaK_storevar lh (init_exp VNONRELOC (r - 1)))) (\<lambda>_. retM ()))"

definition assignment :: "'d penv \<Rightarrow> 'd grammar \<Rightarrow> expdesc list \<Rightarrow> int \<Rightarrow> ('d, expdesc list) parse" where
  "assignment E g lhs nvars =
     (case lhs of
        [] \<Rightarrow> failM BadAccess
      | lh # prev \<Rightarrow>
          if e_k lh \<notin> {VLOCAL, VUPVAL, VGLOBAL, VINDEXED} then syntaxerrorM ''syntax error''
          else
            bindM (testnext E (tok (CHR '',''))) (\<lambda>b.
              if b then
                bindM (primaryexp E g) (\<lambda>nv.
                bindM (if e_k nv = VLOCAL then check_conflict lhs nv else retM lhs) (\<lambda>lhs.
                bindM (getM ps_nCcalls) (\<lambda>n.
                thenM (luaY_checklimit nvars (int LUAI_MAXCCALLS - n) ''variables in assignment'')
                (bindM (g_assignment g (nv # lhs) (nvars + 1)) (\<lambda>lhs.
                 case tl lhs of
                   [] \<Rightarrow> failM BadAccess
                 | lh # prev \<Rightarrow> thenM (store_top lh) (retM (lh # prev)))))))
              else
                thenM (checknext E (tok (CHR ''='')))
                (bindM (explist1 g) (\<lambda>(nexps, e).
                 if nexps \<noteq> nvars then
                   thenM (seqM [adjust_assign nvars nexps e,
                     whenM (nexps > nvars) (bindM freeregM (\<lambda>r. set_freereg (r - (nexps - nvars)))),
                     store_top lh]) (retM lhs)
                 else
                   bindM (genM (luaK_setoneret e)) (\<lambda>e.
                   bindM (genM (luaK_storevar lh e)) (\<lambda>_. retM lhs))))))"

text \<open>The instruction of an expression, to be changed.\<close>

definition set_code :: "expdesc \<Rightarrow> (Instruction \<Rightarrow> Instruction) \<Rightarrow> ('d, unit) parse" where
  "set_code e f = genM (writecode (e_info e) f)"

definition exprstat :: "'d penv \<Rightarrow> 'd grammar \<Rightarrow> ('d, unit) parse" where
  "exprstat E g =
     bindM (primaryexp E g) (\<lambda>v.
       if e_k v = VCALL then set_code v (\<lambda>i. SETARG_C i 1)
       else bindM (assignment E g [v] 1) (\<lambda>_. retM ()))"

subsection \<open>Control structures\<close>

definition cond :: "'d grammar \<Rightarrow> ('d, int) parse" where
  "cond g =
     bindM (expr g) (\<lambda>v.
     bindM (genM (luaK_goiftrue (if e_k v = VNIL then v\<lparr>e_k := VFALSE\<rparr> else v))) (\<lambda>v. retM (e_f v)))"

text \<open>The innermost breakable block, and whether a block left on the way has upvalues.\<close>

fun break_target :: "BlockCnt list \<Rightarrow> nat \<Rightarrow> bool \<Rightarrow> (nat \<times> bool) option" where
  "break_target [] i upval = None"
| "break_target (bl # bls) i upval =
     (if bl_isbreakable bl then Some (i, upval) else break_target bls (i + 1) (upval \<or> bl_upval bl))"

definition breakstat :: "('d, unit) parse" where
  "breakstat =
     bindM (curM fp_bl) (\<lambda>bls.
       case break_target bls 0 False of
         None \<Rightarrow> syntaxerrorM ''no loop to break''
       | Some (i, upval) \<Rightarrow>
           thenM (whenM upval (bindM (genM (luaK_codeABC OP_CLOSE (bl_nactvar (bls ! i)) 0 0)) (\<lambda>_. retM ())))
           (bindM (genM luaK_jump) (\<lambda>j.
            bindM (genM (luaK_concat (bl_breaklist (bls ! i)) j)) (\<lambda>l.
            setcurM (\<lambda>fp. fp\<lparr>fp_bl := (fp_bl fp)[i := (fp_bl fp ! i)\<lparr>bl_breaklist := l\<rparr>]\<rparr>)))))"

definition whilestat :: "'d penv \<Rightarrow> 'd grammar \<Rightarrow> int \<Rightarrow> ('d, unit) parse" where
  "whilestat E g line =
     thenM (nextM E)
     (bindM (genM luaK_getlabel) (\<lambda>whileinit.
      bindM (cond g) (\<lambda>condexit.
      seqM [enterblock True, checknext E TK_DO, block g,
        bindM (genM luaK_jump) (\<lambda>j. genM (luaK_patchlist j whileinit)),
        check_match E TK_END TK_WHILE line, leaveblock, genM (luaK_patchtohere condexit)])))"

definition repeatstat :: "'d penv \<Rightarrow> 'd grammar \<Rightarrow> int \<Rightarrow> ('d, unit) parse" where
  "repeatstat E g line =
     bindM (genM luaK_getlabel) (\<lambda>repeat_init.
     thenM (seqM [enterblock True, enterblock False, nextM E, g_chunk g, check_match E TK_UNTIL TK_REPEAT line])
     (bindM (cond g) (\<lambda>condexit.
      bindM (curM fp_bl) (\<lambda>bls.
        case bls of
          [] \<Rightarrow> failM BadAccess
        | bl2 # bls \<Rightarrow>
            thenM (if \<not> bl_upval bl2 then seqM [leaveblock, genM (luaK_patchlist condexit repeat_init)]
                   else seqM [breakstat, genM (luaK_patchtohere condexit), leaveblock,
                     bindM (genM luaK_jump) (\<lambda>j. genM (luaK_patchlist j repeat_init))])
              leaveblock))))"

definition exp1 :: "'d grammar \<Rightarrow> ('d, expkind) parse" where
  "exp1 g = bindM (expr g) (\<lambda>e. bindM (genM (luaK_exp2nextreg e)) (\<lambda>_. retM (e_k e)))"

definition forbody :: "'d penv \<Rightarrow> 'd grammar \<Rightarrow> int \<Rightarrow> int \<Rightarrow> int \<Rightarrow> bool \<Rightarrow> ('d, unit) parse" where
  "forbody E g base line nvars isnum =
     thenM (adjustlocalvars 3)
     (thenM (checknext E TK_DO)
     (bindM (if isnum then genM (luaK_codeAsBx OP_FORPREP base NO_JUMP) else genM luaK_jump) (\<lambda>prep.
      thenM (seqM [enterblock False, adjustlocalvars nvars, genM (luaK_reserveregs nvars), block g, leaveblock,
        genM (luaK_patchtohere prep)])
      (bindM (if isnum then genM (luaK_codeAsBx OP_FORLOOP base NO_JUMP)
              else genM (luaK_codeABC OP_TFORLOOP base 0 nvars)) (\<lambda>endfor.
       thenM (genM (luaK_fixline line))
       (bindM (if isnum then retM endfor else genM luaK_jump) (\<lambda>j. genM (luaK_patchlist j (prep + 1)))))))))"

definition fornum :: "'d penv \<Rightarrow> 'd grammar \<Rightarrow> string \<Rightarrow> int \<Rightarrow> ('d, unit) parse" where
  "fornum E g name line =
     bindM freeregM (\<lambda>base.
     seqM [new_localvarliteral ''(for index)'' 0, new_localvarliteral ''(for limit)'' 1,
       new_localvarliteral ''(for step)'' 2, new_localvar name 3,
       checknext E (tok (CHR ''='')),
       bindM (exp1 g) (\<lambda>_. retM ()),
       checknext E (tok (CHR '','')),
       bindM (exp1 g) (\<lambda>_. retM ()),
       bindM (testnext E (tok (CHR '',''))) (\<lambda>b.
         if b then bindM (exp1 g) (\<lambda>_. retM ())
         else bindM (genM (luaK_numberK (cast_num 1))) (\<lambda>k.
              bindM freeregM (\<lambda>r.
              bindM (genM (luaK_codeABx OP_LOADK r k)) (\<lambda>_. genM (luaK_reserveregs 1))))),
       forbody E g base line 1 True])"

text \<open>The names after the first, and the number of variables.\<close>

partial_function (option) forlist_names :: "'d penv \<Rightarrow> int \<Rightarrow> ('d, int) parse" where
  [code]: "forlist_names E nvars s =
     bindM (testnext E (tok (CHR '',''))) (\<lambda>b.
       if b then thenM (bindM (str_checkname E) (\<lambda>name. new_localvar name nvars)) (forlist_names E (nvars + 1))
       else retM nvars) s"

definition forlist :: "'d penv \<Rightarrow> 'd grammar \<Rightarrow> string \<Rightarrow> ('d, unit) parse" where
  "forlist E g indexname =
     bindM freeregM (\<lambda>base.
     thenM (seqM [new_localvarliteral ''(for generator)'' 0, new_localvarliteral ''(for state)'' 1,
       new_localvarliteral ''(for control)'' 2, new_localvar indexname 3])
     (bindM (forlist_names E 4) (\<lambda>nvars.
      thenM (checknext E TK_IN)
      (bindM lineM (\<lambda>line.
       bindM (explist1 g) (\<lambda>(nexps, e).
       seqM [adjust_assign 3 nexps e, genM (luaK_checkstack 3), forbody E g base line (nvars - 3) False]))))))"

definition forstat :: "'d penv \<Rightarrow> 'd grammar \<Rightarrow> int \<Rightarrow> ('d, unit) parse" where
  "forstat E g line =
     thenM (enterblock True)
     (thenM (nextM E)
     (bindM (str_checkname E) (\<lambda>name.
      bindM tokenM (\<lambda>t.
      seqM [if t = tok (CHR ''='') then fornum E g name line
            else if t = tok (CHR '','') \<or> t = TK_IN then forlist E g name
            else syntaxerrorM (quoted_text ''='' @ '' or '' @ quoted_text ''in'' @ '' expected''),
        check_match E TK_END TK_FOR line, leaveblock]))))"

definition test_then_block :: "'d penv \<Rightarrow> 'd grammar \<Rightarrow> ('d, int) parse" where
  "test_then_block E g =
     thenM (nextM E)
     (bindM (cond g) (\<lambda>condexit. thenM (checknext E TK_THEN) (thenM (block g) (retM condexit))))"

text \<open>The loop of \<^verbatim>\<open>ifstat\<close>: the lists of jumps to the end, and over the last condition.\<close>

definition elseif_loop :: "'d penv \<Rightarrow> 'd grammar \<Rightarrow> int \<Rightarrow> int \<Rightarrow> ('d, int \<times> int) parse" where
  "elseif_loop E g escapelist flist =
     bindM tokenM (\<lambda>t.
       if t = TK_ELSEIF then
         bindM (genM luaK_jump) (\<lambda>j.
         bindM (genM (luaK_concat escapelist j)) (\<lambda>escapelist.
         thenM (genM (luaK_patchtohere flist))
           (bindM (test_then_block E g) (g_elseif g escapelist))))
       else retM (escapelist, flist))"

definition ifstat :: "'d penv \<Rightarrow> 'd grammar \<Rightarrow> int \<Rightarrow> ('d, unit) parse" where
  "ifstat E g line =
     bindM (test_then_block E g) (\<lambda>flist.
     bindM (g_elseif g NO_JUMP flist) (\<lambda>(escapelist, flist).
     bindM tokenM (\<lambda>t.
     bindM (if t = TK_ELSE then
              bindM (genM luaK_jump) (\<lambda>j.
              bindM (genM (luaK_concat escapelist j)) (\<lambda>escapelist.
              thenM (seqM [genM (luaK_patchtohere flist), nextM E, block g]) (retM escapelist)))
            else genM (luaK_concat escapelist flist)) (\<lambda>escapelist.
     thenM (genM (luaK_patchtohere escapelist)) (check_match E TK_END TK_IF line)))))"

subsection \<open>Local variables and functions\<close>

definition localfunc :: "'d penv \<Rightarrow> 'd grammar \<Rightarrow> ('d, unit) parse" where
  "localfunc E g =
     bindM (str_checkname E) (\<lambda>name.
     thenM (new_localvar name 0)
     (bindM freeregM (\<lambda>r.
      thenM (genM (luaK_reserveregs 1))
      (thenM (adjustlocalvars 1)
      (bindM (bindM lineM (body E g False)) (\<lambda>b.
       bindM (genM (luaK_storevar (init_exp VLOCAL r) b)) (\<lambda>_.
       bindM (curM (\<lambda>fp. (fs_nactvar (fp_fs fp), fs_pc (fp_fs fp)))) (\<lambda>(na, pc).
       upd_locvar (na - 1) (\<lambda>v. v\<lparr>startpc := pc\<rparr>)))))))))"

partial_function (option) localstat_names :: "'d penv \<Rightarrow> int \<Rightarrow> ('d, int) parse" where
  [code]: "localstat_names E nvars s =
     thenM (bindM (str_checkname E) (\<lambda>name. new_localvar name nvars))
       (bindM (testnext E (tok (CHR '',''))) (\<lambda>b.
        if b then localstat_names E (nvars + 1) else retM (nvars + 1))) s"

definition localstat :: "'d penv \<Rightarrow> 'd grammar \<Rightarrow> ('d, unit) parse" where
  "localstat E g =
     bindM (localstat_names E 0) (\<lambda>nvars.
     bindM (bindM (testnext E (tok (CHR ''=''))) (\<lambda>b.
              if b then explist1 g else retM (0, init_exp VVOID 0))) (\<lambda>(nexps, e).
     thenM (adjust_assign nvars nexps e) (adjustlocalvars nvars)))"

partial_function (option) funcname_fields :: "'d penv \<Rightarrow> expdesc \<Rightarrow> ('d, expdesc) parse" where
  [code]: "funcname_fields E v s =
     bindM tokenM (\<lambda>t. if t = tok (CHR ''.'') then bindM (field E v) (\<lambda>v. funcname_fields E v) else retM v) s"

definition funcname :: "'d penv \<Rightarrow> ('d, bool \<times> expdesc) parse" where
  "funcname E =
     bindM (singlevar E) (\<lambda>v.
     bindM (funcname_fields E v) (\<lambda>v.
     bindM tokenM (\<lambda>t.
       if t = tok (CHR '':'') then bindM (field E v) (\<lambda>v. retM (True, v)) else retM (False, v))))"

definition funcstat :: "'d penv \<Rightarrow> 'd grammar \<Rightarrow> int \<Rightarrow> ('d, unit) parse" where
  "funcstat E g line =
     thenM (nextM E)
     (bindM (funcname E) (\<lambda>(needself, v).
      bindM (body E g needself line) (\<lambda>b.
      bindM (genM (luaK_storevar v b)) (\<lambda>_. genM (luaK_fixline line)))))"

text \<open>What a return statement returns: the first register and how many.\<close>

definition return_values :: "'d grammar \<Rightarrow> ('d, int \<times> int) parse" where
  "return_values g =
     bindM (explist1 g) (\<lambda>(nret, e).
       if hasmultret (e_k e) then
         thenM (genM (luaK_setreturns e LUA_MULTRET))
         (thenM (whenM (e_k e = VCALL \<and> nret = 1) (set_code e (\<lambda>i. SET_OPCODE i (of_OpCode OP_TAILCALL))))
         (bindM nactvarM (\<lambda>first. retM (first, LUA_MULTRET))))
       else if nret = 1 then bindM (genM (luaK_exp2anyreg e)) (\<lambda>e. retM (e_info e, nret))
       else bindM (genM (luaK_exp2nextreg e)) (\<lambda>_. bindM nactvarM (\<lambda>first. retM (first, nret))))"

definition retstat :: "'d penv \<Rightarrow> 'd grammar \<Rightarrow> ('d, unit) parse" where
  "retstat E g =
     thenM (nextM E)
     (bindM tokenM (\<lambda>t.
      bindM (if block_follow t \<or> t = tok (CHR '';'') then retM (0, 0) else return_values g) (\<lambda>(first, nret).
      genM (luaK_ret first nret))))"

subsection \<open>Statements and chunks\<close>

text \<open>The result tells whether the statement must be the last one of its block.\<close>

definition statement :: "'d penv \<Rightarrow> 'd grammar \<Rightarrow> ('d, bool) parse" where
  "statement E g =
     bindM lineM (\<lambda>line.
     bindM tokenM (\<lambda>t.
       if t = TK_IF then thenM (ifstat E g line) (retM False)
       else if t = TK_WHILE then thenM (whilestat E g line) (retM False)
       else if t = TK_DO then thenM (seqM [nextM E, block g, check_match E TK_END TK_DO line]) (retM False)
       else if t = TK_FOR then thenM (forstat E g line) (retM False)
       else if t = TK_REPEAT then thenM (repeatstat E g line) (retM False)
       else if t = TK_FUNCTION then thenM (funcstat E g line) (retM False)
       else if t = TK_LOCAL then
         thenM (nextM E)
           (bindM (testnext E TK_FUNCTION) (\<lambda>b. thenM (if b then localfunc E g else localstat E g) (retM False)))
       else if t = TK_RETURN then thenM (retstat E g) (retM True)
       else if t = TK_BREAK then thenM (nextM E) (thenM breakstat (retM True))
       else thenM (exprstat E g) (retM False)))"

text \<open>The loop of \<^verbatim>\<open>chunk\<close>.\<close>

definition statements :: "'d penv \<Rightarrow> 'd grammar \<Rightarrow> ('d, unit) parse" where
  "statements E g =
     bindM tokenM (\<lambda>t.
       if block_follow t then retM ()
       else
         bindM (statement E g) (\<lambda>islast.
         bindM (testnext E (tok (CHR '';''))) (\<lambda>_.
         thenM (bindM nactvarM set_freereg) (if islast then retM () else g_statements g))))"

definition chunk :: "'d grammar \<Rightarrow> ('d, unit) parse" where
  "chunk g = seqM [enterlevel, g_statements g, leavelevel]"

primrec grammar :: "'d penv \<Rightarrow> nat \<Rightarrow> 'd grammar" where
  "grammar E 0 =
     \<lparr>g_chunk = failM NoFuel, g_statements = failM NoFuel, g_subexpr = (\<lambda>_. failM NoFuel),
      g_operators = (\<lambda>_ _ _. failM NoFuel), g_explist = (\<lambda>_ _. failM NoFuel), g_suffixes = (\<lambda>_. failM NoFuel),
      g_fields = (\<lambda>_. failM NoFuel), g_assignment = (\<lambda>_ _. failM NoFuel), g_elseif = (\<lambda>_ _. failM NoFuel)\<rparr>"
| "grammar E (Suc n) =
     (let g = grammar E n in
      \<lparr>g_chunk = chunk g, g_statements = statements E g, g_subexpr = subexpr E g, g_operators = operators E g,
       g_explist = explist E g, g_suffixes = suffixes E g, g_fields = fields E g, g_assignment = assignment E g,
       g_elseif = elseif_loop E g\<rparr>)"

definition luaY_parser :: "'d penv \<Rightarrow> nat \<Rightarrow> 'd ZIO \<Rightarrow> string \<Rightarrow> ('d, Proto) parse" where
  "luaY_parser E n z name =
     thenM (seqM [lexM (luaX_setinput (pe_rd E) z),
       open_func name,
       setcurM (\<lambda>fp. fp\<lparr>fp_is_vararg := VARARG_ISVARARG\<rparr>),
       nextM E,
       chunk (grammar E n),
       checkM TK_EOS])
     (bindM close_func (\<lambda>fp. retM (proto_of fp)))"

end
