(* ===== verification/Lexer_Frame.thy ===== *)
theory Lexer_Frame
  imports Lexer
begin

text \<open>
  Reading a token (\<^verbatim>\<open>llex\<close>) leaves the tokens already read as they are: only \<^verbatim>\<open>luaX_next\<close> and
  \<^verbatim>\<open>luaX_lookahead\<close> set the current token and the one after it.
\<close>

definition kept_tokens :: "'d LexState \<Rightarrow> lexstop + 'a \<times> 'd LexState \<Rightarrow> bool" where
  "kept_tokens ls y \<longleftrightarrow> (case y of Inl e \<Rightarrow> True | Inr (x, ls') \<Rightarrow> ls_t ls' = ls_t ls \<and> ls_lookahead ls' = ls_lookahead ls)"

definition keeps_tokens :: "('d, 'a) lex \<Rightarrow> bool" where
  "keeps_tokens m \<longleftrightarrow> (\<forall>ls y. m ls = Some y \<longrightarrow> kept_tokens ls y)"

named_theorems frameI

lemma frame_bind [frameI]: "keeps_tokens m \<Longrightarrow> (\<And>x. keeps_tokens (f x)) \<Longrightarrow> keeps_tokens (bindM m f)"
  unfolding keeps_tokens_def kept_tokens_def bindM_def
  by (fastforce split: option.split_asm sum.split_asm prod.split_asm sum.splits prod.splits)

lemma frame_then [frameI]: "keeps_tokens m \<Longrightarrow> keeps_tokens n \<Longrightarrow> keeps_tokens (thenM m n)"
  by (simp add: thenM_def frame_bind)

lemma frame_if [frameI]: "keeps_tokens m \<Longrightarrow> keeps_tokens n \<Longrightarrow> keeps_tokens (if b then m else n)"
  by simp

lemma frame_option [frameI]:
  "keeps_tokens m \<Longrightarrow> (\<And>x. keeps_tokens (f x)) \<Longrightarrow> keeps_tokens (case r of None \<Rightarrow> m | Some x \<Rightarrow> f x)"
  by (cases r) simp_all

lemma frame_prod [frameI]: "(\<And>a b. keeps_tokens (f a b)) \<Longrightarrow> keeps_tokens (case p of (a, b) \<Rightarrow> f a b)"
  by (cases p) simp

lemma frame_base [frameI]: "keeps_tokens (retM x)" "keeps_tokens (failM e)" "keeps_tokens (getM g)"
  by (simp_all add: keeps_tokens_def kept_tokens_def retM_def failM_def getM_def)

lemma frame_mod: "(\<And>ls. ls_t (f ls) = ls_t ls \<and> ls_lookahead (f ls) = ls_lookahead ls) \<Longrightarrow> keeps_tokens (modM f)"
  by (simp add: keeps_tokens_def kept_tokens_def modM_def)

lemma frame_next [frameI]: "keeps_tokens (lex_next rd)"
  by (auto simp: keeps_tokens_def kept_tokens_def lex_next_def split: option.splits)

lemma frame_save [frameI]: "keeps_tokens (save c)"
  unfolding save_def save_or_def lex_error0_def by (intro frameI frame_mod) simp_all

lemma frame_error [frameI]: "keeps_tokens (luaX_lexerror msg t)"
  unfolding luaX_lexerror_def txtToken_def lex_error0_def by (intro frameI)

lemma frame_syntaxerror [frameI]: "keeps_tokens (luaX_syntaxerror msg)"
  unfolding luaX_syntaxerror_def by (intro frameI)

lemma frame_buffer [frameI]:
  "keeps_tokens (save_and_next rd)" "keeps_tokens resetbuffer" "keeps_tokens (luaX_newstring s)" "keeps_tokens (buffreplace a b)"
  unfolding save_and_next_def resetbuffer_def luaX_newstring_def buffreplace_def by (intro frameI frame_mod; simp)+

lemma frame_newline [frameI]: "keeps_tokens (inclinenumber rd)"
  unfolding inclinenumber_def by (intro frameI frame_mod) simp

lemma frame_check_next [frameI]: "keeps_tokens (check_next rd cs)"
  unfolding check_next_def by (intro frameI)

text \<open>A loop that is the limit of its approximations.\<close>

subsection \<open>Loops\<close>

lemma frame_step: "(\<And>ls y. m ls = Some y \<Longrightarrow> kept_tokens ls y) \<Longrightarrow> keeps_tokens m"
  by (simp add: keeps_tokens_def)

lemma frame_run: "keeps_tokens m \<Longrightarrow> m ls = Some y \<Longrightarrow> kept_tokens ls y"
  by (simp add: keeps_tokens_def)

lemma frame_save_while [frameI]: "keeps_tokens (save_while rd P)"
proof (rule frame_step)
  fix ls y
  assume r: "save_while rd P ls = Some y"
  show "kept_tokens ls y"
    by (rule save_while.raw_induct [where Pa = "\<lambda>p y. kept_tokens (snd p) y", OF _ r, simplified],
        erule frame_run [rotated], intro frameI; rule frame_step, blast)
qed

lemma frame_sep_loop [frameI]: "keeps_tokens (skip_sep_loop rd n)"
proof (rule frame_step)
  fix ls y
  assume r: "skip_sep_loop rd n ls = Some y"
  show "kept_tokens ls y"
    by (rule skip_sep_loop.raw_induct [where P = "\<lambda>rd n ls y. kept_tokens ls y", OF _ r],
        erule frame_run [rotated], intro frameI; rule frame_step, blast)
qed

lemma frame_sep [frameI]: "keeps_tokens (skip_sep rd)"
  unfolding skip_sep_def by (intro frameI)

lemma frame_long_loop [frameI]: "keeps_tokens (long_string_loop rd str sep)"
proof (rule frame_step)
  fix ls y
  assume r: "long_string_loop rd str sep ls = Some y"
  show "kept_tokens ls y"
    by (rule long_string_loop.raw_induct [where P = "\<lambda>rd str sep ls y. kept_tokens ls y", OF _ r],
        erule frame_run [rotated], intro frameI; rule frame_step, blast)
qed

lemma frame_escape [frameI]: "keeps_tokens (decimal_escape rd n c)"
  by (induction n arbitrary: c) (simp_all only: decimal_escape.simps, (intro frameI | assumption)+)

lemma frame_read_escape [frameI]: "keeps_tokens (read_escape rd)"
  unfolding read_escape_def escaped_def by (intro frameI)

lemma frame_string_loop [frameI]: "keeps_tokens (read_string_loop rd del)"
proof (rule frame_step)
  fix ls y
  assume r: "read_string_loop rd del ls = Some y"
  show "kept_tokens ls y"
    by (rule read_string_loop.raw_induct [where P = "\<lambda>rd del ls y. kept_tokens ls y", OF _ r],
        erule frame_run [rotated], intro frameI; rule frame_step, blast)
qed

lemma frame_skip_line [frameI]: "keeps_tokens (skip_line rd)"
proof (rule frame_step)
  fix ls y
  assume r: "skip_line rd ls = Some y"
  show "kept_tokens ls y"
    by (rule skip_line.raw_induct [where P = "\<lambda>rd ls y. kept_tokens ls y", OF _ r],
        erule frame_run [rotated], intro frameI; rule frame_step, blast)
qed

lemma frame_trydecpoint [frameI]: "keeps_tokens (trydecpoint env)"
  unfolding trydecpoint_def by (intro frameI frame_mod) simp

lemma frame_numeral [frameI]: "keeps_tokens (read_numeral env rd)"
  unfolding read_numeral_def by (intro frameI)

lemma frame_readers [frameI]:
  "keeps_tokens (read_long_string rd str sep)" "keeps_tokens (read_string rd del)" "keeps_tokens (one_or_two rd a b)"
  "keeps_tokens (read_name rd)" "keeps_tokens (read_dots env rd)"
  unfolding read_long_string_def read_string_def one_or_two_def read_name_def read_dots_def by (intro frameI)+

lemma frame_comment [frameI]: "keeps_tokens (skip_comment rd)"
  unfolding skip_comment_def by (intro frameI)

lemma frame_llex_loop: "keeps_tokens (llex_loop env rd)"
proof (rule frame_step)
  fix ls y
  assume r: "llex_loop env rd ls = Some y"
  show "kept_tokens ls y"
    by (rule llex_loop.raw_induct [where P = "\<lambda>env rd ls y. kept_tokens ls y", OF _ r],
        erule frame_run [rotated], intro frameI; rule frame_step, blast)
qed

lemma llex_keeps_tokens: "keeps_tokens (llex env rd)"
  unfolding llex_def by (intro frameI frame_llex_loop)

end
