(* ===== verification/Parser_Laws.thy ===== *)
theory Parser_Laws
  imports Statements Codegen_Inv Lexer_Runs Lexer_Frame Checker
begin

text \<open>
  What the parser (\<^verbatim>\<open>lparser.c\<close>) keeps from one step to the next: the input that is left only
  shrinks, and every function being compiled satisfies its invariant.  The laws of the functions
  below the grammar.
\<close>

subsection \<open>Functions and prototypes\<close>

text \<open>
  A compiled function passes the checks that the bytecode checker makes first (\<^verbatim>\<open>precheck\<close>), its
  frame is below \<^verbatim>\<open>MAXSTACK\<close>, every instruction has its line, its upvalues are at most
  \<^verbatim>\<open>LUAI_MAXUPVALUES\<close> and all have a name; and so do the functions within it.\<close>

fun parsed_ok :: "Proto \<Rightarrow> bool" where
  "parsed_ok (Proto ks code ps li lv uv src ld lld nups npar va mss) \<longleftrightarrow>
     precheck (Proto ks code ps li lv uv src ld lld nups npar va mss) \<and>
     uint mss < K_MAXSTACK \<and> length li = length code \<and>
     uint nups = int (length uv) \<and> int (length uv) \<le> LUAI_MAXUPVALUES \<and> (\<forall>p\<in>set ps. parsed_ok p)"

definition hasarg :: "FuncParse \<Rightarrow> int" where
  "hasarg fp = uint (fp_is_vararg fp AND VARARG_HASARG)"

definition fp_rest :: "FuncParse \<Rightarrow> bool" where
  "fp_rest fp \<longleftrightarrow> 0 \<le> fp_numparams fp \<and> fp_numparams fp < 256 \<and>
     (fp_is_vararg fp AND VARARG_NEEDSARG = 0 \<or> fp_is_vararg fp AND VARARG_HASARG \<noteq> 0) \<and>
     int (length (fp_upvalues fp)) \<le> LUAI_MAXUPVALUES \<and> (\<forall>p\<in>set (fp_p fp). parsed_ok p)"

definition fp_ok :: "FuncParse \<Rightarrow> bool" where
  "fp_ok fp \<longleftrightarrow> fp_rest fp \<and> fs_ok False (max 2 (fp_numparams fp + hasarg fp)) (fp_fs fp)"

lemmas fp_defs = fp_ok_def fp_rest_def hasarg_def

subsection \<open>States and steps\<close>

text \<open>
  \<open>ready E T H d k\<close>: the current token satisfies \<open>T\<close>, at most \<open>k\<close> characters and tokens are left,
  the innermost function satisfies \<open>H\<close>, and the \<open>d\<close> around it their invariant.\<close>

definition pending :: "Token \<Rightarrow> nat" where
  "pending t = (if token t = TK_EOS then 0 else 1)"

definition left_to_read :: "'d penv \<Rightarrow> nat \<Rightarrow> 'd LexState \<Rightarrow> bool" where
  "left_to_read E k ls \<longleftrightarrow>
     (\<exists>cs. lex_in (pe_rd E) ls cs \<and> length cs + pending (ls_t ls) + pending (ls_lookahead ls) \<le> k)"

lemma left_to_readI:
  "lex_in (pe_rd E) ls cs \<Longrightarrow> length cs + pending (ls_t ls) + pending (ls_lookahead ls) \<le> k \<Longrightarrow> left_to_read E k ls"
  by (auto simp: left_to_read_def)

definition funcs_ok :: "(FuncParse \<Rightarrow> bool) \<Rightarrow> nat \<Rightarrow> FuncParse list \<Rightarrow> bool" where
  "funcs_ok H d fps \<longleftrightarrow> (\<exists>fp fs. fps = fp # fs \<and> length fs = d \<and> H fp \<and> (\<forall>f\<in>set fs. fp_ok f))"

definition ready :: "'d penv \<Rightarrow> (int \<Rightarrow> bool) \<Rightarrow> (FuncParse \<Rightarrow> bool) \<Rightarrow> nat \<Rightarrow> nat \<Rightarrow> 'd PState \<Rightarrow> bool" where
  "ready E T H d k ps \<longleftrightarrow> T (token (ls_t (ps_ls ps))) \<and> left_to_read E k (ps_ls ps) \<and> funcs_ok H d (ps_fs ps)"

definition fine :: "pstop \<Rightarrow> bool" where
  "fine e \<longleftrightarrow> e \<noteq> NoFuel \<and> e \<noteq> LexStop MemError"

definition outcome ::
  "'d penv \<Rightarrow> nat \<Rightarrow> nat \<Rightarrow> nat \<Rightarrow> ('a \<Rightarrow> FuncParse \<Rightarrow> bool) \<Rightarrow> pstop + 'a \<times> 'd PState \<Rightarrow> bool" where
  "outcome E c d k Q y =
     (case y of Inl e \<Rightarrow> fine e | Inr (x, ps) \<Rightarrow> c \<le> k \<and> ready E (\<lambda>_. True) (Q x) d (k - c) ps)"

text \<open>
  \<open>does E T H c k m Q\<close>: in a state with at most \<open>k\<close> left, \<open>m\<close> does not run out of fuel, does
  not touch memory outside the lexer's, and if it returns it has used up at least \<open>c\<close> of what
  was left, and the innermost function satisfies \<open>Q\<close>.\<close>

definition does ::
  "'d penv \<Rightarrow> (int \<Rightarrow> bool) \<Rightarrow> (FuncParse \<Rightarrow> bool) \<Rightarrow> nat \<Rightarrow> nat \<Rightarrow> ('d, 'a) parse \<Rightarrow>
   ('a \<Rightarrow> FuncParse \<Rightarrow> bool) \<Rightarrow> bool" where
  "does E T H c k m Q \<longleftrightarrow>
     (\<forall>d j ps y. j \<le> k \<longrightarrow> ready E T H d j ps \<longrightarrow> m ps = Some y \<longrightarrow> outcome E c d j Q y)"

abbreviation keeping ::
  "'d penv \<Rightarrow> (int \<Rightarrow> bool) \<Rightarrow> nat \<Rightarrow> nat \<Rightarrow> ('d, 'a) parse \<Rightarrow> bool" where
  "keeping E T c k m \<equiv> does E T fp_ok c k m (\<lambda>_. fp_ok)"

named_theorems doesI

lemma doesD:
  "does E T H c k m Q \<Longrightarrow> j \<le> k \<Longrightarrow> ready E T H d j ps \<Longrightarrow> m ps = Some y \<Longrightarrow> outcome E c d j Q y"
  unfolding does_def by blast

lemma does_less: "does E T H c k m Q \<Longrightarrow> j \<le> k \<Longrightarrow> does E T H c j m Q"
  unfolding does_def by (meson order_trans)

lemma left_to_read_mono: "left_to_read E j ls \<Longrightarrow> j \<le> k \<Longrightarrow> left_to_read E k ls"
  unfolding left_to_read_def by (meson order_trans)

lemma ready_mono: "ready E T H d j ps \<Longrightarrow> j \<le> k \<Longrightarrow> (\<And>t. T t \<Longrightarrow> T' t) \<Longrightarrow> (\<And>f. H f \<Longrightarrow> H' f) \<Longrightarrow> ready E T' H' d k ps"
  unfolding ready_def funcs_ok_def using left_to_read_mono by blast

lemma does_weaken:
  assumes "does E T H c k m Q" "c' \<le> c" "\<And>t. T' t \<Longrightarrow> T t" "\<And>f. H' f \<Longrightarrow> H f" "\<And>x f. Q x f \<Longrightarrow> Q' x f"
  shows "does E T' H' c' k m Q'"
  unfolding does_def
proof (intro allI impI)
  fix d j ps y
  assume "j \<le> k" "ready E T' H' d j ps" "m ps = Some y"
  moreover from this have "ready E T H d j ps" by (auto elim: ready_mono intro: assms(3,4))
  ultimately have "outcome E c d j Q y" using doesD [OF assms(1)] by blast
  then show "outcome E c' d j Q' y"
    using assms(2,5) by (auto simp: outcome_def split: sum.splits elim!: ready_mono)
qed

lemma keeping_eats: "keeping E T 1 k m \<Longrightarrow> keeping E T 0 k m"
  by (erule does_weaken) auto

lemma does_bind:
  assumes "does E T H c k m P" "\<And>x. c \<le> k \<Longrightarrow> does E (\<lambda>_. True) (P x) c' (k - c) (f x) Q"
  shows "does E T H (c + c') k (bindM m f) Q"
  unfolding does_def
proof (intro allI impI)
  fix d j ps y
  assume j: "j \<le> k" and r: "ready E T H d j ps" and e: "bindM m f ps = Some y"
  show "outcome E (c + c') d j Q y"
  proof (cases "m ps")
    case None
    then show ?thesis using e by (simp add: bindM_def)
  next
    case (Some z)
    note o = doesD [OF assms(1) j r Some]
    show ?thesis
    proof (cases z)
      case (Inl err)
      then show ?thesis using e o Some by (auto simp: bindM_def outcome_def)
    next
      case (Inr p)
      then obtain x ps' where p: "z = Inr (x, ps')" by (cases p) auto
      with o have q: "c \<le> j" "ready E (\<lambda>_. True) (P x) d (j - c) ps'" by (simp_all add: outcome_def)
      have "f x ps' = Some y" using e Some p by (simp add: bindM_def)
      with doesD [OF assms(2) _ q(2)] j q(1) have "outcome E c' d (j - c) Q y" by simp
      then show ?thesis using q(1) by (auto simp: outcome_def split: sum.splits)
    qed
  qed
qed

lemma does_bind0:
  "does E T H 0 k m P \<Longrightarrow> (\<And>x. does E (\<lambda>_. True) (P x) c k (f x) Q) \<Longrightarrow> does E T H c k (bindM m f) Q"
  using does_bind [of E T H 0 k m P c f Q] by simp

lemma does_bind1:
  "does E T H 1 k m P \<Longrightarrow> (\<And>x. 0 < k \<Longrightarrow> does E (\<lambda>_. True) (P x) 0 (k - 1) (f x) Q) \<Longrightarrow> does E T H 1 k (bindM m f) Q"
  using does_bind [of E T H 1 k m P 0 f Q] by simp

lemma does_bind1':
  "does E T H 1 k m P \<Longrightarrow> (\<And>x. 0 < k \<Longrightarrow> does E (\<lambda>_. True) (P x) 0 (k - 1) (f x) Q) \<Longrightarrow> does E T H 0 k (bindM m f) Q"
  by (rule does_weaken [where T = T and H = H and Q = Q and c = 1], rule does_bind1) simp_all

lemma does_ret: "(\<And>f. H f \<Longrightarrow> Q x f) \<Longrightarrow> does E T H 0 k (retM x) Q"
  unfolding does_def outcome_def by (auto simp: retM_def elim: ready_mono)

lemma does_fail: "fine e \<Longrightarrow> does E T H c k (failM e) Q"
  unfolding does_def outcome_def by (simp add: failM_def)

lemma does_get: "(\<And>x. does E T H c k (f x) Q) \<Longrightarrow> does E T H c k (bindM (getM g) f) Q"
  unfolding does_def by (auto simp: bindM_def getM_def)

lemma does_getM: "does E T H 0 k (getM g) (\<lambda>_. H)"
  unfolding does_def outcome_def by (auto simp: getM_def elim: ready_mono)

lemma does_token: "(\<And>t. T t \<Longrightarrow> does E (\<lambda>u. u = t) H c k (f t) Q) \<Longrightarrow> does E T H c k (bindM tokenM f) Q"
  unfolding does_def by (fastforce simp: bindM_def getM_def tokenM_def ready_def)

lemma keeping_bind0: "keeping E T 0 k m \<Longrightarrow> (\<And>x. keeping E (\<lambda>_. True) c k (f x)) \<Longrightarrow> keeping E T c k (bindM m f)"
  by (rule does_bind0)

lemma keeping_then0: "keeping E T 0 k m \<Longrightarrow> keeping E (\<lambda>_. True) c k n \<Longrightarrow> keeping E T c k (thenM m n)"
  unfolding thenM_def by (rule does_bind0)

subsection \<open>Steps of the lexer\<close>

lemma ready_lexed:
  "ready E T H d j ps \<Longrightarrow> left_to_read E j' ls \<Longrightarrow> ready E (\<lambda>_. True) H d j' (ps\<lparr>ps_ls := ls\<rparr>)"
  by (simp add: ready_def)

lemma does_lexM:
  assumes "\<And>ls cs. lex_in (pe_rd E) ls cs \<Longrightarrow> lexes (pe_rd E) cs 0 m ls" "keeps_tokens m"
  shows "does E T H 0 k (lexM m) (\<lambda>_. H)"
  unfolding does_def
proof (intro allI impI)
  fix d j ps y
  assume r: "ready E T H d j ps" and e: "lexM m ps = Some y"
  obtain cs where cs: "lex_in (pe_rd E) (ps_ls ps) cs"
    "length cs + pending (ls_t (ps_ls ps)) + pending (ls_lookahead (ps_ls ps)) \<le> j"
    using r by (auto simp: ready_def left_to_read_def)
  have k: "kept_tokens (ps_ls ps) z" if "m (ps_ls ps) = Some z" for z
    using assms(2) that by (simp add: keeps_tokens_def)
  have l: "left_to_read E j ls'" if "m (ps_ls ps) = Some (Inr (x, ls'))" for x ls'
  proof -
    from assms(1) [OF cs(1)] that obtain cs' where "lex_in (pe_rd E) ls' cs'" "length cs' \<le> length cs"
      by (auto simp: lexes_def runs_def)
    with k [OF that] cs(2) show ?thesis by (auto simp: left_to_read_def kept_tokens_def)
  qed
  have "e \<noteq> MemError" if "m (ps_ls ps) = Some (Inl e)" for e
    using assms(1) [OF cs(1)] that by (auto simp: lexes_def runs_def)
  with e l show "outcome E 0 d j (\<lambda>_. H) y"
    by (auto simp: lexM_def outcome_def fine_def split: option.splits sum.splits intro!: ready_lexed [OF r])
qed

lemma does_error [doesI]:
  fixes Q :: "'a \<Rightarrow> FuncParse \<Rightarrow> bool"
  shows "does E T H c k (lexM (luaX_lexerror msg t)) Q"
  unfolding does_def
proof (intro allI impI)
  fix d j ps and y :: "pstop + 'a \<times> 'b PState"
  assume r: "ready E T H d j ps" and e: "lexM (luaX_lexerror msg t) ps = Some y"
  obtain cs where "lex_in (pe_rd E) (ps_ls ps) cs" using r by (auto simp: ready_def left_to_read_def)
  from lexerror_runs [OF this, of msg t "\<lambda>(_ :: 'a) _. False"] e show "outcome E c d j Q y"
    by (auto simp: runs_def lexM_def outcome_def fine_def split: option.splits sum.splits)
qed

lemma does_syntaxerror [doesI]: "does E T H c k (syntaxerrorM msg) Q"
  unfolding syntaxerrorM_def luaX_syntaxerror_def
  using does_error [of E T H c k msg _ Q]
  by (simp add: does_def lexM_def bindM_def getM_def)

lemma error_expected_law [doesI]: "does E T H c k (error_expected t) Q"
  unfolding error_expected_def by (rule does_syntaxerror)

lemma newstring_law [doesI]: "does E T H 0 k (lexM (luaX_newstring s)) (\<lambda>_. H)"
proof (rule does_lexM)
  fix ls :: "'a LexState" and cs
  assume "lex_in (pe_rd E) ls cs"
  then show "lexes (pe_rd E) cs 0 (luaX_newstring s) ls"
    by (auto simp: lexes_def luaX_newstring_def runs_simps lex_in_def split: list.splits)
qed (rule frameI)

lemma next_runs:
  assumes "left_to_read E j ls" and e: "luaX_next (pe_lex E) (pe_rd E) ls = Some y"
  shows "case y of Inl e \<Rightarrow> e \<noteq> MemError
     | Inr (x, ls') \<Rightarrow> pending (ls_t ls) \<le> j \<and> left_to_read E (j - pending (ls_t ls)) ls'"
proof -
  let ?ls = "ls\<lparr>ls_lastline := ls_linenumber ls\<rparr>"
  obtain cs where cs: "lex_in (pe_rd E) ls cs" "length cs + pending (ls_t ls) + pending (ls_lookahead ls) \<le> j"
    using assms(1) by (auto simp: left_to_read_def)
  have in': "lex_in (pe_rd E) ?ls cs" using cs(1) by (simp add: lex_in_def split: list.splits)
  show "case y of Inl e \<Rightarrow> e \<noteq> MemError
     | Inr (x, ls') \<Rightarrow> pending (ls_t ls) \<le> j \<and> left_to_read E (j - pending (ls_t ls)) ls'"
  proof (cases "token (ls_lookahead ls) = TK_EOS")
    case False
    have "lex_in (pe_rd E) (?ls\<lparr>ls_t := ls_lookahead ls, ls_lookahead := (ls_lookahead ls)\<lparr>token := TK_EOS\<rparr>\<rparr>) cs"
      using cs(1) by (simp add: lex_in_def split: list.splits)
    then have "left_to_read E (j - pending (ls_t ls))
        (?ls\<lparr>ls_t := ls_lookahead ls, ls_lookahead := (ls_lookahead ls)\<lparr>token := TK_EOS\<rparr>\<rparr>)"
      using False cs(2) by (intro left_to_readI [where cs = cs]) (auto simp: pending_def)
    with False e cs(2) show ?thesis by (auto simp: luaX_next_def gen_defs)
  next
    case True
    have t: "tokens (pe_rd E) cs (llex (pe_lex E) (pe_rd E)) ?ls" by (rule llex_tokens [OF in'])
    have "kept_tokens ?ls z" if "llex (pe_lex E) (pe_rd E) ?ls = Some z" for z
      by (rule frame_run [OF llex_keeps_tokens that])
    note k = this
    have set_t: "lex_in (pe_rd E) (l\<lparr>ls_t := u\<rparr>) c" if "lex_in (pe_rd E) l c" for l c u
      using that by (simp add: lex_in_def split: list.splits)
    show ?thesis
    proof (cases "llex (pe_lex E) (pe_rd E) ?ls")
      case None
      then show ?thesis using t by (simp add: tokens_def runs_def)
    next
      case (Some z)
      show ?thesis
      proof (cases z)
        case (Inl err)
        then show ?thesis using t Some e True by (auto simp: tokens_def runs_def luaX_next_def gen_defs)
      next
        case (Inr p)
        obtain u s ls' where p: "p = ((u, s), ls')" by (cases p) auto
        obtain cs' where c: "lex_in (pe_rd E) ls' cs'" "if u = TK_EOS then cs' = [] else length cs' < length cs"
          using t Some Inr p by (auto simp: tokens_def runs_def)
        have kt: "ls_t ls' = ls_t ls" "ls_lookahead ls' = ls_lookahead ls"
          using k [OF Some] Inr p by (simp_all add: kept_tokens_def)
        have y: "y = Inr ((), ls'\<lparr>ls_t := \<lparr>token = u, seminfo = s\<rparr>\<rparr>)"
          using e True Some Inr p by (simp add: luaX_next_def gen_defs)
        have "length cs' + pending \<lparr>token = u, seminfo = s\<rparr> \<le> length cs"
          using c(2) by (auto simp: pending_def split: if_splits)
        then have "left_to_read E (j - pending (ls_t ls)) (ls'\<lparr>ls_t := \<lparr>token = u, seminfo = s\<rparr>\<rparr>)"
          using cs(2) kt set_t [OF c(1)] unfolding left_to_read_def
          by (intro exI [of _ cs'] conjI) auto
        then show ?thesis using y cs(2) by simp
      qed
    qed
  qed
qed

lemma nextM_eats: "(\<And>t. T t \<Longrightarrow> t \<noteq> TK_EOS) \<Longrightarrow> does E T H 1 k (nextM E) (\<lambda>_. H)"
  unfolding does_def
proof (intro allI impI)
  fix d j ps y
  assume T: "\<And>t. T t \<Longrightarrow> t \<noteq> TK_EOS" and r: "ready E T H d j ps" and e: "nextM E ps = Some y"
  have l: "left_to_read E j (ps_ls ps)" "pending (ls_t (ps_ls ps)) = 1"
    using r T by (auto simp: ready_def pending_def)
  from e obtain z where z: "luaX_next (pe_lex E) (pe_rd E) (ps_ls ps) = Some z"
    by (auto simp: nextM_def lexM_def split: option.splits)
  from e next_runs [OF l(1) z] l(2) z show "outcome E 1 d j (\<lambda>_. H) y"
    by (auto simp: nextM_def lexM_def outcome_def fine_def split: sum.splits intro!: ready_lexed [OF r])
qed

lemma nextM_law [doesI]: "does E T H 0 k (nextM E) (\<lambda>_. H)"
  unfolding does_def
proof (intro allI impI)
  fix d j ps y
  assume r: "ready E T H d j ps" and e: "nextM E ps = Some y"
  have l: "left_to_read E j (ps_ls ps)" using r by (simp add: ready_def)
  from e obtain z where z: "luaX_next (pe_lex E) (pe_rd E) (ps_ls ps) = Some z"
    by (auto simp: nextM_def lexM_def split: option.splits)
  from e next_runs [OF l z] z left_to_read_mono [of E "j - pending (ls_t (ps_ls ps))" _ j]
  show "outcome E 0 d j (\<lambda>_. H) y"
    by (auto simp: nextM_def lexM_def outcome_def fine_def split: sum.splits intro!: ready_lexed [OF r])
qed


lemma lookahead_law [doesI]: "does E T H 0 k (lexM (luaX_lookahead (pe_lex E) (pe_rd E))) (\<lambda>_. H)"
  unfolding does_def
proof (intro allI impI)
  fix d j ps y
  assume r: "ready E T H d j ps" and e: "lexM (luaX_lookahead (pe_lex E) (pe_rd E)) ps = Some y"
  let ?ls = "ps_ls ps"
  obtain cs where cs: "lex_in (pe_rd E) ?ls cs" "length cs + pending (ls_t ?ls) + pending (ls_lookahead ?ls) \<le> j"
    using r by (auto simp: ready_def left_to_read_def)
  from llex_tokens [OF cs(1), of "pe_lex E"] obtain z where z: "llex (pe_lex E) (pe_rd E) ?ls = Some z"
    "case z of Inl e \<Rightarrow> e \<noteq> MemError
     | Inr ((t, s), ls') \<Rightarrow> \<exists>cs'. lex_in (pe_rd E) ls' cs' \<and> (if t = TK_EOS then cs' = [] else length cs' < length cs)"
    by (auto simp: tokens_def runs_def split: option.splits sum.splits)
  have k: "kept_tokens ?ls z" by (rule frame_run [OF llex_keeps_tokens z(1)])
  show "outcome E 0 d j (\<lambda>_. H) y"
  proof (cases z)
    case (Inl err)
    then show ?thesis using e z by (auto simp: lexM_def luaX_lookahead_def gen_defs outcome_def fine_def)
  next
    case (Inr p)
    obtain u s ls' where p: "p = ((u, s), ls')" by (cases p) auto
    obtain cs' where c: "lex_in (pe_rd E) ls' cs'" "if u = TK_EOS then cs' = [] else length cs' < length cs"
      using z(2) Inr p by auto
    let ?ls' = "ls'\<lparr>ls_lookahead := \<lparr>token = u, seminfo = s\<rparr>\<rparr>"
    have y: "y = Inr ((), ps\<lparr>ps_ls := ?ls'\<rparr>)"
      using e z(1) Inr p by (simp add: lexM_def luaX_lookahead_def gen_defs)
    have "lex_in (pe_rd E) ?ls' cs'" using c(1) by (simp add: lex_in_def split: list.splits)
    moreover have "length cs' + pending (ls_t ?ls') + pending (ls_lookahead ?ls') \<le> j"
      using c(2) k cs(2) Inr p by (auto simp: kept_tokens_def pending_def split: if_splits)
    ultimately have "left_to_read E j ?ls'" by (rule left_to_readI)
    then show ?thesis using y ready_lexed [OF r] by (simp add: outcome_def)
  qed
qed

subsection \<open>Tokens\<close>

lemma bindM_assoc: "bindM (bindM m f) g = bindM m (\<lambda>x. bindM (f x) g)"
  by (rule ext) (simp add: bindM_def split: option.splits sum.splits prod.splits)

lemma bindM_ret: "bindM (retM x) f = f x"
  by (rule ext) (simp add: bindM_def retM_def)

text \<open>What follows a step that only fails does not matter.\<close>

lemma does_stop:
  assumes "does E T H 1 k m (\<lambda>_ _. False)"
  shows "does E T H 1 k (bindM m f) Q"
proof -
  have "does E (\<lambda>_. True) (\<lambda>_. False) 0 (k - 1) (f x) Q" for x
    by (simp add: does_def ready_def funcs_ok_def)
  with assms show ?thesis by (rule does_bind1)
qed

lemma check_then:
  assumes "does E (\<lambda>u. u = c) H 1 k m Q"
  shows "does E T H 1 k (thenM (checkM c) m) Q"
proof -
  have "does E (\<lambda>u. u = t) H 1 k (bindM (if t \<noteq> c then error_expected c else retM ()) (\<lambda>_. m)) Q" for t
    using assms by (cases "t = c") (simp_all only: if_True if_False simp_thms bindM_ret does_stop [OF error_expected_law])
  then show ?thesis unfolding thenM_def checkM_def bindM_assoc by (rule does_token)
qed

lemma checknext_eats: "c \<noteq> TK_EOS \<Longrightarrow> does E T H 1 k (checknext E c) (\<lambda>_. H)"
  unfolding checknext_def by (rule check_then, rule nextM_eats) simp

lemma checkM_law [doesI]: "does E T H 0 k (checkM c) (\<lambda>_. H)"
  unfolding checkM_def
  by (rule does_token, split if_split, intro conjI impI error_expected_law does_ret)

lemma testnext_then:
  assumes c: "c \<noteq> TK_EOS"
    and "0 < k \<Longrightarrow> does E (\<lambda>_. True) H 0 (k - 1) (f True) Q" "does E T H 0 k (f False) Q"
  shows "does E T H 0 k (bindM (testnext E c) f) Q"
proof -
  have "does E (\<lambda>u. u = t) H 0 k (bindM (if t = c then thenM (nextM E) (retM True) else retM False) f) Q" if "T t" for t
  proof (cases "t = c")
    case True
    then show ?thesis
      by (simp only: if_True bindM_ret bindM_assoc thenM_def simp_thms)
        (rule does_bind1' [OF nextM_eats], use c assms(2) in simp_all)
  next
    case False
    with that show ?thesis
      by (simp only: if_False bindM_ret) (rule does_weaken [OF assms(3)], simp_all)
  qed
  then show ?thesis unfolding testnext_def bindM_assoc by (rule does_token)
qed

lemma bindM_ret_right: "bindM m retM = m"
  by (rule ext) (auto simp: bindM_def retM_def split: option.split sum.split)

lemma testnext_law [doesI]: "c \<noteq> TK_EOS \<Longrightarrow> does E T H 0 k (testnext E c) (\<lambda>_. H)"
  using testnext_then [of c k E H retM "\<lambda>_. H" T] by (simp add: does_ret bindM_ret_right)

text \<open>Reading a name.\<close>

lemma token_string_law [doesI]: "does E T H 0 k token_string (\<lambda>_. H)"
  unfolding token_string_def
  by (rule does_get) (auto split: SemInfo.split intro: does_ret does_fail simp: fine_def)

lemma token_string_then:
  assumes "\<And>s. does E T H c k (f s) Q"
  shows "does E T H c k (bindM token_string f) Q"
  unfolding token_string_def bindM_assoc
proof (rule does_get)
  fix s
  show "does E T H c k (bindM (case s of SemTs s \<Rightarrow> retM s | _ \<Rightarrow> failM BadAccess) f) Q"
    using assms by (cases s) (simp_all add: bindM_ret, simp_all add: does_def bindM_def failM_def outcome_def fine_def)
qed

lemma checkname_eats: "does E T H 1 k (str_checkname E) (\<lambda>_. H)"
  unfolding str_checkname_def
proof (rule check_then, rule token_string_then)
  fix s
  show "does E (\<lambda>u. u = TK_NAME) H 1 k (thenM (nextM E) (retM s)) (\<lambda>_. H)"
    unfolding thenM_def by (rule does_bind1 [OF nextM_eats]) (simp_all add: TK_NAME_def TK_EOS_def does_ret)
qed

lemma checkname_law [doesI]: "does E T H 0 k (str_checkname E) (\<lambda>_. H)"
  by (rule does_weaken [OF checkname_eats]) simp_all

subsection \<open>The functions being compiled\<close>

lemma does_cur: "(\<And>fp. H fp \<Longrightarrow> does E T H c k (f (g fp)) Q) \<Longrightarrow> does E T H c k (bindM (curM g) f) Q"
  unfolding does_def by (fastforce simp: bindM_def curM_def ready_def funcs_ok_def)

lemma curM_law [doesI]: "does E T H 0 k (curM g) (\<lambda>_. H)"
  unfolding does_def outcome_def by (auto simp: curM_def ready_def funcs_ok_def)

lemma does_setcur: "(\<And>fp. H fp \<Longrightarrow> H' (f fp)) \<Longrightarrow> does E T H 0 k (setcurM f) (\<lambda>_. H')"
  unfolding does_def outcome_def by (auto simp: setcurM_def ready_def funcs_ok_def)

lemma nactvarM_law [doesI]: "does E T H 0 k nactvarM (\<lambda>_. H)"
  unfolding nactvarM_def by (rule curM_law)

lemma freeregM_law [doesI]: "does E T H 0 k freeregM (\<lambda>_. H)"
  unfolding freeregM_def by (rule curM_law)

lemma lineM_law [doesI]: "does E T H 0 k lineM (\<lambda>_. H)"
  unfolding lineM_def by (rule does_getM)

lemma getM_law [doesI]: "does E T H 0 k (getM g) (\<lambda>_. H)"
  by (rule does_getM)

lemma tokenM_law [doesI]: "does E T H 0 k tokenM (\<lambda>_. H)"
  unfolding tokenM_def by (rule does_getM)

lemma growM_law [doesI]: "does E T H 0 k (growM n sz limit msg) (\<lambda>_. H)"
  unfolding growM_def by (auto split: sum.split intro: does_ret does_fail simp: fine_def)

lemma checklimit_law [doesI]: "does E T H 0 k (luaY_checklimit v l m) (\<lambda>_. H)"
  unfolding luaY_checklimit_def by (auto intro: does_ret does_cur does_error)

text \<open>The code generator keeps the invariant of the function it works on.\<close>

lemma does_genM:
  assumes "\<And>fp l x fs. H fp \<Longrightarrow> m ((fp_fs fp)\<lparr>fs_lastline := l\<rparr>) = Some (Inr (x, fs)) \<Longrightarrow> Q x (fp\<lparr>fp_fs := fs\<rparr>)"
  shows "does E T H 0 k (genM m) Q"
  unfolding does_def
proof (intro allI impI)
  fix d j ps y
  assume r: "ready E T H d j ps" and e: "genM m ps = Some y"
  obtain fp fps where fp: "ps_fs ps = fp # fps" "length fps = d" "H fp" "\<forall>f\<in>set fps. fp_ok f"
    using r by (auto simp: ready_def funcs_ok_def)
  let ?fs = "(fp_fs fp)\<lparr>fs_lastline := ls_lastline (ps_ls ps)\<rparr>"
  show "outcome E 0 d j Q y"
  proof (cases "m ?fs")
    case None
    then show ?thesis using e fp(1) by (simp add: genM_def)
  next
    case (Some z)
    show ?thesis
    proof (cases z)
      case (Inl err)
      show ?thesis
      proof (cases "\<exists>msg. err = SyntaxError msg")
        case True
        then obtain msg where "syntaxerrorM msg ps = Some y"
          using e fp(1) Some Inl by (auto simp: genM_def syntaxerrorM_def)
        from doesD [OF does_syntaxerror order_refl r this] show ?thesis .
      next
        case False
        then have "y = Inl (GenStop err)" using e fp(1) Some Inl by (cases err) (auto simp: genM_def)
        then show ?thesis by (simp add: outcome_def fine_def)
      qed
    next
      case (Inr p)
      then obtain x fs where p: "z = Inr (x, fs)" by (cases p) auto
      then have "Q x (fp\<lparr>fp_fs := fs\<rparr>)" using assms [OF fp(3)] Some by blast
      moreover have "y = Inr (x, ps\<lparr>ps_fs := fp\<lparr>fp_fs := fs\<rparr> # fps\<rparr>)"
        using e fp(1) Some p by (simp add: genM_def)
      ultimately show ?thesis using r fp by (auto simp: outcome_def ready_def funcs_ok_def)
    qed
  qed
qed

lemma genM_post:
  assumes "\<And>low. keeps False low m"
    and post: "\<And>low fs x fs'. fs_ok False low fs \<Longrightarrow> m fs = Some (Inr (x, fs')) \<Longrightarrow> P fs'"
  shows "does E T fp_ok 0 k (genM m) (\<lambda>_ fp. fp_ok fp \<and> P (fp_fs fp))"
proof (rule does_genM)
  fix fp l x fs
  assume fp: "fp_ok fp" and e: "m ((fp_fs fp)\<lparr>fs_lastline := l\<rparr>) = Some (Inr (x, fs))"
  have ok: "fs_ok False (max 2 (fp_numparams fp + hasarg fp)) ((fp_fs fp)\<lparr>fs_lastline := l\<rparr>)"
    using fp by (simp add: fp_ok_def fs_ok_def consts_ok_def)
  from keepsD [OF assms(1) ok e] post [OF ok e] fp
  show "fp_ok (fp\<lparr>fp_fs := fs\<rparr>) \<and> P (fp_fs (fp\<lparr>fp_fs := fs\<rparr>))"
    by (simp add: fp_ok_def fp_rest_def hasarg_def)
qed

lemma genM_law [doesI]: "(\<And>low. keeps False low m) \<Longrightarrow> keeping E T 0 k (genM m)"
  using genM_post [of m "\<lambda>_. True"] by simp

end
