(* ===== verification/Parser_Locals.thy ===== *)
theory Parser_Locals
  imports Parser_Laws
begin

text \<open>
  The laws of the parser's functions for local variables, upvalues, blocks and closures.
\<close>

subsection \<open>Rules\<close>

lemma does_post: "does E T H c k m Q \<Longrightarrow> (\<And>x f. Q x f \<Longrightarrow> Q' x f) \<Longrightarrow> does E T H c k m Q'"
  by (erule does_weaken) simp_all

lemma keeping_if [doesI]: "(b \<Longrightarrow> does E T H c k m Q) \<Longrightarrow> (\<not> b \<Longrightarrow> does E T H c k n Q) \<Longrightarrow> does E T H c k (if b then m else n) Q"
  by simp

lemma keeping_prod [doesI]: "(\<And>a b. does E T H c k (f a b) Q) \<Longrightarrow> does E T H c k (case p of (a, b) \<Rightarrow> f a b) Q"
  by (cases p) simp

lemma keeping_option [doesI]:
  "does E T H c k m Q \<Longrightarrow> (\<And>x. does E T H c k (f x) Q) \<Longrightarrow> does E T H c k (case r of None \<Rightarrow> m | Some x \<Rightarrow> f x) Q"
  by (cases r) simp_all

lemma keeping_list [doesI]:
  "does E T H c k m Q \<Longrightarrow> (\<And>x xs. does E T H c k (f x xs) Q) \<Longrightarrow> does E T H c k (case r of [] \<Rightarrow> m | x # xs \<Rightarrow> f x xs) Q"
  by (cases r) simp_all

lemma keeping_sem [doesI]:
  "does E T H c k m Q \<Longrightarrow> (\<And>x. does E T H c k (f x) Q) \<Longrightarrow> (\<And>x. does E T H c k (g x) Q) \<Longrightarrow>
   does E T H c k (case r of SemNone \<Rightarrow> m | SemR x \<Rightarrow> f x | SemTs x \<Rightarrow> g x) Q"
  by (cases r) simp_all

lemma keeping_ret [doesI]: "does E T H 0 k (retM x) (\<lambda>_. H)"
  by (rule does_ret)

lemma keeping_bad [doesI]: "does E T H c k (failM BadAccess) Q"
  by (rule does_fail) (simp add: fine_def)

lemma keeping_when [doesI]: "(b \<Longrightarrow> does E T H 0 k m (\<lambda>_. H)) \<Longrightarrow> does E T H 0 k (whenM b m) (\<lambda>_. H)"
  by (simp add: whenM_def does_ret)

lemma does_then: "does E T H 0 k m (\<lambda>_. P) \<Longrightarrow> does E (\<lambda>_. True) P c k n Q \<Longrightarrow> does E T H c k (thenM m n) Q"
  unfolding thenM_def by (rule does_bind0)

lemma does_step [doesI]:
  "does E T H 0 k m (\<lambda>_. H) \<Longrightarrow> (\<And>x. does E (\<lambda>_. True) H c k (f x) Q) \<Longrightarrow> does E T H c k (bindM m f) Q"
  by (rule does_bind0)

lemma does_step_then [doesI]:
  "does E T H 0 k m (\<lambda>_. H) \<Longrightarrow> does E (\<lambda>_. True) H c k n Q \<Longrightarrow> does E T H c k (thenM m n) Q"
  by (rule does_then)

lemma keeping_seq [doesI]: "does E T H 0 k (seqM []) (\<lambda>_. H)"
  by (simp add: does_ret)

lemma keeping_seq_Cons [doesI]:
  "does E T H 0 k m (\<lambda>_. H) \<Longrightarrow> does E (\<lambda>_. True) H 0 k (seqM ms) Q \<Longrightarrow> does E T H 0 k (seqM (m # ms)) Q"
  by (simp add: does_then)

lemma does_cur_eq:
  "(\<And>v. does E T (\<lambda>fp. H fp \<and> g fp = v) c k (f v) Q) \<Longrightarrow> does E T H c k (bindM (curM g) f) Q"
  unfolding does_def by (fastforce simp: bindM_def curM_def ready_def funcs_ok_def)

lemma checklimit_then:
  assumes "v \<le> l \<Longrightarrow> does E T H c k m Q"
  shows "does E T H c k (thenM (luaY_checklimit v l msg) m) Q"
proof (cases "v > l")
  case True
  have "does E T H c k (bindM (curM (\<lambda>fp. limit_message fp l msg)) (\<lambda>s. bindM (lexM (luaX_lexerror s 0)) (\<lambda>_ :: unit. m))) Q"
  proof (rule does_cur)
    fix fp
    let ?e = "lexM (luaX_lexerror (limit_message fp l msg) 0)"
    have "does E T H c k ?e (\<lambda>_ :: unit. \<lambda>_. False)" by (rule does_error)
    moreover have "does E (\<lambda>_. True) (\<lambda>_. False) 0 j m Q" for j
      by (simp add: does_def ready_def funcs_ok_def)
    ultimately have "does E T H (c + 0) k (bindM ?e (\<lambda>_ :: unit. m)) Q" by (rule does_bind)
    then show "does E T H c k (bindM ?e (\<lambda>_ :: unit. m)) Q" by simp
  qed
  with True show ?thesis by (simp add: luaY_checklimit_def thenM_def bindM_assoc)
next
  case False
  with assms show ?thesis by (simp add: luaY_checklimit_def thenM_def bindM_ret)
qed

subsection \<open>Local variables\<close>

text \<open>Properties of a function that do not depend on its tables of local variables.\<close>

definition no_locals :: "(FuncParse \<Rightarrow> bool) \<Rightarrow> bool" where
  "no_locals H \<longleftrightarrow> (\<forall>fp l z a. H fp \<longrightarrow> H (fp\<lparr>fp_locvars := l\<rparr>) \<and> H (fp\<lparr>fp_sizelocvars := z\<rparr>) \<and> H (fp\<lparr>fp_actvar := a\<rparr>))"

lemma no_locals_fp_ok [simp]: "no_locals fp_ok"
  by (simp add: no_locals_def fp_defs)

lemma no_locals_conj: "no_locals H \<Longrightarrow> no_locals (\<lambda>fp. H fp \<and> P (fs_nactvar (fp_fs fp)))"
  by (simp add: no_locals_def)

lemma registerlocalvar_law [doesI]: "no_locals H \<Longrightarrow> does E T H 0 k (registerlocalvar name) (\<lambda>_. H)"
  unfolding registerlocalvar_def
  by (intro doesI does_setcur) (metis no_locals_def FuncParse.surjective FuncParse.update_convs)

lemma set_actvar_law [doesI]: "no_locals H \<Longrightarrow> does E T H 0 k (set_actvar i v) (\<lambda>_. H)"
  unfolding set_actvar_def by (intro doesI does_setcur) (simp add: no_locals_def)

lemma new_localvar_adds:
  assumes "no_locals H"
  shows "does E T H 0 k (new_localvar name n) (\<lambda>_ fp. H fp \<and> fs_nactvar (fp_fs fp) + n + 1 \<le> LUAI_MAXVARS)"
  unfolding new_localvar_def nactvarM_def
proof (rule does_cur_eq, rule checklimit_then)
  fix v
  assume v: "v + n + 1 \<le> LUAI_MAXVARS"
  have nl: "no_locals (\<lambda>fp. H fp \<and> fs_nactvar (fp_fs fp) = v)" by (rule no_locals_conj [OF assms])
  show "does E T (\<lambda>fp. H fp \<and> fs_nactvar (fp_fs fp) = v) 0 k (bindM (registerlocalvar name) (set_actvar (v + n)))
      (\<lambda>_ fp. H fp \<and> fs_nactvar (fp_fs fp) + n + 1 \<le> LUAI_MAXVARS)"
    by (rule does_weaken [where T = T and c = 0 and Q = "\<lambda>_ fp. H fp \<and> fs_nactvar (fp_fs fp) = v"], rule does_step,
        rule registerlocalvar_law [OF nl], rule set_actvar_law [OF nl]) (use v in simp_all)
qed

lemma new_localvar_law [doesI]: "no_locals H \<Longrightarrow> does E T H 0 k (new_localvar name n) (\<lambda>_. H)"
  by (rule does_post [OF new_localvar_adds]) simp_all

lemma new_localvarliteral_adds:
  "no_locals H \<Longrightarrow> does E T H 0 k (new_localvarliteral v n) (\<lambda>_ fp. H fp \<and> fs_nactvar (fp_fs fp) + n + 1 \<le> LUAI_MAXVARS)"
  unfolding new_localvarliteral_def by (rule does_step [OF newstring_law], rule new_localvar_adds)

lemma new_localvarliteral_law [doesI]: "no_locals H \<Longrightarrow> does E T H 0 k (new_localvarliteral v n) (\<lambda>_. H)"
  by (rule does_post [OF new_localvarliteral_adds]) simp_all

lemma upd_locvar_law [doesI]: "no_locals H \<Longrightarrow> does E T H 0 k (upd_locvar i f) (\<lambda>_. H)"
  unfolding upd_locvar_def by (intro doesI does_setcur) (simp add: no_locals_def)

lemma mark_start_law [doesI]: "no_locals H \<Longrightarrow> does E T H 0 k (mark_start n) (\<lambda>_. H)"
proof (induction n arbitrary: T)
  case (Suc n)
  show ?case unfolding mark_start.simps
    by (intro doesI Suc.IH Suc.prems)
qed (simp add: does_ret)

lemma adjustlocalvars_adds:
  assumes "no_locals H'" "\<And>fp. H fp \<Longrightarrow> H' (fp\<lparr>fp_fs := (fp_fs fp)\<lparr>fs_nactvar := (fs_nactvar (fp_fs fp) + n) mod 256\<rparr>\<rparr>)"
  shows "does E T H 0 k (adjustlocalvars n) (\<lambda>_. H')"
  unfolding adjustlocalvars_def
  by (rule does_then, rule does_setcur, rule assms(2), assumption, rule mark_start_law [OF assms(1)])

lemma adjustlocalvars_law [doesI]: "keeping E T 0 k (adjustlocalvars n)"
  by (rule adjustlocalvars_adds) (simp_all add: fp_defs fs_ok_def consts_ok_def)

text \<open>A loop that is the limit of its approximations.\<close>

lemma does_step_limit:
  "(\<And>ps y d j. j \<le> k \<Longrightarrow> ready E T H d j ps \<Longrightarrow> m ps = Some y \<Longrightarrow> outcome E c d j Q y) \<Longrightarrow> does E T H c k m Q"
  by (simp add: does_def)

lemma removevars_law [doesI]: "keeping E T 0 k (removevars l)"
proof (rule does_step_limit)
  fix ps y d j
  assume r: "ready E T fp_ok d j ps" and e: "removevars l ps = Some y"
  have "\<forall>T d j. ready E T fp_ok d j ps \<longrightarrow> outcome E 0 d j (\<lambda>_. fp_ok) y"
  proof (rule removevars.raw_induct [where P = "\<lambda>l ps y. \<forall>T d j. ready E T fp_ok d j ps \<longrightarrow> outcome E 0 d j (\<lambda>_. fp_ok) y", OF _ e])
    fix f l ps y
    assume IH: "\<And>l ps y. f l ps = Some y \<Longrightarrow> \<forall>T d j. ready E T fp_ok d j ps \<longrightarrow> outcome E 0 d j (\<lambda>_. fp_ok) y"
      and e: "bindM (curM (\<lambda>fp. (fs_nactvar (fp_fs fp), fs_pc (fp_fs fp)))) (\<lambda>(na, pc).
       if na > l then
         thenM (setcurM (\<lambda>fp. fp\<lparr>fp_fs := (fp_fs fp)\<lparr>fs_nactvar := na - 1\<rparr>\<rparr>))
           (thenM (upd_locvar (na - 1) (\<lambda>v. v\<lparr>endpc := pc\<rparr>)) (f l))
       else retM ()) ps = Some y" (is "?m ps = Some y")
    have "keeping E T 0 k (f l)" for T k using IH by (simp add: does_def)
    then have "keeping E T 0 k ?m" for T k
      by (intro doesI does_setcur no_locals_fp_ok) (simp_all add: fp_defs fs_ok_def consts_ok_def)
    with e show "\<forall>T d j. ready E T fp_ok d j ps \<longrightarrow> outcome E 0 d j (\<lambda>_. fp_ok) y"
      by (auto dest: doesD)
  qed
  with r show "outcome E 0 d j (\<lambda>_. fp_ok) y" by blast
qed

subsection \<open>Upvalues\<close>

lemma indexupvalue_ok: "indexupvalue fp name v = Inr (i, fp') \<Longrightarrow> fp_ok fp \<Longrightarrow> fp_ok fp'"
  by (auto simp: indexupvalue_def Let_def fp_defs LUAI_MAXUPVALUES_def split: option.splits if_splits sum.splits)

lemma markupval_ok: "fp_ok fp \<Longrightarrow> fp_ok (markupval fp l)"
  by (simp add: markupval_def fp_defs)

lemma singlevaraux_ok:
  "singlevaraux fps n base = Inr (var, fps') \<Longrightarrow> \<forall>f\<in>set fps. fp_ok f \<Longrightarrow>
   length fps' = length fps \<and> (\<forall>f\<in>set fps'. fp_ok f)"
  by (induction fps n base arbitrary: var fps' rule: singlevaraux.induct)
    (fastforce split: option.splits if_splits sum.splits prod.splits dest: indexupvalue_ok intro: markupval_ok)+

lemma singlevarM_law [doesI]: "keeping E T 0 k (singlevarM n)"
proof (rule does_step_limit)
  fix ps y d j
  assume r: "ready E T fp_ok d j ps" and e: "singlevarM n ps = Some y"
  obtain fp fps where fp: "ps_fs ps = fp # fps" "length fps = d" "\<forall>f\<in>set (ps_fs ps). fp_ok f"
    using r by (auto simp: ready_def funcs_ok_def)
  show "outcome E 0 d j (\<lambda>_. fp_ok) y"
  proof (cases "singlevaraux (ps_fs ps) n True")
    case (Inl err)
    show ?thesis
    proof (cases err)
      case (UpLimit msg)
      then have "lexM (luaX_lexerror msg 0) ps = Some y" using e Inl by (simp add: singlevarM_def)
      from doesD [OF does_error order_refl r this] show ?thesis .
    qed (use e Inl in \<open>auto simp: singlevarM_def outcome_def fine_def\<close>)
  next
    case (Inr p)
    obtain var fps' where p: "p = (var, fps')" by (cases p)
    from singlevaraux_ok [of "ps_fs ps" n True var fps'] Inr p fp
    have "length fps' = Suc d" "\<forall>f\<in>set fps'. fp_ok f" by auto
    then have "funcs_ok fp_ok d fps'" by (cases fps') (auto simp: funcs_ok_def)
    then show ?thesis using e Inr p r by (auto simp: singlevarM_def outcome_def ready_def)
  qed
qed

lemma stringK_law [doesI]: "keeping E T 0 k (genM (luaK_stringK s))"
  by (intro doesI keepsI)

lemma codestring_law [doesI]: "keeping E T 0 k (codestring s)"
  unfolding codestring_def by (intro doesI)

lemma expname_law [doesI]: "keeping E T 0 k (checkname E)"
  unfolding checkname_def by (intro doesI)

lemma singlevar_eats: "keeping E T 1 k (singlevar E)"
  unfolding singlevar_def by (rule does_bind1 [OF checkname_eats], intro doesI)

lemma singlevar_law [doesI]: "keeping E T 0 k (singlevar E)"
  by (rule keeping_eats [OF singlevar_eats])

subsection \<open>Blocks\<close>

lemma setcur_law: "(\<And>fp. fp_ok fp \<Longrightarrow> fp_ok (f fp)) \<Longrightarrow> keeping E T 0 k (setcurM f)"
  by (rule does_setcur)

lemma state_law: "(\<And>ps. ps_ls (f ps) = ps_ls ps \<and> ps_fs (f ps) = ps_fs ps) \<Longrightarrow> does E T H 0 k (modM f) (\<lambda>_. H)"
  by (auto simp: does_def modM_def outcome_def ready_def)

lemma level_laws [doesI]: "does E T H 0 k enterlevel (\<lambda>_. H)" "does E T H 0 k leavelevel (\<lambda>_. H)"
  unfolding enterlevel_def leavelevel_def by (intro doesI state_law; simp)+

lemma enterblock_law [doesI]: "keeping E T 0 k (enterblock b)"
  unfolding enterblock_def by (rule setcur_law) (simp add: fp_defs)

lemma set_freereg_law [doesI]: "keeping E T 0 k (set_freereg r)"
  unfolding set_freereg_def by (intro doesI keepsI)

lemma leaveblock_law [doesI]: "keeping E T 0 k leaveblock"
  unfolding leaveblock_def by (intro doesI keepsI setcur_law) (simp add: fp_defs)

subsection \<open>Functions\<close>

lemma return_instr: "is_op (CREATE_ABC (of_OpCode OP_RETURN) 0 1 0) OP_RETURN"
  by (simp add: is_op_def create_abc_fields lua_defs)

definition closed :: "FuncState \<Rightarrow> bool" where
  "closed fs \<longleftrightarrow> 0 < fs_pc fs \<and> nat (fs_pc fs) \<le> length (fs_code fs) \<and> is_op (fs_code fs ! nat (fs_pc fs - 1)) OP_RETURN"

lemma code_last:
  assumes "luaK_code i line fs = Some (Inr (x, fs'))" "fs_ok False low fs"
  shows "0 < fs_pc fs' \<and> nat (fs_pc fs') \<le> length (fs_code fs') \<and> fs_code fs' ! nat (fs_pc fs' - 1) = i"
proof -
  obtain fs1 where d: "dischargejpc fs = Some (Inr ((), fs1))"
    using assms(1) by (auto simp: luaK_code_def thenM_def bindM_def split: option.splits sum.splits)
  have "fs_ok False low fs1" by (rule keepsD [OF keeps_labels(2) assms(2) d])
  then have "nat (fs_pc fs1) \<le> length (fs_code fs1)" by (simp add: fs_ok_def)
  with assms(1) d show ?thesis
    by (auto simp: luaK_code_def gen_defs putcell_def nth_append nat_le_iff nat_add_distrib split: if_splits sum.splits)
qed

lemma final_return: "luaK_ret 0 0 fs = Some (Inr (x, fs')) \<Longrightarrow> fs_ok False low fs \<Longrightarrow> closed fs'"
  using code_last [of _ _ fs _ fs' low] return_instr
  by (auto simp: luaK_ret_def luaK_codeABC_def thenM_def bindM_def getM_def retM_def closed_def
      split: option.splits sum.splits)

lemma proto_of_ok:
  assumes "fp_ok fp" "closed (fp_fs fp)"
  shows "parsed_ok (proto_of fp)"
proof -
  let ?fs = "fp_fs fp" and ?p = "proto_of fp"
  have n: "uint (word_of_int (fp_numparams fp) :: u8) = fp_numparams fp"
    using assms(1) by (simp add: fp_defs uint_word_of_int)
  have m: "uint (word_of_int (fs_maxstack ?fs) :: u8) = fs_maxstack ?fs"
    using assms(1) by (simp add: fp_defs fs_ok_def K_MAXSTACK_def uint_word_of_int)
  have u: "uint (of_nat (length (fp_upvalues fp)) :: u8) = int (length (fp_upvalues fp))"
    using assms(1) by (simp add: fp_defs LUAI_MAXUPVALUES_def unsigned_of_nat take_bit_nat_eq_self_iff)
  have c: "length (take (nat (fs_pc ?fs)) (fs_code ?fs)) = nat (fs_pc ?fs)"
    "length (take (nat (fs_pc ?fs)) (fs_lineinfo ?fs)) = nat (fs_pc ?fs)"
    using assms by (simp_all add: closed_def fp_ok_def fs_ok_def)
  have "precheck ?p"
    using assms n m u c
    by (auto simp: precheck_def proto_of_def Let_def maxstack_def proto_sizes LUAI_MAXSTACK_def closed_def fp_ok_def
        fp_rest_def fs_ok_def K_MAXSTACK_def hasarg_def)
  then show ?thesis
    using assms(1) m u c by (simp add: proto_of_def Let_def fp_ok_def fp_rest_def fs_ok_def)
qed

lemma anchor_law [doesI]: "does E T H 0 k anchor_token (\<lambda>_. H)"
  unfolding anchor_token_def by (intro doesI)

lemma closing_law: "does E T fp_ok 0 k (thenM (removevars 0) (genM (luaK_ret 0 0))) (\<lambda>_ fp. fp_ok fp \<and> closed (fp_fs fp))"
  by (rule does_step_then [OF removevars_law], rule genM_post, intro keepsI, rule final_return)

text \<open>Closing a function gives it finished, and leaves the enclosing one.\<close>

lemma close_func_run:
  assumes r: "ready E T fp_ok d j ps" and e: "close_func ps = Some y"
  shows "case y of Inl e \<Rightarrow> fine e
    | Inr (fp, ps') \<Rightarrow> parsed_ok (proto_of fp) \<and> left_to_read E j (ps_ls ps') \<and>
        length (ps_fs ps') = d \<and> (\<forall>f\<in>set (ps_fs ps'). fp_ok f)"
proof -
  let ?m = "thenM (removevars 0) (genM (luaK_ret 0 0))"
  let ?pop = "\<lambda>fp ps. ps\<lparr>ps_fs := tl (ps_fs ps), ps_ls := (ps_ls ps)\<lparr>ls_h := fp_outer_strings fp\<rparr>\<rparr>"
  let ?tail = "bindM (curM (\<lambda>fp. fp)) (\<lambda>fp. thenM (modM (?pop fp)) (thenM anchor_token (retM fp)))"
  have e': "bindM ?m (\<lambda>_. ?tail) ps = Some y"
    using e unfolding close_func_def thenM_def bindM_assoc .
  show ?thesis
  proof (cases "?m ps")
    case None
    then show ?thesis using e' by (simp add: bindM_def)
  next
    case (Some z)
    note o = doesD [OF closing_law order_refl r Some]
    show ?thesis
    proof (cases z)
      case (Inl err)
      then show ?thesis using e' o Some by (auto simp: bindM_def outcome_def)
    next
      case (Inr p)
      then obtain ps1 where p: "z = Inr ((), ps1)" by (cases p) auto
      with o have r1: "left_to_read E j (ps_ls ps1)" "funcs_ok (\<lambda>fp. fp_ok fp \<and> closed (fp_fs fp)) d (ps_fs ps1)"
        by (simp_all add: outcome_def ready_def)
      then obtain fp fps where fp: "ps_fs ps1 = fp # fps" "length fps = d" "fp_ok fp" "closed (fp_fs fp)"
        "\<forall>f\<in>set fps. fp_ok f" by (auto simp: funcs_ok_def)
      let ?ps2 = "?pop fp ps1"
      have l2: "left_to_read E j (ps_ls ?ps2)"
        using r1(1) by (auto simp: left_to_read_def lex_in_def split: list.splits)
      have t: "thenM anchor_token (retM fp) ?ps2 = Some y"
        using e' Some p fp(1) by (simp add: bindM_def curM_def thenM_def modM_def)
      show ?thesis
        using t l2 fp proto_of_ok [OF fp(3,4)]
        by (auto simp: anchor_token_def thenM_def bindM_def getM_def retM_def failM_def lexM_def luaX_newstring_def modM_def
            fine_def left_to_read_def lex_in_def
            split: if_splits SemInfo.splits list.splits)
    qed
  qed
qed

text \<open>The whole of a nested function: what it is compiled by, and what is done with it.\<close>

definition fresh :: "FuncParse \<Rightarrow> bool" where
  "fresh fp \<longleftrightarrow> fp_ok fp \<and> fp_numparams fp = 0 \<and> fs_nactvar (fp_fs fp) = 0 \<and> fs_freereg (fp_fs fp) = 0"

lemma nested_func:
  assumes inner: "does E (\<lambda>_. True) fresh 1 k inner (\<lambda>_. fp_ok)"
    and rest: "\<And>fp. parsed_ok (proto_of fp) \<Longrightarrow> keeping E (\<lambda>_. True) 0 (k - 1) (f fp)"
  shows "keeping E T 1 k (thenM (open_func src) (thenM inner (bindM close_func f)))"
  unfolding does_def
proof (intro allI impI)
  fix d j ps y
  assume jk: "j \<le> k" and r: "ready E T fp_ok d j ps" and e: "thenM (open_func src) (thenM inner (bindM close_func f)) ps = Some y"
  obtain ps1 where o: "open_func src ps = Some (Inr ((), ps1))" by (simp add: open_func_def modM_def)
  have "fs_ok False 2 empty_FuncState"
    by (simp add: fs_ok_def consts_ok_def empty_FuncState_def K_MAXSTACK_def)
  then have r1: "ready E (\<lambda>_. True) fresh (Suc d) j ps1"
    using o r by (auto simp: open_func_def modM_def ready_def funcs_ok_def fresh_def fp_defs empty_FuncState_def
        LUAI_MAXUPVALUES_def left_to_read_def lex_in_def split: list.splits)
  from e o have e1: "bindM inner (\<lambda>_. bindM close_func f) ps1 = Some y" by (simp add: thenM_def bindM_def)
  show "outcome E 1 d j (\<lambda>_. fp_ok) y"
  proof (cases "inner ps1")
    case None
    then show ?thesis using e1 by (simp add: bindM_def)
  next
    case (Some z)
    note oi = doesD [OF inner jk r1 Some]
    show ?thesis
    proof (cases z)
      case (Inl err)
      then show ?thesis using e1 oi Some by (auto simp: bindM_def outcome_def)
    next
      case (Inr p)
      then obtain u ps2 where p: "z = Inr (u, ps2)" by (cases p) auto
      with oi have r2: "1 \<le> j" "ready E (\<lambda>_. True) fp_ok (Suc d) (j - 1) ps2" by (simp_all add: outcome_def)
      from e1 Some p have e2: "bindM close_func f ps2 = Some y" by (simp add: bindM_def)
      show ?thesis
      proof (cases "close_func ps2")
        case None
        then show ?thesis using e2 by (simp add: bindM_def)
      next
        case (Some w)
        note oc = close_func_run [OF r2(2) Some]
        show ?thesis
        proof (cases w)
          case (Inl err)
          then show ?thesis using e2 oc Some by (auto simp: bindM_def outcome_def)
        next
          case (Inr q)
          then obtain fp ps3 where q: "w = Inr (fp, ps3)" by (cases q) auto
          with oc have c: "parsed_ok (proto_of fp)" "ready E (\<lambda>_. True) fp_ok d (j - 1) ps3"
            by (auto simp: ready_def funcs_ok_def length_Suc_conv)
          have "f fp ps3 = Some y" using e2 Some q by (simp add: bindM_def)
          with doesD [OF rest [OF c(1)] _ c(2)] jk have "outcome E 0 d (j - 1) (\<lambda>_. fp_ok) y" by simp
          then show ?thesis using r2(1) by (auto simp: outcome_def split: sum.splits)
        qed
      qed
    qed
  qed
qed

lemma close_upvalues_law [doesI]: "keeping E T 0 k (close_upvalues us)"
proof (induction us arbitrary: T)
  case (Cons u us)
  obtain kind info where u: "u = (kind, info)" by (cases u)
  show ?case unfolding u close_upvalues.simps by (intro doesI keepsI Cons.IH)
qed (simp add: does_ret)

lemma pushclosure_law: "parsed_ok (proto_of fp) \<Longrightarrow> keeping E T 0 k (pushclosure fp)"
  unfolding pushclosure_def by (intro doesI keepsI setcur_law) (auto simp: fp_defs)

subsection \<open>Parameters\<close>

text \<open>The state of a function whose first \<open>n\<close> new variables are parameters.\<close>

definition collecting :: "int \<Rightarrow> FuncParse \<Rightarrow> bool" where
  "collecting n fp \<longleftrightarrow> fp_ok fp \<and> fp_numparams fp = 0 \<and> fs_freereg (fp_fs fp) = 0 \<and> 0 \<le> n \<and>
     0 \<le> fs_nactvar (fp_fs fp) \<and> fs_nactvar (fp_fs fp) + n \<le> LUAI_MAXVARS \<and>
     (fp_is_vararg fp AND VARARG_HASARG \<noteq> 0 \<longrightarrow> 1 \<le> n)"

lemma no_locals_collecting [simp]: "no_locals (collecting n)"
  by (auto simp: no_locals_def collecting_def fp_defs)

lemma collecting_adds:
  "collecting n fp \<and> fs_nactvar (fp_fs fp) + n + 1 \<le> LUAI_MAXVARS \<Longrightarrow> collecting (n + 1) fp \<and> 0 \<le> n"
  by (auto simp: collecting_def)

lemma vararg_flags: "(5 :: u8) AND 1 = 1" "(5 :: u8) AND 4 = 4" "(1 :: u8) OR 4 = 5" "(2 :: u8) AND 1 = 0" "(2 :: u8) AND 4 = 0"
  by code_simp+

lemma isvararg_flag:
  "(va OR VARARG_ISVARARG) AND VARARG_HASARG = va AND VARARG_HASARG"
  "(va OR VARARG_ISVARARG) AND VARARG_NEEDSARG = va AND VARARG_NEEDSARG"
  by (simp_all only: VARARG_HASARG_def VARARG_NEEDSARG_def VARARG_ISVARARG_def bit.conj_disj_distrib2 vararg_flags or.right_neutral)

lemma needsarg_flag:
  "(va AND NOT VARARG_NEEDSARG) AND VARARG_HASARG = va AND VARARG_HASARG"
  "(va AND NOT VARARG_NEEDSARG) AND VARARG_NEEDSARG = 0"
proof -
  have "NOT (4 :: u8) AND 1 = 1" "NOT (4 :: u8) AND 4 = 0" by code_simp+
  then show "(va AND NOT VARARG_NEEDSARG) AND VARARG_HASARG = va AND VARARG_HASARG"
    "(va AND NOT VARARG_NEEDSARG) AND VARARG_NEEDSARG = 0"
    by (simp_all only: VARARG_HASARG_def VARARG_NEEDSARG_def and.assoc and_zero_eq)
qed

lemma param_adds: "does E T (collecting n) 0 k (param E n) (\<lambda>_. collecting (n + 1))"
proof -
  let ?va = "\<lambda>fp. fp\<lparr>fp_is_vararg := VARARG_HASARG OR VARARG_NEEDSARG\<rparr>"
  let ?vb = "\<lambda>fp. fp\<lparr>fp_is_vararg := fp_is_vararg fp OR VARARG_ISVARARG\<rparr>"
  let ?H = "\<lambda>fp. collecting (n + 1) fp \<and> 0 \<le> n"
  have new: "does E T (collecting n) 0 k (new_localvar name n) (\<lambda>_. ?H)"
    "does E T (collecting n) 0 k (new_localvarliteral name n) (\<lambda>_. ?H)" for T name
    by (rule does_post [OF new_localvar_adds] does_post [OF new_localvarliteral_adds], simp, erule collecting_adds)+
  have a: "?H fp \<Longrightarrow> collecting (n + 1) (?va fp)" for fp
    by (auto simp: collecting_def fp_defs VARARG_HASARG_def VARARG_NEEDSARG_def fs_ok_def vararg_flags)
  have b: "collecting (n + 1) fp \<Longrightarrow> collecting (n + 1) (?vb fp)" for fp
    by (auto simp: collecting_def fp_defs isvararg_flag)
  have dots: "does E T (collecting n) 0 k (seqM [nextM E, new_localvarliteral ''arg'' n, setcurM ?va, setcurM ?vb])
      (\<lambda>_. collecting (n + 1))" for T
    unfolding seqM.simps
    by (rule does_then [OF nextM_law], rule does_then [OF new(2)], rule does_then, rule does_setcur, erule a,
        rule does_then, rule does_setcur, erule b, rule keeping_ret)
  have name: "does E T (collecting n) 0 k (bindM (str_checkname E) (\<lambda>name. new_localvar name n)) (\<lambda>_. collecting (n + 1))" for T
    by (rule does_step [OF checkname_law], rule does_post [OF new(1)]) simp
  show ?thesis
    unfolding param_def by (intro does_token keeping_if dots name does_syntaxerror)
qed

lemma more_params:
  "does E T (collecting n) 0 k (bindM (curM fp_is_vararg) (\<lambda>v. if v = 0 then testnext E (tok (CHR '','')) else retM False))
     (\<lambda>_. collecting n)"
  by (intro doesI) (simp add: TK_EOS_def)

lemma params_collect: "does E T (collecting n) 0 k (params E n) collecting"
proof (rule does_step_limit)
  fix ps y d j
  assume r: "ready E T (collecting n) d j ps" and e: "params E n ps = Some y"
  have "\<forall>T d j. ready E T (collecting n) d j ps \<longrightarrow> outcome E 0 d j collecting y"
  proof (rule params.raw_induct [where P = "\<lambda>E n ps y. \<forall>T d j. ready E T (collecting n) d j ps \<longrightarrow> outcome E 0 d j collecting y", OF _ e])
    fix f E n ps y
    assume IH: "\<And>n s b y. f n s b = Some y \<Longrightarrow> \<forall>T d j. ready n T (collecting s) d j b \<longrightarrow> outcome n 0 d j collecting y"
      and e: "thenM (param E n)
       (bindM (bindM (curM fp_is_vararg) (\<lambda>v. if v = 0 then testnext E (tok (CHR '','')) else retM False)) (\<lambda>more.
        if more then f E (n + 1) else retM (n + 1))) ps = Some y" (is "?m ps = Some y")
    have f: "does E T (collecting (n + 1)) 0 k (f E (n + 1)) collecting" for T k using IH by (simp add: does_def)
    have "does E T (collecting n) 0 k ?m collecting" for T k
      by (rule does_then [OF param_adds], rule does_bind0 [OF more_params], intro keeping_if f does_ret)
    with e show "\<forall>T d j. ready E T (collecting n) d j ps \<longrightarrow> outcome E 0 d j collecting y"
      by (auto dest: doesD)
  qed
  with r show "outcome E 0 d j collecting y" by blast
qed

definition starting :: "FuncParse \<Rightarrow> bool" where
  "starting fp \<longleftrightarrow> fp_ok fp \<and> fp_numparams fp = 0 \<and> fs_freereg (fp_fs fp) = 0 \<and>
     0 \<le> fs_nactvar (fp_fs fp) \<and> fs_nactvar (fp_fs fp) \<le> 1"

definition counted :: "FuncParse \<Rightarrow> bool" where
  "counted fp \<longleftrightarrow> fp_ok fp \<and> fp_numparams fp = 0 \<and> fs_freereg (fp_fs fp) = 0 \<and>
     0 \<le> fs_nactvar (fp_fs fp) \<and> fs_nactvar (fp_fs fp) \<le> LUAI_MAXVARS \<and>
     (fp_is_vararg fp AND VARARG_HASARG \<noteq> 0 \<longrightarrow> 1 \<le> fs_nactvar (fp_fs fp))"

definition reserving :: "FuncParse \<Rightarrow> bool" where
  "reserving fp \<longleftrightarrow> fp_rest fp \<and> fs_ok False 2 (fp_fs fp) \<and> fs_freereg (fp_fs fp) = 0 \<and>
     fp_numparams fp + hasarg fp = fs_nactvar (fp_fs fp)"

lemma count_params: "does E T (collecting n) 0 k (adjustlocalvars n) (\<lambda>_. counted)"
proof (rule adjustlocalvars_adds)
  show "no_locals counted" by (auto simp: no_locals_def counted_def fp_defs)
  fix fp
  assume "collecting n fp"
  then show "counted (fp\<lparr>fp_fs := (fp_fs fp)\<lparr>fs_nactvar := (fs_nactvar (fp_fs fp) + n) mod 256\<rparr>\<rparr>)"
    by (auto simp: collecting_def counted_def fp_defs fs_ok_def consts_ok_def LUAI_MAXVARS_def)
qed

lemma hasarg_bit: "hasarg fp = (if fp_is_vararg fp AND VARARG_HASARG = 0 then 0 else 1)"
proof -
  have "uint (fp_is_vararg fp AND 1) = uint (fp_is_vararg fp) mod 2"
    by (simp only: uint_and uint_1) (simp only: and_one_eq)
  then have "uint (fp_is_vararg fp AND 1) \<in> {0, 1}" by auto
  then show ?thesis by (auto simp: hasarg_def VARARG_HASARG_def uint_0_iff)
qed

lemma set_numparams: "counted fp \<Longrightarrow>
  reserving (fp\<lparr>fp_numparams := (fs_nactvar (fp_fs fp) - uint (fp_is_vararg fp AND VARARG_HASARG)) mod 256\<rparr>)"
  using hasarg_bit [of fp]
  by (auto simp: counted_def reserving_def fp_defs LUAI_MAXVARS_def fs_ok_def split: if_splits)

lemma reserve_params: "does E T reserving 0 k (bindM nactvarM (\<lambda>n. genM (luaK_reserveregs n))) (\<lambda>_. fp_ok)"
  unfolding nactvarM_def
proof (rule does_cur_eq, rule does_genM, elim conjE)
  fix n fp l x fs
  assume r: "reserving fp" "fs_nactvar (fp_fs fp) = n" "luaK_reserveregs n ((fp_fs fp)\<lparr>fs_lastline := l\<rparr>) = Some (Inr (x, fs))"
  have "fs_ok False 2 ((fp_fs fp)\<lparr>fs_lastline := l\<rparr>)" using r(1) by (simp add: reserving_def fs_ok_def consts_ok_def)
  from keepsD [OF keeps_reserve this r(3)] have ok: "fs_ok False 2 fs" .
  have "n \<le> fs_maxstack fs"
    using r by (auto simp: reserving_def luaK_reserveregs_def luaK_checkstack_def gen_defs fs_ok_def K_MAXSTACK_def split: if_splits)
  with ok r(1,2) show "fp_ok (fp\<lparr>fp_fs := fs\<rparr>)" by (auto simp: fp_defs reserving_def fs_ok_def)
qed

lemma parlist_law: "does E T starting 0 k (parlist E) (\<lambda>_. fp_ok)"
proof -
  have s: "starting fp \<Longrightarrow> collecting 0 (fp\<lparr>fp_is_vararg := 0\<rparr>)" for fp
    by (auto simp: starting_def collecting_def fp_defs LUAI_MAXVARS_def fs_ok_def)
  have names: "does E T (collecting 0) 0 k (if t \<noteq> tok (CHR '')'') then params E 0 else retM 0) collecting" for T t
    by (intro keeping_if params_collect does_ret) simp
  show ?thesis
    unfolding parlist_def seqM.simps
    by (rule does_then, rule does_setcur, erule s, rule does_bind0 [OF tokenM_law], rule does_bind0 [OF names],
        rule does_then [OF count_params], rule does_then, rule does_setcur, erule set_numparams,
        rule does_then [OF reserve_params], rule keeping_ret)
qed

lemma self_law: "does E T fresh 0 k (whenM b (thenM (new_localvarliteral ''self'' 0) (adjustlocalvars 1))) (\<lambda>_. starting)"
proof -
  have nl: "no_locals fresh" "no_locals starting" by (auto simp: no_locals_def fresh_def starting_def fp_defs)
  have "does E T fresh 0 k (adjustlocalvars 1) (\<lambda>_. starting)" for T
    by (rule adjustlocalvars_adds [OF nl(2)]) (auto simp: fresh_def starting_def fp_defs fs_ok_def consts_ok_def)
  then show ?thesis
    by (cases b) (auto simp: whenM_def fresh_def starting_def intro!: does_ret does_then [OF new_localvarliteral_law [OF nl(1)]])
qed

subsection \<open>Other helpers\<close>

lemma check_match_law [doesI]: "what \<noteq> TK_EOS \<Longrightarrow> does E T H 0 k (check_match E what who line) (\<lambda>_. H)"
  unfolding check_match_def by (intro doesI)

lemma exp2nextreg_law [doesI]: "keeping E T 0 k (genM (luaK_exp2nextreg e))"
  by (intro doesI keepsI)

lemma adjust_assign_law [doesI]: "keeping E T 0 k (adjust_assign nvars nexps e)"
  unfolding adjust_assign_def Let_def by (intro doesI keepsI)

lemma set_code_law [doesI]: "keeping E T 0 k (set_code e f)"
  unfolding set_code_def by (intro doesI keepsI)

lemma store_top_law [doesI]: "keeping E T 0 k (store_top e)"
  unfolding store_top_def by (intro doesI keepsI)

lemma closelistfield_law [doesI]: "keeping E T 0 k (closelistfield cc)"
  unfolding closelistfield_def Let_def by (intro doesI keepsI)

lemma lastlistfield_law [doesI]: "keeping E T 0 k (lastlistfield cc)"
  unfolding lastlistfield_def by (intro doesI keepsI)

lemma check_conflict_law [doesI]: "keeping E T 0 k (check_conflict lhs v)"
  unfolding check_conflict_def by (intro doesI keepsI)

lemma breakstat_law [doesI]: "keeping E T 0 k breakstat"
  unfolding breakstat_def by (intro doesI keepsI setcur_law) (simp add: fp_defs)

end
