(* ===== verification/Parser_Runs.thy ===== *)
theory Parser_Runs
  imports Parser_Locals
begin

text \<open>
  The laws of the grammar, and what they give for the whole parser: with enough fuel for the
  length of its input it never runs out of it, it stays within the lexer's memory, and the
  prototype it returns passes the first checks of the bytecode checker.
\<close>

declare One_nat_def [simp del]

subsection \<open>The calls of the grammar\<close>

definition calls_ok :: "'d penv \<Rightarrow> nat \<Rightarrow> 'd grammar \<Rightarrow> bool" where
  "calls_ok E k g \<longleftrightarrow>
     (\<forall>T. keeping E T 0 k (g_chunk g) \<and> keeping E T 0 k (g_statements g) \<and>
        (\<forall>l. keeping E T 0 k (g_subexpr g l)) \<and> (\<forall>n v. keeping E T 0 k (g_explist g n v)) \<and>
        (\<forall>v. keeping E T 0 k (g_suffixes g v)) \<and> (\<forall>cc. keeping E T 0 k (g_fields g cc)) \<and>
        (\<forall>lhs n. keeping E T 0 k (g_assignment g lhs n)) \<and> (\<forall>e f. keeping E T 0 k (g_elseif g e f))) \<and>
     (\<forall>l v op. keeping E (\<lambda>t. getbinopr t = op) 0 k (g_operators g l v op))"

lemma calls_less: "calls_ok E k g \<Longrightarrow> j \<le> k \<Longrightarrow> calls_ok E j g"
  unfolding calls_ok_def by (meson does_less)

lemma calls_pred: "calls_ok E k g \<Longrightarrow> calls_ok E (k - 1) g"
  by (erule calls_less) simp

lemma call_laws [doesI]:
  assumes "calls_ok E k g"
  shows "keeping E T 0 k (g_chunk g)" "keeping E T 0 k (g_statements g)" "keeping E T 0 k (g_subexpr g l)"
    "keeping E T 0 k (g_explist g n v)" "keeping E T 0 k (g_suffixes g v)" "keeping E T 0 k (g_fields g cc)"
    "keeping E T 0 k (g_assignment g lhs n)" "keeping E T 0 k (g_elseif g e f)"
  using assms by (simp_all add: calls_ok_def)

text \<open>Steps that eat a token, and steps that leave it.\<close>

lemma next_then:
  "(\<And>t. T t \<Longrightarrow> t \<noteq> TK_EOS) \<Longrightarrow> (0 < k \<Longrightarrow> keeping E (\<lambda>_. True) 0 (k - 1) m) \<Longrightarrow> keeping E T 1 k (thenM (nextM E) m)"
  unfolding thenM_def by (rule does_bind1 [OF nextM_eats])

lemma checknext_then:
  "c \<noteq> TK_EOS \<Longrightarrow> (0 < k \<Longrightarrow> keeping E (\<lambda>_. True) 0 (k - 1) m) \<Longrightarrow> keeping E T 1 k (thenM (checknext E c) m)"
  unfolding thenM_def by (rule does_bind1 [OF checknext_eats])

lemma checknext_law [doesI]: "c \<noteq> TK_EOS \<Longrightarrow> does E T H 0 k (checknext E c) (\<lambda>_. H)"
  by (rule does_weaken [OF checknext_eats]) simp_all

lemma does_same_token:
  assumes "\<And>ps x ps'. m ps = Some (Inr (x, ps')) \<Longrightarrow> U (token (ls_t (ps_ls ps))) x (token (ls_t (ps_ls ps')))"
    and "does E T H 0 k m (\<lambda>_. H')" "\<And>x t. T t \<Longrightarrow> does E (U t x) H' c k (f x) Q"
  shows "does E T H c k (bindM m f) Q"
  unfolding does_def
proof (intro allI impI)
  fix d j ps y
  assume j: "j \<le> k" and r: "ready E T H d j ps" and e: "bindM m f ps = Some y"
  show "outcome E c d j Q y"
  proof (cases "m ps")
    case None
    then show ?thesis using e by (simp add: bindM_def)
  next
    case (Some z)
    note o = doesD [OF assms(2) j r Some]
    show ?thesis
    proof (cases z)
      case (Inl err)
      then show ?thesis using e o Some by (auto simp: bindM_def outcome_def)
    next
      case (Inr p)
      then obtain x ps' where p: "z = Inr (x, ps')" by (cases p) auto
      have "T (token (ls_t (ps_ls ps)))" using r by (simp add: ready_def)
      moreover have "ready E (U (token (ls_t (ps_ls ps))) x) H' d j ps'"
        using o p assms(1) Some by (simp add: outcome_def ready_def)
      moreover have "f x ps' = Some y" using e Some p by (simp add: bindM_def)
      ultimately show ?thesis using doesD [OF assms(3) j] by blast
    qed
  qed
qed

lemma genM_same: "genM m ps = Some (Inr (x, ps')) \<Longrightarrow> ps_ls ps' = ps_ls ps \<or> (\<exists>msg. syntaxerrorM msg ps = Some (Inr (x, ps')))"
  by (auto simp: genM_def syntaxerrorM_def split: list.splits option.splits sum.splits kstop.splits)

lemma error_fails: "lexM (luaX_lexerror msg t) ps \<noteq> Some (Inr (x, ps'))"
  by (auto simp: lexM_def luaX_lexerror_def lex_error0_def gen_defs split: option.splits sum.splits)

lemma syntaxerror_fails: "syntaxerrorM msg ps \<noteq> Some (Inr (x, ps'))"
  using error_fails [of msg "token (ls_t (ps_ls ps))" ps x ps']
  by (simp add: syntaxerrorM_def luaX_syntaxerror_def lexM_def bindM_def getM_def)

lemma genM_ls: "genM m ps = Some (Inr (x, ps')) \<Longrightarrow> ps_ls ps' = ps_ls ps"
  by (auto dest!: genM_same simp: syntaxerror_fails)

lemma gen_then:
  assumes "\<And>low. keeps False low m" "\<And>x. keeping E T c k (f x)"
  shows "keeping E T c k (bindM (genM m) f)"
  by (rule does_same_token [where U = "\<lambda>t x t'. t' = t"], drule genM_ls, simp, rule genM_law [OF assms(1)],
      rule does_weaken [OF assms(2)]) simp_all

lemma gen_then':
  "(\<And>low. keeps False low m) \<Longrightarrow> keeping E T c k n \<Longrightarrow> keeping E T c k (thenM (genM m) n)"
  unfolding thenM_def by (rule gen_then)

lemma line_then: "(\<And>x. does E T H c k (f x) Q) \<Longrightarrow> does E T H c k (bindM lineM f) Q"
  unfolding lineM_def by (rule does_get)

subsection \<open>Expressions\<close>

lemma token_codes: "TK_EOS = 287" "tok c = int (of_char c)"
  by (simp_all add: TK_EOS_def)

lemmas tk_defs = TK_EOS_def TK_NAME_def TK_STRING_def TK_NUMBER_def TK_DOTS_def TK_CONCAT_def TK_EQ_def TK_GE_def
  TK_LE_def TK_NE_def TK_AND_def TK_BREAK_def TK_DO_def TK_ELSE_def TK_ELSEIF_def TK_END_def TK_FALSE_def TK_FOR_def
  TK_FUNCTION_def TK_IF_def TK_IN_def TK_LOCAL_def TK_NIL_def TK_NOT_def TK_OR_def TK_REPEAT_def TK_RETURN_def
  TK_THEN_def TK_TRUE_def TK_UNTIL_def TK_WHILE_def

lemma expr_law [doesI]: "calls_ok E k g \<Longrightarrow> keeping E T 0 k (expr g)"
  unfolding expr_def by (intro doesI)

lemma field_eats: "(\<And>t. T t \<Longrightarrow> t \<noteq> TK_EOS) \<Longrightarrow> keeping E T 1 k (field E v)"
  unfolding field_def by (intro gen_then next_then doesI keepsI)

lemma field_law [doesI]: "keeping E T 0 k (field E v)"
  unfolding field_def by (intro doesI keepsI)

lemma yindex_law [doesI]: "calls_ok E k g \<Longrightarrow> keeping E T 0 k (yindex E g)"
  unfolding yindex_def by (intro doesI keepsI) (simp_all add: tk_defs)

lemma yindex_eats: "(\<And>t. T t \<Longrightarrow> t \<noteq> TK_EOS) \<Longrightarrow> (0 < k \<Longrightarrow> calls_ok E (k - 1) g) \<Longrightarrow> keeping E T 1 k (yindex E g)"
  unfolding yindex_def by (intro next_then doesI keepsI) (simp_all add: tk_defs)

lemma recfield_law [doesI]: "calls_ok E k g \<Longrightarrow> keeping E T 0 k (recfield E g cc)"
  unfolding recfield_def by (intro doesI keepsI) (simp_all add: tk_defs)

lemma listfield_law [doesI]: "calls_ok E k g \<Longrightarrow> keeping E T 0 k (listfield g cc)"
  unfolding listfield_def by (intro doesI keepsI)

lemma constructor_eats: "(0 < k \<Longrightarrow> calls_ok E (k - 1) g) \<Longrightarrow> keeping E T 1 k (constructor E g)"
  unfolding constructor_def
  by (intro line_then gen_then checknext_then doesI keepsI) (simp_all add: tk_defs)

lemma explist1_law [doesI]: "calls_ok E k g \<Longrightarrow> keeping E T 0 k (explist1 g)"
  unfolding explist1_def by (intro doesI)

lemma then_assoc: "thenM (thenM m n) r = thenM m (thenM n r)"
  by (simp add: thenM_def bindM_assoc)

lemma seq_then: "thenM (seqM []) r = r" "thenM (seqM (m # ms)) r = thenM m (thenM (seqM ms) r)"
  by (simp_all add: then_assoc) (simp add: thenM_def bindM_ret)

lemma eats_then:
  "does E T H 1 k m (\<lambda>_. P) \<Longrightarrow> (0 < k \<Longrightarrow> does E (\<lambda>_. True) P 0 (k - 1) n Q) \<Longrightarrow> does E T H 1 k (thenM m n) Q"
  unfolding thenM_def by (rule does_bind1)

lemma body_eats: "(0 < k \<Longrightarrow> calls_ok E (k - 1) g) \<Longrightarrow> keeping E T 1 k (body E g needself line)"
  unfolding body_def seq_then
proof (rule does_bind0 [OF curM_law])
  fix src
  assume c: "0 < k \<Longrightarrow> calls_ok E (k - 1) g"
  let ?self = "whenM needself (thenM (new_localvarliteral ''self'' 0) (adjustlocalvars 1))"
  let ?last = "bindM lineM (\<lambda>l. setcurM (\<lambda>fp. fp\<lparr>fp_lastlinedefined := l\<rparr>))"
  let ?line = "setcurM (\<lambda>fp. fp\<lparr>fp_linedefined := line\<rparr>)"
  let ?rest = "thenM (parlist E) (seqM [checknext E (tok (CHR '')'')), g_chunk g, ?last, check_match E TK_END TK_FUNCTION line])"
  let ?inner = "thenM ?line (thenM (checknext E (tok (CHR ''(''))) (thenM ?self ?rest))"
  have rest: "does E (\<lambda>_. True) starting 0 (k - 1) ?rest (\<lambda>_. fp_ok)" if "0 < k"
    by (rule does_then [OF parlist_law], intro doesI c [OF that] setcur_law) (simp_all add: tk_defs fp_defs)
  have l: "fresh (fp\<lparr>fp_linedefined := line\<rparr>)" if "fresh fp" for fp
    using that by (auto simp: fresh_def fp_defs)
  have "does E (\<lambda>_. True) fresh 1 k ?inner (\<lambda>_. fp_ok)"
    by (rule does_then, rule does_setcur [where H' = fresh], erule l, rule eats_then [OF checknext_eats], simp add: tk_defs,
        rule does_then [OF self_law], erule rest)
  then have "keeping E (\<lambda>_. True) 1 k (thenM (open_func src) (thenM ?inner (bindM close_func pushclosure)))"
    by (rule nested_func) (rule pushclosure_law)
  then show "keeping E (\<lambda>_. True) 1 k (thenM (open_func src) (thenM ?line (thenM (checknext E (tok (CHR ''('')))
      (thenM ?self (thenM (parlist E) (thenM (checknext E (tok (CHR '')''))) (thenM (g_chunk g) (thenM ?last
      (thenM (check_match E TK_END TK_FUNCTION line) (bindM close_func pushclosure))))))))))"
    by (simp only: seq_then seqM.simps then_assoc) (simp add: thenM_def bindM_ret)
qed

lemma body_law [doesI]: "calls_ok E k g \<Longrightarrow> keeping E T 0 k (body E g needself line)"
  by (intro keeping_eats body_eats calls_pred)

lemma paren_args_eats:
  assumes "\<And>t. T t \<Longrightarrow> t \<noteq> TK_EOS" "0 < k \<Longrightarrow> calls_ok E (k - 1) g"
  shows "keeping E T 1 k (paren_args E g line)"
  unfolding paren_args_def
proof (rule does_get)
  fix l
  let ?m = "\<lambda>t. bindM (if t = tok (CHR '')'') then retM (init_exp VVOID 0)
             else bindM (explist1 g) (\<lambda>(n, args).
                    thenM (genM (luaK_setreturns args LUA_MULTRET)) (retM args))) (\<lambda>args.
      thenM (check_match E (tok (CHR '')'')) (tok (CHR ''('')) line) (retM args))"
  have "keeping E T 1 k (thenM (nextM E) (bindM tokenM ?m))"
    by (intro next_then doesI keepsI assms(2)) (simp_all add: tk_defs assms(1) [unfolded tk_defs])
  moreover have "keeping E T 1 k (bindM (syntaxerrorM s) (\<lambda>_ :: unit. thenM (nextM E) (bindM tokenM ?m)))" for s
    by (rule does_stop) (rule does_syntaxerror)
  ultimately show "keeping E T 1 k (thenM (if line \<noteq> l then syntaxerrorM ''ambiguous syntax (function call x new statement)'' else retM ())
      (thenM (nextM E) (bindM tokenM ?m)))"
    by (cases "line = l") (simp_all add: thenM_def bindM_ret)
qed

lemma string_arg_eats:
  "T TK_STRING \<Longrightarrow> \<forall>t. T t \<longrightarrow> t = TK_STRING \<Longrightarrow>
   keeping E T 1 k (bindM token_string (\<lambda>s. bindM (codestring s) (\<lambda>args. thenM (nextM E) (retM args))))"
  unfolding codestring_def bindM_assoc bindM_ret
  by (rule token_string_then, intro gen_then keepsI next_then doesI) (auto simp: tk_defs)

lemma funcargs_eats:
  assumes "0 < k \<Longrightarrow> calls_ok E (k - 1) g"
  shows "keeping E T 1 k (funcargs E g f)"
  unfolding funcargs_def Let_def
proof (intro line_then does_token does_bind1)
  fix line t
  show "keeping E (\<lambda>u. u = t) 1 k
      (if t = tok (CHR ''('') then paren_args E g line
       else if t = tok (CHR ''{'') then constructor E g
       else if t = TK_STRING then bindM token_string (\<lambda>s. bindM (codestring s) (\<lambda>args. thenM (nextM E) (retM args)))
       else syntaxerrorM ''function arguments expected'')"
    by (intro keeping_if paren_args_eats constructor_eats string_arg_eats does_syntaxerror assms) (simp_all add: tk_defs)
qed (intro doesI keepsI)

lemma funcargs_law [doesI]: "calls_ok E k g \<Longrightarrow> keeping E T 0 k (funcargs E g f)"
  by (intro keeping_eats funcargs_eats calls_pred)

lemma prefixexp_eats: "(0 < k \<Longrightarrow> calls_ok E (k - 1) g) \<Longrightarrow> keeping E T 1 k (prefixexp E g)"
  unfolding prefixexp_def
  by (intro does_token keeping_if line_then next_then singlevar_eats does_syntaxerror) (intro doesI keepsI | simp add: tk_defs)+

lemma primaryexp_eats: "(0 < k \<Longrightarrow> calls_ok E (k - 1) g) \<Longrightarrow> keeping E T 1 k (primaryexp E g)"
  unfolding primaryexp_def by (rule does_bind1 [OF prefixexp_eats]) (intro doesI | assumption)+

lemma primaryexp_law [doesI]: "calls_ok E k g \<Longrightarrow> keeping E T 0 k (primaryexp E g)"
  by (intro keeping_eats primaryexp_eats calls_pred)

lemma next_ret: "(\<And>t. T t \<Longrightarrow> t \<noteq> TK_EOS) \<Longrightarrow> keeping E T 1 k (thenM (nextM E) (retM x))"
  by (intro next_then doesI)

lemma vararg_eats:
  assumes "\<And>t. T t \<Longrightarrow> t \<noteq> TK_EOS"
  shows "keeping E T 1 k (bindM (curM fp_is_vararg) (\<lambda>va.
         thenM (if va = 0 then syntaxerrorM msg else retM ())
         (thenM (setcurM (\<lambda>fp. fp\<lparr>fp_is_vararg := fp_is_vararg fp AND NOT VARARG_NEEDSARG\<rparr>))
         (bindM (genM (luaK_codeABC OP_VARARG 0 1 0)) (\<lambda>pc. thenM (nextM E) (retM (init_exp VVARARG pc)))))))"
proof (rule does_cur)
  fix fp
  let ?set = "setcurM (\<lambda>fp. fp\<lparr>fp_is_vararg := fp_is_vararg fp AND NOT VARARG_NEEDSARG\<rparr>)"
  let ?m = "bindM ?set (\<lambda>_. bindM (genM (luaK_codeABC OP_VARARG 0 1 0)) (\<lambda>pc. thenM (nextM E) (retM (init_exp VVARARG pc))))"
  have "keeping E T 1 k ?m"
  proof (rule does_same_token [where U = "\<lambda>t x t'. t' = t"])
    show "keeping E T 0 k ?set"
      by (rule setcur_law) (auto simp: fp_defs needsarg_flag)
    show "keeping E (\<lambda>t'. t' = t) 1 k (bindM (genM (luaK_codeABC OP_VARARG 0 1 0))
        (\<lambda>pc. thenM (nextM E) (retM (init_exp VVARARG pc))))" if "T t" for t
      by (intro gen_then keepsI next_ret) (use assms that in blast)
  qed (auto simp: setcurM_def split: list.splits)
  moreover have "keeping E T 1 k (bindM (syntaxerrorM msg) (\<lambda>_ :: unit. ?m))"
    by (rule does_stop) (rule does_syntaxerror)
  ultimately show "keeping E T 1 k (thenM (if fp_is_vararg fp = 0 then syntaxerrorM msg else retM ())
         (thenM ?set (bindM (genM (luaK_codeABC OP_VARARG 0 1 0)) (\<lambda>pc. thenM (nextM E) (retM (init_exp VVARARG pc))))))"
    by (cases "fp_is_vararg fp = 0") (simp_all add: thenM_def bindM_ret)
qed

lemma number_eats:
  "(\<And>t. T t \<Longrightarrow> t \<noteq> TK_EOS) \<Longrightarrow>
   keeping E T 1 k (bindM (getM g) (\<lambda>s. case s of SemR r \<Rightarrow> thenM (nextM E) (retM (f r)) | _ \<Rightarrow> failM BadAccess))"
  by (rule does_get, intro keeping_sem next_ret keeping_bad)

lemma function_eats: "(\<And>t. T t \<Longrightarrow> t \<noteq> TK_EOS) \<Longrightarrow> (0 < k \<Longrightarrow> calls_ok E (k - 1) g) \<Longrightarrow> keeping E T 1 k (thenM (nextM E) (bindM lineM (body E g b)))"
  by (intro next_then doesI)

lemma simpleexp_eats: "(0 < k \<Longrightarrow> calls_ok E (k - 1) g) \<Longrightarrow> keeping E T 1 k (simpleexp E g)"
  unfolding simpleexp_def
  by (intro does_token keeping_if number_eats string_arg_eats next_ret vararg_eats constructor_eats function_eats primaryexp_eats)
    (simp_all add: tk_defs)

subsection \<open>Operators\<close>

text \<open>The operator that a subexpression returns is that of the current token.\<close>

abbreviation now :: "'d PState \<Rightarrow> int" where "now ps \<equiv> token (ls_t (ps_ls ps))"

definition ops_now :: "'d grammar \<Rightarrow> bool" where
  "ops_now g \<longleftrightarrow>
     (\<forall>l ps v op ps'. g_subexpr g l ps = Some (Inr ((v, op), ps')) \<longrightarrow> op = getbinopr (now ps')) \<and>
     (\<forall>l v op ps v' op' ps'. g_operators g l v op ps = Some (Inr ((v', op'), ps')) \<longrightarrow> op = getbinopr (now ps) \<longrightarrow>
        op' = getbinopr (now ps'))"

lemma bindM_Some: "bindM m f s = Some (Inr (y, s'')) \<longleftrightarrow> (\<exists>x s'. m s = Some (Inr (x, s')) \<and> f x s' = Some (Inr (y, s'')))"
  by (auto simp: bindM_def split: option.splits sum.splits)

lemma thenM_Some: "thenM m n s = Some (Inr (y, s'')) \<longleftrightarrow> (\<exists>x s'. m s = Some (Inr (x, s')) \<and> n s' = Some (Inr (y, s'')))"
  by (simp add: thenM_def bindM_Some)

lemma operators_now:
  assumes "ops_now g" "operators E g l v op ps = Some (Inr ((v', op'), ps'))" "op = getbinopr (now ps)"
  shows "op' = getbinopr (now ps')"
proof (cases "op \<noteq> OPR_NOBINOPR \<and> fst (priority op) > l")
  case False
  then show ?thesis using assms(2,3) by (auto simp: operators_def retM_def)
next
  case True
  then obtain v1 ps1 v2 nop ps2 v3 v4 ps3 where
    s: "g_subexpr g (snd (priority op)) ps1 = Some (Inr ((v2, nop), ps2))"
    "genM (luaK_posfix (pe_fp E) op v1 v2) ps2 = Some (Inr ((v3, v4), ps3))"
    "g_operators g l v3 nop ps3 = Some (Inr ((v', op'), ps'))"
    using assms(2) by (auto simp: operators_def bindM_Some thenM_Some split: prod.splits)
  have "nop = getbinopr (now ps2)" using assms(1) s(1) by (simp add: ops_now_def)
  with genM_ls [OF s(2)] have "nop = getbinopr (now ps3)" by simp
  with assms(1) s(3) show ?thesis by (simp add: ops_now_def)
qed

lemma subexpr_now:
  assumes "ops_now g" "subexpr E g l ps = Some (Inr ((v, op), ps'))"
  shows "op = getbinopr (now ps')"
proof -
  from assms(2) obtain v1 ps1 ps2 where o: "g_operators g l v1 (getbinopr (now ps1)) ps1 = Some (Inr ((v, op), ps2))"
    "leavelevel ps2 = Some (Inr ((), ps'))"
    by (auto simp: subexpr_def Let_def bindM_Some thenM_Some tokenM_def getM_def retM_def)
  have "op = getbinopr (now ps2)" using assms(1) o(1) by (simp add: ops_now_def)
  with o(2) show ?thesis by (auto simp: leavelevel_def modM_def)
qed

lemma binopr_eos: "getbinopr TK_EOS = OPR_NOBINOPR" "getunopr TK_EOS = OPR_NOUNOPR"
  by (simp_all add: getbinopr_def getunopr_def tk_defs)

lemma operators_keep:
  assumes c: "0 < k \<Longrightarrow> calls_ok E (k - 1) g" and n: "ops_now g"
  shows "keeping E (\<lambda>t. getbinopr t = op) 0 k (operators E g l v op)"
  unfolding operators_def
proof (rule keeping_if, rule keeping_eats, intro next_then gen_then keepsI, rule_tac [3] keeping_ret)
  assume op: "op \<noteq> OPR_NOBINOPR \<and> l < fst (priority op)"
  show "\<And>t. getbinopr t = op \<Longrightarrow> t \<noteq> TK_EOS" using op binopr_eos by auto
  fix v
  assume k: "0 < k"
  show "keeping E (\<lambda>_. True) 0 (k - 1) (bindM (g_subexpr g (snd (priority op))) (\<lambda>(v2, nextop).
         bindM (genM (luaK_posfix (pe_fp E) op v v2)) (\<lambda>(v, v2). g_operators g l v nextop)))"
  proof (rule does_same_token [where U = "\<lambda>t x t'. getbinopr t' = snd x"])
    show "getbinopr (now ps') = snd x" if "g_subexpr g (snd (priority op)) ps = Some (Inr (x, ps'))" for ps x ps'
      using n that by (cases x) (simp add: ops_now_def)
    show "keeping E (\<lambda>_. True) 0 (k - 1) (g_subexpr g (snd (priority op)))" by (rule call_laws [OF c [OF k]])
    show "keeping E (\<lambda>t'. getbinopr t' = snd x) 0 (k - 1) (case x of (v2, nextop) \<Rightarrow>
         bindM (genM (luaK_posfix (pe_fp E) op v v2)) (\<lambda>(v, v2). g_operators g l v nextop))" for x
      using c [OF k] by (cases x, simp only: prod.case snd_conv, intro gen_then keepsI keeping_prod) (simp add: calls_ok_def)
  qed
qed

lemma subexpr_keep:
  assumes c: "0 < k \<Longrightarrow> calls_ok E (k - 1) g"
  shows "keeping E T 0 k (subexpr E g l)"
  unfolding subexpr_def Let_def
proof (rule does_step_then [OF level_laws(1)], rule does_token)
  fix t
  let ?unary = "thenM (nextM E) (bindM (g_subexpr g UNARY_PRIORITY) (\<lambda>(v, op). genM (luaK_prefix (pe_fp E) (getunopr t) v)))"
  have "keeping E (\<lambda>u. u = t) 1 k ?unary" if "getunopr t \<noteq> OPR_NOUNOPR"
    using that binopr_eos(2) by (intro next_then doesI keepsI c) auto
  moreover have "keeping E (\<lambda>u. u = t) 1 k (simpleexp E g)"
    by (rule simpleexp_eats [OF c])
  ultimately have x: "keeping E (\<lambda>u. u = t) 1 k (if getunopr t \<noteq> OPR_NOUNOPR then ?unary else simpleexp E g)" by simp
  show "keeping E (\<lambda>u. u = t) 0 k (bindM (if getunopr t \<noteq> OPR_NOUNOPR then ?unary else simpleexp E g) (\<lambda>v.
      bindM tokenM (\<lambda>t. bindM (g_operators g l v (getbinopr t)) (\<lambda>r. thenM leavelevel (retM r)))))"
  proof (rule does_bind1' [OF x], rule does_token, rule does_bind0)
    fix v t'
    assume "0 < k"
    from c [OF this] have "keeping E (\<lambda>u. getbinopr u = getbinopr t') 0 (k - 1) (g_operators g l v (getbinopr t'))"
      by (simp add: calls_ok_def)
    then show "keeping E (\<lambda>u. u = t') 0 (k - 1) (g_operators g l v (getbinopr t'))" by (rule does_weaken) simp_all
  qed (intro doesI)
qed

subsection \<open>Loops of expressions\<close>

lemma testnext_if:
  "c \<noteq> TK_EOS \<Longrightarrow> (0 < k \<Longrightarrow> keeping E (\<lambda>_. True) 0 (k - 1) a) \<Longrightarrow> keeping E T 0 k b \<Longrightarrow>
   keeping E T 0 k (bindM (testnext E c) (\<lambda>x. if x then a else b))"
  by (rule testnext_then) simp_all

lemma explist_keep:
  assumes c: "0 < k \<Longrightarrow> calls_ok E (k - 1) g"
  shows "keeping E T 0 k (explist E g n v)"
  unfolding explist_def
  by (intro testnext_if keeping_ret) (simp add: tk_defs, intro doesI keepsI c)

lemma suffixes_keep:
  assumes c: "0 < k \<Longrightarrow> calls_ok E (k - 1) g"
  shows "keeping E T 0 k (suffixes E g v)"
  unfolding suffixes_def
proof (rule does_token)
  fix t :: int
  let ?T = "\<lambda>u. u = t"
  have dot: "keeping E ?T 1 k (bindM (field E v) (g_suffixes g))" if "t = tok (CHR ''.'')"
    by (rule does_bind1 [OF field_eats]) (use that in \<open>simp add: tk_defs\<close>, intro doesI c)
  have br: "keeping E ?T 1 k (bindM (genM (luaK_exp2anyreg v)) (\<lambda>v.
         bindM (yindex E g) (\<lambda>key. bindM (genM (luaK_indexed v key)) (\<lambda>(v, key). g_suffixes g v))))"
    if "t = tok (CHR ''['')"
    by (intro gen_then keepsI, rule does_bind1 [OF yindex_eats [OF _ c]])
      ((use that in \<open>simp add: tk_defs; fail\<close>) | intro doesI keepsI c | assumption)+
  have colon: "keeping E ?T 1 k (thenM (nextM E)
         (bindM (checkname E) (\<lambda>key.
          bindM (genM (luaK_self v key)) (\<lambda>(v, key). bindM (funcargs E g v) (g_suffixes g)))))"
    if "t = tok (CHR '':'')"
    by (intro next_then doesI keepsI c) (use that in \<open>simp_all add: tk_defs\<close>)
  have args: "keeping E ?T 1 k (bindM (genM (luaK_exp2nextreg v)) (\<lambda>v. bindM (funcargs E g v) (g_suffixes g)))"
    by (intro gen_then keepsI, rule does_bind1 [OF funcargs_eats [OF c]], assumption, intro doesI c)
  show "keeping E ?T 0 k
      (if t = tok (CHR ''.'') then bindM (field E v) (g_suffixes g)
       else if t = tok (CHR ''['') then
         bindM (genM (luaK_exp2anyreg v)) (\<lambda>v.
         bindM (yindex E g) (\<lambda>key.
         bindM (genM (luaK_indexed v key)) (\<lambda>(v, key). g_suffixes g v)))
       else if t = tok (CHR '':'') then
         thenM (nextM E)
         (bindM (checkname E) (\<lambda>key.
          bindM (genM (luaK_self v key)) (\<lambda>(v, key). bindM (funcargs E g v) (g_suffixes g))))
       else if t = tok (CHR ''('') \<or> t = TK_STRING \<or> t = tok (CHR ''{'') then
         bindM (genM (luaK_exp2nextreg v)) (\<lambda>v. bindM (funcargs E g v) (g_suffixes g))
       else retM v)"
    by (intro keeping_if keeping_ret keeping_eats dot br colon args)
qed

text \<open>The items of a constructor: their expressions come first.\<close>

lemma fields_keep:
  assumes c: "0 < k \<Longrightarrow> calls_ok E (k - 1) g" and s: "\<And>T l. keeping E T 0 k (g_subexpr g l)"
  shows "keeping E T 0 k (fields E g cc)"
proof -
  have e: "keeping E T 0 k (expr g)" for T unfolding expr_def by (intro doesI s)
  have y: "keeping E T 0 k (yindex E g)" for T
    unfolding yindex_def by (intro doesI keepsI e) (simp_all add: tk_defs)
  have r: "keeping E T 0 k (recfield E g cc)" for T cc
    unfolding recfield_def by (intro doesI keepsI e y) (simp_all add: tk_defs)
  have l: "keeping E T 0 k (listfield g cc)" for T cc
    unfolding listfield_def by (intro doesI keepsI e)
  have semi: "keeping E T 0 k (bindM (testnext E (tok (CHR '',''))) (\<lambda>b.
           if b then g_fields g cc
           else bindM (testnext E (tok (CHR '';''))) (\<lambda>b. if b then g_fields g cc else retM cc)))" for T cc
    by (intro testnext_if call_laws c keeping_ret) (simp_all add: tk_defs)
  show ?thesis
    unfolding fields_def by (intro doesI r l semi)
qed

subsection \<open>Loops of names\<close>

lemma forlist_names_law [doesI]: "keeping E T 0 k (forlist_names E n)"
proof (rule does_step_limit)
  fix ps y d j
  assume r: "ready E T fp_ok d j ps" and e: "forlist_names E n ps = Some y"
  have "\<forall>T d j. ready E T fp_ok d j ps \<longrightarrow> outcome E 0 d j (\<lambda>_. fp_ok) y"
  proof (rule forlist_names.raw_induct [where P = "\<lambda>E n ps y. \<forall>T d j. ready E T fp_ok d j ps \<longrightarrow> outcome E 0 d j (\<lambda>_. fp_ok) y", OF _ e])
    fix f E n ps y
    assume IH: "\<And>E n ps y. f E n ps = Some y \<Longrightarrow> \<forall>T d j. ready E T fp_ok d j ps \<longrightarrow> outcome E 0 d j (\<lambda>_. fp_ok) y"
      and e: "bindM (testnext E (tok (CHR '',''))) (\<lambda>b.
       if b then thenM (bindM (str_checkname E) (\<lambda>name. new_localvar name n)) (f E (n + 1)) else retM n) ps = Some y"
      (is "?m ps = Some y")
    have f: "keeping E T 0 k (f E (n + 1))" for T k using IH by (simp add: does_def)
    have "keeping E T 0 k ?m" for T k by (intro doesI f) (simp_all add: tk_defs)
    with e show "\<forall>T d j. ready E T fp_ok d j ps \<longrightarrow> outcome E 0 d j (\<lambda>_. fp_ok) y" by (auto dest: doesD)
  qed
  with r show "outcome E 0 d j (\<lambda>_. fp_ok) y" by blast
qed

lemma localstat_names_law [doesI]: "keeping E T 0 k (localstat_names E n)"
proof (rule does_step_limit)
  fix ps y d j
  assume r: "ready E T fp_ok d j ps" and e: "localstat_names E n ps = Some y"
  have "\<forall>T d j. ready E T fp_ok d j ps \<longrightarrow> outcome E 0 d j (\<lambda>_. fp_ok) y"
  proof (rule localstat_names.raw_induct [where P = "\<lambda>E n ps y. \<forall>T d j. ready E T fp_ok d j ps \<longrightarrow> outcome E 0 d j (\<lambda>_. fp_ok) y", OF _ e])
    fix f E n ps y
    assume IH: "\<And>E n ps y. f E n ps = Some y \<Longrightarrow> \<forall>T d j. ready E T fp_ok d j ps \<longrightarrow> outcome E 0 d j (\<lambda>_. fp_ok) y"
      and e: "thenM (bindM (str_checkname E) (\<lambda>name. new_localvar name n))
       (bindM (testnext E (tok (CHR '',''))) (\<lambda>b. if b then f E (n + 1) else retM (n + 1))) ps = Some y"
      (is "?m ps = Some y")
    have f: "keeping E T 0 k (f E (n + 1))" for T k using IH by (simp add: does_def)
    have "keeping E T 0 k ?m" for T k by (intro doesI f) (simp_all add: tk_defs)
    with e show "\<forall>T d j. ready E T fp_ok d j ps \<longrightarrow> outcome E 0 d j (\<lambda>_. fp_ok) y" by (auto dest: doesD)
  qed
  with r show "outcome E 0 d j (\<lambda>_. fp_ok) y" by blast
qed

lemma funcname_fields_law [doesI]: "keeping E T 0 k (funcname_fields E v)"
proof (rule does_step_limit)
  fix ps y d j
  assume r: "ready E T fp_ok d j ps" and e: "funcname_fields E v ps = Some y"
  have "\<forall>T d j. ready E T fp_ok d j ps \<longrightarrow> outcome E 0 d j (\<lambda>_. fp_ok) y"
  proof (rule funcname_fields.raw_induct [where P = "\<lambda>E v ps y. \<forall>T d j. ready E T fp_ok d j ps \<longrightarrow> outcome E 0 d j (\<lambda>_. fp_ok) y", OF _ e])
    fix f E v ps y
    assume IH: "\<And>E v ps y. f E v ps = Some y \<Longrightarrow> \<forall>T d j. ready E T fp_ok d j ps \<longrightarrow> outcome E 0 d j (\<lambda>_. fp_ok) y"
      and e: "bindM tokenM (\<lambda>t. if t = tok (CHR ''.'') then bindM (field E v) (\<lambda>v. f E v) else retM v) ps = Some y"
      (is "?m ps = Some y")
    have f: "keeping E T 0 k (f E v)" for T k v using IH by (simp add: does_def)
    have "keeping E T 0 k ?m" for T k by (intro doesI f)
    with e show "\<forall>T d j. ready E T fp_ok d j ps \<longrightarrow> outcome E 0 d j (\<lambda>_. fp_ok) y" by (auto dest: doesD)
  qed
  with r show "outcome E 0 d j (\<lambda>_. fp_ok) y" by blast
qed

lemma funcname_law [doesI]: "keeping E T 0 k (funcname E)"
  unfolding funcname_def by (intro doesI)

subsection \<open>Statements\<close>

lemma block_law [doesI]: "calls_ok E k g \<Longrightarrow> keeping E T 0 k (block g)"
  unfolding block_def by (intro doesI)

lemma cond_law [doesI]: "calls_ok E k g \<Longrightarrow> keeping E T 0 k (cond g)"
  unfolding cond_def by (intro doesI keepsI)

lemma exp1_law [doesI]: "calls_ok E k g \<Longrightarrow> keeping E T 0 k (exp1 g)"
  unfolding exp1_def by (intro doesI keepsI)

lemma forbody_law [doesI]: "calls_ok E k g \<Longrightarrow> keeping E T 0 k (forbody E g base line nvars isnum)"
  unfolding forbody_def by (intro doesI keepsI) (simp_all add: tk_defs)

lemma fornum_law [doesI]: "calls_ok E k g \<Longrightarrow> keeping E T 0 k (fornum E g name line)"
  unfolding fornum_def by (intro doesI keepsI no_locals_fp_ok) (simp_all add: tk_defs)

lemma forlist_law [doesI]: "calls_ok E k g \<Longrightarrow> keeping E T 0 k (forlist E g name)"
  unfolding forlist_def by (intro doesI keepsI no_locals_fp_ok) (simp_all add: tk_defs)

lemma assignment_keep:
  assumes c: "0 < k \<Longrightarrow> calls_ok E (k - 1) g"
  shows "keeping E T 0 k (assignment E g lhs n)"
  unfolding assignment_def
  by (intro keeping_list keeping_bad keeping_if does_syntaxerror testnext_if keeping_eats [OF checknext_then])
    ((simp add: tk_defs; fail) | intro doesI keepsI c | assumption)+

lemma assignment_law [doesI]: "calls_ok E k g \<Longrightarrow> keeping E T 0 k (assignment E g lhs n)"
  by (intro assignment_keep calls_pred)

lemma exprstat_eats: "(0 < k \<Longrightarrow> calls_ok E (k - 1) g) \<Longrightarrow> keeping E T 1 k (exprstat E g)"
  unfolding exprstat_def by (rule does_bind1 [OF primaryexp_eats]) (intro doesI keepsI | assumption)+

lemma whilestat_eats:
  "(\<And>t. T t \<Longrightarrow> t \<noteq> TK_EOS) \<Longrightarrow> (0 < k \<Longrightarrow> calls_ok E (k - 1) g) \<Longrightarrow> keeping E T 1 k (whilestat E g line)"
  unfolding whilestat_def by (intro next_then doesI keepsI) (simp_all add: tk_defs)

lemma test_then_eats:
  "(\<And>t. T t \<Longrightarrow> t \<noteq> TK_EOS) \<Longrightarrow> (0 < k \<Longrightarrow> calls_ok E (k - 1) g) \<Longrightarrow> keeping E T 1 k (test_then_block E g)"
  unfolding test_then_block_def by (intro next_then doesI keepsI) (simp_all add: tk_defs)

lemma elseif_keep:
  assumes c: "0 < k \<Longrightarrow> calls_ok E (k - 1) g"
  shows "keeping E T 0 k (elseif_loop E g e f)"
  unfolding elseif_loop_def
  by (intro does_token keeping_if keeping_ret, rule keeping_eats, intro gen_then gen_then' keepsI,
      rule does_bind1 [OF test_then_eats [OF _ c]]) (simp add: tk_defs, assumption, intro doesI c)

lemma ifstat_eats:
  "(\<And>t. T t \<Longrightarrow> t \<noteq> TK_EOS) \<Longrightarrow> (0 < k \<Longrightarrow> calls_ok E (k - 1) g) \<Longrightarrow> keeping E T 1 k (ifstat E g line)"
  unfolding ifstat_def
  by (rule does_bind1 [OF test_then_eats]) ((simp add: tk_defs; fail) | intro doesI keepsI | assumption)+

lemma same_then:
  "(\<And>ps x ps'. m ps = Some (Inr (x, ps')) \<Longrightarrow> now ps' = now ps) \<Longrightarrow> keeping E T 0 k m \<Longrightarrow> keeping E T c k n \<Longrightarrow>
   keeping E T c k (thenM m n)"
  unfolding thenM_def
  by (rule does_same_token [where U = "\<lambda>t x t'. t' = t"]) (auto elim: does_weaken)

lemma enterblock_now: "enterblock b ps = Some (Inr (x, ps')) \<Longrightarrow> now ps' = now ps"
  by (auto simp: enterblock_def setcurM_def split: list.splits)

lemma enterblock_then: "keeping E T c k n \<Longrightarrow> keeping E T c k (thenM (enterblock b) n)"
  by (rule same_then, erule enterblock_now, rule enterblock_law)

lemma repeatstat_eats:
  "(\<And>t. T t \<Longrightarrow> t \<noteq> TK_EOS) \<Longrightarrow> (0 < k \<Longrightarrow> calls_ok E (k - 1) g) \<Longrightarrow> keeping E T 1 k (repeatstat E g line)"
  unfolding repeatstat_def seq_then
  by (intro gen_then keepsI enterblock_then next_then, assumption)
    ((simp add: tk_defs; fail) | intro doesI keepsI | assumption)+

lemma forstat_eats:
  "(\<And>t. T t \<Longrightarrow> t \<noteq> TK_EOS) \<Longrightarrow> (0 < k \<Longrightarrow> calls_ok E (k - 1) g) \<Longrightarrow> keeping E T 1 k (forstat E g line)"
  unfolding forstat_def
  by (intro enterblock_then next_then, assumption)
    ((simp add: tk_defs; fail) | intro doesI keepsI | assumption)+

lemma localfunc_law [doesI]: "calls_ok E k g \<Longrightarrow> keeping E T 0 k (localfunc E g)"
  unfolding localfunc_def by (intro doesI keepsI no_locals_fp_ok)

lemma localstat_law [doesI]: "calls_ok E k g \<Longrightarrow> keeping E T 0 k (localstat E g)"
  unfolding localstat_def by (intro doesI keepsI) (simp_all add: tk_defs)

lemma funcstat_eats:
  "(\<And>t. T t \<Longrightarrow> t \<noteq> TK_EOS) \<Longrightarrow> (0 < k \<Longrightarrow> calls_ok E (k - 1) g) \<Longrightarrow> keeping E T 1 k (funcstat E g line)"
  unfolding funcstat_def by (intro next_then doesI keepsI)

lemma return_values_law [doesI]: "calls_ok E k g \<Longrightarrow> keeping E T 0 k (return_values g)"
  unfolding return_values_def by (intro doesI keepsI)

lemma retstat_eats:
  "(\<And>t. T t \<Longrightarrow> t \<noteq> TK_EOS) \<Longrightarrow> (0 < k \<Longrightarrow> calls_ok E (k - 1) g) \<Longrightarrow> keeping E T 1 k (retstat E g)"
  unfolding retstat_def by (intro next_then doesI keepsI)

lemma statement_eats:
  assumes c: "0 < k \<Longrightarrow> calls_ok E (k - 1) g"
  shows "keeping E T 1 k (statement E g)"
proof -
  have stat: "keeping E (\<lambda>u. u = t) 1 k (thenM m (retM b))" if "keeping E (\<lambda>u. u = t) 1 k m" for t b and m :: "('a, unit) parse"
    by (rule eats_then [OF that keeping_ret])
  have doo: "keeping E (\<lambda>u. u = t) 1 k (seqM [nextM E, block g, check_match E TK_END TK_DO line])" if "t = TK_DO" for t line
    unfolding seqM.simps by (intro next_then doesI c) (use that in \<open>simp_all add: tk_defs\<close>)
  have loc: "keeping E (\<lambda>u. u = t) 1 k (thenM (nextM E)
      (bindM (testnext E TK_FUNCTION) (\<lambda>b. thenM (if b then localfunc E g else localstat E g) (retM False))))"
    if "t = TK_LOCAL" for t
    by (intro next_then doesI c) (use that in \<open>simp_all add: tk_defs\<close>)
  have brk: "keeping E (\<lambda>u. u = t) 1 k (thenM (nextM E) (thenM breakstat (retM True)))" if "t = TK_BREAK" for t
    by (intro next_then doesI) (use that in \<open>simp add: tk_defs\<close>)
  show ?thesis
    unfolding statement_def
    by (intro line_then does_token keeping_if loc brk stat ifstat_eats whilestat_eats doo forstat_eats repeatstat_eats
        funcstat_eats retstat_eats exprstat_eats c) (simp_all add: tk_defs)
qed

lemma statements_keep:
  assumes c: "0 < k \<Longrightarrow> calls_ok E (k - 1) g"
  shows "keeping E T 0 k (statements E g)"
  unfolding statements_def
  by (intro does_token keeping_if keeping_ret, rule does_bind1' [OF statement_eats [OF c]], assumption)
    ((simp add: tk_defs; fail) | intro doesI c | assumption)+

lemma chunk_keep: "(\<And>T. keeping E T 0 k (g_statements g)) \<Longrightarrow> keeping E T 0 k (chunk g)"
  unfolding chunk_def seqM.simps by (intro does_step_then level_laws keeping_ret)

subsection \<open>Enough fuel\<close>

lemma grammar_Suc:
  "g_chunk (grammar E (Suc n)) = chunk (grammar E n)" "g_statements (grammar E (Suc n)) = statements E (grammar E n)"
  "g_subexpr (grammar E (Suc n)) = subexpr E (grammar E n)" "g_operators (grammar E (Suc n)) = operators E (grammar E n)"
  "g_explist (grammar E (Suc n)) = explist E (grammar E n)" "g_suffixes (grammar E (Suc n)) = suffixes E (grammar E n)"
  "g_fields (grammar E (Suc n)) = fields E (grammar E n)" "g_assignment (grammar E (Suc n)) = assignment E (grammar E n)"
  "g_elseif (grammar E (Suc n)) = elseif_loop E (grammar E n)"
  by (simp_all add: Let_def)

lemma grammar_now: "ops_now (grammar E n)"
proof (induction n)
  case (Suc n)
  show ?case unfolding ops_now_def grammar_Suc
    using subexpr_now [OF Suc] operators_now [OF Suc] by blast
qed (simp add: ops_now_def failM_def)

text \<open>A nesting of two calls is enough for each character that is left.\<close>

lemma grammar_ok:
  "(2 * k + 1 \<le> n \<longrightarrow> (\<forall>T. keeping E T 0 k (g_statements (grammar E n)) \<and> (\<forall>l. keeping E T 0 k (g_subexpr (grammar E n) l)))) \<and>
   (2 * k + 2 \<le> n \<longrightarrow> calls_ok E k (grammar E n))"
proof (induction n arbitrary: k)
  case (Suc n)
  have c: "calls_ok E (k - 1) (grammar E n)" if "2 * k + 1 \<le> Suc n" "0 < k"
    using Suc [of "k - 1"] that by simp
  have s: "keeping E T 0 k (g_statements (grammar E n))" "keeping E T 0 k (g_subexpr (grammar E n) l)" if "2 * k + 2 \<le> Suc n" for T l
    using Suc [of k] that by simp_all
  show ?case
    unfolding calls_ok_def grammar_Suc
    by (intro conjI impI allI statements_keep subexpr_keep explist_keep suffixes_keep assignment_keep elseif_keep
        operators_keep grammar_now fields_keep chunk_keep s c) simp_all
qed simp

subsection \<open>The parser\<close>

lemma setinput_left:
  assumes "feeds (pe_rd E) d cs" "ls_buff ls = []"
  obtains ls' where "luaX_setinput (pe_rd E) (luaZ_init d) ls = Some (Inr ((), ls'))" "left_to_read E (length cs + 1) ls'"
proof -
  from setinput_in [OF assms(1), of ls] assms(2) obtain ls' where
    s: "luaX_setinput (pe_rd E) (luaZ_init d) ls = Some (Inr ((), ls'))" "lex_in (pe_rd E) ls' cs"
    by (auto simp: runs_def split: option.splits sum.splits)
  have "token (ls_lookahead ls') = TK_EOS"
    using s(1) by (auto simp: luaX_setinput_def gen_defs lex_next_def split: option.splits)
  then have "length cs + pending (ls_t ls') + pending (ls_lookahead ls') \<le> length cs + 1" by (simp add: pending_def)
  with s(2) have "left_to_read E (length cs + 1) ls'" by (rule left_to_readI)
  with s(1) show thesis by (rule that)
qed

lemma open_fresh:
  assumes "left_to_read E k (ps_ls ps)" "ps_fs ps = []"
  obtains ps' where "open_func name ps = Some (Inr ((), ps'))" "ready E (\<lambda>_. True) fresh 0 k ps'"
proof -
  have "fs_ok False 2 empty_FuncState"
    by (simp add: fs_ok_def consts_ok_def empty_FuncState_def K_MAXSTACK_def)
  with assms show thesis
    by (intro that [unfolded open_func_def modM_def, OF refl])
      (auto simp: ready_def funcs_ok_def fresh_def fp_defs empty_FuncState_def LUAI_MAXUPVALUES_def left_to_read_def
        lex_in_def split: list.splits)
qed

lemma main_chunk:
  assumes "2 * k + 1 \<le> n"
  shows "does E (\<lambda>_. True) fresh 0 k
    (seqM [setcurM (\<lambda>fp. fp\<lparr>fp_is_vararg := VARARG_ISVARARG\<rparr>), nextM E, chunk (grammar E n), checkM TK_EOS]) (\<lambda>_. fp_ok)"
proof -
  have ok: "keeping E T 0 k (chunk (grammar E n))" for T
    using grammar_ok assms by (intro chunk_keep) blast
  have v: "fp_ok (fp\<lparr>fp_is_vararg := VARARG_ISVARARG\<rparr>)" if "fresh fp" for fp
    using that isvararg_flag [of 0] by (auto simp: fresh_def fp_defs fs_ok_def)
  show ?thesis unfolding seqM.simps
    by (rule does_then, rule does_setcur, erule v, intro does_step_then nextM_law checkM_law keeping_ret)
      (rule ok)
qed

lemma parser_run:
  assumes "feeds (pe_rd E) d cs" "ls_buff (ps_ls ps) = []" "ps_fs ps = []" "2 * length cs + 3 \<le> n"
    and run: "luaY_parser E n (luaZ_init d) name ps = Some y"
  shows "case y of Inl e \<Rightarrow> fine e | Inr (f, ps') \<Rightarrow> parsed_ok f"
proof -
  obtain ls where s: "luaX_setinput (pe_rd E) (luaZ_init d) (ps_ls ps) = Some (Inr ((), ls))"
    "left_to_read E (length cs + 1) ls"
    by (rule setinput_left [OF assms(1,2)])
  let ?ps1 = "ps\<lparr>ps_ls := ls\<rparr>"
  let ?m = "seqM [setcurM (\<lambda>fp. fp\<lparr>fp_is_vararg := VARARG_ISVARARG\<rparr>), nextM E, chunk (grammar E n), checkM TK_EOS]"
  let ?rest = "bindM close_func (\<lambda>fp. retM (proto_of fp))"
  obtain ps2 where o: "open_func name ?ps1 = Some (Inr ((), ps2))" "ready E (\<lambda>_. True) fresh 0 (length cs + 1) ps2"
    by (rule open_fresh [of E "length cs + 1" ?ps1 name]) (use s(2) assms(3) in simp_all)
  have inner: "does E (\<lambda>_. True) fresh 0 (length cs + 1) ?m (\<lambda>_. fp_ok)"
    by (rule main_chunk) (use assms(4) in simp)
  have e: "bindM ?m (\<lambda>_. ?rest) ps2 = Some y"
    using run s(1) o(1) by (simp add: luaY_parser_def thenM_def bindM_def lexM_def cong: option.case_cong)
  show ?thesis
  proof (cases "?m ps2")
    case None
    then show ?thesis using e by (simp add: bindM_def)
  next
    case (Some z)
    note oi = doesD [OF inner order_refl o(2) Some]
    show ?thesis
    proof (cases z)
      case (Inl err)
      then show ?thesis using e oi Some by (auto simp: bindM_def outcome_def)
    next
      case (Inr p)
      then obtain u ps3 where p: "z = Inr (u, ps3)" by (cases p) auto
      with oi have r: "ready E (\<lambda>_. True) fp_ok 0 (length cs + 1 - 0) ps3" by (simp add: outcome_def)
      have e2: "?rest ps3 = Some y" using e Some p by (simp add: bindM_def)
      show ?thesis
        using e2 close_func_run [OF r]
        by (cases "close_func ps3") (auto simp: bindM_def retM_def split: sum.splits)
    qed
  qed
qed

end
