(* ===== verification/Parser_Fuel.thy ===== *)
theory Parser_Fuel
  imports Parser_Runs
begin

text \<open>
  The fuel of the parser's model does not matter once it is enough: more of it gives the same
  result.  With that, the properties of the parser.
\<close>

text \<open>\<open>m'\<close> does what \<open>m\<close> does unless \<open>m\<close> runs out of fuel.\<close>

definition refines :: "('d, 'a) parse \<Rightarrow> ('d, 'a) parse \<Rightarrow> bool" where
  "refines m m' \<longleftrightarrow> (\<forall>ps. m ps = Some (Inl NoFuel) \<or> m' ps = m ps)"

named_theorems refI

lemma ref_refl: "refines m m"
  by (simp add: refines_def)

lemma ref_bind [refI]: "refines m m' \<Longrightarrow> (\<And>x. refines (f x) (f' x)) \<Longrightarrow> refines (bindM m f) (bindM m' f')"
  unfolding refines_def
proof (intro allI)
  fix ps
  assume m: "\<forall>ps. m ps = Some (Inl NoFuel) \<or> m' ps = m ps"
    and f: "\<And>x. \<forall>ps. f x ps = Some (Inl NoFuel) \<or> f' x ps = f x ps"
  show "bindM m f ps = Some (Inl NoFuel) \<or> bindM m' f' ps = bindM m f ps"
  proof (cases "m ps = Some (Inl NoFuel)")
    case False
    then have eq: "m' ps = m ps" using m by blast
    have "f x s = Some (Inl NoFuel) \<or> f' x s = f x s" for x s using f by blast
    then show ?thesis by (simp add: bindM_def eq split: option.split sum.split prod.split)
  qed (simp add: bindM_def)
qed

lemma ref_then [refI]: "refines m m' \<Longrightarrow> refines n n' \<Longrightarrow> refines (thenM m n) (thenM m' n')"
  unfolding thenM_def by (intro ref_bind)

lemma ref_seq [refI]: "refines m m' \<Longrightarrow> refines (seqM ms) (seqM ms') \<Longrightarrow> refines (seqM (m # ms)) (seqM (m' # ms'))"
  by (simp add: ref_then)

lemma ref_if [refI]: "refines m m' \<Longrightarrow> refines n n' \<Longrightarrow> refines (if b then m else n) (if b then m' else n')"
  by simp

lemma ref_prod [refI]: "(\<And>a b. refines (f a b) (f' a b)) \<Longrightarrow> refines (case p of (a, b) \<Rightarrow> f a b) (case p of (a, b) \<Rightarrow> f' a b)"
  by (cases p) simp

lemma ref_list [refI]:
  "refines m m' \<Longrightarrow> (\<And>x xs. refines (f x xs) (f' x xs)) \<Longrightarrow>
   refines (case r of [] \<Rightarrow> m | x # xs \<Rightarrow> f x xs) (case r of [] \<Rightarrow> m' | x # xs \<Rightarrow> f' x xs)"
  by (cases r) simp_all

definition more :: "'d grammar \<Rightarrow> 'd grammar \<Rightarrow> bool" where
  "more g g' \<longleftrightarrow> refines (g_chunk g) (g_chunk g') \<and> refines (g_statements g) (g_statements g') \<and>
     (\<forall>l. refines (g_subexpr g l) (g_subexpr g' l)) \<and>
     (\<forall>l v op. refines (g_operators g l v op) (g_operators g' l v op)) \<and>
     (\<forall>n v. refines (g_explist g n v) (g_explist g' n v)) \<and> (\<forall>v. refines (g_suffixes g v) (g_suffixes g' v)) \<and>
     (\<forall>cc. refines (g_fields g cc) (g_fields g' cc)) \<and>
     (\<forall>lhs n. refines (g_assignment g lhs n) (g_assignment g' lhs n)) \<and>
     (\<forall>e f. refines (g_elseif g e f) (g_elseif g' e f))"

lemma more_calls [refI]:
  assumes "more g g'"
  shows "refines (g_chunk g) (g_chunk g')" "refines (g_statements g) (g_statements g')"
    "refines (g_subexpr g l) (g_subexpr g' l)" "refines (g_operators g l v op) (g_operators g' l v op)"
    "refines (g_explist g n v) (g_explist g' n v)" "refines (g_suffixes g v) (g_suffixes g' v)"
    "refines (g_fields g cc) (g_fields g' cc)" "refines (g_assignment g lhs n) (g_assignment g' lhs n)"
    "refines (g_elseif g e f) (g_elseif g' e f)"
  using assms by (simp_all add: more_def)

subsection \<open>Every function of the grammar\<close>

lemma ref_expr [refI]: "more g g' \<Longrightarrow> refines (expr g) (expr g')"
  unfolding expr_def by (intro refI ref_refl)

lemma ref_yindex [refI]: "more g g' \<Longrightarrow> refines (yindex E g) (yindex E g')"
  unfolding yindex_def by (intro refI ref_refl)

lemma ref_recfield [refI]: "more g g' \<Longrightarrow> refines (recfield E g cc) (recfield E g' cc)"
  unfolding recfield_def by (intro refI ref_refl)

lemma ref_listfield [refI]: "more g g' \<Longrightarrow> refines (listfield g cc) (listfield g' cc)"
  unfolding listfield_def by (intro refI ref_refl)

lemma ref_fields [refI]: "more g g' \<Longrightarrow> refines (fields E g cc) (fields E g' cc)"
  unfolding fields_def by (intro refI ref_refl)

lemma ref_constructor [refI]: "more g g' \<Longrightarrow> refines (constructor E g) (constructor E g')"
  unfolding constructor_def by (intro refI ref_refl)

lemma ref_body [refI]: "more g g' \<Longrightarrow> refines (body E g b l) (body E g' b l)"
  unfolding body_def by (intro refI ref_refl)

lemma ref_explist [refI]: "more g g' \<Longrightarrow> refines (explist E g n v) (explist E g' n v)"
  unfolding explist_def by (intro refI ref_refl)

lemma ref_explist1 [refI]: "more g g' \<Longrightarrow> refines (explist1 g) (explist1 g')"
  unfolding explist1_def by (intro refI ref_refl)

lemma ref_paren [refI]: "more g g' \<Longrightarrow> refines (paren_args E g l) (paren_args E g' l)"
  unfolding paren_args_def by (intro refI ref_refl)

lemma ref_funcargs [refI]: "more g g' \<Longrightarrow> refines (funcargs E g f) (funcargs E g' f)"
  unfolding funcargs_def Let_def by (intro refI ref_refl)

lemma ref_prefixexp [refI]: "more g g' \<Longrightarrow> refines (prefixexp E g) (prefixexp E g')"
  unfolding prefixexp_def by (intro refI ref_refl)

lemma ref_suffixes [refI]: "more g g' \<Longrightarrow> refines (suffixes E g v) (suffixes E g' v)"
  unfolding suffixes_def by (intro refI ref_refl)

lemma ref_primaryexp [refI]: "more g g' \<Longrightarrow> refines (primaryexp E g) (primaryexp E g')"
  unfolding primaryexp_def by (intro refI ref_refl)

lemma ref_simpleexp [refI]: "more g g' \<Longrightarrow> refines (simpleexp E g) (simpleexp E g')"
  unfolding simpleexp_def by (intro refI ref_refl)

lemma ref_operators [refI]: "more g g' \<Longrightarrow> refines (operators E g l v op) (operators E g' l v op)"
  unfolding operators_def by (intro refI ref_refl)

lemma ref_subexpr [refI]: "more g g' \<Longrightarrow> refines (subexpr E g l) (subexpr E g' l)"
  unfolding subexpr_def Let_def by (intro refI ref_refl)

lemma ref_block [refI]: "more g g' \<Longrightarrow> refines (block g) (block g')"
  unfolding block_def by (intro refI ref_refl)

lemma ref_assignment [refI]: "more g g' \<Longrightarrow> refines (assignment E g lhs n) (assignment E g' lhs n)"
  unfolding assignment_def by (intro refI ref_refl)

lemma ref_exprstat [refI]: "more g g' \<Longrightarrow> refines (exprstat E g) (exprstat E g')"
  unfolding exprstat_def by (intro refI ref_refl)

lemma ref_cond [refI]: "more g g' \<Longrightarrow> refines (cond g) (cond g')"
  unfolding cond_def by (intro refI ref_refl)

lemma ref_while [refI]: "more g g' \<Longrightarrow> refines (whilestat E g l) (whilestat E g' l)"
  unfolding whilestat_def by (intro refI ref_refl)

lemma ref_repeat [refI]: "more g g' \<Longrightarrow> refines (repeatstat E g l) (repeatstat E g' l)"
  unfolding repeatstat_def by (intro refI ref_refl)

lemma ref_exp1 [refI]: "more g g' \<Longrightarrow> refines (exp1 g) (exp1 g')"
  unfolding exp1_def by (intro refI ref_refl)

lemma ref_forbody [refI]: "more g g' \<Longrightarrow> refines (forbody E g b l n i) (forbody E g' b l n i)"
  unfolding forbody_def by (intro refI ref_refl)

lemma ref_for [refI]:
  "more g g' \<Longrightarrow> refines (fornum E g s l) (fornum E g' s l)" "more g g' \<Longrightarrow> refines (forlist E g s) (forlist E g' s)"
  unfolding fornum_def forlist_def by (intro refI ref_refl; assumption)+

lemma ref_forstat [refI]: "more g g' \<Longrightarrow> refines (forstat E g l) (forstat E g' l)"
  unfolding forstat_def by (intro refI ref_refl)

lemma ref_test_then [refI]: "more g g' \<Longrightarrow> refines (test_then_block E g) (test_then_block E g')"
  unfolding test_then_block_def by (intro refI ref_refl)

lemma ref_elseif [refI]: "more g g' \<Longrightarrow> refines (elseif_loop E g e f) (elseif_loop E g' e f)"
  unfolding elseif_loop_def by (intro refI ref_refl)

lemma ref_ifstat [refI]: "more g g' \<Longrightarrow> refines (ifstat E g l) (ifstat E g' l)"
  unfolding ifstat_def by (intro refI ref_refl)

lemma ref_local [refI]:
  "more g g' \<Longrightarrow> refines (localfunc E g) (localfunc E g')" "more g g' \<Longrightarrow> refines (localstat E g) (localstat E g')"
  unfolding localfunc_def localstat_def by (intro refI ref_refl; assumption)+

lemma ref_funcstat [refI]: "more g g' \<Longrightarrow> refines (funcstat E g l) (funcstat E g' l)"
  unfolding funcstat_def by (intro refI ref_refl)

lemma ref_retstat [refI]: "more g g' \<Longrightarrow> refines (retstat E g) (retstat E g')"
  unfolding retstat_def return_values_def by (intro refI ref_refl)

lemma ref_statement [refI]: "more g g' \<Longrightarrow> refines (statement E g) (statement E g')"
  unfolding statement_def by (intro refI ref_refl)

lemma ref_statements [refI]: "more g g' \<Longrightarrow> refines (statements E g) (statements E g')"
  unfolding statements_def by (intro refI ref_refl)

lemma ref_chunk [refI]: "more g g' \<Longrightarrow> refines (chunk g) (chunk g')"
  unfolding chunk_def by (intro refI ref_refl)

lemma more_fuel: "m \<le> n \<Longrightarrow> more (grammar E m) (grammar E n)"
proof (induction m arbitrary: n)
  case 0
  then show ?case by (simp add: more_def refines_def failM_def)
next
  case (Suc m)
  then obtain k where "n = Suc k" "more (grammar E m) (grammar E k)" by (cases n) auto
  then show ?case unfolding more_def [of "grammar E (Suc m)"] by (simp only: grammar_Suc, intro conjI allI refI)
qed

lemma parser_more_fuel: "m \<le> n \<Longrightarrow> refines (luaY_parser E m z name) (luaY_parser E n z name)"
  unfolding luaY_parser_def by (intro refI ref_refl more_fuel)

subsection \<open>Properties of the parser\<close>

text \<open>A parser that has read nothing.\<close>

definition unused :: "'d PState \<Rightarrow> bool" where
  "unused ps \<longleftrightarrow> ls_buff (ps_ls ps) = [] \<and> ps_fs ps = []"

text \<open>
  C6: on every chunk, the parser nests its grammar functions at most twice per character, plus
  three, before it returns or raises an error, and it never reads outside the blocks of its
  stream or writes outside the lexer's buffer.\<close>

theorem parser_bounded:
  assumes "feeds (pe_rd E) d cs" "unused ps" "2 * length cs + 3 \<le> n"
  shows "luaY_parser E n (luaZ_init d) name ps \<noteq> Some (Inl NoFuel) \<and>
    luaY_parser E n (luaZ_init d) name ps \<noteq> Some (Inl (LexStop MemError))"
  using parser_run [OF assms(1) _ _ assms(3), of ps name] assms(2) by (fastforce simp: unused_def fine_def)

text \<open>
  the result of the parser does not depend on the fuel of the model: it is the same for all
  bounds on the nesting that are enough for the length of the chunk.\<close>

theorem parser_fuel_irrelevant:
  assumes "feeds (pe_rd E) d cs" "unused ps" "2 * length cs + 3 \<le> m" "2 * length cs + 3 \<le> n"
  shows "luaY_parser E m (luaZ_init d) name ps = luaY_parser E n (luaZ_init d) name ps"
proof -
  have f: "luaY_parser E k (luaZ_init d) name ps \<noteq> Some (Inl NoFuel)" if "2 * length cs + 3 \<le> k" for k
    using parser_run [OF assms(1) _ _ that, of ps name] assms(2) by (fastforce simp: unused_def fine_def)
  have "luaY_parser E b (luaZ_init d) name ps = luaY_parser E a (luaZ_init d) name ps" if "a \<le> b" "2 * length cs + 3 \<le> a" for a b
    using parser_more_fuel [OF that(1), of E "luaZ_init d" name] f [OF that(2)] by (simp add: refines_def) blast
  from this [of m n] this [of n m] assms(3,4) show ?thesis by (cases "m \<le> n") simp_all
qed

text \<open>
  C4: every prototype that the parser returns, and every one nested in it, is well formed: it
  passes the checks that the bytecode checker makes first (its frame holds its parameters, its
  last instruction is a return, its line table covers its code), its frame is smaller than
  \<^verbatim>\<open>MAXSTACK\<close>, and it has a name for each of its at most 60 upvalues.\<close>

theorem parser_well_formed:
  assumes "feeds (pe_rd E) d cs" "unused ps" "2 * length cs + 3 \<le> n"
    and "luaY_parser E n (luaZ_init d) name ps = Some (Inr (f, ps'))"
  shows "parsed_ok f"
  using parser_run [OF assms(1) _ _ assms(3,4)] assms(2) by (simp add: unused_def)

definition return_env :: "u8 list list penv" where
  "return_env = \<lparr>pe_lex = c_env, pe_rd = block_reader, pe_fp = demo_fp\<rparr>"

definition parser_start :: "u8 list list PState" where
  "parser_start =
     \<lparr>ps_ls = \<lparr>ls_current = 0, ls_linenumber = 0, ls_lastline = 0, ls_t = \<lparr>token = 0, seminfo = SemNone\<rparr>,
        ls_lookahead = \<lparr>token = 0, seminfo = SemNone\<rparr>, ls_z = luaZ_init [], ls_buff = [], ls_buffsize = 0,
        ls_h = [], ls_decpoint = 46\<rparr>,
      ps_fs = [], ps_nCcalls = 0\<rparr>"

text \<open>The first statement of a chunk, whatever the grammar for what is nested in it.\<close>

definition first_statement :: "'d penv \<Rightarrow> 'd grammar \<Rightarrow> 'd ZIO \<Rightarrow> string \<Rightarrow> ('d, Proto) parse" where
  "first_statement E g z name =
     thenM (seqM [lexM (luaX_setinput (pe_rd E) z), open_func name,
       setcurM (\<lambda>fp. fp\<lparr>fp_is_vararg := VARARG_ISVARARG\<rparr>), nextM E,
       seqM [enterlevel, statements E g, leavelevel], checkM TK_EOS])
     (bindM close_func (\<lambda>fp. retM (proto_of fp)))"

lemma parser_first: "luaY_parser E (Suc n) z name = first_statement E (grammar E n) z name"
  by (simp only: luaY_parser_def first_statement_def chunk_def grammar_Suc)

lemma return_feeds: "feeds (pe_rd return_env) [str_bytes ''return''] (str_bytes ''return'')"
  using feeds.block [of block_reader "[str_bytes ''return'']" "str_bytes ''return''" "[]" "[]"]
  by (simp add: return_env_def block_reader_def str_bytes_def feeds.eof)

lemma start_unused: "unused parser_start"
  by (simp add: unused_def parser_start_def)

theorem parser_bounded_witness:
  "luaY_parser return_env 15 (luaZ_init [str_bytes ''return'']) ''=t'' parser_start \<noteq> Some (Inl NoFuel)"
proof -
  have "2 * length (str_bytes ''return'') + 3 \<le> 15" by (simp add: str_bytes_def)
  from parser_bounded [OF return_feeds start_unused this, of "''=t''"] show ?thesis by blast
qed

theorem parser_fuel_irrelevant_witness:
  "luaY_parser return_env 15 (luaZ_init [str_bytes ''return'']) ''=t'' parser_start =
   luaY_parser return_env 1000 (luaZ_init [str_bytes ''return'']) ''=t'' parser_start"
  by (rule parser_fuel_irrelevant [OF return_feeds start_unused]) (simp_all add: str_bytes_def)

theorem parser_well_formed_witness:
  "\<exists>f ps'. luaY_parser return_env (Suc 14) (luaZ_init [str_bytes ''return'']) ''=t'' parser_start = Some (Inr (f, ps')) \<and>
     p_code f = [8388638, 8388638] \<and> parsed_ok f"
proof -
  have n: "2 * length (str_bytes ''return'') + 3 \<le> Suc 14" by (simp add: str_bytes_def)
  have "map_option (map_sum (\<lambda>_. ()) fst) (first_statement return_env g (luaZ_init [str_bytes ''return'']) ''=t'' parser_start) =
    Some (Inr (Proto [] [8388638, 8388638] [] [1, 1] [] [] (Some ''=t'') 0 0 0 0 2 2))" for g
    by code_simp
  then have "map_option (map_sum (\<lambda>_. ()) fst) (luaY_parser return_env (Suc 14) (luaZ_init [str_bytes ''return'']) ''=t'' parser_start) =
    Some (Inr (Proto [] [8388638, 8388638] [] [1, 1] [] [] (Some ''=t'') 0 0 0 0 2 2))"
    by (simp only: parser_first)
  then obtain r where "luaY_parser return_env (Suc 14) (luaZ_init [str_bytes ''return'']) ''=t'' parser_start = Some r"
    "map_sum (\<lambda>_. ()) fst r = Inr (Proto [] [8388638, 8388638] [] [1, 1] [] [] (Some ''=t'') 0 0 0 0 2 2)"
    by (auto simp only: map_option_eq_Some)
  then obtain f ps' where r: "luaY_parser return_env (Suc 14) (luaZ_init [str_bytes ''return'']) ''=t'' parser_start = Some (Inr (f, ps'))"
    "f = Proto [] [8388638, 8388638] [] [1, 1] [] [] (Some ''=t'') 0 0 0 0 2 2"
    by (cases r) auto
  with parser_well_formed [OF return_feeds start_unused n r(1)] show ?thesis by auto
qed

end
