(* ===== verification/Lstring.thy ===== *)
theory Lstring
  imports Table_Laws Lexer
begin

text \<open>
  The table of strings (\<^verbatim>\<open>lstring.c\<close>): every string that Lua handles is kept once, so that
  equal strings have equal addresses.  A bucket is the list of the addresses chained in it, from
  its head.  Memory is a map from addresses to strings; \<^verbatim>\<open>malloc\<close> is a parameter that gives an
  address, or \<^const>\<open>None\<close> when there is no memory.  The collector's part is the mark of a string and
  the current white, by which a dead string that is asked for again is revived.
\<close>

subsection \<open>Strings and their marks\<close>

record TStr =
  ts_bytes :: string
  ts_hash :: u32
  ts_marked :: u8

record stringtable =
  st_hash :: "u64 list list"
  st_nuse :: u32
  st_mem :: "u64 \<rightharpoonup> TStr"
  st_currentwhite :: u8
  st_sweepstring :: bool

datatype mem_error = Block_too_big | Not_enough_memory | Dangling_pointer

definition WHITEBITS :: u8 where "WHITEBITS = 3"

definition luaC_white :: "u8 \<Rightarrow> u8" where
  "luaC_white currentwhite = currentwhite AND WHITEBITS"

definition otherwhite :: "u8 \<Rightarrow> u8" where
  "otherwhite currentwhite = currentwhite XOR WHITEBITS"

definition isdead :: "u8 \<Rightarrow> u8 \<Rightarrow> bool" where
  "isdead currentwhite marked \<longleftrightarrow> marked AND otherwhite currentwhite AND WHITEBITS \<noteq> 0"

definition changewhite :: "u8 \<Rightarrow> u8" where
  "changewhite marked = marked XOR WHITEBITS"

definition st_size :: "stringtable \<Rightarrow> int" where
  "st_size tb = int (length (st_hash tb))"

definition lmod :: "u32 \<Rightarrow> int \<Rightarrow> nat" where
  "lmod h n = nat (uint h AND (n - 1))"

definition str_at :: "stringtable \<Rightarrow> u64 \<Rightarrow> string option" where
  "str_at tb a = map_option ts_bytes (st_mem tb a)"

subsection \<open>The hash\<close>

definition hash_step :: "u32 \<Rightarrow> char \<Rightarrow> u32" where
  "hash_step h c = h XOR (push_bit 5 h + drop_bit 2 h + of_nat (of_char c))"

function hash_loop :: "string \<Rightarrow> nat \<Rightarrow> nat \<Rightarrow> u32 \<Rightarrow> u32" where
  "hash_loop str step l1 h =
     (if step \<le> l1 \<and> 0 < step then hash_loop str step (l1 - step) (hash_step h (str ! (l1 - 1))) else h)"
  by pat_completeness auto
termination by (relation "measure (\<lambda>(str, step, l1, h). l1)") auto

declare hash_loop.simps [simp del]

definition luaS_hash :: "string \<Rightarrow> u32" where
  "luaS_hash str = hash_loop str (drop_bit 5 (length str) + 1) (length str) (of_nat (length str))"

subsection \<open>Growing\<close>

definition chain_node :: "stringtable \<Rightarrow> int \<Rightarrow> u64 \<Rightarrow> u64 list list \<Rightarrow> u64 list list" where
  "chain_node tb newsize p newhash =
     (let h = (case st_mem tb p of Some ts \<Rightarrow> ts_hash ts | None \<Rightarrow> 0); h1 = lmod h newsize in
      newhash[h1 := p # newhash ! h1])"

definition luaS_resize :: "int \<Rightarrow> stringtable \<Rightarrow> stringtable" where
  "luaS_resize newsize tb =
     (if st_sweepstring tb then tb
      else tb\<lparr>st_hash := fold (fold (chain_node tb newsize)) (st_hash tb) (replicate (nat newsize) [])\<rparr>)"

subsection \<open>Interning\<close>

text \<open>\<^verbatim>\<open>(MAX_SIZET - sizeof(TString)) / sizeof(char)\<close>; the header of a string takes 24 bytes.\<close>

type_synonym str_malloc = "nat \<Rightarrow> stringtable \<Rightarrow> u64 option"

definition MAX_STRING :: int where "MAX_STRING = (2 ^ 64 - 3) - 24"

definition newlstr :: "str_malloc \<Rightarrow> string \<Rightarrow> u32 \<Rightarrow> stringtable \<Rightarrow> mem_error + u64 \<times> stringtable" where
  "newlstr malloc str h tb =
     (if int (length str) + 1 > MAX_STRING then Inl Block_too_big
      else case malloc (length str + 1 + 24) tb of
        None \<Rightarrow> Inl Not_enough_memory
      | Some ts \<Rightarrow>
          let tb = tb\<lparr>st_mem := (st_mem tb)(ts \<mapsto>
                       \<lparr>ts_bytes = str, ts_hash = h, ts_marked = luaC_white (st_currentwhite tb)\<rparr>)\<rparr>;
              h = lmod h (st_size tb);
              tb = tb\<lparr>st_hash := (st_hash tb)[h := ts # st_hash tb ! h], st_nuse := st_nuse tb + 1\<rparr>;
              tb = (if st_nuse tb > word_of_int (st_size tb) \<and> st_size tb \<le> MAX_INT div 2
                    then luaS_resize (st_size tb * 2) tb else tb)
          in Inr (ts, tb))"

fun find_str :: "stringtable \<Rightarrow> string \<Rightarrow> u64 list \<Rightarrow> mem_error + u64 option" where
  "find_str tb str [] = Inr None"
| "find_str tb str (ob # obs) =
     (case st_mem tb ob of
        None \<Rightarrow> Inl Dangling_pointer
      | Some ts \<Rightarrow>
          if length (ts_bytes ts) = length str \<and> ts_bytes ts = str then Inr (Some ob) else find_str tb str obs)"

definition revive :: "u64 \<Rightarrow> stringtable \<Rightarrow> stringtable" where
  "revive a tb =
     (case st_mem tb a of
        Some ts \<Rightarrow>
          if isdead (st_currentwhite tb) (ts_marked ts)
          then tb\<lparr>st_mem := (st_mem tb)(a \<mapsto> ts\<lparr>ts_marked := changewhite (ts_marked ts)\<rparr>)\<rparr>
          else tb
      | None \<Rightarrow> tb)"

definition luaS_newlstr :: "str_malloc \<Rightarrow> string \<Rightarrow> stringtable \<Rightarrow> mem_error + u64 \<times> stringtable" where
  "luaS_newlstr malloc str tb =
     (let h = luaS_hash str in
      case find_str tb str (st_hash tb ! lmod h (st_size tb)) of
        Inl e \<Rightarrow> Inl e
      | Inr (Some a) \<Rightarrow> Inr (a, revive a tb)
      | Inr None \<Rightarrow> newlstr malloc str h tb)"

subsection \<open>The invariant of the table\<close>

text \<open>
  The size is a power of two; a bucket holds each string whose hash selects it once, and nothing
  else; the hash field is the hash of the bytes; no two addresses hold equal strings.\<close>

definition in_bucket :: "stringtable \<Rightarrow> nat \<Rightarrow> u64 \<Rightarrow> bool" where
  "in_bucket tb i a \<longleftrightarrow> (\<exists>ts. st_mem tb a = Some ts \<and> lmod (ts_hash ts) (st_size tb) = i)"

definition strtab_ok :: "stringtable \<Rightarrow> bool" where
  "strtab_ok tb \<longleftrightarrow>
     (\<exists>k. length (st_hash tb) = 2 ^ k) \<and>
     (\<forall>i < length (st_hash tb). distinct (st_hash tb ! i) \<and> set (st_hash tb ! i) = Collect (in_bucket tb i)) \<and>
     (\<forall>a ts. st_mem tb a = Some ts \<longrightarrow> ts_hash ts = luaS_hash (ts_bytes ts)) \<and>
     (\<forall>a b s. str_at tb a = Some s \<longrightarrow> str_at tb b = Some s \<longrightarrow> a = b)"

lemma strtab_okI:
  assumes "length (st_hash tb) = 2 ^ k"
    "\<And>i. i < length (st_hash tb) \<Longrightarrow> distinct (st_hash tb ! i)"
    "\<And>i a. i < length (st_hash tb) \<Longrightarrow> a \<in> set (st_hash tb ! i) \<longleftrightarrow> in_bucket tb i a"
    "\<And>a ts. st_mem tb a = Some ts \<Longrightarrow> ts_hash ts = luaS_hash (ts_bytes ts)"
    "\<And>a b s. str_at tb a = Some s \<Longrightarrow> str_at tb b = Some s \<Longrightarrow> a = b"
  shows "strtab_ok tb"
  unfolding strtab_ok_def using assms by blast

lemma strtab_okD:
  assumes "strtab_ok tb"
  shows "\<exists>k. length (st_hash tb) = 2 ^ k"
    "i < length (st_hash tb) \<Longrightarrow> distinct (st_hash tb ! i)"
    "i < length (st_hash tb) \<Longrightarrow> a \<in> set (st_hash tb ! i) \<longleftrightarrow> in_bucket tb i a"
    "st_mem tb a = Some ts \<Longrightarrow> ts_hash ts = luaS_hash (ts_bytes ts)"
    "str_at tb a = Some s \<Longrightarrow> str_at tb b = Some s \<Longrightarrow> a = b"
  using assms unfolding strtab_ok_def by blast+

lemma lmod_less: "n = 2 ^ k \<Longrightarrow> lmod h (int n) < n"
proof -
  assume n: "n = 2 ^ k"
  have "uint h AND (2 ^ k - 1) = uint h mod 2 ^ k" by (rule and_pow2) simp
  moreover have "uint h mod 2 ^ k < (2 :: int) ^ k" by simp
  ultimately show ?thesis using n by (simp add: lmod_def nat_less_iff)
qed

lemma lmod_bucket: "strtab_ok tb \<Longrightarrow> lmod h (st_size tb) < length (st_hash tb)"
  using strtab_okD(1) lmod_less unfolding st_size_def by blast

subsection \<open>Growing keeps it\<close>

lemma fold_fold_concat: "fold (fold f) xss y = fold f (concat xss) y"
  by (induction xss arbitrary: y) simp_all

lemma distinct_concat_position:
  assumes "\<And>i. i < length xss \<Longrightarrow> distinct (xss ! i)"
    "\<And>i x. i < length xss \<Longrightarrow> x \<in> set (xss ! i) \<Longrightarrow> f x = i + off"
  shows "distinct (concat xss)"
  using assms
proof (induction xss arbitrary: off)
  case (Cons xs xss)
  have "distinct (concat xss)" using Cons.IH [of "Suc off"] Cons.prems [of "Suc _"] by simp
  moreover have "f x = off" if "x \<in> set xs" for x using Cons.prems(2) [of 0] that by simp
  moreover have "\<exists>i. f x = Suc i + off" if "ys \<in> set xss" "x \<in> set ys" for x ys
    using Cons.prems(2) [of "Suc _"] that by (auto simp: in_set_conv_nth)
  ultimately show ?case using Cons.prems(1) [of 0] by fastforce
qed simp

definition node_pos :: "stringtable \<Rightarrow> int \<Rightarrow> u64 \<Rightarrow> nat" where
  "node_pos tb newsize p = lmod (case st_mem tb p of Some ts \<Rightarrow> ts_hash ts | None \<Rightarrow> 0) newsize"

lemma rechain:
  assumes "i < length acc" "\<And>p. p \<in> set ps \<Longrightarrow> node_pos tb n p < length acc"
  shows "length (fold (chain_node tb n) ps acc) = length acc \<and>
    fold (chain_node tb n) ps acc ! i = rev (filter (\<lambda>p. node_pos tb n p = i) ps) @ acc ! i"
  using assms
proof (induction ps arbitrary: acc)
  case (Cons p ps)
  let ?acc = "chain_node tb n p acc"
  have c: "?acc = acc[node_pos tb n p := p # acc ! node_pos tb n p]"
    by (simp add: chain_node_def node_pos_def Let_def)
  have "length ?acc = length acc" by (simp add: c)
  with Cons.IH [of ?acc] Cons.prems show ?case by (simp add: c nth_list_update)
qed simp

lemma strtab_resize_ok:
  assumes ok: "strtab_ok tb" and n: "n = int (2 ^ k)"
  shows "strtab_ok (luaS_resize n tb)" "st_mem (luaS_resize n tb) = st_mem tb"
    "st_currentwhite (luaS_resize n tb) = st_currentwhite tb"
proof -
  show "st_mem (luaS_resize n tb) = st_mem tb" "st_currentwhite (luaS_resize n tb) = st_currentwhite tb"
    by (simp_all add: luaS_resize_def)
  show "strtab_ok (luaS_resize n tb)"
  proof (cases "st_sweepstring tb")
    case False
    let ?acc = "replicate (2 ^ k) [] :: u64 list list" and ?ps = "concat (st_hash tb)"
    define tb' where "tb' = luaS_resize n tb"
    have h: "st_hash tb' = fold (chain_node tb n) ?ps ?acc" and m: "st_mem tb' = st_mem tb"
      using False n by (simp_all add: tb'_def luaS_resize_def fold_fold_concat nat_power_eq)
    have pos: "node_pos tb n p < 2 ^ k" for p
      unfolding node_pos_def n by (rule lmod_less) simp
    have r: "length (st_hash tb') = 2 ^ k"
      "\<And>i. i < 2 ^ k \<Longrightarrow> st_hash tb' ! i = rev (filter (\<lambda>p. node_pos tb n p = i) ?ps)"
      using rechain [of _ ?acc ?ps tb n] pos unfolding h by auto
    have size: "st_size tb' = n" using r(1) n by (simp add: st_size_def)
    have mem: "p \<in> set ?ps \<longleftrightarrow> p \<in> dom (st_mem tb)" for p
    proof -
      have "p \<in> set ?ps \<longleftrightarrow> (\<exists>i < length (st_hash tb). p \<in> set (st_hash tb ! i))"
        by (metis (no_types, lifting) UN_iff in_set_conv_nth nth_mem set_concat)
      also have "\<dots> \<longleftrightarrow> (\<exists>i < length (st_hash tb). in_bucket tb i p)" using strtab_okD(3) [OF ok] by blast
      also have "\<dots> \<longleftrightarrow> p \<in> dom (st_mem tb)" using lmod_bucket [OF ok] by (auto simp: in_bucket_def)
      finally show ?thesis .
    qed
    have dis: "distinct ?ps"
      by (rule distinct_concat_position [where f = "node_pos tb (st_size tb)" and off = 0])
        (use strtab_okD(2,3) [OF ok] in \<open>auto simp: in_bucket_def node_pos_def\<close>)
    show ?thesis unfolding tb'_def [symmetric]
    proof (rule strtab_okI [OF r(1)])
      fix i assume i: "i < length (st_hash tb')"
      then show "distinct (st_hash tb' ! i)" using r dis by simp
      show "a \<in> set (st_hash tb' ! i) \<longleftrightarrow> in_bucket tb' i a" for a
        using i r mem [of a] by (auto simp: in_bucket_def node_pos_def m size)
    next
      show "ts_hash ts = luaS_hash (ts_bytes ts)" if "st_mem tb' a = Some ts" for a ts
        using that strtab_okD(4) [OF ok] by (simp add: m)
      show "a = b" if "str_at tb' a = Some s" "str_at tb' b = Some s" for a b s
        using that strtab_okD(5) [OF ok] by (simp add: str_at_def m)
    qed
  qed (use ok in \<open>simp add: luaS_resize_def\<close>)
qed

subsection \<open>Interning keeps it, and finds what is there\<close>

lemma find_str_none:
  "find_str tb str os = Inr None \<Longrightarrow> a \<in> set os \<Longrightarrow> st_mem tb a = Some ts \<Longrightarrow> ts_bytes ts \<noteq> str"
  by (induction os) (auto split: option.splits if_splits)

lemma find_str_some:
  "find_str tb str os = Inr (Some a) \<Longrightarrow> a \<in> set os \<and> str_at tb a = Some str"
  by (induction os) (auto simp: str_at_def split: option.splits if_splits)

lemma find_str_memory:
  "\<forall>a \<in> set os. a \<in> dom (st_mem tb) \<Longrightarrow> find_str tb str os \<noteq> Inl e"
  by (induction os) (auto split: option.splits)

lemma bucket_memory:
  assumes "strtab_ok tb" shows "\<forall>a \<in> set (st_hash tb ! lmod h (st_size tb)). a \<in> dom (st_mem tb)"
  using strtab_okD(3) [OF assms lmod_bucket [OF assms]] by (auto simp: in_bucket_def)

lemma absent:
  assumes ok: "strtab_ok tb" and f: "find_str tb str (st_hash tb ! lmod (luaS_hash str) (st_size tb)) = Inr None"
  shows "str_at tb a \<noteq> Some str"
proof
  assume "str_at tb a = Some str"
  then obtain ts where ts: "st_mem tb a = Some ts" "ts_bytes ts = str" by (auto simp: str_at_def)
  then have "in_bucket tb (lmod (luaS_hash str) (st_size tb)) a"
    using strtab_okD(4) [OF ok ts(1)] by (simp add: in_bucket_def)
  with strtab_okD(3) [OF ok lmod_bucket [OF ok]] find_str_none [OF f _ ts(1)] ts(2) show False by blast
qed

lemma revive_ok:
  assumes "strtab_ok tb"
  shows "strtab_ok (revive a tb)" "str_at (revive a tb) = str_at tb" "st_hash (revive a tb) = st_hash tb"
proof -
  have s: "str_at (revive a tb) b = str_at tb b" for b
    by (auto simp: revive_def str_at_def split: option.split)
  then show "str_at (revive a tb) = str_at tb" by blast
  show h: "st_hash (revive a tb) = st_hash tb" by (auto simp: revive_def split: option.split)
  have m: "st_mem (revive a tb) b = Some ts \<Longrightarrow>
      \<exists>ts'. st_mem tb b = Some ts' \<and> ts_hash ts' = ts_hash ts \<and> ts_bytes ts' = ts_bytes ts" for b ts
    by (auto simp: revive_def split: option.splits if_splits)
  have m': "st_mem tb b = Some ts \<Longrightarrow>
      \<exists>ts'. st_mem (revive a tb) b = Some ts' \<and> ts_hash ts' = ts_hash ts" for b ts
    by (auto simp: revive_def split: option.splits if_splits)
  have b: "in_bucket (revive a tb) i b \<longleftrightarrow> in_bucket tb i b" for i b
    using m m' unfolding in_bucket_def st_size_def h by metis
  obtain k where k: "length (st_hash tb) = 2 ^ k" using strtab_okD(1) [OF assms] by blast
  show "strtab_ok (revive a tb)"
  proof (rule strtab_okI)
    show "length (st_hash (revive a tb)) = 2 ^ k" using k h by simp
    show "ts_hash ts = luaS_hash (ts_bytes ts)" if "st_mem (revive a tb) c = Some ts" for c ts
      using m [OF that] strtab_okD(4) [OF assms] by metis
  qed (use strtab_okD [OF assms] h b s in auto)
qed

lemma newlstr_ok:
  assumes ok: "strtab_ok tb" and fresh: "\<And>n a. malloc n tb = Some a \<Longrightarrow> st_mem tb a = None"
    and new: "\<And>a. str_at tb a \<noteq> Some str" and r: "newlstr malloc str (luaS_hash str) tb = Inr (a, tb')"
  shows "strtab_ok tb'" "str_at tb' = (str_at tb)(a \<mapsto> str)" "str_at tb a = None"
proof -
  let ?ts = "\<lparr>ts_bytes = str, ts_hash = luaS_hash str, ts_marked = luaC_white (st_currentwhite tb)\<rparr>"
  let ?p = "lmod (luaS_hash str) (st_size tb)"
  define tb1 where "tb1 = tb\<lparr>st_mem := (st_mem tb)(a \<mapsto> ?ts), st_hash := (st_hash tb)[?p := a # st_hash tb ! ?p],
    st_nuse := st_nuse tb + 1\<rparr>"
  have size: "st_size tb1 = st_size tb" by (simp add: tb1_def st_size_def)
  have a: "st_mem tb a = None" and tb': "tb' = tb1 \<or> tb' = luaS_resize (st_size tb * 2) tb1"
    using r fresh size unfolding newlstr_def tb1_def
    by (auto simp: Let_def st_size_def split: if_splits option.splits)
  then show "str_at tb a = None" by (simp add: str_at_def)
  have at1: "str_at tb1 = (str_at tb)(a \<mapsto> str)" by (auto simp: str_at_def tb1_def)
  obtain k where k: "length (st_hash tb) = 2 ^ k" using strtab_okD(1) [OF ok] by blast
  have b: "in_bucket tb1 i c \<longleftrightarrow> (if c = a then i = ?p else in_bucket tb i c)" for i c
    using size by (auto simp: in_bucket_def tb1_def)
  have na: "a \<notin> set (st_hash tb ! i)" if "i < length (st_hash tb)" for i
    using strtab_okD(3) [OF ok that] a by (simp add: in_bucket_def)
  have ok1: "strtab_ok tb1"
  proof (rule strtab_okI)
    show "length (st_hash tb1) = 2 ^ k" using k by (simp add: tb1_def)
    fix i assume "i < length (st_hash tb1)"
    then have i: "i < length (st_hash tb)" by (simp add: tb1_def)
    then have h: "st_hash tb1 ! i = (if i = ?p then a # st_hash tb ! i else st_hash tb ! i)"
      by (simp add: tb1_def nth_list_update)
    show "distinct (st_hash tb1 ! i)" using strtab_okD(2) [OF ok i] na [OF i] by (auto simp: h)
    show "c \<in> set (st_hash tb1 ! i) \<longleftrightarrow> in_bucket tb1 i c" for c
      using strtab_okD(3) [OF ok i] na [OF i] by (auto simp: h b)
  next
    show "ts_hash ts = luaS_hash (ts_bytes ts)" if "st_mem tb1 c = Some ts" for c ts
      using that strtab_okD(4) [OF ok] by (auto simp: tb1_def split: if_splits)
    show "c = d" if "str_at tb1 c = Some s" "str_at tb1 d = Some s" for c d s
      using that strtab_okD(5) [OF ok] new unfolding at1 by (auto split: if_splits)
  qed
  have two: "st_size tb * 2 = int (2 ^ Suc k)" using k by (simp add: st_size_def)
  show "strtab_ok tb'" using tb' ok1 strtab_resize_ok(1) [OF ok1 two] by auto
  show "str_at tb' = (str_at tb)(a \<mapsto> str)"
    using tb' strtab_resize_ok(2) [OF ok1 two] by (auto simp: str_at_def fun_eq_iff at1 [symmetric])
qed

subsection \<open>Properties\<close>

text \<open>\<open>malloc\<close> gives memory that is not in use.\<close>

definition malloc_fresh :: "str_malloc \<Rightarrow> bool" where
  "malloc_fresh malloc \<longleftrightarrow> (\<forall>n tb a. malloc n tb = Some a \<longrightarrow> st_mem tb a = None)"

lemma newlstr_interns:
  assumes ok: "strtab_ok tb" and m: "malloc_fresh malloc" and r: "luaS_newlstr malloc str tb = Inr (a, tb')"
  shows "strtab_ok tb'" "str_at tb' = (str_at tb)(a \<mapsto> str)" "str_at tb a \<in> {None, Some str}"
    "str_at tb b = Some str \<Longrightarrow> a = b"
proof -
  let ?f = "find_str tb str (st_hash tb ! lmod (luaS_hash str) (st_size tb))"
  consider "?f = Inr (Some a)" "tb' = revive a tb" | "?f = Inr None" "newlstr malloc str (luaS_hash str) tb = Inr (a, tb')"
    using r by (auto simp: luaS_newlstr_def Let_def split: sum.splits option.splits)
  then have "strtab_ok tb' \<and> str_at tb' = (str_at tb)(a \<mapsto> str) \<and> str_at tb a \<in> {None, Some str} \<and>
      (str_at tb b = Some str \<longrightarrow> a = b)"
  proof cases
    case 1
    then have "str_at tb a = Some str" using find_str_some by blast
    then show ?thesis using 1(2) revive_ok [OF ok] strtab_okD(5) [OF ok] by (auto simp: fun_upd_idem)
  next
    case 2
    note n = absent [OF ok 2(1)]
    have "\<And>n a. malloc n tb = Some a \<Longrightarrow> st_mem tb a = None" using m by (simp add: malloc_fresh_def)
    from newlstr_ok [OF ok this n 2(2)] n show ?thesis by simp
  qed
  then show "strtab_ok tb'" "str_at tb' = (str_at tb)(a \<mapsto> str)" "str_at tb a \<in> {None, Some str}"
    "str_at tb b = Some str \<Longrightarrow> a = b" by blast+
qed

text \<open>A sequence of requests: the addresses they give, and the table they leave.\<close>

fun intern_all :: "str_malloc \<Rightarrow> string list \<Rightarrow> stringtable \<Rightarrow> mem_error + u64 list \<times> stringtable" where
  "intern_all malloc [] tb = Inr ([], tb)"
| "intern_all malloc (str # strs) tb =
     (case luaS_newlstr malloc str tb of
        Inl e \<Rightarrow> Inl e
      | Inr (a, tb) \<Rightarrow>
          (case intern_all malloc strs tb of Inl e \<Rightarrow> Inl e | Inr (as, tb) \<Rightarrow> Inr (a # as, tb)))"

lemma intern_all_at:
  assumes "malloc_fresh malloc" "strtab_ok tb" "intern_all malloc strs tb = Inr (as, tb')"
  shows "strtab_ok tb' \<and> length as = length strs \<and> map (str_at tb') as = map Some strs \<and>
    (\<forall>b s. str_at tb b = Some s \<longrightarrow> str_at tb' b = Some s)"
  using assms(2,3)
proof (induction strs arbitrary: tb as)
  case (Cons str strs)
  then obtain a tb1 as1 where r: "luaS_newlstr malloc str tb = Inr (a, tb1)"
    "intern_all malloc strs tb1 = Inr (as1, tb')" "as = a # as1"
    by (auto split: sum.splits)
  note n = newlstr_interns [OF Cons.prems(1) assms(1) r(1)]
  have "str_at tb1 b = Some s" if "str_at tb b = Some s" for b s
    using n(2,3) that by (auto split: if_splits)
  moreover have "str_at tb1 a = Some str" using n(2) by simp
  ultimately show ?case using Cons.IH [OF n(1) r(2)] r(3) by auto
qed simp

text \<open>
  C14: strings are interned: whatever strings are asked for, in whatever order and however often
  the table grows meanwhile, two requests get the same address exactly when their strings are
  equal, and no address ever loses its string.\<close>

theorem strings_interned:
  assumes "strtab_ok tb" "malloc_fresh malloc" "intern_all malloc strs tb = Inr (as, tb')"
    "i < length strs" "j < length strs"
  shows "(as ! i = as ! j \<longleftrightarrow> strs ! i = strs ! j) \<and> str_at tb' (as ! i) = Some (strs ! i)"
proof -
  note r = intern_all_at [OF assms(2,1,3)]
  have at: "str_at tb' (as ! k) = Some (strs ! k)" if "k < length strs" for k
    using r that by (metis nth_map)
  show ?thesis using at [OF assms(4)] at [OF assms(5)] strtab_okD(5) [of tb'] r by (metis option.inject)
qed

text \<open>The table as \<^verbatim>\<open>lua_newstate\<close> makes it, of \<^verbatim>\<open>MINSTRTABSIZE\<close> buckets, and a memory.\<close>

definition empty_strtab :: "nat \<Rightarrow> stringtable" where
  "empty_strtab n = \<lparr>st_hash = replicate n [], st_nuse = 0, st_mem = (\<lambda>_. None), st_currentwhite = 1, st_sweepstring = False\<rparr>"

lemma empty_strtab_ok: "strtab_ok (empty_strtab (2 ^ k))"
  by (rule strtab_okI) (auto simp: empty_strtab_def in_bucket_def str_at_def)

definition demo_malloc :: str_malloc where
  "demo_malloc n tb =
     (let a = word_of_int (int (length (concat (st_hash tb)))) in
      case st_mem tb a of None \<Rightarrow> Some a | Some _ \<Rightarrow> None)"

theorem strings_interned_witness:
  "\<exists>as tb. intern_all demo_malloc [''x'', ''y'', ''print'', ''x''] (empty_strtab 2) = Inr (as, tb) \<and>
     as ! 0 = as ! 3 \<and> as ! 0 \<noteq> as ! 1 \<and> length (st_hash tb) = 4"
proof -
  let ?strs = "[''x'', ''y'', ''print'', ''x'']"
  have m: "malloc_fresh demo_malloc"
    by (auto simp: malloc_fresh_def demo_malloc_def Let_def split: option.splits)
  have run: "case intern_all demo_malloc ?strs (empty_strtab 2) of
      Inl e \<Rightarrow> False | Inr (as, tb) \<Rightarrow> length (st_hash tb) = 4" by code_simp
  then obtain as tb where r: "intern_all demo_malloc ?strs (empty_strtab 2) = Inr (as, tb)" "length (st_hash tb) = 4"
    by (auto split: sum.splits)
  have ok: "strtab_ok (empty_strtab 2)" using empty_strtab_ok [of 1] by simp
  have "as ! 0 = as ! 3" "as ! 0 \<noteq> as ! 1"
    using strings_interned [OF ok m r(1), of 0 3] strings_interned [OF ok m r(1), of 0 1] by simp_all
  with r show ?thesis by blast
qed

text \<open>A string that is asked for is never dead, if the current white is one of the two whites.\<close>

lemma low_bits:
  "m AND (c XOR 3) AND 3 = (m AND 3) AND ((c AND 3) XOR 3)"
    "(m XOR 3) AND (c XOR 3) AND 3 = ((m AND 3) XOR 3) AND ((c AND 3) XOR 3)" for m c :: u8
  by (rule bit_word_eqI, auto simp: bit_simps)+

lemma low_cases: "(m :: u8) AND 3 = 0 \<or> m AND 3 = 1 \<or> m AND 3 = 2 \<or> m AND 3 = 3"
proof -
  have "m AND 3 \<le> 3" by (rule word_and_le1)
  then have "unat (m AND 3) \<le> 3" by (simp add: word_le_nat_alt)
  then have "unat (m AND 3) = 0 \<or> unat (m AND 3) = 1 \<or> unat (m AND 3) = 2 \<or> unat (m AND 3) = 3" by arith
  then show ?thesis by (auto simp: word_unat_eq_iff)
qed

lemma changewhite_revives:
  assumes "isdead c m" "luaC_white c = 1 \<or> luaC_white c = 2"
  shows "\<not> isdead c (changewhite m)"
proof -
  have "m AND (c XOR 3) AND 3 \<noteq> 0" "c AND 3 = 1 \<or> c AND 3 = 2"
    using assms by (simp_all add: isdead_def otherwhite_def luaC_white_def WHITEBITS_def)
  then have "((m AND 3) XOR 3) AND ((c AND 3) XOR 3) = 0" using low_cases [of m] unfolding low_bits by auto
  then show ?thesis unfolding isdead_def changewhite_def otherwhite_def WHITEBITS_def low_bits(2) by simp
qed

lemma revive_not_dead:
  assumes w: "luaC_white (st_currentwhite tb) = 1 \<or> luaC_white (st_currentwhite tb) = 2"
    and ts: "st_mem (revive a tb) a = Some ts"
  shows "\<not> isdead (st_currentwhite tb) (ts_marked ts)"
proof -
  show ?thesis
    using ts changewhite_revives [OF _ w] by (auto simp: revive_def split: option.splits if_splits)
qed

end
