(* ===== verification/Vm_State.thy ===== *)
theory Vm_State
  imports Monads Lstring Debug_Info Codegen_Consts
begin

text \<open>
  The state of a Lua thread (\<^verbatim>\<open>lstate.h\<close>) and what the interpreter does to it at the lowest level:
  the stack, tag methods (\<^verbatim>\<open>ltm.c\<close>), upvalues and closures (\<^verbatim>\<open>lfunc.c\<close>).

  A pointer into the stack is its index; an index outside the allocated stack is the error
  \<open>OutOfBounds\<close>.  Objects live in maps from addresses, one for each kind; following an address
  that has no object of its kind is the error \<open>BadRef\<close>.  A computation that throws leaves its
  state behind, because \<^verbatim>\<open>luaD_pcall\<close> goes on from it.  Parameters, in \<open>vm_env\<close>: the C library
  (\<^verbatim>\<open>strtod\<close>, \<^verbatim>\<open>sprintf\<close>, \<^verbatim>\<open>strcoll\<close>, memory, arithmetic), the functions in C that a script may
  call, the debug hook, and the collector, which \<^verbatim>\<open>luaC_checkGC\<close> may run.
\<close>

subsection \<open>The state\<close>

datatype upval = UOpen int | UClosed TValue

datatype closure =
    LClosure (cl_p: Proto) (cl_env: u64) (cl_upvals: "u64 list")
  | CClosure (cl_f: u64) (cl_env: u64) (cl_upvalue: "TValue list")

record CallInfo =
  ci_base :: int
  ci_func :: int
  ci_top :: int
  ci_savedpc :: int
  ci_nresults :: int
  ci_tailcalls :: int

text \<open>\<open>l_ci\<close> is the array of \<^verbatim>\<open>CallInfo\<close>s in use, the current one first; \<open>l_meta\<close> is the
  \<^verbatim>\<open>metatable\<close> field of tables and userdata; \<open>l_savedpc\<close> counts instructions from \<^verbatim>\<open>p->code\<close>.\<close>

record lua_State =
  l_status :: int
  l_stack :: "TValue list"
  l_top :: int
  l_base :: int
  l_ci :: "CallInfo list"
  l_size_ci :: int
  l_savedpc :: int
  l_nCcalls :: int
  l_baseCcalls :: int
  l_hookmask :: int
  l_allowhook :: bool
  l_basehookcount :: int
  l_hookcount :: int
  l_hook :: "u64 option"
  l_gt :: TValue
  l_openupval :: "u64 list"
  l_errfunc :: int
  l_upval :: "u64 \<rightharpoonup> upval"
  l_closure :: "u64 \<rightharpoonup> closure"
  l_table :: "u64 \<rightharpoonup> Table"
  l_meta :: "u64 \<rightharpoonup> u64"
  g_strt :: stringtable
  g_mt :: "int \<rightharpoonup> u64"
  g_tmname :: "u64 list"

text \<open>\<open>LuaError\<close> carries the status given to \<^verbatim>\<open>luaD_throw\<close>; its message is on the stack.\<close>

datatype vm_error = LuaError int | OutOfBounds | BadRef

type_synonym 'a vm = "(lua_State, vm_error \<times> lua_State, 'a) comp"

text \<open>\<^verbatim>\<open>luaD_call\<close>, given to whatever may call a function: its position and the results wanted.\<close>

type_synonym lua_call = "int \<Rightarrow> int \<Rightarrow> unit vm"

record vm_env =
  ve_lex :: lex_env
  ve_fp :: fpops
  ve_number2str :: "lua_Number \<Rightarrow> string"
  ve_strcoll :: "string \<Rightarrow> string \<Rightarrow> int"
  ve_malloc :: str_malloc
  ve_new :: "lua_State \<Rightarrow> u64 option"
  ve_junk :: TValue
  ve_cfunction :: "u64 \<Rightarrow> lua_call \<Rightarrow> int vm"
  ve_hook :: "u64 \<Rightarrow> int \<Rightarrow> int \<Rightarrow> lua_call \<Rightarrow> unit vm"
  ve_checkGC :: "lua_call \<Rightarrow> unit vm"

definition LUA_YIELD :: int where "LUA_YIELD = 1"
definition LUA_ERRRUN :: int where "LUA_ERRRUN = 2"
definition LUA_ERRMEM :: int where "LUA_ERRMEM = 4"
definition LUA_ERRERR :: int where "LUA_ERRERR = 5"
definition LUA_MULTRET :: int where "LUA_MULTRET = - 1"
definition LUA_MINSTACK :: int where "LUA_MINSTACK = 20"
definition EXTRA_STACK :: int where "EXTRA_STACK = 5"

definition stopM :: "vm_error \<Rightarrow> 'a vm" where
  "stopM e s = Some (Inl (e, s))"

definition luaD_throw :: "int \<Rightarrow> 'a vm" where
  "luaD_throw errcode = stopM (LuaError errcode)"

definition someM :: "vm_error \<Rightarrow> 'a option \<Rightarrow> 'a vm" where
  "someM e x = (case x of None \<Rightarrow> stopM e | Some x \<Rightarrow> retM x)"

subsection \<open>The stack\<close>

definition l_stacksize :: "lua_State \<Rightarrow> int" where
  "l_stacksize s = int (length (l_stack s))"

definition l_stack_last :: "lua_State \<Rightarrow> int" where
  "l_stack_last s = l_stacksize s - EXTRA_STACK - 1"

definition stk :: "int \<Rightarrow> TValue vm" where
  "stk i = bindM (getM (\<lambda>s. at (l_stack s) i)) (someM OutOfBounds)"

definition setstk :: "int \<Rightarrow> TValue \<Rightarrow> unit vm" where
  "setstk i v =
     bindM (getM l_stacksize) (\<lambda>n.
     if 0 \<le> i \<and> i < n then modM (\<lambda>s. s\<lparr>l_stack := (l_stack s)[nat i := v]\<rparr>) else stopM OutOfBounds)"

text \<open>\<^verbatim>\<open>setobjs2s(L, i, j)\<close>.\<close>

definition copystk :: "int \<Rightarrow> int \<Rightarrow> unit vm" where
  "copystk i j = bindM (stk j) (setstk i)"

definition set_top :: "int \<Rightarrow> unit vm" where
  "set_top i = modM (\<lambda>s. s\<lparr>l_top := i\<rparr>)"

definition ciM :: "CallInfo vm" where
  "ciM = bindM (getM l_ci) (\<lambda>cis. case cis of [] \<Rightarrow> stopM OutOfBounds | ci # _ \<Rightarrow> retM ci)"

definition mod_ci :: "(CallInfo \<Rightarrow> CallInfo) \<Rightarrow> unit vm" where
  "mod_ci f = modM (\<lambda>s. s\<lparr>l_ci := (case l_ci s of [] \<Rightarrow> [] | ci # cis \<Rightarrow> f ci # cis)\<rparr>)"

text \<open>New cells hold whatever the memory held.\<close>

definition luaD_reallocstack :: "vm_env \<Rightarrow> int \<Rightarrow> unit vm" where
  "luaD_reallocstack E newsize =
     (let realsize = nat (newsize + 1 + EXTRA_STACK) in
      modM (\<lambda>s. s\<lparr>l_stack := take realsize (l_stack s) @ replicate (realsize - length (l_stack s)) (ve_junk E)\<rparr>))"

definition luaD_growstack :: "vm_env \<Rightarrow> int \<Rightarrow> unit vm" where
  "luaD_growstack E n =
     bindM (getM l_stacksize) (\<lambda>size.
     if n \<le> size then luaD_reallocstack E (2 * size) else luaD_reallocstack E (size + n))"

definition luaD_checkstack :: "vm_env \<Rightarrow> int \<Rightarrow> unit vm" where
  "luaD_checkstack E n =
     bindM (getM (\<lambda>s. l_stack_last s - l_top s)) (\<lambda>room.
     if room \<le> n then luaD_growstack E n else retM ())"

definition incr_top :: "vm_env \<Rightarrow> unit vm" where
  "incr_top E = thenM (luaD_checkstack E 1) (modM (\<lambda>s. s\<lparr>l_top := l_top s + 1\<rparr>))"

subsection \<open>Objects\<close>

definition newstr :: "vm_env \<Rightarrow> string \<Rightarrow> TValue vm" where
  "newstr E str =
     bindM (getM (\<lambda>s. luaS_newlstr (ve_malloc E) str (g_strt s))) (\<lambda>r. case r of
       Inl Dangling_pointer \<Rightarrow> stopM BadRef
     | Inl _ \<Rightarrow> luaD_throw LUA_ERRMEM
     | Inr (a, tb) \<Rightarrow> thenM (modM (\<lambda>s. s\<lparr>g_strt := tb\<rparr>)) (retM (TGC LUA_TSTRING a)))"

definition strM :: "TValue \<Rightarrow> string vm" where
  "strM v = (case v of
     TGC LUA_TSTRING a \<Rightarrow> bindM (getM (\<lambda>s. str_at (g_strt s) a)) (someM BadRef)
   | _ \<Rightarrow> stopM BadRef)"

definition tableM :: "u64 \<Rightarrow> Table vm" where
  "tableM h = bindM (getM (\<lambda>s. l_table s h)) (someM BadRef)"

definition set_table :: "u64 \<Rightarrow> Table \<Rightarrow> unit vm" where
  "set_table h t = modM (\<lambda>s. s\<lparr>l_table := (l_table s)(h \<mapsto> t)\<rparr>)"

definition closureM :: "TValue \<Rightarrow> closure vm" where
  "closureM v = (case v of
     TGC LUA_TFUNCTION a \<Rightarrow> bindM (getM (\<lambda>s. l_closure s a)) (someM BadRef)
   | _ \<Rightarrow> stopM BadRef)"

definition allocM :: "vm_env \<Rightarrow> u64 vm" where
  "allocM E = bindM (getM (ve_new E)) (\<lambda>a. case a of None \<Rightarrow> luaD_throw LUA_ERRMEM | Some a \<Rightarrow> retM a)"

text \<open>The hash fields of the strings, for the tables.\<close>

definition str_hashes :: "lua_State \<Rightarrow> u64 \<Rightarrow> u32" where
  "str_hashes s a = (case st_mem (g_strt s) a of Some ts \<Rightarrow> ts_hash ts | None \<Rightarrow> 0)"

definition table_error_text :: "table_error \<Rightarrow> string" where
  "table_error_text e =
     (case e of
        Table_index_is_nil \<Rightarrow> ''table index is nil''
      | Table_index_is_NaN \<Rightarrow> ''table index is NaN''
      | Table_overflow \<Rightarrow> ''table overflow''
      | Invalid_key_to_next \<Rightarrow> ''invalid key to '' @ quoted ''next''
      | Does_not_return \<Rightarrow> '''')"

subsection \<open>Tag methods\<close>

datatype TMS = TM_INDEX | TM_NEWINDEX | TM_GC | TM_MODE | TM_EQ | TM_ADD | TM_SUB | TM_MUL | TM_DIV | TM_MOD
  | TM_POW | TM_UNM | TM_LEN | TM_LT | TM_LE | TM_CONCAT | TM_CALL

definition all_TMS :: "TMS list" where
  "all_TMS = [TM_INDEX, TM_NEWINDEX, TM_GC, TM_MODE, TM_EQ, TM_ADD, TM_SUB, TM_MUL, TM_DIV, TM_MOD,
     TM_POW, TM_UNM, TM_LEN, TM_LT, TM_LE, TM_CONCAT, TM_CALL]"

fun tm_index :: "TMS \<Rightarrow> nat" where
  "tm_index TM_INDEX = 0" | "tm_index TM_NEWINDEX = 1" | "tm_index TM_GC = 2" | "tm_index TM_MODE = 3"
| "tm_index TM_EQ = 4" | "tm_index TM_ADD = 5" | "tm_index TM_SUB = 6" | "tm_index TM_MUL = 7"
| "tm_index TM_DIV = 8" | "tm_index TM_MOD = 9" | "tm_index TM_POW = 10" | "tm_index TM_UNM = 11"
| "tm_index TM_LEN = 12" | "tm_index TM_LT = 13" | "tm_index TM_LE = 14" | "tm_index TM_CONCAT = 15"
| "tm_index TM_CALL = 16"

definition luaT_eventname :: "string list" where
  "luaT_eventname = [''__index'', ''__newindex'', ''__gc'', ''__mode'', ''__eq'', ''__add'', ''__sub'', ''__mul'',
     ''__div'', ''__mod'', ''__pow'', ''__unm'', ''__len'', ''__lt'', ''__le'', ''__concat'', ''__call'']"

fun luaT_init_loop :: "vm_env \<Rightarrow> string list \<Rightarrow> unit vm" where
  "luaT_init_loop E [] = retM ()"
| "luaT_init_loop E (n # ns) =
     bindM (newstr E n) (\<lambda>v. case v of
       TGC _ a \<Rightarrow> thenM (modM (\<lambda>s. s\<lparr>g_tmname := g_tmname s @ [a]\<rparr>)) (luaT_init_loop E ns)
     | _ \<Rightarrow> stopM BadRef)"

definition luaT_init :: "vm_env \<Rightarrow> unit vm" where
  "luaT_init E = thenM (modM (\<lambda>s. s\<lparr>g_tmname := []\<rparr>)) (luaT_init_loop E luaT_eventname)"

definition tmname :: "TMS \<Rightarrow> u64 vm" where
  "tmname e = bindM (getM (\<lambda>s. at (g_tmname s) (int (tm_index e)))) (someM BadRef)"

text \<open>A raw look-up of a string; a walk that does not end is the \<^const>\<open>None\<close> of \<^const>\<open>luaH_getstr\<close>.\<close>

definition getstrM :: "u64 \<Rightarrow> u64 \<Rightarrow> TValue vm" where
  "getstrM h key =
     bindM (tableM h) (\<lambda>t. bindM (getM str_hashes) (\<lambda>hs.
     case luaH_getstr hs t key of None \<Rightarrow> (\<lambda>_. None) | Some p \<Rightarrow> retM (slot_val t p)))"

definition luaT_gettm :: "u64 \<Rightarrow> TMS \<Rightarrow> u64 \<Rightarrow> TValue option vm" where
  "luaT_gettm events event ename =
     bindM (getstrM events ename) (\<lambda>tm.
     if ttisnil tm then
       bindM (tableM events) (\<lambda>t.
       thenM (set_table events (t\<lparr>flags := flags t OR push_bit (tm_index event) 1\<rparr>)) (retM None))
     else retM (Some tm))"

definition fasttm :: "u64 option \<Rightarrow> TMS \<Rightarrow> TValue option vm" where
  "fasttm et e =
     (case et of
        None \<Rightarrow> retM None
      | Some et \<Rightarrow>
          bindM (tableM et) (\<lambda>t.
          if flags t AND push_bit (tm_index e) 1 \<noteq> 0 then retM None
          else bindM (tmname e) (luaT_gettm et e)))"

definition luaT_gettmbyobj :: "TValue \<Rightarrow> TMS \<Rightarrow> TValue vm" where
  "luaT_gettmbyobj ob event =
     bindM (getM (\<lambda>s. case ob of
         TGC LUA_TTABLE a \<Rightarrow> l_meta s a
       | TGC LUA_TUSERDATA a \<Rightarrow> l_meta s a
       | _ \<Rightarrow> g_mt s (ttype ob))) (\<lambda>mt.
     case mt of None \<Rightarrow> retM TNil | Some mt \<Rightarrow> bindM (tmname event) (getstrM mt))"

subsection \<open>Upvalues and closures\<close>

definition upvalM :: "u64 \<Rightarrow> upval vm" where
  "upvalM a = bindM (getM (\<lambda>s. l_upval s a)) (someM BadRef)"

text \<open>Reading and writing through \<^verbatim>\<open>uv->v\<close>.\<close>

definition getupval :: "u64 \<Rightarrow> TValue vm" where
  "getupval a = bindM (upvalM a) (\<lambda>u. case u of UOpen i \<Rightarrow> stk i | UClosed v \<Rightarrow> retM v)"

definition setupval :: "u64 \<Rightarrow> TValue \<Rightarrow> unit vm" where
  "setupval a v =
     bindM (upvalM a) (\<lambda>u. case u of
       UOpen i \<Rightarrow> setstk i v
     | UClosed _ \<Rightarrow> modM (\<lambda>s. s\<lparr>l_upval := (l_upval s)(a \<mapsto> UClosed v)\<rparr>))"

definition luaF_newLclosure :: "vm_env \<Rightarrow> Proto \<Rightarrow> u64 \<Rightarrow> u64 list \<Rightarrow> TValue vm" where
  "luaF_newLclosure E p env ups =
     bindM (allocM E) (\<lambda>a.
     thenM (modM (\<lambda>s. s\<lparr>l_closure := (l_closure s)(a \<mapsto> LClosure p env ups)\<rparr>)) (retM (TGC LUA_TFUNCTION a)))"

definition luaF_newCclosure :: "vm_env \<Rightarrow> u64 \<Rightarrow> TValue list \<Rightarrow> u64 \<Rightarrow> TValue vm" where
  "luaF_newCclosure E f ups env =
     bindM (allocM E) (\<lambda>a.
     thenM (modM (\<lambda>s. s\<lparr>l_closure := (l_closure s)(a \<mapsto> CClosure f env ups)\<rparr>)) (retM (TGC LUA_TFUNCTION a)))"

definition luaF_newupval :: "vm_env \<Rightarrow> u64 vm" where
  "luaF_newupval E =
     bindM (allocM E) (\<lambda>a. thenM (modM (\<lambda>s. s\<lparr>l_upval := (l_upval s)(a \<mapsto> UClosed TNil)\<rparr>)) (retM a))"

text \<open>
  The open upvalues are chained from the highest level down.  The search gives the upvalue found,
  if there is one, and otherwise the length of the chain before the place of a new one.\<close>

definition uv_level :: "lua_State \<Rightarrow> u64 \<Rightarrow> int option" where
  "uv_level s a = (case l_upval s a of Some (UOpen i) \<Rightarrow> Some i | _ \<Rightarrow> None)"

fun findupval_loop :: "lua_State \<Rightarrow> int \<Rightarrow> u64 list \<Rightarrow> nat \<Rightarrow> (u64 + nat) option" where
  "findupval_loop s level [] n = Some (Inr n)"
| "findupval_loop s level (p # ps) n =
     (case uv_level s p of
        None \<Rightarrow> None
      | Some v \<Rightarrow>
          if v \<ge> level then (if v = level then Some (Inl p) else findupval_loop s level ps (Suc n))
          else Some (Inr n))"

definition luaF_findupval :: "vm_env \<Rightarrow> int \<Rightarrow> u64 vm" where
  "luaF_findupval E level =
     bindM (getM (\<lambda>s. findupval_loop s level (l_openupval s) 0)) (\<lambda>r.
     bindM (someM BadRef r) (\<lambda>r. case r of
       Inl p \<Rightarrow> retM p
     | Inr n \<Rightarrow>
         bindM (allocM E) (\<lambda>uv.
         thenM (modM (\<lambda>s. s\<lparr>l_upval := (l_upval s)(uv \<mapsto> UOpen level),
                           l_openupval := take n (l_openupval s) @ uv # drop n (l_openupval s)\<rparr>))
         (retM uv))))"

fun luaF_close_loop :: "int \<Rightarrow> u64 list \<Rightarrow> unit vm" where
  "luaF_close_loop level [] = modM (\<lambda>s. s\<lparr>l_openupval := []\<rparr>)"
| "luaF_close_loop level (uv # uvs) =
     bindM (getM (\<lambda>s. uv_level s uv)) (\<lambda>v. bindM (someM BadRef v) (\<lambda>v.
     if v \<ge> level then
       bindM (stk v) (\<lambda>x.
       thenM (modM (\<lambda>s. s\<lparr>l_openupval := uvs, l_upval := (l_upval s)(uv \<mapsto> UClosed x)\<rparr>))
       (luaF_close_loop level uvs))
     else retM ()))"

definition luaF_close :: "int \<Rightarrow> unit vm" where
  "luaF_close level = bindM (getM l_openupval) (luaF_close_loop level)"

end
