(* ===== verification/Vm_Calls.thy ===== *)
theory Vm_Calls
  imports Vm_State
begin

text \<open>
  Calls (\<^verbatim>\<open>ldo.c\<close>) and the errors of the interpreter (\<^verbatim>\<open>ldebug.c\<close>): entering and leaving a function,
  hooks, the array of \<^verbatim>\<open>CallInfo\<close>s, protected calls.  What may call a function in turn (an error
  handler, a hook, a function in C) gets \<^verbatim>\<open>luaD_call\<close> as the argument \<open>call\<close>; the theory
  \<open>Vm\<close> ties the knot.
\<close>

definition LUAI_MAXCALLS :: int where "LUAI_MAXCALLS = 20000"
definition LUAI_MAXCCALLS :: int where "LUAI_MAXCCALLS = 200"
definition LUA_MASKCALL :: int where "LUA_MASKCALL = 1"
definition LUA_MASKRET :: int where "LUA_MASKRET = 2"
definition LUA_HOOKCALL :: int where "LUA_HOOKCALL = 0"
definition LUA_HOOKRET :: int where "LUA_HOOKRET = 1"
definition LUA_HOOKTAILRET :: int where "LUA_HOOKTAILRET = 4"

subsection \<open>Errors\<close>

text \<open>The prototype of the function of a call, if it is a Lua function (\<^verbatim>\<open>isLua\<close>).\<close>

definition isLua :: "CallInfo \<Rightarrow> Proto option vm" where
  "isLua ci =
     bindM (stk (ci_func ci)) (\<lambda>v. case v of
       TGC LUA_TFUNCTION _ \<Rightarrow>
         bindM (closureM v) (\<lambda>c. case c of LClosure p _ _ \<Rightarrow> retM (Some p) | CClosure _ _ _ \<Rightarrow> retM None)
     | _ \<Rightarrow> retM None)"

text \<open>\<^verbatim>\<open>currentpc\<close> and \<^verbatim>\<open>currentline\<close> of the running function, when it is a Lua function.\<close>

definition currentpc :: "int vm" where
  "currentpc =
     bindM (getM l_savedpc) (\<lambda>pc. thenM (mod_ci (\<lambda>ci. ci\<lparr>ci_savedpc := pc\<rparr>)) (retM (pc - 1)))"

definition getline :: "Proto \<Rightarrow> int \<Rightarrow> int vm" where
  "getline p pc = (if p_lineinfo p = [] then retM 0 else someM OutOfBounds (at (p_lineinfo p) pc))"

definition currentline :: "Proto \<Rightarrow> int vm" where
  "currentline p = bindM currentpc (\<lambda>pc. if pc < 0 then retM (- 1) else getline p pc)"

text \<open>The text that \<^verbatim>\<open>luaO_pushvfstring\<close> builds is on the stack as one string.\<close>

definition pushstr :: "vm_env \<Rightarrow> string \<Rightarrow> unit vm" where
  "pushstr E str =
     bindM (newstr E str) (\<lambda>v. bindM (getM l_top) (\<lambda>top. thenM (setstk top v) (incr_top E)))"

definition addinfo_L :: "vm_env \<Rightarrow> string \<Rightarrow> unit vm" where
  "addinfo_L E msg =
     bindM ciM (\<lambda>ci. bindM (isLua ci) (\<lambda>p. case p of
       None \<Rightarrow> retM ()
     | Some p \<Rightarrow>
         bindM (currentline p) (\<lambda>line.
         bindM (someM BadRef (p_source p)) (\<lambda>source.
         bindM (someM BadRef (addinfo (ve_number2str E) (Some (source, line)) msg)) (pushstr E)))))"

definition luaG_errormsg :: "vm_env \<Rightarrow> lua_call \<Rightarrow> 'a vm" where
  "luaG_errormsg E call =
     bindM (getM l_errfunc) (\<lambda>errfunc.
     thenM (if errfunc \<noteq> 0 then
              bindM (stk errfunc) (\<lambda>f.
              if ttype f \<noteq> 6 then luaD_throw LUA_ERRERR
              else
                bindM (getM l_top) (\<lambda>top.
                thenM (copystk top (top - 1))
                (thenM (copystk (top - 1) errfunc)
                (thenM (incr_top E)
                (bindM (getM l_top) (\<lambda>top. call (top - 2) 1))))))
            else retM ())
     (luaD_throw LUA_ERRRUN))"

definition luaG_runerror :: "vm_env \<Rightarrow> lua_call \<Rightarrow> string \<Rightarrow> 'a vm" where
  "luaG_runerror E call msg = thenM (pushstr E msg) (thenM (addinfo_L E msg) (luaG_errormsg E call))"

definition lift_table :: "vm_env \<Rightarrow> lua_call \<Rightarrow> table_error + 'a \<Rightarrow> 'a vm" where
  "lift_table E call r =
     (case r of
        Inr x \<Rightarrow> retM x
      | Inl Does_not_return \<Rightarrow> (\<lambda>_. None)
      | Inl e \<Rightarrow> luaG_runerror E call (table_error_text e))"

text \<open>A \<^verbatim>\<open>TValue*\<close> that an error may have to name: a place in the stack, or some other place.\<close>

datatype operand = AtStack int | Elsewhere TValue

definition deref :: "operand \<Rightarrow> TValue vm" where
  "deref ob = (case ob of AtStack i \<Rightarrow> stk i | Elsewhere v \<Rightarrow> retM v)"

definition varinfo :: "operand \<Rightarrow> (string \<times> string) option vm" where
  "varinfo ob =
     (case ob of
        Elsewhere _ \<Rightarrow> retM None
      | AtStack i \<Rightarrow>
          bindM ciM (\<lambda>ci.
          if ci_base ci \<le> i \<and> i < ci_top ci then
            bindM (isLua ci) (\<lambda>p. case p of
              None \<Rightarrow> retM None
            | Some p \<Rightarrow>
                bindM currentpc (\<lambda>pc. bindM (getM l_base) (\<lambda>base.
                someM OutOfBounds (getobjname p pc (i - base)))))
          else retM None))"

definition luaG_typeerror_L :: "vm_env \<Rightarrow> lua_call \<Rightarrow> operand \<Rightarrow> string \<Rightarrow> 'a vm" where
  "luaG_typeerror_L E call ob opname =
     bindM (deref ob) (\<lambda>v. bindM (varinfo ob) (\<lambda>kind.
     bindM (someM BadRef (luaG_typeerror kind v opname)) (luaG_runerror E call)))"

definition luaG_concaterror_L :: "vm_env \<Rightarrow> lua_call \<Rightarrow> int \<Rightarrow> int \<Rightarrow> 'a vm" where
  "luaG_concaterror_L E call p1 p2 =
     bindM (stk p1) (\<lambda>v.
     luaG_typeerror_L E call (AtStack (if ttype v = 4 \<or> ttype v = 3 then p2 else p1)) ''concatenate'')"

definition luaG_ordererror_L :: "vm_env \<Rightarrow> lua_call \<Rightarrow> TValue \<Rightarrow> TValue \<Rightarrow> 'a vm" where
  "luaG_ordererror_L E call p1 p2 =
     bindM (someM BadRef (luaG_ordererror p1 p2)) (luaG_runerror E call)"

subsection \<open>The array of calls\<close>

definition luaD_reallocCI :: "int \<Rightarrow> unit vm" where
  "luaD_reallocCI newsize = modM (\<lambda>s. s\<lparr>l_size_ci := newsize\<rparr>)"

definition growCI :: "vm_env \<Rightarrow> lua_call \<Rightarrow> unit vm" where
  "growCI E call =
     bindM (getM l_size_ci) (\<lambda>n.
     if n > LUAI_MAXCALLS then luaD_throw LUA_ERRERR
     else
       thenM (luaD_reallocCI (2 * n))
       (if 2 * n > LUAI_MAXCALLS then luaG_runerror E call ''stack overflow'' else retM ()))"

text \<open>\<^verbatim>\<open>inc_ci\<close>, and the assignments to the fields of the new record.\<close>

definition inc_ci :: "vm_env \<Rightarrow> lua_call \<Rightarrow> CallInfo \<Rightarrow> unit vm" where
  "inc_ci E call ci =
     bindM (getM (\<lambda>s. int (length (l_ci s)) = l_size_ci s)) (\<lambda>full.
     thenM (if full then growCI E call else retM ())
     (modM (\<lambda>s. s\<lparr>l_ci := ci # l_ci s\<rparr>)))"

definition restore_stack_limit :: "unit vm" where
  "restore_stack_limit =
     bindM (getM l_size_ci) (\<lambda>n. bindM (getM (\<lambda>s. int (length (l_ci s)) - 1)) (\<lambda>inuse.
     if n > LUAI_MAXCALLS \<and> inuse + 1 < LUAI_MAXCALLS then luaD_reallocCI LUAI_MAXCALLS else retM ()))"

subsection \<open>Hooks\<close>

definition luaD_callhook :: "vm_env \<Rightarrow> lua_call \<Rightarrow> int \<Rightarrow> int \<Rightarrow> unit vm" where
  "luaD_callhook E call event line =
     bindM (getM l_hook) (\<lambda>hook. bindM (getM l_allowhook) (\<lambda>allow.
     case hook of
       Some hook \<Rightarrow>
         (if allow then
            bindM (getM l_top) (\<lambda>top. bindM ciM (\<lambda>ci.
            thenM (luaD_checkstack E LUA_MINSTACK)
            (thenM (mod_ci (\<lambda>ci. ci\<lparr>ci_top := top + LUA_MINSTACK\<rparr>))
            (thenM (modM (\<lambda>s. s\<lparr>l_allowhook := False\<rparr>))
            (thenM (ve_hook E hook event line call)
            (thenM (modM (\<lambda>s. s\<lparr>l_allowhook := True\<rparr>))
            (thenM (mod_ci (\<lambda>ci'. ci'\<lparr>ci_top := ci_top ci\<rparr>))
            (set_top top))))))))
          else retM ())
     | None \<Rightarrow> retM ()))"

definition hook_on :: "int \<Rightarrow> bool vm" where
  "hook_on m = getM (\<lambda>s. l_hookmask s AND m \<noteq> 0)"

subsection \<open>Entering a function\<close>

primrec fill_nil :: "nat \<Rightarrow> int \<Rightarrow> unit vm" where
  "fill_nil 0 i = retM ()"
| "fill_nil (Suc n) i = thenM (setstk i TNil) (fill_nil n (i + 1))"

text \<open>Copying upwards: \<open>n\<close> cells from \<open>src\<close> to \<open>dst\<close>, the lowest first.\<close>

primrec copy_up :: "nat \<Rightarrow> int \<Rightarrow> int \<Rightarrow> unit vm" where
  "copy_up 0 dst src = retM ()"
| "copy_up (Suc n) dst src = thenM (copystk dst src) (copy_up n (dst + 1) (src + 1))"

primrec arg_table :: "vm_env \<Rightarrow> lua_call \<Rightarrow> nat \<Rightarrow> int \<Rightarrow> int \<Rightarrow> Table \<Rightarrow> Table vm" where
  "arg_table E call 0 i first t = retM t"
| "arg_table E call (Suc n) i first t =
     bindM (getM str_hashes) (\<lambda>hs. bindM (stk (first + i)) (\<lambda>v.
     bindM (lift_table E call (store (luaH_setnum 2 hs t (i + 1)) v)) (arg_table E call n (i + 1) first)))"

primrec move_fixed :: "nat \<Rightarrow> int \<Rightarrow> unit vm" where
  "move_fixed 0 fixed = retM ()"
| "move_fixed (Suc n) fixed =
     bindM (getM l_top) (\<lambda>top.
     thenM (copystk top fixed)
     (thenM (set_top (top + 1))
     (thenM (setstk fixed TNil) (move_fixed n (fixed + 1)))))"

definition push_nils :: "nat \<Rightarrow> unit vm" where
  "push_nils n = bindM (getM l_top) (\<lambda>top. thenM (fill_nil n top) (set_top (top + int n)))"

definition new_arg_table :: "vm_env \<Rightarrow> lua_call \<Rightarrow> int \<Rightarrow> u64 vm" where
  "new_arg_table E call nvar =
     thenM (ve_checkGC E call)
     (bindM (allocM E) (\<lambda>a.
     bindM (lift_table E call (luaH_new nvar 1)) (\<lambda>t.
     bindM (getM l_top) (\<lambda>top.
     bindM (arg_table E call (nat nvar) 0 (top - nvar) t) (\<lambda>t.
     bindM (newstr E ''n'') (\<lambda>n.
     bindM (getM str_hashes) (\<lambda>hs.
     bindM (lift_table E call
       (store (luaH_setstr 2 hs t (case n of TGC _ p \<Rightarrow> p | _ \<Rightarrow> 0)) (TNumber (cast_num nvar)))) (\<lambda>t.
     thenM (set_table a t) (retM a)))))))))"

definition adjust_varargs :: "vm_env \<Rightarrow> lua_call \<Rightarrow> Proto \<Rightarrow> int \<Rightarrow> int vm" where
  "adjust_varargs E call p actual =
     (let nfixargs = uint (p_numparams p) in
      thenM (push_nils (nat (nfixargs - actual)))
      (let actual = max actual nfixargs in
       bindM (if p_is_vararg p AND VARARG_NEEDSARG \<noteq> 0
              then bindM (new_arg_table E call (actual - nfixargs)) (\<lambda>a. retM (Some a)) else retM None) (\<lambda>htab.
       bindM (getM l_top) (\<lambda>base.
       thenM (move_fixed (nat nfixargs) (base - actual))
       (thenM (case htab of
                 Some a \<Rightarrow> bindM (getM l_top) (\<lambda>top. thenM (setstk top (TGC LUA_TTABLE a)) (set_top (top + 1)))
               | None \<Rightarrow> retM ())
       (retM base))))))"

text \<open>The hole for a \<^verbatim>\<open>__call\<close> method: the cells from \<open>p - n\<close> move one up, the highest first.\<close>

primrec shift_up :: "nat \<Rightarrow> int \<Rightarrow> unit vm" where
  "shift_up 0 p = retM ()"
| "shift_up (Suc n) p = thenM (copystk p (p - 1)) (shift_up n (p - 1))"

definition tryfuncTM :: "vm_env \<Rightarrow> lua_call \<Rightarrow> int \<Rightarrow> unit vm" where
  "tryfuncTM E call func =
     bindM (stk func) (\<lambda>v. bindM (luaT_gettmbyobj v TM_CALL) (\<lambda>tm.
     thenM (if ttype tm \<noteq> 6 then luaG_typeerror_L E call (AtStack func) ''call'' else retM ())
     (bindM (getM l_top) (\<lambda>top.
     thenM (shift_up (nat (top - func)) top)
     (thenM (incr_top E) (setstk func tm))))))"

datatype pcr = PCRLUA | PCRC | PCRYIELD

definition precall_lua :: "vm_env \<Rightarrow> lua_call \<Rightarrow> Proto \<Rightarrow> int \<Rightarrow> int \<Rightarrow> pcr vm" where
  "precall_lua E call p func nresults =
     thenM (luaD_checkstack E (uint (p_maxstacksize p)))
     (bindM (if p_is_vararg p = 0 then
               bindM (getM l_top) (\<lambda>top.
               thenM (if top > func + 1 + uint (p_numparams p) then set_top (func + 1 + uint (p_numparams p)) else retM ())
               (retM (func + 1)))
             else bindM (getM (\<lambda>s. l_top s - func - 1)) (adjust_varargs E call p)) (\<lambda>base.
     thenM (inc_ci E call
       \<lparr>ci_base = base, ci_func = func, ci_top = base + uint (p_maxstacksize p), ci_savedpc = 0,
        ci_nresults = nresults, ci_tailcalls = 0\<rparr>)
     (thenM (modM (\<lambda>s. s\<lparr>l_base := base, l_savedpc := 0\<rparr>))
     (bindM (getM l_top) (\<lambda>top.
     thenM (fill_nil (nat (base + uint (p_maxstacksize p) - top)) top)
     (thenM (set_top (base + uint (p_maxstacksize p)))
     (bindM (hook_on LUA_MASKCALL) (\<lambda>h.
     thenM (if h then
              thenM (modM (\<lambda>s. s\<lparr>l_savedpc := l_savedpc s + 1\<rparr>))
              (thenM (luaD_callhook E call LUA_HOOKCALL (- 1))
              (modM (\<lambda>s. s\<lparr>l_savedpc := l_savedpc s - 1\<rparr>)))
            else retM ())
     (retM PCRLUA)))))))))"

subsection \<open>Leaving a function\<close>

partial_function (option) tailret_hooks :: "vm_env \<Rightarrow> lua_call \<Rightarrow> unit vm" where
  "tailret_hooks E call s =
     bindM (hook_on LUA_MASKRET) (\<lambda>h.
     if \<not> h then retM ()
     else
       bindM ciM (\<lambda>ci.
       thenM (mod_ci (\<lambda>ci. ci\<lparr>ci_tailcalls := ci_tailcalls ci - 1\<rparr>))
       (if ci_tailcalls ci = 0 then retM ()
        else thenM (luaD_callhook E call LUA_HOOKTAILRET (- 1)) (tailret_hooks E call)))) s"

declare tailret_hooks.simps [code]

definition callrethooks :: "vm_env \<Rightarrow> lua_call \<Rightarrow> unit vm" where
  "callrethooks E call =
     thenM (luaD_callhook E call LUA_HOOKRET (- 1))
     (bindM ciM (\<lambda>ci. bindM (isLua ci) (\<lambda>p. if p \<noteq> None then tailret_hooks E call else retM ())))"

text \<open>Moving the results: at most \<open>i\<close> (any number when \<open>i\<close> is \<^verbatim>\<open>LUA_MULTRET\<close>) of the \<open>n\<close> there are; the
  number still wanted and the place after them.\<close>

primrec move_results :: "nat \<Rightarrow> int \<Rightarrow> int \<Rightarrow> int \<Rightarrow> (int \<times> int) vm" where
  "move_results 0 i res first = retM (i, res)"
| "move_results (Suc n) i res first =
     (if i = 0 then retM (i, res)
      else thenM (copystk res first) (move_results n (i - 1) (res + 1) (first + 1)))"

definition luaD_poscall :: "vm_env \<Rightarrow> lua_call \<Rightarrow> int \<Rightarrow> bool vm" where
  "luaD_poscall E call firstResult =
     bindM (hook_on LUA_MASKRET) (\<lambda>h.
     thenM (if h then callrethooks E call else retM ())
     (bindM (getM l_ci) (\<lambda>cis. case cis of
       ci # prev # rest \<Rightarrow>
         thenM (modM (\<lambda>s. s\<lparr>l_ci := prev # rest, l_base := ci_base prev, l_savedpc := ci_savedpc prev\<rparr>))
         (bindM (getM l_top) (\<lambda>top.
         bindM (move_results (nat (top - firstResult)) (ci_nresults ci) (ci_func ci) firstResult) (\<lambda>(i, res).
         thenM (fill_nil (nat i) res)
         (thenM (set_top (res + max i 0))
         (retM (ci_nresults ci - LUA_MULTRET \<noteq> 0))))))
     | _ \<Rightarrow> stopM OutOfBounds)))"

definition precall_C :: "vm_env \<Rightarrow> lua_call \<Rightarrow> int \<Rightarrow> int \<Rightarrow> pcr vm" where
  "precall_C E call func nresults =
     thenM (luaD_checkstack E LUA_MINSTACK)
     (bindM (getM l_top) (\<lambda>top.
     thenM (inc_ci E call
       \<lparr>ci_base = func + 1, ci_func = func, ci_top = top + LUA_MINSTACK, ci_savedpc = 0,
        ci_nresults = nresults, ci_tailcalls = 0\<rparr>)
     (thenM (modM (\<lambda>s. s\<lparr>l_base := func + 1\<rparr>))
     (bindM (hook_on LUA_MASKCALL) (\<lambda>h.
     thenM (if h then luaD_callhook E call LUA_HOOKCALL (- 1) else retM ())
     (bindM ciM (\<lambda>ci. bindM (stk (ci_func ci)) (\<lambda>v. bindM (closureM v) (\<lambda>c. case c of
       LClosure _ _ _ \<Rightarrow> stopM BadRef
     | CClosure f _ _ \<Rightarrow>
         bindM (ve_cfunction E f call) (\<lambda>n.
         if n < 0 then retM PCRYIELD
         else thenM (bindM (getM l_top) (\<lambda>top. luaD_poscall E call (top - n))) (retM PCRC)))))))))))"

definition luaD_precall :: "vm_env \<Rightarrow> lua_call \<Rightarrow> int \<Rightarrow> int \<Rightarrow> pcr vm" where
  "luaD_precall E call func nresults =
     bindM (stk func) (\<lambda>v.
     thenM (if ttype v \<noteq> 6 then tryfuncTM E call func else retM ())
     (bindM (stk func) (\<lambda>v. bindM (closureM v) (\<lambda>cl.
     bindM (getM l_savedpc) (\<lambda>pc.
     thenM (mod_ci (\<lambda>ci. ci\<lparr>ci_savedpc := pc\<rparr>))
     (case cl of
        LClosure p _ _ \<Rightarrow> precall_lua E call p func nresults
      | CClosure _ _ _ \<Rightarrow> precall_C E call func nresults))))))"

subsection \<open>Protected calls\<close>

definition MEMERRMSG :: string where "MEMERRMSG = ''not enough memory''"

definition luaD_seterrorobj :: "vm_env \<Rightarrow> int \<Rightarrow> int \<Rightarrow> unit vm" where
  "luaD_seterrorobj E errcode oldtop =
     thenM (if errcode = LUA_ERRMEM then bindM (newstr E MEMERRMSG) (setstk oldtop)
            else if errcode = LUA_ERRERR then bindM (newstr E ''error in error handling'') (setstk oldtop)
            else if errcode = LUA_ERRRUN \<or> errcode = 3 then bindM (getM l_top) (\<lambda>top. copystk oldtop (top - 1))
            else retM ())
     (set_top (oldtop + 1))"

text \<open>\<^verbatim>\<open>setjmp\<close> returns a second time, in the state at the throw, with the status.\<close>

definition luaD_rawrunprotected :: "unit vm \<Rightarrow> int vm" where
  "luaD_rawrunprotected f s =
     (case f s of
        None \<Rightarrow> None
      | Some (Inr (_, s')) \<Rightarrow> Some (Inr (0, s'))
      | Some (Inl (LuaError errcode, s')) \<Rightarrow> Some (Inr (errcode, s'))
      | Some (Inl (e, s')) \<Rightarrow> Some (Inl (e, s')))"

definition luaD_pcall :: "vm_env \<Rightarrow> unit vm \<Rightarrow> int \<Rightarrow> int \<Rightarrow> int vm" where
  "luaD_pcall E f old_top ef =
     bindM (getM (\<lambda>s. s)) (\<lambda>old.
     thenM (modM (\<lambda>s. s\<lparr>l_errfunc := ef\<rparr>))
     (bindM (luaD_rawrunprotected f) (\<lambda>status.
     thenM (if status \<noteq> 0 then
              thenM (luaF_close old_top)
              (thenM (luaD_seterrorobj E status old_top)
              (thenM (modM (\<lambda>s. s\<lparr>l_nCcalls := l_nCcalls old,
                                l_ci := drop (length (l_ci s) - length (l_ci old)) (l_ci s)\<rparr>))
              (bindM ciM (\<lambda>ci.
              thenM (modM (\<lambda>s. s\<lparr>l_base := ci_base ci, l_savedpc := ci_savedpc ci, l_allowhook := l_allowhook old\<rparr>))
              restore_stack_limit))))
            else retM ())
     (thenM (modM (\<lambda>s. s\<lparr>l_errfunc := l_errfunc old\<rparr>)) (retM status)))))"

end
