(* ===== verification/Vm_Ops.thy ===== *)
theory Vm_Ops
  imports Vm_Calls Compare
begin

text \<open>
  The operations of the virtual machine that may call metamethods (\<^verbatim>\<open>lvm.c\<close> up to \<^verbatim>\<open>luaV_execute\<close>):
  conversions, indexing, comparison, concatenation and arithmetic.
\<close>

definition MAXTAGLOOP :: nat where "MAXTAGLOOP = 100"

subsection \<open>Conversions\<close>

definition luaV_tonumber :: "vm_env \<Rightarrow> TValue \<Rightarrow> lua_Number option vm" where
  "luaV_tonumber E ob =
     (case ob of
        TNumber n \<Rightarrow> retM (Some n)
      | TGC LUA_TSTRING _ \<Rightarrow> bindM (strM ob) (\<lambda>str. retM (luaO_str2d (ve_lex E) str))
      | _ \<Rightarrow> retM None)"

definition luaV_tostring :: "vm_env \<Rightarrow> int \<Rightarrow> bool vm" where
  "luaV_tostring E ob =
     bindM (stk ob) (\<lambda>v. case v of
       TNumber n \<Rightarrow> bindM (newstr E (ve_number2str E n)) (\<lambda>str. thenM (setstk ob str) (retM True))
     | _ \<Rightarrow> retM False)"

definition tostring :: "vm_env \<Rightarrow> int \<Rightarrow> bool vm" where
  "tostring E ob = bindM (stk ob) (\<lambda>v. if ttype v = 4 then retM True else luaV_tostring E ob)"

subsection \<open>Calling a metamethod\<close>

definition callTMres :: "vm_env \<Rightarrow> lua_call \<Rightarrow> int \<Rightarrow> TValue \<Rightarrow> TValue \<Rightarrow> TValue \<Rightarrow> unit vm" where
  "callTMres E call res f p1 p2 =
     bindM (getM l_top) (\<lambda>top.
     thenM (setstk top f)
     (thenM (setstk (top + 1) p1)
     (thenM (setstk (top + 2) p2)
     (thenM (luaD_checkstack E 3)
     (thenM (set_top (top + 3))
     (thenM (call top 1)
     (bindM (getM l_top) (\<lambda>top. thenM (set_top (top - 1)) (copystk res (top - 1))))))))))"

definition callTM :: "vm_env \<Rightarrow> lua_call \<Rightarrow> TValue \<Rightarrow> TValue \<Rightarrow> TValue \<Rightarrow> TValue \<Rightarrow> unit vm" where
  "callTM E call f p1 p2 p3 =
     bindM (getM l_top) (\<lambda>top.
     thenM (setstk top f)
     (thenM (setstk (top + 1) p1)
     (thenM (setstk (top + 2) p2)
     (thenM (setstk (top + 3) p3)
     (thenM (luaD_checkstack E 4)
     (thenM (set_top (top + 4)) (call top 0)))))))"

subsection \<open>Indexing\<close>

definition getM_table :: "Table \<Rightarrow> TValue \<Rightarrow> TValue vm" where
  "getM_table t key =
     bindM (getM str_hashes) (\<lambda>hs. case luaH_get hs t key of None \<Rightarrow> (\<lambda>_. None) | Some p \<Rightarrow> retM (slot_val t p))"

definition metatableM :: "u64 \<Rightarrow> u64 option vm" where
  "metatableM h = getM (\<lambda>s. l_meta s h)"

primrec gettable_loop :: "vm_env \<Rightarrow> lua_call \<Rightarrow> TValue \<Rightarrow> int \<Rightarrow> nat \<Rightarrow> operand \<Rightarrow> unit vm" where
  "gettable_loop E call key val 0 t = luaG_runerror E call ''loop in gettable''"
| "gettable_loop E call key val (Suc n) t =
     bindM (deref t) (\<lambda>v.
     let handler = (\<lambda>tm. if ttype tm = 6 then callTMres E call val tm v key
                         else gettable_loop E call key val n (Elsewhere tm)) in
     case v of
       TGC LUA_TTABLE h \<Rightarrow>
         bindM (tableM h) (\<lambda>tab. bindM (getM_table tab key) (\<lambda>res.
         if res \<noteq> TNil then setstk val res
         else
           bindM (metatableM h) (\<lambda>mt. bindM (fasttm mt TM_INDEX) (\<lambda>tm. case tm of
             None \<Rightarrow> setstk val res
           | Some tm \<Rightarrow> handler tm))))
     | _ \<Rightarrow>
         bindM (luaT_gettmbyobj v TM_INDEX) (\<lambda>tm.
         if ttisnil tm then luaG_typeerror_L E call t ''index'' else handler tm))"

definition luaV_gettable :: "vm_env \<Rightarrow> lua_call \<Rightarrow> operand \<Rightarrow> TValue \<Rightarrow> int \<Rightarrow> unit vm" where
  "luaV_gettable E call t key val = gettable_loop E call key val MAXTAGLOOP t"

text \<open>\<^verbatim>\<open>luaH_set\<close> makes room for the key; the value goes through the pointer it returns.\<close>

primrec settable_loop :: "vm_env \<Rightarrow> lua_call \<Rightarrow> TValue \<Rightarrow> TValue \<Rightarrow> nat \<Rightarrow> operand \<Rightarrow> unit vm" where
  "settable_loop E call key val 0 t = luaG_runerror E call ''loop in settable''"
| "settable_loop E call key val (Suc n) t =
     bindM (deref t) (\<lambda>v.
     let handler = (\<lambda>tm. if ttype tm = 6 then callTM E call tm v key val
                         else settable_loop E call key val n (Elsewhere tm)) in
     case v of
       TGC LUA_TTABLE h \<Rightarrow>
         bindM (tableM h) (\<lambda>tab. bindM (getM str_hashes) (\<lambda>hs.
         bindM (lift_table E call (luaH_set 2 hs tab key)) (\<lambda>(p, tab).
         thenM (set_table h tab)
         (if slot_val tab p \<noteq> TNil then set_table h (slot_set p val tab)
          else
            bindM (metatableM h) (\<lambda>mt. bindM (fasttm mt TM_NEWINDEX) (\<lambda>tm. case tm of
              None \<Rightarrow> bindM (tableM h) (\<lambda>tab. set_table h (slot_set p val tab))
            | Some tm \<Rightarrow> handler tm))))))
     | _ \<Rightarrow>
         bindM (luaT_gettmbyobj v TM_NEWINDEX) (\<lambda>tm.
         if ttisnil tm then luaG_typeerror_L E call t ''index'' else handler tm))"

definition luaV_settable :: "vm_env \<Rightarrow> lua_call \<Rightarrow> operand \<Rightarrow> TValue \<Rightarrow> TValue \<Rightarrow> unit vm" where
  "luaV_settable E call t key val = settable_loop E call key val MAXTAGLOOP t"

subsection \<open>Metamethods of operators\<close>

definition call_binTM :: "vm_env \<Rightarrow> lua_call \<Rightarrow> TValue \<Rightarrow> TValue \<Rightarrow> int \<Rightarrow> TMS \<Rightarrow> bool vm" where
  "call_binTM E call p1 p2 res event =
     bindM (luaT_gettmbyobj p1 event) (\<lambda>tm.
     bindM (if ttisnil tm then luaT_gettmbyobj p2 event else retM tm) (\<lambda>tm.
     if ttisnil tm then retM False
     else thenM (callTMres E call res tm p1 p2) (retM True)))"

definition get_compTM :: "u64 option \<Rightarrow> u64 option \<Rightarrow> TMS \<Rightarrow> TValue option vm" where
  "get_compTM mt1 mt2 event =
     bindM (fasttm mt1 event) (\<lambda>tm1. case tm1 of
       None \<Rightarrow> retM None
     | Some tm1 \<Rightarrow>
         if mt1 = mt2 then retM (Some tm1)
         else
           bindM (fasttm mt2 event) (\<lambda>tm2. case tm2 of
             None \<Rightarrow> retM None
           | Some tm2 \<Rightarrow> retM (if luaO_rawequalObj tm1 tm2 then Some tm1 else None)))"

text \<open>The test of a metamethod's result, which is left at the top of the stack.\<close>

definition callTM_test :: "vm_env \<Rightarrow> lua_call \<Rightarrow> TValue \<Rightarrow> TValue \<Rightarrow> TValue \<Rightarrow> bool vm" where
  "callTM_test E call tm p1 p2 =
     bindM (getM l_top) (\<lambda>top.
     thenM (callTMres E call top tm p1 p2)
     (bindM (getM l_top) (\<lambda>top. bindM (stk top) (\<lambda>v. retM (\<not> l_isfalse v)))))"

definition call_orderTM :: "vm_env \<Rightarrow> lua_call \<Rightarrow> TValue \<Rightarrow> TValue \<Rightarrow> TMS \<Rightarrow> bool option vm" where
  "call_orderTM E call p1 p2 event =
     bindM (luaT_gettmbyobj p1 event) (\<lambda>tm1.
     if ttisnil tm1 then retM None
     else
       bindM (luaT_gettmbyobj p2 event) (\<lambda>tm2.
       if \<not> luaO_rawequalObj tm1 tm2 then retM None
       else bindM (callTM_test E call tm1 p1 p2) (\<lambda>b. retM (Some b))))"

subsection \<open>Comparison\<close>

definition luaV_lessthan_L :: "vm_env \<Rightarrow> lua_call \<Rightarrow> TValue \<Rightarrow> TValue \<Rightarrow> bool vm" where
  "luaV_lessthan_L E call l r =
     (if ttype l \<noteq> ttype r then luaG_ordererror_L E call l r
      else case (l, r) of
        (TNumber a, TNumber b) \<Rightarrow> retM (luai_numlt a b)
      | (TGC LUA_TSTRING _, _) \<Rightarrow>
          bindM (strM l) (\<lambda>a. bindM (strM r) (\<lambda>b. retM (l_strcmp (ve_strcoll E) a b < 0)))
      | _ \<Rightarrow>
          bindM (call_orderTM E call l r TM_LT) (\<lambda>res. case res of
            Some b \<Rightarrow> retM b
          | None \<Rightarrow> luaG_ordererror_L E call l r))"

definition lessequal_L :: "vm_env \<Rightarrow> lua_call \<Rightarrow> TValue \<Rightarrow> TValue \<Rightarrow> bool vm" where
  "lessequal_L E call l r =
     (if ttype l \<noteq> ttype r then luaG_ordererror_L E call l r
      else case (l, r) of
        (TNumber a, TNumber b) \<Rightarrow> retM (luai_numle a b)
      | (TGC LUA_TSTRING _, _) \<Rightarrow>
          bindM (strM l) (\<lambda>a. bindM (strM r) (\<lambda>b. retM (l_strcmp (ve_strcoll E) a b \<le> 0)))
      | _ \<Rightarrow>
          bindM (call_orderTM E call l r TM_LE) (\<lambda>res. case res of
            Some b \<Rightarrow> retM b
          | None \<Rightarrow>
              bindM (call_orderTM E call r l TM_LT) (\<lambda>res. case res of
                Some b \<Rightarrow> retM (\<not> b)
              | None \<Rightarrow> luaG_ordererror_L E call l r)))"

definition luaV_equalval :: "vm_env \<Rightarrow> lua_call \<Rightarrow> TValue \<Rightarrow> TValue \<Rightarrow> bool vm" where
  "luaV_equalval E call t1 t2 =
     (let by_tm = (\<lambda>a b. bindM (metatableM a) (\<lambda>m1. bindM (metatableM b) (\<lambda>m2.
            bindM (get_compTM m1 m2 TM_EQ) (\<lambda>tm. case tm of
              None \<Rightarrow> retM False | Some tm \<Rightarrow> callTM_test E call tm t1 t2)))) in
      case (t1, t2) of
        (TNil, _) \<Rightarrow> retM True
      | (TNumber a, TNumber b) \<Rightarrow> retM (luai_numeq a b)
      | (TBoolean a, TBoolean b) \<Rightarrow> retM (a = b)
      | (TLightUserdata a, TLightUserdata b) \<Rightarrow> retM (a = b)
      | (TGC LUA_TUSERDATA a, TGC _ b) \<Rightarrow> if a = b then retM True else by_tm a b
      | (TGC LUA_TTABLE a, TGC _ b) \<Rightarrow> if a = b then retM True else by_tm a b
      | (TGC _ a, TGC _ b) \<Rightarrow> retM (a = b)
      | _ \<Rightarrow> stopM BadRef)"

definition equalobj :: "vm_env \<Rightarrow> lua_call \<Rightarrow> TValue \<Rightarrow> TValue \<Rightarrow> bool vm" where
  "equalobj E call o1 o2 = (if ttype o1 = ttype o2 then luaV_equalval E call o1 o2 else retM False)"

subsection \<open>Concatenation\<close>

text \<open>
  Counting the operands that are strings or become strings, from \<open>top - n - 1\<close> down, and their
  total length; \<open>k\<close> is \<^verbatim>\<open>total - n\<close>.\<close>

definition MAX_SIZET_int :: int where "MAX_SIZET_int = 2 ^ 64 - 3"

primrec concat_collect :: "vm_env \<Rightarrow> lua_call \<Rightarrow> int \<Rightarrow> nat \<Rightarrow> int \<Rightarrow> int \<Rightarrow> (int \<times> int) vm" where
  "concat_collect E call tp 0 n len = retM (n, len)"
| "concat_collect E call tp (Suc k) n len =
     bindM (tostring E (tp - n - 1)) (\<lambda>b.
     if \<not> b then retM (n, len)
     else
       bindM (stk (tp - n - 1)) (\<lambda>v. bindM (strM v) (\<lambda>str.
       let l = int (length str) in
       if l \<ge> MAX_SIZET_int - len then luaG_runerror E call ''string length overflow''
       else concat_collect E call tp k (n + 1) (len + l))))"

primrec concat_copy :: "int \<Rightarrow> nat \<Rightarrow> string vm" where
  "concat_copy tp 0 = retM []"
| "concat_copy tp (Suc i) =
     bindM (stk (tp - int (Suc i))) (\<lambda>v. bindM (strM v) (\<lambda>str.
     bindM (concat_copy tp i) (\<lambda>rest. retM (str @ rest))))"

text \<open>One pass over the operands that end below \<open>tp\<close>: the number it handled.\<close>

definition concat_pass :: "vm_env \<Rightarrow> lua_call \<Rightarrow> int \<Rightarrow> int \<Rightarrow> int vm" where
  "concat_pass E call cnt tp =
     bindM (stk (tp - 2)) (\<lambda>v2.
     bindM (if ttype v2 = 4 \<or> ttype v2 = 3 then tostring E (tp - 1) else retM False) (\<lambda>ok.
     bindM (stk (tp - 1)) (\<lambda>v1.
     if \<not> ok then
       bindM (call_binTM E call v2 v1 (tp - 2) TM_CONCAT) (\<lambda>b.
       if b then retM 2 else luaG_concaterror_L E call (tp - 2) (tp - 1))
     else
       bindM (strM v1) (\<lambda>s1.
       if s1 = [] then bindM (tostring E (tp - 2)) (\<lambda>_. retM 2)
       else
         bindM (concat_collect E call tp (nat (cnt - 1)) 1 (int (length s1))) (\<lambda>(n, tl).
         bindM (concat_copy tp (nat n)) (\<lambda>buffer.
         bindM (newstr E buffer) (\<lambda>v. thenM (setstk (tp - n) v) (retM n))))))))"

partial_function (option) luaV_concat :: "vm_env \<Rightarrow> lua_call \<Rightarrow> int \<Rightarrow> int \<Rightarrow> unit vm" where
  "luaV_concat E call cnt lst s =
     bindM (getM l_base) (\<lambda>base.
     bindM (concat_pass E call cnt (base + lst + 1)) (\<lambda>n.
     if cnt - (n - 1) > 1 then luaV_concat E call (cnt - (n - 1)) (lst - (n - 1)) else retM ())) s"

declare luaV_concat.simps [code]

subsection \<open>Arithmetic\<close>

definition arith_num :: "fpops \<Rightarrow> TMS \<Rightarrow> lua_Number \<Rightarrow> lua_Number \<Rightarrow> lua_Number option" where
  "arith_num fp event b c =
     (case event of
        TM_ADD \<Rightarrow> Some (fp_add fp b c)
      | TM_SUB \<Rightarrow> Some (fp_sub fp b c)
      | TM_MUL \<Rightarrow> Some (fp_mul fp b c)
      | TM_DIV \<Rightarrow> Some (fp_div fp b c)
      | TM_MOD \<Rightarrow> Some (luai_nummod fp b c)
      | TM_POW \<Rightarrow> Some (fp_pow fp b c)
      | TM_UNM \<Rightarrow> Some (luai_numunm b)
      | _ \<Rightarrow> None)"

definition Arith :: "vm_env \<Rightarrow> lua_call \<Rightarrow> int \<Rightarrow> operand \<Rightarrow> operand \<Rightarrow> TMS \<Rightarrow> unit vm" where
  "Arith E call ra rb rc event =
     bindM (deref rb) (\<lambda>vb. bindM (deref rc) (\<lambda>vc.
     bindM (luaV_tonumber E vb) (\<lambda>b. bindM (if b = None then retM None else luaV_tonumber E vc) (\<lambda>c.
     case (b, c) of
       (Some nb, Some nc) \<Rightarrow>
         (case arith_num (ve_fp E) event nb nc of Some n \<Rightarrow> setstk ra (TNumber n) | None \<Rightarrow> retM ())
     | _ \<Rightarrow>
         bindM (call_binTM E call vb vc ra event) (\<lambda>ok.
         if ok then retM ()
         else luaG_typeerror_L E call (if b = None then rb else rc) ''perform arithmetic on'')))))"

end
