(* ===== verification/Vm.thy ===== *)
theory Vm
  imports Vm_Ops
begin

text \<open>
  The interpreter (\<^verbatim>\<open>luaV_execute\<close>) and \<^verbatim>\<open>luaD_call\<close>, which call each other.

  \<open>vm_instr\<close> is one turn of the main loop.  Its local variables are the running closure, the number
  of functions this activation runs (\<^verbatim>\<open>nexeccalls\<close>) and the next position in the code; the turn
  gives them back, or \<^const>\<open>None\<close> when \<^verbatim>\<open>luaV_execute\<close> returns.  The loop may never end, so it is a
  \<^theory_text>\<open>partial_function\<close>.  The first argument of \<open>luaD_call\<close> bounds the calls from C that may nest.
\<close>

definition LUA_MASKLINE :: int where "LUA_MASKLINE = 4"
definition LUA_MASKCOUNT :: int where "LUA_MASKCOUNT = 8"
definition LUA_HOOKLINE :: int where "LUA_HOOKLINE = 2"
definition LUA_HOOKCOUNT :: int where "LUA_HOOKCOUNT = 3"

type_synonym vm_locals = "closure \<times> int \<times> int"

subsection \<open>Operands\<close>

definition fetch :: "Proto \<Rightarrow> int \<Rightarrow> Instruction vm" where
  "fetch p pc = someM OutOfBounds (at (p_code p) pc)"

text \<open>A constant: a string is the interned one.\<close>

definition const_value :: "vm_env \<Rightarrow> Proto \<Rightarrow> int \<Rightarrow> TValue vm" where
  "const_value E p i =
     bindM (someM OutOfBounds (at (p_k p) i)) (\<lambda>c. case c of
       KNil \<Rightarrow> retM TNil
     | KBoolean b \<Rightarrow> retM (TBoolean b)
     | KNumber n \<Rightarrow> retM (TNumber n)
     | KString (Some str) \<Rightarrow> newstr E str
     | _ \<Rightarrow> stopM BadRef)"

definition reg :: "int \<Rightarrow> int vm" where
  "reg i = getM (\<lambda>s. l_base s + i)"

text \<open>\<^verbatim>\<open>RKB\<close> and \<^verbatim>\<open>RKC\<close>.\<close>

definition RK :: "vm_env \<Rightarrow> Proto \<Rightarrow> int \<Rightarrow> operand vm" where
  "RK E p r =
     (if ISK r then bindM (const_value E p (INDEXK r)) (\<lambda>v. retM (Elsewhere v))
      else bindM (reg r) (\<lambda>i. retM (AtStack i)))"

definition RKv :: "vm_env \<Rightarrow> Proto \<Rightarrow> int \<Rightarrow> TValue vm" where
  "RKv E p r = bindM (RK E p r) deref"

text \<open>\<^verbatim>\<open>nvalue\<close>: reading the number of a value that is none is an error of its own.\<close>

definition nvalue :: "int \<Rightarrow> lua_Number vm" where
  "nvalue i = bindM (stk i) (\<lambda>v. case v of TNumber n \<Rightarrow> retM n | _ \<Rightarrow> stopM BadRef)"

definition protect :: "int \<Rightarrow> unit vm" where
  "protect pc = modM (\<lambda>s. s\<lparr>l_savedpc := pc\<rparr>)"

subsection \<open>Hooks for lines and counts\<close>

definition traceexec :: "vm_env \<Rightarrow> lua_call \<Rightarrow> int \<Rightarrow> unit vm" where
  "traceexec E call pc =
     bindM (getM l_hookmask) (\<lambda>m. bindM (getM l_savedpc) (\<lambda>oldpc.
     thenM (protect pc)
     (bindM (getM l_hookcount) (\<lambda>count.
     thenM (if m AND LUA_MASKCOUNT \<noteq> 0 \<and> count = 0 then
              thenM (modM (\<lambda>s. s\<lparr>l_hookcount := l_basehookcount s\<rparr>)) (luaD_callhook E call LUA_HOOKCOUNT (- 1))
            else retM ())
     (if m AND LUA_MASKLINE \<noteq> 0 then
        bindM ciM (\<lambda>ci. bindM (isLua ci) (\<lambda>p. bindM (someM BadRef p) (\<lambda>p.
        bindM (getline p (pc - 1)) (\<lambda>newline.
        bindM (if pc - 1 = 0 \<or> pc \<le> oldpc then retM True
               else bindM (getline p (oldpc - 1)) (\<lambda>oldline. retM (newline \<noteq> oldline))) (\<lambda>b.
        if b then luaD_callhook E call LUA_HOOKLINE newline else retM ())))))
      else retM ())))))"

text \<open>The test before each instruction: whether the hook has yielded.\<close>

definition vm_hook :: "vm_env \<Rightarrow> lua_call \<Rightarrow> int \<Rightarrow> bool vm" where
  "vm_hook E call pc =
     bindM (getM l_hookmask) (\<lambda>m.
     if m AND (LUA_MASKLINE + LUA_MASKCOUNT) = 0 then retM False
     else
       thenM (modM (\<lambda>s. s\<lparr>l_hookcount := l_hookcount s - 1\<rparr>))
       (bindM (getM l_hookcount) (\<lambda>count.
       if count = 0 \<or> m AND LUA_MASKLINE \<noteq> 0 then
         thenM (traceexec E call pc)
         (bindM (getM l_status) (\<lambda>st.
         if st = LUA_YIELD then thenM (protect (pc - 1)) (retM True) else retM False))
       else retM False)))"

subsection \<open>Moving values\<close>

primrec nil_down :: "nat \<Rightarrow> int \<Rightarrow> unit vm" where
  "nil_down 0 i = retM ()"
| "nil_down (Suc n) i = thenM (setstk i TNil) (nil_down n (i - 1))"

definition set_bool :: "int \<Rightarrow> bool \<Rightarrow> unit vm" where
  "set_bool i b = setstk i (TBoolean (if b then 1 else 0))"

definition exec_load ::
  "vm_env \<Rightarrow> lua_call \<Rightarrow> closure \<Rightarrow> int \<Rightarrow> OpCode \<Rightarrow> Instruction \<Rightarrow> int \<Rightarrow> int vm" where
  "exec_load E call cl pc oc i ra =
     (let p = cl_p cl; b = GETARG_B i; c = GETARG_C i; bx = GETARG_Bx i;
          next = (\<lambda>m. thenM m (retM pc)) in
      case oc of
        OP_MOVE \<Rightarrow> next (bindM (reg b) (copystk ra))
      | OP_LOADK \<Rightarrow> next (bindM (const_value E p bx) (setstk ra))
      | OP_LOADBOOL \<Rightarrow> thenM (setstk ra (TBoolean b)) (retM (if c \<noteq> 0 then pc + 1 else pc))
      | OP_LOADNIL \<Rightarrow> next (bindM (reg b) (\<lambda>rb. nil_down (nat (rb - ra) + 1) rb))
      | OP_GETUPVAL \<Rightarrow>
          next (bindM (someM OutOfBounds (at (cl_upvals cl) b)) (\<lambda>u. bindM (getupval u) (setstk ra)))
      | OP_GETGLOBAL \<Rightarrow>
          next (bindM (const_value E p bx) (\<lambda>rb. thenM (protect pc)
            (luaV_gettable E call (Elsewhere (TGC LUA_TTABLE (cl_env cl))) rb ra)))
      | OP_GETTABLE \<Rightarrow>
          next (thenM (protect pc) (bindM (reg b) (\<lambda>rb. bindM (RKv E p c) (\<lambda>key.
            luaV_gettable E call (AtStack rb) key ra))))
      | OP_SETGLOBAL \<Rightarrow>
          next (bindM (const_value E p bx) (\<lambda>key. bindM (stk ra) (\<lambda>v. thenM (protect pc)
            (luaV_settable E call (Elsewhere (TGC LUA_TTABLE (cl_env cl))) key v))))
      | OP_SETUPVAL \<Rightarrow>
          next (bindM (someM OutOfBounds (at (cl_upvals cl) b)) (\<lambda>u. bindM (stk ra) (setupval u)))
      | OP_SETTABLE \<Rightarrow>
          next (thenM (protect pc) (bindM (RKv E p b) (\<lambda>key. bindM (RKv E p c) (\<lambda>v.
            luaV_settable E call (AtStack ra) key v))))
      | OP_NEWTABLE \<Rightarrow>
          next (bindM (allocM E) (\<lambda>a.
            bindM (lift_table E call (luaH_new (luaO_fb2int b) (luaO_fb2int c))) (\<lambda>t.
            thenM (set_table a t)
            (thenM (setstk ra (TGC LUA_TTABLE a))
            (thenM (protect pc) (ve_checkGC E call))))))
      | OP_SELF \<Rightarrow>
          next (bindM (reg b) (\<lambda>rb.
            thenM (copystk (ra + 1) rb)
            (thenM (protect pc)
            (bindM (RKv E p c) (\<lambda>key. luaV_gettable E call (AtStack rb) key ra)))))
      | _ \<Rightarrow> retM pc)"

subsection \<open>Operators\<close>

definition tm_of_op :: "OpCode \<Rightarrow> TMS" where
  "tm_of_op oc =
     (case oc of OP_ADD \<Rightarrow> TM_ADD | OP_SUB \<Rightarrow> TM_SUB | OP_MUL \<Rightarrow> TM_MUL | OP_DIV \<Rightarrow> TM_DIV | OP_MOD \<Rightarrow> TM_MOD
      | OP_POW \<Rightarrow> TM_POW | _ \<Rightarrow> TM_UNM)"

text \<open>\<^verbatim>\<open>arith_op\<close>.\<close>

definition arith_step :: "vm_env \<Rightarrow> lua_call \<Rightarrow> int \<Rightarrow> int \<Rightarrow> operand \<Rightarrow> operand \<Rightarrow> TMS \<Rightarrow> unit vm" where
  "arith_step E call pc ra rb rc event =
     bindM (deref rb) (\<lambda>vb. bindM (deref rc) (\<lambda>vc.
     case (vb, vc) of
       (TNumber nb, TNumber nc) \<Rightarrow>
         (case arith_num (ve_fp E) event nb nc of Some n \<Rightarrow> setstk ra (TNumber n) | None \<Rightarrow> retM ())
     | _ \<Rightarrow> thenM (protect pc) (Arith E call ra rb rc event)))"

definition exec_len :: "vm_env \<Rightarrow> lua_call \<Rightarrow> int \<Rightarrow> int \<Rightarrow> int \<Rightarrow> unit vm" where
  "exec_len E call pc ra rb =
     bindM (stk rb) (\<lambda>v. case v of
       TGC LUA_TTABLE h \<Rightarrow>
         bindM (tableM h) (\<lambda>t. case luaH_getn t of
           None \<Rightarrow> (\<lambda>_. None) | Some n \<Rightarrow> setstk ra (TNumber (cast_num n)))
     | TGC LUA_TSTRING _ \<Rightarrow> bindM (strM v) (\<lambda>str. setstk ra (TNumber (cast_num (int (length str)))))
     | _ \<Rightarrow>
         thenM (protect pc)
         (bindM (call_binTM E call v TNil ra TM_LEN) (\<lambda>b.
         if b then retM () else luaG_typeerror_L E call (AtStack rb) ''get length of'')))"

definition exec_arith ::
  "vm_env \<Rightarrow> lua_call \<Rightarrow> closure \<Rightarrow> int \<Rightarrow> OpCode \<Rightarrow> Instruction \<Rightarrow> int \<Rightarrow> int vm" where
  "exec_arith E call cl pc oc i ra =
     (let p = cl_p cl; b = GETARG_B i; c = GETARG_C i; next = (\<lambda>m. thenM m (retM pc)) in
      case oc of
        OP_UNM \<Rightarrow> next (bindM (reg b) (\<lambda>rb. arith_step E call pc ra (AtStack rb) (AtStack rb) TM_UNM))
      | OP_NOT \<Rightarrow> next (bindM (reg b) (\<lambda>rb. bindM (stk rb) (\<lambda>v. set_bool ra (l_isfalse v))))
      | OP_LEN \<Rightarrow> next (bindM (reg b) (exec_len E call pc ra))
      | OP_CONCAT \<Rightarrow>
          next (thenM (protect pc)
            (thenM (luaV_concat E call (c - b + 1) c)
            (thenM (ve_checkGC E call)
            (bindM (reg (GETARG_A i)) (\<lambda>ra. bindM (reg b) (copystk ra))))))
      | _ \<Rightarrow>
          next (bindM (RK E p b) (\<lambda>rb. bindM (RK E p c) (\<lambda>rc. arith_step E call pc ra rb rc (tm_of_op oc)))))"

subsection \<open>Jumps, tests and loops\<close>

text \<open>A test is followed by a jump: its target, or the instruction after it.\<close>

definition branch :: "Proto \<Rightarrow> int \<Rightarrow> bool \<Rightarrow> int vm" where
  "branch p pc b =
     (if b then bindM (fetch p pc) (\<lambda>j. retM (pc + GETARG_sBx j + 1)) else retM (pc + 1))"

definition forprep_number :: "vm_env \<Rightarrow> lua_call \<Rightarrow> int \<Rightarrow> string \<Rightarrow> lua_Number vm" where
  "forprep_number E call i what =
     bindM (stk i) (\<lambda>v. bindM (luaV_tonumber E v) (\<lambda>n. case n of
       None \<Rightarrow> luaG_runerror E call (quoted ''for'' @ '' '' @ what @ '' must be a number'')
     | Some n \<Rightarrow> thenM (setstk i (TNumber n)) (retM n)))"

definition forloop :: "vm_env \<Rightarrow> Proto \<Rightarrow> int \<Rightarrow> Instruction \<Rightarrow> int \<Rightarrow> int vm" where
  "forloop E p pc i ra =
     bindM (nvalue (ra + 2)) (\<lambda>step. bindM (nvalue ra) (\<lambda>idx. bindM (nvalue (ra + 1)) (\<lambda>limit.
     let idx = fp_add (ve_fp E) idx step in
     if (if luai_numlt 0 step then luai_numle idx limit else luai_numle limit idx) then
       thenM (setstk ra (TNumber idx))
       (thenM (setstk (ra + 3) (TNumber idx)) (retM (pc + GETARG_sBx i)))
     else retM pc)))"

definition tforloop :: "vm_env \<Rightarrow> lua_call \<Rightarrow> Proto \<Rightarrow> int \<Rightarrow> Instruction \<Rightarrow> int \<Rightarrow> int vm" where
  "tforloop E call p pc i ra =
     (let cb = ra + 3 in
      thenM (copystk (cb + 2) (ra + 2))
      (thenM (copystk (cb + 1) (ra + 1))
      (thenM (copystk cb ra)
      (thenM (set_top (cb + 3))
      (thenM (protect pc)
      (thenM (call cb (GETARG_C i))
      (bindM ciM (\<lambda>ci.
      thenM (set_top (ci_top ci))
      (bindM (reg (GETARG_A i + 3)) (\<lambda>cb. bindM (stk cb) (\<lambda>v.
      if v \<noteq> TNil then thenM (copystk (cb - 1) cb) (branch p pc True) else branch p pc False)))))))))))"

definition exec_jump ::
  "vm_env \<Rightarrow> lua_call \<Rightarrow> closure \<Rightarrow> int \<Rightarrow> OpCode \<Rightarrow> Instruction \<Rightarrow> int \<Rightarrow> int vm" where
  "exec_jump E call cl pc oc i ra =
     (let p = cl_p cl; a = GETARG_A i; b = GETARG_B i; c = GETARG_C i;
          is = (\<lambda>r n. (if r then 1 else 0) = n);
          compare = (\<lambda>f. bindM (RKv E p b) (\<lambda>rb. bindM (RKv E p c) (\<lambda>rc.
            thenM (protect pc) (bindM (f rb rc) (\<lambda>r. branch p pc (is r a)))))) in
      case oc of
        OP_JMP \<Rightarrow> retM (pc + GETARG_sBx i)
      | OP_EQ \<Rightarrow> compare (equalobj E call)
      | OP_LT \<Rightarrow> compare (luaV_lessthan_L E call)
      | OP_LE \<Rightarrow> compare (lessequal_L E call)
      | OP_TEST \<Rightarrow> bindM (stk ra) (\<lambda>v. branch p pc (\<not> is (l_isfalse v) c))
      | OP_TESTSET \<Rightarrow>
          bindM (reg b) (\<lambda>rb. bindM (stk rb) (\<lambda>v.
          if \<not> is (l_isfalse v) c then thenM (copystk ra rb) (branch p pc True) else branch p pc False))
      | OP_FORLOOP \<Rightarrow> forloop E p pc i ra
      | OP_FORPREP \<Rightarrow>
          thenM (protect pc)
          (bindM (forprep_number E call ra ''initial value'') (\<lambda>init.
          bindM (forprep_number E call (ra + 1) ''limit'') (\<lambda>_.
          bindM (forprep_number E call (ra + 2) ''step'') (\<lambda>step.
          thenM (setstk ra (TNumber (fp_sub (ve_fp E) init step))) (retM (pc + GETARG_sBx i))))))
      | OP_TFORLOOP \<Rightarrow> tforloop E call p pc i ra
      | _ \<Rightarrow> retM pc)"

subsection \<open>Tables, closures and variable arguments\<close>

primrec setlist_loop :: "vm_env \<Rightarrow> lua_call \<Rightarrow> u64 \<Rightarrow> int \<Rightarrow> nat \<Rightarrow> int \<Rightarrow> unit vm" where
  "setlist_loop E call h ra 0 lst = retM ()"
| "setlist_loop E call h ra (Suc n) lst =
     bindM (stk (ra + int (Suc n))) (\<lambda>v. bindM (tableM h) (\<lambda>t. bindM (getM str_hashes) (\<lambda>hs.
     bindM (lift_table E call (store (luaH_setnum 2 hs t lst) v)) (\<lambda>t.
     thenM (set_table h t) (setlist_loop E call h ra n (lst - 1))))))"

definition setlist_store :: "vm_env \<Rightarrow> lua_call \<Rightarrow> int \<Rightarrow> int \<Rightarrow> int \<Rightarrow> unit vm" where
  "setlist_store E call ra n c =
     bindM (stk ra) (\<lambda>v. case v of
       TGC LUA_TTABLE h \<Rightarrow>
         (let lst = (c - 1) * LFIELDS_PER_FLUSH + n in
          bindM (tableM h) (\<lambda>t. bindM (getM str_hashes) (\<lambda>hs.
          thenM (if lst > sizearray t then bindM (lift_table E call (luaH_resizearray 2 hs t lst)) (set_table h)
                 else retM ())
          (setlist_loop E call h ra (nat n) lst))))
     | _ \<Rightarrow> retM ())"

definition exec_setlist :: "vm_env \<Rightarrow> lua_call \<Rightarrow> Proto \<Rightarrow> int \<Rightarrow> Instruction \<Rightarrow> int \<Rightarrow> int vm" where
  "exec_setlist E call p pc i ra =
     bindM (if GETARG_B i = 0 then
              bindM (getM l_top) (\<lambda>top. bindM ciM (\<lambda>ci. thenM (set_top (ci_top ci)) (retM (top - ra - 1))))
            else retM (GETARG_B i)) (\<lambda>n.
     if GETARG_C i = 0 then
       bindM (fetch p pc) (\<lambda>w. thenM (setlist_store E call ra n (sint w)) (retM (pc + 1)))
     else thenM (setlist_store E call ra n (GETARG_C i)) (retM pc))"

text \<open>The pseudo instructions after \<^verbatim>\<open>OP_CLOSURE\<close> name the upvalues of the new closure.\<close>

primrec capture_upvals :: "vm_env \<Rightarrow> closure \<Rightarrow> nat \<Rightarrow> int \<Rightarrow> u64 list vm" where
  "capture_upvals E cl 0 pc = retM []"
| "capture_upvals E cl (Suc n) pc =
     bindM (fetch (cl_p cl) pc) (\<lambda>i.
     bindM (if is_op i OP_GETUPVAL then someM OutOfBounds (at (cl_upvals cl) (GETARG_B i))
            else bindM (reg (GETARG_B i)) (luaF_findupval E)) (\<lambda>u.
     bindM (capture_upvals E cl n (pc + 1)) (\<lambda>us. retM (u # us))))"

definition exec_closure :: "vm_env \<Rightarrow> lua_call \<Rightarrow> closure \<Rightarrow> int \<Rightarrow> Instruction \<Rightarrow> int \<Rightarrow> int vm" where
  "exec_closure E call cl pc i ra =
     bindM (someM OutOfBounds (at (p_p (cl_p cl)) (GETARG_Bx i))) (\<lambda>p.
     let nup = unat (p_nups p) in
     bindM (luaF_newLclosure E p (cl_env cl) (replicate nup 0)) (\<lambda>ncl.
     bindM (capture_upvals E cl nup pc) (\<lambda>us.
     thenM (modM (\<lambda>s. s\<lparr>l_closure := (l_closure s)((case ncl of TGC _ a \<Rightarrow> a | _ \<Rightarrow> 0) \<mapsto> LClosure p (cl_env cl) us)\<rparr>))
     (thenM (setstk ra ncl)
     (thenM (protect (pc + int nup))
     (thenM (ve_checkGC E call)
     (retM (pc + int nup))))))))"

text \<open>\<open>k\<close> cells are left to fill, the next is the \<open>j\<close>-th.\<close>

primrec vararg_loop :: "int \<Rightarrow> int \<Rightarrow> int \<Rightarrow> nat \<Rightarrow> int \<Rightarrow> unit vm" where
  "vararg_loop ra cibase n 0 j = retM ()"
| "vararg_loop ra cibase n (Suc k) j =
     thenM (if j < n then copystk (ra + j) (cibase - n + j) else setstk (ra + j) TNil)
     (vararg_loop ra cibase n k (j + 1))"

definition exec_vararg :: "vm_env \<Rightarrow> Proto \<Rightarrow> int \<Rightarrow> Instruction \<Rightarrow> int \<Rightarrow> int vm" where
  "exec_vararg E p pc i ra =
     bindM ciM (\<lambda>ci.
     let b = GETARG_B i - 1; n = ci_base ci - ci_func ci - uint (p_numparams p) - 1 in
     bindM (if b = LUA_MULTRET then
              thenM (protect pc)
              (thenM (luaD_checkstack E n)
              (bindM (reg (GETARG_A i)) (\<lambda>ra. thenM (set_top (ra + n)) (retM n))))
            else retM b) (\<lambda>b.
     thenM (vararg_loop ra (ci_base ci) n (nat b) 0) (retM pc)))"

subsection \<open>Calls and returns\<close>

text \<open>The entry point: the closure of the current call, and where it goes on.\<close>

definition reentry :: "int \<Rightarrow> vm_locals vm" where
  "reentry nexeccalls =
     bindM ciM (\<lambda>ci. bindM (stk (ci_func ci)) (\<lambda>v. bindM (closureM v) (\<lambda>cl. case cl of
       LClosure _ _ _ \<Rightarrow> bindM (getM l_savedpc) (\<lambda>pc. retM (cl, nexeccalls, pc))
     | CClosure _ _ _ \<Rightarrow> stopM BadRef)))"

definition top_to_ci :: "unit vm" where
  "top_to_ci = bindM ciM (\<lambda>ci. set_top (ci_top ci))"

definition exec_call ::
  "vm_env \<Rightarrow> lua_call \<Rightarrow> closure \<Rightarrow> int \<Rightarrow> int \<Rightarrow> Instruction \<Rightarrow> int \<Rightarrow> vm_locals option vm" where
  "exec_call E call cl nexeccalls pc i ra =
     (let b = GETARG_B i; nresults = GETARG_C i - 1 in
      thenM (if b \<noteq> 0 then set_top (ra + b) else retM ())
      (thenM (protect pc)
      (bindM (luaD_precall E call ra nresults) (\<lambda>r. case r of
        PCRLUA \<Rightarrow> bindM (reentry (nexeccalls + 1)) (\<lambda>x. retM (Some x))
      | PCRC \<Rightarrow> thenM (if nresults \<ge> 0 then top_to_ci else retM ()) (retM (Some (cl, nexeccalls, pc)))
      | PCRYIELD \<Rightarrow> retM None))))"

text \<open>A tail call puts the new frame in the place of the previous one.\<close>

definition replace_frame :: "unit vm" where
  "replace_frame =
     bindM (getM l_ci) (\<lambda>cis. case cis of
       new # ci # rest \<Rightarrow>
         (let func = ci_func ci; pfunc = ci_func new; base = func + (ci_base new - pfunc) in
          bindM (getM l_openupval) (\<lambda>ups.
          thenM (if ups \<noteq> [] then luaF_close (ci_base ci) else retM ())
          (bindM (getM l_top) (\<lambda>top.
          thenM (copy_up (nat (top - pfunc)) func pfunc)
          (modM (\<lambda>s. s\<lparr>l_base := base, l_top := func + max 0 (top - pfunc),
             l_ci := ci\<lparr>ci_base := base, ci_top := func + max 0 (top - pfunc), ci_savedpc := l_savedpc s,
                       ci_tailcalls := ci_tailcalls ci + 1\<rparr> # rest\<rparr>))))))
     | _ \<Rightarrow> stopM OutOfBounds)"

definition exec_tailcall ::
  "vm_env \<Rightarrow> lua_call \<Rightarrow> closure \<Rightarrow> int \<Rightarrow> int \<Rightarrow> Instruction \<Rightarrow> int \<Rightarrow> vm_locals option vm" where
  "exec_tailcall E call cl nexeccalls pc i ra =
     (let b = GETARG_B i in
      thenM (if b \<noteq> 0 then set_top (ra + b) else retM ())
      (thenM (protect pc)
      (bindM (luaD_precall E call ra LUA_MULTRET) (\<lambda>r. case r of
        PCRLUA \<Rightarrow> thenM replace_frame (bindM (reentry nexeccalls) (\<lambda>x. retM (Some x)))
      | PCRC \<Rightarrow> retM (Some (cl, nexeccalls, pc))
      | PCRYIELD \<Rightarrow> retM None))))"

definition exec_return ::
  "vm_env \<Rightarrow> lua_call \<Rightarrow> int \<Rightarrow> int \<Rightarrow> Instruction \<Rightarrow> int \<Rightarrow> vm_locals option vm" where
  "exec_return E call nexeccalls pc i ra =
     (let b = GETARG_B i in
      thenM (if b \<noteq> 0 then set_top (ra + b - 1) else retM ())
      (bindM (getM l_openupval) (\<lambda>ups.
      thenM (if ups \<noteq> [] then bindM (getM l_base) luaF_close else retM ())
      (thenM (protect pc)
      (bindM (luaD_poscall E call ra) (\<lambda>b.
      if nexeccalls - 1 = 0 then retM None
      else
        thenM (if b then top_to_ci else retM ())
        (bindM (reentry (nexeccalls - 1)) (\<lambda>x. retM (Some x)))))))))"

subsection \<open>The main loop\<close>

definition exec_plain ::
  "vm_env \<Rightarrow> lua_call \<Rightarrow> closure \<Rightarrow> int \<Rightarrow> OpCode \<Rightarrow> Instruction \<Rightarrow> int \<Rightarrow> int vm" where
  "exec_plain E call cl pc oc i ra =
     (if oc \<in> {OP_MOVE, OP_LOADK, OP_LOADBOOL, OP_LOADNIL, OP_GETUPVAL, OP_GETGLOBAL, OP_GETTABLE,
               OP_SETGLOBAL, OP_SETUPVAL, OP_SETTABLE, OP_NEWTABLE, OP_SELF}
      then exec_load E call cl pc oc i ra
      else if oc \<in> {OP_ADD, OP_SUB, OP_MUL, OP_DIV, OP_MOD, OP_POW, OP_UNM, OP_NOT, OP_LEN, OP_CONCAT}
      then exec_arith E call cl pc oc i ra
      else if oc = OP_SETLIST then exec_setlist E call (cl_p cl) pc i ra
      else if oc = OP_CLOSE then thenM (luaF_close ra) (retM pc)
      else if oc = OP_CLOSURE then exec_closure E call cl pc i ra
      else if oc = OP_VARARG then exec_vararg E (cl_p cl) pc i ra
      else exec_jump E call cl pc oc i ra)"

definition vm_instr :: "vm_env \<Rightarrow> lua_call \<Rightarrow> closure \<Rightarrow> int \<Rightarrow> int \<Rightarrow> vm_locals option vm" where
  "vm_instr E call cl nexeccalls pc =
     bindM (fetch (cl_p cl) pc) (\<lambda>i.
     bindM (vm_hook E call (pc + 1)) (\<lambda>yielded.
     if yielded then retM None
     else
       bindM (reg (GETARG_A i)) (\<lambda>ra. case to_OpCode (GET_OPCODE i) of
         None \<Rightarrow> retM (Some (cl, nexeccalls, pc + 1))
       | Some oc \<Rightarrow>
           if oc = OP_CALL then exec_call E call cl nexeccalls (pc + 1) i ra
           else if oc = OP_TAILCALL then exec_tailcall E call cl nexeccalls (pc + 1) i ra
           else if oc = OP_RETURN then exec_return E call nexeccalls (pc + 1) i ra
           else bindM (exec_plain E call cl (pc + 1) oc i ra) (\<lambda>pc. retM (Some (cl, nexeccalls, pc))))))"

partial_function (option) vm_loop :: "vm_env \<Rightarrow> lua_call \<Rightarrow> vm_locals \<Rightarrow> unit vm" where
  "vm_loop E call x s =
     bindM (vm_instr E call (fst x) (fst (snd x)) (snd (snd x))) (\<lambda>r.
       if r = None then retM () else vm_loop E call (the r)) s"

declare vm_loop.simps [code]

definition luaV_execute :: "vm_env \<Rightarrow> lua_call \<Rightarrow> int \<Rightarrow> unit vm" where
  "luaV_execute E call nexeccalls = bindM (reentry nexeccalls) (vm_loop E call)"

subsection \<open>Calling a function from C\<close>

definition check_Ccalls :: "vm_env \<Rightarrow> lua_call \<Rightarrow> unit vm" where
  "check_Ccalls E call =
     thenM (modM (\<lambda>s. s\<lparr>l_nCcalls := l_nCcalls s + 1\<rparr>))
     (bindM (getM l_nCcalls) (\<lambda>n.
     if n \<ge> LUAI_MAXCCALLS then
       if n = LUAI_MAXCCALLS then luaG_runerror E call ''C stack overflow''
       else if n \<ge> LUAI_MAXCCALLS + LUAI_MAXCCALLS div 8 then luaD_throw LUA_ERRERR
       else retM ()
     else retM ()))"

definition call_body :: "vm_env \<Rightarrow> lua_call \<Rightarrow> lua_call" where
  "call_body E call func nResults =
     thenM (check_Ccalls E call)
     (bindM (luaD_precall E call func nResults) (\<lambda>r.
     thenM (if r = PCRLUA then luaV_execute E call 1 else retM ())
     (thenM (modM (\<lambda>s. s\<lparr>l_nCcalls := l_nCcalls s - 1\<rparr>))
     (ve_checkGC E call))))"

primrec luaD_call :: "vm_env \<Rightarrow> nat \<Rightarrow> lua_call" where
  "luaD_call E 0 = (\<lambda>func nResults s. None)"
| "luaD_call E (Suc n) = call_body E (luaD_call E n)"

end
