(* ===== verification/Vm_Demo.thy ===== *)
theory Vm_Demo
  imports Vm Lexer_Runs
begin

text \<open>
  An environment and a state to run the interpreter on: \<^verbatim>\<open>lua_newstate\<close>'s stack and call record,
  with a function at index 1 that adds two constants.
\<close>

definition demo_env :: vm_env where
  "demo_env = \<lparr>ve_lex = c_env, ve_fp = demo_fp, ve_number2str = (\<lambda>n. ''1''), ve_strcoll = strcmp,
     ve_malloc = demo_malloc, ve_new = (\<lambda>s. Some 100), ve_junk = TNil,
     ve_cfunction = (\<lambda>f call. retM 0), ve_hook = (\<lambda>h e l call. retM ()), ve_checkGC = (\<lambda>call. retM ())\<rparr>"

definition demo_proto :: Proto where
  "demo_proto = Proto [KNumber (cast_num 2), KNumber (cast_num 3)]
     [CREATE_ABx 1 0 0, CREATE_ABC 12 0 0 (256 + 1), CREATE_ABC 30 0 2 0, CREATE_ABC 30 0 1 0] [] [] [] [] (Some ''=?'') 0 0 0 0 0 2"

definition demo_state :: lua_State where
  "demo_state = \<lparr>l_status = 0, l_stack = (replicate 45 TNil)[1 := TGC LUA_TFUNCTION 7], l_top = 2, l_base = 1,
     l_ci = [\<lparr>ci_base = 1, ci_func = 0, ci_top = 21, ci_savedpc = 0, ci_nresults = 0, ci_tailcalls = 0\<rparr>],
     l_size_ci = 8, l_savedpc = 0, l_nCcalls = 0, l_baseCcalls = 0, l_hookmask = 0, l_allowhook = True,
     l_basehookcount = 0, l_hookcount = 0, l_hook = None, l_gt = TGC LUA_TTABLE 1, l_openupval = [], l_errfunc = 0,
     l_upval = (\<lambda>_. None), l_closure = [7 \<mapsto> LClosure demo_proto 1 []], l_table = (\<lambda>_. None),
     l_meta = (\<lambda>_. None), g_strt = empty_strtab 32, g_mt = (\<lambda>_. None), g_tmname = []\<rparr>"

lemma demo_run:
  "map_option (map_sum fst (\<lambda>(_, s). (l_top s, l_stack s ! 1))) (luaD_call demo_env (Suc 0) 1 1 demo_state) =
     Some (Inr (2, TNumber (cast_num 5)))"
  by code_simp

end
