(* ===== verification/Vm_Flow.thy ===== *)
theory Vm_Flow
  imports Vm_Demo Checker_Flow
begin

text \<open>
  The control flow of the interpreter is the one the bytecode checker was proved sound for: a turn
  of the main loop that stays in its function moves to a position of \<open>vm_next\<close>.  So a function
  that the checker accepts is never run outside its code.
\<close>

subsection \<open>Computations that return\<close>

definition returns :: "('s, 'e, 'a) comp \<Rightarrow> 's \<Rightarrow> 'a \<Rightarrow> 's \<Rightarrow> bool" where
  "returns m s x s' \<longleftrightarrow> m s = Some (Inr (x, s'))"

lemma returns_bind: "returns (bindM m f) s y s'' \<longleftrightarrow> (\<exists>x s'. returns m s x s' \<and> returns (f x) s' y s'')"
  by (auto simp: returns_def bindM_def split: option.splits sum.splits)

lemma returns_then: "returns (thenM m n) s y s'' \<longleftrightarrow> (\<exists>x s'. returns m s x s' \<and> returns n s' y s'')"
  by (simp add: thenM_def returns_bind)

lemma returns_ret [simp]: "returns (retM x) s y s' \<longleftrightarrow> y = x \<and> s' = s"
  by (auto simp: returns_def retM_def)

lemma returns_get [simp]: "returns (getM f) s y s' \<longleftrightarrow> y = f s \<and> s' = s"
  by (auto simp: returns_def getM_def)

lemma returns_mod [simp]: "returns (modM f) s y s' \<longleftrightarrow> s' = f s"
  by (auto simp: returns_def modM_def)

lemma returns_stop [simp]: "\<not> returns (stopM e) s y s'" "\<not> returns (luaD_throw n) s y s'"
  by (simp_all add: returns_def stopM_def luaD_throw_def)

lemma returns_none [simp]: "\<not> returns (\<lambda>_. None) s y s'"
  by (simp add: returns_def)

lemma returns_some [simp]: "returns (someM e r) s y s' \<longleftrightarrow> r = Some y \<and> s' = s"
  by (cases r) (auto simp: someM_def)

lemma returns_fetch: "returns (fetch p pc) s i s' \<longleftrightarrow> at (p_code p) pc = Some i \<and> s' = s"
  by (simp add: fetch_def)

lemma returns_errormsg [simp]: "\<not> returns (luaG_errormsg E call) s y s'"
  by (simp add: luaG_errormsg_def returns_bind returns_then)

lemma returns_runerror [simp]: "\<not> returns (luaG_runerror E call msg) s y s'"
  by (simp add: luaG_runerror_def returns_then)

lemmas returns_simps = returns_bind returns_then returns_fetch

subsection \<open>One turn\<close>

lemma branch_targets:
  assumes "returns (branch p (pc + 1) b) s q s'"
  shows "q = pc + 2 \<or> q = pc + 1 + 1 + GETARG_sBx (code_at p (pc + 1))"
  using assms by (auto simp: branch_def returns_simps code_at_def at_Some_iff split: if_splits)

lemma code_at_opcode:
  assumes "at (p_code p) pc = Some i"
  shows "code_at p pc = i" "opcode_at p pc = to_OpCode (GET_OPCODE i)"
  using assms by (auto simp: code_at_def opcode_at_def at_Some_iff)

lemma exec_load_flow:
  assumes "returns (exec_load E call cl (pc + 1) oc i ra) s q s'"
  shows "q = (if oc = OP_LOADBOOL \<and> GETARG_C i \<noteq> 0 then pc + 2 else pc + 1)"
  using assms by (cases oc) (auto simp: exec_load_def Let_def returns_then)

lemma exec_arith_flow:
  assumes "returns (exec_arith E call cl (pc + 1) oc i ra) s q s'"
  shows "q = pc + 1"
  using assms by (cases oc) (auto simp: exec_arith_def Let_def returns_then)

lemma exec_setlist_flow:
  assumes "returns (exec_setlist E call p (pc + 1) i ra) s q s'"
  shows "q = (if GETARG_C i = 0 then pc + 2 else pc + 1)"
  using assms
  by (auto simp: exec_setlist_def returns_simps split: if_splits)

lemma exec_closure_flow:
  assumes "returns (exec_closure E call cl (pc + 1) i ra) s q s'"
  shows "q = pc + 1 + uint (p_nups (p_p (cl_p cl) ! nat (GETARG_Bx i)))"
  using assms
  by (auto simp: exec_closure_def returns_simps Let_def at_Some_iff)

lemma exec_vararg_flow:
  assumes "returns (exec_vararg E p pc i ra) s q s'"
  shows "q = pc"
  using assms by (auto simp: exec_vararg_def returns_simps Let_def)

lemma exec_jump_flow:
  assumes "returns (exec_jump E call cl (pc + 1) oc i ra) s q s'" "i = code_at (cl_p cl) pc"
    "oc \<in> {OP_JMP, OP_EQ, OP_LT, OP_LE, OP_TEST, OP_TESTSET, OP_FORLOOP, OP_FORPREP, OP_TFORLOOP}"
    "opcode_at (cl_p cl) pc = Some oc"
  shows "q \<in> set (vm_next (cl_p cl) pc)"
proof -
  let ?test = "{OP_EQ, OP_LT, OP_LE, OP_TEST, OP_TESTSET, OP_TFORLOOP}"
  consider "oc \<in> ?test" | "oc = OP_JMP" | "oc = OP_FORLOOP" | "oc = OP_FORPREP" using assms(3) by blast
  then show ?thesis
  proof cases
    case 1
    then obtain b s1 where "returns (branch (cl_p cl) (pc + 1) b) s1 q s'"
      using assms(1)
      by (auto simp: exec_jump_def tforloop_def Let_def returns_bind returns_then split: if_splits)
    from branch_targets [OF this] 1 assms(4) show ?thesis by (auto simp: vm_next_def Let_def)
  next
    case 2
    then show ?thesis using assms by (auto simp: exec_jump_def Let_def vm_next_def)
  next
    case 3
    then show ?thesis using assms(1,2,4)
      by (auto simp: exec_jump_def forloop_def Let_def returns_simps vm_next_def split: if_splits)
  next
    case 4
    then show ?thesis using assms(1,2,4)
      by (auto simp: exec_jump_def Let_def returns_simps vm_next_def)
  qed
qed

lemma exec_plain_flow:
  assumes r: "returns (exec_plain E call cl (pc + 1) oc (code_at (cl_p cl) pc) ra) s q s'"
    and oc: "opcode_at (cl_p cl) pc = Some oc" "oc \<notin> {OP_CALL, OP_TAILCALL, OP_RETURN}"
  shows "q \<in> set (vm_next (cl_p cl) pc)"
proof (cases "oc \<in> {OP_JMP, OP_EQ, OP_LT, OP_LE, OP_TEST, OP_TESTSET, OP_FORLOOP, OP_FORPREP, OP_TFORLOOP}")
  case True
  then show ?thesis using r exec_jump_flow [OF _ refl True oc(1)] by (cases oc) (auto simp: exec_plain_def)
next
  case False
  then show ?thesis using r oc
    by (cases oc) (auto simp: exec_plain_def vm_next_def Let_def returns_then
      dest: exec_load_flow exec_arith_flow exec_setlist_flow exec_closure_flow exec_vararg_flow)
qed

lemma reentry_count: "returns (reentry n) s (cl, n', q) s' \<Longrightarrow> n' = n"
proof -
  assume "returns (reentry n) s (cl, n', q) s'"
  then obtain c s1 where "returns (case c of LClosure _ _ _ \<Rightarrow> bindM (getM l_savedpc) (\<lambda>pc. retM (c, n, pc))
      | CClosure _ _ _ \<Rightarrow> stopM BadRef) s1 (cl, n', q) s'"
    unfolding reentry_def returns_bind by blast
  then show "n' = n" by (cases c) (auto simp: returns_simps)
qed

lemma exec_call_flow:
  assumes "returns (exec_call E call cl n pc i ra) s (Some (cl', n, q)) s'"
  shows "cl' = cl \<and> q = pc"
proof -
  obtain r s1 where "returns (case r of
      PCRLUA \<Rightarrow> bindM (reentry (n + 1)) (\<lambda>x. retM (Some x))
    | PCRC \<Rightarrow> thenM (if GETARG_C i - 1 \<ge> 0 then top_to_ci else retM ()) (retM (Some (cl, n, pc)))
    | PCRYIELD \<Rightarrow> retM None) s1 (Some (cl', n, q)) s'"
    using assms unfolding exec_call_def Let_def returns_simps by blast
  then show ?thesis by (cases r) (auto simp: returns_simps dest: reentry_count)
qed

lemma vm_instr_flow:
  assumes r: "returns (vm_instr E call cl n pc) s (Some (cl', n', q)) s'"
    and oc: "opcode_at (cl_p cl) pc = Some oc" "oc \<notin> {OP_TAILCALL, OP_RETURN}" "n' = n"
  shows "cl' = cl \<and> q \<in> set (vm_next (cl_p cl) pc)"
proof -
  obtain i where i: "at (p_code (cl_p cl)) pc = Some i" using r by (auto simp: vm_instr_def returns_simps)
  note c = code_at_opcode [OF i]
  have d: "to_OpCode (GET_OPCODE i) = Some oc" using c(2) oc(1) by simp
  show ?thesis
  proof (cases "oc = OP_CALL")
    case True
    then obtain ra s1 where "returns (exec_call E call cl n (pc + 1) i ra) s1 (Some (cl', n, q)) s'"
      using r i d oc by (auto simp: vm_instr_def returns_simps split: if_splits)
    from exec_call_flow [OF this] True oc(1) show ?thesis by (simp add: vm_next_def Let_def)
  next
    case False
    then have "oc \<notin> {OP_CALL, OP_TAILCALL, OP_RETURN}" using oc by blast
    moreover obtain ra s1 where "returns (exec_plain E call cl (pc + 1) oc i ra) s1 q s'" "cl' = cl"
      using r i d oc False by (auto simp: vm_instr_def returns_simps split: if_splits)
    ultimately show ?thesis using exec_plain_flow [OF _ oc(1)] c(1) by blast
  qed
qed

subsection \<open>A function stays in its code\<close>

text \<open>
  The positions a call of a function goes through, with the states there: it is entered at 0; a
  turn goes on in the same activation; after a call of a Lua function it goes on at the next
  instruction, in whatever state that function leaves.\<close>

inductive frame_run :: "vm_env \<Rightarrow> lua_call \<Rightarrow> closure \<Rightarrow> int \<Rightarrow> int \<Rightarrow> lua_State \<Rightarrow> bool" for E call cl n where
  enter: "frame_run E call cl n 0 s"
| turn: "frame_run E call cl n pc s \<Longrightarrow> opcode_at (cl_p cl) pc \<notin> {Some OP_TAILCALL, Some OP_RETURN} \<Longrightarrow>
    vm_instr E call cl n pc s = Some (Inr (Some (cl', n, pc'), s')) \<Longrightarrow> frame_run E call cl n pc' s'"
| resumed: "frame_run E call cl n pc s \<Longrightarrow> opcode_at (cl_p cl) pc = Some OP_CALL \<Longrightarrow> frame_run E call cl n (pc + 1) s'"

lemma frame_run_on_code:
  assumes "frame_run E call cl n pc s" "luaG_checkcode (cl_p cl) = Some True" "loadbools_plain (cl_p cl)"
  shows "on_code (cl_p cl) pc"
  using assms(1)
proof (induction rule: frame_run.induct)
  case (enter s)
  show ?case using reach_on_code [OF assms(2,3) vm_reach.entry] .
next
  case (turn pc s cl' pc' s')
  obtain oc where oc: "opcode_at (cl_p cl) pc = Some oc"
    using on_code_operands [OF assms(2) turn.IH] by (auto simp: operands_ok_def)
  have "returns (vm_instr E call cl n pc) s (Some (cl', n, pc')) s'" using turn.hyps(3) by (simp add: returns_def)
  from vm_instr_flow [OF this oc] turn.hyps(2) oc
  show ?case using vm_next_on_code [OF assms(2,3) turn.IH] by simp
next
  case (resumed pc s s')
  then have "pc + 1 \<in> set (vm_next (cl_p cl) pc)" by (simp add: vm_next_def Let_def)
  then show ?case using vm_next_on_code [OF assms(2,3) resumed.IH] by simp
qed



end
