(* ===== verification/Vm_Tagmethods.thy ===== *)
theory Vm_Tagmethods
  imports Vm_Demo
begin

text \<open>
  The cache of absent tag methods: a bit of \<^verbatim>\<open>flags\<close> in a metatable says that the method is not
  there.  While every bit set tells the truth, \<^verbatim>\<open>fasttm\<close> gives what a look-up gives; one
  assignment of the interpreter breaks this.
\<close>

subsection \<open>The cache is faithful\<close>

definition raw_tm :: "lua_State \<Rightarrow> u64 \<Rightarrow> TMS \<Rightarrow> TValue option" where
  "raw_tm s h e =
     Option.bind (l_table s h) (\<lambda>t. Option.bind (at (g_tmname s) (int (tm_index e))) (\<lambda>n.
     map_option (slot_val t) (luaH_getstr (str_hashes s) t n)))"

definition flags_ok :: "lua_State \<Rightarrow> bool" where
  "flags_ok s \<longleftrightarrow>
     (\<forall>h t e. l_table s h = Some t \<longrightarrow> flags t AND push_bit (tm_index e) 1 \<noteq> 0 \<longrightarrow> raw_tm s h e = Some TNil)"

lemma tm_index_inj: "tm_index a = tm_index b \<Longrightarrow> a = b"
  by (cases a; cases b; simp)

lemma flag_bit: "(w :: u8) AND push_bit n 1 \<noteq> 0 \<longleftrightarrow> bit w n"
  by (simp only: bit_iff_and_push_bit_not_eq_0)

lemma hashes_table [simp]: "str_hashes (s\<lparr>l_table := x\<rparr>) = str_hashes s"
  by (simp add: str_hashes_def fun_eq_iff)

lemma getstr_flags [simp]:
  "luaH_getstr hs (t\<lparr>flags := x\<rparr>) n = luaH_getstr hs t n" "slot_val (t\<lparr>flags := x\<rparr>) = slot_val t"
  by (simp_all add: fun_eq_iff luaH_getstr_def chain_slot_def hashpow2_def slot_val_def sizenode_def cong: slot.case_cong)

text \<open>
  C37: while the cache tells the truth, \<^verbatim>\<open>fasttm\<close> finds exactly the tag methods that a look-up in the
  metatable finds; it keeps the cache truthful and changes nothing but flags.\<close>

theorem fasttm_uncached:
  assumes ok: "flags_ok s" and v: "raw_tm s h e = Some v"
  shows "\<exists>s'. fasttm (Some h) e s = Some (Inr (if v = TNil then None else Some v, s')) \<and> flags_ok s' \<and>
    (s' = s \<or> (\<exists>t f. l_table s h = Some t \<and> s' = s\<lparr>l_table := (l_table s)(h \<mapsto> t\<lparr>flags := f\<rparr>)\<rparr>))"
proof -
  obtain t n p where t: "l_table s h = Some t" and n: "at (g_tmname s) (int (tm_index e)) = Some n"
    and p: "luaH_getstr (str_hashes s) t n = Some p" "slot_val t p = v"
    using v by (auto simp: raw_tm_def option_bind_Some_iff)
  show ?thesis
  proof (cases "flags t AND push_bit (tm_index e) 1 = 0")
    case False
    then have "v = TNil" using ok t v by (auto simp: flags_ok_def)
    then show ?thesis using False t ok by (simp add: fasttm_def tableM_def someM_def gen_defs)
  next
    case True
    let ?t = "t\<lparr>flags := flags t OR push_bit (tm_index e) 1\<rparr>"
    let ?s = "s\<lparr>l_table := (l_table s)(h \<mapsto> ?t)\<rparr>"
    note run = fasttm_def tableM_def someM_def gen_defs tmname_def luaT_gettm_def getstrM_def set_table_def
    have raw: "raw_tm ?s k d = raw_tm s k d" for k d
      using t by (auto simp: raw_tm_def)
    have "flags_ok ?s" if "v = TNil"
      unfolding flags_ok_def raw
    proof (intro allI impI)
      fix k u d
      assume u: "l_table ?s k = Some u" "flags u AND push_bit (tm_index d) 1 \<noteq> 0"
      show "raw_tm s k d = Some TNil"
      proof (cases "k = h \<and> d = e")
        case False
        have "\<exists>u'. l_table s k = Some u' \<and> flags u' AND push_bit (tm_index d) 1 \<noteq> 0"
        proof (cases "k = h")
          case True
          then have "tm_index d \<noteq> tm_index e" using False tm_index_inj by blast
          then show ?thesis using u t True unfolding flag_bit by (auto simp: bit_simps)
        qed (use u in simp)
        then show ?thesis using ok by (auto simp: flags_ok_def)
      qed (use v that in simp)
    qed
    have r: "fasttm (Some h) e s = Some (Inr (if v = TNil then None else Some v, if v = TNil then ?s else s))"
      using True t n p by (simp add: run)
    show ?thesis
    proof (cases "v = TNil")
      case True
      then show ?thesis using r \<open>v = TNil \<Longrightarrow> flags_ok ?s\<close> t by auto
    qed (use r ok in simp)
  qed
qed

text \<open>A metatable that holds \<^verbatim>\<open>__index\<close> and nothing else, and whose cache knows that \<^verbatim>\<open>__newindex\<close> is absent.\<close>

definition cache_demo :: lua_State where
  "cache_demo = demo_state\<lparr>g_tmname := [1, 2],
     l_table := [9 \<mapsto> \<lparr>flags = 2, lsizenode = 0, t_array = [],
       t_node = [\<lparr>i_val = TBoolean 1, i_key = TGC LUA_TSTRING 1, n_next = None\<rparr>], t_isdummy = False, lastfree = 0\<rparr>]\<rparr>"

lemma cache_demo_found:
  "raw_tm cache_demo 9 TM_INDEX = Some (TBoolean 1)" "raw_tm cache_demo 9 TM_NEWINDEX = Some TNil"
  by code_simp+

lemma cache_demo_ok: "flags_ok cache_demo"
proof -
  have "e = TM_NEWINDEX" if "flags t AND push_bit (tm_index e) 1 \<noteq> 0" "l_table cache_demo h = Some t" for h t e
    using that by (cases e) (auto simp: cache_demo_def push_bit_eq_mult split: if_splits)
  moreover have "h = 9" if "l_table cache_demo h = Some t" for h t
    using that by (auto simp: cache_demo_def demo_state_def split: if_splits)
  ultimately show ?thesis unfolding flags_ok_def using cache_demo_found(2) by blast
qed

theorem fasttm_uncached_witness:
  "(\<exists>s'. fasttm (Some 9) TM_INDEX cache_demo = Some (Inr (Some (TBoolean 1), s')) \<and> flags_ok s') \<and>
   (\<exists>s'. fasttm (Some 9) TM_NEWINDEX cache_demo = Some (Inr (None, s')) \<and> flags_ok s')"
  using fasttm_uncached [OF cache_demo_ok cache_demo_found(1)] fasttm_uncached [OF cache_demo_ok cache_demo_found(2)]
  by auto

subsection \<open>A table that is its own metatable\<close>

text \<open>
  In \<^verbatim>\<open>t = {}; setmetatable(t, t); t.__newindex = f\<close> the assignment finds room for its key, whose
  value is still nil, and then asks the metatable, the same table, for \<^verbatim>\<open>__newindex\<close>: the answer,
  nil, is cached after \<^verbatim>\<open>luaH_set\<close> has cleared the cache, and then \<open>f\<close> is stored.  For any other
  table \<open>u\<close> with the metatable \<open>t\<close>, the cache now hides the method.  Here \<open>t\<close> is at 1, \<open>u\<close> at 2.\<close>

definition empty_table :: Table where
  "empty_table = \<lparr>flags = 0, lsizenode = 0, t_array = [], t_node = [dummynode], t_isdummy = True, lastfree = 0\<rparr>"

definition self_meta_state :: lua_State where
  "self_meta_state = demo_state\<lparr>l_table := [1 \<mapsto> empty_table, 2 \<mapsto> empty_table], l_meta := [1 \<mapsto> 1, 2 \<mapsto> 1]\<rparr>"

definition assign_field :: "lua_call \<Rightarrow> u64 \<Rightarrow> string \<Rightarrow> TValue \<Rightarrow> unit vm" where
  "assign_field call h k v =
     bindM (newstr demo_env k) (\<lambda>key. luaV_settable demo_env call (Elsewhere (TGC LUA_TTABLE h)) key v)"

definition raw_field :: "u64 \<Rightarrow> string \<Rightarrow> TValue vm" where
  "raw_field h k = bindM (newstr demo_env k) (\<lambda>key. bindM (tableM h) (\<lambda>t. getM_table t key))"

definition self_meta_script :: "lua_call \<Rightarrow> (TValue \<times> TValue) vm" where
  "self_meta_script call =
     thenM (luaT_init demo_env)
     (thenM (assign_field call 1 ''__newindex'' (TGC LUA_TFUNCTION 7))
     (thenM (assign_field call 2 ''x'' (TBoolean 1))
     (bindM (raw_field 1 ''__newindex'') (\<lambda>f. bindM (raw_field 2 ''x'') (\<lambda>x. retM (f, x))))))"


end
