(* ===== verification/Vm_Upvalues.thy ===== *)
theory Vm_Upvalues
  imports Vm_Demo
begin

text \<open>
  Upvalues (\<^verbatim>\<open>lfunc.c\<close>): at most one open upvalue for each place of the stack, so that closures share
  the variables they capture, and closing an upvalue is invisible to those that use it.
\<close>

subsection \<open>The chain of open upvalues\<close>

definition chain_ok :: "lua_State \<Rightarrow> u64 list \<Rightarrow> int list \<Rightarrow> bool" where
  "chain_ok s ups ls \<longleftrightarrow> map (uv_level s) ups = map Some ls \<and> sorted_wrt (>) ls"

definition upvals_ok :: "lua_State \<Rightarrow> bool" where
  "upvals_ok s \<longleftrightarrow>
     (\<exists>ls. chain_ok s (l_openupval s) ls \<and> (\<forall>i \<in> set ls. 0 \<le> i \<and> i < l_stacksize s)) \<and>
     (\<forall>a i. l_upval s a = Some (UOpen i) \<longrightarrow> a \<in> set (l_openupval s))"

text \<open>The value an upvalue stands for.\<close>

definition upval_value :: "lua_State \<Rightarrow> u64 \<Rightarrow> TValue option" where
  "upval_value s a =
     (case l_upval s a of
        None \<Rightarrow> None | Some (UOpen i) \<Rightarrow> at (l_stack s) i | Some (UClosed v) \<Rightarrow> Some v)"

lemma uv_level_iff: "uv_level s a = Some i \<longleftrightarrow> l_upval s a = Some (UOpen i)"
  by (auto simp: uv_level_def split: option.splits upval.splits)

lemma chain_Cons: "chain_ok s (u # us) ls \<longleftrightarrow>
    (\<exists>i js. ls = i # js \<and> l_upval s u = Some (UOpen i) \<and> (\<forall>j \<in> set js. j < i) \<and> chain_ok s us js)"
  by (cases ls) (auto simp: chain_ok_def uv_level_iff)

lemma chain_Nil [simp]: "chain_ok s [] ls \<longleftrightarrow> ls = []"
  by (auto simp: chain_ok_def)

lemma value_openupval [simp]: "upval_value (s\<lparr>l_openupval := x\<rparr>) a = upval_value s a"
  by (auto simp: upval_value_def split: option.split upval.split)

lemma chain_mem: "chain_ok s us ls \<Longrightarrow> u \<in> set us \<Longrightarrow> \<exists>i \<in> set ls. l_upval s u = Some (UOpen i)"
  by (induction us arbitrary: ls) (auto simp: chain_Cons)

lemma chain_inj:
  assumes "chain_ok s us ls" "u \<in> set us" "v \<in> set us" "l_upval s u = l_upval s v"
  shows "u = v"
  using assms
proof (induction us arbitrary: ls)
  case (Cons w us)
  then obtain i js where w: "l_upval s w = Some (UOpen i)" "\<forall>j \<in> set js. j < i" "chain_ok s us js"
    by (auto simp: chain_Cons)
  have "l_upval s x \<noteq> l_upval s w" if "x \<in> set us" for x
    using chain_mem [OF w(3) that] w(1,2) by auto
  then show ?case using Cons w(3) by (metis set_ConsD)
qed simp

lemma chain_cong:
  "chain_ok s us ls \<Longrightarrow> \<forall>u \<in> set us. l_upval s' u = l_upval s u \<Longrightarrow> chain_ok s' us ls"
  by (induction us arbitrary: ls) (auto simp: chain_Cons)

subsection \<open>Finding an upvalue\<close>

lemma findupval_loop_spec:
  assumes "chain_ok s us ls"
  shows "\<exists>r. findupval_loop s level us n = Some r \<and>
    (case r of
       Inl u \<Rightarrow> u \<in> set us \<and> l_upval s u = Some (UOpen level)
     | Inr m \<Rightarrow> n \<le> m \<and> m - n \<le> length us \<and>
         chain_ok s (take (m - n) us) (take (m - n) ls) \<and> chain_ok s (drop (m - n) us) (drop (m - n) ls) \<and>
         (\<forall>i \<in> set (take (m - n) ls). level < i) \<and> (\<forall>i \<in> set (drop (m - n) ls). i < level))"
  using assms
proof (induction us arbitrary: ls n)
  case (Cons u us)
  then obtain i js where u: "ls = i # js" "l_upval s u = Some (UOpen i)" "\<forall>j \<in> set js. j < i" "chain_ok s us js"
    by (auto simp: chain_Cons)
  have l: "uv_level s u = Some i" using u(2) by (simp add: uv_level_iff)
  consider "i = level" | "i < level" | "level < i" by linarith
  then show ?case
  proof cases
    case 2
    then show ?thesis using l u Cons.prems by (auto simp: chain_ok_def)
  next
    case 3
    obtain r where r: "findupval_loop s level us (Suc n) = Some r"
      "case r of
         Inl u \<Rightarrow> u \<in> set us \<and> l_upval s u = Some (UOpen level)
       | Inr m \<Rightarrow> Suc n \<le> m \<and> m - Suc n \<le> length us \<and>
           chain_ok s (take (m - Suc n) us) (take (m - Suc n) js) \<and> chain_ok s (drop (m - Suc n) us) (drop (m - Suc n) js) \<and>
           (\<forall>i \<in> set (take (m - Suc n) js). level < i) \<and> (\<forall>i \<in> set (drop (m - Suc n) js). i < level)"
      using Cons.IH [OF u(4), of "Suc n"] by blast
    show ?thesis
    proof (cases r)
      case (Inr m)
      then obtain k where m: "m = Suc n + k" using r(2) by (auto simp: le_iff_add)
      then show ?thesis using r Inr l 3 u by (auto simp: chain_Cons dest: in_set_takeD)
    qed (use r l 3 in auto)
  qed (use l u in auto)
qed (simp add: chain_ok_def)

lemma chain_insert:
  assumes "chain_ok s us js" "chain_ok s vs ks" "l_upval s u = Some (UOpen level)"
    "\<forall>i \<in> set js. level < i" "\<forall>i \<in> set ks. i < level"
  shows "chain_ok s (us @ u # vs) (js @ level # ks)"
  using assms by (auto simp: chain_ok_def sorted_wrt_append uv_level_iff dest: order.strict_trans)

definition new_fresh :: "vm_env \<Rightarrow> bool" where
  "new_fresh E \<longleftrightarrow> (\<forall>s a. ve_new E s = Some a \<longrightarrow> l_upval s a = None \<and> l_closure s a = None \<and> l_table s a = None)"

text \<open>
  C16: a stack slot has at most one upvalue: \<^verbatim>\<open>luaF_findupval\<close> returns the one upvalue that is open
  at the level asked for, making it if there was none; so two closures that capture the same
  variable get the same upvalue.  No other upvalue changes, and the chain stays in order.\<close>

theorem upvalues_shared:
  assumes ok: "upvals_ok s" and E: "new_fresh E" and l: "0 \<le> level" "level < l_stacksize s"
    and r: "luaF_findupval E level s = Some (Inr (u, s'))"
  shows "upvals_ok s' \<and> (\<forall>a. l_upval s' a = Some (UOpen level) \<longleftrightarrow> a = u) \<and>
    (\<forall>a. a \<noteq> u \<longrightarrow> l_upval s' a = l_upval s a) \<and> l_upval s u \<in> {None, Some (UOpen level)} \<and> l_stack s' = l_stack s"
proof -
  obtain ls where c: "chain_ok s (l_openupval s) ls" "\<forall>i \<in> set ls. 0 \<le> i \<and> i < l_stacksize s"
    and all: "\<And>a i. l_upval s a = Some (UOpen i) \<Longrightarrow> a \<in> set (l_openupval s)"
    using ok by (auto simp: upvals_ok_def)
  obtain r where f0: "findupval_loop s level (l_openupval s) 0 = Some r" and
    f1: "case r of
       Inl u \<Rightarrow> u \<in> set (l_openupval s) \<and> l_upval s u = Some (UOpen level)
     | Inr m \<Rightarrow> 0 \<le> m \<and> m - 0 \<le> length (l_openupval s) \<and>
         chain_ok s (take (m - 0) (l_openupval s)) (take (m - 0) ls) \<and>
         chain_ok s (drop (m - 0) (l_openupval s)) (drop (m - 0) ls) \<and>
         (\<forall>i \<in> set (take (m - 0) ls). level < i) \<and> (\<forall>i \<in> set (drop (m - 0) ls). i < level)"
    using findupval_loop_spec [OF c(1), of level 0] by blast
  note f = f0 f1 [unfolded minus_nat.diff_0]
  show ?thesis
  proof (cases r)
    case (Inl p)
    then have "s' = s" "u = p" "u \<in> set (l_openupval s)" "l_upval s u = Some (UOpen level)"
      using f r by (simp_all add: luaF_findupval_def gen_defs someM_def)
    then show ?thesis using ok all chain_inj [OF c(1)] by auto
  next
    case (Inr m)
    let ?s = "s\<lparr>l_upval := (l_upval s)(u \<mapsto> UOpen level), l_openupval := take m (l_openupval s) @ u # drop m (l_openupval s)\<rparr>"
    have s': "s' = ?s" and new: "ve_new E s = Some u"
      using f(1) r Inr
      by (auto simp: luaF_findupval_def allocM_def gen_defs someM_def luaD_throw_def stopM_def split: option.splits)
    have un: "l_upval s u = None" using E new by (simp add: new_fresh_def)
    then have out: "u \<notin> set (l_openupval s)" using chain_mem [OF c(1), of u] by force
    have "chain_ok ?s (take m (l_openupval s)) (take m ls)" "chain_ok ?s (drop m (l_openupval s)) (drop m ls)"
      by (rule chain_cong [where s = s]; use f(2) Inr out in \<open>auto dest: in_set_takeD in_set_dropD\<close>)+
    from chain_insert [OF this, of u level]
    have ch: "chain_ok ?s (l_openupval ?s) (take m ls @ level # drop m ls)" using f(2) Inr by simp
    have "upvals_ok ?s"
      unfolding upvals_ok_def
    proof (intro conjI exI ballI allI impI)
      show "chain_ok ?s (l_openupval ?s) (take m ls @ level # drop m ls)" by (rule ch)
      fix i assume "i \<in> set (take m ls @ level # drop m ls)"
      then show "0 \<le> i" "i < l_stacksize ?s"
        using c(2) l by (auto simp: l_stacksize_def dest: in_set_takeD in_set_dropD)
    next
      fix a i assume "l_upval ?s a = Some (UOpen i)"
      then show "a \<in> set (l_openupval ?s)" using all [of a i]
        by (auto split: if_splits) (metis append_take_drop_id set_append UnE)
    qed
    moreover have "l_upval s a \<noteq> Some (UOpen level)" for a
    proof
      assume a: "l_upval s a = Some (UOpen level)"
      then obtain i where "i \<in> set ls" "l_upval s a = Some (UOpen i)" using chain_mem [OF c(1) all] by blast
      then have "level \<in> set (take m ls) \<union> set (drop m ls)" using a by (metis append_take_drop_id set_append option.inject upval.inject(1))
      then show False using f(2) Inr by auto
    qed
    ultimately show ?thesis using s' un by auto
  qed
qed

subsection \<open>Closing\<close>

lemma close_loop:
  assumes "chain_ok s us ls" "l_openupval s = us" "\<forall>i \<in> set ls. 0 \<le> i \<and> i < l_stacksize s"
  shows "\<exists>s' js. luaF_close_loop level us s = Some (Inr ((), s')) \<and> l_stack s' = l_stack s \<and>
    chain_ok s' (l_openupval s') js \<and> set js \<subseteq> set ls \<and> (\<forall>j \<in> set js. j < level) \<and>
    (\<forall>a. upval_value s' a = upval_value s a) \<and> set (l_openupval s') \<subseteq> set us \<and>
    (\<forall>a. a \<notin> set us \<or> a \<in> set (l_openupval s') \<longrightarrow> l_upval s' a = l_upval s a) \<and>
    (\<forall>a \<in> set us. a \<in> set (l_openupval s') \<or> (\<exists>v. l_upval s' a = Some (UClosed v))) \<and>
    (\<forall>a i. l_upval s a = Some (UOpen i) \<longrightarrow> i < level \<longrightarrow> l_upval s' a = Some (UOpen i))"
  using assms
proof (induction us arbitrary: s ls)
  case Nil
  then show ?case by (auto simp: gen_defs)
next
  case (Cons u us)
  then obtain i js where u: "ls = i # js" "l_upval s u = Some (UOpen i)" "\<forall>j \<in> set js. j < i" "chain_ok s us js"
    by (auto simp: chain_Cons)
  have lv: "uv_level s u = Some i" using u(2) by (simp add: uv_level_iff)
  show ?case
  proof (cases "level \<le> i")
    case False
    have "luaF_close_loop level (u # us) s = Some (Inr ((), s))"
      using False lv by (simp add: gen_defs someM_def)
    then show ?thesis using False Cons.prems u by (intro exI [of _ s] exI [of _ ls]) auto
  next
    case True
    have b: "0 \<le> i" "i < l_stacksize s" using Cons.prems(3) u(1) by auto
    then obtain v where v: "at (l_stack s) i = Some v"
      using at_None_iff [of "l_stack s" i] by (force simp: l_stacksize_def)
    let ?s = "s\<lparr>l_openupval := us, l_upval := (l_upval s)(u \<mapsto> UClosed v)\<rparr>"
    have step: "luaF_close_loop level (u # us) s = luaF_close_loop level us ?s"
      using True lv v by (simp add: gen_defs someM_def stk_def)
    have out: "u \<notin> set us" using chain_mem [OF u(4)] u(2,3) by force
    have "chain_ok ?s us js" using u(4) out by (auto intro: chain_cong)
    from Cons.IH [OF this] Cons.prems(3) u(1) obtain s' ks where
      r: "luaF_close_loop level us ?s = Some (Inr ((), s'))" "l_stack s' = l_stack s"
        "chain_ok s' (l_openupval s') ks" "set ks \<subseteq> set js" "\<forall>j \<in> set ks. j < level"
        "\<forall>a. upval_value s' a = upval_value ?s a" "set (l_openupval s') \<subseteq> set us"
        "\<forall>a. a \<notin> set us \<or> a \<in> set (l_openupval s') \<longrightarrow> l_upval s' a = l_upval ?s a"
        "\<forall>a \<in> set us. a \<in> set (l_openupval s') \<or> (\<exists>v. l_upval s' a = Some (UClosed v))"
        "\<forall>a i. l_upval ?s a = Some (UOpen i) \<longrightarrow> i < level \<longrightarrow> l_upval s' a = Some (UOpen i)"
      by (auto simp: l_stacksize_def)
    have "upval_value ?s a = upval_value s a" for a
      using u(2) v by (auto simp: upval_value_def split: option.split upval.split)
    moreover have "l_upval s' u = Some (UClosed v)" using r(8) out by auto
    moreover have "l_upval s' a = Some (UOpen j)" if "l_upval s a = Some (UOpen j)" "j < level" for a j
      using r(10) that u(2) True by (cases "a = u") auto
    ultimately show ?thesis using r(1-9) step out u(1)
      by (intro exI [of _ s'] exI [of _ ks]) (auto split: if_splits)
  qed
qed

text \<open>
  C12: closing the upvalues at and above a level always succeeds and cannot be seen through them:
  every upvalue keeps its value, those below the level stay open where they were, no upvalue
  stays open above it, and the stack is not touched.\<close>

theorem closing_invisible:
  assumes ok: "upvals_ok s"
  shows "\<exists>s'. luaF_close level s = Some (Inr ((), s')) \<and> upvals_ok s' \<and> l_stack s' = l_stack s \<and>
    (\<forall>a. upval_value s' a = upval_value s a) \<and>
    (\<forall>a i. l_upval s' a = Some (UOpen i) \<longleftrightarrow> l_upval s a = Some (UOpen i) \<and> i < level)"
proof -
  obtain ls where c: "chain_ok s (l_openupval s) ls" "\<forall>i \<in> set ls. 0 \<le> i \<and> i < l_stacksize s"
    and all: "\<And>a i. l_upval s a = Some (UOpen i) \<Longrightarrow> a \<in> set (l_openupval s)"
    using ok by (auto simp: upvals_ok_def)
  obtain s' js where r: "luaF_close_loop level (l_openupval s) s = Some (Inr ((), s'))" "l_stack s' = l_stack s"
      "chain_ok s' (l_openupval s') js" "set js \<subseteq> set ls" "\<forall>j \<in> set js. j < level"
      "\<forall>a. upval_value s' a = upval_value s a" "set (l_openupval s') \<subseteq> set (l_openupval s)"
      "\<forall>a. a \<notin> set (l_openupval s) \<or> a \<in> set (l_openupval s') \<longrightarrow> l_upval s' a = l_upval s a"
      "\<forall>a \<in> set (l_openupval s). a \<in> set (l_openupval s') \<or> (\<exists>v. l_upval s' a = Some (UClosed v))"
      "\<forall>a i. l_upval s a = Some (UOpen i) \<longrightarrow> i < level \<longrightarrow> l_upval s' a = Some (UOpen i)"
    using close_loop [OF c(1) refl c(2)] by blast
  have open': "a \<in> set (l_openupval s')" if "l_upval s' a = Some (UOpen i)" for a i
    using that r(8,9) all by (cases "a \<in> set (l_openupval s)") auto
  have "upvals_ok s'" unfolding upvals_ok_def
    using r(2,3,4) c(2) open' by (auto simp: l_stacksize_def intro!: exI [of _ js])
  moreover have "l_upval s' a = Some (UOpen i) \<longleftrightarrow> l_upval s a = Some (UOpen i) \<and> i < level" for a i
  proof
    assume o: "l_upval s' a = Some (UOpen i)"
    then have "i < level" using chain_mem [OF r(3) open'] r(5) by fastforce
    then show "l_upval s a = Some (UOpen i) \<and> i < level" using o open' [OF o] r(8) by auto
  next
    assume o: "l_upval s a = Some (UOpen i) \<and> i < level"
    then show "l_upval s' a = Some (UOpen i)" using r(10) by blast
  qed
  ultimately show ?thesis using r(1,2,6) by (auto simp: luaF_close_def gen_defs)
qed

subsection \<open>Examples\<close>

definition two_open :: lua_State where
  "two_open = demo_state\<lparr>l_upval := [10 \<mapsto> UOpen 5, 11 \<mapsto> UOpen 3], l_openupval := [10, 11]\<rparr>"

lemma two_open_ok: "upvals_ok two_open" "l_stacksize two_open = 45"
  by (auto simp: upvals_ok_def chain_ok_def two_open_def demo_state_def uv_level_def l_stacksize_def
      intro!: exI [of _ "[5, 3]"] split: if_splits)

definition upval_env :: vm_env where
  "upval_env = demo_env\<lparr>ve_new := (\<lambda>s.
     if l_upval s 100 = None \<and> l_closure s 100 = None \<and> l_table s 100 = None then Some 100 else None)\<rparr>"

theorem upvalues_shared_witness:
  "\<exists>s. luaF_findupval upval_env 4 two_open = Some (Inr (100, s)) \<and>
     l_openupval s = [10, 100, 11] \<and> (\<forall>a. l_upval s a = Some (UOpen 4) \<longleftrightarrow> a = 100)"
proof -
  have f: "new_fresh upval_env" by (simp add: new_fresh_def upval_env_def)
  have l: "(0 :: int) \<le> 4" "4 < l_stacksize two_open" using two_open_ok(2) by simp_all
  obtain s where r: "luaF_findupval upval_env 4 two_open = Some (Inr (100, s))" "l_openupval s = [10, 100, 11]"
    by (simp add: luaF_findupval_def upval_env_def two_open_def demo_state_def uv_level_def gen_defs someM_def allocM_def)
  from upvalues_shared [OF two_open_ok(1) f l r(1)] r show ?thesis by blast
qed

theorem closing_invisible_witness:
  "\<exists>s. luaF_close 4 two_open = Some (Inr ((), s)) \<and> upval_value s 10 = Some TNil \<and> upval_value s 11 = Some TNil \<and>
     l_upval s 11 = Some (UOpen 3)"
proof -
  have v: "upval_value two_open 10 = Some TNil" "upval_value two_open 11 = Some TNil" "l_upval two_open 11 = Some (UOpen 3)"
    by (simp_all add: upval_value_def two_open_def demo_state_def at_def)
  from closing_invisible [OF two_open_ok(1), of 4] v show ?thesis by auto
qed

end
