(* ===== verification/Vm_Frames.thy ===== *)
theory Vm_Frames
  imports Vm_Demo Checker
begin

text \<open>
  Calls: what a function finds on the stack when it is entered, and what its caller finds when it
  returns.
\<close>

subsection \<open>Moving cells\<close>

lemma stk_run: "i < length (l_stack s) \<Longrightarrow> stk (int i) s = Some (Inr (l_stack s ! i, s))"
  by (simp add: stk_def gen_defs someM_def)

lemma setstk_run:
  "i < length (l_stack s) \<Longrightarrow> setstk (int i) v s = Some (Inr ((), s\<lparr>l_stack := (l_stack s)[i := v]\<rparr>))"
  by (simp add: setstk_def gen_defs l_stacksize_def)

lemma copystk_run:
  "i < length (l_stack s) \<Longrightarrow> j < length (l_stack s) \<Longrightarrow>
    copystk (int i) (int j) s = Some (Inr ((), s\<lparr>l_stack := (l_stack s)[i := l_stack s ! j]\<rparr>))"
  by (simp add: copystk_def bindM_def stk_run setstk_run)

text \<open>Writing \<open>ys\<close> over the cells from \<open>r\<close> on.\<close>

definition over :: "nat \<Rightarrow> 'a list \<Rightarrow> 'a list \<Rightarrow> 'a list" where
  "over r ys xs = take r xs @ ys @ drop (r + length ys) xs"

lemma length_over [simp]: "r + length ys \<le> length xs \<Longrightarrow> length (over r ys xs) = length xs"
  by (simp add: over_def)

lemma over_Nil [simp]: "over r [] xs = xs"
  by (simp add: over_def)

lemma over_Cons: "r + Suc (length ys) \<le> length xs \<Longrightarrow> over r (y # ys) xs = over (Suc r) ys (xs[r := y])"
  by (simp add: over_def take_Suc_conv_app_nth)

lemma over_append: "r + length ys + length zs \<le> length xs \<Longrightarrow> over (r + length ys) zs (over r ys xs) = over r (ys @ zs) xs"
  by (simp add: over_def ac_simps)

lemma nth_over:
  assumes "r + length ys \<le> length xs" "i < length xs"
  shows "over r ys xs ! i = (if r \<le> i \<and> i < r + length ys then ys ! (i - r) else xs ! i)"
  using assms by (auto simp: over_def nth_append min_def)

lemma take_drop_over: "r + length ys \<le> length xs \<Longrightarrow> take (length ys) (drop r (over r ys xs)) = ys"
  by (simp add: over_def)

lemma fill_nil_run:
  assumes "r + n \<le> length (l_stack s)"
  shows "fill_nil n (int r) s = Some (Inr ((), s\<lparr>l_stack := over r (replicate n TNil) (l_stack s)\<rparr>))"
  using assms
proof (induction n arbitrary: r s)
  case (Suc n)
  from Suc.IH [of "Suc r" "s\<lparr>l_stack := (l_stack s)[r := TNil]\<rparr>"] Suc.prems show ?case
    by (simp add: thenM_def bindM_def setstk_run over_Cons add.commute)
qed (simp add: retM_def)

lemma slice_update:
  "r \<le> f \<Longrightarrow> take k (drop (Suc f) (xs[r := y])) = take k (drop (Suc f) xs)"
  by simp

lemma move_results_run:
  assumes "r \<le> f" "f + n \<le> length (l_stack s)" "k = (if i < 0 then n else min n (nat i))"
  shows "move_results n i (int r) (int f) s =
    Some (Inr ((i - int k, int (r + k)), s\<lparr>l_stack := over r (take k (drop f (l_stack s))) (l_stack s)\<rparr>))"
  using assms
proof (induction n arbitrary: i r f s k)
  case (Suc n)
  show ?case
  proof (cases "i = 0")
    case False
    let ?s = "s\<lparr>l_stack := (l_stack s)[r := l_stack s ! f]\<rparr>"
    obtain m where m: "k = Suc m" "m = (if i - 1 < 0 then n else min n (nat (i - 1)))"
    proof (cases "i < 0")
      case False
      then have "nat i = Suc (nat (i - 1))" using \<open>i \<noteq> 0\<close> by simp
      then show ?thesis using that Suc.prems(3) \<open>i \<noteq> 0\<close> False by simp
    qed (use that Suc.prems(3) in simp)
    from Suc.IH [OF _ _ m(2), of "Suc r" "Suc f" ?s] Suc.prems(1,2)
    have "move_results n (i - 1) (int r + 1) (int f + 1) ?s =
        Some (Inr ((i - 1 - int m, int (Suc r + m)), ?s\<lparr>l_stack := over (Suc r) (take m (drop (Suc f) (l_stack s))) (l_stack ?s)\<rparr>))"
      by (simp add: add.commute)
    moreover have "take k (drop f (l_stack s)) = l_stack s ! f # take m (drop (Suc f) (l_stack s))"
      using Suc.prems(2) m(1) by (simp add: Cons_nth_drop_Suc [of f "l_stack s", symmetric])
    moreover have "r + Suc (length (take m (drop (Suc f) (l_stack s)))) \<le> length (l_stack s)"
      using Suc.prems(1,2) by simp
    ultimately show ?thesis using False Suc.prems(1,2) m(1)
      by (simp add: thenM_def bindM_def copystk_run over_Cons)
  qed (use Suc.prems in \<open>simp add: retM_def\<close>)
qed (simp add: retM_def)

subsection \<open>Returning\<close>

text \<open>The results as the caller wants them: all, or a fixed number, cut off or padded with nil.\<close>

definition adjusted :: "int \<Rightarrow> TValue list \<Rightarrow> TValue list" where
  "adjusted wanted vs = (if wanted = LUA_MULTRET then vs else take (nat wanted) (vs @ replicate (nat wanted) TNil))"

text \<open>
  C13: \<^verbatim>\<open>luaD_poscall\<close> puts the results where the function was, as many as the caller wants, cut off
  or padded with nil, leaves every other cell alone, sets the top after them and gives the
  caller back its base and its place in its code.\<close>

theorem poscall_results:
  assumes ci: "l_ci s = ci # prev # rest" and hook: "l_hookmask s AND LUA_MASKRET = 0"
    and pos: "ci_func ci = int func" "func \<le> first" "first \<le> tp" "l_top s = int tp" "tp \<le> length (l_stack s)"
    and wanted: "- 1 \<le> ci_nresults ci" "int func + ci_nresults ci \<le> l_stacksize s"
  shows "luaD_poscall E call (int first) s =
    (let vs = adjusted (ci_nresults ci) (take (tp - first) (drop first (l_stack s))) in
     Some (Inr (ci_nresults ci \<noteq> LUA_MULTRET,
       s\<lparr>l_ci := prev # rest, l_base := ci_base prev, l_savedpc := ci_savedpc prev,
         l_stack := over func vs (l_stack s), l_top := int (func + length vs)\<rparr>)))"
proof -
  let ?w = "ci_nresults ci" and ?n = "tp - first" and ?xs = "l_stack s"
  define k where "k = (if ?w < 0 then ?n else min ?n (nat ?w))"
  define m where "m = nat (?w - int k)"
  define got where "got = take k (drop first ?xs)"
  have lg: "length got = k" using pos by (simp add: got_def k_def)
  have vs: "adjusted ?w (take ?n (drop first ?xs)) = got @ replicate m TNil"
  proof -
    define vs0 where "vs0 = take ?n (drop first ?xs)"
    have l0: "length vs0 = ?n" using pos by (simp add: vs0_def)
    have g0: "got = take k vs0" by (simp add: got_def vs0_def k_def min_def)
    show ?thesis using wanted(1) l0 unfolding vs0_def [symmetric] g0
      by (auto simp: adjusted_def LUA_MULTRET_def k_def m_def min_def)
  qed
  have room: "func + k + m \<le> length ?xs"
    using wanted pos by (cases "?w < 0") (auto simp: k_def m_def l_stacksize_def)
  have top: "nat (int tp - int first) = ?n" by (simp add: nat_minus_as_int)
  have last: "int (func + k) + max (?w - int k) 0 = int (func + length (got @ replicate m TNil))"
    using lg by (simp add: m_def)
  let ?s = "s\<lparr>l_ci := prev # rest, l_base := ci_base prev, l_savedpc := ci_savedpc prev\<rparr>"
  have mv: "move_results ?n ?w (int func) (int first) ?s =
      Some (Inr ((?w - int k, int (func + k)), ?s\<lparr>l_stack := over func got ?xs\<rparr>))"
    using move_results_run [of func first ?n ?s k ?w] pos by (simp add: k_def got_def)
  have fl: "fill_nil m (int (func + k)) (?s\<lparr>l_stack := over func got ?xs\<rparr>) =
      Some (Inr ((), ?s\<lparr>l_stack := over func (got @ replicate m TNil) ?xs\<rparr>))"
    using fill_nil_run [of "func + k" m "?s\<lparr>l_stack := over func got ?xs\<rparr>"] room lg
      over_append [of func got "replicate m TNil" ?xs] by simp
  show ?thesis
    unfolding luaD_poscall_def Let_def vs
    using hook ci pos(1,4) mv fl last
    by (auto simp: gen_defs hook_on_def set_top_def m_def [symmetric] LUA_MULTRET_def top)
qed

subsection \<open>Variable arguments\<close>

lemma over_update_less: "i < r \<Longrightarrow> r \<le> length xs \<Longrightarrow> over r ys (xs[i := v]) = (over r ys xs)[i := v]"
  by (simp add: over_def list_update_append take_update_swap drop_update_cancel)

lemma move_fixed_run:
  assumes "l_top s = int t" "f + n \<le> t" "t + n \<le> length (l_stack s)"
  shows "move_fixed n (int f) s = Some (Inr ((), s\<lparr>l_top := int (t + n),
    l_stack := over f (replicate n TNil) (over t (take n (drop f (l_stack s))) (l_stack s))\<rparr>))"
  using assms
proof (induction n arbitrary: s t f)
  case (Suc n)
  let ?xs = "l_stack s"
  let ?s = "s\<lparr>l_top := int (Suc t), l_stack := ?xs[t := ?xs ! f, f := TNil]\<rparr>"
  have d: "drop f ?xs = ?xs ! f # drop (Suc f) ?xs" using Suc.prems by (simp add: Cons_nth_drop_Suc)
  have u: "take n (drop (Suc f) (?xs[t := ?xs ! f, f := TNil])) = take n (drop (Suc f) ?xs)"
    using Suc.prems by (intro nth_equalityI) auto
  have l: "length (take n (drop (Suc f) ?xs)) = n" using Suc.prems by simp
  have "move_fixed (Suc n) (int f) s = move_fixed n (int (Suc f)) ?s"
    using Suc.prems by (simp add: gen_defs copystk_run setstk_run set_top_def add.commute)
  also have "\<dots> = Some (Inr ((), ?s\<lparr>l_top := int (Suc t + n),
      l_stack := over (Suc f) (replicate n TNil) (over (Suc t) (take n (drop (Suc f) ?xs)) (?xs[t := ?xs ! f, f := TNil]))\<rparr>))"
    using Suc.IH [of ?s "Suc t" "Suc f"] Suc.prems u by simp
  also have "over (Suc t) (take n (drop (Suc f) ?xs)) (?xs[t := ?xs ! f, f := TNil]) =
      (over t (take (Suc n) (drop f ?xs)) ?xs)[f := TNil]"
    using Suc.prems d l by (simp add: over_update_less over_Cons)
  finally show ?case using Suc.prems d l by (simp add: over_Cons)
qed (simp add: retM_def)

lemma vararg_loop_run:
  assumes "j + k \<le> n" "n \<le> cb" "cb \<le> ra" "ra + j + k \<le> length (l_stack s)"
  shows "vararg_loop (int ra) (int cb) (int n) k (int j) s = Some (Inr ((), s\<lparr>l_stack :=
    over (ra + j) (take k (drop (cb - n + j) (l_stack s))) (l_stack s)\<rparr>))"
  using assms
proof (induction k arbitrary: j s)
  case (Suc k)
  let ?xs = "l_stack s"
  let ?s = "s\<lparr>l_stack := ?xs[ra + j := ?xs ! (cb - n + j)]\<rparr>"
  have i: "int cb - int n + int j = int (cb - n + j)" "int ra + int j = int (ra + j)" using Suc.prems by auto
  have step: "vararg_loop (int ra) (int cb) (int n) (Suc k) (int j) s = vararg_loop (int ra) (int cb) (int n) k (int (Suc j)) ?s"
  proof -
    have "int j < int n" "ra + j < length ?xs" "cb - n + j < length ?xs" using Suc.prems by auto
    then show ?thesis unfolding vararg_loop.simps i
      by (simp add: gen_defs copystk_run add.commute del: of_nat_add)
  qed
  have d: "drop (cb - n + j) ?xs = ?xs ! (cb - n + j) # drop (Suc (cb - n + j)) ?xs"
    using Suc.prems by (simp add: Cons_nth_drop_Suc)
  have u: "take k (drop (Suc (cb - n + j)) (?xs[ra + j := v])) = take k (drop (Suc (cb - n + j)) ?xs)" for v
    using Suc.prems by (intro nth_equalityI) auto
  have "length (take k (drop (Suc (cb - n + j)) ?xs)) = k" using Suc.prems by simp
  then show ?case using Suc.IH [of "Suc j" ?s] Suc.prems step d u by (simp add: over_Cons)
qed (simp add: retM_def)

lemma checkstack_room:
  "n < l_stack_last s - l_top s \<Longrightarrow> luaD_checkstack E n s = Some (Inr ((), s))"
  by (simp add: luaD_checkstack_def gen_defs)

lemma push_nils_run:
  assumes "l_top s = int t" "t + n \<le> length (l_stack s)"
  shows "push_nils n s = Some (Inr ((), s\<lparr>l_top := int (t + n), l_stack := over t (replicate n TNil) (l_stack s)\<rparr>))"
  using assms fill_nil_run [of t n s] by (simp add: push_nils_def gen_defs set_top_def)

text \<open>The cells after a vararg function with \<open>k\<close> fixed parameters has been entered: \<open>f\<close> is the place of the
  function, \<open>n\<close> the number of arguments.\<close>

definition entered :: "nat \<Rightarrow> nat \<Rightarrow> nat \<Rightarrow> nat \<Rightarrow> TValue list \<Rightarrow> TValue list" where
  "entered f n k mx xs =
     (let base = f + 1 + max n k;
          xs1 = over (f + 1 + n) (replicate (k - n) TNil) xs;
          xs2 = over (f + 1) (replicate k TNil) (over base (take k (drop (f + 1) xs1)) xs1)
      in over (base + k) (replicate (mx - k) TNil) xs2)"

lemma entered_cells:
  assumes "f + 1 + m + mx \<le> length xs" "k \<le> mx" "m = max n k"
  shows "length (entered f n k mx xs) = length xs"
    "j < k \<Longrightarrow> entered f n k mx xs ! (f + 1 + m + j) = (if j < n then xs ! (f + 1 + j) else TNil)"
    "f + 1 + k \<le> i \<Longrightarrow> i < f + 1 + n \<Longrightarrow> entered f n k mx xs ! i = xs ! i"
proof -
  let ?b = "f + 1 + m"
  define xs1 where "xs1 = over (f + 1 + n) (replicate (k - n) TNil) xs"
  define ys where "ys = take k (drop (f + 1) xs1)"
  define xs2 where "xs2 = over (f + 1) (replicate k TNil) (over ?b ys xs1)"
  have m: "n \<le> m" "k \<le> m" "n + (k - n) = m" using assms(3) by auto
  have e: "entered f n k mx xs = over (?b + k) (replicate (mx - k) TNil) xs2"
    by (simp add: entered_def Let_def xs1_def ys_def xs2_def assms(3))
  have l1: "length xs1 = length xs" using assms(1) m by (simp add: xs1_def)
  have ly: "length ys = k" using assms m l1 by (simp add: ys_def)
  have l2: "length xs2 = length xs" using assms(1,2) m l1 ly by (simp add: xs2_def)
  show "length (entered f n k mx xs) = length xs" using assms(1,2) l2 by (simp add: e)
  have c1: "xs1 ! i = (if f + 1 + n \<le> i \<and> i < ?b then TNil else xs ! i)" if "i < length xs" for i
    using that assms(1) m by (auto simp: xs1_def nth_over)
  have y: "ys ! j = (if j < n then xs ! (f + 1 + j) else TNil)" if "j < k" for j
    using that c1 [of "f + 1 + j"] l1 assms(1) m by (auto simp: ys_def)
  have c2: "xs2 ! i = (if f + 1 \<le> i \<and> i < f + 1 + k then TNil else if ?b \<le> i \<and> i < ?b + k then ys ! (i - ?b) else xs1 ! i)"
    if "i < length xs" for i
    using that assms(1,2) m l1 ly by (auto simp: xs2_def nth_over)
  have c3: "entered f n k mx xs ! i = (if ?b + k \<le> i \<and> i < ?b + mx then TNil else xs2 ! i)" if "i < length xs" for i
    using that assms(1,2) l2 by (auto simp: e nth_over)
  show "entered f n k mx xs ! (?b + j) = (if j < n then xs ! (f + 1 + j) else TNil)" if "j < k"
    using that c3 [of "?b + j"] c2 [of "?b + j"] y [OF that] assms(1,2) m by simp
  show "entered f n k mx xs ! i = xs ! i" if "f + 1 + k \<le> i" "i < f + 1 + n"
    using that c3 [of i] c2 [of i] c1 [of i] assms(1,2) m by simp
qed

lemma vararg_entry:
  assumes s: "l_top s = int (f + 1 + n)" "l_hookmask s = 0" "int (length (l_ci s)) \<noteq> l_size_ci s"
    and p: "p_is_vararg p \<noteq> 0" "p_is_vararg p AND VARARG_NEEDSARG = 0" "k = unat (p_numparams p)"
      "mx = unat (p_maxstacksize p)" "k \<le> mx" "m = max n k"
    and room: "f + 1 + m + k + mx + 6 < length (l_stack s)"
  shows "precall_lua E call p (int f) nres s = Some (Inr (PCRLUA, s\<lparr>
    l_stack := entered f n k mx (l_stack s), l_base := int (f + 1 + m), l_savedpc := 0,
    l_top := int (f + 1 + m + mx),
    l_ci := \<lparr>ci_base = int (f + 1 + m), ci_func = int f, ci_top = int (f + 1 + m + mx), ci_savedpc = 0,
      ci_nresults = nres, ci_tailcalls = 0\<rparr> # l_ci s\<rparr>))"
proof -
  let ?xs = "l_stack s"
  define b where "b = f + 1 + m"
  let ?xs1 = "over (f + 1 + n) (replicate (k - n) TNil) ?xs"
  let ?s1 = "s\<lparr>l_top := int b, l_stack := ?xs1\<rparr>"
  let ?xs2 = "over (f + 1) (replicate k TNil) (over b (take k (drop (f + 1) ?xs1)) ?xs1)"
  let ?s2 = "s\<lparr>l_top := int (b + k), l_stack := ?xs2\<rparr>"
  have m: "n \<le> m" "k \<le> m" "f + 1 + n + (k - n) = b" using p(6) by (auto simp: b_def)
  have room': "b + k + mx + 6 < length ?xs" "f + 1 + k \<le> b" "f + 1 + n \<le> b"
    using room m by (simp_all add: b_def)
  have u: "uint (p_numparams p) = int k" "uint (p_maxstacksize p) = int mx" by (simp_all add: p)
  have c: "luaD_checkstack E (int mx) s = Some (Inr ((), s))"
    using room' s(1) by (intro checkstack_room) (simp add: l_stack_last_def l_stacksize_def EXTRA_STACK_def)
  have nils: "push_nils (k - n) s = Some (Inr ((), ?s1))"
    using push_nils_run [OF s(1), of "k - n"] room' unfolding m(3) by simp
  have lx: "length ?xs1 = length ?xs" using room' m by simp
  have mv: "move_fixed k (int (f + 1)) ?s1 = Some (Inr ((), ?s2))"
    using move_fixed_run [of ?s1 b "f + 1" k] room' lx by simp
  have d: "int b - int m = int (f + 1)" "max (int n) (int k) = int m" "nat (int k - int n) = k - n"
    using p(6) by (simp_all add: b_def nat_minus_as_int)
  have adj: "adjust_varargs E call p (int n) s = Some (Inr (int b, ?s2))"
    using nils mv p(2) unfolding adjust_varargs_def Let_def u d
    by (simp add: gen_defs d del: of_nat_add of_nat_Suc)
  have ex: "over (b + k) (replicate (mx - k) TNil) ?xs2 = entered f n k mx ?xs"
    by (simp add: entered_def Let_def b_def p(6))
  have l2: "length ?xs2 = length ?xs" using room' lx by simp
  let ?ci = "\<lparr>ci_base = int b, ci_func = int f, ci_top = int (b + mx), ci_savedpc = 0, ci_nresults = nres, ci_tailcalls = 0\<rparr>"
  let ?s3 = "?s2\<lparr>l_ci := ?ci # l_ci s, l_base := int b, l_savedpc := 0\<rparr>"
  have fl: "fill_nil (mx - k) (int (b + k)) ?s3 = Some (Inr ((), ?s3\<lparr>l_stack := entered f n k mx ?xs\<rparr>))"
    using fill_nil_run [of "b + k" "mx - k" ?s3] room' l2 p(5) ex by simp
  have e: "nat (int (b + mx) - int (b + k)) = mx - k" "l_top s - int f - 1 = int n" "int b + int mx = int (b + mx)"
    using p(5) s(1) by simp_all
  show ?thesis
    using c adj fl s(2,3) p(1) unfolding precall_lua_def u b_def [symmetric]
    by (simp add: gen_defs inc_ci_def hook_on_def set_top_def e del: of_nat_add)
qed


subsection \<open>Examples\<close>

theorem poscall_results_witness:
  "map_option (map_sum fst (\<lambda>(b, s). (b, take 4 (l_stack s), l_top s)))
     (luaD_poscall demo_env (\<lambda>_ _ _. None) 3 (demo_state\<lparr>l_top := 4, l_ci :=
        \<lparr>ci_base = 2, ci_func = 1, ci_top = 21, ci_savedpc = 0, ci_nresults = 2, ci_tailcalls = 0\<rparr> # l_ci demo_state,
        l_stack := (l_stack demo_state)[3 := TBoolean 1]\<rparr>)) =
   Some (Inr (True, [TNil, TBoolean 1, TNil, TBoolean 1], 3))"
proof -
  let ?ci = "\<lparr>ci_base = 2, ci_func = 1, ci_top = 21, ci_savedpc = 0, ci_nresults = 2, ci_tailcalls = 0\<rparr>"
  let ?s = "demo_state\<lparr>l_top := 4, l_ci := ?ci # l_ci demo_state, l_stack := (l_stack demo_state)[3 := TBoolean 1]\<rparr>"
  obtain prev where prev: "l_ci ?s = [?ci, prev]" by (simp add: demo_state_def)
  have "luaD_poscall demo_env (\<lambda>_ _ _. None) (int 3) ?s =
    (let vs = adjusted (ci_nresults ?ci) (take (4 - 3) (drop 3 (l_stack ?s))) in
     Some (Inr (ci_nresults ?ci \<noteq> LUA_MULTRET,
       ?s\<lparr>l_ci := [prev], l_base := ci_base prev, l_savedpc := ci_savedpc prev,
         l_stack := over 1 vs (l_stack ?s), l_top := int (1 + length vs)\<rparr>)))"
    by (rule poscall_results [OF prev]) (simp_all add: demo_state_def l_stacksize_def)
  then show ?thesis
    by (simp add: demo_state_def adjusted_def LUA_MULTRET_def over_def Let_def numeral_eq_Suc)
qed

definition vararg_proto :: Proto where
  "vararg_proto = Proto [] [CREATE_ABC 37 1 0 0, CREATE_ABC 30 1 0 0, CREATE_ABC 30 0 1 0] [] [] [] [] (Some ''=?'') 0 0 0 1 2 3"


subsection \<open>Few arguments for many parameters\<close>

definition overflow_proto :: Proto where
  "overflow_proto = Proto [] [CREATE_ABC 30 0 1 0] [] [] [] [] (Some ''=?'') 0 0 0 20 2 36"

definition overflow_state :: lua_State where
  "overflow_state = demo_state\<lparr>l_closure := [7 \<mapsto> LClosure overflow_proto 1 []]\<rparr>"


end
