(* ===== verification/Vm_Concat.thy ===== *)
theory Vm_Concat
  imports Vm_Demo
begin

text \<open>
  Concatenation (\<^verbatim>\<open>luaV_concat\<close>): however it groups its operands, numbers are turned into strings
  and the result is the operands' texts one after the other.
\<close>

subsection \<open>Texts on the stack\<close>

definition value_text :: "vm_env \<Rightarrow> lua_State \<Rightarrow> TValue \<Rightarrow> string option" where
  "value_text E s v =
     (case v of TNumber n \<Rightarrow> Some (ve_number2str E n) | TGC LUA_TSTRING a \<Rightarrow> str_at (g_strt s) a | _ \<Rightarrow> None)"

definition cell_text :: "vm_env \<Rightarrow> lua_State \<Rightarrow> int \<Rightarrow> string option" where
  "cell_text E s i = Option.bind (at (l_stack s) i) (value_text E s)"

definition cell_string :: "lua_State \<Rightarrow> int \<Rightarrow> bool" where
  "cell_string s i \<longleftrightarrow> (\<exists>a. at (l_stack s) i = Some (TGC LUA_TSTRING a))"

text \<open>What a step of concatenation may change: cells and the table of strings, which only grows; texts at
  the positions in \<open>keep\<close> stay, and strings stay strings.\<close>

definition conv :: "vm_env \<Rightarrow> (int \<Rightarrow> bool) \<Rightarrow> lua_State \<Rightarrow> lua_State \<Rightarrow> bool" where
  "conv E keep s s' \<longleftrightarrow>
     (\<exists>tb xs. s' = s\<lparr>g_strt := tb, l_stack := xs\<rparr> \<and> length xs = length (l_stack s) \<and> strtab_ok tb) \<and>
     (\<forall>i. keep i \<longrightarrow> (\<forall>t. cell_text E s i = Some t \<longrightarrow> cell_text E s' i = Some t)) \<and>
     (\<forall>i. keep i \<longrightarrow> cell_string s i \<longrightarrow> cell_string s' i)"

lemma conv_refl: "strtab_ok (g_strt s) \<Longrightarrow> conv E keep s s"
  unfolding conv_def by (auto intro!: exI [of _ "g_strt s"] exI [of _ "l_stack s"])

lemma conv_trans:
  assumes a: "conv E keep s s'" and b: "conv E keep s' s''"
  shows "conv E keep s s''"
proof -
  obtain tb xs where "s'' = s\<lparr>g_strt := tb, l_stack := xs\<rparr>" "length xs = length (l_stack s)" "strtab_ok tb"
    using a b unfolding conv_def by force
  then show ?thesis using a b unfolding conv_def by blast
qed

lemma conv_weaken: "conv E keep s s' \<Longrightarrow> (\<And>i. keep' i \<Longrightarrow> keep i) \<Longrightarrow> conv E keep' s s'"
  unfolding conv_def by blast

lemma conv_ok: "conv E keep s s' \<Longrightarrow> strtab_ok (g_strt s')"
  unfolding conv_def by auto

lemma conv_text: "conv E keep s s' \<Longrightarrow> keep i \<Longrightarrow> cell_text E s i = Some t \<Longrightarrow> cell_text E s' i = Some t"
  unfolding conv_def by blast

lemma conv_string: "conv E keep s s' \<Longrightarrow> keep i \<Longrightarrow> cell_string s i \<Longrightarrow> cell_string s' i"
  unfolding conv_def by blast

definition memory_error :: "vm_error \<times> lua_State \<Rightarrow> bool" where
  "memory_error e \<longleftrightarrow> fst e = LuaError LUA_ERRMEM"

lemma text_at: "cell_text E s i = Some t \<Longrightarrow> \<exists>v. at (l_stack s) i = Some v \<and> value_text E s v = Some t"
  by (auto simp: cell_text_def option_bind_Some_iff)

lemma runs_stk: "at (l_stack s) i = Some v \<Longrightarrow> runs (stk i) s Q err = Q v s"
  by (simp add: stk_def runs_simps runs_def someM_def gen_defs)

lemma text_value: "value_text E s v = Some t \<Longrightarrow> ttype v = 4 \<or> ttype v = 3"
  by (auto simp: value_text_def split: TValue.splits gctag.splits)

lemma runs_strM:
  assumes "value_text E s v = Some t" "ttype v = 4"
  shows "runs (strM v) s Q err = Q t s"
  using assms by (auto simp: value_text_def strM_def runs_simps runs_def someM_def gen_defs split: TValue.splits gctag.splits)

subsection \<open>Storing a new string\<close>

lemma runs_store:
  assumes ok: "strtab_ok (g_strt s)" and m: "malloc_fresh (ve_malloc E)" and i: "0 \<le> i" "i < l_stacksize s"
  shows "runs (bindM (newstr E str) (setstk i)) s
    (\<lambda>_ s'. conv E (\<lambda>j. j \<noteq> i) s s' \<and> cell_text E s' i = Some str \<and> cell_string s' i) memory_error"
proof (cases "luaS_newlstr (ve_malloc E) str (g_strt s)")
  case (Inl e)
  have "e \<noteq> Dangling_pointer"
    using Inl find_str_memory [OF bucket_memory [OF ok]]
    by (auto simp: luaS_newlstr_def newlstr_def Let_def split: sum.splits option.splits if_splits)
  then show ?thesis using Inl
    by (cases e) (simp_all add: runs_def newstr_def gen_defs luaD_throw_def stopM_def memory_error_def)
next
  case (Inr r)
  then obtain a tb where r: "luaS_newlstr (ve_malloc E) str (g_strt s) = Inr (a, tb)" by (cases r) simp
  note n = newlstr_interns [OF ok m r]
  let ?s = "s\<lparr>g_strt := tb, l_stack := (l_stack s)[nat i := TGC LUA_TSTRING a]\<rparr>"
  have run: "bindM (newstr E str) (setstk i) s = Some (Inr ((), ?s))"
    using r i by (simp add: newstr_def gen_defs setstk_def l_stacksize_def)
  have "at (l_stack ?s) j = (if j = i then Some (TGC LUA_TSTRING a) else at (l_stack s) j)" for j
    using i by (auto simp: at_def l_stacksize_def)
  moreover have "value_text E s v = Some t \<Longrightarrow> value_text E ?s v = Some t" for v t
    using n(2,3) by (auto simp: value_text_def split: TValue.splits gctag.splits if_splits)
  ultimately have "conv E (\<lambda>j. j \<noteq> i) s ?s \<and> cell_text E ?s i = Some str \<and> cell_string ?s i"
    using n(1,2) unfolding conv_def cell_text_def cell_string_def
    by (auto simp: value_text_def option_bind_Some_iff intro!: exI [of _ tb] exI [of _ "(l_stack s)[nat i := TGC LUA_TSTRING a]"])
  with run show ?thesis by (simp add: runs_def)
qed

text \<open>\<^verbatim>\<open>tostring\<close> on a cell that has a text makes it a string with that text.\<close>

lemma runs_tostring:
  assumes ok: "strtab_ok (g_strt s)" and m: "malloc_fresh (ve_malloc E)" and t: "cell_text E s i = Some t"
  shows "runs (tostring E i) s (\<lambda>b s'. b \<and> conv E (\<lambda>_. True) s s' \<and> cell_string s' i) memory_error"
proof -
  obtain v where v: "at (l_stack s) i = Some v" "value_text E s v = Some t" using text_at [OF t] by blast
  then have i: "0 \<le> i" "i < l_stacksize s" by (auto simp: at_Some_iff l_stacksize_def)
  consider a where "v = TGC LUA_TSTRING a" | n where "v = TNumber n" "t = ve_number2str E n"
    using v(2) by (auto simp: value_text_def split: TValue.splits gctag.splits)
  then show ?thesis
  proof cases
    case 1
    then show ?thesis using v ok
      by (simp add: tostring_def runs_bind runs_stk conv_refl cell_string_def)
  next
    case 2
    have "runs (bindM (newstr E t) (setstk i)) s (\<lambda>_ s'. conv E (\<lambda>_. True) s s' \<and> cell_string s' i) memory_error"
    proof (rule runs_mono [OF runs_store [OF ok m i]])
      fix s' assume c: "conv E (\<lambda>j. j \<noteq> i) s s' \<and> cell_text E s' i = Some t \<and> cell_string s' i"
      then show "conv E (\<lambda>_. True) s s' \<and> cell_string s' i" using t unfolding conv_def by metis
    qed
    then show ?thesis using v 2
      by (simp add: tostring_def luaV_tostring_def runs_bind runs_then runs_stk)
  qed
qed

subsection \<open>One pass\<close>

lemma runs_collect:
  assumes "strtab_ok (g_strt s)" "malloc_fresh (ve_malloc E)" "0 \<le> n"
    "\<And>j. n \<le> j \<Longrightarrow> j < n + int k \<Longrightarrow> cell_text E s (tp - j - 1) \<noteq> None"
    "len + (\<Sum>j < k. int (length (the (cell_text E s (tp - n - int j - 1))))) < MAX_SIZET_int"
  shows "runs (concat_collect E call tp k n len) s
    (\<lambda>(n', _) s'. n' = n + int k \<and> conv E (\<lambda>_. True) s s' \<and>
       (\<forall>j. n \<le> j \<longrightarrow> j < n + int k \<longrightarrow> cell_string s' (tp - j - 1))) memory_error"
  using assms
proof (induction k arbitrary: n len s)
  case (Suc k)
  obtain t where t: "cell_text E s (tp - n - 1) = Some t" using Suc.prems(4) [of n] by force
  have sum: "(\<Sum>j < Suc k. int (length (the (cell_text E s (tp - n - int j - 1))))) =
      int (length t) + (\<Sum>j < k. int (length (the (cell_text E s (tp - (n + 1) - int j - 1)))))"
    unfolding sum.lessThan_Suc_shift using t by (simp add: algebra_simps del: sum.lessThan_Suc)
  show ?case
    unfolding concat_collect.simps
  proof (rule runs_bindI [OF runs_tostring [OF Suc.prems(1,2) t]])
    fix b s1 assume c: "b \<and> conv E (\<lambda>_. True) s s1 \<and> cell_string s1 (tp - n - 1)"
    have t1: "cell_text E s1 (tp - n - 1) = Some t" using conv_text c t by blast
    obtain v where v: "at (l_stack s1) (tp - n - 1) = Some v" "value_text E s1 v = Some t" using text_at [OF t1] by blast
    have ty: "ttype v = 4" using c v(1) by (auto simp: cell_string_def)
    have keep: "cell_text E s1 i = cell_text E s i" if "cell_text E s i \<noteq> None" for i
      using conv_text [of E "\<lambda>_. True" s s1] c that by force
    have texts: "cell_text E s1 (tp - j - 1) \<noteq> None" if "n + 1 \<le> j" "j < n + 1 + int k" for j
      using keep Suc.prems(4) [of j] that by simp
    have same: "(\<Sum>j < k. int (length (the (cell_text E s1 (tp - (n + 1) - int j - 1))))) =
        (\<Sum>j < k. int (length (the (cell_text E s (tp - (n + 1) - int j - 1)))))"
    proof (rule sum.cong [OF refl])
      fix j assume "j \<in> {..<k}"
      then show "int (length (the (cell_text E s1 (tp - (n + 1) - int j - 1)))) =
          int (length (the (cell_text E s (tp - (n + 1) - int j - 1))))"
        using keep Suc.prems(4) [of "n + 1 + int j"] by (simp add: algebra_simps)
    qed
    have pos: "0 \<le> (\<Sum>j < k. int (length (the (cell_text E s (tp - (n + 1) - int j - 1)))))" by (rule sum_nonneg) simp
    have small: "\<not> int (length t) \<ge> MAX_SIZET_int - len" using Suc.prems(5) pos unfolding sum by linarith
    have "runs (concat_collect E call tp k (n + 1) (len + int (length t))) s1
      (\<lambda>(n', _) s'. n' = n + 1 + int k \<and> conv E (\<lambda>_. True) s1 s' \<and>
         (\<forall>j. n + 1 \<le> j \<longrightarrow> j < n + 1 + int k \<longrightarrow> cell_string s' (tp - j - 1))) memory_error"
      using Suc.IH [of s1 "n + 1" "len + int (length t)"] conv_ok [of E "\<lambda>_. True" s s1] c Suc.prems(2,3,5) texts
      unfolding sum same by (simp add: algebra_simps)
    then have "runs (concat_collect E call tp k (n + 1) (len + int (length t))) s1
      (\<lambda>(n', _) s'. n' = n + int (Suc k) \<and> conv E (\<lambda>_. True) s s' \<and>
         (\<forall>j. n \<le> j \<longrightarrow> j < n + int (Suc k) \<longrightarrow> cell_string s' (tp - j - 1))) memory_error"
    proof (rule runs_mono, goal_cases)
      case (1 r s2)
      have "cell_string s2 (tp - j - 1)" if "n \<le> j" "j < n + int (Suc k)" for j
        using 1 that c conv_string [of E "\<lambda>_. True" s1 s2 "tp - n - 1"] by (cases "j = n") (auto split: prod.splits)
      then show ?case using 1 c conv_trans [of E "\<lambda>_. True" s s1 s2] by (auto split: prod.splits)
    qed
    then show "runs (if \<not> b then retM (n, len) else bindM (stk (tp - n - 1)) (\<lambda>v. bindM (strM v) (\<lambda>str.
         let l = int (length str) in
         if l \<ge> MAX_SIZET_int - len then luaG_runerror E call ''string length overflow''
         else concat_collect E call tp k (n + 1) (len + l)))) s1
      (\<lambda>(n', _) s'. n' = n + int (Suc k) \<and> conv E (\<lambda>_. True) s s' \<and>
         (\<forall>j. n \<le> j \<longrightarrow> j < n + int (Suc k) \<longrightarrow> cell_string s' (tp - j - 1))) memory_error"
      using c v ty small by (simp add: runs_bind runs_stk runs_strM)
  qed
qed (simp add: conv_refl)

text \<open>The texts of the \<open>n\<close> cells from \<open>b\<close> on.\<close>

definition seg :: "vm_env \<Rightarrow> lua_State \<Rightarrow> int \<Rightarrow> nat \<Rightarrow> string list" where
  "seg E s b n = map (\<lambda>j. the (cell_text E s (b + int j))) [0..<n]"

lemma seg_Suc: "seg E s (tp - int k - 1) (Suc k) = the (cell_text E s (tp - int k - 1)) # seg E s (tp - int k) k"
  unfolding seg_def upt_conv_Cons [OF zero_less_Suc] map_Suc_upt [symmetric]
  by (simp add: algebra_simps comp_def)

lemma seg_append: "seg E s b (m + n) = seg E s b m @ seg E s (b + int m) n"
  unfolding seg_def by (induction n) (simp_all add: add.assoc)

lemma seg_length:
  "int (length (concat (seg E s (tp - int k) k))) = (\<Sum>j < k. int (length (the (cell_text E s (tp - int j - 1)))))"
proof (induction k)
  case (Suc k)
  have "tp - int (Suc k) = tp - int k - 1" by simp
  then show ?case using Suc.IH by (simp only: seg_Suc) simp
qed (simp add: seg_def)

lemma seg_cong: "(\<And>j. j < n \<Longrightarrow> cell_text E s (b + int j) = cell_text E s' (b + int j)) \<Longrightarrow> seg E s b n = seg E s' b n"
  by (simp add: seg_def)

lemma runs_copy:
  assumes "\<And>j. j < i \<Longrightarrow> cell_string s (tp - int j - 1) \<and> cell_text E s (tp - int j - 1) \<noteq> None"
  shows "runs (concat_copy tp i) s (\<lambda>str s'. s' = s \<and> str = concat (seg E s (tp - int i) i)) err"
  using assms
proof (induction i)
  case (Suc i)
  have p: "tp - int (Suc i) = tp - int i - 1" by simp
  obtain t where t: "cell_text E s (tp - int i - 1) = Some t" and str: "cell_string s (tp - int i - 1)"
    using Suc.prems [of i] by auto
  obtain v where v: "at (l_stack s) (tp - int i - 1) = Some v" "value_text E s v = Some t" using text_at [OF t] by blast
  have "ttype v = 4" using str v(1) by (auto simp: cell_string_def)
  moreover have "runs (concat_copy tp i) s (\<lambda>str s'. s' = s \<and> str = concat (seg E s (tp - int i) i)) err"
    using Suc.IH Suc.prems by simp
  ultimately show ?case
    unfolding concat_copy.simps p seg_Suc using v t
    by (simp add: runs_bind runs_stk runs_strM seg_Suc)
qed (simp add: seg_def)

definition joined :: "vm_env \<Rightarrow> int \<Rightarrow> nat \<Rightarrow> lua_State \<Rightarrow> lua_State \<Rightarrow> bool" where
  "joined E b n s s' \<longleftrightarrow>
     conv E (\<lambda>j. j < b) s s' \<and> cell_text E s' b = Some (concat (seg E s b n)) \<and> cell_string s' b"

lemma runs_pass:
  assumes ok: "strtab_ok (g_strt s)" and m: "malloc_fresh (ve_malloc E)" and N: "2 \<le> N"
    and texts: "\<And>j. j < N \<Longrightarrow> cell_text E s (tp - int j - 1) \<noteq> None"
    and small: "int (length (concat (seg E s (tp - int N) N))) < MAX_SIZET_int"
  shows "runs (concat_pass E call (int N) tp) s
    (\<lambda>n s'. \<exists>k. n = int k \<and> 2 \<le> k \<and> k \<le> N \<and> joined E (tp - int k) k s s') memory_error"
proof -
  obtain t1 t2 where t: "cell_text E s (tp - 1) = Some t1" "cell_text E s (tp - 2) = Some t2"
    using texts [of 0] texts [of 1] N by auto
  obtain v2 where v2: "at (l_stack s) (tp - 2) = Some v2" "value_text E s v2 = Some t2" using text_at [OF t(2)] by blast
  note ty2 = text_value [OF v2(2)]
  let ?Q = "\<lambda>n s'. \<exists>k. n = int k \<and> 2 \<le> k \<and> k \<le> N \<and> joined E (tp - int k) k s s'"
  let ?rest = "\<lambda>ok. bindM (stk (tp - 1)) (\<lambda>v1.
     if \<not> ok then
       bindM (call_binTM E call v2 v1 (tp - 2) TM_CONCAT) (\<lambda>b.
       if b then retM 2 else luaG_concaterror_L E call (tp - 2) (tp - 1))
     else
       bindM (strM v1) (\<lambda>s1.
       if s1 = [] then bindM (tostring E (tp - 2)) (\<lambda>_. retM 2)
       else
         bindM (concat_collect E call tp (nat (int N - 1)) 1 (int (length s1))) (\<lambda>(n, tl).
         bindM (concat_copy tp (nat n)) (\<lambda>buffer.
         bindM (newstr E buffer) (\<lambda>v. thenM (setstk (tp - n) v) (retM n))))))"
  have "runs (?rest b) s1 ?Q memory_error"
    if c: "b \<and> conv E (\<lambda>_. True) s s1 \<and> cell_string s1 (tp - 1)" for b s1
  proof -
    have keep: "cell_text E s1 i = cell_text E s i" if "cell_text E s i \<noteq> None" for i
      using conv_text [of E "\<lambda>_. True" s s1] c that by force
    have ok1: "strtab_ok (g_strt s1)" using c conv_ok by blast
    have t1: "cell_text E s1 (tp - 1) = Some t1" using keep t(1) by simp
    obtain v1 where v1: "at (l_stack s1) (tp - 1) = Some v1" "value_text E s1 v1 = Some t1" using text_at [OF t1] by blast
    have ty1: "ttype v1 = 4" using c v1(1) by (auto simp: cell_string_def)
    have segs: "seg E s1 (tp - int k) k = seg E s (tp - int k) k" if "k \<le> N" for k
    proof (rule seg_cong)
      fix j assume j: "j < k"
      then have "tp - int k + int j = tp - int (k - 1 - j) - 1" by simp
      then show "cell_text E s1 (tp - int k + int j) = cell_text E s (tp - int k + int j)"
        unfolding \<open>tp - int k + int j = _\<close> using keep texts [of "k - 1 - j"] that j by simp
    qed
    show ?thesis
    proof (cases "t1 = []")
      case True
      have t2: "cell_text E s1 (tp - 2) = Some t2" using keep t(2) by simp
      have two: "seg E s (tp - int 2) 2 = [t2, []]"
        using t True by (simp add: seg_def numeral_2_eq_2)
      have "runs (bindM (tostring E (tp - 2)) (\<lambda>_. retM 2)) s1 ?Q memory_error"
      proof (rule runs_bindI [OF runs_tostring [OF ok1 m t2]])
        fix b' s2 assume d: "b' \<and> conv E (\<lambda>_. True) s1 s2 \<and> cell_string s2 (tp - 2)"
        have "conv E (\<lambda>_. True) s s2" using conv_trans c d by blast
        then have "conv E (\<lambda>j. j < tp - int 2) s s2" by (rule conv_weaken) simp
        moreover have "cell_text E s2 (tp - int 2) = Some t2" using conv_text [of E "\<lambda>_. True" s1 s2, OF _ TrueI t2] d by simp
        ultimately have "joined E (tp - int 2) 2 s s2" using d two by (simp add: joined_def)
        then show "runs (retM 2) s2 ?Q memory_error" using N by (auto intro!: exI [of _ 2])
      qed
      then show ?thesis using c v1 ty1 True by (simp add: runs_bind runs_stk runs_strM)
    next
      case False
      obtain k where k: "N = Suc k" using N by (cases N) auto
      have sum: "int (length t1) + (\<Sum>j < k. int (length (the (cell_text E s1 (tp - 1 - int j - 1))))) < MAX_SIZET_int"
      proof -
        have "int (length (concat (seg E s1 (tp - int N) N))) < MAX_SIZET_int" using small segs [of N] by simp
        then show ?thesis using t1 unfolding seg_length k sum.lessThan_Suc_shift
          by (simp add: algebra_simps del: sum.lessThan_Suc)
      qed
      have tx: "cell_text E s1 (tp - j - 1) \<noteq> None" if "1 \<le> j" "j < 1 + int k" for j
        using keep texts [of "nat j"] that k by simp
      have col: "runs (concat_collect E call tp k 1 (int (length t1))) s1 (\<lambda>(n', _) s'. n' = 1 + int k \<and>
          conv E (\<lambda>_. True) s1 s' \<and> (\<forall>j. 1 \<le> j \<longrightarrow> j < 1 + int k \<longrightarrow> cell_string s' (tp - j - 1))) memory_error"
        by (rule runs_collect [OF ok1 m _ tx sum]) simp_all
      have "runs (bindM (concat_collect E call tp k 1 (int (length t1))) (\<lambda>(n, tl).
         bindM (concat_copy tp (nat n)) (\<lambda>buffer.
         bindM (newstr E buffer) (\<lambda>v. thenM (setstk (tp - n) v) (retM n))))) s1 ?Q memory_error"
      proof (rule runs_bindI [OF col])
        fix r s2 assume "(case r of (n', _) \<Rightarrow> \<lambda>s'. n' = 1 + int k \<and> conv E (\<lambda>_. True) s1 s' \<and>
           (\<forall>j. 1 \<le> j \<longrightarrow> j < 1 + int k \<longrightarrow> cell_string s' (tp - j - 1))) s2"
        then obtain tl where d: "r = (1 + int k, tl)" "conv E (\<lambda>_. True) s1 s2"
          "\<And>j. 1 \<le> j \<Longrightarrow> j < 1 + int k \<Longrightarrow> cell_string s2 (tp - j - 1)" by (cases r) auto
        have str: "cell_string s2 (tp - int j - 1)" if "j < N" for j
          using d(3) [of "int j"] that k conv_string [OF d(2) TrueI, of "tp - 1"] c by (cases j) auto
        have keep2: "cell_text E s2 i = cell_text E s i" if "cell_text E s i \<noteq> None" for i
          using conv_text [OF d(2) TrueI] keep that by force
        let ?all = "concat (seg E s (tp - int N) N)"
        have pos: "tp - int N + int j = tp - int (N - 1 - j) - 1" if "j < N" for j using that by simp
        have "seg E s2 (tp - int N) N = seg E s (tp - int N) N"
        proof (rule seg_cong)
          fix j assume "j < N"
          then show "cell_text E s2 (tp - int N + int j) = cell_text E s (tp - int N + int j)"
            unfolding pos [OF \<open>j < N\<close>] using keep2 texts [of "N - 1 - j"] by simp
        qed
        then have cp: "runs (concat_copy tp N) s2 (\<lambda>str s'. s' = s2 \<and> str = ?all) memory_error"
          using runs_copy [of N s2 tp E memory_error] str keep2 texts by simp
        have at: "0 \<le> tp - int N" "tp - int N < l_stacksize s2"
          using str [of k] k by (auto simp: cell_string_def at_Some_iff l_stacksize_def)
        have st: "runs (bindM (newstr E ?all) (\<lambda>v. thenM (setstk (tp - int N) v) (retM (int N)))) s2 ?Q memory_error"
        proof -
          have "runs (bindM (newstr E ?all) (setstk (tp - int N))) s2 (\<lambda>_ s'. joined E (tp - int N) N s s') memory_error"
          proof (rule runs_mono [OF runs_store [OF conv_ok [OF d(2)] m at]])
            fix s3 assume e: "conv E (\<lambda>j. j \<noteq> tp - int N) s2 s3 \<and> cell_text E s3 (tp - int N) = Some ?all \<and>
              cell_string s3 (tp - int N)"
            have "conv E (\<lambda>j. j < tp - int N) s s2" using conv_trans [of E "\<lambda>_. True" s s1 s2] c d(2) conv_weaken by blast
            moreover have "conv E (\<lambda>j. j < tp - int N) s2 s3"
              by (rule conv_weaken [where keep = "\<lambda>j. j \<noteq> tp - int N"]) (use e in auto)
            ultimately show "joined E (tp - int N) N s s3" using e conv_trans unfolding joined_def by blast
          qed
          then show ?thesis using N by (auto simp: runs_bind runs_then elim!: runs_mono)
        qed
        have n: "1 + int k = int N" "nat (int N) = N" using k by simp_all
        show "runs (case r of (n, tl) \<Rightarrow> bindM (concat_copy tp (nat n)) (\<lambda>buffer.
            bindM (newstr E buffer) (\<lambda>v. thenM (setstk (tp - n) v) (retM n)))) s2 ?Q memory_error"
          unfolding d(1) prod.case n by (rule runs_bindI [OF cp]) (use st in simp)
      qed
      then show ?thesis using c v1 ty1 False k by (simp add: runs_bind runs_stk runs_strM)
    qed
  qed
  then have rest: "runs (?rest b) s1 ?Q memory_error"
    if "b \<and> conv E (\<lambda>_. True) s s1 \<and> cell_string s1 (tp - 1)" for b s1 using that .
  have "runs (bindM (tostring E (tp - 1)) ?rest) s ?Q memory_error"
    by (rule runs_bindI [OF runs_tostring [OF ok m t(1)]]) (rule rest)
  then show ?thesis
    unfolding concat_pass_def using v2 ty2 by (auto simp: runs_bind runs_stk)
qed

subsection \<open>The whole\<close>

lemma runs_luaV_concat:
  "runs (luaV_concat E call cnt lst) s Q err \<longleftrightarrow>
   runs (bindM (concat_pass E call cnt (l_base s + lst + 1)) (\<lambda>n.
     if cnt - (n - 1) > 1 then luaV_concat E call (cnt - (n - 1)) (lst - (n - 1)) else retM ())) s Q err"
  unfolding runs_def by (subst luaV_concat.simps) (simp add: gen_defs)

lemma joined_base: "joined E b n s s' \<Longrightarrow> l_base s' = l_base s"
  by (auto simp: joined_def conv_def)

lemma concat_joins:
  assumes "2 \<le> N" "strtab_ok (g_strt s)" "malloc_fresh (ve_malloc E)" "tp = l_base s + lst + 1"
    "\<And>j. j < N \<Longrightarrow> cell_text E s (tp - int N + int j) \<noteq> None"
    "int (length (concat (seg E s (tp - int N) N))) < MAX_SIZET_int"
  shows "runs (luaV_concat E call (int N) lst) s (\<lambda>_ s'. joined E (tp - int N) N s s') memory_error"
  using assms
proof (induction N arbitrary: s lst tp rule: less_induct)
  case (less N)
  let ?b = "tp - int N"
  have texts: "cell_text E s (tp - int j - 1) \<noteq> None" if "j < N" for j
    using less.prems(5) [of "N - 1 - j"] that by (simp add: algebra_simps)
  show ?case
    unfolding runs_luaV_concat less.prems(4) [symmetric]
  proof (rule runs_bindI [OF runs_pass [OF less.prems(2,3,1) texts less.prems(6)]], assumption, elim exE conjE)
    fix n s1 k assume k: "n = int k" "2 \<le> k" "k \<le> N" and j: "joined E (tp - int k) k s s1"
    show "runs (if int N - (n - 1) > 1 then luaV_concat E call (int N - (n - 1)) (lst - (n - 1)) else retM ()) s1
        (\<lambda>_ s'. joined E ?b N s s') memory_error"
    proof (cases "k = N")
      case True
      then show ?thesis using j k by simp
    next
      case False
      define M where "M = N - (k - 1)"
      have M: "M < N" "2 \<le> M" "int M = int N - (int k - 1)" "M = Suc (N - k)" using k False by (auto simp: M_def)
      have c: "conv E (\<lambda>j. j < tp - int k) s s1" "cell_text E s1 (tp - int k) = Some (concat (seg E s (tp - int k) k))"
        using j by (auto simp: joined_def)
      have b: "tp - (int k - 1) - int M = ?b" "tp - int k = ?b + int (N - k)"
        using M(3) k(3) by (simp_all add: of_nat_diff)
      have below: "cell_text E s1 (?b + int j) = cell_text E s (?b + int j)" if "j < N - k" for j
      proof -
        have "j < N" using that by simp
        then obtain t where "cell_text E s (?b + int j) = Some t" using less.prems(5) by blast
        moreover have "?b + int j < tp - int k" unfolding b(2) using that by (simp only: of_nat_less_iff add_less_cancel_left)
        ultimately show ?thesis using conv_text [OF c(1)] by simp
      qed
      have "seg E s1 ?b (N - k) = seg E s ?b (N - k)" by (rule seg_cong) (rule below)
      then have "seg E s1 ?b M = seg E s ?b (N - k) @ [concat (seg E s (tp - int k) k)]"
        using c(2) unfolding M(4) b(2) by (simp add: seg_def)
      moreover have "seg E s ?b N = seg E s ?b (N - k) @ seg E s (tp - int k) k"
        using seg_append [of E s ?b "N - k" k, folded b(2)] k(3) by simp
      ultimately have segs: "concat (seg E s1 ?b M) = concat (seg E s ?b N)" by simp
      have ts: "cell_text E s1 (?b + int j) \<noteq> None" if "j < M" for j
      proof (cases "j < N - k")
        case True
        then show ?thesis using below less.prems(5) [of j] by simp
      next
        case False
        then have "j = N - k" using that M(4) by simp
        then have "?b + int j = tp - int k" using b(2) by (simp only:)
        then show ?thesis using c(2) by (simp only: option.simps) simp
      qed
      have base: "tp - (int k - 1) = l_base s1 + (lst - (int k - 1)) + 1"
        using joined_base [OF j] less.prems(4) by simp
      have "runs (luaV_concat E call (int M) (lst - (int k - 1))) s1
          (\<lambda>_ s'. joined E (tp - (int k - 1) - int M) M s1 s') memory_error"
        using less.IH [OF M(1,2) conv_ok [OF c(1)] less.prems(3) base] ts segs less.prems(6) unfolding b(1) by simp
      then have "runs (luaV_concat E call (int M) (lst - (int k - 1))) s1 (\<lambda>_ s'. joined E ?b N s s') memory_error"
      proof (rule runs_mono)
        fix s2 assume "joined E (tp - (int k - 1) - int M) M s1 s2"
        then have "joined E ?b M s1 s2" unfolding b(1) .
        moreover have "conv E (\<lambda>j. j < ?b) s s1" by (rule conv_weaken [OF c(1)]) (use k(3) in linarith)
        ultimately show "joined E ?b N s s2" using conv_trans segs unfolding joined_def by (metis (no_types, lifting))
      qed
      moreover have "int N - (n - 1) = int M" "lst - (n - 1) = lst - (int k - 1)" "int M > 1" using M(2,3) k(1) by simp_all
      ultimately show ?thesis by simp
    qed
  qed
qed

text \<open>
  C15: concatenation ends and joins: when the operands are strings and numbers (and their total length
  is below the limit), \<^verbatim>\<open>luaV_concat\<close> leaves in the place of the first one a string, the texts of
  all operands in order; the cells below keep their texts.  It calls no metamethod and can only
  fail for want of memory.\<close>

theorem concat_correct:
  assumes "2 \<le> N" "strtab_ok (g_strt s)" "malloc_fresh (ve_malloc E)"
    "map (cell_text E s) [b..b + int N - 1] = map Some ts" "b = l_base s + lst + 1 - int N"
    "int (length (concat ts)) < MAX_SIZET_int"
  shows "runs (luaV_concat E call (int N) lst) s
    (\<lambda>_ s'. (\<exists>a. at (l_stack s') b = Some (TGC LUA_TSTRING a) \<and> str_at (g_strt s') a = Some (concat ts)) \<and>
       (\<forall>i t. i < b \<longrightarrow> cell_text E s i = Some t \<longrightarrow> cell_text E s' i = Some t)) memory_error"
proof -
  have l: "length ts = N" using arg_cong [OF assms(4), of length] by simp
  have c: "cell_text E s (b + int j) = Some (ts ! j)" if "j < N" for j
  proof -
    have "map (cell_text E s) [b..b + int N - 1] ! j = map Some ts ! j" using assms(4) by simp
    then show ?thesis using that l by (simp add: nth_upto)
  qed
  have b: "b = l_base s + lst + 1 - int N" by (rule assms(5))
  have "seg E s b N = ts" using c l by (intro nth_equalityI) (simp_all add: seg_def)
  then have "runs (luaV_concat E call (int N) lst) s (\<lambda>_ s'. joined E b N s s') memory_error"
    using concat_joins [OF assms(1-3) refl, of lst call] c assms(6) unfolding b by simp
  then show ?thesis
  proof (rule runs_mono)
    fix s' assume j: "joined E b N s s'"
    then obtain a where a: "at (l_stack s') b = Some (TGC LUA_TSTRING a)" by (auto simp: joined_def cell_string_def)
    then have "str_at (g_strt s') a = Some (concat ts)"
      using j \<open>seg E s b N = ts\<close> by (simp add: joined_def cell_text_def value_text_def)
    with a j show "(\<exists>a. at (l_stack s') b = Some (TGC LUA_TSTRING a) \<and> str_at (g_strt s') a = Some (concat ts)) \<and>
       (\<forall>i t. i < b \<longrightarrow> cell_text E s i = Some t \<longrightarrow> cell_text E s' i = Some t)"
      unfolding joined_def using conv_text by blast
  qed
qed

text \<open>\<^verbatim>\<open>"x" .. 2 .. "x"\<close> in the first three registers.\<close>

definition concat_state :: lua_State where
  "concat_state = demo_state\<lparr>l_stack := TNil # [TGC LUA_TSTRING 0, TNumber 2, TGC LUA_TSTRING 0] @ replicate 41 TNil,
     g_strt := empty_strtab 2\<lparr>
       st_mem := [0 \<mapsto> \<lparr>ts_bytes = ''x'', ts_hash = luaS_hash ''x'', ts_marked = 1\<rparr>],
       st_hash := (replicate 2 [])[lmod (luaS_hash ''x'') 2 := [0]]\<rparr>\<rparr>"

theorem concat_correct_witness:
  "runs (luaV_concat demo_env (\<lambda>_ _ _. None) 3 2) concat_state
     (\<lambda>_ s'. \<exists>a. at (l_stack s') 1 = Some (TGC LUA_TSTRING a) \<and> str_at (g_strt s') a = Some ''x1x'') memory_error"
proof -
  have h: "lmod (luaS_hash ''x'') 2 = 1 \<or> lmod (luaS_hash ''x'') 2 = 0" by code_simp
  have ok: "strtab_ok (g_strt concat_state)"
  proof (rule strtab_okI)
    show "length (st_hash (g_strt concat_state)) = 2 ^ 1" by (simp add: concat_state_def empty_strtab_def)
    fix i assume "i < length (st_hash (g_strt concat_state))"
    then have i: "i = 0 \<or> i = 1" by (auto simp: concat_state_def empty_strtab_def)
    show "distinct (st_hash (g_strt concat_state) ! i)"
      using i h by (auto simp: concat_state_def empty_strtab_def numeral_2_eq_2)
    show "a \<in> set (st_hash (g_strt concat_state) ! i) \<longleftrightarrow> in_bucket (g_strt concat_state) i a" for a
      using i h by (auto simp: concat_state_def empty_strtab_def in_bucket_def st_size_def numeral_2_eq_2)
  qed (auto simp: concat_state_def empty_strtab_def str_at_def split: if_splits)
  have m: "malloc_fresh (ve_malloc demo_env)"
    by (auto simp: malloc_fresh_def demo_env_def demo_malloc_def Let_def split: option.splits)
  have ts: "map (cell_text demo_env concat_state) [1..1 + int 3 - 1] = map Some [''x'', ''1'', ''x'']"
    by code_simp
  have "1 = l_base concat_state + 2 + 1 - int 3" "int (length (concat [''x'', ''1'', ''x''])) < MAX_SIZET_int"
    by (simp_all add: concat_state_def demo_state_def MAX_SIZET_int_def)
  from concat_correct [OF _ ok m ts this, of "\<lambda>_ _ _. None"]
  have "runs (luaV_concat demo_env (\<lambda>_ _ _. None) (int 3) 2) concat_state
     (\<lambda>_ s'. (\<exists>a. at (l_stack s') 1 = Some (TGC LUA_TSTRING a) \<and> str_at (g_strt s') a = Some (concat [''x'', ''1'', ''x''])) \<and>
       (\<forall>i t. i < 1 \<longrightarrow> cell_text demo_env concat_state i = Some t \<longrightarrow> cell_text demo_env s' i = Some t)) memory_error"
    by simp
  then show ?thesis by (auto elim!: runs_mono)
qed

end
