(* ===== verification/Spec2Isabelle.thy ===== *)
theory Spec2Isabelle
  imports Labrea_Runs Table_Runs Chunk_Load Checker_Flow Debug_Info Codegen_Jumps Codegen_Inv Lexer_Runs Strlib_Format Tablib_Laws
    Parser_Scope Parser_Fuel Vm_Flow Vm_Tagmethods Vm_Upvalues Vm_Frames Vm_Concat
begin

text \<open>
  A model of labrea and of the Lua 5.1.4 it is built on.

  \<^bold>\<open>The program.\<close>  labrea is a library preloaded into a process.  It replaces the C functions
  listed in \<^verbatim>\<open>calls.defs\<close> by generated wrappers (\<^verbatim>\<open>mkwrapfuns.py\<close>, \<^verbatim>\<open>mkcallfuns.py\<close>,
  \<^verbatim>\<open>mkgeninvoker.py\<close>) that run hooks of a Lua script before, around and after the original
  (\<^verbatim>\<open>scripting.cc\<close>), under one lock and a per-thread flag (\<^verbatim>\<open>locks.hh\<close>,
  \<^verbatim>\<open>script_state.hh\<close>).  The scripts run in an interpreter whose sources are in
  \<^verbatim>\<open>lua-5.1.4/src\<close>: a lexer, a parser and a code generator make functions of a script, a checker
  guards functions loaded in compiled form, and tables hold the data, among them the table of
  hooks itself.

  \<^bold>\<open>labrea.\<close>
  \<^item> \<open>Labrea_Calls\<close>: argument types, the table of functions and its initialisation
    (\<^verbatim>\<open>labrea.cc\<close>), and the generated invoker dispatch: a row is found by name, its invoker by
    the offset its signature encodes.
  \<^item> \<open>Labrea_State\<close>: the state of one thread (the lock, the flag, the hooks, the original
    functions as a parameter) and the actions on it; \<open>Labrea_Api\<close>: the \<^verbatim>\<open>labrea.*\<close>
    functions; \<open>Labrea_Hooks\<close>: the wrapper, the three kinds of hook, initialisation, the
    destructor and the timer thread.
  \<^item> \<open>Labrea_Safety\<close> and \<open>Labrea_Threads\<close>: lock pairing, hook order, no nesting, mutual
    exclusion and progress for any number of threads; \<open>Labrea_Forward\<close>: transparency;
    \<open>Labrea_Limits\<close>: the calls that deadlock, abort or lose information; \<open>Labrea_Runs\<close>: closed
    examples.
  The C library functions that are wrapped, and the interpreter that runs a hook, are
  parameters: a hook is any function of the state.

  \<^bold>\<open>Lua values and tables.\<close>
  \<^item> \<open>Prelude\<close>, \<open>Numbers\<close>, \<open>Objects\<close>, \<open>Opcodes\<close>, \<open>Protos\<close>: machine widths; doubles as bit
    patterns with their comparisons and conversions (\<^verbatim>\<open>luaconf.h\<close>); tagged values, size bytes and
    message formatting (\<^verbatim>\<open>lobject.c\<close>); instruction formats (\<^verbatim>\<open>lopcodes.h\<close>); prototypes.
  \<^item> \<open>Tables\<close>: all of \<^verbatim>\<open>ltable.c\<close>.  The theorems follow in layers: chains
    (\<open>Table_Chains\<close>, over the interface \<open>hashing\<close>), searches and well-formedness
    (\<open>Table_Laws\<close>), insertion (\<open>Table_Insert\<close>), growth (\<open>Table_Rehash\<close>, \<open>Table_Set\<close>), the
    table as a finite map (\<open>Table_Map\<close>, the interface \<open>lua_map\<close>) and examples (\<open>Table_Runs\<close>).
    The recursion between \<^verbatim>\<open>luaH_set\<close> and \<^verbatim>\<open>rehash\<close> is bounded by a depth of two, which is
    proved to be enough.

  \<^bold>\<open>From a script to code.\<close>
  \<^item> \<open>Ctype\<close>, \<open>Lexer\<close>: the lexer (\<^verbatim>\<open>llex.c\<close>) over a buffered stream (\<open>Zio\<close>,
    \<^verbatim>\<open>lzio.c\<close>); \<open>Lexer_Laws\<close>, \<open>Lexer_Runs\<close>: it is total and memory safe, and reads quoted
    strings back.
  \<^item> \<open>Monads\<close>, \<open>Codegen\<close>, \<open>Codegen_Exp\<close>: all of \<^verbatim>\<open>lcode.c\<close> as computations on the state of
    the function being compiled.  Its loops along jump lists end only on acyclic lists, so a
    computation may be \<^const>\<open>None\<close>: \<open>Codegen_Jumps\<close> shows that the loops end on well-formed
    lists and what they patch; \<open>Codegen_Consts\<close>: constants and folding; \<open>Codegen_Inv\<close>: the
    invariant every operation keeps.
  \<^item> \<open>Parser\<close>, \<open>Grammar\<close>, \<open>Statements\<close>: all of \<^verbatim>\<open>lparser.c\<close>, over the lexer and the code
    generator.  The state holds the functions being compiled, innermost first.  The functions of
    the grammar call each other through a record of the recursive ones, \<open>grammar E n\<close>, which may
    nest \<open>n\<close> deep.  \<open>Parser_Laws\<close>, \<open>Parser_Locals\<close> and \<open>Parser_Runs\<close> give every function a law:
    what is left to read shrinks (\<open>Lexer_Frame\<close>: a token read leaves the others), and every
    function being compiled keeps its invariant; so twice the length of the chunk plus three is
    enough fuel, and what is returned passes the checker's first tests.  \<open>Parser_Fuel\<close>: more fuel
    changes nothing; the properties.  \<open>Parser_Scope\<close>: names are resolved by lexical scoping.  A
    run of the parser may still be \<^const>\<open>None\<close> where a loop of the code generator is.

  \<^bold>\<open>Compiled functions.\<close>
  \<^item> \<open>Dump\<close>, \<open>Undump\<close>, \<open>Chunks\<close>, \<open>Chunk_Load\<close>: \<^verbatim>\<open>ldump.c\<close> and \<^verbatim>\<open>lundump.c\<close>; every
    function that is written is read back, from blocks of any size.
  \<^item> \<open>Checker\<close>, \<open>Checker_Laws\<close>, \<open>Checker_Flow\<close>: the bytecode checker of \<^verbatim>\<open>ldebug.c\<close> and what its
    acceptance means for the control flow of \<^verbatim>\<open>luaV_execute\<close>; \<open>Debug_Info\<close>: names of variables
    and call levels in error messages.

  \<^bold>\<open>The interpreter.\<close>
  \<^item> \<open>Lstring\<close>: the string table (\<^verbatim>\<open>lstring.c\<close>), which gives equal strings one address.
  \<^item> \<open>Vm_State\<close>: \<open>lua_State\<close> (\<^verbatim>\<open>lstate.h\<close>): the stack as a list, frames (\<open>CallInfo\<close>, innermost first), and the heap
    as one map per kind of object from addresses; what is outside the model is a field of
    \<open>vm_env\<close>: C functions, hooks, the collector, memory, the C library.  Tag methods (\<^verbatim>\<open>ltm.c\<close>),
    closures and upvalues (\<^verbatim>\<open>lfunc.c\<close>).
  \<^item> \<open>Vm_Calls\<close>: \<^verbatim>\<open>ldo.c\<close>: growth of the stack, hooks, frames, returns, protected calls, and the run-time
    errors of \<^verbatim>\<open>ldebug.c\<close>; \<open>Vm_Ops\<close>: \<^verbatim>\<open>lvm.c\<close> up to \<^verbatim>\<open>Arith\<close>: access to tables through tag methods,
    comparison, concatenation, arithmetic; \<open>Vm\<close>: \<^verbatim>\<open>luaV_execute\<close>, one definition for each group of
    instructions.  A script may loop for ever, so the loop is a partial function.  What may
    call a function takes \<^verbatim>\<open>luaD_call\<close> as an argument; \<open>luaD_call E n\<close> nests \<open>n\<close> deep and gives
    \<^const>\<open>None\<close> beyond, and the C code raises an error before \<open>LUAI_MAXCCALLS\<close> and an eighth of it.
    \<open>Vm_Demo\<close>: a small function run.
  \<^item> \<open>Vm_Flow\<close>: the interpreter takes only the steps that \<open>Checker_Flow\<close> allows, so a checked
    function never leaves its code; \<open>Vm_Frames\<close>: arguments and results; \<open>Vm_Concat\<close>:
    concatenation; \<open>Vm_Upvalues\<close>: one upvalue for a variable, closing unseen;
    \<open>Vm_Tagmethods\<close>: the cache of absent methods, and where it lies.

  \<^bold>\<open>The string library\<close> (\<^verbatim>\<open>lstrlib.c\<close>).
  \<^item> \<open>Patterns\<close>: the pattern matcher; \<open>Pattern_Laws\<close> states by an inductive relation what it is
    for a pattern to match, and shows through the interface \<open>rest_matcher\<close> that the backtracking
    search finds a match exactly when there is one; \<open>Pattern_Safety\<close>: no read past either
    string, and where captures lie.
  \<^item> \<open>Strlib\<close>, \<open>Strlib_Laws\<close>, \<open>Strlib_Format\<close>: slices, searches, \<^verbatim>\<open>gmatch\<close>, \<^verbatim>\<open>gsub\<close> and the scan of
    \<^verbatim>\<open>format\<close>.

  \<^bold>\<open>The table library\<close> (\<^verbatim>\<open>ltablib.c\<close>).
  \<^item> \<open>Compare\<close>: the order of values and strings (\<^verbatim>\<open>lvm.c\<close>); \<open>Tablib\<close>: \<^verbatim>\<open>sort\<close>, \<^verbatim>\<open>insert\<close>,
    \<^verbatim>\<open>remove\<close>, \<^verbatim>\<open>concat\<close>, \<^verbatim>\<open>foreachi\<close> on a table seen as a map from integers; \<open>Tablib_Sort\<close>: sorting is
    correct for every comparison that satisfies the interface \<open>sort_order\<close>, and may never end for
    one that does not; \<open>Tablib_Laws\<close>: insertion, removal and concatenation.

  \<^bold>\<open>Conventions.\<close>  A C function that may throw gives a sum (\<^const>\<open>Inl\<close> the error); one that
  touches memory through an index that could be bad gives an error value of its own for it
  (\<open>OutOfBounds\<close>, \<open>BadRead\<close>), and the safety theorems show that it never occurs.  Code outside
  the repository is a parameter: the C library's \<^verbatim>\<open>strtod\<close>, \<^verbatim>\<open>sprintf\<close>, arithmetic on doubles
  and the wrapped functions.

  \<^bold>\<open>Not modelled.\<close>  Coroutines and the protected parser of \<^verbatim>\<open>ldo.c\<close>, userdata, the creation of states
  (\<^verbatim>\<open>lstate.c\<close>), the functions of the API (\<^verbatim>\<open>lapi.c\<close>), the garbage collector and the other standard
  libraries.  The limit on nested C calls is modelled in the loader and the interpreter only, and
  memory may run out only for the string table and the objects that the interpreter makes.
  \<^verbatim>\<open>print.c\<close>, \<^verbatim>\<open>luac.c\<close> and \<^verbatim>\<open>lua.c\<close> are
  command line tools that labrea does not link; \<^verbatim>\<open>liolib.c\<close>, \<^verbatim>\<open>loslib.c\<close>, \<^verbatim>\<open>loadlib.c\<close> and
  \<^verbatim>\<open>ldblib.c\<close> are glue to the operating system and the debug interface.
\<close>

end
